(* ===== verification/Prelude.thy ===== *)
theory Prelude
  imports Main "HOL-Library.Word" "HOL-Library.AList"
begin

text \<open>
  Shared vocabulary of the development: byte strings, Python's big-endian integer
  conversions \<open>int.from_bytes\<close> and \<open>int.to_bytes\<close>, insertion-ordered dictionaries
  (association lists with distinct keys), and the chaining of computations that may raise.
  The generic lemmas the components share are here, declared \<open>simp\<close> or collected in
  the named theorem lists below.
\<close>

unbundle bit_operations_syntax

type_synonym byte = "8 word"
type_synonym bytes = "byte list"

named_theorems fits_simps \<open>range conditions of the fixed-width integer fields\<close>
named_theorems consumes_intros \<open>what a decoder consumes, one rule per combinator and field\<close>
named_theorems reader_mono \<open>decoders only move the position of a reader forward\<close>

section \<open>Computations that may raise\<close>

text \<open>A value of \<open>'e + 'a\<close> is an exception (\<open>Inl\<close>) or a result (\<open>Inr\<close>).\<close>

definition bind_sum :: "'e + 'a \<Rightarrow> ('a \<Rightarrow> 'e + 'b) \<Rightarrow> 'e + 'b" where
  "bind_sum m f = (case m of Inl e \<Rightarrow> Inl e | Inr x \<Rightarrow> f x)"

lemma bind_sum_simps [simp]:
  "bind_sum (Inl e) f = Inl e"
  "bind_sum (Inr x) f = f x"
  by (simp_all add: bind_sum_def)

lemma bind_sum_eq_Inr [simp]:
  "bind_sum m f = Inr y \<longleftrightarrow> (\<exists>x. m = Inr x \<and> f x = Inr y)"
  by (cases m) simp_all

lemma Inr_eq_bind_sum [simp]:
  "Inr y = bind_sum m f \<longleftrightarrow> (\<exists>x. m = Inr x \<and> f x = Inr y)"
  by (cases m) auto

text \<open>The loop \<open>for x in xs: state = f(state, x)\<close> whose body may raise.\<close>

fun fold_sum :: "('s \<Rightarrow> 'x \<Rightarrow> 'e + 's) \<Rightarrow> 's \<Rightarrow> 'x list \<Rightarrow> 'e + 's" where
  "fold_sum f s [] = Inr s"
| "fold_sum f s (x # xs) = bind_sum (f s x) (\<lambda>s'. fold_sum f s' xs)"

lemma fold_sum_append:
  "fold_sum f s (xs @ ys) = bind_sum (fold_sum f s xs) (\<lambda>s'. fold_sum f s' ys)"
proof (induction xs arbitrary: s)
  case (Cons x xs)
  then show ?case by (cases "f s x") simp_all
qed simp

section \<open>Byte strings and big-endian integers\<close>

text \<open>\<open>str.encode("ascii")\<close> of an ASCII literal.\<close>

definition ascii :: "string \<Rightarrow> bytes" where
  "ascii s = map of_char s"

text \<open>\<open>int.from_bytes(bs, "big")\<close>.\<close>

definition from_bytes :: "bytes \<Rightarrow> int" where
  "from_bytes bs = foldl (\<lambda>n b. n * 256 + uint b) 0 bs"

text \<open>The \<open>n\<close> big-endian bytes of a value that fits, most significant first.\<close>

primrec be_bytes :: "nat \<Rightarrow> int \<Rightarrow> bytes" where
  "be_bytes 0 v = []"
| "be_bytes (Suc n) v = be_bytes n (v div 256) @ [word_of_int v]"

lemma from_bytes_Nil [simp]: "from_bytes [] = 0"
  by (simp add: from_bytes_def)

lemma from_bytes_snoc [simp]: "from_bytes (bs @ [b]) = from_bytes bs * 256 + uint b"
  by (simp add: from_bytes_def)

lemma length_be_bytes [simp]: "length (be_bytes n v) = n"
  by (induction n arbitrary: v) simp_all

lemma uint_byte_bounds: "0 \<le> uint (b :: byte)" "uint b < 256"
  using uint_bounded [of b] by simp_all

lemma from_bytes_nonneg [simp]: "0 \<le> from_bytes bs"
proof (induction bs rule: rev_induct)
  case (snoc b bs)
  then show ?case using uint_byte_bounds(1) [of b] by simp
qed simp

lemma from_bytes_upper: "from_bytes bs < 256 ^ length bs"
proof (induction bs rule: rev_induct)
  case (snoc b bs)
  have "from_bytes bs * 256 + uint b < (from_bytes bs + 1) * 256"
    using uint_byte_bounds(2) [of b] by simp
  also have "\<dots> \<le> 256 ^ length bs * 256"
    using snoc.IH by (intro mult_right_mono) simp_all
  finally show ?case by (simp add: mult.commute)
qed simp

lemma from_bytes_be_bytes: "from_bytes (be_bytes n v) = v mod 256 ^ n"
proof (induction n arbitrary: v)
  case (Suc n)
  have "from_bytes (be_bytes (Suc n) v) = (v div 256) mod 256 ^ n * 256 + v mod 256"
    by (simp add: Suc.IH uint_word_of_int)
  also have "\<dots> = v mod (256 * 256 ^ n)"
    by (simp add: zmod_zmult2_eq)
  finally show ?case by (simp add: mult.commute)
qed simp

lemma be_bytes_from_bytes: "be_bytes (length bs) (from_bytes bs) = bs"
proof (induction bs rule: rev_induct)
  case (snoc b bs)
  have "(from_bytes bs * 256 + uint b) div 256 = from_bytes bs"
    using uint_byte_bounds [of b] by simp
  moreover have "word_of_int (from_bytes bs * 256 + uint b) = b"
  proof (rule word_uint_eqI)
    have "uint (word_of_int (from_bytes bs * 256 + uint b) :: byte) = (from_bytes bs * 256 + uint b) mod 256"
      by (simp only: uint_word_of_int) simp
    also have "\<dots> = uint b" using uint_byte_bounds [of b] by simp
    finally show "uint (word_of_int (from_bytes bs * 256 + uint b) :: byte) = uint b" .
  qed
  ultimately show ?case using snoc.IH by simp
qed simp

lemma from_bytes_be_bytes_fits [simp]:
  "0 \<le> v \<Longrightarrow> v < 256 ^ n \<Longrightarrow> from_bytes (be_bytes n v) = v"
  by (simp add: from_bytes_be_bytes)

section \<open>Dictionaries\<close>

text \<open>
  A Python dictionary is an association list with distinct keys, in insertion order:
  \<open>d[k] = v\<close> replaces in place or appends, \<open>d.pop(k, None)\<close> removes, \<open>len(d)\<close> is
  the length, \<open>dict(pairs)\<close> keeps the last value given for a key.
\<close>

type_synonym ('k, 'v) dict = "('k \<times> 'v) list"

definition dict_wf :: "('k, 'v) dict \<Rightarrow> bool" where
  "dict_wf d \<longleftrightarrow> distinct (map fst d)"

definition dict_has :: "('k, 'v) dict \<Rightarrow> 'k \<Rightarrow> bool" where
  "dict_has d k \<longleftrightarrow> k \<in> set (map fst d)"

definition dict_get :: "('k, 'v) dict \<Rightarrow> 'k \<Rightarrow> 'v option" where
  "dict_get d k = map_of d k"

definition dict_set :: "('k, 'v) dict \<Rightarrow> 'k \<Rightarrow> 'v \<Rightarrow> ('k, 'v) dict" where
  "dict_set d k v = AList.update k v d"

definition dict_pop :: "('k, 'v) dict \<Rightarrow> 'k \<Rightarrow> ('k, 'v) dict" where
  "dict_pop d k = AList.delete k d"

definition dict_of :: "('k \<times> 'v) list \<Rightarrow> ('k, 'v) dict" where
  "dict_of ps = foldl (\<lambda>d (k, v). dict_set d k v) [] ps"

lemma dict_wf_Nil [simp]: "dict_wf []"
  by (simp add: dict_wf_def)

lemma dict_get_Nil [simp]: "dict_get [] k = None"
  by (simp add: dict_get_def)

lemma dict_has_iff: "dict_has d k \<longleftrightarrow> dict_get d k \<noteq> None"
  by (auto simp: dict_has_def dict_get_def map_of_eq_None_iff)

lemma dict_wf_set [simp]: "dict_wf d \<Longrightarrow> dict_wf (dict_set d k v)"
  by (simp add: dict_wf_def dict_set_def distinct_update)

lemma dict_wf_pop [simp]: "dict_wf d \<Longrightarrow> dict_wf (dict_pop d k)"
  by (simp add: dict_wf_def dict_pop_def distinct_delete)

lemma dict_get_set [simp]: "dict_get (dict_set d k v) k' = (if k' = k then Some v else dict_get d k')"
  by (simp add: dict_get_def dict_set_def update_conv)

lemma dict_get_pop [simp]: "dict_get (dict_pop d k) k' = (if k' = k then None else dict_get d k')"
  by (simp add: dict_get_def dict_pop_def delete_conv)

lemma dict_has_set [simp]: "dict_has (dict_set d k v) k' \<longleftrightarrow> k' = k \<or> dict_has d k'"
  by (auto simp: dict_has_iff)

lemma dict_has_pop [simp]: "dict_has (dict_pop d k) k' \<longleftrightarrow> k' \<noteq> k \<and> dict_has d k'"
  by (auto simp: dict_has_iff)

lemma dict_has_Nil [simp]: "\<not> dict_has [] k"
  by (simp add: dict_has_def)

lemma dict_keys_set: "set (map fst (dict_set d k v)) = insert k (set (map fst d))"
  by (simp add: dict_set_def dom_update image_iff flip: dom_map_of_conv_image_fst) (auto simp: update_conv')

lemma length_dict: "dict_wf d \<Longrightarrow> length d = card {k. dict_has d k}"
proof -
  assume "dict_wf d"
  then have "card (set (map fst d)) = length (map fst d)"
    unfolding dict_wf_def by (rule distinct_card)
  moreover have "{k. dict_has d k} = set (map fst d)" by (auto simp: dict_has_def)
  ultimately show ?thesis by (simp only: length_map)
qed

lemma length_dict_pop_less [simp]: "dict_has d k \<Longrightarrow> length (dict_pop d k) < length d"
  unfolding dict_has_def dict_pop_def
proof (induction d)
  case (Cons p d)
  then show ?case by (cases "k = fst p") (auto simp: less_Suc_eq_le length_delete_le image_iff)
qed simp

lemma dict_set_fresh:
  "\<not> dict_has d k \<Longrightarrow> dict_set d k v = d @ [(k, v)]"
  unfolding dict_has_def dict_set_def by (induction d) auto

lemma dict_pop_split:
  assumes "dict_wf d" "dict_get d k = Some v"
  obtains xs ys where "d = xs @ (k, v) # ys" "dict_pop d k = xs @ ys"
  using assms unfolding dict_wf_def dict_get_def dict_pop_def
proof (induction d arbitrary: thesis)
  case (Cons p d)
  obtain k' v' where p: "p = (k', v')" by fastforce
  show ?case
  proof (cases "k' = k")
    case True
    with Cons.prems have "v' = v" "AList.delete k d = d" by (auto simp: p delete_id image_iff)
    with Cons.prems(1) [of "[]" d] True show ?thesis by (simp add: p)
  next
    case False
    from Cons.IH [of "thesis"] Cons.prems(2,3) False obtain xs ys where
      "d = xs @ (k, v) # ys" "AList.delete k d = xs @ ys"
      by (auto simp: p intro: Cons.IH)
    with Cons.prems(1) [of "p # xs" ys] False show ?thesis by (simp add: p)
  qed
qed simp

lemma length_dict_set: "length (dict_set d k v) \<le> Suc (length d)"
  unfolding dict_set_def by (induction d) auto

end
