(* ===== verification/Constants.thy ===== *)
theory Constants
  imports Prelude
begin

text \<open>
  The protocol constants of \<open>codec/_constants.py\<close>: packet types and status codes as
  datatypes with their numeric values, the open and attribute flags as integers, and the
  extension names.
\<close>

section \<open>Packet types\<close>

datatype packet_type =
    PT_INIT | PT_VERSION | PT_OPEN | PT_CLOSE | PT_READ | PT_WRITE | PT_LSTAT | PT_FSTAT
  | PT_SETSTAT | PT_FSETSTAT | PT_OPENDIR | PT_READDIR | PT_REMOVE | PT_MKDIR | PT_RMDIR
  | PT_REALPATH | PT_STAT | PT_RENAME | PT_READLINK | PT_SYMLINK | PT_STATUS | PT_HANDLE
  | PT_DATA | PT_NAME | PT_ATTRS | PT_EXTENDED | PT_EXTENDED_REPLY

fun packet_type_value :: "packet_type \<Rightarrow> int" where
  "packet_type_value PT_INIT = 1"
| "packet_type_value PT_VERSION = 2"
| "packet_type_value PT_OPEN = 3"
| "packet_type_value PT_CLOSE = 4"
| "packet_type_value PT_READ = 5"
| "packet_type_value PT_WRITE = 6"
| "packet_type_value PT_LSTAT = 7"
| "packet_type_value PT_FSTAT = 8"
| "packet_type_value PT_SETSTAT = 9"
| "packet_type_value PT_FSETSTAT = 10"
| "packet_type_value PT_OPENDIR = 11"
| "packet_type_value PT_READDIR = 12"
| "packet_type_value PT_REMOVE = 13"
| "packet_type_value PT_MKDIR = 14"
| "packet_type_value PT_RMDIR = 15"
| "packet_type_value PT_REALPATH = 16"
| "packet_type_value PT_STAT = 17"
| "packet_type_value PT_RENAME = 18"
| "packet_type_value PT_READLINK = 19"
| "packet_type_value PT_SYMLINK = 20"
| "packet_type_value PT_STATUS = 101"
| "packet_type_value PT_HANDLE = 102"
| "packet_type_value PT_DATA = 103"
| "packet_type_value PT_NAME = 104"
| "packet_type_value PT_ATTRS = 105"
| "packet_type_value PT_EXTENDED = 200"
| "packet_type_value PT_EXTENDED_REPLY = 201"

definition all_packet_types :: "packet_type list" where
  "all_packet_types =
     [PT_INIT, PT_VERSION, PT_OPEN, PT_CLOSE, PT_READ, PT_WRITE, PT_LSTAT, PT_FSTAT, PT_SETSTAT,
      PT_FSETSTAT, PT_OPENDIR, PT_READDIR, PT_REMOVE, PT_MKDIR, PT_RMDIR, PT_REALPATH, PT_STAT,
      PT_RENAME, PT_READLINK, PT_SYMLINK, PT_STATUS, PT_HANDLE, PT_DATA, PT_NAME, PT_ATTRS,
      PT_EXTENDED, PT_EXTENDED_REPLY]"

text \<open>\<open>PacketType(raw)\<close>: \<open>None\<close> is the \<open>ValueError\<close> of a value that names no member.\<close>

definition packet_type_of :: "int \<Rightarrow> packet_type option" where
  "packet_type_of v = find (\<lambda>t. packet_type_value t = v) all_packet_types"

lemma packet_type_of_value [simp]: "packet_type_of (packet_type_value t) = Some t"
  by (cases t) (simp_all add: packet_type_of_def all_packet_types_def)

lemma packet_type_of_Some: "packet_type_of v = Some t \<Longrightarrow> packet_type_value t = v"
  by (auto simp: packet_type_of_def find_Some_iff)

lemma packet_type_value_inject [simp]: "packet_type_value s = packet_type_value t \<longleftrightarrow> s = t"
  by (metis packet_type_of_value option.inject)

lemma packet_type_value_byte: "1 \<le> packet_type_value t" "packet_type_value t \<le> 201"
  by (cases t; simp)+

section \<open>Status codes\<close>

datatype status_code =
    FX_OK | FX_EOF | FX_NO_SUCH_FILE | FX_PERMISSION_DENIED | FX_FAILURE | FX_BAD_MESSAGE
  | FX_NO_CONNECTION | FX_CONNECTION_LOST | FX_OP_UNSUPPORTED

fun status_code_value :: "status_code \<Rightarrow> int" where
  "status_code_value FX_OK = 0"
| "status_code_value FX_EOF = 1"
| "status_code_value FX_NO_SUCH_FILE = 2"
| "status_code_value FX_PERMISSION_DENIED = 3"
| "status_code_value FX_FAILURE = 4"
| "status_code_value FX_BAD_MESSAGE = 5"
| "status_code_value FX_NO_CONNECTION = 6"
| "status_code_value FX_CONNECTION_LOST = 7"
| "status_code_value FX_OP_UNSUPPORTED = 8"

definition all_status_codes :: "status_code list" where
  "all_status_codes =
     [FX_OK, FX_EOF, FX_NO_SUCH_FILE, FX_PERMISSION_DENIED, FX_FAILURE, FX_BAD_MESSAGE,
      FX_NO_CONNECTION, FX_CONNECTION_LOST, FX_OP_UNSUPPORTED]"

definition status_code_of :: "int \<Rightarrow> status_code option" where
  "status_code_of v = find (\<lambda>c. status_code_value c = v) all_status_codes"

lemma status_code_of_value [simp]: "status_code_of (status_code_value c) = Some c"
  by (cases c) (simp_all add: status_code_of_def all_status_codes_def)

lemma status_code_of_Some: "status_code_of v = Some c \<Longrightarrow> status_code_value c = v"
  by (auto simp: status_code_of_def find_Some_iff)

lemma status_code_value_range [simp]: "0 \<le> status_code_value c" "status_code_value c \<le> 8"
  by (cases c; simp)+

text \<open>The enumeration's own order, that of the numeric codes.\<close>

instantiation status_code :: linorder
begin

definition less_eq_status_code :: "status_code \<Rightarrow> status_code \<Rightarrow> bool" where
  "less_eq_status_code a b \<longleftrightarrow> status_code_value a \<le> status_code_value b"

definition less_status_code :: "status_code \<Rightarrow> status_code \<Rightarrow> bool" where
  "less_status_code a b \<longleftrightarrow> status_code_value a < status_code_value b"

instance
proof
  fix a b c :: status_code
  show "a < b \<longleftrightarrow> a \<le> b \<and> \<not> b \<le> a"
    by (auto simp: less_eq_status_code_def less_status_code_def)
  show "a \<le> a" by (simp add: less_eq_status_code_def)
  show "a \<le> b \<Longrightarrow> b \<le> c \<Longrightarrow> a \<le> c" by (simp add: less_eq_status_code_def)
  show "a \<le> b \<or> b \<le> a" by (auto simp: less_eq_status_code_def)
  assume "a \<le> b" "b \<le> a"
  then have "status_code_value a = status_code_value b" by (simp add: less_eq_status_code_def)
  then show "a = b" by (metis status_code_of_value option.inject)
qed

end

section \<open>Open and attribute flags\<close>

definition OPEN_READ :: int where "OPEN_READ = 0x01"
definition OPEN_WRITE :: int where "OPEN_WRITE = 0x02"
definition OPEN_APPEND :: int where "OPEN_APPEND = 0x04"
definition OPEN_CREAT :: int where "OPEN_CREAT = 0x08"
definition OPEN_TRUNC :: int where "OPEN_TRUNC = 0x10"
definition OPEN_EXCL :: int where "OPEN_EXCL = 0x20"

definition ATTR_SIZE :: int where "ATTR_SIZE = 0x00000001"
definition ATTR_UIDGID :: int where "ATTR_UIDGID = 0x00000002"
definition ATTR_PERMISSIONS :: int where "ATTR_PERMISSIONS = 0x00000004"
definition ATTR_ACMODTIME :: int where "ATTR_ACMODTIME = 0x00000008"
definition ATTR_EXTENDED :: int where "ATTR_EXTENDED = 0x80000000"

lemmas open_flag_defs =
  OPEN_READ_def OPEN_WRITE_def OPEN_APPEND_def OPEN_CREAT_def OPEN_TRUNC_def OPEN_EXCL_def

lemmas attr_flag_defs =
  ATTR_SIZE_def ATTR_UIDGID_def ATTR_PERMISSIONS_def ATTR_ACMODTIME_def ATTR_EXTENDED_def

definition PROTOCOL_VERSION :: int where "PROTOCOL_VERSION = 3"

section \<open>Extension names\<close>

definition EXTENSION_POSIX_RENAME :: string where
  "EXTENSION_POSIX_RENAME = ''posix-rename@openssh.com''"
definition EXTENSION_FSYNC :: string where
  "EXTENSION_FSYNC = ''fsync@openssh.com''"
definition EXTENSION_LSETSTAT :: string where
  "EXTENSION_LSETSTAT = ''lsetstat@openssh.com''"
definition EXTENSION_LIMITS :: string where
  "EXTENSION_LIMITS = ''limits@openssh.com''"
definition EXTENSION_CHECK_FILE :: string where
  "EXTENSION_CHECK_FILE = ''check-file''"

end
