(* ===== verification/Errors.thy ===== *)
theory Errors
  imports Constants
begin

text \<open>
  The exceptions of \<open>exceptions.py\<close> as values. Every class keeps the state the code
  attaches to it; a message is the sentence's key with the values it interpolates. The
  built-in exceptions the code raises itself are here too.
\<close>

section \<open>What a message says\<close>

datatype arg = NatArg nat | IntArg int | StrArg string | BytesArg bytes

datatype reason = Msg string "arg list"

section \<open>Exceptions\<close>

datatype server_class = PlainServerError | NoSuchFile | PermissionDenied | Unsupported

text \<open>
  \<open>ProtocolErr\<close> holds the packet type, the request id and the frame excerpt;
  \<open>TransferErr\<close> and its subclass \<open>TransferTimeoutErr\<close> the bytes moved, the offset and
  the remote path; \<open>ServerErr\<close> its class, the numeric status, the server's message and
  the path; \<open>DestinationCollisionErr\<close> each refused local path with the remote one and the first that
  claimed it, the files and the bytes that did arrive. \<open>Cancelled\<close> is the one that derives from
  \<open>BaseException\<close> alone.
\<close>

datatype exn =
    ValueErr reason
  | TypeErr reason
  | OverflowErr
  | AttributeErr string
  | KeyErr
  | OSErr
  | StateErr reason
  | ProtocolErr reason "int option" "int option" "bytes option"
  | ConnectErr
  | AuthenticationErr
  | HostKeyErr
  | DestinationNotAllowedErr
  | DestinationCollisionErr "(bytes \<times> bytes \<times> bytes) list" nat int
  | UnsafePathErr bytes string
  | TransferErr reason int "int option" "bytes option"
  | TransferTimeoutErr reason int "int option" "bytes option"
  | ServerErr server_class int bytes "bytes option"
  | CapabilityErr string
  | ExceptionGroup "exn list"
  | Cancelled

text \<open>\<open>ProtocolError.__init__\<close>: the frame is kept up to \<open>max_frame_excerpt\<close> bytes.\<close>

definition max_frame_excerpt :: nat where "max_frame_excerpt = 256"

definition protocol_error ::
    "reason \<Rightarrow> int option \<Rightarrow> int option \<Rightarrow> bytes option \<Rightarrow> exn" where
  "protocol_error msg packet_type request_id raw_frame =
     ProtocolErr msg packet_type request_id (map_option (take max_frame_excerpt) raw_frame)"

fun is_protocol_error :: "exn \<Rightarrow> bool" where
  "is_protocol_error (ProtocolErr _ _ _ _) = True"
| "is_protocol_error _ = False"

lemma is_protocol_error_mk [simp]: "is_protocol_error (protocol_error m t i f)"
  by (simp add: protocol_error_def)

fun excerpt_of :: "exn \<Rightarrow> bytes option" where
  "excerpt_of (ProtocolErr _ _ _ raw) = raw"
| "excerpt_of _ = None"

lemma excerpt_of_protocol_error [simp]:
  "excerpt_of (protocol_error m t i f) = map_option (take max_frame_excerpt) f"
  by (simp add: protocol_error_def)

section \<open>Flattening an exception group\<close>

text \<open>\<open>_leaves\<close>: every exception inside a possibly nested group that is not one itself.\<close>

fun leaves :: "exn \<Rightarrow> exn list" where
  "leaves (ExceptionGroup es) = concat (map leaves es)"
| "leaves e = [e]"

text \<open>
  \<open>_flatten_exception_group\<close>: the first leaf, with the siblings the note on it names.
  A group without a leaf is returned as it is.
\<close>

definition flatten_exception_group :: "exn \<Rightarrow> exn \<times> exn list" where
  "flatten_exception_group e =
     (case e of
        ExceptionGroup es \<Rightarrow> (case leaves e of [] \<Rightarrow> (e, []) | first # siblings \<Rightarrow> (first, siblings))
      | _ \<Rightarrow> (e, []))"

fun is_group :: "exn \<Rightarrow> bool" where
  "is_group (ExceptionGroup _) = True"
| "is_group _ = False"

lemma leaves_not_group: "x \<in> set (leaves e) \<Longrightarrow> \<not> is_group x"
  by (induction e rule: leaves.induct) auto

lemma leaves_nongroup [simp]: "\<not> is_group e \<Longrightarrow> leaves e = [e]"
  by (cases e) simp_all

end
