(* ===== verification/Wire.thy ===== *)
theory Wire
  imports Errors
begin

text \<open>
  The primitive field codecs of \<open>codec/_wire.py\<close>. A \<open>WireReader\<close> is a record of the
  frame, the position and the two values its errors carry; reading is a state transformer
  that keeps the reader after an exception, because the code does. A \<open>WireWriter\<close> keeps
  the pieces it was given and their total size.

  Two predicates carry the proofs of every layer above. \<open>consumes m bs v\<close>: on a frame
  whose unread part starts with \<open>bs\<close>, the decoder \<open>m\<close> returns \<open>v\<close> and consumes exactly
  \<open>bs\<close>. \<open>well_behaved m\<close>: on every frame, \<open>m\<close> stays inside it, never moves backwards, and
  raises nothing but a \<open>ProtocolError\<close> about that frame. The locale \<open>field_codec\<close> is the
  contract between a field's writer and its reader.
\<close>

section \<open>The reader\<close>

record reader =
  r_buf :: bytes
  r_pos :: nat
  r_ptype :: "int option"
  r_rid :: "int option"

type_synonym 'a rd = "reader \<Rightarrow> (exn + 'a) \<times> reader"

definition wire_reader :: "bytes \<Rightarrow> int option \<Rightarrow> int option \<Rightarrow> reader" where
  "wire_reader buf packet_type request_id =
     \<lparr>r_buf = buf, r_pos = 0, r_ptype = packet_type, r_rid = request_id\<rparr>"

definition remaining :: "reader \<Rightarrow> nat" where
  "remaining r = length (r_buf r) - r_pos r"

definition at_end :: "reader \<Rightarrow> bool" where
  "at_end r \<longleftrightarrow> r_pos r \<ge> length (r_buf r)"

definition refusal :: "reason \<Rightarrow> reader \<Rightarrow> exn" where
  "refusal msg r = protocol_error msg (r_ptype r) (r_rid r) (Some (r_buf r))"

text \<open>Sequencing: an exception stops the decoder and keeps the reader as it was left.\<close>

definition rreturn :: "'a \<Rightarrow> 'a rd" where
  "rreturn x r = (Inr x, r)"

definition rraise :: "reason \<Rightarrow> 'a rd" where
  "rraise msg r = (Inl (refusal msg r), r)"

definition rbind :: "'a rd \<Rightarrow> ('a \<Rightarrow> 'b rd) \<Rightarrow> 'b rd" where
  "rbind m f r = (case m r of (Inl e, r') \<Rightarrow> (Inl e, r') | (Inr x, r') \<Rightarrow> f x r')"

primrec rtimes :: "nat \<Rightarrow> 'a rd \<Rightarrow> 'a list rd" where
  "rtimes 0 m = rreturn []"
| "rtimes (Suc n) m = rbind m (\<lambda>x. rbind (rtimes n m) (\<lambda>xs. rreturn (x # xs)))"

definition take_bytes :: "nat \<Rightarrow> bytes rd" where
  "take_bytes n r =
     (if n > remaining r
      then (Inl (refusal (Msg ''truncated frame'' [NatArg n, NatArg (r_pos r), NatArg (remaining r)]) r), r)
      else (Inr (take n (drop (r_pos r) (r_buf r))), r\<lparr>r_pos := r_pos r + n\<rparr>))"

definition read_uint8 :: "int rd" where
  "read_uint8 = rbind (take_bytes 1) (\<lambda>bs. rreturn (uint (hd bs)))"

definition read_uint32 :: "int rd" where
  "read_uint32 = rbind (take_bytes 4) (\<lambda>bs. rreturn (from_bytes bs))"

definition read_uint64 :: "int rd" where
  "read_uint64 = rbind (take_bytes 8) (\<lambda>bs. rreturn (from_bytes bs))"

definition read_request_id :: "int rd" where
  "read_request_id = rbind read_uint32 (\<lambda>i r. (Inr i, r\<lparr>r_rid := Some i\<rparr>))"

definition read_count :: "nat \<Rightarrow> string \<Rightarrow> int rd" where
  "read_count item_length item r =
     (if item_length < 1 then (Inl (ValueErr (Msg ''item_length must be at least 1'' [NatArg item_length])), r)
      else (let offset = r_pos r in
        case read_uint32 r of
          (Inl e, r') \<Rightarrow> (Inl e, r')
        | (Inr count, r') \<Rightarrow>
            (let available = remaining r' in
             if count * int item_length > int available
             then (let r'' = r'\<lparr>r_pos := offset\<rparr> in
               (Inl (refusal (Msg ''count cannot fit in the frame''
                  [StrArg item, IntArg count, NatArg offset, NatArg item_length, NatArg available]) r''), r''))
             else (Inr count, r'))))"

definition read_bytes :: "nat \<Rightarrow> bytes rd" where
  "read_bytes n = take_bytes n"

definition read_string :: "bytes rd" where
  "read_string = rbind read_uint32 (\<lambda>n. take_bytes (nat n))"

definition read_remaining :: "bytes rd" where
  "read_remaining r = take_bytes (remaining r) r"

section \<open>The writer\<close>

record writer =
  w_chunks :: "bytes list"
  w_size :: nat

definition wire_writer :: writer where
  "wire_writer = \<lparr>w_chunks = [], w_size = 0\<rparr>"

definition put_chunk :: "bytes \<Rightarrow> writer \<Rightarrow> writer" where
  "put_chunk bs w = w\<lparr>w_chunks := w_chunks w @ [bs], w_size := w_size w + length bs\<rparr>"

text \<open>\<open>value.to_bytes(n, "big")\<close> raises \<open>OverflowError\<close> for a value that does not fit.\<close>

definition to_bytes :: "nat \<Rightarrow> int \<Rightarrow> exn + bytes" where
  "to_bytes n v = (if 0 \<le> v \<and> v < 256 ^ n then Inr (be_bytes n v) else Inl OverflowErr)"

definition UINT8_MAX :: int where "UINT8_MAX = 0xFF"
definition UINT32_MAX :: int where "UINT32_MAX = 0xFFFFFFFF"
definition UINT64_MAX :: int where "UINT64_MAX = 0xFFFFFFFFFFFFFFFF"

definition write_uint8 :: "int \<Rightarrow> writer \<Rightarrow> exn + writer" where
  "write_uint8 v w =
     (if \<not> (0 \<le> v \<and> v \<le> UINT8_MAX) then Inl (ValueErr (Msg ''uint8 out of range'' [IntArg v]))
      else bind_sum (to_bytes 1 v) (\<lambda>bs. Inr (put_chunk bs w)))"

definition write_uint32 :: "int \<Rightarrow> writer \<Rightarrow> exn + writer" where
  "write_uint32 v w =
     (if \<not> (0 \<le> v \<and> v \<le> UINT32_MAX) then Inl (ValueErr (Msg ''uint32 out of range'' [IntArg v]))
      else bind_sum (to_bytes 4 v) (\<lambda>bs. Inr (put_chunk bs w)))"

definition write_uint64 :: "int \<Rightarrow> writer \<Rightarrow> exn + writer" where
  "write_uint64 v w =
     (if \<not> (0 \<le> v \<and> v \<le> UINT64_MAX) then Inl (ValueErr (Msg ''uint64 out of range'' [IntArg v]))
      else bind_sum (to_bytes 8 v) (\<lambda>bs. Inr (put_chunk bs w)))"

definition write_bytes :: "bytes \<Rightarrow> writer \<Rightarrow> exn + writer" where
  "write_bytes bs w = Inr (put_chunk bs w)"

definition write_string :: "bytes \<Rightarrow> writer \<Rightarrow> exn + writer" where
  "write_string bs w =
     bind_sum (write_uint32 (int (length bs)) w) (\<lambda>w. Inr (put_chunk bs w))"

definition getvalue :: "writer \<Rightarrow> bytes" where
  "getvalue w = concat (w_chunks w)"

definition frame :: "writer \<Rightarrow> exn + bytes" where
  "frame w = bind_sum (to_bytes 4 (int (w_size w))) (\<lambda>p. Inr (p @ concat (w_chunks w)))"

text \<open>Sequencing of writes on one writer.\<close>

definition wseq :: "(writer \<Rightarrow> exn + writer) \<Rightarrow> (writer \<Rightarrow> exn + writer) \<Rightarrow> writer \<Rightarrow> exn + writer" where
  "wseq f g w = bind_sum (f w) g"

definition wskip :: "writer \<Rightarrow> exn + writer" where
  "wskip w = Inr w"

primrec wlist :: "('a \<Rightarrow> writer \<Rightarrow> exn + writer) \<Rightarrow> 'a list \<Rightarrow> writer \<Rightarrow> exn + writer" where
  "wlist f [] = wskip"
| "wlist f (x # xs) = wseq (f x) (wlist f xs)"

section \<open>What a decoder consumes\<close>

definition reader_ok :: "reader \<Rightarrow> bool" where
  "reader_ok r \<longleftrightarrow> r_pos r \<le> length (r_buf r)"

definition unread :: "reader \<Rightarrow> bytes" where
  "unread r = drop (r_pos r) (r_buf r)"

lemma length_unread [simp]: "length (unread r) = remaining r"
  by (simp add: unread_def remaining_def)

lemma reader_ok_init [simp]: "reader_ok (wire_reader buf t i)"
  by (simp add: reader_ok_def wire_reader_def)

lemma unread_init [simp]: "unread (wire_reader buf t i) = buf"
  by (simp add: unread_def wire_reader_def)

lemma at_end_iff: "at_end r \<longleftrightarrow> unread r = []"
  by (simp add: at_end_def unread_def)

text \<open>
  \<open>consumes m bs v\<close>: the decoder reads exactly \<open>bs\<close> off any frame that has them next. The
  successor is described by the unread bytes, the frame and its bounds.
\<close>

definition consumes :: "'a rd \<Rightarrow> bytes \<Rightarrow> 'a \<Rightarrow> bool" where
  "consumes m bs v \<longleftrightarrow>
     (\<forall>r rest. reader_ok r \<longrightarrow> unread r = bs @ rest \<longrightarrow>
        (\<exists>r'. m r = (Inr v, r') \<and> r_buf r' = r_buf r \<and> reader_ok r' \<and> unread r' = rest))"

lemma consumesI:
  assumes "\<And>r rest. reader_ok r \<Longrightarrow> unread r = bs @ rest \<Longrightarrow>
    \<exists>r'. m r = (Inr v, r') \<and> r_buf r' = r_buf r \<and> reader_ok r' \<and> unread r' = rest"
  shows "consumes m bs v"
  using assms by (auto simp: consumes_def)

lemma consumesE:
  assumes "consumes m bs v" "reader_ok r" "unread r = bs @ rest"
  obtains r' where "m r = (Inr v, r')" "r_buf r' = r_buf r" "reader_ok r'" "unread r' = rest"
  using assms by (auto simp: consumes_def)

lemma consumes_return [consumes_intros]: "consumes (rreturn v) [] v"
  by (rule consumesI) (simp add: rreturn_def)

lemma consumes_returnI: "x = v \<Longrightarrow> consumes (rreturn x) [] v"
  by (simp add: consumes_return)

lemma consumes_bind [consumes_intros]:
  assumes "consumes m bs x" "consumes (f x) cs y"
  shows "consumes (rbind m f) (bs @ cs) y"
proof (rule consumesI)
  fix r rest assume ok: "reader_ok r" "unread r = (bs @ cs) @ rest"
  then have "unread r = bs @ (cs @ rest)" by simp
  with assms(1) ok(1) obtain r1 where r1: "m r = (Inr x, r1)" "r_buf r1 = r_buf r"
      "reader_ok r1" "unread r1 = cs @ rest" by (rule consumesE)
  from assms(2) r1(3,4) obtain r2 where "f x r1 = (Inr y, r2)" "r_buf r2 = r_buf r1"
      "reader_ok r2" "unread r2 = rest" by (rule consumesE)
  with r1 show "\<exists>r'. rbind m f r = (Inr y, r') \<and> r_buf r' = r_buf r \<and> reader_ok r' \<and> unread r' = rest"
    by (simp add: rbind_def)
qed

lemma consumes_bind_Nil:
  "consumes m bs x \<Longrightarrow> consumes (f x) [] y \<Longrightarrow> consumes (rbind m f) bs y"
  using consumes_bind [of m bs x f "[]" y] by simp

lemma consumes_take [consumes_intros]: "n = length bs \<Longrightarrow> consumes (take_bytes n) bs bs"
proof (rule consumesI)
  fix r rest assume h: "n = length bs" "reader_ok r" "unread r = bs @ rest"
  then have "length (unread r) = length bs + length rest" by simp
  then have "remaining r = length bs + length rest" by simp
  moreover have "drop (r_pos r) (r_buf r) = bs @ rest" using h(3) by (simp add: unread_def)
  moreover from this have "drop (r_pos r + length bs) (r_buf r) = rest"
    by (metis add.commute append_eq_conv_conj drop_drop)
  ultimately show "\<exists>r'. take_bytes n r = (Inr bs, r') \<and> r_buf r' = r_buf r \<and> reader_ok r' \<and> unread r' = rest"
    using h by (auto simp: take_bytes_def unread_def reader_ok_def remaining_def)
qed

lemma consumes_uint8 [consumes_intros]:
  "0 \<le> v \<Longrightarrow> v \<le> UINT8_MAX \<Longrightarrow> consumes read_uint8 (be_bytes 1 v) v"
  unfolding read_uint8_def
  by (rule consumes_bind_Nil [OF consumes_take])
     (auto simp: rreturn_def UINT8_MAX_def uint_word_of_int intro!: consumesI)

lemma consumes_uint32 [consumes_intros]:
  "0 \<le> v \<Longrightarrow> v \<le> UINT32_MAX \<Longrightarrow> consumes read_uint32 (be_bytes 4 v) v"
  unfolding read_uint32_def
  by (rule consumes_bind_Nil [OF consumes_take])
     (auto simp: rreturn_def UINT32_MAX_def intro!: consumesI)

lemma consumes_uint64 [consumes_intros]:
  "0 \<le> v \<Longrightarrow> v \<le> UINT64_MAX \<Longrightarrow> consumes read_uint64 (be_bytes 8 v) v"
  unfolding read_uint64_def
  by (rule consumes_bind_Nil [OF consumes_take])
     (auto simp: rreturn_def UINT64_MAX_def intro!: consumesI)

lemma consumes_request_id [consumes_intros]:
  assumes "0 \<le> v" "v \<le> UINT32_MAX" shows "consumes read_request_id (be_bytes 4 v) v"
  unfolding read_request_id_def
  by (rule consumes_bind_Nil [OF consumes_uint32 [OF assms]])
     (auto simp: reader_ok_def unread_def intro!: consumesI)

lemma consumes_bytes [consumes_intros]: "n = length bs \<Longrightarrow> consumes (read_bytes n) bs bs"
  by (simp add: read_bytes_def consumes_take)

lemma consumes_string [consumes_intros]:
  assumes "int (length bs) \<le> UINT32_MAX"
  shows "consumes read_string (be_bytes 4 (int (length bs)) @ bs) bs"
  unfolding read_string_def
  by (rule consumes_bind [OF consumes_uint32 consumes_take]) (use assms in simp_all)

lemma consumes_if [consumes_intros]:
  "(c \<Longrightarrow> consumes m bs v) \<Longrightarrow> (\<not> c \<Longrightarrow> consumes m' bs v) \<Longrightarrow> consumes (if c then m else m') bs v"
  by simp

text \<open>The same at the end of a frame, for the fields that run to it.\<close>

definition finishes :: "'a rd \<Rightarrow> bytes \<Rightarrow> 'a \<Rightarrow> bool" where
  "finishes m bs v \<longleftrightarrow>
     (\<forall>r. reader_ok r \<longrightarrow> unread r = bs \<longrightarrow>
        (\<exists>r'. m r = (Inr v, r') \<and> r_buf r' = r_buf r \<and> reader_ok r' \<and> unread r' = []))"

lemma finishesI:
  assumes "\<And>r. reader_ok r \<Longrightarrow> unread r = bs \<Longrightarrow>
    \<exists>r'. m r = (Inr v, r') \<and> r_buf r' = r_buf r \<and> reader_ok r' \<and> unread r' = []"
  shows "finishes m bs v"
  using assms by (auto simp: finishes_def)

lemma finishesE:
  assumes "finishes m bs v" "reader_ok r" "unread r = bs"
  obtains r' where "m r = (Inr v, r')" "r_buf r' = r_buf r" "reader_ok r'" "unread r' = []"
  using assms by (auto simp: finishes_def)

lemma consumes_finishes: "consumes m bs v \<Longrightarrow> finishes m bs v"
  by (auto simp: consumes_def finishes_def)

lemma finishes_bind:
  assumes "consumes m bs x" "finishes (f x) cs y"
  shows "finishes (rbind m f) (bs @ cs) y"
proof (rule finishesI)
  fix r assume ok: "reader_ok r" "unread r = bs @ cs"
  with assms(1) obtain r1 where r1: "m r = (Inr x, r1)" "r_buf r1 = r_buf r"
      "reader_ok r1" "unread r1 = cs" by (rule consumesE)
  from assms(2) r1(3,4) obtain r2 where "f x r1 = (Inr y, r2)" "r_buf r2 = r_buf r1"
      "reader_ok r2" "unread r2 = []" by (rule finishesE)
  with r1 show "\<exists>r'. rbind m f r = (Inr y, r') \<and> r_buf r' = r_buf r \<and> reader_ok r' \<and> unread r' = []"
    by (simp add: rbind_def)
qed

lemma finishes_remaining: "finishes read_remaining bs bs"
proof (rule finishesI)
  fix r assume r: "reader_ok r" "unread r = bs"
  then have "remaining r = length bs" by (metis length_unread)
  then have "read_remaining r = take_bytes (length bs) r" by (simp add: read_remaining_def)
  moreover obtain r' where "take_bytes (length bs) r = (Inr bs, r')" "r_buf r' = r_buf r"
      "reader_ok r'" "unread r' = []"
    using consumesE [OF consumes_take [OF refl] r(1), of bs "[]"] r(2) by auto
  ultimately show "\<exists>r'. read_remaining r = (Inr bs, r') \<and> r_buf r' = r_buf r \<and> reader_ok r' \<and> unread r' = []"
    by simp
qed

lemma finishes_bind_return:
  assumes "finishes m bs x" shows "finishes (rbind m (\<lambda>x. rreturn (f x))) bs (f x)"
  using assms by (fastforce simp: finishes_def rbind_def rreturn_def)

section \<open>What a decoder may do to any frame\<close>

definition about_frame :: "reader \<Rightarrow> exn \<Rightarrow> bool" where
  "about_frame r e \<longleftrightarrow>
     is_protocol_error e \<and> excerpt_of e = Some (take max_frame_excerpt (r_buf r))"

definition well_behaved :: "'a rd \<Rightarrow> bool" where
  "well_behaved m \<longleftrightarrow>
     (\<forall>r res r'. reader_ok r \<longrightarrow> m r = (res, r') \<longrightarrow>
        reader_ok r' \<and> r_buf r' = r_buf r \<and> r_ptype r' = r_ptype r \<and> r_pos r \<le> r_pos r' \<and>
        (\<forall>e. res = Inl e \<longrightarrow> about_frame r e))"

lemma well_behavedI:
  assumes "\<And>r res r'. reader_ok r \<Longrightarrow> m r = (res, r') \<Longrightarrow>
    reader_ok r' \<and> r_buf r' = r_buf r \<and> r_ptype r' = r_ptype r \<and> r_pos r \<le> r_pos r' \<and>
    (\<forall>e. res = Inl e \<longrightarrow> about_frame r e)"
  shows "well_behaved m"
  unfolding well_behaved_def using assms by blast

lemma well_behavedD:
  assumes "well_behaved m" "m r = (res, r')" "reader_ok r"
  shows "reader_ok r'" "r_buf r' = r_buf r" "r_ptype r' = r_ptype r" "r_pos r \<le> r_pos r'"
    and "res = Inl e \<Longrightarrow> about_frame r e"
  using assms unfolding well_behaved_def by blast+

lemma about_frame_refusal [simp]: "r_buf r' = r_buf r \<Longrightarrow> about_frame r (refusal msg r')"
  by (simp add: about_frame_def refusal_def)

lemma well_behaved_return [reader_mono]: "well_behaved (rreturn x)"
  by (auto simp: rreturn_def intro!: well_behavedI)

lemma well_behaved_raise [reader_mono]: "well_behaved (rraise msg)"
  by (auto simp: rraise_def intro!: well_behavedI)

lemma well_behaved_bind [reader_mono]:
  assumes m: "well_behaved m" and f: "\<And>x. well_behaved (f x)"
  shows "well_behaved (rbind m f)"
proof (rule well_behavedI)
  fix r res r' assume ok: "reader_ok r" and run: "rbind m f r = (res, r')"
  obtain a r1 where m1: "m r = (a, r1)" by fastforce
  note one = well_behavedD [OF m m1 ok]
  show "reader_ok r' \<and> r_buf r' = r_buf r \<and> r_ptype r' = r_ptype r \<and> r_pos r \<le> r_pos r' \<and>
    (\<forall>e. res = Inl e \<longrightarrow> about_frame r e)"
  proof (cases a)
    case (Inl e)
    with run m1 one show ?thesis by (auto simp: rbind_def)
  next
    case (Inr x)
    with run m1 have "f x r1 = (res, r')" by (simp add: rbind_def)
    from well_behavedD [OF f this one(1)] one show ?thesis
      by (auto simp: about_frame_def)
  qed
qed

lemma well_behaved_take [reader_mono]: "well_behaved (take_bytes n)"
  by (auto simp: take_bytes_def reader_ok_def remaining_def intro!: well_behavedI split: if_splits)

lemma well_behaved_if [reader_mono]:
  "(c \<Longrightarrow> well_behaved m) \<Longrightarrow> (\<not> c \<Longrightarrow> well_behaved m') \<Longrightarrow> well_behaved (if c then m else m')"
  by simp

lemma well_behaved_times [reader_mono]: "well_behaved m \<Longrightarrow> well_behaved (rtimes n m)"
  by (induction n) (auto intro!: reader_mono)

lemma well_behaved_uint8 [reader_mono]: "well_behaved read_uint8"
  unfolding read_uint8_def by (intro reader_mono)

lemma well_behaved_uint32 [reader_mono]: "well_behaved read_uint32"
  unfolding read_uint32_def by (intro reader_mono)

lemma well_behaved_uint64 [reader_mono]: "well_behaved read_uint64"
  unfolding read_uint64_def by (intro reader_mono)

lemma well_behaved_set_rid [reader_mono]: "well_behaved (\<lambda>r. (Inr i, r\<lparr>r_rid := x\<rparr>))"
  by (auto simp: reader_ok_def intro!: well_behavedI)

lemma well_behaved_request_id [reader_mono]: "well_behaved read_request_id"
  unfolding read_request_id_def by (intro reader_mono)

lemma well_behaved_string [reader_mono]: "well_behaved read_string"
  unfolding read_string_def by (intro reader_mono)

lemma well_behaved_bytes [reader_mono]: "well_behaved (read_bytes n)"
  unfolding read_bytes_def by (intro reader_mono)

lemma well_behaved_remaining [reader_mono]: "well_behaved read_remaining"
  by (auto simp: read_remaining_def well_behaved_def dest: well_behavedD [OF well_behaved_take])

lemma well_behaved_count [reader_mono]:
  assumes "1 \<le> k" shows "well_behaved (read_count k item)"
proof (rule well_behavedI)
  fix r res r' assume ok: "reader_ok r" and run: "read_count k item r = (res, r')"
  obtain a r1 where r1: "read_uint32 r = (a, r1)" by fastforce
  note one = well_behavedD [OF well_behaved_uint32 r1 ok]
  from run assms r1 one ok
  show "reader_ok r' \<and> r_buf r' = r_buf r \<and> r_ptype r' = r_ptype r \<and> r_pos r \<le> r_pos r' \<and>
    (\<forall>e. res = Inl e \<longrightarrow> about_frame r e)"
    by (cases a) (auto simp: read_count_def Let_def reader_ok_def split: if_splits)
qed

end
