(* ===== verification/FieldCodec.thy ===== *)
theory FieldCodec
  imports Wire
begin

text \<open>
  The contract between a field's writer and its reader. \<open>appends w w' bs\<close> says what a
  write added; the locale \<open>field_codec\<close> states what every field of the protocol promises
  (reading back what was written, never leaving the frame, reading only what can be
  written again) and proves once that repeated and counted fields keep the promise. It is
  interpreted on the integers, on strings and on string pairs here, and on ATTRS and NAME
  entries in the theories that define them.
\<close>

section \<open>What a write adds\<close>

definition appends :: "writer \<Rightarrow> writer \<Rightarrow> bytes \<Rightarrow> bool" where
  "appends w w' bs \<longleftrightarrow> getvalue w' = getvalue w @ bs \<and> w_size w' = w_size w + length bs"

definition writer_ok :: "writer \<Rightarrow> bool" where
  "writer_ok w \<longleftrightarrow> w_size w = length (getvalue w)"

lemma writer_ok_init [simp]: "writer_ok wire_writer"
  by (simp add: writer_ok_def wire_writer_def getvalue_def)

lemma getvalue_init [simp]: "getvalue wire_writer = []" "w_size wire_writer = 0"
  by (simp_all add: wire_writer_def getvalue_def)

lemma appends_ok: "appends w w' bs \<Longrightarrow> writer_ok w \<Longrightarrow> writer_ok w'"
  by (simp add: appends_def writer_ok_def)

lemma appends_refl [simp]: "appends w w []"
  by (simp add: appends_def)

lemma appends_trans: "appends w w' bs \<Longrightarrow> appends w' w'' cs \<Longrightarrow> appends w w'' (bs @ cs)"
  by (simp add: appends_def)

lemma appends_put [simp]: "appends w (put_chunk bs w) bs"
  by (simp add: appends_def put_chunk_def getvalue_def)

lemma getvalue_put [simp]: "getvalue (put_chunk bs w) = getvalue w @ bs"
  by (simp add: put_chunk_def getvalue_def)

lemma w_size_put [simp]: "w_size (put_chunk bs w) = w_size w + length bs"
  by (simp add: put_chunk_def)

text \<open>The range conditions of the fields, and what each write does when they hold.\<close>

definition fits32 :: "int \<Rightarrow> bool" where "fits32 v \<longleftrightarrow> 0 \<le> v \<and> v \<le> UINT32_MAX"
definition fits64 :: "int \<Rightarrow> bool" where "fits64 v \<longleftrightarrow> 0 \<le> v \<and> v \<le> UINT64_MAX"
definition fits_string :: "bytes \<Rightarrow> bool" where "fits_string bs \<longleftrightarrow> int (length bs) \<le> UINT32_MAX"

definition u32 :: "int \<Rightarrow> bytes" where "u32 v = be_bytes 4 v"
definition u64 :: "int \<Rightarrow> bytes" where "u64 v = be_bytes 8 v"
definition str :: "bytes \<Rightarrow> bytes" where "str bs = u32 (int (length bs)) @ bs"

lemma length_u32 [simp]: "length (u32 v) = 4" and length_u64 [simp]: "length (u64 v) = 8"
  and length_str [simp]: "length (str bs) = 4 + length bs"
  by (simp_all add: u32_def u64_def str_def)

lemma write_uint8_eq [fits_simps]:
  "write_uint8 v w = Inr w' \<longleftrightarrow> 0 \<le> v \<and> v \<le> UINT8_MAX \<and> w' = put_chunk (be_bytes 1 v) w"
  by (auto simp: write_uint8_def to_bytes_def UINT8_MAX_def)

lemma write_uint32_eq [fits_simps]:
  "write_uint32 v w = Inr w' \<longleftrightarrow> fits32 v \<and> w' = put_chunk (u32 v) w"
  by (auto simp: write_uint32_def to_bytes_def UINT32_MAX_def fits32_def u32_def)

lemma write_uint64_eq [fits_simps]:
  "write_uint64 v w = Inr w' \<longleftrightarrow> fits64 v \<and> w' = put_chunk (u64 v) w"
  by (auto simp: write_uint64_def to_bytes_def UINT64_MAX_def fits64_def u64_def)

lemma write_bytes_eq [fits_simps]: "write_bytes bs w = Inr w' \<longleftrightarrow> w' = put_chunk bs w"
  by (auto simp: write_bytes_def)

lemma write_string_eq [fits_simps]:
  "write_string bs w = Inr w' \<longleftrightarrow>
     fits_string bs \<and> w' = put_chunk bs (put_chunk (u32 (int (length bs))) w)"
  by (auto simp: write_string_def fits_simps fits_string_def fits32_def)

lemma wseq_eq [fits_simps]: "wseq f g w = Inr w' \<longleftrightarrow> (\<exists>w1. f w = Inr w1 \<and> g w1 = Inr w')"
  by (simp add: wseq_def)

lemma wskip_eq [fits_simps]: "wskip w = Inr w' \<longleftrightarrow> w' = w"
  by (auto simp: wskip_def)

lemma consumes_u32 [consumes_intros]: "fits32 v \<Longrightarrow> consumes read_uint32 (u32 v) v"
  by (simp add: fits32_def u32_def consumes_uint32)

lemma consumes_u32_id [consumes_intros]: "fits32 v \<Longrightarrow> consumes read_request_id (u32 v) v"
  by (simp add: fits32_def u32_def consumes_request_id)

lemma consumes_u64 [consumes_intros]: "fits64 v \<Longrightarrow> consumes read_uint64 (u64 v) v"
  by (simp add: fits64_def u64_def consumes_uint64)

lemma consumes_str [consumes_intros]: "fits_string bs \<Longrightarrow> consumes read_string (str bs) bs"
  by (simp add: fits_string_def u32_def str_def consumes_string)

text \<open>
  \<open>codes f m v\<close>: whatever the write \<open>f\<close> appends, the decoder \<open>m\<close> reads back as \<open>v\<close>;
  \<open>ends f m v\<close> is the same for the last field of a frame.
\<close>

definition codes :: "(writer \<Rightarrow> exn + writer) \<Rightarrow> 'a rd \<Rightarrow> 'a \<Rightarrow> bool" where
  "codes f m v \<longleftrightarrow> (\<forall>w w'. f w = Inr w' \<longrightarrow> (\<exists>bs. appends w w' bs \<and> consumes m bs v))"

definition ends :: "(writer \<Rightarrow> exn + writer) \<Rightarrow> 'a rd \<Rightarrow> 'a \<Rightarrow> bool" where
  "ends f m v \<longleftrightarrow> (\<forall>w w'. f w = Inr w' \<longrightarrow> (\<exists>bs. appends w w' bs \<and> finishes m bs v))"

named_theorems codes_intros \<open>a write and the decoder that reads it back, one rule per field\<close>

lemma codes_ends: "codes f m v \<Longrightarrow> ends f m v"
  unfolding codes_def ends_def by (meson consumes_finishes)

lemma codes_seq [codes_intros]:
  assumes f: "codes f m x" and g: "codes g (k x) y" shows "codes (wseq f g) (rbind m k) y"
  unfolding codes_def
proof (intro allI impI)
  fix w w' assume "wseq f g w = Inr w'"
  then obtain w1 where w1: "f w = Inr w1" "g w1 = Inr w'" by (auto simp: fits_simps)
  obtain bs where bs: "appends w w1 bs" "consumes m bs x" using f w1(1) by (auto simp: codes_def)
  obtain cs where cs: "appends w1 w' cs" "consumes (k x) cs y" using g w1(2) by (auto simp: codes_def)
  show "\<exists>bs. appends w w' bs \<and> consumes (rbind m k) bs y"
    using appends_trans [OF bs(1) cs(1)] consumes_bind [where f = k, OF bs(2) cs(2)] by blast
qed

lemma ends_seq:
  assumes f: "codes f m x" and g: "ends g (k x) y" shows "ends (wseq f g) (rbind m k) y"
  unfolding ends_def
proof (intro allI impI)
  fix w w' assume "wseq f g w = Inr w'"
  then obtain w1 where w1: "f w = Inr w1" "g w1 = Inr w'" by (auto simp: fits_simps)
  obtain bs where bs: "appends w w1 bs" "consumes m bs x" using f w1(1) by (auto simp: codes_def)
  obtain cs where cs: "appends w1 w' cs" "finishes (k x) cs y" using g w1(2) by (auto simp: ends_def)
  show "\<exists>bs. appends w w' bs \<and> finishes (rbind m k) bs y"
    using appends_trans [OF bs(1) cs(1)] finishes_bind [where f = k, OF bs(2) cs(2)] by blast
qed

lemma codes_last: "codes f m x \<Longrightarrow> k x = rreturn v \<Longrightarrow> codes f (rbind m k) v"
  unfolding codes_def by (metis consumes_bind_Nil consumes_return)

lemma ends_last: "ends f m x \<Longrightarrow> ends f (rbind m (\<lambda>x. rreturn (g x))) (g x)"
  unfolding ends_def by (metis finishes_bind_return)

lemma codes_skip [codes_intros]: "codes wskip (rreturn v) v"
  by (auto simp: codes_def fits_simps intro!: exI [of _ "[]"] consumes_return)

lemma codes_uint32 [codes_intros]: "codes (write_uint32 v) read_uint32 v"
  and codes_request_id [codes_intros]: "codes (write_uint32 v) read_request_id v"
  and codes_uint64 [codes_intros]: "codes (write_uint64 v) read_uint64 v"
  unfolding codes_def fits_simps
  by (blast intro: appends_put consumes_u32 consumes_u32_id consumes_u64)+

lemma codes_string [codes_intros]: "codes (write_string bs) read_string bs"
  by (auto simp: codes_def fits_simps appends_def str_def
      intro!: exI [of _ "str bs"] consumes_str [unfolded str_def])

lemma ends_remaining: "ends (write_bytes bs) read_remaining bs"
  by (auto simp: ends_def fits_simps intro!: exI [of _ bs] finishes_remaining)

section \<open>What a read leaves\<close>

lemma take_bytes_eq:
  "take_bytes n r = (Inr bs, r') \<longleftrightarrow>
     n \<le> remaining r \<and> bs = take n (unread r) \<and> r' = r\<lparr>r_pos := r_pos r + n\<rparr>"
  by (auto simp: take_bytes_def unread_def)

lemma rbind_eq: "rbind m f r = (Inr y, r') \<longleftrightarrow> (\<exists>x r1. m r = (Inr x, r1) \<and> f x r1 = (Inr y, r'))"
  by (auto simp: rbind_def split: prod.splits sum.splits)

lemma rreturn_eq: "rreturn x r = (Inr y, r') \<longleftrightarrow> y = x \<and> r' = r"
  by (auto simp: rreturn_def)

lemma from_bytes_fits32: "length bs = 4 \<Longrightarrow> fits32 (from_bytes bs)"
  using from_bytes_upper [of bs] by (simp add: fits32_def UINT32_MAX_def)

lemma from_bytes_fits64: "length bs = 8 \<Longrightarrow> fits64 (from_bytes bs)"
  using from_bytes_upper [of bs] by (simp add: fits64_def UINT64_MAX_def)

lemma length_take_unread: "n \<le> remaining r \<Longrightarrow> length (take n (unread r)) = n"
  by simp

lemma read_uint32_eq:
  "read_uint32 r = (Inr v, r') \<longleftrightarrow>
     4 \<le> remaining r \<and> v = from_bytes (take 4 (unread r)) \<and> r' = r\<lparr>r_pos := r_pos r + 4\<rparr>"
  by (auto simp: read_uint32_def rbind_eq take_bytes_eq rreturn_eq)

lemma read_uint32_fits: "read_uint32 r = (Inr v, r') \<Longrightarrow> fits32 v"
  by (auto simp: read_uint32_eq intro!: from_bytes_fits32)

lemma read_uint64_eq:
  "read_uint64 r = (Inr v, r') \<longleftrightarrow>
     8 \<le> remaining r \<and> v = from_bytes (take 8 (unread r)) \<and> r' = r\<lparr>r_pos := r_pos r + 8\<rparr>"
  by (auto simp: read_uint64_def rbind_eq take_bytes_eq rreturn_eq)

lemma read_uint64_fits: "read_uint64 r = (Inr v, r') \<Longrightarrow> fits64 v"
  by (auto simp: read_uint64_eq intro!: from_bytes_fits64)

lemma read_request_id_eq:
  "read_request_id r = (Inr v, r') \<longleftrightarrow>
     (\<exists>r1. read_uint32 r = (Inr v, r1) \<and> r' = r1\<lparr>r_rid := Some v\<rparr>)"
  by (auto simp: read_request_id_def rbind_eq)

lemma read_string_eq:
  "read_string r = (Inr bs, r') \<longleftrightarrow>
     (\<exists>n r1. read_uint32 r = (Inr n, r1) \<and> take_bytes (nat n) r1 = (Inr bs, r'))"
  by (simp add: read_string_def rbind_eq)

lemma read_string_pos:
  assumes "read_string r = (Inr bs, r')"
  shows "fits_string bs" "r_pos r' = r_pos r + 4 + length bs"
proof -
  obtain n r1 where n: "read_uint32 r = (Inr n, r1)" and t: "take_bytes (nat n) r1 = (Inr bs, r')"
    using assms by (auto simp: read_string_eq)
  have "fits32 n" using n by (rule read_uint32_fits)
  moreover have "length bs = nat n" using t by (auto simp: take_bytes_eq)
  ultimately show "fits_string bs" by (simp add: fits_string_def fits32_def)
  show "r_pos r' = r_pos r + 4 + length bs"
    using n t \<open>length bs = nat n\<close> by (auto simp: read_uint32_eq take_bytes_eq)
qed

lemma read_uint32_pos: "read_uint32 r = (Inr v, r') \<Longrightarrow> r_pos r' = r_pos r + 4"
  by (auto simp: read_uint32_eq)

lemma read_uint64_pos: "read_uint64 r = (Inr v, r') \<Longrightarrow> r_pos r' = r_pos r + 8"
  by (auto simp: read_uint64_eq)

lemma read_request_id_pos:
  assumes "read_request_id r = (Inr v, r')"
  shows "r_pos r' = r_pos r + 4" "fits32 v" "r_rid r' = Some v"
  using assms by (auto simp: read_request_id_eq dest: read_uint32_pos read_uint32_fits)

lemma read_facts:
  "read_uint32 r = (Inr v, r') \<Longrightarrow> fits32 v \<and> r_pos r' = r_pos r + 4"
  "read_uint64 r = (Inr v, r') \<Longrightarrow> fits64 v \<and> r_pos r' = r_pos r + 8"
  "read_request_id r = (Inr v, r') \<Longrightarrow> fits32 v \<and> r_pos r' = r_pos r + 4"
  "read_string r = (Inr bs, r') \<Longrightarrow> fits_string bs \<and> r_pos r' = r_pos r + 4 + length bs"
  by (simp_all add: read_uint32_fits read_uint64_fits read_uint32_pos read_uint64_pos
      read_request_id_pos read_string_pos)

text \<open>
  \<open>rewritable f r r'\<close>: the write \<open>f\<close> always succeeds and adds no more than the reader
  consumed between \<open>r\<close> and \<open>r'\<close>. What is read off a frame can be written again.
\<close>

definition rewritable :: "(writer \<Rightarrow> exn + writer) \<Rightarrow> reader \<Rightarrow> reader \<Rightarrow> bool" where
  "rewritable f r r' \<longleftrightarrow> r_pos r \<le> r_pos r' \<and>
     (\<forall>w. \<exists>w'. f w = Inr w' \<and> w_size w' \<le> w_size w + (r_pos r' - r_pos r))"

named_theorems rewritable_intros \<open>what is read can be written again, one rule per field\<close>

lemma rewritableE:
  assumes "rewritable f r r'"
  obtains w' where "f w = Inr w'" "w_size w' \<le> w_size w + (r_pos r' - r_pos r)"
  using assms unfolding rewritable_def by blast

lemma rewritable_pos: "rewritable f r r' \<Longrightarrow> r_pos r \<le> r_pos r'"
  by (simp add: rewritable_def)

lemma rewritable_skip [rewritable_intros]: "r_pos r \<le> r_pos r' \<Longrightarrow> rewritable wskip r r'"
  by (auto simp: rewritable_def wskip_def)

lemma rewritable_seq [rewritable_intros]:
  assumes f: "rewritable f r r1" and g: "rewritable g r1 r'"
  shows "rewritable (wseq f g) r r'"
  unfolding rewritable_def
proof (intro conjI allI)
  show "r_pos r \<le> r_pos r'" using rewritable_pos [OF f] rewritable_pos [OF g] by simp
  fix w
  obtain w1 where w1: "f w = Inr w1" "w_size w1 \<le> w_size w + (r_pos r1 - r_pos r)"
    using f by (rule rewritableE)
  obtain w2 where w2: "g w1 = Inr w2" "w_size w2 \<le> w_size w1 + (r_pos r' - r_pos r1)"
    using g by (rule rewritableE)
  show "\<exists>w'. wseq f g w = Inr w' \<and> w_size w' \<le> w_size w + (r_pos r' - r_pos r)"
    using w1 w2 rewritable_pos [OF f] rewritable_pos [OF g] by (auto simp: fits_simps)
qed

lemma rewritable_fields [rewritable_intros]:
  "read_uint32 r = (Inr v, r') \<Longrightarrow> rewritable (write_uint32 v) r r'"
  "read_request_id r = (Inr v, r') \<Longrightarrow> rewritable (write_uint32 v) r r'"
  "read_uint64 r = (Inr v, r') \<Longrightarrow> rewritable (write_uint64 v) r r'"
  "read_string r = (Inr bs, r') \<Longrightarrow> rewritable (write_string bs) r r'"
  by (auto simp: rewritable_def fits_simps dest!: read_facts)

section \<open>The contract of a field\<close>

locale field_codec =
  fixes enc :: "'a \<Rightarrow> writer \<Rightarrow> exn + writer"
    and dec :: "'a rd"
    and canonical :: "'a \<Rightarrow> bool"
    and min_length :: nat
  assumes enc_dec: "canonical v \<Longrightarrow> enc v w = Inr w' \<Longrightarrow>
      \<exists>bs. appends w w' bs \<and> min_length \<le> length bs \<and> consumes dec bs v"
    and dec_behaves: "well_behaved dec"
    and dec_enc: "reader_ok r \<Longrightarrow> dec r = (Inr v, r') \<Longrightarrow>
      canonical v \<and> r_pos r + min_length \<le> r_pos r' \<and> rewritable (enc v) r r'"
begin

lemma list_enc_dec:
  "list_all canonical vs \<Longrightarrow> wlist enc vs w = Inr w' \<Longrightarrow>
     \<exists>bs. appends w w' bs \<and> length vs * min_length \<le> length bs \<and>
          consumes (rtimes (length vs) dec) bs vs"
proof (induction vs arbitrary: w)
  case Nil
  then show ?case by (auto simp: fits_simps consumes_return intro!: exI [of _ "[]"])
next
  case (Cons v vs)
  then obtain w1 where w1: "enc v w = Inr w1" "wlist enc vs w1 = Inr w'"
    by (auto simp: fits_simps)
  obtain bs where bs: "appends w w1 bs" "min_length \<le> length bs" "consumes dec bs v"
    using enc_dec [of v w w1] Cons.prems(1) w1(1) by auto
  obtain cs where cs: "appends w1 w' cs" "length vs * min_length \<le> length cs"
      "consumes (rtimes (length vs) dec) cs vs"
    using Cons.IH [OF _ w1(2)] Cons.prems(1) by auto
  have "consumes (rtimes (length (v # vs)) dec) (bs @ cs) (v # vs)"
    using consumes_bind [OF bs(3) consumes_bind_Nil [OF cs(3) consumes_return]] by simp
  then show ?case
    using bs(1,2) cs(1,2) appends_trans [OF bs(1) cs(1)] by (intro exI [of _ "bs @ cs"]) auto
qed

lemma list_dec_enc:
  "reader_ok r \<Longrightarrow> rtimes n dec r = (Inr vs, r') \<Longrightarrow>
     length vs = n \<and> list_all canonical vs \<and> r_pos r + n * min_length \<le> r_pos r' \<and>
     rewritable (wlist enc vs) r r'"
proof (induction n arbitrary: r vs)
  case 0
  then show ?case by (auto simp: rreturn_eq intro: rewritable_intros)
next
  case (Suc n)
  then obtain v r1 us where v: "dec r = (Inr v, r1)" and us: "rtimes n dec r1 = (Inr us, r')"
    and vs: "vs = v # us"
    by (auto simp: rbind_eq rreturn_eq)
  have ok1: "reader_ok r1" using well_behavedD(1) [OF dec_behaves v Suc.prems(1)] .
  note one = dec_enc [OF Suc.prems(1) v] and rest = Suc.IH [OF ok1 us]
  then have "rewritable (wlist enc vs) r r'" by (auto simp: vs intro: rewritable_seq)
  with one rest vs show ?case by auto
qed

text \<open>A counted repetition: a \<open>uint32\<close> count, checked against the frame before it is used.\<close>

lemma counted_consumes:
  assumes "1 \<le> min_length" "fits32 (int (length vs))" "length vs * min_length \<le> length bs"
    and "consumes (rtimes (length vs) dec) bs vs"
  shows "consumes (rbind (read_count min_length item) (\<lambda>n. rtimes (nat n) dec))
    (u32 (int (length vs)) @ bs) vs"
proof (rule consumesI)
  fix r rest assume ok: "reader_ok r" and u: "unread r = (u32 (int (length vs)) @ bs) @ rest"
  obtain r1 where r1: "read_uint32 r = (Inr (int (length vs)), r1)" "r_buf r1 = r_buf r"
      "reader_ok r1" "unread r1 = bs @ rest"
    using consumesE [OF consumes_u32 [OF assms(2)] ok, of "bs @ rest"] u by auto
  have "remaining r1 = length bs + length rest" by (metis r1(4) length_unread length_append)
  with assms(3) have "int (length vs) * int min_length \<le> int (remaining r1)"
    by (metis add_leD1 le_add1 of_nat_le_iff of_nat_mult order_trans)
  then have "read_count min_length item r = (Inr (int (length vs)), r1)"
    using assms(1) r1(1) by (simp add: read_count_def Let_def)
  moreover obtain r2 where "rtimes (length vs) dec r1 = (Inr vs, r2)" "r_buf r2 = r_buf r1"
      "reader_ok r2" "unread r2 = rest"
    using consumesE [OF assms(4) r1(3,4)] .
  ultimately show "\<exists>r'. rbind (read_count min_length item) (\<lambda>n. rtimes (nat n) dec) r = (Inr vs, r')
      \<and> r_buf r' = r_buf r \<and> reader_ok r' \<and> unread r' = rest"
    using r1(2) by (simp add: rbind_def)
qed

end

text \<open>The counted repetition as one field.\<close>

context field_codec
begin

lemma counted_codes:
  assumes "1 \<le> min_length" "list_all canonical vs"
  shows "codes (wseq (write_uint32 (int (length vs))) (wlist enc vs))
    (rbind (read_count min_length item) (\<lambda>n. rtimes (nat n) dec)) vs"
  unfolding codes_def
proof (intro allI impI)
  fix w w' assume "wseq (write_uint32 (int (length vs))) (wlist enc vs) w = Inr w'"
  then obtain w1 where n: "fits32 (int (length vs))" and w1: "w1 = put_chunk (u32 (int (length vs))) w"
    and vs: "wlist enc vs w1 = Inr w'"
    by (auto simp: fits_simps)
  obtain bs where bs: "appends w1 w' bs" "length vs * min_length \<le> length bs"
      "consumes (rtimes (length vs) dec) bs vs"
    using list_enc_dec [OF assms(2) vs] by blast
  have "appends w w' (u32 (int (length vs)) @ bs)"
    using bs(1) by (auto simp: w1 intro: appends_trans [OF appends_put])
  with counted_consumes [OF assms(1) n bs(2,3)]
  show "\<exists>bs. appends w w' bs \<and>
      consumes (rbind (read_count min_length item) (\<lambda>n. rtimes (nat n) dec)) bs vs"
    by blast
qed

end

text \<open>A count that passes is one the rest of the frame can hold.\<close>

lemma read_count_eq:
  assumes "1 \<le> k"
  shows "read_count k item r = (Inr n, r') \<longleftrightarrow>
    read_uint32 r = (Inr n, r') \<and> n * int k \<le> int (remaining r')"
  using assms by (auto simp: read_count_def Let_def split: prod.splits sum.splits if_splits)

context field_codec
begin

lemma counted_rewritable:
  assumes "1 \<le> min_length" "reader_ok r"
    and "rbind (read_count min_length item) (\<lambda>n. rtimes (nat n) dec) r = (Inr vs, r')"
  shows "rewritable (wseq (write_uint32 (int (length vs))) (wlist enc vs)) r r' \<and>
    length vs * min_length \<le> r_pos r' - r_pos r \<and> list_all canonical vs"
proof -
  obtain n r1 where n: "read_uint32 r = (Inr n, r1)" and vs: "rtimes (nat n) dec r1 = (Inr vs, r')"
    using assms(1,3) by (auto simp: rbind_eq read_count_eq)
  have "reader_ok r1" using well_behavedD(1) [OF well_behaved_uint32 n assms(2)] .
  note rest = list_dec_enc [OF this vs]
  have "0 \<le> n" using read_facts(1) [OF n] by (simp add: fits32_def)
  with rest have "write_uint32 (int (length vs)) = write_uint32 n" by simp
  moreover have "rewritable (wseq (write_uint32 n) (wlist enc vs)) r r'"
    using rest rewritable_fields(1) [OF n] by (blast intro: rewritable_seq)
  ultimately show ?thesis using rest read_facts(1) [OF n] by auto
qed

end

interpretation u32_field: field_codec write_uint32 read_uint32 "\<lambda>_. True" 4
proof
  show "\<exists>bs. appends w w' bs \<and> 4 \<le> length bs \<and> consumes read_uint32 bs v"
    if "write_uint32 v w = Inr w'" for v w w'
    using that by (intro exI [of _ "u32 v"]) (auto simp: fits_simps intro!: consumes_intros)
qed (auto dest: read_facts intro!: reader_mono rewritable_fields(1))

interpretation u64_field: field_codec write_uint64 read_uint64 "\<lambda>_. True" 8
proof
  show "\<exists>bs. appends w w' bs \<and> 8 \<le> length bs \<and> consumes read_uint64 bs v"
    if "write_uint64 v w = Inr w'" for v w w'
    using that by (intro exI [of _ "u64 v"]) (auto simp: fits_simps intro!: consumes_intros)
qed (auto dest: read_facts intro!: reader_mono rewritable_fields(3))

interpretation string_field: field_codec write_string read_string "\<lambda>_. True" 4
proof
  show "\<exists>bs. appends w w' bs \<and> 4 \<le> length bs \<and> consumes read_string bs v"
    if "write_string v w = Inr w'" for v w w'
    using that
    by (intro exI [of _ "str v"])
       (auto simp: fits_simps appends_def str_def intro!: consumes_str [unfolded str_def])
qed (auto dest: read_facts intro!: reader_mono rewritable_fields(4))

end
