(* ===== verification/Attrs.thy ===== *)
theory Attrs
  imports FieldCodec
begin

text \<open>
  The v3 ATTRS structure of \<open>codec/_attrs.py\<close>: a flags word and the fields whose bits are
  set, in wire order. \<open>UIDGID\<close> and \<open>ACMODTIME\<close> each govern a pair, so the pair is one
  optional value. The theory ends with ATTRS as an instance of the field contract: what
  is encoded reads back, and what is read can be encoded again.
\<close>

record owner =
  uid :: int
  gid :: int

record times =
  atime :: int
  mtime :: int

record attrs =
  a_size :: "int option"
  a_owner :: "owner option"
  a_permissions :: "int option"
  a_times :: "times option"
  a_extended :: "(bytes \<times> bytes) list"

definition EMPTY_ATTRS :: attrs where
  "EMPTY_ATTRS =
     \<lparr>a_size = None, a_owner = None, a_permissions = None, a_times = None, a_extended = []\<rparr>"

definition KNOWN_FLAGS :: int where
  "KNOWN_FLAGS = ATTR_SIZE OR ATTR_UIDGID OR ATTR_PERMISSIONS OR ATTR_ACMODTIME OR ATTR_EXTENDED"

definition MIN_ATTRS_LENGTH :: nat where "MIN_ATTRS_LENGTH = 4"
definition MIN_EXTENDED_PAIR_LENGTH :: nat where "MIN_EXTENDED_PAIR_LENGTH = 8"
definition MAX_V3_TIMESTAMP :: int where "MAX_V3_TIMESTAMP = 0xFFFFFFFF"

definition attrs_flags :: "attrs \<Rightarrow> int" where
  "attrs_flags a =
     (let flags = 0;
          flags = (if a_size a \<noteq> None then flags OR ATTR_SIZE else flags);
          flags = (if a_owner a \<noteq> None then flags OR ATTR_UIDGID else flags);
          flags = (if a_permissions a \<noteq> None then flags OR ATTR_PERMISSIONS else flags);
          flags = (if a_times a \<noteq> None then flags OR ATTR_ACMODTIME else flags);
          flags = (if a_extended a \<noteq> [] then flags OR ATTR_EXTENDED else flags)
      in flags)"

section \<open>Encoding\<close>

definition write_timestamp :: "string \<Rightarrow> int \<Rightarrow> writer \<Rightarrow> exn + writer" where
  "write_timestamp field v w =
     (if \<not> (0 \<le> v \<and> v \<le> MAX_V3_TIMESTAMP)
      then Inl (ValueErr (Msg ''does not fit the v3 seconds field'' [StrArg field, IntArg v]))
      else write_uint32 v w)"

text \<open>\<open>if x is not None: f(x)\<close>.\<close>

definition wopt :: "('a \<Rightarrow> writer \<Rightarrow> exn + writer) \<Rightarrow> 'a option \<Rightarrow> writer \<Rightarrow> exn + writer" where
  "wopt f x = (case x of None \<Rightarrow> wskip | Some v \<Rightarrow> f v)"

definition write_pair :: "bytes \<times> bytes \<Rightarrow> writer \<Rightarrow> exn + writer" where
  "write_pair p = wseq (write_string (fst p)) (write_string (snd p))"

definition encode_attrs :: "attrs \<Rightarrow> writer \<Rightarrow> exn + writer" where
  "encode_attrs a =
     wseq (write_uint32 (attrs_flags a))
    (wseq (wopt write_uint64 (a_size a))
    (wseq (wopt (\<lambda>ow. wseq (write_uint32 (uid ow)) (write_uint32 (gid ow))) (a_owner a))
    (wseq (wopt write_uint32 (a_permissions a))
    (wseq (wopt (\<lambda>t. wseq (write_timestamp ''atime'' (atime t)) (write_timestamp ''mtime'' (mtime t)))
             (a_times a))
          (if a_extended a \<noteq> []
           then wseq (write_uint32 (int (length (a_extended a)))) (wlist write_pair (a_extended a))
           else wskip)))))"

section \<open>Decoding\<close>

text \<open>\<open>m if c else None\<close>.\<close>

definition ropt :: "bool \<Rightarrow> 'a rd \<Rightarrow> 'a option rd" where
  "ropt c m = (if c then rbind m (\<lambda>x. rreturn (Some x)) else rreturn None)"

definition read_owner :: "owner rd" where
  "read_owner = rbind read_uint32 (\<lambda>u. rbind read_uint32 (\<lambda>g. rreturn \<lparr>uid = u, gid = g\<rparr>))"

definition read_times :: "times rd" where
  "read_times = rbind read_uint32 (\<lambda>a. rbind read_uint32 (\<lambda>m. rreturn \<lparr>atime = a, mtime = m\<rparr>))"

definition read_pair :: "(bytes \<times> bytes) rd" where
  "read_pair = rbind read_string (\<lambda>t. rbind read_string (\<lambda>d. rreturn (t, d)))"

definition decode_attrs :: "attrs rd" where
  "decode_attrs =
     rbind read_uint32 (\<lambda>flags.
       let unknown = flags AND NOT KNOWN_FLAGS in
       if unknown \<noteq> 0 then rraise (Msg ''ATTRS sets undefined flag bits'' [IntArg unknown])
       else
       rbind (ropt (flags AND ATTR_SIZE \<noteq> 0) read_uint64) (\<lambda>size.
       rbind (ropt (flags AND ATTR_UIDGID \<noteq> 0) read_owner) (\<lambda>own.
       rbind (ropt (flags AND ATTR_PERMISSIONS \<noteq> 0) read_uint32) (\<lambda>perms.
       rbind (ropt (flags AND ATTR_ACMODTIME \<noteq> 0) read_times) (\<lambda>tms.
       rbind (if flags AND ATTR_EXTENDED \<noteq> 0
              then rbind (read_count MIN_EXTENDED_PAIR_LENGTH ''ATTRS extended pair'')
                     (\<lambda>count. rtimes (nat count) read_pair)
              else rreturn []) (\<lambda>ext.
       rreturn \<lparr>a_size = size, a_owner = own, a_permissions = perms, a_times = tms,
                a_extended = ext\<rparr>))))))"

section \<open>Flags\<close>

lemma attrs_flags_fits [simp]: "fits32 (attrs_flags a)"
  by (auto simp: attrs_flags_def attr_flag_defs fits32_def UINT32_MAX_def Let_def)

lemma attrs_flags_known [simp]: "attrs_flags a AND NOT KNOWN_FLAGS = 0"
  by (auto simp: attrs_flags_def attr_flag_defs KNOWN_FLAGS_def Let_def)

lemma attrs_flags_bits [simp]:
  "attrs_flags a AND ATTR_SIZE = 0 \<longleftrightarrow> a_size a = None"
  "attrs_flags a AND ATTR_UIDGID = 0 \<longleftrightarrow> a_owner a = None"
  "attrs_flags a AND ATTR_PERMISSIONS = 0 \<longleftrightarrow> a_permissions a = None"
  "attrs_flags a AND ATTR_ACMODTIME = 0 \<longleftrightarrow> a_times a = None"
  "attrs_flags a AND ATTR_EXTENDED = 0 \<longleftrightarrow> a_extended a = []"
  by (auto simp: attrs_flags_def attr_flag_defs Let_def)

section \<open>The pieces of the wire form\<close>

lemma wopt_eq [fits_simps]:
  "wopt f x w = Inr w' \<longleftrightarrow> (case x of None \<Rightarrow> w' = w | Some v \<Rightarrow> f v w = Inr w')"
  by (auto simp: wopt_def fits_simps split: option.splits)

lemma write_timestamp_eq [fits_simps]:
  "write_timestamp field v w = Inr w' \<longleftrightarrow> fits32 v \<and> w' = put_chunk (u32 v) w"
  by (auto simp: write_timestamp_def fits_simps fits32_def MAX_V3_TIMESTAMP_def UINT32_MAX_def)

lemma consumes_opt:
  assumes "c \<longleftrightarrow> x \<noteq> None" "\<And>v. x = Some v \<Longrightarrow> consumes m (bs v) v"
  shows "consumes (ropt c m) (case x of None \<Rightarrow> [] | Some v \<Rightarrow> bs v) x"
  using assms by (cases x) (auto simp: ropt_def intro!: consumes_intros consumes_bind_Nil)

lemma consumes_bind_opt:
  assumes "c \<longleftrightarrow> x \<noteq> None" "\<And>v. x = Some v \<Longrightarrow> consumes m (bs v) v" "consumes (f x) cs y"
  shows "consumes (rbind (ropt c m) f) ((case x of None \<Rightarrow> [] | Some v \<Rightarrow> bs v) @ cs) y"
  by (rule consumes_bind [where x = x, OF consumes_opt]) (use assms in blast)+

lemma well_behaved_opt [reader_mono]: "well_behaved m \<Longrightarrow> well_behaved (ropt c m)"
  by (auto simp: ropt_def intro!: reader_mono)

lemma well_behaved_fields [reader_mono]:
  "well_behaved read_owner" "well_behaved read_times" "well_behaved read_pair"
  unfolding read_owner_def read_times_def read_pair_def by (intro reader_mono)+

lemma ropt_eq:
  "ropt c m r = (Inr x, r') \<longleftrightarrow>
     (if c then \<exists>v. m r = (Inr v, r') \<and> x = Some v else x = None \<and> r' = r)"
  by (auto simp: ropt_def rbind_eq rreturn_eq)

definition pair_bytes :: "bytes \<times> bytes \<Rightarrow> bytes" where
  "pair_bytes p = str (fst p) @ str (snd p)"

lemma consumes_pair:
  "fits_string (fst p) \<Longrightarrow> fits_string (snd p) \<Longrightarrow> consumes read_pair (pair_bytes p) p"
  unfolding read_pair_def pair_bytes_def
  by (rule consumes_bind [OF consumes_str consumes_bind_Nil [OF consumes_str consumes_returnI]])
     simp_all

interpretation pair_field: field_codec write_pair read_pair "\<lambda>_. True" MIN_EXTENDED_PAIR_LENGTH
proof
  show "\<exists>bs. appends w w' bs \<and> MIN_EXTENDED_PAIR_LENGTH \<le> length bs \<and> consumes read_pair bs p"
    if "write_pair p w = Inr w'" for p w w'
    using that
    by (intro exI [of _ "pair_bytes p"])
       (auto simp: write_pair_def fits_simps appends_def str_def pair_bytes_def
          MIN_EXTENDED_PAIR_LENGTH_def intro!: consumes_pair [unfolded pair_bytes_def str_def, simplified])
  show "True \<and> r_pos r + MIN_EXTENDED_PAIR_LENGTH \<le> r_pos r' \<and> rewritable (write_pair p) r r'"
    if "read_pair r = (Inr p, r')" for r p r'
  proof -
    from that obtain r1 where r: "read_string r = (Inr (fst p), r1)" "read_string r1 = (Inr (snd p), r')"
      by (auto simp: read_pair_def rbind_eq rreturn_eq)
    then have "rewritable (write_pair p) r r'"
      by (auto simp: write_pair_def intro!: rewritable_seq [OF rewritable_fields(4) rewritable_fields(4)])
    with read_facts(4) [OF r(1)] read_facts(4) [OF r(2)] show ?thesis
      by (simp add: MIN_EXTENDED_PAIR_LENGTH_def)
  qed
qed (rule reader_mono)

lemma consumes_owner: "fits32 (uid ow) \<Longrightarrow> fits32 (gid ow) \<Longrightarrow>
    consumes read_owner (u32 (uid ow) @ u32 (gid ow)) ow"
  unfolding read_owner_def
  by (rule consumes_bind [OF consumes_u32 consumes_bind_Nil [OF consumes_u32 consumes_returnI]])
     simp_all

lemma consumes_times: "fits32 (atime t) \<Longrightarrow> fits32 (mtime t) \<Longrightarrow>
    consumes read_times (u32 (atime t) @ u32 (mtime t)) t"
  unfolding read_times_def
  by (rule consumes_bind [OF consumes_u32 consumes_bind_Nil [OF consumes_u32 consumes_returnI]])
     simp_all

section \<open>ATTRS keeps the contract of a field\<close>

lemma wopt_appends:
  assumes "wopt f x w = Inr w'"
    and "\<And>v. x = Some v \<Longrightarrow> f v w = Inr w' \<Longrightarrow> appends w w' (bs v) \<and> P v"
  shows "appends w w' (case x of None \<Rightarrow> [] | Some v \<Rightarrow> bs v) \<and> pred_option P x"
  using assms by (cases x) (auto simp: fits_simps)

lemma codes_ext:
  "codes (if ext \<noteq> [] then wseq (write_uint32 (int (length ext))) (wlist write_pair ext) else wskip)
    (if ext \<noteq> []
     then rbind (read_count MIN_EXTENDED_PAIR_LENGTH ''ATTRS extended pair'')
            (\<lambda>count. rtimes (nat count) read_pair)
     else rreturn []) ext"
  using pair_field.counted_codes [of ext]
  by (auto simp: MIN_EXTENDED_PAIR_LENGTH_def list_all_iff intro: codes_skip)

lemma attrs_enc_dec:
  assumes "encode_attrs a w = Inr w'"
  shows "\<exists>bs. appends w w' bs \<and> MIN_ATTRS_LENGTH \<le> length bs \<and> consumes decode_attrs bs a"
proof -
  obtain w1 w2 w3 w4 w5 where w1: "w1 = put_chunk (u32 (attrs_flags a)) w"
    and w2: "wopt write_uint64 (a_size a) w1 = Inr w2"
    and w3: "wopt (\<lambda>ow. wseq (write_uint32 (uid ow)) (write_uint32 (gid ow))) (a_owner a) w2 = Inr w3"
    and w4: "wopt write_uint32 (a_permissions a) w3 = Inr w4"
    and w5: "wopt (\<lambda>t. wseq (write_timestamp ''atime'' (atime t)) (write_timestamp ''mtime'' (mtime t)))
        (a_times a) w4 = Inr w5"
    and w6: "(if a_extended a \<noteq> []
         then wseq (write_uint32 (int (length (a_extended a)))) (wlist write_pair (a_extended a))
         else wskip) w5 = Inr w'"
    using assms unfolding encode_attrs_def by (simp only: wseq_eq write_uint32_eq) blast
  obtain bs6 where bs6: "appends w5 w' bs6"
    "consumes (if a_extended a \<noteq> []
              then rbind (read_count MIN_EXTENDED_PAIR_LENGTH ''ATTRS extended pair'')
                     (\<lambda>count. rtimes (nat count) read_pair)
              else rreturn []) bs6 (a_extended a)"
    using codes_ext [of "a_extended a"] w6 unfolding codes_def by blast
  have p2: "appends w1 w2 (case a_size a of None \<Rightarrow> [] | Some v \<Rightarrow> u64 v) \<and> pred_option fits64 (a_size a)"
    by (rule wopt_appends [OF w2]) (auto simp: fits_simps)
  have p3: "appends w2 w3 (case a_owner a of None \<Rightarrow> [] | Some v \<Rightarrow> u32 (uid v) @ u32 (gid v))
      \<and> pred_option (\<lambda>ow. fits32 (uid ow) \<and> fits32 (gid ow)) (a_owner a)"
    by (rule wopt_appends [OF w3]) (auto simp: fits_simps appends_def)
  have p4: "appends w3 w4 (case a_permissions a of None \<Rightarrow> [] | Some v \<Rightarrow> u32 v)
      \<and> pred_option fits32 (a_permissions a)"
    by (rule wopt_appends [OF w4]) (auto simp: fits_simps)
  have p5: "appends w4 w5 (case a_times a of None \<Rightarrow> [] | Some v \<Rightarrow> u32 (atime v) @ u32 (mtime v))
      \<and> pred_option (\<lambda>t. fits32 (atime t) \<and> fits32 (mtime t)) (a_times a)"
    by (rule wopt_appends [OF w5]) (auto simp: fits_simps appends_def)
  have a1: "appends w w1 (u32 (attrs_flags a))" by (simp add: w1)
  have "consumes decode_attrs (u32 (attrs_flags a) @
      ((case a_size a of None \<Rightarrow> [] | Some v \<Rightarrow> u64 v) @
      ((case a_owner a of None \<Rightarrow> [] | Some v \<Rightarrow> u32 (uid v) @ u32 (gid v)) @
      ((case a_permissions a of None \<Rightarrow> [] | Some v \<Rightarrow> u32 v) @
      ((case a_times a of None \<Rightarrow> [] | Some v \<Rightarrow> u32 (atime v) @ u32 (mtime v)) @
      bs6))))) a"
    unfolding decode_attrs_def
  proof (rule consumes_bind [OF consumes_u32 [OF attrs_flags_fits]],
      simp only: Let_def attrs_flags_known refl simp_thms if_False,
      intro consumes_bind_opt)
    show "consumes (rbind (if attrs_flags a AND ATTR_EXTENDED \<noteq> 0
              then rbind (read_count MIN_EXTENDED_PAIR_LENGTH ''ATTRS extended pair'')
                     (\<lambda>count. rtimes (nat count) read_pair)
              else rreturn []) (\<lambda>ext.
       rreturn \<lparr>a_size = a_size a, a_owner = a_owner a, a_permissions = a_permissions a,
                a_times = a_times a, a_extended = ext\<rparr>)) bs6 a"
      by (rule consumes_bind_Nil [where x = "a_extended a"]) (use bs6(2) in \<open>simp_all add: consumes_returnI\<close>)
  qed (use p2 p3 p4 p5 in \<open>auto intro: consumes_u64 consumes_u32 consumes_owner consumes_times\<close>)
  moreover have "appends w w' (u32 (attrs_flags a) @
      ((case a_size a of None \<Rightarrow> [] | Some v \<Rightarrow> u64 v) @
      ((case a_owner a of None \<Rightarrow> [] | Some v \<Rightarrow> u32 (uid v) @ u32 (gid v)) @
      ((case a_permissions a of None \<Rightarrow> [] | Some v \<Rightarrow> u32 v) @
      ((case a_times a of None \<Rightarrow> [] | Some v \<Rightarrow> u32 (atime v) @ u32 (mtime v)) @
      bs6)))))"
    using a1 p2 p3 p4 p5 bs6(1) by (meson appends_trans)
  ultimately show ?thesis by (intro exI) (auto simp: MIN_ATTRS_LENGTH_def)
qed

lemma rewritable_opt:
  assumes "ropt c m r = (Inr x, r')" "\<And>v. m r = (Inr v, r') \<Longrightarrow> rewritable (f v) r r'"
  shows "rewritable (wopt f x) r r'"
  using assms by (auto simp: ropt_eq wopt_def intro: rewritable_skip split: if_splits)

lemma rewritable_owner:
  "read_owner r = (Inr ow, r') \<Longrightarrow>
     rewritable (wseq (write_uint32 (uid ow)) (write_uint32 (gid ow))) r r'"
  by (auto simp: read_owner_def rbind_eq rreturn_eq
      intro!: rewritable_seq [OF rewritable_fields(1) rewritable_fields(1)])

lemma rewritable_times:
  "read_times r = (Inr t, r') \<Longrightarrow>
     rewritable (wseq (write_timestamp f (atime t)) (write_timestamp g (mtime t))) r r'"
  by (auto simp: read_times_def rbind_eq rreturn_eq rewritable_def fits_simps dest!: read_facts)

lemma well_behaved_attrs [reader_mono]: "well_behaved decode_attrs"
  unfolding decode_attrs_def Let_def MIN_EXTENDED_PAIR_LENGTH_def
  by (intro reader_mono) simp_all

lemma rewritable_flags:
  assumes "read_uint32 r = (Inr f, r')" shows "rewritable (write_uint32 (attrs_flags a)) r r'"
  using assms by (auto simp: rewritable_def fits_simps dest!: read_facts)

lemma attrs_dec_enc:
  assumes ok: "reader_ok r" and dec: "decode_attrs r = (Inr a, r')"
  shows "r_pos r + MIN_ATTRS_LENGTH \<le> r_pos r' \<and> rewritable (encode_attrs a) r r'"
proof -
  obtain f r1 r2 r3 r4 r5 where f: "read_uint32 r = (Inr f, r1)"
    and r2: "ropt (f AND ATTR_SIZE \<noteq> 0) read_uint64 r1 = (Inr (a_size a), r2)"
    and r3: "ropt (f AND ATTR_UIDGID \<noteq> 0) read_owner r2 = (Inr (a_owner a), r3)"
    and r4: "ropt (f AND ATTR_PERMISSIONS \<noteq> 0) read_uint32 r3 = (Inr (a_permissions a), r4)"
    and r5: "ropt (f AND ATTR_ACMODTIME \<noteq> 0) read_times r4 = (Inr (a_times a), r5)"
    and r6: "(if f AND ATTR_EXTENDED \<noteq> 0
              then rbind (read_count MIN_EXTENDED_PAIR_LENGTH ''ATTRS extended pair'')
                     (\<lambda>count. rtimes (nat count) read_pair)
              else rreturn []) r5 = (Inr (a_extended a), r')"
    using dec
    by (auto simp: decode_attrs_def Let_def rbind_eq rreturn_eq rraise_def split: if_splits)
  note keeps_ok = well_behavedD(1)
  have ok1: "reader_ok r1" by (rule keeps_ok [OF well_behaved_uint32 f ok])
  have ok2: "reader_ok r2" by (rule keeps_ok [OF well_behaved_opt [OF well_behaved_uint64] r2 ok1])
  have ok3: "reader_ok r3" by (rule keeps_ok [OF well_behaved_opt [OF well_behaved_fields(1)] r3 ok2])
  have ok4: "reader_ok r4" by (rule keeps_ok [OF well_behaved_opt [OF well_behaved_uint32] r4 ok3])
  have ok5: "reader_ok r5" by (rule keeps_ok [OF well_behaved_opt [OF well_behaved_fields(2)] r5 ok4])
  have behaved: "well_behaved (if f AND ATTR_EXTENDED \<noteq> 0
              then rbind (read_count MIN_EXTENDED_PAIR_LENGTH ''ATTRS extended pair'')
                     (\<lambda>count. rtimes (nat count) read_pair)
              else rreturn [])"
    by (intro reader_mono) (simp add: MIN_EXTENDED_PAIR_LENGTH_def)
  have ext: "rewritable (if a_extended a \<noteq> []
         then wseq (write_uint32 (int (length (a_extended a)))) (wlist write_pair (a_extended a))
         else wskip) r5 r'"
    using r6 pair_field.counted_rewritable [OF _ ok5] well_behavedD(4) [OF behaved r6 ok5]
    by (auto simp: rreturn_eq MIN_EXTENDED_PAIR_LENGTH_def intro: rewritable_skip split: if_splits)
  have size: "rewritable (wopt write_uint64 (a_size a)) r1 r2"
    by (rule rewritable_opt [OF r2]) (rule rewritable_fields)
  have own: "rewritable (wopt (\<lambda>ow. wseq (write_uint32 (uid ow)) (write_uint32 (gid ow))) (a_owner a)) r2 r3"
    by (rule rewritable_opt [OF r3]) (rule rewritable_owner)
  have perms: "rewritable (wopt write_uint32 (a_permissions a)) r3 r4"
    by (rule rewritable_opt [OF r4]) (rule rewritable_fields)
  have tms: "rewritable (wopt (\<lambda>t. wseq (write_timestamp ''atime'' (atime t))
      (write_timestamp ''mtime'' (mtime t))) (a_times a)) r4 r5"
    by (rule rewritable_opt [OF r5]) (rule rewritable_times)
  have rest: "rewritable (encode_attrs a) r r'"
    unfolding encode_attrs_def
    by (rule rewritable_seq [OF rewritable_flags [OF f] rewritable_seq [OF size rewritable_seq [OF own
        rewritable_seq [OF perms rewritable_seq [OF tms ext]]]]])
  have "r_pos r1 \<le> r_pos r'"
    using size own perms tms ext by (auto dest!: rewritable_pos)
  with rest read_facts(1) [OF f] show ?thesis by (simp add: MIN_ATTRS_LENGTH_def)
qed

interpretation attrs_field: field_codec encode_attrs decode_attrs "\<lambda>_. True" MIN_ATTRS_LENGTH
  by unfold_locales (auto simp: attrs_enc_dec attrs_dec_enc intro: reader_mono)

end
