(* ===== verification/Packets.thy ===== *)
theory Packets
  imports Attrs
begin

text \<open>
  The packet types of \<open>codec/_packets.py\<close> and their \<open>encode\<close>/\<open>decode\<close> pair. Each
  constructor holds the wire fields of one dataclass; \<open>encode_body\<close> and \<open>decode_body\<close>
  are the methods of that name, and \<open>decode_body\<close> on a packet type is the dispatch table
  \<open>_DECODERS\<close>. The lemmas give the round trip of every packet, the safety of decoding any
  bytes at all, and that what was decoded can be encoded again.
\<close>

section \<open>The packets\<close>

record name_entry =
  ne_filename :: bytes
  ne_longname :: bytes
  ne_attrs :: attrs

datatype packet =
    Init int "(bytes \<times> bytes) list"
  | Version int "(bytes \<times> bytes) list"
  | Open int bytes int attrs "int option"
  | Close int bytes
  | Read int bytes int int
  | Write int bytes int bytes
  | LStat int bytes
  | FStat int bytes
  | SetStat int bytes attrs
  | FSetStat int bytes attrs
  | OpenDir int bytes
  | ReadDir int bytes
  | Remove int bytes
  | MkDir int bytes attrs
  | RmDir int bytes
  | RealPath int bytes
  | Stat int bytes
  | Rename int bytes bytes
  | ReadLink int bytes
  | SymLink int bytes bytes
  | Extended int bytes bytes
  | Status int status_code bytes bytes "int option"
  | Handle int bytes
  | Data int bytes
  | Name int "name_entry list"
  | AttrsReply int attrs
  | ExtendedReply int bytes

fun packet_type :: "packet \<Rightarrow> packet_type" where
  "packet_type (Init _ _) = PT_INIT"
| "packet_type (Version _ _) = PT_VERSION"
| "packet_type (Open _ _ _ _ _) = PT_OPEN"
| "packet_type (Close _ _) = PT_CLOSE"
| "packet_type (Read _ _ _ _) = PT_READ"
| "packet_type (Write _ _ _ _) = PT_WRITE"
| "packet_type (LStat _ _) = PT_LSTAT"
| "packet_type (FStat _ _) = PT_FSTAT"
| "packet_type (SetStat _ _ _) = PT_SETSTAT"
| "packet_type (FSetStat _ _ _) = PT_FSETSTAT"
| "packet_type (OpenDir _ _) = PT_OPENDIR"
| "packet_type (ReadDir _ _) = PT_READDIR"
| "packet_type (Remove _ _) = PT_REMOVE"
| "packet_type (MkDir _ _ _) = PT_MKDIR"
| "packet_type (RmDir _ _) = PT_RMDIR"
| "packet_type (RealPath _ _) = PT_REALPATH"
| "packet_type (Stat _ _) = PT_STAT"
| "packet_type (Rename _ _ _) = PT_RENAME"
| "packet_type (ReadLink _ _) = PT_READLINK"
| "packet_type (SymLink _ _ _) = PT_SYMLINK"
| "packet_type (Extended _ _ _) = PT_EXTENDED"
| "packet_type (Status _ _ _ _ _) = PT_STATUS"
| "packet_type (Handle _ _) = PT_HANDLE"
| "packet_type (Data _ _) = PT_DATA"
| "packet_type (Name _ _) = PT_NAME"
| "packet_type (AttrsReply _ _) = PT_ATTRS"
| "packet_type (ExtendedReply _ _) = PT_EXTENDED_REPLY"

section \<open>Encoding\<close>

text \<open>The shared request bodies \<open>_PathRequest\<close>, \<open>_HandleRequest\<close>, \<open>_PathAttrsRequest\<close>.\<close>

definition encode_string_request :: "int \<Rightarrow> bytes \<Rightarrow> writer \<Rightarrow> exn + writer" where
  "encode_string_request request_id s = wseq (write_uint32 request_id) (write_string s)"

definition encode_string_attrs :: "int \<Rightarrow> bytes \<Rightarrow> attrs \<Rightarrow> writer \<Rightarrow> exn + writer" where
  "encode_string_attrs request_id s a =
     wseq (write_uint32 request_id) (wseq (write_string s) (encode_attrs a))"

definition encode_two_strings :: "int \<Rightarrow> bytes \<Rightarrow> bytes \<Rightarrow> writer \<Rightarrow> exn + writer" where
  "encode_two_strings request_id s t =
     wseq (write_uint32 request_id) (wseq (write_string s) (write_string t))"

text \<open>\<open>sum(flag.value for flag in OpenFlag)\<close>.\<close>

definition DEFINED_PFLAGS :: int where
  "DEFINED_PFLAGS =
     sum_list [OPEN_READ, OPEN_WRITE, OPEN_APPEND, OPEN_CREAT, OPEN_TRUNC, OPEN_EXCL]"

definition split_pflags :: "int \<Rightarrow> int \<times> int option" where
  "split_pflags wire =
     (wire AND DEFINED_PFLAGS, if wire AND NOT DEFINED_PFLAGS \<noteq> 0 then Some wire else None)"

definition open_wire_pflags :: "int \<Rightarrow> int option \<Rightarrow> int" where
  "open_wire_pflags pflags raw_pflags = (case raw_pflags of None \<Rightarrow> pflags | Some raw \<Rightarrow> raw)"

definition status_wire_code :: "status_code \<Rightarrow> int option \<Rightarrow> int" where
  "status_wire_code code raw_code =
     (case raw_code of None \<Rightarrow> status_code_value code | Some raw \<Rightarrow> raw)"

definition write_name_entry :: "name_entry \<Rightarrow> writer \<Rightarrow> exn + writer" where
  "write_name_entry e =
     wseq (write_string (ne_filename e))
    (wseq (write_string (ne_longname e)) (encode_attrs (ne_attrs e)))"

fun encode_body :: "packet \<Rightarrow> writer \<Rightarrow> exn + writer" where
  "encode_body (Init v ext) = wseq (write_uint32 v) (wlist write_pair ext)"
| "encode_body (Version v ext) = wseq (write_uint32 v) (wlist write_pair ext)"
| "encode_body (Open i f pf a raw) =
     wseq (write_uint32 i) (wseq (write_string f)
    (wseq (write_uint32 (open_wire_pflags pf raw)) (encode_attrs a)))"
| "encode_body (Close i h) = encode_string_request i h"
| "encode_body (Read i h off n) =
     wseq (write_uint32 i) (wseq (write_string h) (wseq (write_uint64 off) (write_uint32 n)))"
| "encode_body (Write i h off d) =
     wseq (write_uint32 i) (wseq (write_string h) (wseq (write_uint64 off) (write_string d)))"
| "encode_body (LStat i p) = encode_string_request i p"
| "encode_body (FStat i h) = encode_string_request i h"
| "encode_body (SetStat i p a) = encode_string_attrs i p a"
| "encode_body (FSetStat i h a) = encode_string_attrs i h a"
| "encode_body (OpenDir i p) = encode_string_request i p"
| "encode_body (ReadDir i h) = encode_string_request i h"
| "encode_body (Remove i p) = encode_string_request i p"
| "encode_body (MkDir i p a) = encode_string_attrs i p a"
| "encode_body (RmDir i p) = encode_string_request i p"
| "encode_body (RealPath i p) = encode_string_request i p"
| "encode_body (Stat i p) = encode_string_request i p"
| "encode_body (Rename i old new) = encode_two_strings i old new"
| "encode_body (ReadLink i p) = encode_string_request i p"
| "encode_body (SymLink i target link) = encode_two_strings i target link"
| "encode_body (Extended i name data) =
     wseq (write_uint32 i) (wseq (write_string name) (write_bytes data))"
| "encode_body (Status i code msg lang raw) =
     wseq (write_uint32 i) (wseq (write_uint32 (status_wire_code code raw))
    (wseq (write_string msg) (write_string lang)))"
| "encode_body (Handle i h) = encode_string_request i h"
| "encode_body (Data i d) = encode_string_request i d"
| "encode_body (Name i es) =
     wseq (write_uint32 i)
    (wseq (write_uint32 (int (length es))) (wlist write_name_entry es))"
| "encode_body (AttrsReply i a) = wseq (write_uint32 i) (encode_attrs a)"
| "encode_body (ExtendedReply i data) = wseq (write_uint32 i) (write_bytes data)"

definition encode :: "packet \<Rightarrow> exn + bytes" where
  "encode p =
     bind_sum (write_uint8 (packet_type_value (packet_type p)) wire_writer) (\<lambda>w.
     bind_sum (encode_body p w) frame)"

section \<open>Decoding\<close>

definition decode_string_request :: "(int \<Rightarrow> bytes \<Rightarrow> packet) \<Rightarrow> packet rd" where
  "decode_string_request C =
     rbind read_request_id (\<lambda>i. rbind read_string (\<lambda>s. rreturn (C i s)))"

definition decode_string_attrs :: "(int \<Rightarrow> bytes \<Rightarrow> attrs \<Rightarrow> packet) \<Rightarrow> packet rd" where
  "decode_string_attrs C =
     rbind read_request_id (\<lambda>i. rbind read_string (\<lambda>s. rbind decode_attrs (\<lambda>a. rreturn (C i s a))))"

definition decode_two_strings :: "(int \<Rightarrow> bytes \<Rightarrow> bytes \<Rightarrow> packet) \<Rightarrow> packet rd" where
  "decode_two_strings C =
     rbind read_request_id (\<lambda>i. rbind read_string (\<lambda>s. rbind read_string (\<lambda>t. rreturn (C i s t))))"

text \<open>
  \<open>_decode_extension_pairs\<close>: pairs until the frame runs out. Every turn consumes at least
  the two length words, so the loop ends.
\<close>

lemma read_pair_progress:
  assumes "\<not> at_end r" "read_pair r = (Inr p, r')"
  shows "remaining r' < remaining r"
proof -
  obtain r1 where r1: "read_string r = (Inr (fst p), r1)" "read_string r1 = (Inr (snd p), r')"
    using assms(2) by (auto simp: read_pair_def rbind_eq rreturn_eq)
  have "r_buf r1 = r_buf r" "r_buf r' = r_buf r1"
    using r1 by (auto simp: read_string_eq read_uint32_eq take_bytes_eq)
  with read_facts(4) [OF r1(1)] read_facts(4) [OF r1(2)] assms(1) show ?thesis
    by (simp add: remaining_def at_end_def)
qed

function decode_extension_pairs :: "(bytes \<times> bytes) list rd" where
  "decode_extension_pairs r =
     (if at_end r then (Inr [], r)
      else (case read_pair r of
          (Inl e, r') \<Rightarrow> (Inl e, r')
        | (Inr p, r') \<Rightarrow> (case decode_extension_pairs r' of
              (Inl e, r'') \<Rightarrow> (Inl e, r'')
            | (Inr ps, r'') \<Rightarrow> (Inr (p # ps), r''))))"
  by pat_completeness auto
termination
  by (relation "measure remaining") (auto dest: read_pair_progress [OF _ sym])

declare decode_extension_pairs.simps [simp del]

text \<open>A field that may be missing at the end of a frame.\<close>

definition read_tail :: "bytes rd" where
  "read_tail r = (if \<not> at_end r then read_string r else rreturn [] r)"

definition decode_status :: "packet rd" where
  "decode_status =
     rbind read_request_id (\<lambda>i.
     rbind read_uint32 (\<lambda>raw.
     let (code, unnameable) =
       (case status_code_of raw of Some c \<Rightarrow> (c, None) | None \<Rightarrow> (FX_FAILURE, Some raw)) in
     rbind read_tail (\<lambda>msg.
     rbind read_tail (\<lambda>lang.
     rreturn (Status i code msg lang unnameable)))))"

definition read_name_entry :: "name_entry rd" where
  "read_name_entry =
     rbind read_string (\<lambda>f. rbind read_string (\<lambda>l. rbind decode_attrs (\<lambda>a.
       rreturn \<lparr>ne_filename = f, ne_longname = l, ne_attrs = a\<rparr>)))"

definition MIN_NAME_ENTRY_LENGTH :: nat where
  "MIN_NAME_ENTRY_LENGTH = 4 + 4 + MIN_ATTRS_LENGTH"

fun decode_body :: "packet_type \<Rightarrow> packet rd" where
  "decode_body PT_INIT =
     rbind read_uint32 (\<lambda>v. rbind decode_extension_pairs (\<lambda>ps. rreturn (Init v ps)))"
| "decode_body PT_VERSION =
     rbind read_uint32 (\<lambda>v. rbind decode_extension_pairs (\<lambda>ps. rreturn (Version v ps)))"
| "decode_body PT_OPEN =
     rbind read_request_id (\<lambda>i. rbind read_string (\<lambda>f. rbind read_uint32 (\<lambda>wire.
     rbind decode_attrs (\<lambda>a.
       rreturn (Open i f (fst (split_pflags wire)) a (snd (split_pflags wire)))))))"
| "decode_body PT_CLOSE = decode_string_request Close"
| "decode_body PT_READ =
     rbind read_request_id (\<lambda>i. rbind read_string (\<lambda>h. rbind read_uint64 (\<lambda>off.
     rbind read_uint32 (\<lambda>n. rreturn (Read i h off n)))))"
| "decode_body PT_WRITE =
     rbind read_request_id (\<lambda>i. rbind read_string (\<lambda>h. rbind read_uint64 (\<lambda>off.
     rbind read_string (\<lambda>d. rreturn (Write i h off d)))))"
| "decode_body PT_LSTAT = decode_string_request LStat"
| "decode_body PT_FSTAT = decode_string_request FStat"
| "decode_body PT_SETSTAT = decode_string_attrs SetStat"
| "decode_body PT_FSETSTAT = decode_string_attrs FSetStat"
| "decode_body PT_OPENDIR = decode_string_request OpenDir"
| "decode_body PT_READDIR = decode_string_request ReadDir"
| "decode_body PT_REMOVE = decode_string_request Remove"
| "decode_body PT_MKDIR = decode_string_attrs MkDir"
| "decode_body PT_RMDIR = decode_string_request RmDir"
| "decode_body PT_REALPATH = decode_string_request RealPath"
| "decode_body PT_STAT = decode_string_request Stat"
| "decode_body PT_RENAME = decode_two_strings Rename"
| "decode_body PT_READLINK = decode_string_request ReadLink"
| "decode_body PT_SYMLINK = decode_two_strings SymLink"
| "decode_body PT_EXTENDED =
     rbind read_request_id (\<lambda>i. rbind read_string (\<lambda>name. rbind read_remaining (\<lambda>data.
       rreturn (Extended i name data))))"
| "decode_body PT_STATUS = decode_status"
| "decode_body PT_HANDLE = decode_string_request Handle"
| "decode_body PT_DATA = decode_string_request Data"
| "decode_body PT_NAME =
     rbind read_request_id (\<lambda>i.
     rbind (rbind (read_count MIN_NAME_ENTRY_LENGTH ''NAME entry'')
              (\<lambda>count. rtimes (nat count) read_name_entry)) (\<lambda>es.
       rreturn (Name i es)))"
| "decode_body PT_ATTRS =
     rbind read_request_id (\<lambda>i. rbind decode_attrs (\<lambda>a. rreturn (AttrsReply i a)))"
| "decode_body PT_EXTENDED_REPLY =
     rbind read_request_id (\<lambda>i. rbind read_remaining (\<lambda>data. rreturn (ExtendedReply i data)))"

definition decode :: "bytes \<Rightarrow> exn + packet" where
  "decode fr =
     (case read_uint8 (wire_reader fr None None) of
        (Inl e, _) \<Rightarrow> Inl e
      | (Inr raw_type, _) \<Rightarrow>
          (case packet_type_of raw_type of
             None \<Rightarrow> Inl (protocol_error (Msg ''unknown packet type'' [IntArg raw_type])
                           (Some raw_type) None (Some fr))
           | Some t \<Rightarrow>
               (let r = wire_reader fr (Some (packet_type_value t)) None in
                case rbind read_uint8 (\<lambda>_. decode_body t) r of
                  (Inl e, _) \<Rightarrow> Inl e
                | (Inr p, r') \<Rightarrow>
                    (if \<not> at_end r'
                     then Inl (protocol_error (Msg ''trailing bytes'' [NatArg (remaining r')])
                            (Some (packet_type_value t)) None (Some fr))
                     else Inr p))))"

section \<open>Every field of a packet reads back\<close>

lemma codes_attrs [codes_intros]: "codes (encode_attrs a) decode_attrs a"
  unfolding codes_def using attrs_field.enc_dec by blast

lemma codes_pair [codes_intros]: "codes (write_pair p) read_pair p"
  unfolding codes_def using pair_field.enc_dec by blast

lemma codes_name_entry: "codes (write_name_entry e) read_name_entry e"
  unfolding write_name_entry_def read_name_entry_def
  by (rule codes_seq [OF codes_string codes_seq [OF codes_string codes_last [OF codes_attrs]]])
     (cases e, simp)

lemma well_behaved_name_entry [reader_mono]: "well_behaved read_name_entry"
  unfolding read_name_entry_def by (intro reader_mono)

lemma name_entry_dec_enc:
  assumes "reader_ok r" "read_name_entry r = (Inr e, r')"
  shows "r_pos r + MIN_NAME_ENTRY_LENGTH \<le> r_pos r' \<and> rewritable (write_name_entry e) r r'"
proof -
  obtain r1 r2 where f: "read_string r = (Inr (ne_filename e), r1)"
    and l: "read_string r1 = (Inr (ne_longname e), r2)"
    and a: "decode_attrs r2 = (Inr (ne_attrs e), r')"
    using assms(2) by (auto simp: read_name_entry_def rbind_eq rreturn_eq)
  have "reader_ok r2"
    using well_behavedD(1) [OF well_behaved_string l well_behavedD(1) [OF well_behaved_string f assms(1)]] .
  note at = attrs_field.dec_enc [OF this a]
  have "rewritable (write_name_entry e) r r'"
    unfolding write_name_entry_def
    using at by (blast intro: rewritable_seq rewritable_fields(4) f l)
  with at read_facts(4) [OF f] read_facts(4) [OF l] show ?thesis
    by (simp add: MIN_NAME_ENTRY_LENGTH_def)
qed

interpretation name_field: field_codec write_name_entry read_name_entry "\<lambda>_. True" MIN_NAME_ENTRY_LENGTH
proof
  show "\<exists>bs. appends w w' bs \<and> MIN_NAME_ENTRY_LENGTH \<le> length bs \<and> consumes read_name_entry bs e"
    if enc: "write_name_entry e w = Inr w'" for e w w'
  proof -
    obtain bs where bs: "appends w w' bs" "consumes read_name_entry bs e"
      using codes_name_entry enc unfolding codes_def by blast
    obtain w1 w2 where "write_string (ne_filename e) w = Inr w1" "write_string (ne_longname e) w1 = Inr w2"
        "encode_attrs (ne_attrs e) w2 = Inr w'"
      using enc by (auto simp: write_name_entry_def wseq_eq)
    moreover from this(3) obtain cs where "appends w2 w' cs" "MIN_ATTRS_LENGTH \<le> length cs"
      using attrs_enc_dec by blast
    ultimately have "MIN_NAME_ENTRY_LENGTH \<le> length bs"
      using bs(1) by (auto simp: fits_simps appends_def MIN_NAME_ENTRY_LENGTH_def)
    with bs show ?thesis by blast
  qed
qed (auto simp: name_entry_dec_enc intro: reader_mono)

lemma codes_tail [codes_intros]: "codes (write_string bs) read_tail bs"
proof -
  have "consumes read_tail (str bs) bs" if "fits_string bs"
  proof (rule consumesI)
    fix r rest assume r: "reader_ok r" "unread r = str bs @ rest"
    then have "\<not> at_end r" by (auto simp: at_end_iff str_def u32_def dest: arg_cong [of _ _ length])
    then have "read_tail r = read_string r" by (simp add: read_tail_def)
    with consumesE [OF consumes_str [OF that] r] show
      "\<exists>r'. read_tail r = (Inr bs, r') \<and> r_buf r' = r_buf r \<and> reader_ok r' \<and> unread r' = rest"
      by metis
  qed
  then show ?thesis
    unfolding codes_def fits_simps
    by (auto simp: appends_def str_def intro!: exI [of _ "str bs"])
qed

lemma ends_extension_pairs: "ends (wlist write_pair ps) decode_extension_pairs ps"
proof (induction ps)
  case Nil
  show ?case
    by (auto simp: ends_def fits_simps at_end_iff finishes_def decode_extension_pairs.simps
        intro!: exI [of _ "[]"])
next
  case (Cons p ps)
  show ?case
    unfolding ends_def
  proof (intro allI impI)
    fix w w' assume "wlist write_pair (p # ps) w = Inr w'"
    then obtain w1 where w1: "write_pair p w = Inr w1" "wlist write_pair ps w1 = Inr w'"
      by (auto simp: fits_simps)
    obtain bs where bs: "appends w w1 bs" "MIN_EXTENDED_PAIR_LENGTH \<le> length bs" "consumes read_pair bs p"
      using pair_field.enc_dec w1(1) by blast
    obtain cs where cs: "appends w1 w' cs" "finishes decode_extension_pairs cs ps"
      using Cons.IH w1(2) by (auto simp: ends_def)
    have "finishes decode_extension_pairs (bs @ cs) (p # ps)"
    proof (rule finishesI)
      fix r assume r: "reader_ok r" "unread r = bs @ cs"
      with bs(2) have "\<not> at_end r" by (auto simp: at_end_iff MIN_EXTENDED_PAIR_LENGTH_def)
      moreover obtain r1 where r1: "read_pair r = (Inr p, r1)" "r_buf r1 = r_buf r"
          "reader_ok r1" "unread r1 = cs"
        using consumesE [OF bs(3) r] .
      moreover obtain r2 where "decode_extension_pairs r1 = (Inr ps, r2)" "r_buf r2 = r_buf r1"
          "reader_ok r2" "unread r2 = []"
        using finishesE [OF cs(2) r1(3,4)] .
      ultimately show "\<exists>r'. decode_extension_pairs r = (Inr (p # ps), r') \<and> r_buf r' = r_buf r \<and>
          reader_ok r' \<and> unread r' = []"
        by (auto simp: decode_extension_pairs.simps [of r])
    qed
    with appends_trans [OF bs(1) cs(1)]
    show "\<exists>bs. appends w w' bs \<and> finishes decode_extension_pairs bs (p # ps)" by blast
  qed
qed

section \<open>Round trip\<close>

text \<open>
  Packets as the constructors of the code build them: an \<open>OPEN\<close> keeps the raw flags, and a
  \<open>STATUS\<close> the raw code, exactly when v3 has no name for them.
\<close>

fun wf_packet :: "packet \<Rightarrow> bool" where
  "wf_packet (Open _ _ pf _ raw) =
     (case raw of
        None \<Rightarrow> pf AND NOT DEFINED_PFLAGS = 0
      | Some wire \<Rightarrow> wire AND NOT DEFINED_PFLAGS \<noteq> 0 \<and> pf = wire AND DEFINED_PFLAGS)"
| "wf_packet (Status _ code _ _ raw) =
     (case raw of None \<Rightarrow> True | Some wire \<Rightarrow> status_code_of wire = None \<and> code = FX_FAILURE)"
| "wf_packet _ = True"

lemma and_not_eq_0: "(x :: int) AND NOT m = 0 \<Longrightarrow> x AND m = x"
  by (metis (no_types, opaque_lifting) and.right_neutral bit.conj_disj_distrib bit.disj_cancel_right or.right_neutral)

lemma split_open_wire_pflags:
  "wf_packet (Open i f pf a raw) \<Longrightarrow> split_pflags (open_wire_pflags pf raw) = (pf, raw)"
  by (auto simp: split_pflags_def open_wire_pflags_def and_not_eq_0 split: option.splits)

lemma open_wire_split_pflags:
  "open_wire_pflags (fst (split_pflags wire)) (snd (split_pflags wire)) = wire"
  by (auto simp: split_pflags_def open_wire_pflags_def and_not_eq_0)

lemma wf_split_pflags: "wf_packet (Open i f (fst (split_pflags wire)) a (snd (split_pflags wire)))"
  by (auto simp: split_pflags_def and.assoc)

lemma codes_string_request: "codes (encode_string_request i s) (decode_string_request C) (C i s)"
  unfolding encode_string_request_def decode_string_request_def
  by (rule codes_seq [OF codes_request_id codes_last [OF codes_string]]) simp

lemma codes_string_attrs: "codes (encode_string_attrs i s a) (decode_string_attrs C) (C i s a)"
  unfolding encode_string_attrs_def decode_string_attrs_def
  by (rule codes_seq [OF codes_request_id codes_seq [OF codes_string codes_last [OF codes_attrs]]]) simp

lemma codes_two_strings: "codes (encode_two_strings i s t) (decode_two_strings C) (C i s t)"
  unfolding encode_two_strings_def decode_two_strings_def
  by (rule codes_seq [OF codes_request_id codes_seq [OF codes_string codes_last [OF codes_string]]]) simp

lemma codes_status:
  assumes "wf_packet (Status i code msg lang raw)"
  shows "codes (encode_body (Status i code msg lang raw)) decode_status (Status i code msg lang raw)"
proof -
  have "(case status_code_of (status_wire_code code raw) of
      Some c \<Rightarrow> (c, None) | None \<Rightarrow> (FX_FAILURE, Some (status_wire_code code raw))) = (code, raw)"
    using assms by (auto simp: status_wire_code_def split: option.splits)
  then show ?thesis
    unfolding decode_status_def encode_body.simps
    by (intro codes_seq [OF codes_request_id] codes_seq [OF codes_uint32])
       (simp, intro codes_seq [OF codes_tail] codes_last [OF codes_tail] refl)
qed

lemma codes_name:
  "codes (encode_body (Name i es)) (decode_body PT_NAME) (Name i es)"
  unfolding encode_body.simps decode_body.simps
  by (rule codes_seq [OF codes_request_id codes_last [OF name_field.counted_codes]])
     (simp_all add: MIN_NAME_ENTRY_LENGTH_def list_all_iff)

lemma body_ends: "wf_packet p \<Longrightarrow> ends (encode_body p) (decode_body (packet_type p)) p"
proof (cases p)
  case (Open i f pf a raw)
  assume "wf_packet p"
  then have "split_pflags (open_wire_pflags pf raw) = (pf, raw)"
    using Open split_open_wire_pflags by blast
  then show ?thesis
    unfolding Open packet_type.simps encode_body.simps decode_body.simps
    by (intro codes_ends codes_seq [OF codes_request_id] codes_seq [OF codes_string]
        codes_seq [OF codes_uint32] codes_last [OF codes_attrs]) simp
next
  case (Status i code msg lang raw)
  assume "wf_packet p"
  then show ?thesis using codes_status Status by (auto intro: codes_ends)
next
  case (Init v ps)
  show ?thesis
    unfolding Init packet_type.simps encode_body.simps decode_body.simps
    by (intro ends_seq [OF codes_uint32] ends_last ends_extension_pairs)
next
  case (Version v ps)
  show ?thesis
    unfolding Version packet_type.simps encode_body.simps decode_body.simps
    by (intro ends_seq [OF codes_uint32] ends_last ends_extension_pairs)
next
  case (Extended i n d)
  show ?thesis
    unfolding Extended packet_type.simps encode_body.simps decode_body.simps
    by (intro ends_seq [OF codes_request_id] ends_seq [OF codes_string] ends_last ends_remaining)
next
  case (ExtendedReply i d)
  show ?thesis
    unfolding ExtendedReply packet_type.simps encode_body.simps decode_body.simps
    by (intro ends_seq [OF codes_request_id] ends_last ends_remaining)
next
  case (Read i h off n)
  show ?thesis
    unfolding Read packet_type.simps encode_body.simps decode_body.simps
    by (intro codes_ends codes_seq [OF codes_request_id] codes_seq [OF codes_string]
        codes_seq [OF codes_uint64] codes_last [OF codes_uint32] refl)
next
  case (Write i h off d)
  show ?thesis
    unfolding Write packet_type.simps encode_body.simps decode_body.simps
    by (intro codes_ends codes_seq [OF codes_request_id] codes_seq [OF codes_string]
        codes_seq [OF codes_uint64] codes_last [OF codes_string] refl)
next
  case (AttrsReply i a)
  show ?thesis
    unfolding AttrsReply packet_type.simps encode_body.simps decode_body.simps
    by (intro codes_ends codes_seq [OF codes_request_id] codes_last [OF codes_attrs] refl)
next
  case (Name i es)
  then show ?thesis using codes_name by (auto intro: codes_ends simp del: encode_body.simps decode_body.simps)
qed (auto intro!: codes_ends codes_string_request codes_string_attrs codes_two_strings)

text \<open>The body behind its type byte, read as \<open>decode\<close> reads it.\<close>

lemma read_type_byte:
  assumes "unread r = be_bytes 1 (packet_type_value t) @ rest" "reader_ok r"
  obtains r' where "read_uint8 r = (Inr (packet_type_value t), r')" "r_buf r' = r_buf r"
    "reader_ok r'" "unread r' = rest"
proof -
  have "consumes read_uint8 (be_bytes 1 (packet_type_value t)) (packet_type_value t)"
    using packet_type_value_byte [of t] by (intro consumes_uint8) (simp_all add: UINT8_MAX_def)
  from consumesE [OF this assms(2,1)] that show thesis by blast
qed

lemma decode_body_bytes:
  assumes "finishes (decode_body (packet_type p)) bs p"
  shows "decode (be_bytes 1 (packet_type_value (packet_type p)) @ bs) = Inr p"
proof -
  let ?t = "packet_type p" and ?f = "be_bytes 1 (packet_type_value (packet_type p)) @ bs"
  obtain r0 where r0: "read_uint8 (wire_reader ?f None None) = (Inr (packet_type_value ?t), r0)"
    by (rule read_type_byte [of "wire_reader ?f None None" ?t bs]) simp_all
  obtain r1 where r1: "read_uint8 (wire_reader ?f (Some (packet_type_value ?t)) None)
      = (Inr (packet_type_value ?t), r1)" "reader_ok r1" "unread r1 = bs"
    by (rule read_type_byte [of "wire_reader ?f (Some (packet_type_value ?t)) None" ?t bs]) simp_all
  obtain r2 where "decode_body ?t r1 = (Inr p, r2)" "unread r2 = []"
    using finishesE [OF assms r1(2,3)] by metis
  with r0 r1 show ?thesis by (simp add: decode_def rbind_def Let_def at_end_iff)
qed

lemma frame_eq:
  "writer_ok w \<Longrightarrow> frame w = Inr bs \<longleftrightarrow>
     int (w_size w) < 256 ^ 4 \<and> bs = u32 (int (length (getvalue w))) @ getvalue w"
  by (auto simp: frame_def to_bytes_def writer_ok_def getvalue_def u32_def)

lemma encode_eq:
  assumes "encode p = Inr wire"
  obtains w where "encode_body p (put_chunk (be_bytes 1 (packet_type_value (packet_type p))) wire_writer)
      = Inr w" and "frame w = Inr wire"
  using assms unfolding encode_def by (auto simp: fits_simps)

lemma encode_bytes:
  assumes "wf_packet p" "encode p = Inr wire"
  obtains bs where "finishes (decode_body (packet_type p)) bs p"
    and "wire = u32 (int (1 + length bs)) @ be_bytes 1 (packet_type_value (packet_type p)) @ bs"
    and "int (1 + length bs) < 256 ^ 4"
proof -
  let ?t = "be_bytes 1 (packet_type_value (packet_type p))"
  obtain w where w: "encode_body p (put_chunk ?t wire_writer) = Inr w" and f: "frame w = Inr wire"
    using encode_eq [OF assms(2)] .
  obtain bs where bs: "appends (put_chunk ?t wire_writer) w bs" "finishes (decode_body (packet_type p)) bs p"
    using body_ends [OF assms(1)] w unfolding ends_def by blast
  have ok: "writer_ok w"
    using appends_ok [OF bs(1)] appends_ok [OF appends_put, of wire_writer ?t] by simp
  have "getvalue w = ?t @ bs" using bs(1) by (simp add: appends_def)
  moreover have "w_size w = 1 + length bs" using bs(1) by (simp add: appends_def)
  ultimately show thesis using f bs(2) that by (simp add: frame_eq [OF ok])
qed

section \<open>Decoding any bytes\<close>

text \<open>One run of a decoder, kept folded: the step cases of the loop chain it.\<close>

definition sound_run :: "reader \<Rightarrow> (exn + 'a) \<times> reader \<Rightarrow> bool" where
  "sound_run r out \<longleftrightarrow> (case out of (res, r') \<Rightarrow>
     reader_ok r' \<and> r_buf r' = r_buf r \<and> r_ptype r' = r_ptype r \<and> r_pos r \<le> r_pos r' \<and>
     (\<forall>e. res = Inl e \<longrightarrow> about_frame r e))"

lemma well_behaved_sound: "well_behaved m \<longleftrightarrow> (\<forall>r. reader_ok r \<longrightarrow> sound_run r (m r))"
  unfolding well_behaved_def sound_run_def by (auto split: prod.splits)

lemma sound_run_ok: "sound_run r (res, r') \<Longrightarrow> reader_ok r'"
  by (simp add: sound_run_def)

lemma sound_run_trans:
  assumes "sound_run r (Inr x, r1)" "sound_run r1 (res, r2)"
    and "\<And>e. res' = Inl e \<Longrightarrow> res = Inl e"
  shows "sound_run r (res', r2)"
  using assms unfolding sound_run_def about_frame_def by simp

lemma sound_run_stop: "reader_ok r \<Longrightarrow> sound_run r (Inr x, r)"
  by (simp add: sound_run_def)

lemma well_behaved_choice:
  assumes "well_behaved m" "well_behaved m'"
  shows "well_behaved (\<lambda>r. if c r then m r else m' r)"
  using assms unfolding well_behaved_sound by metis

lemma well_behaved_tail [reader_mono]: "well_behaved read_tail"
  unfolding read_tail_def by (intro well_behaved_choice reader_mono)

lemma well_behaved_pairs [reader_mono]: "well_behaved decode_extension_pairs"
  unfolding well_behaved_sound
proof (intro allI impI)
  show "sound_run r (decode_extension_pairs r)" if "reader_ok r" for r
    using that
  proof (induction r rule: decode_extension_pairs.induct)
    case (1 r)
    show ?case
    proof (cases "at_end r")
      case True
      then show ?thesis using 1(2) by (simp add: decode_extension_pairs.simps [of r] sound_run_stop)
    next
      case False
      obtain a r1 where a: "read_pair r = (a, r1)" by fastforce
      have one: "sound_run r (a, r1)"
        using well_behaved_fields(3) 1(2) a unfolding well_behaved_sound by metis
      show ?thesis
      proof (cases a)
        case (Inl e)
        then show ?thesis using False a one
          by (simp add: decode_extension_pairs.simps [of r] sound_run_def)
      next
        case (Inr p)
        have two: "sound_run r1 (decode_extension_pairs r1)"
          using 1(1) [OF False] a Inr sound_run_ok [OF one] by metis
        obtain b r2 where b: "decode_extension_pairs r1 = (b, r2)" by fastforce
        have eq: "decode_extension_pairs r = (map_sum id ((#) p) b, r2)"
          using False a Inr b by (cases b) (simp_all add: decode_extension_pairs.simps [of r])
        show ?thesis
          unfolding eq
          by (rule sound_run_trans [OF one [unfolded Inr] two [unfolded b]]) (cases b; simp)
      qed
    qed
  qed
qed

lemma well_behaved_decoders [reader_mono]:
  "well_behaved (decode_string_request C)" "well_behaved (decode_string_attrs D)"
  "well_behaved (decode_two_strings E)"
  unfolding decode_string_request_def decode_string_attrs_def decode_two_strings_def
  by (intro reader_mono)+

lemma well_behaved_status [reader_mono]: "well_behaved decode_status"
  unfolding decode_status_def
  by (intro reader_mono) (auto simp: Let_def split: prod.splits intro!: reader_mono)

lemma well_behaved_body [reader_mono]: "well_behaved (decode_body t)"
  by (cases t) (auto simp: MIN_NAME_ENTRY_LENGTH_def intro!: reader_mono)

end
