(* ===== verification/PacketLaws.thy ===== *)
theory PacketLaws
  imports Packets
begin

text \<open>
  What \<open>encode\<close> and \<open>decode\<close> of \<open>codec/_packets.py\<close> promise each other: the round trip,
  the safety of decoding arbitrary bytes, and that every decoded packet can be encoded and
  decoded again. The bound of \<open>8\<close> below is the two length words a terse \<open>STATUS\<close> leaves
  out and its encoding puts back.
\<close>

section \<open>What was decoded can be written\<close>

lemma rewritable_remaining:
  "read_remaining r = (Inr d, r') \<Longrightarrow> reader_ok r \<Longrightarrow> rewritable (write_bytes d) r r'"
  by (auto simp: read_remaining_def take_bytes_eq rewritable_def write_bytes_def)

lemma pairs_dec_enc:
  "reader_ok r \<Longrightarrow> decode_extension_pairs r = (Inr ps, r') \<Longrightarrow> rewritable (wlist write_pair ps) r r'"
proof (induction r arbitrary: ps rule: decode_extension_pairs.induct)
  case (1 r)
  show ?case
  proof (cases "at_end r")
    case True
    with 1(3) show ?thesis by (auto simp: decode_extension_pairs.simps [of r] intro: rewritable_skip)
  next
    case False
    then obtain p r1 qs where p: "read_pair r = (Inr p, r1)"
      and qs: "decode_extension_pairs r1 = (Inr qs, r')" and ps: "ps = p # qs"
      using 1(3) by (auto simp: decode_extension_pairs.simps [of r] split: prod.splits sum.splits)
    have "reader_ok r1" using well_behavedD(1) [OF pair_field.dec_behaves p 1(2)] .
    with 1(1) [OF False p [symmetric]] qs have "rewritable (wlist write_pair qs) r1 r'" by blast
    moreover have "rewritable (write_pair p) r r1" using pair_field.dec_enc [OF 1(2) p] by blast
    ultimately show ?thesis by (simp add: ps rewritable_seq)
  qed
qed

lemma rewritable_bodies:
  "decode_string_request C r = (Inr p, r') \<Longrightarrow>
     \<exists>i s. p = C i s \<and> rewritable (encode_string_request i s) r r'"
  "reader_ok r \<Longrightarrow> decode_string_attrs D r = (Inr p, r') \<Longrightarrow>
     \<exists>i s a. p = D i s a \<and> rewritable (encode_string_attrs i s a) r r'"
  "decode_two_strings E r = (Inr p, r') \<Longrightarrow>
     \<exists>i s t. p = E i s t \<and> rewritable (encode_two_strings i s t) r r'"
proof -
  show "\<exists>i s. p = C i s \<and> rewritable (encode_string_request i s) r r'"
    if "decode_string_request C r = (Inr p, r')"
    using that unfolding decode_string_request_def encode_string_request_def
    by (auto simp: rbind_eq rreturn_eq intro: rewritable_seq rewritable_fields)
  show "\<exists>i s t. p = E i s t \<and> rewritable (encode_two_strings i s t) r r'"
    if "decode_two_strings E r = (Inr p, r')"
    using that unfolding decode_two_strings_def encode_two_strings_def rbind_eq rreturn_eq
    by (blast intro: rewritable_seq rewritable_fields)
  assume ok: "reader_ok r" and dec: "decode_string_attrs D r = (Inr p, r')"
  then obtain i r1 s r2 a where i: "read_request_id r = (Inr i, r1)" and s: "read_string r1 = (Inr s, r2)"
    and a: "decode_attrs r2 = (Inr a, r')" and p: "p = D i s a"
    by (auto simp: decode_string_attrs_def rbind_eq rreturn_eq)
  have "reader_ok r2" using ok i s by (meson well_behavedD(1) well_behaved_request_id well_behaved_string)
  then show "\<exists>i s a. p = D i s a \<and> rewritable (encode_string_attrs i s a) r r'"
    using p i s attrs_field.dec_enc [OF _ a] unfolding encode_string_attrs_def
    by (blast intro: rewritable_seq rewritable_fields)
qed

text \<open>A terse \<open>STATUS\<close> grows by the missing length words, everything else does not grow.\<close>

definition rewritable_by :: "nat \<Rightarrow> (writer \<Rightarrow> exn + writer) \<Rightarrow> reader \<Rightarrow> reader \<Rightarrow> bool" where
  "rewritable_by k f r r' \<longleftrightarrow>
     (\<forall>w. \<exists>w'. f w = Inr w' \<and> w_size w' \<le> w_size w + (r_pos r' - r_pos r) + k)"

lemma rewritable_rewritable_by: "rewritable f r r' \<Longrightarrow> rewritable_by k f r r'"
  unfolding rewritable_def rewritable_by_def by (meson trans_le_add1)

lemma rewritable_tail:
  assumes "read_tail r = (Inr s, r')"
  shows "r_pos r \<le> r_pos r' \<and> (\<exists>w'. write_string s w = Inr w' \<and> w_size w' \<le> w_size w + (r_pos r' - r_pos r) + 4)"
  using assms
  by (auto simp: read_tail_def rreturn_eq fits_simps fits_string_def UINT32_MAX_def
      dest!: read_facts(4) split: if_splits)

lemma rewritable_status:
  assumes "decode_status r = (Inr p, r')"
  shows "wf_packet p \<and> packet_type p = PT_STATUS \<and> rewritable_by 8 (encode_body p) r r'"
proof -
  define named where "named raw = (case status_code_of raw of Some c \<Rightarrow> (c, None)
    | None \<Rightarrow> (FX_FAILURE, Some raw))" for raw
  obtain i r1 raw r2 msg r3 lang where i: "read_request_id r = (Inr i, r1)"
    and raw: "read_uint32 r1 = (Inr raw, r2)" and msg: "read_tail r2 = (Inr msg, r3)"
    and lang: "read_tail r3 = (Inr lang, r')"
    and p: "p = Status i (fst (named raw)) msg lang (snd (named raw))"
    using assms by (auto simp: decode_status_def Let_def rbind_eq rreturn_eq named_def split: option.splits)
  have code: "status_wire_code (fst (named raw)) (snd (named raw)) = raw" "wf_packet p"
    by (auto simp: p named_def status_wire_code_def status_code_of_Some split: option.splits)
  have "rewritable_by 8 (encode_body p) r r'"
    unfolding rewritable_by_def
  proof
    fix w
    obtain w1 where w1: "write_uint32 i w = Inr w1" "w_size w1 = w_size w + 4"
      using read_facts(3) [OF i] by (auto simp: fits_simps)
    obtain w2 where w2: "write_uint32 raw w1 = Inr w2" "w_size w2 = w_size w1 + 4"
      using read_facts(1) [OF raw] by (auto simp: fits_simps)
    obtain w3 where w3: "write_string msg w2 = Inr w3" "w_size w3 \<le> w_size w2 + (r_pos r3 - r_pos r2) + 4"
      using rewritable_tail [OF msg] by blast
    obtain w4 where w4: "write_string lang w3 = Inr w4" "w_size w4 \<le> w_size w3 + (r_pos r' - r_pos r3) + 4"
      using rewritable_tail [OF lang] by blast
    have "encode_body p w = Inr w4"
      unfolding p encode_body.simps code(1) using w1 w2 w3 w4 by (simp add: wseq_def)
    moreover have "w_size w4 \<le> w_size w + (r_pos r' - r_pos r) + 8"
      using w1(2) w2(2) w3(2) w4(2) conjunct1 [OF rewritable_tail [OF msg]]
        conjunct1 [OF rewritable_tail [OF lang]] read_facts(3) [OF i] read_facts(1) [OF raw]
      by linarith
    ultimately show "\<exists>w'. encode_body p w = Inr w' \<and> w_size w' \<le> w_size w + (r_pos r' - r_pos r) + 8"
      by blast
  qed
  with code show ?thesis by (simp add: p)
qed

lemma body_dec_enc:
  assumes ok: "reader_ok r" and dec: "decode_body t r = (Inr p, r')"
  shows "wf_packet p \<and> packet_type p = t \<and> rewritable_by 8 (encode_body p) r r'"
proof -
  have plain: ?thesis if "wf_packet p" "packet_type p = t" "rewritable (encode_body p) r r'"
    using that by (simp add: rewritable_rewritable_by)
  show ?thesis
  proof (cases t)
    case PT_STATUS
    then show ?thesis using dec rewritable_status by simp
  next
    case PT_INIT
    with dec obtain v r1 ps where v: "read_uint32 r = (Inr v, r1)"
      and ps: "decode_extension_pairs r1 = (Inr ps, r')" and p: "p = Init v ps"
      by (auto simp: rbind_eq rreturn_eq)
    have "reader_ok r1" using well_behavedD(1) [OF well_behaved_uint32 v ok] .
    then show ?thesis using pairs_dec_enc ps v PT_INIT
      by (intro plain) (auto simp: p intro: rewritable_seq rewritable_fields)
  next
    case PT_VERSION
    with dec obtain v r1 ps where v: "read_uint32 r = (Inr v, r1)"
      and ps: "decode_extension_pairs r1 = (Inr ps, r')" and p: "p = Version v ps"
      by (auto simp: rbind_eq rreturn_eq)
    have "reader_ok r1" using well_behavedD(1) [OF well_behaved_uint32 v ok] .
    then show ?thesis using pairs_dec_enc ps v PT_VERSION
      by (intro plain) (auto simp: p intro: rewritable_seq rewritable_fields)
  next
    case PT_OPEN
    with dec obtain i r1 f r2 wire r3 a where i: "read_request_id r = (Inr i, r1)"
      and f: "read_string r1 = (Inr f, r2)" and wire: "read_uint32 r2 = (Inr wire, r3)"
      and a: "decode_attrs r3 = (Inr a, r')"
      and p: "p = Open i f (fst (split_pflags wire)) a (snd (split_pflags wire))"
      by (auto simp: rbind_eq rreturn_eq)
    have "reader_ok r3"
      using ok i f wire by (meson well_behavedD(1) well_behaved_request_id well_behaved_string well_behaved_uint32)
    then have "rewritable (encode_attrs a) r3 r'" using attrs_field.dec_enc [OF _ a] by blast
    then have "rewritable (encode_body p) r r'"
      unfolding p encode_body.simps open_wire_split_pflags
      using i f wire by (blast intro: rewritable_seq rewritable_fields)
    then show ?thesis using PT_OPEN wf_split_pflags by (intro plain) (auto simp: p)
  next
    case PT_NAME
    with dec obtain i r1 es where i: "read_request_id r = (Inr i, r1)" and p: "p = Name i es"
      and es: "rbind (read_count MIN_NAME_ENTRY_LENGTH ''NAME entry'')
              (\<lambda>count. rtimes (nat count) read_name_entry) r1 = (Inr es, r')"
      by (auto simp: rbind_eq rreturn_eq)
    have "reader_ok r1" using well_behavedD(1) [OF well_behaved_request_id i ok] .
    with es have "rewritable (wseq (write_uint32 (int (length es))) (wlist write_name_entry es)) r1 r'"
      using name_field.counted_rewritable by (simp add: MIN_NAME_ENTRY_LENGTH_def)
    then show ?thesis using PT_NAME i
      by (intro plain) (auto simp: p intro: rewritable_seq rewritable_fields)
  next
    case PT_EXTENDED
    with dec obtain i r1 n r2 d where i: "read_request_id r = (Inr i, r1)"
      and n: "read_string r1 = (Inr n, r2)" and d: "read_remaining r2 = (Inr d, r')"
      and p: "p = Extended i n d" by (auto simp: rbind_eq rreturn_eq)
    have "reader_ok r2"
      using ok i n by (meson well_behavedD(1) well_behaved_request_id well_behaved_string)
    then have "rewritable (encode_body p) r r'"
      unfolding p encode_body.simps
      using i n rewritable_remaining [OF d] by (blast intro: rewritable_seq rewritable_fields)
    then show ?thesis using PT_EXTENDED by (intro plain) (auto simp: p)
  next
    case PT_EXTENDED_REPLY
    with dec obtain i r1 d where i: "read_request_id r = (Inr i, r1)"
      and d: "read_remaining r1 = (Inr d, r')" and p: "p = ExtendedReply i d"
      by (auto simp: rbind_eq rreturn_eq)
    have "reader_ok r1" using well_behavedD(1) [OF well_behaved_request_id i ok] .
    then show ?thesis using PT_EXTENDED_REPLY i rewritable_remaining [OF d]
      by (intro plain) (auto simp: p intro: rewritable_seq rewritable_fields)
  next
    case PT_ATTRS
    with dec obtain i r1 a where i: "read_request_id r = (Inr i, r1)"
      and a: "decode_attrs r1 = (Inr a, r')" and p: "p = AttrsReply i a"
      by (auto simp: rbind_eq rreturn_eq)
    have "reader_ok r1" using well_behavedD(1) [OF well_behaved_request_id i ok] .
    then show ?thesis using PT_ATTRS i attrs_field.dec_enc [OF _ a]
      by (intro plain) (auto simp: p intro: rewritable_seq rewritable_fields)
  next
    case PT_READ
    with dec obtain i r1 h r2 off r3 x where i: "read_request_id r = (Inr i, r1)"
      and h: "read_string r1 = (Inr h, r2)" and off: "read_uint64 r2 = (Inr off, r3)"
      and x: "read_uint32 r3 = (Inr x, r')" and p: "p = Read i h off x"
      by (auto simp: rbind_eq rreturn_eq)
    have "rewritable (encode_body p) r r'"
      unfolding p encode_body.simps using i h off x by (blast intro: rewritable_seq rewritable_fields)
    then show ?thesis using PT_READ by (intro plain) (auto simp: p)
  next
    case PT_WRITE
    with dec obtain i r1 h r2 off r3 x where i: "read_request_id r = (Inr i, r1)"
      and h: "read_string r1 = (Inr h, r2)" and off: "read_uint64 r2 = (Inr off, r3)"
      and x: "read_string r3 = (Inr x, r')" and p: "p = Write i h off x"
      by (auto simp: rbind_eq rreturn_eq)
    have "rewritable (encode_body p) r r'"
      unfolding p encode_body.simps using i h off x by (blast intro: rewritable_seq rewritable_fields)
    then show ?thesis using PT_WRITE by (intro plain) (auto simp: p)
  qed (use dec in \<open>auto dest!: rewritable_bodies(1) rewritable_bodies(2) [OF ok] rewritable_bodies(3)
      intro: rewritable_rewritable_by\<close>)
qed

section \<open>Decoding a whole frame\<close>

lemma type_byte_reads:
  assumes "read_uint8 (wire_reader fr t i) = (Inr v, r')"
  shows "fr \<noteq> []" "r' = (wire_reader fr t i)\<lparr>r_pos := 1\<rparr>" "v = uint (hd fr)"
  using assms by (cases fr; auto simp: read_uint8_def rbind_eq take_bytes_eq rreturn_eq
      remaining_def wire_reader_def unread_def)+

lemma decode_eq:
  assumes "decode fr = Inr p"
  obtains r r' where "decode_body (packet_type p) r = (Inr p, r')" "reader_ok r"
    "r_buf r = fr" "r_pos r = 1" "reader_ok r'" "at_end r'" "r_buf r' = fr" "fr \<noteq> []"
    "uint (hd fr) = packet_type_value (packet_type p)"
proof -
  obtain v r0 t where v: "read_uint8 (wire_reader fr None None) = (Inr v, r0)"
    and t: "packet_type_of v = Some t"
    using assms by (auto simp: decode_def split: prod.splits sum.splits option.splits)
  let ?r = "wire_reader fr (Some (packet_type_value t)) None"
  obtain x r r' where x: "read_uint8 ?r = (Inr x, r)" and body: "decode_body t r = (Inr p, r')"
    and fin: "at_end r'"
    using assms v t by (auto simp: decode_def Let_def rbind_eq split: prod.splits sum.splits if_splits)
  have ok: "reader_ok r" using well_behavedD(1) [OF well_behaved_uint8 x reader_ok_init] .
  have "packet_type p = t" using body_dec_enc [OF ok body] by blast
  moreover have "packet_type_value t = v" using packet_type_of_Some [OF t] .
  ultimately have t': "packet_type p = t" "packet_type_value t = v" by blast+
  have r: "r_buf r = fr" "r_pos r = 1" "fr \<noteq> []"
    using type_byte_reads(1,2) [OF x] by (simp_all add: wire_reader_def)
  have r': "reader_ok r'" "r_buf r' = fr"
    using well_behavedD(1,2) [OF well_behaved_body body ok] r(1) by simp_all
  have "uint (hd fr) = packet_type_value (packet_type p)"
    using type_byte_reads(3) [OF v] t' by simp
  with that [of r r'] body ok r r' fin t' show thesis by blast
qed

lemma length_encode:
  assumes "encode_body p (put_chunk (be_bytes 1 (packet_type_value (packet_type p))) wire_writer) = Inr w"
    and "int (w_size w) < 256 ^ 4"
  shows "\<exists>wire. encode p = Inr wire"
proof -
  have "write_uint8 (packet_type_value (packet_type p)) wire_writer
      = Inr (put_chunk (be_bytes 1 (packet_type_value (packet_type p))) wire_writer)"
    using packet_type_value_byte [of "packet_type p"] by (simp add: fits_simps UINT8_MAX_def)
  then show ?thesis using assms by (simp add: encode_def frame_def to_bytes_def)
qed

lemma be_bytes_4: "length (u32 v) = 4" "0 \<le> v \<Longrightarrow> v < 256 ^ 4 \<Longrightarrow> from_bytes (u32 v) = v"
  by (simp_all add: u32_def)

lemma wire_shape:
  assumes "wf_packet p" "encode p = Inr wire"
  shows "from_bytes (take 4 wire) = int (length (drop 4 wire))" "4 < length wire"
    "decode (drop 4 wire) = Inr p"
proof -
  obtain bs where bs: "finishes (decode_body (packet_type p)) bs p"
    and wire: "wire = u32 (int (1 + length bs)) @ be_bytes 1 (packet_type_value (packet_type p)) @ bs"
    and fits: "int (1 + length bs) < 256 ^ 4"
    using encode_bytes [OF assms] .
  then show "from_bytes (take 4 wire) = int (length (drop 4 wire))" "4 < length wire"
      "decode (drop 4 wire) = Inr p"
    using decode_body_bytes [OF bs] be_bytes_4(2) [OF _ fits] by simp_all
qed

section \<open>The properties\<close>

text \<open>
  C1. Round trip: the bytes \<open>encode\<close> produces for a packet the code can build start with a
  length word that counts the rest, and \<open>decode\<close> of the rest gives back the same packet.
\<close>

theorem packet_roundtrip:
  assumes "wf_packet p" "encode p = Inr wire"
  shows "from_bytes (take 4 wire) = int (length (drop 4 wire)) \<and> decode (drop 4 wire) = Inr p"
  using wire_shape [OF assms] by simp

lemma packet_roundtrip_witness:
  "let p = Status 7 FX_NO_SUCH_FILE [1, 2] [3] None; wire = the (case encode p of Inr b \<Rightarrow> Some b | Inl e \<Rightarrow> None) in
     decode (drop 4 wire) = Inr p"
proof -
  have "encode (Status 7 FX_NO_SUCH_FILE [1, 2] [3] None)
      = Inr [0, 0, 0, 20, 101, 0, 0, 0, 7, 0, 0, 0, 2, 0, 0, 0, 2, 1, 2, 0, 0, 0, 1, 3]"
    by code_simp
  with packet_roundtrip [OF _ this] show ?thesis by simp
qed

lemma decode_raises:
  assumes "decode fr = Inl e"
  shows "is_protocol_error e \<and> excerpt_of e = Some (take max_frame_excerpt fr)"
proof -
  obtain a r0 where a: "read_uint8 (wire_reader fr None None) = (a, r0)" by fastforce
  note first = well_behavedD(5) [OF well_behaved_uint8 a reader_ok_init]
  show ?thesis
  proof (cases a)
    case (Inl e')
    with assms a first [OF Inl] show ?thesis
      by (simp add: decode_def about_frame_def wire_reader_def)
  next
    case (Inr v)
    show ?thesis
    proof (cases "packet_type_of v")
      case None
      with assms a Inr have
        "e = protocol_error (Msg ''unknown packet type'' [IntArg v]) (Some v) None (Some fr)"
        by (simp add: decode_def)
      then show ?thesis by simp
    next
      case (Some t)
      let ?r = "wire_reader fr (Some (packet_type_value t)) None"
      obtain b r' where b: "rbind read_uint8 (\<lambda>_. decode_body t) ?r = (b, r')" by fastforce
      have body: "well_behaved (rbind read_uint8 (\<lambda>_. decode_body t))"
        by (intro well_behaved_bind well_behaved_uint8 well_behaved_body)
      note second = well_behavedD(5) [OF body b reader_ok_init]
      show ?thesis
      proof (cases b)
        case (Inl e')
        with assms a Inr Some b second [OF Inl] show ?thesis
          by (simp add: decode_def Let_def about_frame_def wire_reader_def)
      next
        case (Inr p)
        with assms a \<open>a = Inr v\<close> Some b have
          "e = protocol_error (Msg ''trailing bytes'' [NatArg (remaining r')])
             (Some (packet_type_value t)) None (Some fr)"
          by (simp add: decode_def Let_def split: if_splits)
        then show ?thesis by simp
      qed
    qed
  qed
qed

text \<open>
  C2. Hostile input: whatever the bytes of a frame are, \<open>decode\<close> returns a packet or raises
  a \<open>ProtocolError\<close> that carries the first 256 bytes of that very frame. Nothing else
  escapes, and no read leaves the frame.
\<close>

theorem decode_safe:
  "(\<exists>p. decode fr = Inr p) \<or>
   (\<exists>e. decode fr = Inl e \<and> is_protocol_error e \<and> excerpt_of e = Some (take max_frame_excerpt fr))"
  using decode_raises [of fr] by (cases "decode fr") simp_all

text \<open>
  C3. Every packet decoded from a frame of fewer than \<open>2 ^ 32 - 8\<close> bytes is one the code can build
  and encode again: to at most 12 bytes more than the frame (the length word, and the two empty
  strings a terse \<open>STATUS\<close> left out; it may also be shorter, where the frame had bytes that decoding
  ignores), and these decode to the same packet: decoding loses nothing that a later encoding
  needs.
\<close>

theorem decode_reencode:
  assumes "decode fr = Inr p" "int (length fr) + 8 < 2 ^ 32"
  shows "wf_packet p \<and> (\<exists>wire. encode p = Inr wire \<and> length wire \<le> length fr + 12 \<and>
    decode (drop 4 wire) = Inr p)"
proof -
  obtain r r' where body: "decode_body (packet_type p) r = (Inr p, r')" and r: "reader_ok r"
    "r_buf r = fr" "r_pos r = 1" "reader_ok r'" "r_buf r' = fr" and ne: "fr \<noteq> []"
    by (rule decode_eq [OF assms(1)]) blast
  let ?w = "put_chunk (be_bytes 1 (packet_type_value (packet_type p))) wire_writer"
  have wf: "wf_packet p" and re: "rewritable_by 8 (encode_body p) r r'"
    using body_dec_enc [OF r(1) body] by blast+
  obtain w where w: "encode_body p ?w = Inr w" "w_size w \<le> w_size ?w + (r_pos r' - r_pos r) + 8"
    using re unfolding rewritable_by_def by blast
  have "w_size w \<le> length fr + 8" using w(2) r ne by (cases fr) (auto simp: reader_ok_def)
  then obtain wire where wire: "encode p = Inr wire"
    using length_encode [OF w(1)] assms(2) by auto
  obtain bs where bs: "wire = u32 (int (1 + length bs)) @ be_bytes 1 (packet_type_value (packet_type p)) @ bs"
    using encode_bytes [OF wf wire] .
  obtain w' where w': "encode_body p ?w = Inr w'" "frame w' = Inr wire" using encode_eq [OF wire] .
  then have "w' = w" using w(1) by simp
  have "writer_ok w"
    using body_ends [OF wf] w(1) appends_ok [OF appends_put, of wire_writer] unfolding ends_def
    by (metis appends_ok writer_ok_init)
  then have "length wire = 4 + w_size w"
    using w'(2) \<open>w' = w\<close> by (simp add: frame_eq writer_ok_def)
  then have "length wire \<le> length fr + 12" using \<open>w_size w \<le> length fr + 8\<close> by simp
  moreover have "decode (drop 4 wire) = Inr p"
    using encode_bytes [OF wf wire] decode_body_bytes by (metis append_eq_conv_conj length_u32)
  ultimately show ?thesis using wf wire by blast
qed

lemma decode_reencode_witness:
  "wf_packet (Status 7 FX_FAILURE [] [] (Some 999)) \<and>
   (\<exists>wire. encode (Status 7 FX_FAILURE [] [] (Some 999)) = Inr wire \<and> length wire \<le> 21 \<and>
     decode (drop 4 wire) = Inr (Status 7 FX_FAILURE [] [] (Some 999)))"
proof -
  have "decode [101, 0, 0, 0, 7, 0, 0, 3, 231] = Inr (Status 7 FX_FAILURE [] [] (Some 999))"
    by code_simp
  from decode_reencode [OF this] show ?thesis by simp
qed

text \<open>
  A \<open>NAME\<close> reply never yields more entries than its frame has room for: the server's
  count is believed only up to the bytes that came with it.
\<close>

theorem name_entries_bounded:
  assumes "decode fr = Inr (Name i es)"
  shows "length es * MIN_NAME_ENTRY_LENGTH + 9 \<le> length fr"
proof -
  obtain r r' where body: "decode_body PT_NAME r = (Inr (Name i es), r')" and r: "reader_ok r"
    "r_buf r = fr" "r_pos r = 1" "reader_ok r'" "r_buf r' = fr"
    by (rule decode_eq [OF assms, unfolded packet_type.simps]) blast
  obtain j r1 r2 n where j: "read_request_id r = (Inr j, r1)"
    and n: "read_count MIN_NAME_ENTRY_LENGTH ''NAME entry'' r1 = (Inr n, r2)"
    and es: "rtimes (nat n) read_name_entry r2 = (Inr es, r')"
    using body by (auto simp: rbind_eq rreturn_eq)
  have n': "read_uint32 r1 = (Inr n, r2)"
    using n by (simp add: read_count_eq MIN_NAME_ENTRY_LENGTH_def)
  have "reader_ok r2"
    using r(1) j n' by (meson well_behavedD(1) well_behaved_request_id well_behaved_uint32)
  from name_field.list_dec_enc [OF this es] read_facts(1) [OF n'] read_facts(3) [OF j] r
  show ?thesis by (simp add: reader_ok_def)
qed

lemma name_entries_bounded_witness:
  "length [\<lparr>ne_filename = [65], ne_longname = [], ne_attrs = EMPTY_ATTRS\<rparr>] * MIN_NAME_ENTRY_LENGTH + 9 \<le>
     length [104 :: byte, 0, 0, 0, 1, 0, 0, 0, 1, 0, 0, 0, 1, 65, 0, 0, 0, 0, 0, 0, 0, 0]"
proof -
  have "decode [104, 0, 0, 0, 1, 0, 0, 0, 1, 0, 0, 0, 1, 65, 0, 0, 0, 0, 0, 0, 0, 0]
      = Inr (Name 1 [\<lparr>ne_filename = [65], ne_longname = [], ne_attrs = EMPTY_ATTRS\<rparr>])"
    by code_simp
  then show ?thesis by (rule name_entries_bounded)
qed

end
