(* ===== verification/Framing.thy ===== *)
theory Framing
  imports PacketLaws
begin

text \<open>
  The incremental frame splitter of \<open>codec/_framing.py\<close>. A \<open>splitter\<close> is the buffer, the
  offset of the first unparsed byte and the frame ceiling. The argument \<open>held\<close> of \<open>absorb\<close>
  and \<open>feed\<close> says whether a view of the buffer is still referenced, in which case CPython
  refuses the resize (\<open>BufferError\<close>) and the code moves to a fresh buffer; the views
  themselves are modelled in \<open>FrameViews\<close>.

  \<open>split_stream\<close> is the specification: what frames a whole byte stream contains. \<open>feed\<close> is
  proved to compute it incrementally, whatever the chunks are and whatever is held.
\<close>

section \<open>The splitter\<close>

record splitter =
  fs_buf :: bytes
  fs_start :: nat
  fs_max :: int

definition LENGTH_PREFIX_SIZE :: nat where "LENGTH_PREFIX_SIZE = 4"
definition DEFAULT_MAX_FRAME_LENGTH :: int where "DEFAULT_MAX_FRAME_LENGTH = 4 * 1024 * 1024"
definition COMPACT_THRESHOLD :: nat where "COMPACT_THRESHOLD = 64 * 1024"

definition frame_splitter :: "int \<Rightarrow> exn + splitter" where
  "frame_splitter max_frame_length =
     (if max_frame_length < 1
      then Inl (ValueErr (Msg ''max_frame_length must be at least 1'' [IntArg max_frame_length]))
      else Inr \<lparr>fs_buf = [], fs_start = 0, fs_max = max_frame_length\<rparr>)"

definition buffered :: "splitter \<Rightarrow> nat" where
  "buffered s = length (fs_buf s) - fs_start s"

definition reclaim :: "splitter \<Rightarrow> splitter" where
  "reclaim s =
     (if fs_start s = 0 then s
      else if fs_start s \<ge> COMPACT_THRESHOLD \<or> fs_start s = length (fs_buf s)
      then s\<lparr>fs_buf := drop (fs_start s) (fs_buf s), fs_start := 0\<rparr>
      else s)"

definition absorb :: "bool \<Rightarrow> bytes \<Rightarrow> splitter \<Rightarrow> splitter" where
  "absorb held data s =
     (if held then s\<lparr>fs_buf := drop (fs_start s) (fs_buf s) @ data, fs_start := 0\<rparr>
      else (let s = reclaim s in s\<lparr>fs_buf := fs_buf s @ data\<rparr>))"

definition next_frame :: "splitter \<Rightarrow> exn + (bytes \<times> splitter) option" where
  "next_frame s =
     (let available = length (fs_buf s) - fs_start s in
      if available < LENGTH_PREFIX_SIZE then Inr None
      else (let header = fs_start s;
                n = from_bytes (take LENGTH_PREFIX_SIZE (drop header (fs_buf s))) in
        if n = 0 then Inl (protocol_error (Msg ''frame declares zero length'' []) None None None)
        else if n > fs_max s
        then Inl (protocol_error (Msg ''frame above the ceiling'' [IntArg n, IntArg (fs_max s)]) None None None)
        else if int (available - LENGTH_PREFIX_SIZE) < n then Inr None
        else (let body = header + LENGTH_PREFIX_SIZE in
          Inr (Some (take (nat n) (drop body (fs_buf s)), s\<lparr>fs_start := body + nat n\<rparr>)))))"

lemma next_frame_progress:
  "next_frame s = Inr (Some (fr, s')) \<Longrightarrow> length (fs_buf s') - fs_start s' < length (fs_buf s) - fs_start s"
  by (auto simp: next_frame_def Let_def LENGTH_PREFIX_SIZE_def split: if_splits)

text \<open>The loop of \<open>feed\<close>: frames until none is complete, or one is refused.\<close>

function take_frames :: "splitter \<Rightarrow> (exn + bytes list) \<times> splitter" where
  "take_frames s =
     (case next_frame s of
        Inl e \<Rightarrow> (Inl e, s)
      | Inr None \<Rightarrow> (Inr [], s)
      | Inr (Some (fr, s')) \<Rightarrow>
          (case take_frames s' of
             (Inl e, s'') \<Rightarrow> (Inl e, s'')
           | (Inr frs, s'') \<Rightarrow> (Inr (fr # frs), s'')))"
  by pat_completeness auto
termination
  by (relation "measure (\<lambda>s. length (fs_buf s) - fs_start s)") (auto dest: next_frame_progress)

declare take_frames.simps [simp del]

definition feed :: "bool \<Rightarrow> bytes \<Rightarrow> splitter \<Rightarrow> (exn + bytes list) \<times> splitter" where
  "feed held data s = take_frames (absorb held data s)"

section \<open>What a stream contains\<close>

definition zero_length :: exn where
  "zero_length = protocol_error (Msg ''frame declares zero length'' []) None None None"

definition over_ceiling :: "int \<Rightarrow> int \<Rightarrow> exn" where
  "over_ceiling n m = protocol_error (Msg ''frame above the ceiling'' [IntArg n, IntArg m]) None None None"

text \<open>The frames of a stream, the refusal that ends it if there is one, and the bytes left.\<close>

function split_stream :: "int \<Rightarrow> bytes \<Rightarrow> bytes list \<times> exn option \<times> bytes" where
  "split_stream m bs =
     (if length bs < 4 then ([], None, bs)
      else (let n = from_bytes (take 4 bs) in
        if n = 0 then ([], Some zero_length, bs)
        else if n > m then ([], Some (over_ceiling n m), bs)
        else if int (length bs) < 4 + n then ([], None, bs)
        else (case split_stream m (drop (4 + nat n) bs) of
            (frs, e, rest) \<Rightarrow> (take (nat n) (drop 4 bs) # frs, e, rest))))"
  by pat_completeness auto
termination
  by (relation "measure (\<lambda>(_, bs). length bs)") auto

declare split_stream.simps [simp del]

definition pending :: "splitter \<Rightarrow> bytes" where
  "pending s = drop (fs_start s) (fs_buf s)"

definition splitter_ok :: "splitter \<Rightarrow> bool" where
  "splitter_ok s \<longleftrightarrow> fs_start s \<le> length (fs_buf s) \<and> 1 \<le> fs_max s"

lemma length_pending [simp]: "length (pending s) = buffered s"
  by (simp add: pending_def buffered_def)

lemma pending_absorb:
  assumes "splitter_ok s"
  shows "pending (absorb held data s) = pending s @ data" "fs_max (absorb held data s) = fs_max s"
    "splitter_ok (absorb held data s)"
  using assms by (auto simp: pending_def absorb_def reclaim_def splitter_ok_def Let_def)

text \<open>The outcome of a run of the loop, as the specification states it.\<close>

definition outcome :: "bytes list \<Rightarrow> exn option \<Rightarrow> exn + bytes list" where
  "outcome frs e = (case e of None \<Rightarrow> Inr frs | Some e \<Rightarrow> Inl e)"

lemma next_frame_pending:
  assumes "splitter_ok s"
  shows "next_frame s =
    (if length (pending s) < 4 then Inr None
     else (let n = from_bytes (take 4 (pending s)) in
       if n = 0 then Inl zero_length
       else if n > fs_max s then Inl (over_ceiling n (fs_max s))
       else if int (length (pending s)) < 4 + n then Inr None
       else Inr (Some (take (nat n) (drop 4 (pending s)), s\<lparr>fs_start := fs_start s + 4 + nat n\<rparr>))))"
  using assms
  by (auto simp: next_frame_def Let_def LENGTH_PREFIX_SIZE_def pending_def buffered_def
      zero_length_def over_ceiling_def splitter_ok_def add.commute)

lemma take_frames_split:
  "splitter_ok s \<Longrightarrow> split_stream (fs_max s) (pending s) = (frs, e, rest) \<Longrightarrow>
     \<exists>s'. take_frames s = (outcome frs e, s') \<and> pending s' = rest \<and> fs_max s' = fs_max s \<and>
       fs_buf s' = fs_buf s \<and> splitter_ok s'"
proof (induction s arbitrary: frs rule: take_frames.induct)
  case (1 s)
  let ?p = "pending s" and ?n = "from_bytes (take 4 (pending s))"
  let ?s = "s\<lparr>fs_start := fs_start s + 4 + nat ?n\<rparr>"
  note nf = next_frame_pending [OF 1(2)]
  show ?case
  proof (cases "length ?p < 4 \<or> ?n = 0 \<or> ?n > fs_max s \<or> int (length ?p) < 4 + ?n")
    case True
    then show ?thesis
      using 1(2,3) nf
      by (auto simp: take_frames.simps [of s] split_stream.simps [of "fs_max s"] outcome_def Let_def
          split: if_splits)
  next
    case False
    then have next': "next_frame s = Inr (Some (take (nat ?n) (drop 4 ?p), ?s))"
      using nf by (simp add: Let_def)
    obtain frs' where rest: "split_stream (fs_max s) (drop (4 + nat ?n) ?p) = (frs', e, rest)"
      and frs: "frs = take (nat ?n) (drop 4 ?p) # frs'"
      using False 1(3) by (auto simp: split_stream.simps [of "fs_max s" ?p] Let_def split: prod.splits)
    have ok: "splitter_ok ?s"
      using False 1(2) by (auto simp: splitter_ok_def buffered_def)
    have "pending ?s = drop (4 + nat ?n) ?p"
      by (simp add: pending_def ac_simps)
    with 1(1) [OF next' refl refl ok] rest
    obtain s' where "take_frames ?s = (outcome frs' e, s')" "pending s' = rest"
        "fs_max s' = fs_max s" "fs_buf s' = fs_buf s" "splitter_ok s'" by auto
    then show ?thesis
      by (auto simp: take_frames.simps [of s] next' frs outcome_def split: option.splits)
  qed
qed

lemma feed_split:
  assumes "splitter_ok s" "split_stream (fs_max s) (pending s @ data) = (frs, e, rest)"
  obtains s' where "feed held data s = (outcome frs e, s')" "pending s' = rest"
    "fs_max s' = fs_max s" "splitter_ok s'" "fs_buf s' = fs_buf (absorb held data s)"
proof -
  note a = pending_absorb [OF assms(1), of held data]
  from take_frames_split [OF a(3)] assms(2) that show thesis
    unfolding feed_def a(1,2) by auto
qed

section \<open>Chunking\<close>

lemma split_stream_cases:
  obtains (wait) "split_stream m bs = ([], None, bs)"
  | (bad) err where "\<And>ys. split_stream m (bs @ ys) = ([], Some err, bs @ ys)"
  | (step) n where "4 + n \<le> length bs" "0 < n"
      "\<And>ys. split_stream m (bs @ ys) = (case split_stream m (drop (4 + n) bs @ ys) of
         (frs, e, rest) \<Rightarrow> (take n (drop 4 bs) # frs, e, rest))"
proof -
  let ?n = "from_bytes (take 4 bs)"
  consider "length bs < 4" | "4 \<le> length bs" "?n = 0 \<or> ?n > m"
    | "4 \<le> length bs" "?n \<noteq> 0" "?n \<le> m" "int (length bs) < 4 + ?n"
    | "4 \<le> length bs" "?n \<noteq> 0" "?n \<le> m" "int (length bs) \<ge> 4 + ?n" by linarith
  then show thesis
  proof cases
    case 1
    then show thesis using wait by (simp add: split_stream.simps [of m bs])
  next
    case 2
    then have "split_stream m (bs @ ys) =
        ([], Some (if ?n = 0 then zero_length else over_ceiling ?n m), bs @ ys)" for ys
      by (auto simp: split_stream.simps [of m "bs @ ys"] Let_def)
    then show thesis using bad by blast
  next
    case 3
    then show thesis using wait by (simp add: split_stream.simps [of m bs] Let_def)
  next
    case 4
    then have le: "4 + nat ?n \<le> length bs" by linarith
    have pos: "0 < nat ?n" using 4(2) from_bytes_nonneg [of "take 4 bs"] by linarith
    have "split_stream m (bs @ ys) = (case split_stream m (drop (4 + nat ?n) bs @ ys) of
        (frs, e, rest) \<Rightarrow> (take (nat ?n) (drop 4 bs) # frs, e, rest))" for ys
      using 4 le by (subst split_stream.simps) (simp add: Let_def)
    with le pos show thesis using step by blast
  qed
qed

lemma split_stream_append:
  "split_stream m xs = (frs, e, rest) \<Longrightarrow>
     split_stream m (xs @ ys) = (case e of
         Some err \<Rightarrow> (frs, Some err, rest @ ys)
       | None \<Rightarrow> (case split_stream m (rest @ ys) of (frs', e', rest') \<Rightarrow> (frs @ frs', e', rest')))"
proof (induction xs arbitrary: frs rule: length_induct)
  case (1 xs)
  show ?case
  proof (cases m xs rule: split_stream_cases)
    case wait
    with 1(2) show ?thesis by (auto split: prod.splits)
  next
    case (bad err)
    with bad [of "[]"] 1(2) show ?thesis by auto
  next
    case (step n)
    obtain frs' where rest: "split_stream m (drop (4 + n) xs) = (frs', e, rest)"
      and frs: "frs = take n (drop 4 xs) # frs'"
      using step(3) [of "[]"] 1(2) by (auto split: prod.splits)
    have "length (drop (4 + n) xs) < length xs" using step(1) by simp
    from 1(1) [rule_format, OF this rest] show ?thesis
      unfolding step(3) frs by (auto split: option.splits prod.splits)
  qed
qed

lemma split_stream_rest:
  "split_stream m bs = (frs, None, rest) \<Longrightarrow> split_stream m rest = ([], None, rest)"
proof (induction bs arbitrary: frs rule: length_induct)
  case (1 bs)
  show ?case
  proof (cases m bs rule: split_stream_cases)
    case wait
    with 1(2) show ?thesis by simp
  next
    case (bad err)
    with bad [of "[]"] 1(2) show ?thesis by simp
  next
    case (step n)
    obtain frs' where "split_stream m (drop (4 + n) bs) = (frs', None, rest)"
      using step(3) [of "[]"] 1(2) by (auto split: prod.splits)
    moreover have "length (drop (4 + n) bs) < length bs" using step(1) by simp
    ultimately show ?thesis using 1(1) by blast
  qed
qed

lemma split_stream_nil: "split_stream m [] = ([], None, [])"
  by (simp add: split_stream.simps)

text \<open>The splitter between calls: it holds no complete frame.\<close>

definition drained :: "splitter \<Rightarrow> bool" where
  "drained s \<longleftrightarrow> splitter_ok s \<and> split_stream (fs_max s) (pending s) = ([], None, pending s)"

lemma drained_init: "frame_splitter m = Inr s \<Longrightarrow> drained s \<and> fs_max s = m \<and> pending s = []"
  by (auto simp: frame_splitter_def drained_def splitter_ok_def pending_def split_stream_nil split: if_splits)

lemma feed_drained:
  assumes "drained s" "feed held data s = (Inr frs, s')"
  shows "drained s'" "fs_max s' = fs_max s"
proof -
  obtain fs e rest where sp: "split_stream (fs_max s) (pending s @ data) = (fs, e, rest)"
    by (metis prod_cases3)
  have "splitter_ok s" using assms(1) by (simp add: drained_def)
  from feed_split [OF this sp] obtain t where t: "feed held data s = (outcome fs e, t)"
      "pending t = rest" "fs_max t = fs_max s" "splitter_ok t" .
  have "t = s'" "e = None" using t(1) assms(2) by (auto simp: outcome_def split: option.splits)
  with t show "drained s'" "fs_max s' = fs_max s"
    using split_stream_rest sp by (auto simp: drained_def)
qed

text \<open>Feeding chunk after chunk; the first refusal ends the stream.\<close>

fun feed_all :: "(bool \<times> bytes) list \<Rightarrow> splitter \<Rightarrow> (exn + bytes list) \<times> splitter" where
  "feed_all [] s = (Inr [], s)"
| "feed_all ((held, data) # chunks) s =
     (case feed held data s of
        (Inl e, s') \<Rightarrow> (Inl e, s')
      | (Inr frs, s') \<Rightarrow>
          (case feed_all chunks s' of
             (Inl e, s'') \<Rightarrow> (Inl e, s'')
           | (Inr frs', s'') \<Rightarrow> (Inr (frs @ frs'), s'')))"

definition stream_of :: "(bool \<times> bytes) list \<Rightarrow> bytes" where
  "stream_of chunks = concat (map snd chunks)"

lemma feed_all_split:
  "drained s \<Longrightarrow> split_stream (fs_max s) (pending s @ stream_of chunks) = (frs, e, rest) \<Longrightarrow>
     \<exists>s'. feed_all chunks s = (outcome frs e, s') \<and>
       (e = None \<longrightarrow> drained s' \<and> pending s' = rest \<and> fs_max s' = fs_max s)"
proof (induction chunks arbitrary: s frs)
  case Nil
  then show ?case by (auto simp: drained_def stream_of_def outcome_def)
next
  case (Cons c chunks)
  obtain held data where c: "c = (held, data)" by fastforce
  have ok: "splitter_ok s" using Cons.prems(1) by (simp add: drained_def)
  obtain fs e1 r1 where sp: "split_stream (fs_max s) (pending s @ data) = (fs, e1, r1)"
    by (metis prod_cases3)
  obtain s1 where s1: "feed held data s = (outcome fs e1, s1)" "pending s1 = r1"
      "fs_max s1 = fs_max s"
    using feed_split [OF ok sp] by metis
  have whole: "split_stream (fs_max s) ((pending s @ data) @ stream_of chunks) = (frs, e, rest)"
    using Cons.prems(2) by (simp add: c stream_of_def)
  note whole = whole [unfolded split_stream_append [OF sp]]
  show ?case
  proof (cases e1)
    case (Some err)
    with whole have "e = Some err" "frs = fs" by auto
    with Some s1 show ?thesis by (simp add: c outcome_def)
  next
    case None
    then obtain frs' where rest: "split_stream (fs_max s) (r1 @ stream_of chunks) = (frs', e, rest)"
      and frs: "frs = fs @ frs'" using whole by (auto split: prod.splits)
    have "drained s1" using feed_drained [OF Cons.prems(1)] s1(1) None by (auto simp: outcome_def)
    from Cons.IH [OF this] rest s1(2,3) obtain s' where
      "feed_all chunks s1 = (outcome frs' e, s')"
      "e = None \<longrightarrow> drained s' \<and> pending s' = rest \<and> fs_max s' = fs_max s" by auto
    with s1(1) None show ?thesis by (auto simp: c outcome_def frs split: option.splits)
  qed
qed

section \<open>Properties\<close>

text \<open>
  C4. Chunking does not matter: however the transport cuts the stream, and whatever frames
  the caller still holds, the splitter returns exactly the frames of the whole stream, and
  raises exactly when the stream declares an impossible length.
\<close>

theorem feed_chunking_independent:
  assumes "frame_splitter m = Inr s" "split_stream m (stream_of chunks) = (frs, e, rest)"
  shows "fst (feed_all chunks s) = (case e of None \<Rightarrow> Inr frs | Some err \<Rightarrow> Inl err)"
  using feed_all_split [of s chunks frs e rest] drained_init [OF assms(1)] assms(2)
  by (auto simp: outcome_def)

lemma feed_chunking_independent_witness:
  "fst (feed_all [(False, [0, 0]), (True, [0, 2, 7]), (True, []), (False, [8, 0, 0, 0])]
     \<lparr>fs_buf = [], fs_start = 0, fs_max = 10\<rparr>) = Inr [[7, 8]]"
proof -
  have i: "frame_splitter 10 = Inr \<lparr>fs_buf = [], fs_start = 0, fs_max = 10\<rparr>"
    by (simp add: frame_splitter_def)
  have s: "split_stream 10 (stream_of [(False, [0, 0]), (True, [0, 2, 7]), (True, []), (False, [8, 0, 0, 0])])
      = ([[7, 8]], None, [0, 0, 0])" by code_simp
  show ?thesis using feed_chunking_independent [OF i s] by simp
qed

text \<open>
  Bounded memory: after a successful feed fewer than \<open>max_frame_length + 4\<close> bytes wait
  for the rest of their frame, and the buffer is at most the compaction threshold longer
  than those and the bytes just fed. A claimed length never reserves anything.
\<close>

theorem feed_bounded:
  assumes "drained s" "feed held data s = (Inr frs, s')"
  shows "int (buffered s') < fs_max s' + 4 \<and>
    int (length (fs_buf s')) < int COMPACT_THRESHOLD + (fs_max s + 4) + int (length data)"
proof -
  have short: "int (buffered t) < fs_max t + 4" if "drained t" for t
  proof -
    from that have "split_stream (fs_max t) (pending t) = ([], None, pending t)" "1 \<le> fs_max t"
      by (simp_all add: drained_def splitter_ok_def)
    then have "length (pending t) < 4 \<or> int (length (pending t)) < 4 + fs_max t"
      by (auto simp: split_stream.simps [of _ "pending t"] Let_def split: if_splits prod.splits)
    with \<open>1 \<le> fs_max t\<close> show ?thesis by auto
  qed
  have ok: "splitter_ok s" using assms(1) by (simp add: drained_def)
  obtain fs e rest where sp: "split_stream (fs_max s) (pending s @ data) = (fs, e, rest)"
    by (metis prod_cases3)
  have buf: "fs_buf s' = fs_buf (absorb held data s)"
    using feed_split [OF ok sp, of held] assms(2) by auto
  have "length (fs_buf (absorb held data s)) < COMPACT_THRESHOLD + 1 + buffered s + length data"
    using ok by (auto simp: absorb_def reclaim_def Let_def buffered_def splitter_ok_def COMPACT_THRESHOLD_def)
  then have "int (length (fs_buf s')) < int COMPACT_THRESHOLD + 1 + int (buffered s) + int (length data)"
    unfolding buf by linarith
  with short [OF assms(1)] short [OF feed_drained(1) [OF assms]] show ?thesis by linarith
qed

lemma feed_bounded_witness:
  "int (buffered \<lparr>fs_buf = [0, 0, 0, 1, 9, 0], fs_start = 5, fs_max = 10\<rparr>) < 10 + 4 \<and>
   int (length [0 :: byte, 0, 0, 1, 9, 0]) < int COMPACT_THRESHOLD + (10 + 4) + int (length [1 :: byte, 9, 0])"
proof -
  have d: "drained \<lparr>fs_buf = [0, 0, 0], fs_start = 0, fs_max = 10\<rparr>" by code_simp
  have f: "feed False [1, 9, 0] \<lparr>fs_buf = [0, 0, 0], fs_start = 0, fs_max = 10\<rparr>
      = (Inr [[9]], \<lparr>fs_buf = [0, 0, 0, 1, 9, 0], fs_start = 5, fs_max = 10\<rparr>)" by code_simp
  show ?thesis using feed_bounded [OF d f] by simp
qed

section \<open>Encoded packets are frames\<close>

text \<open>The wire form of packets that fit the ceiling splits into their bodies.\<close>

lemma split_encoded:
  assumes "\<And>w. w \<in> set wires \<Longrightarrow> from_bytes (take 4 w) = int (length (drop 4 w)) \<and>
      4 < length w \<and> int (length (drop 4 w)) \<le> m"
  shows "split_stream m (concat wires @ tail) =
    (case split_stream m tail of (frs, e, rest) \<Rightarrow> (map (drop 4) wires @ frs, e, rest))"
  using assms
proof (induction wires)
  case (Cons w wires)
  have w: "from_bytes (take 4 w) = int (length w - 4)" "4 < length w" "int (length w - 4) \<le> m"
    using Cons.prems [of w] by auto
  have "split_stream m (w @ concat wires @ tail) =
      (case split_stream m (concat wires @ tail) of (frs, e, rest) \<Rightarrow> (drop 4 w # frs, e, rest))"
    using w by (subst split_stream.simps) (simp add: Let_def)
  with Cons show ?case by (auto split: prod.splits)
qed (simp split: prod.splits)

end
