(* ===== verification/FrameViews.thy ===== *)
theory FrameViews
  imports Framing
begin

text \<open>
  The aliasing side of \<open>codec/_framing.py\<close>: frames are returned as memoryviews into the
  splitter's bytearray, and the caller may keep them. The store is the list of bytearrays
  allocated so far, addressed by position; \<open>live\<close> are the views still referenced. CPython
  refuses to change the size of a bytearray with a live view (\<open>BufferError\<close>), which is the
  only fact about the runtime used here. The refinement shows that the byte-level splitter
  of \<open>Framing\<close> is what this one computes, and that no held view ever changes.
\<close>

section \<open>Bytearrays and views\<close>

record view =
  v_addr :: nat
  v_off :: nat
  v_len :: nat

type_synonym heap = "bytes list"

definition read_view :: "heap \<Rightarrow> view \<Rightarrow> bytes" where
  "read_view h v = take (v_len v) (drop (v_off v) (h ! v_addr v))"

definition exported :: "view list \<Rightarrow> nat \<Rightarrow> bool" where
  "exported live a \<longleftrightarrow> a \<in> set (map v_addr live)"

text \<open>A resize in place; \<open>None\<close> is \<open>BufferError\<close>, raised only when the size changes.\<close>

definition resize :: "view list \<Rightarrow> nat \<Rightarrow> bytes \<Rightarrow> heap \<Rightarrow> heap option" where
  "resize live a bs h =
     (if exported live a \<and> length bs \<noteq> length (h ! a) then None else Some (h[a := bs]))"

section \<open>The splitter over a store\<close>

record view_splitter =
  vs_heap :: heap
  vs_cur :: nat
  vs_start :: nat
  vs_max :: int

abbreviation vs_buf :: "view_splitter \<Rightarrow> bytes" where
  "vs_buf s \<equiv> vs_heap s ! vs_cur s"

definition view_splitter_init :: "int \<Rightarrow> view_splitter" where
  "view_splitter_init m = \<lparr>vs_heap = [[]], vs_cur = 0, vs_start = 0, vs_max = m\<rparr>"

definition reclaim_view :: "view list \<Rightarrow> view_splitter \<Rightarrow> view_splitter option" where
  "reclaim_view live s =
     (if vs_start s = 0 then Some s
      else if vs_start s \<ge> COMPACT_THRESHOLD \<or> vs_start s = length (vs_buf s)
      then (case resize live (vs_cur s) (drop (vs_start s) (vs_buf s)) (vs_heap s) of
              None \<Rightarrow> None
            | Some h \<Rightarrow> Some (s\<lparr>vs_heap := h, vs_start := 0\<rparr>))
      else Some s)"

definition extend_view :: "view list \<Rightarrow> bytes \<Rightarrow> view_splitter \<Rightarrow> view_splitter option" where
  "extend_view live data s =
     (case resize live (vs_cur s) (vs_buf s @ data) (vs_heap s) of
        None \<Rightarrow> None
      | Some h \<Rightarrow> Some (s\<lparr>vs_heap := h\<rparr>))"

text \<open>The \<open>except BufferError\<close> branch: a new bytearray with the remainder and the data.\<close>

definition fresh_buffer :: "bytes \<Rightarrow> view_splitter \<Rightarrow> view_splitter" where
  "fresh_buffer data s =
     s\<lparr>vs_heap := vs_heap s @ [drop (vs_start s) (vs_buf s) @ data],
       vs_cur := length (vs_heap s), vs_start := 0\<rparr>"

definition absorb_view :: "view list \<Rightarrow> bytes \<Rightarrow> view_splitter \<Rightarrow> view_splitter" where
  "absorb_view live data s =
     (case reclaim_view live s of
        None \<Rightarrow> fresh_buffer data s
      | Some s' \<Rightarrow> (case extend_view live data s' of
            None \<Rightarrow> fresh_buffer data s'
          | Some s'' \<Rightarrow> s''))"

definition next_view :: "view_splitter \<Rightarrow> exn + (view \<times> view_splitter) option" where
  "next_view s =
     (let available = length (vs_buf s) - vs_start s in
      if available < LENGTH_PREFIX_SIZE then Inr None
      else (let header = vs_start s;
                n = from_bytes (take LENGTH_PREFIX_SIZE (drop header (vs_buf s))) in
        if n = 0 then Inl zero_length
        else if n > vs_max s then Inl (over_ceiling n (vs_max s))
        else if int (available - LENGTH_PREFIX_SIZE) < n then Inr None
        else (let body = header + LENGTH_PREFIX_SIZE in
          Inr (Some (\<lparr>v_addr = vs_cur s, v_off = body, v_len = nat n\<rparr>,
                     s\<lparr>vs_start := body + nat n\<rparr>)))))"

function take_views :: "view_splitter \<Rightarrow> (exn + view list) \<times> view_splitter" where
  "take_views s =
     (case next_view s of
        Inl e \<Rightarrow> (Inl e, s)
      | Inr None \<Rightarrow> (Inr [], s)
      | Inr (Some (v, s')) \<Rightarrow>
          (case take_views s' of
             (Inl e, s'') \<Rightarrow> (Inl e, s'')
           | (Inr vs, s'') \<Rightarrow> (Inr (v # vs), s'')))"
  by pat_completeness auto
termination
  by (relation "measure (\<lambda>s. length (vs_buf s) - vs_start s)")
     (auto simp: next_view_def Let_def LENGTH_PREFIX_SIZE_def split: if_splits)

declare take_views.simps [simp del]

definition feed_view :: "view list \<Rightarrow> bytes \<Rightarrow> view_splitter \<Rightarrow> (exn + view list) \<times> view_splitter" where
  "feed_view live data s = take_views (absorb_view live data s)"

section \<open>Refinement\<close>

definition abs_splitter :: "view_splitter \<Rightarrow> splitter" where
  "abs_splitter s = \<lparr>fs_buf = vs_buf s, fs_start = vs_start s, fs_max = vs_max s\<rparr>"

text \<open>Addresses in use are allocated.\<close>

definition store_ok :: "view_splitter \<Rightarrow> view list \<Rightarrow> bool" where
  "store_ok s live \<longleftrightarrow> vs_cur s < length (vs_heap s) \<and> (\<forall>v \<in> set live. v_addr v < length (vs_heap s))"

lemma abs_splitter_simps [simp]:
  "fs_buf (abs_splitter s) = vs_buf s" "fs_start (abs_splitter s) = vs_start s"
  "fs_max (abs_splitter s) = vs_max s"
  by (simp_all add: abs_splitter_def)

lemma take_views_refines:
  "take_views s = (res, s') \<Longrightarrow>
     take_frames (abs_splitter s) = (map_sum id (map (read_view (vs_heap s))) res, abs_splitter s') \<and>
     vs_heap s' = vs_heap s \<and> vs_cur s' = vs_cur s \<and>
     (\<forall>vs. res = Inr vs \<longrightarrow> (\<forall>v \<in> set vs. v_addr v = vs_cur s))"
proof (induction s arbitrary: res s' rule: take_views.induct)
  case (1 s)
  have nf: "next_frame (abs_splitter s) = map_sum id (map_option (\<lambda>(v, t).
      (read_view (vs_heap s) v, abs_splitter t))) (next_view s)"
    by (simp add: next_frame_def next_view_def Let_def read_view_def abs_splitter_def
        zero_length_def over_ceiling_def)
  show ?case
  proof (cases "next_view s")
    case (Inl e)
    then have "take_views s = (Inl e, s)" "take_frames (abs_splitter s) = (Inl e, abs_splitter s)"
      using nf by (simp_all add: take_views.simps [of s] take_frames.simps [of "abs_splitter s"])
    with 1(2) show ?thesis by auto
  next
    case (Inr x)
    show ?thesis
    proof (cases x)
      case None
      then have "take_views s = (Inr [], s)" "take_frames (abs_splitter s) = (Inr [], abs_splitter s)"
        using Inr nf by (simp_all add: take_views.simps [of s] take_frames.simps [of "abs_splitter s"])
      with 1(2) show ?thesis by auto
    next
      case (Some vt)
      then obtain v t where vt: "x = Some (v, t)" by (cases vt) auto
      obtain rs t' where rs: "take_views t = (rs, t')" by fastforce
      have t: "vs_heap t = vs_heap s" "vs_cur t = vs_cur s" "v_addr v = vs_cur s"
        using Inr vt by (auto simp: next_view_def Let_def split: if_splits)
      note IH = 1(1) [OF Inr vt refl rs]
      have "take_views s = (map_sum id ((#) v) rs, t')"
        using Inr vt rs by (cases rs) (simp_all add: take_views.simps [of s])
      moreover have "take_frames (abs_splitter s) = (map_sum id (map (read_view (vs_heap s)))
          (map_sum id ((#) v) rs), abs_splitter t')"
        using nf Inr vt IH t by (cases rs) (simp_all add: take_frames.simps [of "abs_splitter s"])
      ultimately show ?thesis using 1(2) IH t by (cases rs) auto
    qed
  qed
qed

text \<open>What a resize may do: nothing to any bytearray a live view looks at.\<close>

lemma resize_keeps:
  assumes "resize live a bs h = Some h'" "v \<in> set live" "a < length h"
    and "exported live a \<Longrightarrow> length bs = length (h ! a) \<Longrightarrow> bs = h ! a"
  shows "read_view h' v = read_view h v"
  using assms
  by (cases "v_addr v = a") (auto simp: resize_def exported_def read_view_def split: if_splits)

definition keeps_views :: "view list \<Rightarrow> view_splitter \<Rightarrow> view_splitter \<Rightarrow> bool" where
  "keeps_views live s s' \<longleftrightarrow> vs_max s' = vs_max s \<and> length (vs_heap s) \<le> length (vs_heap s') \<and>
     vs_cur s' < length (vs_heap s') \<and>
     (\<forall>v \<in> set live. read_view (vs_heap s') v = read_view (vs_heap s) v)"

lemma fresh_buffer_abs:
  assumes "store_ok s live"
  shows "abs_splitter (fresh_buffer data s) = absorb True data (abs_splitter s)"
    and "keeps_views live s (fresh_buffer data s)"
  using assms
  by (auto simp: fresh_buffer_def abs_splitter_def absorb_def store_ok_def keeps_views_def
      read_view_def nth_append)

lemma absorb_view_refines:
  assumes "store_ok s live" "vs_start s \<le> length (vs_buf s)"
  obtains held where "abs_splitter (absorb_view live data s) = absorb held data (abs_splitter s)"
    and "keeps_views live s (absorb_view live data s)"
proof -
  have cur: "vs_cur s < length (vs_heap s)" using assms(1) by (simp add: store_ok_def)
  let ?shrinks = "vs_start s \<noteq> 0 \<and> (vs_start s \<ge> COMPACT_THRESHOLD \<or> vs_start s = length (vs_buf s))"
  consider (refused) "exported live (vs_cur s)" "?shrinks \<or> data \<noteq> []"
    | (same) "exported live (vs_cur s)" "\<not> ?shrinks" "data = []"
    | (free) "\<not> exported live (vs_cur s)" by blast
  then show thesis
  proof cases
    case refused
    then have "absorb_view live data s = fresh_buffer data s"
      using assms(2) by (auto simp: absorb_view_def reclaim_view_def extend_view_def resize_def)
    then show thesis using that [of True] fresh_buffer_abs [OF assms(1)] by simp
  next
    case same
    then have "absorb_view live data s = s"
      by (auto simp: absorb_view_def reclaim_view_def extend_view_def resize_def)
    moreover have "absorb False data (abs_splitter s) = abs_splitter s"
      using same by (auto simp: absorb_def reclaim_def abs_splitter_def Let_def)
    ultimately show thesis
      using that [of False] cur by (auto simp: keeps_views_def)
  next
    case free
    then have unaliased: "\<forall>v \<in> set live. v_addr v \<noteq> vs_cur s" by (force simp: exported_def)
    define t where "t = (if ?shrinks
      then s\<lparr>vs_heap := (vs_heap s)[vs_cur s := drop (vs_start s) (vs_buf s) @ data], vs_start := 0\<rparr>
      else s\<lparr>vs_heap := (vs_heap s)[vs_cur s := vs_buf s @ data]\<rparr>)"
    have "absorb_view live data s = t"
      using free cur by (simp add: absorb_view_def reclaim_view_def extend_view_def resize_def t_def)
    moreover have "abs_splitter t = absorb False data (abs_splitter s)"
      using cur by (auto simp: t_def abs_splitter_def absorb_def reclaim_def Let_def)
    moreover have "keeps_views live s t"
      using cur unaliased by (auto simp: t_def keeps_views_def read_view_def)
    ultimately show thesis using that [of False] by simp
  qed
qed

section \<open>Properties\<close>

text \<open>
  C5. Held frames are safe and invisible: whatever views the caller still references, a feed
  over the shared bytearrays returns exactly the frames the byte-level splitter returns
  (with one of the two ways of absorbing), and every referenced view reads the same bytes
  afterwards. No byte is ever recycled underneath a view.
\<close>

theorem feed_view_refines:
  assumes "store_ok s live" "vs_start s \<le> length (vs_buf s)" "feed_view live data s = (res, s')"
  shows "(\<exists>held. feed held data (abs_splitter s) =
      (map_sum id (map (read_view (vs_heap s'))) res, abs_splitter s')) \<and>
    (\<forall>v \<in> set live. read_view (vs_heap s') v = read_view (vs_heap s) v) \<and>
    (\<forall>vs. res = Inr vs \<longrightarrow> store_ok s' (live @ vs))"
proof -
  obtain held where a: "abs_splitter (absorb_view live data s) = absorb held data (abs_splitter s)"
    and k: "keeps_views live s (absorb_view live data s)"
    using absorb_view_refines [OF assms(1,2)] .
  note t = take_views_refines [OF assms(3) [unfolded feed_view_def]]
  have "feed held data (abs_splitter s) =
      (map_sum id (map (read_view (vs_heap s'))) res, abs_splitter s')"
    using t by (simp add: feed_def a [symmetric])
  moreover have "\<forall>v \<in> set live. read_view (vs_heap s') v = read_view (vs_heap s) v"
    using t k by (simp add: keeps_views_def)
  moreover have "store_ok s' (live @ vs)" if "res = Inr vs" for vs
    using t k assms(1) that by (auto simp: keeps_views_def store_ok_def dest: order_less_le_trans)
  ultimately show ?thesis by blast
qed

lemma feed_view_refines_witness:
  "(\<exists>held. feed held [1, 6] \<lparr>fs_buf = [0, 0, 0], fs_start = 0, fs_max = 9\<rparr>
      = (Inr [[6]], \<lparr>fs_buf = [0, 0, 0, 1, 6], fs_start = 5, fs_max = 9\<rparr>))"
proof -
  let ?s = "\<lparr>vs_heap = [[0, 0, 0]], vs_cur = 0, vs_start = 0, vs_max = 9\<rparr>"
  let ?v = "\<lparr>v_addr = 0, v_off = 0, v_len = 2\<rparr>"
  have f: "feed_view [?v] [1, 6] ?s = (Inr [\<lparr>v_addr = 1, v_off = 4, v_len = 1\<rparr>],
      \<lparr>vs_heap = [[0, 0, 0], [0, 0, 0, 1, 6]], vs_cur = 1, vs_start = 5, vs_max = 9\<rparr>)"
    by code_simp
  have "store_ok ?s [?v]" "vs_start ?s \<le> length (vs_buf ?s)" by (simp_all add: store_ok_def)
  from feed_view_refines [OF this f] show ?thesis by (simp add: abs_splitter_def read_view_def)
qed

end
