(* ===== verification/Codec.thy ===== *)
theory Codec
  imports Framing "HOL-Library.While_Combinator" "HOL-Library.Multiset"
begin

text \<open>
  The client state machine of \<open>codec/_codec.py\<close>. A \<open>codec\<close> holds the splitter, the
  lifecycle state, what the server negotiated, the requests in flight (a dictionary from
  request id to request) and the next id. Every operation returns its result or exception
  together with the codec it leaves behind, because the code's exceptions leave one behind.

  The lemmas show what makes correlation trustworthy: ids in flight are never reused,
  every reply is matched to the one request that carries its id, nothing is lost or
  invented, and after any protocol error the connection is dead.
\<close>

section \<open>State\<close>

datatype codec_state = NEW | AWAITING_VERSION | READY | FAILED

datatype event =
    Negotiated int "(bytes \<times> bytes) list"
  | Completed packet packet

record codec =
  cd_splitter :: splitter
  cd_state :: codec_state
  cd_version :: "int option"
  cd_extensions :: "(bytes, bytes) dict"
  cd_outstanding :: "(int, packet) dict"
  cd_next_id :: int

definition MIN_REQUEST_ID :: int where "MIN_REQUEST_ID = 1"
definition MAX_REQUEST_ID :: int where "MAX_REQUEST_ID = 0xFFFFFFFF"

definition codec_init :: "int \<Rightarrow> exn + codec" where
  "codec_init max_frame_length =
     bind_sum (frame_splitter max_frame_length) (\<lambda>sp.
       Inr \<lparr>cd_splitter = sp, cd_state = NEW, cd_version = None, cd_extensions = [],
            cd_outstanding = [], cd_next_id = MIN_REQUEST_ID\<rparr>)"

text \<open>The unions \<open>Request\<close> and \<open>Response\<close>, and the \<open>request_id\<close> attribute.\<close>

fun is_response :: "packet \<Rightarrow> bool" where
  "is_response (Status _ _ _ _ _) = True"
| "is_response (Handle _ _) = True"
| "is_response (Data _ _) = True"
| "is_response (Name _ _) = True"
| "is_response (AttrsReply _ _) = True"
| "is_response (ExtendedReply _ _) = True"
| "is_response _ = False"

fun request_id :: "packet \<Rightarrow> int option" where
  "request_id (Init _ _) = None"
| "request_id (Version _ _) = None"
| "request_id (Open i _ _ _ _) = Some i"
| "request_id (Close i _) = Some i"
| "request_id (Read i _ _ _) = Some i"
| "request_id (Write i _ _ _) = Some i"
| "request_id (LStat i _) = Some i"
| "request_id (FStat i _) = Some i"
| "request_id (SetStat i _ _) = Some i"
| "request_id (FSetStat i _ _) = Some i"
| "request_id (OpenDir i _) = Some i"
| "request_id (ReadDir i _) = Some i"
| "request_id (Remove i _) = Some i"
| "request_id (MkDir i _ _) = Some i"
| "request_id (RmDir i _) = Some i"
| "request_id (RealPath i _) = Some i"
| "request_id (Stat i _) = Some i"
| "request_id (Rename i _ _) = Some i"
| "request_id (ReadLink i _) = Some i"
| "request_id (SymLink i _ _) = Some i"
| "request_id (Extended i _ _) = Some i"
| "request_id (Status i _ _ _ _) = Some i"
| "request_id (Handle i _) = Some i"
| "request_id (Data i _) = Some i"
| "request_id (Name i _) = Some i"
| "request_id (AttrsReply i _) = Some i"
| "request_id (ExtendedReply i _) = Some i"

section \<open>Sending\<close>

definition failed_state :: exn where
  "failed_state = protocol_error (Msg ''codec is in a failed state'' []) None None None"

definition require_state :: "codec_state \<Rightarrow> string \<Rightarrow> codec \<Rightarrow> exn + unit" where
  "require_state expected action c =
     (if cd_state c = FAILED then Inl failed_state
      else if cd_state c \<noteq> expected then Inl (StateErr (Msg ''wrong state'' [StrArg action]))
      else Inr ())"

definition initiate :: "int \<Rightarrow> codec \<Rightarrow> (exn + bytes) \<times> codec" where
  "initiate version c =
     (case require_state NEW ''send INIT'' c of
        Inl e \<Rightarrow> (Inl e, c)
      | Inr _ \<Rightarrow> (encode (Init version []), c\<lparr>cd_state := AWAITING_VERSION\<rparr>))"

definition advance :: "int \<Rightarrow> int" where
  "advance i = (if i \<ge> MAX_REQUEST_ID then MIN_REQUEST_ID else i + 1)"

text \<open>
  \<open>while self._next_id in self._outstanding\<close>: \<open>None\<close> is a loop that never ends.
\<close>

definition skip_in_flight :: "(int, 'v) dict \<Rightarrow> int \<Rightarrow> int option" where
  "skip_in_flight outstanding i = while_option (\<lambda>i. dict_has outstanding i) advance i"

definition allocate_request_id :: "codec \<Rightarrow> ((exn + int) \<times> codec) option" where
  "allocate_request_id c =
     (if int (length (cd_outstanding c)) > MAX_REQUEST_ID - MIN_REQUEST_ID
      then Some (Inl (StateErr (Msg ''every request id is in flight'' [])), c)
      else (case skip_in_flight (cd_outstanding c) (cd_next_id c) of
              None \<Rightarrow> None
            | Some allocated \<Rightarrow> Some (Inr allocated, c\<lparr>cd_next_id := advance allocated\<rparr>)))"

definition send :: "packet \<Rightarrow> codec \<Rightarrow> (exn + bytes) \<times> codec" where
  "send req c =
     (case require_state READY ''send'' c of
        Inl e \<Rightarrow> (Inl e, c)
      | Inr _ \<Rightarrow>
          (case request_id req of
             None \<Rightarrow> (Inl (AttributeErr ''request_id''), c)
           | Some i \<Rightarrow>
               (if dict_has (cd_outstanding c) i
                then (Inl (StateErr (Msg ''request id is already in flight'' [IntArg i])), c)
                else (case encode req of
                        Inl e \<Rightarrow> (Inl e, c)
                      | Inr wire \<Rightarrow>
                          (Inr wire, c\<lparr>cd_outstanding := dict_set (cd_outstanding c) i req\<rparr>)))))"

section \<open>Receiving\<close>

definition fail_with :: "reason \<Rightarrow> int option \<Rightarrow> exn" where
  "fail_with msg i = protocol_error msg None i None"

definition version_refusal :: "int \<Rightarrow> reason" where
  "version_refusal v =
     (if v < PROTOCOL_VERSION then Msg ''server negotiated a lower version'' [IntArg v]
      else Msg ''server negotiated a version above ours'' [IntArg v])"

definition handle_version :: "int \<Rightarrow> (bytes \<times> bytes) list \<Rightarrow> codec \<Rightarrow> (exn + event) \<times> codec" where
  "handle_version version extensions c =
     (if cd_state c \<noteq> AWAITING_VERSION
      then (Inl (fail_with (Msg ''the handshake happens once'' []) None), c)
      else if version \<noteq> PROTOCOL_VERSION then (Inl (fail_with (version_refusal version) None), c)
      else (Inr (Negotiated version extensions),
            c\<lparr>cd_state := READY, cd_version := Some version, cd_extensions := dict_of extensions\<rparr>))"

definition handle_response :: "packet \<Rightarrow> int \<Rightarrow> codec \<Rightarrow> (exn + event) \<times> codec" where
  "handle_response p i c =
     (if cd_state c \<noteq> READY
      then (Inl (fail_with (Msg ''nothing is answerable before VERSION'' []) None), c)
      else (case dict_get (cd_outstanding c) i of
              None \<Rightarrow> (Inl (fail_with (Msg ''not outstanding'' [IntArg i]) (Some i)), c)
            | Some req \<Rightarrow>
                (Inr (Completed req p), c\<lparr>cd_outstanding := dict_pop (cd_outstanding c) i\<rparr>)))"

definition handle :: "packet \<Rightarrow> codec \<Rightarrow> (exn + event) \<times> codec" where
  "handle p c =
     (case p of
        Version v ext \<Rightarrow> handle_version v ext c
      | Init _ _ \<Rightarrow> (Inl (fail_with (Msg ''server sent INIT'' []) None), c)
      | _ \<Rightarrow>
          (if \<not> is_response p
           then (Inl (fail_with (Msg ''server sent a request'' []) None), c)
           else (case request_id p of
                   Some i \<Rightarrow> handle_response p i c
                 | None \<Rightarrow> (Inl (AttributeErr ''request_id''), c))))"

fun handle_frames :: "bytes list \<Rightarrow> codec \<Rightarrow> (exn + event list) \<times> codec" where
  "handle_frames [] c = (Inr [], c)"
| "handle_frames (fr # frs) c =
     (case decode fr of
        Inl e \<Rightarrow> (Inl e, c)
      | Inr p \<Rightarrow>
          (case handle p c of
             (Inl e, c') \<Rightarrow> (Inl e, c')
           | (Inr ev, c') \<Rightarrow>
               (case handle_frames frs c' of
                  (Inl e, c'') \<Rightarrow> (Inl e, c'')
                | (Inr evs, c'') \<Rightarrow> (Inr (ev # evs), c''))))"

text \<open>The \<open>except ProtocolError\<close> of \<open>receive\<close>: the state is latched and the error goes on.\<close>

definition latch :: "exn \<Rightarrow> codec \<Rightarrow> codec" where
  "latch e c = (if is_protocol_error e then c\<lparr>cd_state := FAILED\<rparr> else c)"

definition receive :: "bool \<Rightarrow> bytes \<Rightarrow> codec \<Rightarrow> (exn + event list) \<times> codec" where
  "receive held data c =
     (if cd_state c = FAILED then (Inl failed_state, c)
      else (case feed held data (cd_splitter c) of
              (Inl e, sp) \<Rightarrow> (Inl e, latch e (c\<lparr>cd_splitter := sp\<rparr>))
            | (Inr frs, sp) \<Rightarrow>
                (case handle_frames frs (c\<lparr>cd_splitter := sp\<rparr>) of
                   (Inl e, c') \<Rightarrow> (Inl e, latch e c')
                 | (Inr evs, c') \<Rightarrow> (Inr evs, c'))))"

section \<open>Well-formed codecs\<close>

definition codec_ok :: "codec \<Rightarrow> bool" where
  "codec_ok c \<longleftrightarrow>
     dict_wf (cd_outstanding c) \<and>
     (\<forall>i req. dict_get (cd_outstanding c) i = Some req \<longrightarrow> request_id req = Some i) \<and>
     MIN_REQUEST_ID \<le> cd_next_id c \<and> cd_next_id c \<le> MAX_REQUEST_ID \<and>
     (cd_state c \<noteq> FAILED \<longrightarrow> drained (cd_splitter c)) \<and>
     (cd_state c = NEW \<or> cd_state c = AWAITING_VERSION \<longrightarrow> cd_outstanding c = []) \<and>
     (cd_state c = READY \<longrightarrow> cd_version c = Some PROTOCOL_VERSION)"

lemma codec_ok_init: "codec_init m = Inr c \<Longrightarrow> codec_ok c"
  by (auto simp: codec_init_def codec_ok_def MIN_REQUEST_ID_def MAX_REQUEST_ID_def dest: drained_init)

lemma codec_ok_initiate: "codec_ok c \<Longrightarrow> initiate v c = (res, c') \<Longrightarrow> codec_ok c'"
  by (auto simp: initiate_def require_state_def codec_ok_def split: if_splits sum.splits)

lemma dict_wf_get_set: "dict_get (dict_set d i v) j = Some w \<Longrightarrow> (j = i \<and> w = v) \<or> (j \<noteq> i \<and> dict_get d j = Some w)"
  by (auto split: if_splits)

lemma codec_ok_send: "codec_ok c \<Longrightarrow> send req c = (res, c') \<Longrightarrow> codec_ok c'"
  by (auto simp: send_def require_state_def codec_ok_def split: if_splits sum.splits option.splits)

lemma advance_range: "MIN_REQUEST_ID \<le> i \<Longrightarrow> MIN_REQUEST_ID \<le> advance i \<and> advance i \<le> MAX_REQUEST_ID"
  by (auto simp: advance_def MIN_REQUEST_ID_def MAX_REQUEST_ID_def)

section \<open>Allocating ids\<close>

text \<open>The ids the loop can visit: one full turn reaches every id.\<close>

lemma advance_orbit:
  assumes "1 \<le> i" "i \<le> MAX_REQUEST_ID"
  shows "(advance ^^ k) i = 1 + (i - 1 + int k) mod MAX_REQUEST_ID"
proof (induction k)
  case 0
  then show ?case using assms by simp
next
  case (Suc k)
  let ?m = "(i - 1 + int k) mod MAX_REQUEST_ID"
  have m: "0 \<le> ?m" "?m < MAX_REQUEST_ID" by (simp_all add: MAX_REQUEST_ID_def)
  have "(i - 1 + int (Suc k)) mod MAX_REQUEST_ID = (?m + 1) mod MAX_REQUEST_ID"
    by (metis (no_types, opaque_lifting) add.assoc mod_add_left_eq of_nat_Suc add.commute)
  also have "\<dots> = (if ?m + 1 = MAX_REQUEST_ID then 0 else ?m + 1)"
    using m by (auto intro: mod_pos_pos_trivial)
  finally show ?case using m Suc by (auto simp: advance_def MIN_REQUEST_ID_def)
qed

lemma advance_reaches:
  assumes "1 \<le> i" "i \<le> MAX_REQUEST_ID" "1 \<le> j" "j \<le> MAX_REQUEST_ID"
  shows "\<exists>k. (advance ^^ k) i = j"
proof -
  define k where "k = nat ((j - i) mod MAX_REQUEST_ID)"
  have "int k = (j - i) mod MAX_REQUEST_ID" by (simp add: k_def MAX_REQUEST_ID_def)
  then have "(i - 1 + int k) mod MAX_REQUEST_ID = (j - 1) mod MAX_REQUEST_ID"
    by (simp add: mod_add_right_eq)
  also have "\<dots> = j - 1" using assms by simp
  finally show ?thesis using advance_orbit [OF assms(1,2), of k] by auto
qed

lemma free_id_exists:
  assumes "dict_wf d" "int (length d) \<le> MAX_REQUEST_ID - MIN_REQUEST_ID"
  shows "\<exists>j. 1 \<le> j \<and> j \<le> MAX_REQUEST_ID \<and> \<not> dict_has d j"
proof (rule ccontr)
  assume "\<not> ?thesis"
  then have "{1..MAX_REQUEST_ID} \<subseteq> {j. dict_has d j}" by auto
  moreover have "finite {j. dict_has d j}" by (simp add: dict_has_def)
  ultimately have "card {1..MAX_REQUEST_ID} \<le> card {j. dict_has d j}" by (rule card_mono [rotated])
  then have "nat MAX_REQUEST_ID \<le> length d" by (simp add: length_dict [OF assms(1)])
  with assms(2) show False by (simp add: MIN_REQUEST_ID_def)
qed

lemma skip_in_flight_ends:
  assumes "dict_wf d" "int (length d) \<le> MAX_REQUEST_ID - MIN_REQUEST_ID"
    and "MIN_REQUEST_ID \<le> i" "i \<le> MAX_REQUEST_ID"
  obtains j where "skip_in_flight d i = Some j" "\<not> dict_has d j" "MIN_REQUEST_ID \<le> j" "j \<le> MAX_REQUEST_ID"
proof -
  obtain k where "\<not> dict_has d ((advance ^^ k) i)"
    using free_id_exists [OF assms(1,2)] advance_reaches [of i] assms(3,4)
    unfolding MIN_REQUEST_ID_def by metis
  then have "while_option (\<lambda>i. dict_has d i) advance i \<noteq> None"
    unfolding while_option_def by auto
  then obtain j where j: "while_option (\<lambda>i. dict_has d i) advance i = Some j" by blast
  then have "\<not> dict_has d j" by (rule while_option_stop)
  moreover have "MIN_REQUEST_ID \<le> j \<and> j \<le> MAX_REQUEST_ID"
    by (rule while_option_rule [OF _ j, where P = "\<lambda>j. MIN_REQUEST_ID \<le> j \<and> j \<le> MAX_REQUEST_ID"])
       (use assms(3,4) advance_range in auto)
  ultimately show thesis using that j by (simp add: skip_in_flight_def)
qed

lemma allocate_cases:
  assumes "codec_ok c"
  obtains (full) "int (length (cd_outstanding c)) > MAX_REQUEST_ID - MIN_REQUEST_ID"
      "allocate_request_id c = Some (Inl (StateErr (Msg ''every request id is in flight'' [])), c)"
  | (fresh) i where "allocate_request_id c = Some (Inr i, c\<lparr>cd_next_id := advance i\<rparr>)"
      "\<not> dict_has (cd_outstanding c) i" "MIN_REQUEST_ID \<le> i" "i \<le> MAX_REQUEST_ID"
proof (cases "int (length (cd_outstanding c)) > MAX_REQUEST_ID - MIN_REQUEST_ID")
  case True
  then show thesis using full by (simp add: allocate_request_id_def)
next
  case False
  have "dict_wf (cd_outstanding c)" "MIN_REQUEST_ID \<le> cd_next_id c" "cd_next_id c \<le> MAX_REQUEST_ID"
    using assms by (simp_all add: codec_ok_def)
  with False obtain j where "skip_in_flight (cd_outstanding c) (cd_next_id c) = Some j"
      "\<not> dict_has (cd_outstanding c) j" "MIN_REQUEST_ID \<le> j" "j \<le> MAX_REQUEST_ID"
    using skip_in_flight_ends [of "cd_outstanding c" "cd_next_id c"] by (metis linorder_not_less)
  with False show thesis using fresh by (simp add: allocate_request_id_def)
qed

lemma codec_ok_allocate:
  assumes "codec_ok c" "allocate_request_id c = Some (res, c')"
  shows "codec_ok c'"
  using assms(1)
proof (cases rule: allocate_cases)
  case full
  with assms show ?thesis by simp
next
  case (fresh i)
  with assms advance_range [OF fresh(3)] show ?thesis by (auto simp: codec_ok_def)
qed

section \<open>One packet\<close>

lemma handle_eq:
  "handle p c = (Inr ev, c') \<longleftrightarrow>
     (\<exists>ext. p = Version PROTOCOL_VERSION ext \<and> cd_state c = AWAITING_VERSION \<and>
        ev = Negotiated PROTOCOL_VERSION ext \<and>
        c' = c\<lparr>cd_state := READY, cd_version := Some PROTOCOL_VERSION, cd_extensions := dict_of ext\<rparr>) \<or>
     (\<exists>i req. is_response p \<and> request_id p = Some i \<and> cd_state c = READY \<and>
        dict_get (cd_outstanding c) i = Some req \<and> ev = Completed req p \<and>
        c' = c\<lparr>cd_outstanding := dict_pop (cd_outstanding c) i\<rparr>)"
  by (cases p) (auto simp: handle_def handle_version_def handle_response_def split: if_splits option.splits)

lemma handle_error:
  assumes "handle p c = (Inl e, c')" shows "is_protocol_error e \<and> c' = c"
  using assms
  by (cases p)
     (auto simp: handle_def handle_version_def handle_response_def fail_with_def split: if_splits option.splits)

lemma codec_ok_handle:
  assumes "codec_ok c" "handle p c = (Inr ev, c')"
  shows "codec_ok c' \<and> cd_splitter c' = cd_splitter c \<and> cd_state c' = READY \<and> cd_next_id c' = cd_next_id c"
  using assms unfolding handle_eq by (auto simp: codec_ok_def split: if_splits)

section \<open>A chunk\<close>

lemma handle_frames_ok:
  "codec_ok c \<Longrightarrow> handle_frames frs c = (Inr evs, c') \<Longrightarrow>
     codec_ok c' \<and> cd_splitter c' = cd_splitter c \<and> (cd_state c' = READY \<or> evs = [] \<and> c' = c)"
proof (induction frs arbitrary: c evs)
  case (Cons fr frs)
  obtain p ev c1 evs' where "decode fr = Inr p" "handle p c = (Inr ev, c1)"
      "handle_frames frs c1 = (Inr evs', c')" "evs = ev # evs'"
    using Cons.prems(2) by (auto split: sum.splits prod.splits)
  with Cons.IH [of c1 evs'] codec_ok_handle [OF Cons.prems(1), of p ev c1] show ?case by auto
qed auto

lemma handle_frames_error:
  "codec_ok c \<Longrightarrow> handle_frames frs c = (Inl e, c') \<Longrightarrow>
     is_protocol_error e \<and> codec_ok c' \<and> cd_splitter c' = cd_splitter c"
proof (induction frs arbitrary: c)
  case (Cons fr frs)
  show ?case
  proof (cases "decode fr")
    case (Inl e')
    with Cons.prems decode_raises [of fr] show ?thesis by auto
  next
    case (Inr p)
    obtain r c1 where r: "handle p c = (r, c1)" by fastforce
    show ?thesis
    proof (cases r)
      case (Inl e')
      with Cons.prems Inr r handle_error [of p c e' c1] show ?thesis by auto
    next
      case (Inr ev)
      then have "handle_frames frs c1 = (Inl e, c')"
        using Cons.prems(2) \<open>decode fr = Inr p\<close> r by (auto split: sum.splits prod.splits)
      with Cons.IH [of c1] codec_ok_handle [OF Cons.prems(1), of p ev c1] r Inr show ?thesis by auto
    qed
  qed
qed simp

text \<open>What a call of \<open>receive\<close> can be: refused, a success, or the end of the connection.\<close>

lemma receive_ok:
  assumes "codec_ok c" "receive held data c = (Inr evs, c')"
  obtains frs sp where "cd_state c \<noteq> FAILED" "feed held data (cd_splitter c) = (Inr frs, sp)"
    "handle_frames frs (c\<lparr>cd_splitter := sp\<rparr>) = (Inr evs, c')" "codec_ok (c\<lparr>cd_splitter := sp\<rparr>)"
    "codec_ok c'"
proof -
  obtain frs sp where f: "cd_state c \<noteq> FAILED" "feed held data (cd_splitter c) = (Inr frs, sp)"
      "handle_frames frs (c\<lparr>cd_splitter := sp\<rparr>) = (Inr evs, c')"
    using assms(2) by (auto simp: receive_def split: if_splits sum.splits prod.splits)
  have "codec_ok (c\<lparr>cd_splitter := sp\<rparr>)"
    using assms(1) f(1) feed_drained(1) [OF _ f(2)] by (simp add: codec_ok_def)
  with f handle_frames_ok [OF this f(3)] that show thesis by blast
qed

lemma feed_error_protocol:
  assumes "splitter_ok s" "feed held data s = (Inl e, s')" shows "is_protocol_error e"
proof -
  have bad: "is_protocol_error e" if "split_stream m bs = (frs, Some e, rest)" for m bs frs rest
    using that
  proof (induction bs arbitrary: frs rule: length_induct)
    case (1 bs)
    then show ?case
      by (subst (asm) (2) split_stream.simps)
         (auto simp: Let_def zero_length_def over_ceiling_def split: if_splits prod.splits
           dest!: spec [of _ "drop (4 + nat (from_bytes (take 4 bs))) bs"])
  qed
  obtain fs e' rest where sp: "split_stream (fs_max s) (pending s @ data) = (fs, e', rest)"
    by (metis prod_cases3)
  from feed_split [OF assms(1) sp] obtain t where "feed held data s = (outcome fs e', t)" .
  with assms(2) have "e' = Some e" by (auto simp: outcome_def split: option.splits)
  with sp bad show ?thesis by blast
qed

lemma receive_error:
  assumes "codec_ok c" "receive held data c = (Inl e, c')"
  shows "is_protocol_error e \<and> cd_state c' = FAILED \<and> codec_ok c'"
proof (cases "cd_state c = FAILED")
  case True
  with assms show ?thesis by (auto simp: receive_def failed_state_def)
next
  case False
  obtain r sp where r: "feed held data (cd_splitter c) = (r, sp)" by fastforce
  have dr: "drained (cd_splitter c)" using assms(1) False by (simp add: codec_ok_def)
  have failed: "codec_ok (x\<lparr>cd_state := FAILED\<rparr>)" if "codec_ok x" for x
    using that by (simp add: codec_ok_def)
  show ?thesis
  proof (cases r)
    case (Inl e')
    then have "is_protocol_error e'" using feed_error_protocol r dr by (auto simp: drained_def)
    with assms False r Inl show ?thesis
      by (auto simp: receive_def latch_def codec_ok_def)
  next
    case (Inr frs)
    have ok: "codec_ok (c\<lparr>cd_splitter := sp\<rparr>)"
      using assms(1) feed_drained(1) [OF dr] r Inr by (simp add: codec_ok_def)
    obtain c1 where c1: "handle_frames frs (c\<lparr>cd_splitter := sp\<rparr>) = (Inl e, c1)" "c' = latch e c1"
      using assms(2) False r Inr by (auto simp: receive_def split: sum.splits prod.splits)
    with handle_frames_error [OF ok c1(1)] failed show ?thesis by (simp add: latch_def)
  qed
qed

section \<open>A stream of chunks\<close>

fun receive_all :: "(bool \<times> bytes) list \<Rightarrow> codec \<Rightarrow> (exn + event list) \<times> codec" where
  "receive_all [] c = (Inr [], c)"
| "receive_all ((held, data) # chunks) c =
     (case receive held data c of
        (Inl e, c') \<Rightarrow> (Inl e, c')
      | (Inr evs, c') \<Rightarrow>
          (case receive_all chunks c' of
             (Inl e, c'') \<Rightarrow> (Inl e, c'')
           | (Inr evs', c'') \<Rightarrow> (Inr (evs @ evs'), c'')))"

lemma handle_splitter:
  "handle p (c\<lparr>cd_splitter := sp\<rparr>) = apsnd (\<lambda>c. c\<lparr>cd_splitter := sp\<rparr>) (handle p c)"
  by (cases p) (auto simp: handle_def handle_version_def handle_response_def split: option.splits)

lemma handle_frames_splitter:
  "handle_frames frs (c\<lparr>cd_splitter := sp\<rparr>) = apsnd (\<lambda>c. c\<lparr>cd_splitter := sp\<rparr>) (handle_frames frs c)"
proof (induction frs arbitrary: c)
  case (Cons fr frs)
  show ?case
  proof (cases "decode fr")
    case (Inr p)
    obtain r c1 where r: "handle p c = (r, c1)" by fastforce
    with Inr Cons.IH [of c1] show ?thesis
      by (cases r) (auto simp: handle_splitter split: prod.splits sum.splits)
  qed simp
qed simp

lemma handle_frames_append:
  "handle_frames (xs @ ys) c = (Inr evs, c') \<longleftrightarrow>
     (\<exists>e1 e2 c1. handle_frames xs c = (Inr e1, c1) \<and> handle_frames ys c1 = (Inr e2, c') \<and> evs = e1 @ e2)"
proof (induction xs arbitrary: c evs)
  case (Cons fr xs)
  show ?case
  proof (cases "decode fr")
    case (Inr p)
    obtain r c1 where "handle p c = (r, c1)" by fastforce
    with Inr Cons.IH [of c1] show ?thesis
      by (cases r) (fastforce split: prod.splits sum.splits)+
  qed simp
qed simp

text \<open>A stream is received exactly when its frames are handled, however it was cut.\<close>

lemma receive_all_split:
  "codec_ok c \<Longrightarrow> cd_state c \<noteq> FAILED \<Longrightarrow>
   split_stream (fs_max (cd_splitter c)) (pending (cd_splitter c) @ stream_of chunks) = (frs, e, rest) \<Longrightarrow>
     fst (receive_all chunks c) = Inr evs \<longleftrightarrow> e = None \<and> fst (handle_frames frs c) = Inr evs"
proof (induction chunks arbitrary: c frs evs)
  case Nil
  then have "split_stream (fs_max (cd_splitter c)) (pending (cd_splitter c)) = ([], None, pending (cd_splitter c))"
    by (simp add: codec_ok_def drained_def)
  with Nil show ?case by (auto simp: stream_of_def)
next
  case (Cons ch chunks)
  obtain held data where ch: "ch = (held, data)" by fastforce
  let ?sp = "cd_splitter c"
  have dr: "drained ?sp" "splitter_ok ?sp" using Cons.prems(1,2) by (simp_all add: codec_ok_def drained_def)
  obtain fs e1 r1 where sp: "split_stream (fs_max ?sp) (pending ?sp @ data) = (fs, e1, r1)"
    by (metis prod_cases3)
  obtain s1 where s1: "feed held data ?sp = (outcome fs e1, s1)" "pending s1 = r1" "fs_max s1 = fs_max ?sp"
    using feed_split [OF dr(2) sp] by metis
  have "split_stream (fs_max ?sp) ((pending ?sp @ data) @ stream_of chunks) = (frs, e, rest)"
    using Cons.prems(3) by (simp add: ch stream_of_def)
  note whole = this [unfolded split_stream_append [OF sp]]
  show ?case
  proof (cases e1)
    case (Some err)
    with whole have "e \<noteq> None" by auto
    with Some s1 Cons.prems(2) show ?thesis by (simp add: ch receive_def outcome_def)
  next
    case None
    then obtain frs' where rest: "split_stream (fs_max ?sp) (r1 @ stream_of chunks) = (frs', e, rest)"
      and frs: "frs = fs @ frs'" using whole by (auto split: prod.splits)
    have feed: "feed held data ?sp = (Inr fs, s1)" using s1(1) None by (simp add: outcome_def)
    obtain r c1 where hf: "handle_frames fs c = (r, c1)" by fastforce
    then have hf': "handle_frames fs (c\<lparr>cd_splitter := s1\<rparr>) = (r, c1\<lparr>cd_splitter := s1\<rparr>)"
      by (simp add: handle_frames_splitter)
    show ?thesis
    proof (cases r)
      case (Inl err)
      then have "fst (handle_frames frs c) \<noteq> Inr evs"
        using hf handle_frames_append [of fs frs' c evs] by (auto simp: frs prod_eq_iff)
      with Inl feed hf' Cons.prems(2) show ?thesis by (simp add: ch receive_def)
    next
      case (Inr evs1)
      let ?c1 = "c1\<lparr>cd_splitter := s1\<rparr>"
      have "codec_ok (c\<lparr>cd_splitter := s1\<rparr>)"
        using Cons.prems(1) feed_drained(1) [OF dr(1) feed] by (simp add: codec_ok_def)
      from handle_frames_ok [OF this hf' [unfolded Inr]] Cons.prems(2)
      have c1: "codec_ok ?c1" "cd_state ?c1 \<noteq> FAILED" by (auto dest: arg_cong [of _ _ cd_state])
      have rcv: "receive held data c = (Inr evs1, ?c1)"
        using Inr feed hf' Cons.prems(2) by (simp add: receive_def)
      have "fst (handle_frames frs' ?c1) = fst (handle_frames frs' c1)"
        by (simp add: handle_frames_splitter)
      moreover have "fst (receive_all chunks ?c1) = Inr x \<longleftrightarrow> e = None \<and> fst (handle_frames frs' ?c1) = Inr x" for x
        using Cons.IH [OF c1, of frs' x] rest s1(2,3) by simp
      moreover have "fst (handle_frames frs c) = Inr evs \<longleftrightarrow>
          (\<exists>x. fst (handle_frames frs' c1) = Inr x \<and> evs = evs1 @ x)"
        using hf Inr handle_frames_append [of fs frs' c evs] by (auto simp: frs prod_eq_iff)
      moreover have "fst (receive_all (ch # chunks) c) = Inr evs \<longleftrightarrow>
          (\<exists>x. fst (receive_all chunks ?c1) = Inr x \<and> evs = evs1 @ x)"
        using rcv by (auto simp: ch split: prod.splits sum.splits)
      ultimately show ?thesis by auto
    qed
  qed
qed

section \<open>What the events say\<close>

fun completed_id :: "event \<Rightarrow> int option" where
  "completed_id (Completed req _) = request_id req"
| "completed_id (Negotiated _ _) = None"

definition completed_ids :: "event list \<Rightarrow> int list" where
  "completed_ids evs = List.map_filter completed_id evs"

fun event_matches :: "(int, packet) dict \<Rightarrow> event \<Rightarrow> bool" where
  "event_matches d (Completed req resp) \<longleftrightarrow> is_response resp \<and>
     (\<exists>i. request_id req = Some i \<and> request_id resp = Some i \<and> dict_get d i = Some req)"
| "event_matches d (Negotiated v ext) \<longleftrightarrow> v = PROTOCOL_VERSION"

lemma completed_ids_simps [simp]:
  "completed_ids [] = []"
  "completed_ids (Negotiated v ext # evs) = completed_ids evs"
  "request_id req = Some i \<Longrightarrow> completed_ids (Completed req p # evs) = i # completed_ids evs"
  by (simp_all add: completed_ids_def map_filter_simps)

lemma event_matches_mono:
  assumes "event_matches d ev" "\<And>i req. dict_get d i = Some req \<Longrightarrow> dict_get d' i = Some req"
  shows "event_matches d' ev"
  using assms by (cases ev) auto

lemma handle_frames_conserve:
  "codec_ok c \<Longrightarrow> handle_frames frs c = (Inr evs, c') \<Longrightarrow>
     length evs = length frs \<and> list_all (event_matches (cd_outstanding c)) evs \<and> distinct (completed_ids evs) \<and>
     (\<forall>i. dict_get (cd_outstanding c') i =
       (if i \<in> set (completed_ids evs) then None else dict_get (cd_outstanding c) i))"
proof (induction frs arbitrary: c evs)
  case (Cons fr frs)
  obtain p ev c1 evs' where p: "decode fr = Inr p" "handle p c = (Inr ev, c1)"
    and rest: "handle_frames frs c1 = (Inr evs', c')" and evs: "evs = ev # evs'"
    using Cons.prems(2) by (auto split: sum.splits prod.splits)
  note IH = Cons.IH [OF conjunct1 [OF codec_ok_handle [OF Cons.prems(1) p(2)]] rest]
  from p(2) show ?case
    unfolding handle_eq
  proof (elim disjE exE conjE, goal_cases)
    case (1 ext)
    then show ?thesis using IH by (auto simp: evs list_all_iff)
  next
    case (2 i req)
    have req: "request_id req = Some i" using Cons.prems(1) 2 by (simp add: codec_ok_def)
    have out: "dict_get (cd_outstanding c1) j = (if j = i then None else dict_get (cd_outstanding c) j)" for j
      using 2 by simp
    have "list_all (event_matches (cd_outstanding c)) evs'"
      using IH out by (auto simp: list_all_iff intro: event_matches_mono split: if_splits)
    moreover have "i \<notin> set (completed_ids evs')"
    proof
      assume "i \<in> set (completed_ids evs')"
      then obtain ev' where "ev' \<in> set evs'" "completed_id ev' = Some i"
        by (auto simp: completed_ids_def map_filter_def)
      with IH out [of i] show False by (cases ev') (auto simp: list_all_iff)
    qed
    ultimately show ?thesis using IH 2 req out by (auto simp: evs)
  qed
qed simp

section \<open>Properties\<close>

text \<open>
  C6. Allocation returns: the wrap-around loop of \<open>allocate_request_id\<close> always ends, either
  refusing because every id is in flight or with an id between 1 and \<open>0xFFFFFFFF\<close> that no
  request in flight uses.
\<close>

theorem allocate_request_id_fresh:
  assumes "codec_ok c"
  shows "\<exists>res c'. allocate_request_id c = Some (res, c') \<and> codec_ok c' \<and>
    cd_outstanding c' = cd_outstanding c \<and>
    (case res of
       Inl e \<Rightarrow> int (length (cd_outstanding c)) > MAX_REQUEST_ID - MIN_REQUEST_ID \<and> c' = c
     | Inr i \<Rightarrow> 1 \<le> i \<and> i \<le> MAX_REQUEST_ID \<and> \<not> dict_has (cd_outstanding c) i)"
  using assms
proof (cases rule: allocate_cases)
  case full
  with assms show ?thesis by simp
next
  case (fresh i)
  with codec_ok_allocate [OF assms fresh(1)] show ?thesis by (simp add: MIN_REQUEST_ID_def)
qed

text \<open>A codec in use: one request in flight under id 1, nothing buffered.\<close>

definition busy_codec :: codec where
  "busy_codec = \<lparr>cd_splitter = \<lparr>fs_buf = [], fs_start = 0, fs_max = 100\<rparr>, cd_state = READY,
     cd_version = Some 3, cd_extensions = [], cd_outstanding = [(1, Stat 1 [65])], cd_next_id = 1\<rparr>"

lemma busy_codec_ok: "codec_ok busy_codec"
  by (auto simp: codec_ok_def busy_codec_def dict_wf_def dict_get_def drained_def splitter_ok_def
      pending_def split_stream_nil MIN_REQUEST_ID_def MAX_REQUEST_ID_def PROTOCOL_VERSION_def split: if_splits)

lemma allocate_request_id_fresh_witness:
  "\<exists>res c'. allocate_request_id busy_codec = Some (res, c') \<and> codec_ok c'"
  using allocate_request_id_fresh [OF busy_codec_ok] by blast

text \<open>
  C7. Correlation and conservation: when \<open>receive\<close> succeeds, every completed event pairs a
  response with the one request in flight that carries the same id, no id completes twice,
  and exactly the completed requests leave the table of requests in flight.
\<close>

theorem receive_conserves:
  assumes "codec_ok c" "receive held data c = (Inr evs, c')"
  shows "list_all (event_matches (cd_outstanding c)) evs \<and> distinct (completed_ids evs) \<and>
    (\<forall>i. dict_get (cd_outstanding c') i =
      (if i \<in> set (completed_ids evs) then None else dict_get (cd_outstanding c) i)) \<and> codec_ok c'"
proof -
  obtain frs sp where f: "handle_frames frs (c\<lparr>cd_splitter := sp\<rparr>) = (Inr evs, c')"
    and ok: "codec_ok (c\<lparr>cd_splitter := sp\<rparr>)" "codec_ok c'"
    by (rule receive_ok [OF assms]) blast
  from handle_frames_conserve [OF ok(1) f] ok(2) show ?thesis by simp
qed

lemma receive_conserves_witness:
  "dict_get (cd_outstanding (busy_codec\<lparr>cd_splitter := \<lparr>fs_buf = [0, 0, 0, 9, 105, 0, 0, 0, 1, 0, 0, 0, 0],
     fs_start = 13, fs_max = 100\<rparr>, cd_outstanding := []\<rparr>)) 1 = None"
proof -
  have "receive False [0, 0, 0, 9, 105, 0, 0, 0, 1, 0, 0, 0, 0] busy_codec
      = (Inr [Completed (Stat 1 [65]) (AttrsReply 1 EMPTY_ATTRS)],
         busy_codec\<lparr>cd_splitter := \<lparr>fs_buf = [0, 0, 0, 9, 105, 0, 0, 0, 1, 0, 0, 0, 0],
           fs_start = 13, fs_max = 100\<rparr>, cd_outstanding := []\<rparr>)"
    by code_simp
  from receive_conserves [OF busy_codec_ok this] show ?thesis by simp
qed

text \<open>
  C8. A protocol error is terminal: when \<open>receive\<close> raises, the exception is a
  \<open>ProtocolError\<close>, the codec is \<open>FAILED\<close>, and from then on \<open>initiate\<close>, \<open>send\<close> and
  \<open>receive\<close> all raise and change nothing.
\<close>

theorem receive_latches:
  assumes "codec_ok c" "receive held data c = (Inl e, c')"
  shows "is_protocol_error e \<and> cd_state c' = FAILED \<and>
    initiate v c' = (Inl failed_state, c') \<and> send req c' = (Inl failed_state, c') \<and>
    receive held' data' c' = (Inl failed_state, c')"
  using receive_error [OF assms] by (simp add: initiate_def send_def require_state_def receive_def)

lemma receive_latches_witness:
  "\<exists>c'. receive False [0, 0, 0, 0] busy_codec = (Inl zero_length, c') \<and> cd_state c' = FAILED"
proof -
  obtain c' where "receive False [0, 0, 0, 0] busy_codec = (Inl zero_length, c')"
    by (auto simp: receive_def busy_codec_def feed_def absorb_def reclaim_def take_frames.simps
        next_frame_def LENGTH_PREFIX_SIZE_def zero_length_def Let_def from_bytes_def)
  with receive_latches [OF busy_codec_ok this] show ?thesis by blast
qed

text \<open>
  C9. Sending: a refused \<open>send\<close> leaves the codec as it was, and an accepted one puts exactly
  this request in flight under its own id and returns bytes that decode to it.
\<close>

theorem send_accounts:
  assumes "codec_ok c" "wf_packet req" "send req c = (res, c')"
  shows "case res of
      Inl e \<Rightarrow> c' = c
    | Inr wire \<Rightarrow> (\<exists>i. request_id req = Some i \<and> \<not> dict_has (cd_outstanding c) i \<and>
        c' = c\<lparr>cd_outstanding := dict_set (cd_outstanding c) i req\<rparr> \<and>
        decode (drop 4 wire) = Inr req \<and> from_bytes (take 4 wire) = int (length wire) - 4)"
proof (cases res)
  case (Inl e)
  then show ?thesis using assms(3)
    by (auto simp: send_def require_state_def split: if_splits sum.splits option.splits)
next
  case (Inr wire)
  then obtain i where i: "request_id req = Some i" "\<not> dict_has (cd_outstanding c) i"
    and enc: "encode req = Inr wire" and c': "c' = c\<lparr>cd_outstanding := dict_set (cd_outstanding c) i req\<rparr>"
    using assms(3) by (auto simp: send_def split: if_splits sum.splits option.splits)
  from wire_shape [OF assms(2) enc] show ?thesis using Inr i c' by simp
qed

lemma send_accounts_witness:
  "\<exists>wire c'. send (Read 2 [7] 0 32768) busy_codec = (Inr wire, c') \<and>
     decode (drop 4 wire) = Inr (Read 2 [7] 0 32768)"
proof -
  obtain wire c' where s: "send (Read 2 [7] 0 32768) busy_codec = (Inr wire, c')"
    by (simp add: send_def require_state_def busy_codec_def dict_has_def encode_def frame_def to_bytes_def
        write_uint8_def write_uint32_def write_uint64_def write_string_def wseq_def UINT8_MAX_def
        UINT32_MAX_def UINT64_MAX_def put_chunk_def wire_writer_def)
  from send_accounts [OF busy_codec_ok _ this] s show ?thesis by auto
qed

text \<open>
  Chunking is invisible to the session: two ways of cutting the same bytes, with any
  frames still held in between, succeed together and report the same events in the same order.
\<close>

theorem receive_chunking_independent:
  assumes "codec_ok c" "cd_state c \<noteq> FAILED" "stream_of chunks = stream_of chunks'"
  shows "fst (receive_all chunks c) = Inr evs \<longleftrightarrow> fst (receive_all chunks' c) = Inr evs"
proof -
  obtain frs e rest where "split_stream (fs_max (cd_splitter c))
      (pending (cd_splitter c) @ stream_of chunks) = (frs, e, rest)" by (metis prod_cases3)
  with receive_all_split [OF assms(1,2), of chunks] receive_all_split [OF assms(1,2), of chunks'] assms(3)
  show ?thesis by auto
qed

lemma receive_chunking_independent_witness:
  "fst (receive_all [(True, [0, 0, 0]), (False, [9, 105, 0, 0, 0, 1, 0, 0]), (True, [0, 0])] busy_codec)
     = Inr [Completed (Stat 1 [65]) (AttrsReply 1 EMPTY_ATTRS)]"
proof -
  have "fst (receive_all [(False, [0, 0, 0, 9, 105, 0, 0, 0, 1, 0, 0, 0, 0])] busy_codec)
     = Inr [Completed (Stat 1 [65]) (AttrsReply 1 EMPTY_ATTRS)]"
    by code_simp
  moreover have "cd_state busy_codec \<noteq> FAILED" by (simp add: busy_codec_def)
  moreover have "stream_of [(False, [0, 0, 0, 9, 105, 0, 0, 0, 1, 0, 0, 0, 0 :: byte])]
      = stream_of [(True, [0, 0, 0]), (False, [9, 105, 0, 0, 0, 1, 0, 0]), (True, [0, 0])]"
    by (simp add: stream_of_def)
  ultimately show ?thesis using receive_chunking_independent [OF busy_codec_ok] by blast
qed

text \<open>
  End to end: while requests are in flight, a server that answers some of them in an
  order of its own, over a transport that cuts the stream as it likes, completes exactly
  those requests, each with its own answer.
\<close>

theorem replies_in_any_order:
  assumes "codec_ok c" "cd_state c = READY" "pending (cd_splitter c) = []"
    and "distinct (map fst replies)"
    and "\<And>i p. (i, p) \<in> set replies \<Longrightarrow> is_response p \<and> request_id p = Some i \<and> wf_packet p \<and>
        dict_has (cd_outstanding c) i"
    and "\<And>i p. (i, p) \<in> set replies \<Longrightarrow>
        encode p = Inr (wire i) \<and> int (length (wire i)) \<le> fs_max (cd_splitter c)"
    and "stream_of chunks = concat (map (\<lambda>r. wire (fst r)) replies)"
  shows "fst (receive_all chunks c) =
    Inr (map (\<lambda>(i, p). Completed (the (dict_get (cd_outstanding c) i)) p) replies)"
proof -
  let ?m = "fs_max (cd_splitter c)" and ?wires = "map (\<lambda>r. wire (fst r)) replies"
  have shape: "from_bytes (take 4 (wire i)) = int (length (drop 4 (wire i))) \<and> 4 < length (wire i) \<and>
      decode (drop 4 (wire i)) = Inr p" if "(i, p) \<in> set replies" for i p
  proof -
    have wf: "wf_packet p" and enc: "encode p = Inr (wire i)" using assms(5,6) [OF that] by simp_all
    from wire_shape [OF this] show ?thesis by simp
  qed
  have "split_stream ?m (concat ?wires @ []) = (map (drop 4) ?wires, None, [])"
    by (subst split_encoded) (use shape assms(6) in \<open>fastforce simp: split_stream_nil\<close>)+
  then have split: "split_stream ?m (pending (cd_splitter c) @ stream_of chunks)
      = (map (drop 4) ?wires, None, [])" using assms(3,7) by simp
  have "fst (handle_frames (map (drop 4) ?wires) d) =
      Inr (map (\<lambda>(i, p). Completed (the (dict_get (cd_outstanding c) i)) p) replies)"
    if "cd_state d = READY" "\<And>i. i \<in> fst ` set replies \<Longrightarrow> dict_get (cd_outstanding d) i = dict_get (cd_outstanding c) i"
    for d
    using assms(4,5) shape that
  proof (induction replies arbitrary: d)
    case (Cons ip rs)
    obtain i p where ip: "ip = (i, p)" by fastforce
    obtain req where req: "dict_get (cd_outstanding c) i = Some req"
      using Cons.prems(2) [of i p] by (auto simp: ip dict_has_iff)
    let ?d = "d\<lparr>cd_outstanding := dict_pop (cd_outstanding d) i\<rparr>"
    have "handle p d = (Inr (Completed req p), ?d)"
      unfolding handle_eq using Cons.prems(2) [of i p] Cons.prems(4,5) req by (auto simp: ip)
    moreover have "fst (handle_frames (map (drop 4) (map (\<lambda>r. wire (fst r)) rs)) ?d) =
        Inr (map (\<lambda>(i, p). Completed (the (dict_get (cd_outstanding c) i)) p) rs)"
      by (rule Cons.IH) (use Cons.prems in \<open>auto simp: ip\<close>)
    moreover have "decode (drop 4 (wire i)) = Inr p" using Cons.prems(3) by (simp add: ip)
    ultimately show ?case by (auto simp: ip req split: prod.splits sum.splits)
  qed simp
  from this [OF assms(2)] receive_all_split [OF assms(1) _ split] assms(2) show ?thesis by auto
qed

lemma replies_in_any_order_witness:
  "fst (receive_all [(True, [0, 0, 0]), (False, [9, 105, 0, 0, 0, 1, 0, 0, 0, 0])] busy_codec)
     = Inr [Completed (Stat 1 [65]) (AttrsReply 1 EMPTY_ATTRS)]"
proof -
  let ?wire = "\<lambda>i. [0, 0, 0, 9, 105, 0, 0, 0, 1, 0, 0, 0, 0] :: bytes"
  let ?replies = "[(1, AttrsReply 1 EMPTY_ATTRS)]"
  have enc: "encode (AttrsReply 1 EMPTY_ATTRS) = Inr (?wire 1)" by code_simp
  have "fst (receive_all [(True, [0, 0, 0]), (False, [9, 105, 0, 0, 0, 1, 0, 0, 0, 0])] busy_codec)
      = Inr (map (\<lambda>(i, p). Completed (the (dict_get (cd_outstanding busy_codec) i)) p) ?replies)"
    by (rule replies_in_any_order [OF busy_codec_ok, where wire = ?wire])
       (use enc in \<open>auto simp: busy_codec_def pending_def stream_of_def dict_has_def\<close>)
  then show ?thesis by (simp add: busy_codec_def dict_get_def)
qed

end
