(* ===== verification/Extensions.thy ===== *)
theory Extensions
  imports PacketLaws
begin

text \<open>
  The bodies of the \<open>EXTENDED\<close> requests the client sends, from \<open>codec/_extensions.py\<close>:
  each is built into the payload of an \<open>Extended\<close> packet and read back out of one. The
  reply of \<open>check-file\<close> has its own parser and \<open>split_digests\<close>. The lemmas give the round
  trip of every body, what the reply parser accepts and how it refuses, and that the
  digests are cut without losing or moving a byte.
\<close>

section \<open>The bodies\<close>

record posix_rename =
  pr_request_id :: int
  pr_oldpath :: bytes
  pr_newpath :: bytes

record lsetstat =
  ls_request_id :: int
  ls_path :: bytes
  ls_attrs :: attrs

record fsync =
  fy_request_id :: int
  fy_handle :: bytes

record check_file =
  cf_request_id :: int
  cf_handle :: bytes
  cf_algorithms :: bytes
  cf_start_offset :: int
  cf_length :: int
  cf_block_size :: int

definition POSIX_RENAME_NAME :: bytes where "POSIX_RENAME_NAME = ascii EXTENSION_POSIX_RENAME"
definition FSYNC_NAME :: bytes where "FSYNC_NAME = ascii EXTENSION_FSYNC"
definition LSETSTAT_NAME :: bytes where "LSETSTAT_NAME = ascii EXTENSION_LSETSTAT"
definition CHECK_FILE_NAME :: bytes where "CHECK_FILE_NAME = ascii EXTENSION_CHECK_FILE"

text \<open>\<open>Extended(request_id, name, writer.getvalue())\<close> after the writes of a body.\<close>

definition extended_of :: "int \<Rightarrow> bytes \<Rightarrow> (writer \<Rightarrow> exn + writer) \<Rightarrow> exn + packet" where
  "extended_of i name body = bind_sum (body wire_writer) (\<lambda>w. Inr (Extended i name (getvalue w)))"

definition payload_of :: "int \<Rightarrow> bytes \<Rightarrow> bytes \<Rightarrow> bytes \<Rightarrow> exn + reader" where
  "payload_of i name data expected =
     (if name \<noteq> expected
      then Inl (protocol_error (Msg ''expected extension'' [BytesArg expected, BytesArg name])
             (Some (packet_type_value PT_EXTENDED)) (Some i) (Some data))
      else Inr (wire_reader data (Some (packet_type_value PT_EXTENDED)) (Some i)))"

text \<open>Reading a body: the name check, then the fields; bytes after them are ignored.\<close>

definition from_extended :: "bytes \<Rightarrow> 'a rd \<Rightarrow> int \<Rightarrow> bytes \<Rightarrow> bytes \<Rightarrow> exn + 'a" where
  "from_extended expected body i name data =
     bind_sum (payload_of i name data expected) (\<lambda>r. fst (body r))"

definition posix_rename_to :: "posix_rename \<Rightarrow> exn + packet" where
  "posix_rename_to x = extended_of (pr_request_id x) POSIX_RENAME_NAME
     (wseq (write_string (pr_oldpath x)) (write_string (pr_newpath x)))"

definition posix_rename_from :: "int \<Rightarrow> bytes \<Rightarrow> bytes \<Rightarrow> exn + posix_rename" where
  "posix_rename_from i = from_extended POSIX_RENAME_NAME
     (rbind read_string (\<lambda>old. rbind read_string (\<lambda>new.
        rreturn \<lparr>pr_request_id = i, pr_oldpath = old, pr_newpath = new\<rparr>))) i"

definition lsetstat_to :: "lsetstat \<Rightarrow> exn + packet" where
  "lsetstat_to x = extended_of (ls_request_id x) LSETSTAT_NAME
     (wseq (write_string (ls_path x)) (encode_attrs (ls_attrs x)))"

definition lsetstat_from :: "int \<Rightarrow> bytes \<Rightarrow> bytes \<Rightarrow> exn + lsetstat" where
  "lsetstat_from i = from_extended LSETSTAT_NAME
     (rbind read_string (\<lambda>p. rbind decode_attrs (\<lambda>a.
        rreturn \<lparr>ls_request_id = i, ls_path = p, ls_attrs = a\<rparr>))) i"

definition fsync_to :: "fsync \<Rightarrow> exn + packet" where
  "fsync_to x = extended_of (fy_request_id x) FSYNC_NAME (write_string (fy_handle x))"

definition fsync_from :: "int \<Rightarrow> bytes \<Rightarrow> bytes \<Rightarrow> exn + fsync" where
  "fsync_from i = from_extended FSYNC_NAME
     (rbind read_string (\<lambda>h. rreturn \<lparr>fy_request_id = i, fy_handle = h\<rparr>)) i"

definition check_file_to :: "check_file \<Rightarrow> exn + packet" where
  "check_file_to x = extended_of (cf_request_id x) CHECK_FILE_NAME
     (wseq (write_string (cf_handle x))
     (wseq (write_string (cf_algorithms x))
     (wseq (write_uint64 (cf_start_offset x))
     (wseq (write_uint64 (cf_length x)) (write_uint32 (cf_block_size x))))))"

definition check_file_from :: "int \<Rightarrow> bytes \<Rightarrow> bytes \<Rightarrow> exn + check_file" where
  "check_file_from i = from_extended CHECK_FILE_NAME
     (rbind read_string (\<lambda>h. rbind read_string (\<lambda>algs. rbind read_uint64 (\<lambda>off.
      rbind read_uint64 (\<lambda>len. rbind read_uint32 (\<lambda>b.
        rreturn \<lparr>cf_request_id = i, cf_handle = h, cf_algorithms = algs, cf_start_offset = off,
                 cf_length = len, cf_block_size = b\<rparr>)))))) i"

section \<open>The check-file reply\<close>

record check_file_reply =
  cr_request_id :: int
  cr_algorithm :: bytes
  cr_digests :: bytes

definition check_file_reply_from :: "int \<Rightarrow> bytes \<Rightarrow> exn + check_file_reply" where
  "check_file_reply_from i data =
     (case read_string (wire_reader data None None) of
        (Inl _, _) \<Rightarrow> Inl (protocol_error
            (Msg ''check-file reply is truncated before the extension name'' []) None (Some i) (Some data))
      | (Inr name, r) \<Rightarrow>
          (if name \<noteq> CHECK_FILE_NAME
           then Inl (protocol_error (Msg ''check-file reply echoed another name'' [BytesArg name])
                  None (Some i) (Some data))
           else (case read_string r of
                   (Inl _, _) \<Rightarrow> Inl (protocol_error
                       (Msg ''check-file reply is truncated before the algorithm name'' []) None (Some i) (Some data))
                 | (Inr algorithm, r') \<Rightarrow>
                     (case read_bytes (remaining r') r' of
                        (Inl e, _) \<Rightarrow> Inl e
                      | (Inr digests, _) \<Rightarrow>
                          Inr \<lparr>cr_request_id = i, cr_algorithm = algorithm, cr_digests = digests\<rparr>))))"

text \<open>\<open>range(0, len(digests), digest_size)\<close> and the slices at its values.\<close>

definition split_digests :: "bytes \<Rightarrow> int \<Rightarrow> bytes \<Rightarrow> exn + bytes list" where
  "split_digests digests digest_size algorithm =
     (if digest_size < 1 then Inl (ValueErr (Msg ''digest_size must be at least 1'' [IntArg digest_size]))
      else if int (length digests) mod digest_size \<noteq> 0
      then Inl (ValueErr (Msg ''digest bytes do not divide''
             [NatArg (length digests), IntArg digest_size, BytesArg algorithm]))
      else (let n = nat digest_size in
        Inr (map (\<lambda>k. take n (drop (k * n) digests)) [0..<length digests div n])))"

section \<open>Round trips\<close>

text \<open>One lemma for the four bodies: the fields the writes append are the fields read.\<close>

lemma extended_roundtrip:
  assumes codes: "codes body m v" and enc: "extended_of i name body = Inr p"
  obtains data where "p = Extended i name data" "\<And>tail. from_extended name m i name (data @ tail) = Inr v"
proof -
  obtain w where w: "body wire_writer = Inr w" "p = Extended i name (getvalue w)"
    using enc by (auto simp: extended_of_def)
  obtain bs where bs: "appends wire_writer w bs" "consumes m bs v"
    using codes w(1) unfolding codes_def by blast
  have data: "getvalue w = bs" using bs(1) by (simp add: appends_def)
  have "from_extended name m i name (bs @ tail) = Inr v" for tail
  proof -
    let ?r = "wire_reader (bs @ tail) (Some (packet_type_value PT_EXTENDED)) (Some i)"
    obtain r' where "m ?r = (Inr v, r')"
      using consumesE [OF bs(2) reader_ok_init, of "bs @ tail" "Some (packet_type_value PT_EXTENDED)" "Some i" tail]
      by auto
    then show ?thesis by (simp add: from_extended_def payload_of_def)
  qed
  with w(2) data that show thesis by blast
qed

lemma codes_posix_rename:
  "codes (wseq (write_string (pr_oldpath x)) (write_string (pr_newpath x)))
    (rbind read_string (\<lambda>old. rbind read_string (\<lambda>new.
        rreturn \<lparr>pr_request_id = pr_request_id x, pr_oldpath = old, pr_newpath = new\<rparr>))) x"
  by (rule codes_seq [OF codes_string codes_last [OF codes_string]]) (cases x, simp)

lemma codes_lsetstat:
  "codes (wseq (write_string (ls_path x)) (encode_attrs (ls_attrs x)))
    (rbind read_string (\<lambda>p. rbind decode_attrs (\<lambda>a.
        rreturn \<lparr>ls_request_id = ls_request_id x, ls_path = p, ls_attrs = a\<rparr>))) x"
  by (rule codes_seq [OF codes_string codes_last [OF codes_attrs]]) (cases x, simp)

lemma codes_fsync:
  "codes (write_string (fy_handle x))
    (rbind read_string (\<lambda>h. rreturn \<lparr>fy_request_id = fy_request_id x, fy_handle = h\<rparr>)) x"
  by (rule codes_last [OF codes_string]) (cases x, simp)

lemma codes_check_file:
  "codes (wseq (write_string (cf_handle x)) (wseq (write_string (cf_algorithms x))
     (wseq (write_uint64 (cf_start_offset x)) (wseq (write_uint64 (cf_length x)) (write_uint32 (cf_block_size x))))))
    (rbind read_string (\<lambda>h. rbind read_string (\<lambda>algs. rbind read_uint64 (\<lambda>off.
      rbind read_uint64 (\<lambda>len. rbind read_uint32 (\<lambda>b.
        rreturn \<lparr>cf_request_id = cf_request_id x, cf_handle = h, cf_algorithms = algs, cf_start_offset = off,
                 cf_length = len, cf_block_size = b\<rparr>)))))) x"
  by (rule codes_seq [OF codes_string codes_seq [OF codes_string codes_seq [OF codes_uint64
        codes_seq [OF codes_uint64 codes_last [OF codes_uint32]]]]]) (cases x, simp)

lemma read_string_str:
  assumes "fits_string s"
  obtains r' where "read_string (wire_reader (str s @ rest) t i) = (Inr s, r')" "reader_ok r'"
    "unread r' = rest"
  using consumesE [OF consumes_str [OF assms] reader_ok_init, of "str s @ rest" t i rest] by auto

lemma read_bytes_all:
  assumes "reader_ok r"
  shows "\<exists>r'. read_bytes (remaining r) r = (Inr (unread r), r')"
  using assms by (simp add: read_bytes_def take_bytes_def unread_def remaining_def)

text \<open>The error of a body read under another name.\<close>

definition name_refusal :: "bytes \<Rightarrow> int \<Rightarrow> bytes \<Rightarrow> bytes \<Rightarrow> exn" where
  "name_refusal expected i name data =
     protocol_error (Msg ''expected extension'' [BytesArg expected, BytesArg name]) (Some 200) (Some i) (Some data)"

lemma other_name_refused:
  "name = expected \<or> from_extended expected body i name data = Inl (name_refusal expected i name data)"
  by (simp add: from_extended_def payload_of_def name_refusal_def)

section \<open>Properties\<close>

text \<open>
  C10. Every extension body survives the wire: what \<open>to_extended\<close> builds, sent as a packet
  and decoded by the peer, is read back by \<open>from_extended\<close> as the same request, and bytes
  a later revision may append to the body do not disturb it; and no body is read out of a request
  under another name, whatever its bytes: that is a \<open>ProtocolError\<close> that names both.
\<close>

theorem extension_roundtrip:
  "(\<forall>x p. posix_rename_to x = Inr p \<longrightarrow> (\<exists>data. p = Extended (pr_request_id x) POSIX_RENAME_NAME data \<and>
     (\<forall>tail. posix_rename_from (pr_request_id x) POSIX_RENAME_NAME (data @ tail) = Inr x))) \<and>
   (\<forall>y p. lsetstat_to y = Inr p \<longrightarrow> (\<exists>data. p = Extended (ls_request_id y) LSETSTAT_NAME data \<and>
     (\<forall>tail. lsetstat_from (ls_request_id y) LSETSTAT_NAME (data @ tail) = Inr y))) \<and>
   (\<forall>z p. fsync_to z = Inr p \<longrightarrow> (\<exists>data. p = Extended (fy_request_id z) FSYNC_NAME data \<and>
     (\<forall>tail. fsync_from (fy_request_id z) FSYNC_NAME (data @ tail) = Inr z))) \<and>
   (\<forall>c p. check_file_to c = Inr p \<longrightarrow> (\<exists>data. p = Extended (cf_request_id c) CHECK_FILE_NAME data \<and>
     (\<forall>tail. check_file_from (cf_request_id c) CHECK_FILE_NAME (data @ tail) = Inr c))) \<and>
   (\<forall>i name data. (name = POSIX_RENAME_NAME \<or> posix_rename_from i name data = Inl (name_refusal POSIX_RENAME_NAME i name data)) \<and>
     (name = LSETSTAT_NAME \<or> lsetstat_from i name data = Inl (name_refusal LSETSTAT_NAME i name data)) \<and>
     (name = FSYNC_NAME \<or> fsync_from i name data = Inl (name_refusal FSYNC_NAME i name data)) \<and>
     (name = CHECK_FILE_NAME \<or> check_file_from i name data = Inl (name_refusal CHECK_FILE_NAME i name data)))"
  unfolding posix_rename_to_def posix_rename_from_def lsetstat_to_def lsetstat_from_def
    fsync_to_def fsync_from_def check_file_to_def check_file_from_def
  by (intro conjI allI impI)
     (rule other_name_refused |
      blast elim: extended_roundtrip [OF codes_posix_rename] extended_roundtrip [OF codes_lsetstat]
        extended_roundtrip [OF codes_fsync] extended_roundtrip [OF codes_check_file])+

lemma extension_roundtrip_witness:
  "posix_rename_from 5 POSIX_RENAME_NAME [0, 0, 0, 1, 97, 0, 0, 0, 1, 98, 99]
     = Inr \<lparr>pr_request_id = 5, pr_oldpath = [97], pr_newpath = [98]\<rparr> \<and>
   fsync_from 5 POSIX_RENAME_NAME [0, 0, 0, 1, 97] =
     Inl (name_refusal FSYNC_NAME 5 POSIX_RENAME_NAME [0, 0, 0, 1, 97])"
proof -
  let ?x = "\<lparr>pr_request_id = 5, pr_oldpath = [97], pr_newpath = [98]\<rparr>"
  have to: "posix_rename_to ?x = Inr (Extended 5 POSIX_RENAME_NAME [0, 0, 0, 1, 97, 0, 0, 0, 1, 98])"
    by code_simp
  from conjunct1 [OF extension_roundtrip, rule_format, OF to]
  have "posix_rename_from 5 POSIX_RENAME_NAME ([0, 0, 0, 1, 97, 0, 0, 0, 1, 98] @ [99]) = Inr ?x" by auto
  moreover have "POSIX_RENAME_NAME \<noteq> FSYNC_NAME" by code_simp
  then have "fsync_from 5 POSIX_RENAME_NAME [0, 0, 0, 1, 97] =
      Inl (name_refusal FSYNC_NAME 5 POSIX_RENAME_NAME [0, 0, 0, 1, 97])"
    using extension_roundtrip by blast
  ultimately show ?thesis by simp
qed

text \<open>
  The \<open>check-file\<close> reply: the echoed form is parsed field by field, the draft's form
  without the echo is refused by name, before its digest bytes can be misread as a length,
  and every refusal is a \<open>ProtocolError\<close>.
\<close>

theorem check_file_reply_shapes:
  assumes "fits_string algorithm"
  shows "check_file_reply_from i (str CHECK_FILE_NAME @ str algorithm @ digests)
      = Inr \<lparr>cr_request_id = i, cr_algorithm = algorithm, cr_digests = digests\<rparr> \<and>
    (algorithm \<noteq> CHECK_FILE_NAME \<longrightarrow> check_file_reply_from i (str algorithm @ digests)
      = Inl (protocol_error (Msg ''check-file reply echoed another name'' [BytesArg algorithm])
          None (Some i) (Some (str algorithm @ digests)))) \<and>
    (\<forall>data. case check_file_reply_from i data of Inl e \<Rightarrow> is_protocol_error e | Inr _ \<Rightarrow> True)"
proof (intro conjI impI allI)
  have name: "fits_string CHECK_FILE_NAME"
    by (simp add: fits_string_def CHECK_FILE_NAME_def ascii_def EXTENSION_CHECK_FILE_def UINT32_MAX_def)
  obtain r where r: "read_string (wire_reader (str CHECK_FILE_NAME @ str algorithm @ digests) None None)
      = (Inr CHECK_FILE_NAME, r)" "reader_ok r" "unread r = str algorithm @ digests"
    using read_string_str [OF name] .
  obtain r' where r': "read_string r = (Inr algorithm, r')" "reader_ok r'" "unread r' = digests"
    using consumesE [OF consumes_str [OF assms] r(2,3)] by auto
  show "check_file_reply_from i (str CHECK_FILE_NAME @ str algorithm @ digests)
      = Inr \<lparr>cr_request_id = i, cr_algorithm = algorithm, cr_digests = digests\<rparr>"
    using r(1) r' read_bytes_all [OF r'(2)] by (auto simp: check_file_reply_from_def)
  show "check_file_reply_from i (str algorithm @ digests)
      = Inl (protocol_error (Msg ''check-file reply echoed another name'' [BytesArg algorithm])
          None (Some i) (Some (str algorithm @ digests)))" if "algorithm \<noteq> CHECK_FILE_NAME"
    by (rule read_string_str [OF assms, of digests None None]) (use that in \<open>simp add: check_file_reply_from_def\<close>)
  fix data
  obtain a r where a: "read_string (wire_reader data None None) = (a, r)" by fastforce
  obtain b r' where b: "read_string r = (b, r')" by fastforce
  have "reader_ok r'"
    using well_behavedD(1) [OF well_behaved_string b well_behavedD(1) [OF well_behaved_string a reader_ok_init]] .
  from read_bytes_all [OF this]
  show "case check_file_reply_from i data of Inl e \<Rightarrow> is_protocol_error e | Inr _ \<Rightarrow> True"
    using a b by (cases a; cases b) (auto simp: check_file_reply_from_def)
qed

lemma check_file_reply_shapes_witness:
  "check_file_reply_from 4 (str CHECK_FILE_NAME @ str [109, 100, 53] @ [1, 2, 3])
     = Inr \<lparr>cr_request_id = 4, cr_algorithm = [109, 100, 53], cr_digests = [1, 2, 3]\<rparr>"
  using check_file_reply_shapes [of "[109, 100, 53]" 4 "[1, 2, 3]"]
  by (simp add: fits_string_def UINT32_MAX_def)

text \<open>
  Cutting the digests: \<open>split_digests\<close> succeeds exactly when the size is positive and
  divides the payload, and then every piece has that size and together they are the payload,
  in order.
\<close>

theorem split_digests_exact:
  "(case split_digests digests n algorithm of
      Inl e \<Rightarrow> \<not> (1 \<le> n \<and> int (length digests) mod n = 0) \<and> (\<exists>m. e = ValueErr m)
    | Inr parts \<Rightarrow> 1 \<le> n \<and> concat parts = digests \<and> list_all (\<lambda>d. int (length d) = n) parts \<and>
        int (length parts) * n = int (length digests))"
proof (cases "n < 1 \<or> int (length digests) mod n \<noteq> 0")
  case True
  then show ?thesis by (auto simp: split_digests_def)
next
  case False
  define m where "m = nat n"
  have m: "0 < m" "n = int m" using False by (simp_all add: m_def)
  have "int m dvd int (length digests)" using False m(2) by (simp add: mod_eq_0_iff_dvd)
  then have dvd: "m dvd length digests" by simp
  define k where "k = length digests div m"
  have len: "length digests = k * m" using dvd by (simp add: k_def)
  have pieces: "concat (map (\<lambda>j. take m (drop (j * m) digests)) [0..<l]) = take (l * m) digests" for l
    by (induction l) (simp_all add: take_add [symmetric] ac_simps)
  have "length (take m (drop (j * m) digests)) = m" if "j < k" for j
  proof -
    have "(j + 1) * m \<le> k * m" using that by (intro mult_right_mono) simp_all
    then show ?thesis by (simp add: len)
  qed
  then have "list_all (\<lambda>d. int (length d) = n) (map (\<lambda>j. take m (drop (j * m) digests)) [0..<k])"
    by (simp add: list_all_iff m(2))
  moreover have "split_digests digests n algorithm = Inr (map (\<lambda>j. take m (drop (j * m) digests)) [0..<k])"
    using False by (simp add: split_digests_def Let_def m_def k_def)
  ultimately show ?thesis using False pieces [of k] m by (simp add: len)
qed

end
