(* ===== verification/SizeLimits.thy ===== *)
theory SizeLimits
  imports PacketLaws
begin

text \<open>
  Server limits and the request sizes derived from them (\<open>session/_limits.py\<close>). A limit the
  server reports as \<open>0\<close> is no limit, which is \<open>None\<close> here as in the code. The properties:
  the derived sizes always make progress, never exceed what was asked for or reported, and
  leave room for the header inside the packet ceiling, checked against the encoder itself.
\<close>

section \<open>Limits\<close>

definition PREFERRED_READ_LENGTH :: int where "PREFERRED_READ_LENGTH = 261120"
definition PREFERRED_WRITE_LENGTH :: int where "PREFERRED_WRITE_LENGTH = 261120"
definition DEFAULT_MAX_PACKET_LENGTH :: int where "DEFAULT_MAX_PACKET_LENGTH = 262144"
definition MINIMUM_USEFUL_LENGTH :: int where "MINIMUM_USEFUL_LENGTH = 1"

definition no_limit_as_none :: "int \<Rightarrow> int option" where
  "no_limit_as_none v = (if v \<noteq> 0 then Some v else None)"

record server_limits =
  max_packet_length :: "int option"
  max_read_length :: "int option"
  max_write_length :: "int option"
  max_open_handles :: "int option"

definition unknown_limits :: server_limits where
  "unknown_limits = \<lparr>max_packet_length = None, max_read_length = None,
     max_write_length = None, max_open_handles = None\<rparr>"

definition limits_from_extended_reply :: "bytes \<Rightarrow> exn + server_limits" where
  "limits_from_extended_reply data =
     fst (rbind read_uint64 (\<lambda>p. rbind read_uint64 (\<lambda>r. rbind read_uint64 (\<lambda>w. rbind read_uint64 (\<lambda>h.
       rreturn \<lparr>max_packet_length = no_limit_as_none p, max_read_length = no_limit_as_none r,
                max_write_length = no_limit_as_none w, max_open_handles = no_limit_as_none h\<rparr>))))
       (wire_reader data None None))"

text \<open>\<open>self.max_packet_length or DEFAULT_MAX_PACKET_LENGTH\<close>.\<close>

definition effective_max_packet_length :: "server_limits \<Rightarrow> int" where
  "effective_max_packet_length l =
     (case max_packet_length l of
        None \<Rightarrow> DEFAULT_MAX_PACKET_LENGTH
      | Some v \<Rightarrow> (if v \<noteq> 0 then v else DEFAULT_MAX_PACKET_LENGTH))"

definition read_request_overhead :: "int \<Rightarrow> int" where
  "read_request_overhead handle_length = 1 + 4 + (4 + handle_length) + 8 + 4"

definition write_request_overhead :: "int \<Rightarrow> int" where
  "write_request_overhead handle_length = 1 + 4 + (4 + handle_length) + 8 + 4"

section \<open>Transfer sizes\<close>

record transfer_sizes =
  ts_read_length :: int
  ts_write_length :: int

definition transfer_sizes_init :: "int \<Rightarrow> int \<Rightarrow> exn + transfer_sizes" where
  "transfer_sizes_init r w =
     (if r < MINIMUM_USEFUL_LENGTH then Inl (ValueErr (Msg ''read_length must be at least 1'' [IntArg r]))
      else if w < MINIMUM_USEFUL_LENGTH then Inl (ValueErr (Msg ''write_length must be at least 1'' [IntArg w]))
      else Inr \<lparr>ts_read_length = r, ts_write_length = w\<rparr>)"

definition negotiate_transfer_sizes ::
    "server_limits \<Rightarrow> int \<Rightarrow> int \<Rightarrow> int \<Rightarrow> exn + transfer_sizes" where
  "negotiate_transfer_sizes limits handle_length preferred_read preferred_write =
     (let packet_ceiling = effective_max_packet_length limits;
          read_budget = packet_ceiling - read_request_overhead handle_length;
          read_length = min preferred_read read_budget;
          read_length = (case max_read_length limits of None \<Rightarrow> read_length | Some m \<Rightarrow> min read_length m);
          write_budget = packet_ceiling - write_request_overhead handle_length;
          write_length = min preferred_write write_budget;
          write_length = (case max_write_length limits of None \<Rightarrow> write_length | Some m \<Rightarrow> min write_length m) in
      transfer_sizes_init (max read_length MINIMUM_USEFUL_LENGTH) (max write_length MINIMUM_USEFUL_LENGTH))"

section \<open>Properties\<close>

text \<open>The body of the packet a WRITE becomes, counted byte by byte.\<close>

lemma length_write_packet:
  assumes "encode (Write i h off d) = Inr wire"
  shows "length wire = 4 + (1 + 4 + (4 + length h) + 8 + 4 + length d)"
proof -
  obtain w where w: "encode_body (Write i h off d) (put_chunk (be_bytes 1 6) wire_writer) = Inr w"
    and f: "frame w = Inr wire"
    using encode_eq [OF assms] by auto
  then have "getvalue w = be_bytes 1 6 @ u32 i @ str h @ u64 off @ str d"
      and "w_size w = 1 + 4 + (4 + length h) + 8 + 4 + length d"
    by (auto simp: fits_simps str_def)
  with f show ?thesis by (auto simp: frame_def to_bytes_def getvalue_def split: if_splits)
qed

text \<open>
  Negotiated sizes make progress and fit: for any limits the server reports, both sizes
  are at least 1, and each is within the preference, the reported payload limit and the room
  the packet ceiling leaves, unless that bound itself is below 1.
\<close>

theorem negotiated_sizes_fit:
  "\<exists>t. negotiate_transfer_sizes l h r w = Inr t \<and> 1 \<le> ts_read_length t \<and> 1 \<le> ts_write_length t \<and>
     ts_read_length t = max 1 (Min ({r, effective_max_packet_length l - read_request_overhead h}
       \<union> set_option (max_read_length l))) \<and>
     ts_write_length t = max 1 (Min ({w, effective_max_packet_length l - write_request_overhead h}
       \<union> set_option (max_write_length l)))"
  by (auto simp: negotiate_transfer_sizes_def transfer_sizes_init_def MINIMUM_USEFUL_LENGTH_def Let_def
      max.commute min.commute min.left_commute split: option.splits)

text \<open>
  The overhead is the encoder's own: a WRITE carrying a payload of the negotiated size
  encodes, behind its length word, to no more than the packet ceiling the server named.
\<close>

theorem negotiated_write_within_ceiling:
  assumes "negotiate_transfer_sizes l (int (length h)) r w = Inr t" "int (length d) \<le> ts_write_length t"
    and "write_request_overhead (int (length h)) < effective_max_packet_length l"
    and "encode (Write i h off d) = Inr wire"
  shows "int (length wire) - 4 \<le> effective_max_packet_length l"
proof -
  have "ts_write_length t \<le> effective_max_packet_length l - write_request_overhead (int (length h))"
    using assms(1,3) by (auto simp: negotiate_transfer_sizes_def transfer_sizes_init_def
        MINIMUM_USEFUL_LENGTH_def Let_def split: option.splits if_splits)
  with assms(2) length_write_packet [OF assms(4)] show ?thesis
    by (simp add: write_request_overhead_def)
qed

lemma negotiated_write_within_ceiling_witness:
  "int (length [0 :: byte, 0, 0, 27, 6, 0, 0, 0, 1, 0, 0, 0, 4, 9, 9, 9, 9, 0, 0, 0, 0, 0, 0, 0, 0, 0, 0, 0, 2, 5, 5]) - 4
     \<le> effective_max_packet_length unknown_limits"
proof -
  have n: "negotiate_transfer_sizes unknown_limits (int (length [9 :: byte, 9, 9, 9])) 261120 261120
      = Inr \<lparr>ts_read_length = 261120, ts_write_length = 261120\<rparr>"
    by (simp add: negotiate_transfer_sizes_def unknown_limits_def effective_max_packet_length_def
        DEFAULT_MAX_PACKET_LENGTH_def read_request_overhead_def write_request_overhead_def
        transfer_sizes_init_def MINIMUM_USEFUL_LENGTH_def)
  have e: "encode (Write 1 [9, 9, 9, 9] 0 [5, 5])
      = Inr [0, 0, 0, 27, 6, 0, 0, 0, 1, 0, 0, 0, 4, 9, 9, 9, 9, 0, 0, 0, 0, 0, 0, 0, 0, 0, 0, 0, 2, 5, 5]"
    by code_simp
  show ?thesis
    by (rule negotiated_write_within_ceiling [OF n _ _ e])
       (simp_all add: write_request_overhead_def effective_max_packet_length_def unknown_limits_def
          DEFAULT_MAX_PACKET_LENGTH_def)
qed

text \<open>
  The reply of \<open>limits@openssh.com\<close>: four words decode to four limits, a zero to none
  at all, and a shorter body is a \<open>ProtocolError\<close>.
\<close>

lemma limits_decode:
  "(\<forall>p r w h tail. fits64 p \<and> fits64 r \<and> fits64 w \<and> fits64 h \<longrightarrow>
      limits_from_extended_reply (u64 p @ u64 r @ u64 w @ u64 h @ tail) =
        Inr \<lparr>max_packet_length = no_limit_as_none p, max_read_length = no_limit_as_none r,
             max_write_length = no_limit_as_none w, max_open_handles = no_limit_as_none h\<rparr>) \<and>
   (\<forall>data. length data < 32 \<longrightarrow> (\<exists>e. limits_from_extended_reply data = Inl e \<and> is_protocol_error e))"
proof (intro conjI allI impI)
  let ?m = "rbind read_uint64 (\<lambda>p. rbind read_uint64 (\<lambda>r. rbind read_uint64 (\<lambda>w. rbind read_uint64 (\<lambda>h.
       rreturn \<lparr>max_packet_length = no_limit_as_none p, max_read_length = no_limit_as_none r,
                max_write_length = no_limit_as_none w, max_open_handles = no_limit_as_none h\<rparr>))))"
  show "limits_from_extended_reply (u64 p @ u64 r @ u64 w @ u64 h @ tail) =
        Inr \<lparr>max_packet_length = no_limit_as_none p, max_read_length = no_limit_as_none r,
             max_write_length = no_limit_as_none w, max_open_handles = no_limit_as_none h\<rparr>"
    if fits: "fits64 p \<and> fits64 r \<and> fits64 w \<and> fits64 h" for p r w h tail
  proof -
    let ?v = "\<lparr>max_packet_length = no_limit_as_none p, max_read_length = no_limit_as_none r,
             max_write_length = no_limit_as_none w, max_open_handles = no_limit_as_none h\<rparr>"
    have "consumes ?m (u64 p @ u64 r @ u64 w @ u64 h) ?v"
      using fits by (intro consumes_bind consumes_u64 consumes_bind_Nil [OF consumes_u64] consumes_returnI)
        (auto intro: consumes_u64)
    then obtain r' where "?m (wire_reader (u64 p @ u64 r @ u64 w @ u64 h @ tail) None None) = (Inr ?v, r')"
      by (rule consumesE [OF _ reader_ok_init, where rest = tail]) simp_all
    then show ?thesis by (simp add: limits_from_extended_reply_def)
  qed
  show "\<exists>e. limits_from_extended_reply data = Inl e \<and> is_protocol_error e" if "length data < 32" for data
  proof -
    obtain a r where a: "?m (wire_reader data None None) = (a, r)" by fastforce
    have "well_behaved ?m" by (intro reader_mono)
    note wb = well_behavedD [OF this a reader_ok_init]
    show ?thesis
    proof (cases a)
      case (Inl e)
      with a wb(5) [OF Inl] show ?thesis by (simp add: limits_from_extended_reply_def about_frame_def)
    next
      case (Inr v)
      then have "r_pos r = 32"
        using a by (auto simp: rbind_eq rreturn_eq wire_reader_def dest!: read_uint64_pos)
      then show ?thesis using wb(1,2) that by (simp add: reader_ok_def wire_reader_def)
    qed
  qed
qed

lemma limits_decode_witness:
  "\<exists>e. limits_from_extended_reply [0, 0, 0] = Inl e \<and> is_protocol_error e"
  using limits_decode by simp

end
