(* ===== verification/Ranges.thy ===== *)
theory Ranges
  imports Codec
begin

text \<open>
  What both transfer directions share: byte ranges, the span and schedule of a run, the
  sinks of \<open>session/_download.py\<close>, and the source of request ids. Ranges are counted with
  \<open>hits\<close>: how many of them contain a position; a run is correct when every position of the
  file is hit exactly once by what was written, queued, in flight or given up.

  The locale \<open>id_source\<close> is what a transfer needs of the codec: an id not in use among the
  ids it already has in flight. It is interpreted on the codec's own allocation loop.
\<close>

section \<open>Ranges, spans, schedules\<close>

record range =
  rg_offset :: nat
  rg_length :: nat

record span =
  sp_start :: nat
  sp_end :: "nat option"

record schedule =
  sc_request_length :: nat
  sc_depth :: nat
  sc_idle_timeout :: "nat option"

definition covers :: "range \<Rightarrow> nat \<Rightarrow> bool" where
  "covers r p \<longleftrightarrow> rg_offset r \<le> p \<and> p < rg_offset r + rg_length r"

definition hits :: "range list \<Rightarrow> nat \<Rightarrow> nat" where
  "hits rs p = length (filter (\<lambda>r. covers r p) rs)"

definition total_length :: "range list \<Rightarrow> nat" where
  "total_length rs = sum_list (map rg_length rs)"

lemma hits_simps [simp]:
  "hits [] p = 0"
  "hits (r # rs) p = (if covers r p then 1 else 0) + hits rs p"
  "hits (rs @ rs') p = hits rs p + hits rs' p"
  by (simp_all add: hits_def)

lemma total_length_simps [simp]:
  "total_length [] = 0"
  "total_length (r # rs) = rg_length r + total_length rs"
  "total_length (rs @ rs') = total_length rs + total_length rs'"
  by (simp_all add: total_length_def)

lemma hits_mset: "mset rs = mset rs' \<Longrightarrow> hits rs p = hits rs' p"
  unfolding hits_def by (metis mset_filter size_mset)

lemma total_length_mset: "mset rs = mset rs' \<Longrightarrow> total_length rs = total_length rs'"
  unfolding total_length_def by (metis mset_map sum_mset_sum_list)

lemma hits_pos: "0 < hits rs p \<longleftrightarrow> (\<exists>r \<in> set rs. covers r p)"
  by (induction rs) auto

text \<open>Ranges that hit each position of an interval once have the interval's length in total.\<close>

lemma sum_hits: "(\<Sum>p<n. hits rs p) = total_length rs" if "\<forall>r \<in> set rs. rg_offset r + rg_length r \<le> n"
  using that
proof (induction rs)
  case (Cons r rs)
  have "(\<Sum>p<n. if covers r p then 1 else 0) = card {p. p < n \<and> covers r p}"
    by (simp add: sum.If_cases lessThan_def Collect_conj_eq [symmetric] Int_def)
  also have "{p. p < n \<and> covers r p} = {rg_offset r ..< rg_offset r + rg_length r}"
    using Cons.prems by (auto simp: covers_def)
  finally show ?case using Cons by (simp add: sum.distrib)
qed simp

lemma total_of_hits:
  assumes "\<And>p. hits rs p = (if a \<le> p \<and> p < b then 1 else 0)" "a \<le> b"
  shows "total_length rs = b - a"
proof -
  define n where "n = Max (insert b ((\<lambda>r. rg_offset r + rg_length r) ` set rs))"
  have "\<forall>r \<in> set rs. rg_offset r + rg_length r \<le> n" "b \<le> n" by (auto simp: n_def)
  then have "total_length rs = (\<Sum>p<n. if a \<le> p \<and> p < b then 1 else 0)"
    using sum_hits [of rs n] assms(1) by simp
  also have "\<dots> = card {p. p < n \<and> a \<le> p \<and> p < b}"
    by (simp add: sum.If_cases lessThan_def Collect_conj_eq [symmetric] Int_def)
  also have "{p. p < n \<and> a \<le> p \<and> p < b} = {a..<b}" using \<open>b \<le> n\<close> by auto
  finally show ?thesis by simp
qed

section \<open>Sinks\<close>

text \<open>
  A descriptor is a partial file: the bytes written so far. A buffer is the caller's memory
  and the file offset of its first byte.
\<close>

datatype sink =
    DescriptorSink "nat \<Rightarrow> byte option"
  | BufferSink bytes nat

text \<open>Writing a payload at an offset of a partial file.\<close>

definition place :: "nat \<Rightarrow> bytes \<Rightarrow> (nat \<Rightarrow> byte option) \<Rightarrow> nat \<Rightarrow> byte option" where
  "place off bs f p = (if off \<le> p \<and> p < off + length bs then Some (bs ! (p - off)) else f p)"

text \<open>
  \<open>DescriptorSink.write_at\<close>: the loop over short writes. \<open>pwrite\<close> is the operating system's
  answer, how many of the bytes offered it took; \<open>None\<close> is a loop that never ends.
\<close>

partial_function (option) descriptor_write ::
    "(bytes \<Rightarrow> nat \<Rightarrow> nat) \<Rightarrow> nat \<Rightarrow> bytes \<Rightarrow> nat \<Rightarrow> (nat \<Rightarrow> byte option) \<Rightarrow> (nat \<Rightarrow> byte option) option" where
  "descriptor_write pwrite off payload written f =
     (if written < length payload
      then (let rest = drop written payload; n = pwrite rest (off + written) in
        descriptor_write pwrite off payload (written + n) (place (off + written) (take n rest) f))
      else Some f)"

lemma place_place:
  assumes "m \<le> length payload"
  shows "place (off + m) (take n (drop m payload)) (place off (take m payload) f)
    = place off (take (m + n) payload) f"
proof
  fix p
  show "place (off + m) (take n (drop m payload)) (place off (take m payload) f) p
    = place off (take (m + n) payload) f p"
    using assms by (auto simp: place_def min_def)
qed

lemma descriptor_write_from:
  assumes os: "\<And>bs pos. bs \<noteq> [] \<Longrightarrow> 1 \<le> pwrite bs pos \<and> pwrite bs pos \<le> length bs"
    and "written \<le> length payload"
  shows "descriptor_write pwrite off payload written (place off (take written payload) f)
    = Some (place off payload f)"
  using assms(2)
proof (induction "length payload - written" arbitrary: written rule: less_induct)
  case less
  show ?case
  proof (cases "written < length payload")
    case True
    let ?n = "pwrite (drop written payload) (off + written)"
    have "1 \<le> ?n \<and> ?n \<le> length payload - written"
      using os [of "drop written payload" "off + written"] True by simp
    then have n: "1 \<le> ?n" "written + ?n \<le> length payload" using True by linarith+
    have "descriptor_write pwrite off payload (written + ?n) (place off (take (written + ?n) payload) f)
        = Some (place off payload f)"
      using less.hyps [of "written + ?n"] n True by simp
    then show ?thesis
      using True less.prems
      by (subst descriptor_write.simps) (simp add: Let_def place_place)
  qed (use less.prems in \<open>simp add: descriptor_write.simps\<close>)
qed

text \<open>The index a slice bound of a sequence of length \<open>n\<close> stands for.\<close>

definition slice_index :: "nat \<Rightarrow> int \<Rightarrow> nat" where
  "slice_index n i = nat (if i < 0 then max 0 (i + int n) else min i (int n))"

text \<open>\<open>BufferSink.write_at\<close>: slice assignment into a memoryview, which cannot change its size.\<close>

definition buffer_write :: "bytes \<Rightarrow> nat \<Rightarrow> nat \<Rightarrow> bytes \<Rightarrow> exn + bytes" where
  "buffer_write view base off payload =
     (let start = int off - int base;
          lo = slice_index (length view) start;
          hi = slice_index (length view) (start + int (length payload)) in
      if hi - lo = length payload then Inr (take lo view @ payload @ drop (lo + length payload) view)
      else Inl (ValueErr (Msg ''memoryview assignment: lvalue and rvalue have different structures'' [])))"

definition write_at :: "sink \<Rightarrow> nat \<Rightarrow> bytes \<Rightarrow> exn + sink" where
  "write_at s off payload =
     (case s of
        DescriptorSink f \<Rightarrow> Inr (DescriptorSink (place off payload f))
      | BufferSink view base \<Rightarrow>
          bind_sum (buffer_write view base off payload) (\<lambda>v. Inr (BufferSink v base)))"

text \<open>What a sink holds at a file position, and which positions it has room for.\<close>

fun sink_at :: "sink \<Rightarrow> nat \<Rightarrow> byte option" where
  "sink_at (DescriptorSink f) p = f p"
| "sink_at (BufferSink view base) p =
     (if base \<le> p \<and> p < base + length view then Some (view ! (p - base)) else None)"

fun sink_room :: "sink \<Rightarrow> nat \<Rightarrow> nat \<Rightarrow> bool" where
  "sink_room (DescriptorSink f) lo hi = True"
| "sink_room (BufferSink view base) lo hi \<longleftrightarrow> base \<le> lo \<and> hi \<le> base + length view"

lemma sink_room_mono: "sink_room s lo hi \<Longrightarrow> lo \<le> lo' \<Longrightarrow> hi' \<le> hi \<Longrightarrow> sink_room s lo' hi'"
  by (cases s) auto

lemma write_at_place:
  assumes "sink_room s off (off + length payload)"
  obtains s' where "write_at s off payload = Inr s'" "\<And>p. sink_at s' p = place off payload (sink_at s) p"
    "\<And>lo hi. sink_room s' lo hi = sink_room s lo hi"
proof (cases s)
  case (DescriptorSink f)
  then show thesis using that by (simp add: write_at_def place_def)
next
  case (BufferSink view base)
  have room: "base \<le> off" "off + length payload \<le> base + length view" using assms BufferSink by auto
  then obtain k where k: "off = base + k" by (metis le_Suc_ex)
  let ?v = "take k view @ payload @ drop (k + length payload) view"
  have le: "k + length payload \<le> length view" using room k by simp
  then have "slice_index (length view) (int off - int base) = k"
    "slice_index (length view) (int off - int base + int (length payload)) = k + length payload"
    by (auto simp: slice_index_def k)
  then have "write_at s off payload = Inr (BufferSink ?v base)"
    by (simp add: BufferSink write_at_def buffer_write_def Let_def)
  moreover have "length ?v = length view" using le by simp
  moreover have "sink_at (BufferSink ?v base) p = place off payload (sink_at s) p" for p
  proof (cases "base \<le> p")
    case True
    then obtain q where q: "p = base + q" by (metis le_Suc_ex)
    show ?thesis using le by (auto simp: BufferSink place_def nth_append min_def q k)
  qed (simp add: BufferSink place_def k)
  ultimately show thesis using that BufferSink by simp
qed

section \<open>Where request ids come from\<close>

text \<open>\<open>alloc d k\<close> is the answer to the transfer's \<open>k\<close>-th allocation while \<open>d\<close> is in flight.\<close>

locale id_source =
  fixes alloc :: "(int, 'v) dict \<Rightarrow> nat \<Rightarrow> int" and capacity :: nat
  assumes alloc_fresh: "dict_wf d \<Longrightarrow> length d < capacity \<Longrightarrow> \<not> dict_has d (alloc d k)"
begin

lemma alloc_grows:
  "dict_wf d \<Longrightarrow> length d < capacity \<Longrightarrow>
     dict_set d (alloc d k) v = d @ [(alloc d k, v)] \<and> dict_wf (d @ [(alloc d k, v)])"
  using alloc_fresh [of d k] dict_set_fresh [of d "alloc d k" v] dict_wf_set [of d "alloc d k" v] by simp

end

text \<open>
  The codec's allocator, which every operation of the session shares: \<open>rest k\<close> is what the others have
  made of it by this transfer's \<open>k\<close>-th allocation, the id the codec would try next and the ids the
  others have in flight. Where these and the transfer's own leave no id free, \<open>allocate_request_id\<close>
  raises; that is not an answer of an allocator, and such \<open>others\<close> count as none.
\<close>

definition codec_alloc :: "(nat \<Rightarrow> int \<times> int list) \<Rightarrow> (int, 'v) dict \<Rightarrow> nat \<Rightarrow> int" where
  "codec_alloc rest d k =
     (case rest k of (upcoming, others) \<Rightarrow>
        let mine = map fst d;
            theirs = filter (\<lambda>i. i \<notin> set mine) (remdups others);
            held = (if int (length mine + length theirs) \<le> MAX_REQUEST_ID - MIN_REQUEST_ID then mine @ theirs else mine);
            start = (if MIN_REQUEST_ID \<le> upcoming \<and> upcoming \<le> MAX_REQUEST_ID then upcoming else MIN_REQUEST_ID) in
        the (skip_in_flight (map (\<lambda>i. (i, ())) held) start))"

text \<open>A transfer that is alone on a fresh codec.\<close>

definition alone :: "nat \<Rightarrow> int \<times> int list" where
  "alone k = ((advance ^^ k) MIN_REQUEST_ID, [])"

lemma dict_has_keys: "dict_has (map (\<lambda>i. (i, ())) ids) i \<longleftrightarrow> i \<in> set ids"
  by (force simp: dict_has_def)

interpretation codec_ids: id_source "codec_alloc rest" "nat MAX_REQUEST_ID" for rest :: "nat \<Rightarrow> int \<times> int list"
proof
  fix d :: "(int, 'v) dict" and k
  assume wf: "dict_wf d" and room: "length d < nat MAX_REQUEST_ID"
  obtain upcoming others where rest: "rest k = (upcoming, others)" by fastforce
  define mine where "mine = map fst d"
  define theirs where "theirs = filter (\<lambda>i. i \<notin> set mine) (remdups others)"
  define held where "held = (if int (length mine + length theirs) \<le> MAX_REQUEST_ID - MIN_REQUEST_ID then mine @ theirs else mine)"
  define start where "start = (if MIN_REQUEST_ID \<le> upcoming \<and> upcoming \<le> MAX_REQUEST_ID then upcoming else MIN_REQUEST_ID)"
  have "distinct mine" using wf by (simp add: mine_def dict_wf_def)
  then have "dict_wf (map (\<lambda>i. (i, ())) held)"
    by (auto simp: dict_wf_def held_def theirs_def comp_def)
  moreover have "int (length (map (\<lambda>i. (i, ())) held)) \<le> MAX_REQUEST_ID - MIN_REQUEST_ID"
    using room by (simp add: held_def mine_def MIN_REQUEST_ID_def zless_nat_eq_int_zless)
  moreover have "MIN_REQUEST_ID \<le> start" "start \<le> MAX_REQUEST_ID"
    by (simp_all add: start_def MIN_REQUEST_ID_def MAX_REQUEST_ID_def)
  ultimately obtain j where j: "skip_in_flight (map (\<lambda>i. (i, ())) held) start = Some j" "\<not> dict_has (map (\<lambda>i. (i, ())) held) j"
    using skip_in_flight_ends by metis
  have "codec_alloc rest d k = j"
    unfolding codec_alloc_def rest prod.case Let_def
    by (simp only: flip: mine_def) (simp only: j(1) option.sel flip: theirs_def, simp only: j(1) option.sel flip: held_def start_def)
  moreover have "set mine \<subseteq> set held" by (simp add: held_def)
  ultimately show "\<not> dict_has d (codec_alloc rest d k)"
    using j(2) by (auto simp: dict_has_keys mine_def dict_has_def)
qed

end
