(* ===== verification/Download.thy ===== *)
theory Download
  imports Ranges
begin

text \<open>
  The pipelined download of \<open>session/_download.py\<close>: one \<open>downloader\<close> record per transfer,
  the operations of \<open>_Downloader\<close>, and \<open>run_download\<close>, its loop over what the exchange
  delivers. \<open>alloc\<close> answers the id allocations, \<open>transmit\<close> the sends, and \<open>arrivals\<close> is what
  the server and the connection do: a completed request, silence past the idle timeout, or
  the connection failing. Every theorem quantifies over all three.

  Two log fields have no counterpart in the object: \<open>dl_sent\<close>, the requests handed to the
  exchange, and \<open>dl_progress\<close>, the calls of the progress callback.
\<close>

section \<open>State\<close>

record downloader =
  dl_handle :: bytes
  dl_sink :: sink
  dl_span :: span
  dl_read_length :: nat
  dl_depth :: nat
  dl_idle_timeout :: "nat option"
  dl_remote_path :: "bytes option"
  dl_backlog :: "range list"
  dl_next_offset :: nat
  dl_outstanding :: "(int, range) dict"
  dl_written :: nat
  dl_eof_at :: "nat option"
  dl_seen_zero :: bool
  dl_issued :: nat
  dl_sent :: "packet list"
  dl_progress :: "(nat \<times> nat option) list"

type_synonym allocator = "(int, range) dict \<Rightarrow> nat \<Rightarrow> int"
type_synonym sender = "packet \<Rightarrow> exn + unit"

datatype arrival =
    Arrived packet packet
  | Silence
  | Broken exn

datatype run_result = Finished nat | Raised exn | Waiting

definition downloader_init :: "bytes \<Rightarrow> sink \<Rightarrow> span \<Rightarrow> schedule \<Rightarrow> bytes option \<Rightarrow> downloader" where
  "downloader_init fhandle sink sp sc path =
     \<lparr>dl_handle = fhandle, dl_sink = sink, dl_span = sp, dl_read_length = sc_request_length sc,
      dl_depth = sc_depth sc, dl_idle_timeout = sc_idle_timeout sc, dl_remote_path = path,
      dl_backlog = [], dl_next_offset = sp_start sp, dl_outstanding = [], dl_written = 0,
      dl_eof_at = None, dl_seen_zero = False, dl_issued = 0, dl_sent = [], dl_progress = []\<rparr>"

section \<open>Issuing\<close>

definition more_to_issue :: "downloader \<Rightarrow> bool" where
  "more_to_issue d =
     (if dl_backlog d \<noteq> [] then True
      else if dl_eof_at d \<noteq> None then False
      else (case sp_end (dl_span d) of None \<Rightarrow> True | Some e \<Rightarrow> dl_next_offset d < e))"

definition next_range :: "downloader \<Rightarrow> range \<times> downloader" where
  "next_range d =
     (case dl_backlog d of
        r # rest \<Rightarrow> (r, d\<lparr>dl_backlog := rest\<rparr>)
      | [] \<Rightarrow>
          (let len = (case sp_end (dl_span d) of
                 None \<Rightarrow> dl_read_length d
               | Some e \<Rightarrow> min (dl_read_length d) (e - dl_next_offset d)) in
           (\<lparr>rg_offset = dl_next_offset d, rg_length = len\<rparr>,
            d\<lparr>dl_next_offset := dl_next_offset d + len\<rparr>)))"

text \<open>One turn of the loop in \<open>_fill_window\<close>.\<close>

definition issue_one :: "allocator \<Rightarrow> sender \<Rightarrow> downloader \<Rightarrow> (exn + unit) \<times> downloader" where
  "issue_one alloc transmit d =
     (let (issued, d1) = next_range d;
          i = alloc (dl_outstanding d1) (dl_issued d1);
          d2 = d1\<lparr>dl_outstanding := dict_set (dl_outstanding d1) i issued, dl_issued := dl_issued d1 + 1\<rparr>;
          req = Read i (dl_handle d) (int (rg_offset issued)) (int (rg_length issued)) in
      case transmit req of
        Inl e \<Rightarrow> (Inl e, d2)
      | Inr _ \<Rightarrow> (Inr (), d2\<lparr>dl_sent := dl_sent d2 @ [req]\<rparr>))"

primrec fill_loop :: "nat \<Rightarrow> allocator \<Rightarrow> sender \<Rightarrow> downloader \<Rightarrow> (exn + unit) \<times> downloader" where
  "fill_loop 0 alloc transmit d = (Inr (), d)"
| "fill_loop (Suc n) alloc transmit d =
     (if length (dl_outstanding d) < dl_depth d \<and> more_to_issue d
      then (case issue_one alloc transmit d of
              (Inl e, d') \<Rightarrow> (Inl e, d')
            | (Inr _, d') \<Rightarrow> fill_loop n alloc transmit d')
      else (Inr (), d))"

text \<open>Every turn puts one more request in flight, so \<open>depth\<close> turns are all there can be.\<close>

definition fill_window :: "allocator \<Rightarrow> sender \<Rightarrow> downloader \<Rightarrow> (exn + unit) \<times> downloader" where
  "fill_window alloc transmit d = fill_loop (dl_depth d) alloc transmit d"

section \<open>Handling replies\<close>

definition overlong_data :: "range \<Rightarrow> nat \<Rightarrow> int \<Rightarrow> exn" where
  "overlong_data issued arrived i = protocol_error
     (Msg ''a DATA may be short but never long''
        [NatArg (rg_length issued), NatArg (rg_offset issued), NatArg arrived]) None (Some i) None"

definition handle_data :: "range \<Rightarrow> bytes \<Rightarrow> int \<Rightarrow> downloader \<Rightarrow> (exn + unit) \<times> downloader" where
  "handle_data issued payload i d =
     (if length payload > rg_length issued then (Inl (overlong_data issued (length payload) i), d)
      else if payload = [] \<and> dl_seen_zero d
      then (Inl (TransferErr (Msg ''server sent a second zero-length DATA'' [NatArg (rg_offset issued)])
               (int (dl_written d)) (Some (int (rg_offset issued))) (dl_remote_path d)), d)
      else (let d1 = (if payload = [] then d\<lparr>dl_seen_zero := True\<rparr> else d) in
        case write_at (dl_sink d1) (rg_offset issued) payload of
          Inl e \<Rightarrow> (Inl e, d1)
        | Inr s \<Rightarrow>
            (let d2 = d1\<lparr>dl_sink := s, dl_written := dl_written d1 + length payload\<rparr> in
             (Inr (),
              if length payload < rg_length issued
              then d2\<lparr>dl_backlog := dl_backlog d2 @ [\<lparr>rg_offset = rg_offset issued + length payload,
                       rg_length = rg_length issued - length payload\<rparr>]\<rparr>
              else d2))))"

text \<open>\<open>_refusal\<close>: which sentence describes a refused READ.\<close>

definition refusal_reason :: "range \<Rightarrow> status_code \<Rightarrow> bytes \<Rightarrow> downloader \<Rightarrow> reason" where
  "refusal_reason issued code msg d =
     (if dl_written d \<noteq> 0 \<or> rg_offset issued \<noteq> sp_start (dl_span d)
      then Msg ''server refused a read at offset'' [NatArg (rg_offset issued), BytesArg msg]
      else if code \<noteq> FX_FAILURE
      then Msg ''server refused the first read'' [NatArg (rg_offset issued), BytesArg msg]
      else Msg ''server refused the first read; a directory looks exactly like this''
             [NatArg (rg_offset issued), BytesArg msg])"

text \<open>
  \<open>self._eof_at or issued.offset\<close> takes an \<open>_eof_at\<close> of \<open>0\<close> for none, as Python does.
\<close>

definition handle_status :: "range \<Rightarrow> status_code \<Rightarrow> bytes \<Rightarrow> downloader \<Rightarrow> (exn + unit) \<times> downloader" where
  "handle_status issued code msg d =
     (if code = FX_EOF
      then (let seen = (case dl_eof_at d of
              None \<Rightarrow> rg_offset issued
            | Some x \<Rightarrow> (if x = 0 then rg_offset issued else x)) in
        (Inr (), d\<lparr>dl_eof_at := Some (min seen (rg_offset issued))\<rparr>))
      else (Inl (TransferErr (refusal_reason issued code msg d) (int (dl_written d))
              (Some (int (rg_offset issued))) (dl_remote_path d)), d))"

definition dispatch :: "packet \<Rightarrow> packet \<Rightarrow> downloader \<Rightarrow> (exn + unit) \<times> downloader" where
  "dispatch req resp d =
     (case req of
        Read i _ _ _ \<Rightarrow>
          (case dict_get (dl_outstanding d) i of
             None \<Rightarrow> (Inl KeyErr, d)
           | Some issued \<Rightarrow>
               (let d1 = d\<lparr>dl_outstanding := dict_pop (dl_outstanding d) i\<rparr> in
                case resp of
                  Data _ payload \<Rightarrow> handle_data issued payload i d1
                | Status _ code msg _ _ \<Rightarrow> handle_status issued code msg d1
                | _ \<Rightarrow> (Inl (protocol_error (Msg ''server answered a READ with another packet'' []) None (Some i) None), d1)))
      | _ \<Rightarrow> (Inl (protocol_error (Msg ''unexpected completion'' []) None None None), d))"

section \<open>The run\<close>

text \<open>\<open>_next_reply\<close>: silence is a timeout when there is one, and no event otherwise.\<close>

definition next_reply :: "arrival \<Rightarrow> downloader \<Rightarrow> exn + (packet \<times> packet) option" where
  "next_reply a d =
     (case a of
        Arrived req resp \<Rightarrow> Inr (Some (req, resp))
      | Broken e \<Rightarrow> Inl e
      | Silence \<Rightarrow>
          (case dl_idle_timeout d of
             None \<Rightarrow> Inr None
           | Some t \<Rightarrow> Inl (TransferTimeoutErr (Msg ''no response from the server''
                 [NatArg t, NatArg (length (dl_outstanding d))]) (int (dl_written d)) None (dl_remote_path d))))"

definition report_progress :: "downloader \<Rightarrow> downloader" where
  "report_progress d =
     d\<lparr>dl_progress := dl_progress d @ [(sp_start (dl_span d) + dl_written d, sp_end (dl_span d))]\<rparr>"

fun run_loop :: "allocator \<Rightarrow> sender \<Rightarrow> arrival list \<Rightarrow> downloader \<Rightarrow> run_result \<times> downloader" where
  "run_loop alloc transmit arrivals d =
     (case fill_window alloc transmit d of
        (Inl e, d1) \<Rightarrow> (Raised e, d1)
      | (Inr _, d1) \<Rightarrow>
          (if dl_outstanding d1 = [] then (Finished (dl_written d1), d1)
           else (case arrivals of
               [] \<Rightarrow> (Waiting, d1)
             | a # rest \<Rightarrow>
                 (case next_reply a d1 of
                    Inl e \<Rightarrow> (Raised e, d1)
                  | Inr None \<Rightarrow> run_loop alloc transmit rest d1
                  | Inr (Some (req, resp)) \<Rightarrow>
                      (case dispatch req resp d1 of
                         (Inl e, d2) \<Rightarrow> (Raised e, d2)
                       | (Inr _, d2) \<Rightarrow> run_loop alloc transmit rest (report_progress d2))))))"

declare run_loop.simps [simp del]

definition run_download :: "allocator \<Rightarrow> sender \<Rightarrow> arrival list \<Rightarrow> downloader \<Rightarrow> run_result \<times> downloader" where
  "run_download alloc transmit arrivals d = run_loop alloc transmit arrivals (report_progress d)"

text \<open>The two entry points; a result comes with the sink it leaves.\<close>

definition download_handle ::
    "allocator \<Rightarrow> sender \<Rightarrow> arrival list \<Rightarrow> bytes \<Rightarrow> (nat \<Rightarrow> byte option) \<Rightarrow> int option \<Rightarrow> int \<Rightarrow> int \<Rightarrow>
     nat option \<Rightarrow> bytes option \<Rightarrow> int \<Rightarrow> run_result \<times> sink" where
  "download_handle alloc transmit arrivals fhandle file fsize read_length depth idle path start_offset =
     (if depth < 1 then (Raised (ValueErr (Msg ''depth must be at least 1'' [IntArg depth])), DescriptorSink file)
      else if read_length < 1
      then (Raised (ValueErr (Msg ''read_length must be at least 1'' [IntArg read_length])), DescriptorSink file)
      else if start_offset < 0
      then (Raised (ValueErr (Msg ''start_offset must not be negative'' [IntArg start_offset])), DescriptorSink file)
      else if (case fsize of None \<Rightarrow> False | Some n \<Rightarrow> start_offset > n)
      then (Raised (ValueErr (Msg ''start_offset is past the end'' [IntArg start_offset])), DescriptorSink file)
      else apsnd dl_sink (run_download alloc transmit arrivals (downloader_init fhandle (DescriptorSink file)
             \<lparr>sp_start = nat start_offset, sp_end = map_option nat fsize\<rparr>
             \<lparr>sc_request_length = nat read_length, sc_depth = nat depth, sc_idle_timeout = idle\<rparr> path)))"

definition read_range_into ::
    "allocator \<Rightarrow> sender \<Rightarrow> arrival list \<Rightarrow> bytes \<Rightarrow> bytes \<Rightarrow> int \<Rightarrow> int \<Rightarrow> int \<Rightarrow>
     nat option \<Rightarrow> bytes option \<Rightarrow> run_result \<times> sink" where
  "read_range_into alloc transmit arrivals fhandle buffer offset read_length depth idle path =
     (if depth < 1
      then (Raised (ValueErr (Msg ''depth must be at least 1'' [IntArg depth])), BufferSink buffer (nat offset))
      else if read_length < 1
      then (Raised (ValueErr (Msg ''read_length must be at least 1'' [IntArg read_length])), BufferSink buffer (nat offset))
      else if offset < 0
      then (Raised (ValueErr (Msg ''offset must not be negative'' [IntArg offset])), BufferSink buffer (nat offset))
      else if buffer = [] then (Finished 0, BufferSink buffer (nat offset))
      else apsnd dl_sink (run_download alloc transmit arrivals (downloader_init fhandle (BufferSink buffer (nat offset))
             \<lparr>sp_start = nat offset, sp_end = Some (nat offset + length buffer)\<rparr>
             \<lparr>sc_request_length = nat read_length, sc_depth = nat depth, sc_idle_timeout = idle\<rparr> path)))"

end
