(* ===== verification/DownloadLaws.thy ===== *)
theory DownloadLaws
  imports Download
begin

text \<open>
  Why a pipelined download is right. \<open>download_ok\<close> is the shape every operation keeps;
  \<open>books\<close> accounts for every position of the span: at any moment it is in exactly one of
  the ranges written, queued, in flight or answered with end of file. From it follow the
  completeness of a finished run, its independence from the order of the replies, and, with
  \<open>work\<close> as the measure, that a run with a known end finishes whatever the server does.
\<close>

section \<open>Invariants\<close>

definition download_ok :: "downloader \<Rightarrow> bool" where
  "download_ok d \<longleftrightarrow>
     dict_wf (dl_outstanding d) \<and> length (dl_outstanding d) \<le> dl_depth d \<and>
     1 \<le> dl_depth d \<and> 1 \<le> dl_read_length d \<and>
     (\<forall>r \<in> set (dl_backlog d) \<union> set (map snd (dl_outstanding d)). 1 \<le> rg_length r) \<and>
     sp_start (dl_span d) \<le> dl_next_offset d \<and>
     (\<forall>e. sp_end (dl_span d) = Some e \<longrightarrow> dl_next_offset d \<le> e) \<and>
     (\<forall>n. (\<forall>e. sp_end (dl_span d) = Some e \<longrightarrow> n \<le> e) \<longrightarrow> sink_room (dl_sink d) (sp_start (dl_span d)) n)"

text \<open>\<open>W\<close> are the ranges written so far, \<open>L\<close> those answered with end of file.\<close>

definition books :: "(nat \<Rightarrow> byte option) \<Rightarrow> range list \<Rightarrow> range list \<Rightarrow> downloader \<Rightarrow> bool" where
  "books f W L d \<longleftrightarrow>
     (\<forall>p. hits W p + hits (dl_backlog d) p + hits (map snd (dl_outstanding d)) p + hits L p =
        (if sp_start (dl_span d) \<le> p \<and> p < dl_next_offset d then 1 else 0)) \<and>
     total_length W = dl_written d \<and>
     (dl_eof_at d = None \<longleftrightarrow> L = []) \<and> (\<forall>r \<in> set L. 1 \<le> rg_length r) \<and>
     (\<forall>p. hits W p = 0 \<longrightarrow> sink_at (dl_sink d) p = f p)"

lemma books_count:
  "books f W L d \<Longrightarrow> hits W p + hits (dl_backlog d) p + hits (map snd (dl_outstanding d)) p + hits L p =
     (if sp_start (dl_span d) \<le> p \<and> p < dl_next_offset d then 1 else 0)"
  by (simp add: books_def)

text \<open>What depends only on the configuration of a run never changes.\<close>

definition same_run :: "downloader \<Rightarrow> downloader \<Rightarrow> bool" where
  "same_run d d' \<longleftrightarrow> dl_span d' = dl_span d \<and> dl_depth d' = dl_depth d \<and>
     dl_read_length d' = dl_read_length d \<and> dl_handle d' = dl_handle d"

lemma same_run_refl [simp]: "same_run d d"
  and same_run_trans: "same_run d d1 \<Longrightarrow> same_run d1 d2 \<Longrightarrow> same_run d d2"
  by (simp_all add: same_run_def)

definition work :: "downloader \<Rightarrow> nat" where
  "work d = total_length (dl_backlog d) + total_length (map snd (dl_outstanding d)) +
     (case sp_end (dl_span d) of None \<Rightarrow> 0 | Some e \<Rightarrow> e - dl_next_offset d) +
     (if dl_seen_zero d then 0 else 1)"

section \<open>Issuing keeps the books\<close>

lemma next_range_cases:
  assumes "download_ok d" "more_to_issue d"
  obtains (queued) r rest where "dl_backlog d = r # rest" "next_range d = (r, d\<lparr>dl_backlog := rest\<rparr>)" "1 \<le> rg_length r"
  | (fresh) len where "dl_backlog d = []" "dl_eof_at d = None"
      "next_range d = (\<lparr>rg_offset = dl_next_offset d, rg_length = len\<rparr>, d\<lparr>dl_next_offset := dl_next_offset d + len\<rparr>)"
      "1 \<le> len" "\<And>e. sp_end (dl_span d) = Some e \<Longrightarrow> dl_next_offset d + len \<le> e"
proof (cases "dl_backlog d")
  case Nil
  define len where "len = (case sp_end (dl_span d) of None \<Rightarrow> dl_read_length d
    | Some e \<Rightarrow> min (dl_read_length d) (e - dl_next_offset d))"
  have lt: "dl_next_offset d < e" if "sp_end (dl_span d) = Some e" for e
    using assms(2) Nil that by (simp add: more_to_issue_def split: if_splits)
  have "dl_eof_at d = None" using assms(2) Nil by (simp add: more_to_issue_def split: if_splits)
  moreover have "1 \<le> len"
    using assms(1) lt by (auto simp: len_def download_ok_def Suc_le_eq split: option.splits)
  moreover have "dl_next_offset d + len \<le> e" if "sp_end (dl_span d) = Some e" for e
  proof -
    have "len \<le> e - dl_next_offset d" by (simp add: len_def that)
    with lt [OF that] show ?thesis by linarith
  qed
  moreover have "next_range d = (\<lparr>rg_offset = dl_next_offset d, rg_length = len\<rparr>,
      d\<lparr>dl_next_offset := dl_next_offset d + len\<rparr>)"
    by (simp add: next_range_def Nil Let_def len_def)
  ultimately show thesis using fresh Nil by blast
next
  case (Cons r rest)
  then show thesis using queued assms(1) by (simp add: next_range_def download_ok_def)
qed

lemma issue_one_state:
  assumes "issue_one alloc transmit d = (res, d')" "next_range d = (r, d1)"
  obtains s where "d' = d1\<lparr>dl_outstanding := dict_set (dl_outstanding d1) (alloc (dl_outstanding d1) (dl_issued d1)) r,
    dl_issued := dl_issued d1 + 1, dl_sent := s\<rparr>"
  using assms by (cases d1) (auto simp: issue_one_def Let_def split: sum.splits)

text \<open>The id source at the type of the download's table.\<close>

locale download_ids = id_source alloc capacity
  for alloc :: "(int, range) dict \<Rightarrow> nat \<Rightarrow> int" and capacity
begin

lemma issue_one_keeps:
  assumes ok: "download_ok d" and more: "more_to_issue d"
    and room: "length (dl_outstanding d) < dl_depth d" "dl_depth d \<le> capacity"
    and books: "books f W L d"
    and run: "issue_one alloc transmit d = (res, d')"
  shows "download_ok d'" "books f W L d'" "same_run d d'" "sp_end (dl_span d) \<noteq> None \<Longrightarrow> work d' = work d"
    "dl_written d' = dl_written d" "dl_sink d' = dl_sink d" "dl_eof_at d' = dl_eof_at d"
    "length (dl_outstanding d') = Suc (length (dl_outstanding d))"
proof -
  have wf: "dict_wf (dl_outstanding d)" using ok by (simp add: download_ok_def)
  note grow = alloc_grows [OF wf, of "dl_issued d"]
  have cap: "length (dl_outstanding d) < capacity" using room by simp
  note grow = grow [OF cap]
  from ok more have "(download_ok d' \<and> books f W L d') \<and> (same_run d d' \<and> (sp_end (dl_span d) \<noteq> None \<longrightarrow> work d' = work d) \<and>
      dl_written d' = dl_written d \<and> dl_sink d' = dl_sink d \<and> dl_eof_at d' = dl_eof_at d \<and>
      length (dl_outstanding d') = Suc (length (dl_outstanding d)))"
  proof (cases rule: next_range_cases)
    case (queued r rest)
    obtain s where d': "d' = d\<lparr>dl_backlog := rest, dl_outstanding := dl_outstanding d @
        [(alloc (dl_outstanding d) (dl_issued d), r)], dl_issued := dl_issued d + 1, dl_sent := s\<rparr>"
      by (rule issue_one_state [OF run queued(2)]) (use grow [of r] in simp)
    have "download_ok d'"
      using ok room grow [of r] queued unfolding d' download_ok_def by auto
    moreover have "books f W L d'"
      using books queued(1) unfolding d' books_def by (auto simp: add.assoc add.left_commute)
    ultimately show ?thesis
      using queued(1) unfolding d' same_run_def work_def by (simp split: option.splits)
  next
    case (fresh len)
    let ?r = "\<lparr>rg_offset = dl_next_offset d, rg_length = len\<rparr>"
    obtain s where d': "d' = d\<lparr>dl_next_offset := dl_next_offset d + len, dl_outstanding := dl_outstanding d @
        [(alloc (dl_outstanding d) (dl_issued d), ?r)], dl_issued := dl_issued d + 1, dl_sent := s\<rparr>"
      by (rule issue_one_state [OF run fresh(3)]) (use grow [of ?r] in simp)
    have "download_ok d'"
      using ok room grow [of ?r] fresh unfolding d' download_ok_def by auto
    moreover have "books f W L d'"
    proof -
      have "sp_start (dl_span d) \<le> dl_next_offset d" using ok by (simp add: download_ok_def)
      then have "hits W p + hits (map snd (dl_outstanding d) @ [?r]) p + hits L p =
          (if sp_start (dl_span d) \<le> p \<and> p < dl_next_offset d + len then 1 else 0)" for p
        using books_count [OF books, of p] fresh(1) by (cases "p < dl_next_offset d") (auto simp: covers_def)
      then show ?thesis using books fresh(1) unfolding d' books_def by (simp add: add.assoc)
    qed
    moreover have "sp_end (dl_span d) \<noteq> None \<longrightarrow> work d' = work d"
      using fresh(5) unfolding d' work_def by (auto split: option.splits)
    ultimately show ?thesis unfolding d' same_run_def by simp
  qed
  then show "download_ok d'" "books f W L d'" "same_run d d'" "sp_end (dl_span d) \<noteq> None \<Longrightarrow> work d' = work d"
    "dl_written d' = dl_written d" "dl_sink d' = dl_sink d" "dl_eof_at d' = dl_eof_at d"
    "length (dl_outstanding d') = Suc (length (dl_outstanding d))" by blast+
qed

lemma fill_loop_keeps:
  assumes "download_ok d" "dl_depth d \<le> capacity" "books f W L d"
    and "fill_loop n alloc transmit d = (res, d')"
  shows "download_ok d' \<and> books f W L d' \<and> same_run d d' \<and> (sp_end (dl_span d) \<noteq> None \<longrightarrow> work d' = work d) \<and>
    dl_written d' = dl_written d \<and> dl_sink d' = dl_sink d \<and> dl_eof_at d' = dl_eof_at d \<and>
    (res = Inr () \<longrightarrow> length (dl_outstanding d) + n \<ge> dl_depth d \<longrightarrow>
       \<not> (length (dl_outstanding d') < dl_depth d' \<and> more_to_issue d'))"
  using assms
proof (induction n arbitrary: d)
  case 0
  then show ?case by simp
next
  case (Suc n)
  show ?case
  proof (cases "length (dl_outstanding d) < dl_depth d \<and> more_to_issue d")
    case True
    obtain r d1 where d1: "issue_one alloc transmit d = (r, d1)" by fastforce
    note one = issue_one_keeps [OF Suc.prems(1) conjunct2 [OF True] conjunct1 [OF True] Suc.prems(2,3) d1]
    show ?thesis
    proof (cases r)
      case (Inl e)
      with Suc.prems(4) True d1 one show ?thesis by auto
    next
      case (Inr u)
      with Suc.prems(4) True d1 have "fill_loop n alloc transmit d1 = (res, d')" by simp
      moreover have "dl_depth d1 = dl_depth d" "dl_span d1 = dl_span d"
        using one(3) by (simp_all add: same_run_def)
      ultimately show ?thesis
        using Suc.IH [OF one(1) _ one(2)] Suc.prems(2) one(3-8) by (auto intro: same_run_trans)
    qed
  qed (use Suc.prems in auto)
qed

text \<open>After a fill the window is full, or there is nothing left to ask for.\<close>

lemma fill_window_keeps:
  assumes "download_ok d" "dl_depth d \<le> capacity" "books f W L d"
    and "fill_window alloc transmit d = (res, d')"
  shows "download_ok d'" "books f W L d'" "same_run d d'" "sp_end (dl_span d) \<noteq> None \<Longrightarrow> work d' = work d"
    "dl_written d' = dl_written d" "dl_sink d' = dl_sink d"
    "res = Inr () \<Longrightarrow> length (dl_outstanding d') = dl_depth d' \<or> \<not> more_to_issue d'"
  using fill_loop_keeps [OF assms(1-3) assms(4) [unfolded fill_window_def]]
  by (auto simp: download_ok_def)

end

section \<open>Replies keep the books\<close>

text \<open>The request answered leaves the table, its range joins one of the other columns.\<close>

lemma pop_outstanding:
  assumes "download_ok d" "dict_get (dl_outstanding d) i = Some r"
  shows "hits (map snd (dl_outstanding d)) p = (if covers r p then 1 else 0) + hits (map snd (dict_pop (dl_outstanding d) i)) p"
    and "total_length (map snd (dl_outstanding d)) = rg_length r + total_length (map snd (dict_pop (dl_outstanding d) i))"
    and "set (map snd (dict_pop (dl_outstanding d) i)) \<subseteq> set (map snd (dl_outstanding d))"
    and "length (dict_pop (dl_outstanding d) i) \<le> length (dl_outstanding d)" and "1 \<le> rg_length r"
proof -
  have wf: "dict_wf (dl_outstanding d)" using assms(1) by (simp add: download_ok_def)
  obtain xs ys where split: "dl_outstanding d = xs @ (i, r) # ys" "dict_pop (dl_outstanding d) i = xs @ ys"
    using dict_pop_split [OF wf assms(2)] .
  show "hits (map snd (dl_outstanding d)) p = (if covers r p then 1 else 0) + hits (map snd (dict_pop (dl_outstanding d) i)) p"
    "total_length (map snd (dl_outstanding d)) = rg_length r + total_length (map snd (dict_pop (dl_outstanding d) i))"
    "set (map snd (dict_pop (dl_outstanding d) i)) \<subseteq> set (map snd (dl_outstanding d))"
    "length (dict_pop (dl_outstanding d) i) \<le> length (dl_outstanding d)"
    unfolding split(2) unfolding split(1) by auto
  show "1 \<le> rg_length r" using assms(1) unfolding download_ok_def split(1) by auto
qed

text \<open>A range in flight lies inside the span.\<close>

lemma outstanding_in_span:
  assumes "download_ok d" "books f W L d" "dict_get (dl_outstanding d) i = Some r"
  shows "sp_start (dl_span d) \<le> rg_offset r" "rg_offset r + rg_length r \<le> dl_next_offset d"
proof -
  note pop = pop_outstanding [OF assms(1,3)]
  have "sp_start (dl_span d) \<le> p \<and> p < dl_next_offset d" if "covers r p" for p
    using books_count [OF assms(2), of p] pop(1) [of p] that by (auto split: if_splits)
  moreover have "covers r (rg_offset r)" "covers r (rg_offset r + rg_length r - 1)"
    using pop(5) unfolding covers_def by linarith+
  ultimately have "sp_start (dl_span d) \<le> rg_offset r" "rg_offset r + rg_length r - 1 < dl_next_offset d"
    by blast+
  with pop(5) show "sp_start (dl_span d) \<le> rg_offset r" "rg_offset r + rg_length r \<le> dl_next_offset d"
    by linarith+
qed

text \<open>The part of a range a payload covers, and the rest.\<close>

definition head_range :: "range \<Rightarrow> nat \<Rightarrow> range" where
  "head_range r n = r\<lparr>rg_length := n\<rparr>"

definition tail_ranges :: "range \<Rightarrow> nat \<Rightarrow> range list" where
  "tail_ranges r n = (if n < rg_length r
     then [\<lparr>rg_offset = rg_offset r + n, rg_length = rg_length r - n\<rparr>] else [])"

lemma split_range:
  assumes "n \<le> rg_length r"
  shows "(if covers r p then 1 else 0) = hits [head_range r n] p + hits (tail_ranges r n) p"
    and "rg_length r = n + total_length (tail_ranges r n)"
    and "\<forall>t \<in> set (tail_ranges r n). 1 \<le> rg_length t"
  using assms by (auto simp: head_range_def tail_ranges_def covers_def)

lemma hits_head: "hits [head_range r n] p = (if rg_offset r \<le> p \<and> p < rg_offset r + n then 1 else 0)"
  by (simp add: head_range_def covers_def)

lemma handle_data_keeps:
  assumes ok: "download_ok d" and books: "books f W L d" and get: "dict_get (dl_outstanding d) i = Some r"
    and run: "handle_data r payload i (d\<lparr>dl_outstanding := dict_pop (dl_outstanding d) i\<rparr>) = (Inr (), d')"
  shows "download_ok d'" "books f (head_range r (length payload) # W) L d'" "same_run d d'"
    "sp_end (dl_span d) \<noteq> None \<Longrightarrow> work d' < work d"
    "sink_at (dl_sink d') p = place (rg_offset r) payload (sink_at (dl_sink d)) p"
proof -
  note pop = pop_outstanding [OF ok get] and span = outstanding_in_span [OF ok books get]
  have len: "length payload \<le> rg_length r" and zero: "payload = [] \<Longrightarrow> \<not> dl_seen_zero d"
    using run by (auto simp: handle_data_def split: if_splits)
  have room: "sink_room (dl_sink d) (sp_start (dl_span d)) (dl_next_offset d)"
    using ok by (simp add: download_ok_def)
  then have "sink_room (dl_sink d) (rg_offset r) (rg_offset r + length payload)"
    by (rule sink_room_mono) (use span len in simp_all)
  then obtain s where s: "write_at (dl_sink d) (rg_offset r) payload = Inr s"
      "\<And>p. sink_at s p = place (rg_offset r) payload (sink_at (dl_sink d)) p"
      "\<And>lo hi. sink_room s lo hi = sink_room (dl_sink d) lo hi" by (rule write_at_place) blast
  have d': "d' = d\<lparr>dl_outstanding := dict_pop (dl_outstanding d) i, dl_sink := s,
      dl_written := dl_written d + length payload, dl_seen_zero := dl_seen_zero d \<or> payload = [],
      dl_backlog := dl_backlog d @ tail_ranges r (length payload)\<rparr>"
    using run s(1) len by (cases d) (auto simp: handle_data_def tail_ranges_def Let_def split: if_splits)
  note split = split_range [OF len]
  have "\<forall>t \<in> set (map snd (dict_pop (dl_outstanding d) i)). 1 \<le> rg_length t"
    using ok pop(3) unfolding download_ok_def by blast
  then show "download_ok d'"
    using ok pop(4) split(3) s(3) unfolding d' download_ok_def by auto
  have "hits (head_range r (length payload) # W) p + hits (dl_backlog d @ tail_ranges r (length payload)) p +
      hits (map snd (dict_pop (dl_outstanding d) i)) p + hits L p =
      (if sp_start (dl_span d) \<le> p \<and> p < dl_next_offset d then 1 else 0)" for p
    using books_count [OF books, of p] pop(1) [of p] split(1) [of p] by simp
  moreover have "hits (head_range r (length payload) # W) p = 0 \<Longrightarrow> sink_at s p = f p" for p
    using books hits_head [of r "length payload" p] by (auto simp: s(2) place_def books_def split: if_splits)
  moreover have "rg_length (head_range r (length payload)) = length payload" by (simp add: head_range_def)
  ultimately show "books f (head_range r (length payload) # W) L d'"
    using books unfolding d' books_def by simp
  show "same_run d d'" by (simp add: d' same_run_def)
  show "sink_at (dl_sink d') p = place (rg_offset r) payload (sink_at (dl_sink d)) p" by (simp add: d' s(2))
  show "work d' < work d"
    using split(2) pop(2) zero unfolding d' work_def by (cases payload) (simp_all split: option.splits)
qed

lemma handle_status_keeps:
  assumes ok: "download_ok d" and books: "books f W L d" and get: "dict_get (dl_outstanding d) i = Some r"
    and run: "handle_status r code msg (d\<lparr>dl_outstanding := dict_pop (dl_outstanding d) i\<rparr>) = (Inr (), d')"
  shows "download_ok d'" "books f W (r # L) d'" "same_run d d'"
    "sp_end (dl_span d) \<noteq> None \<Longrightarrow> work d' < work d" "code = FX_EOF" "dl_sink d' = dl_sink d"
proof -
  note pop = pop_outstanding [OF ok get]
  show code: "code = FX_EOF" using run by (auto simp: handle_status_def split: if_splits)
  obtain x where d': "d' = d\<lparr>dl_outstanding := dict_pop (dl_outstanding d) i, dl_eof_at := Some x\<rparr>"
    using run code by (auto simp: handle_status_def Let_def)
  show "download_ok d'" using ok pop(3,4) unfolding d' download_ok_def by auto
  have "hits W p + hits (dl_backlog d) p + hits (map snd (dict_pop (dl_outstanding d) i)) p + hits (r # L) p =
      (if sp_start (dl_span d) \<le> p \<and> p < dl_next_offset d then 1 else 0)" for p
    using books_count [OF books, of p] pop(1) [of p] by simp
  then show "books f W (r # L) d'" using books pop(5) unfolding d' books_def by simp
  show "same_run d d'" "dl_sink d' = dl_sink d" by (simp_all add: d' same_run_def)
  show "work d' < work d" using pop(2,5) unfolding d' work_def by (simp split: option.splits)
qed

section \<open>The run\<close>

lemma dispatch_cases:
  assumes "dispatch req resp d = (Inr (), d')"
  obtains i h off n r where "req = Read i h off n" "dict_get (dl_outstanding d) i = Some r"
    and "(\<exists>j payload. resp = Data j payload \<and>
           handle_data r payload i (d\<lparr>dl_outstanding := dict_pop (dl_outstanding d) i\<rparr>) = (Inr (), d')) \<or>
         (\<exists>j code msg lang raw. resp = Status j code msg lang raw \<and>
           handle_status r code msg (d\<lparr>dl_outstanding := dict_pop (dl_outstanding d) i\<rparr>) = (Inr (), d'))"
proof -
  obtain i h off n where req: "req = Read i h off n"
    using assms by (cases req) (auto simp: dispatch_def)
  then obtain r where r: "dict_get (dl_outstanding d) i = Some r"
    using assms by (auto simp: dispatch_def split: option.splits)
  show thesis
    using that [OF req r] assms req r by (cases resp) (auto simp: dispatch_def Let_def)
qed

lemma report_progress_keeps [simp]:
  "download_ok (report_progress d) = download_ok d" "books f W L (report_progress d) = books f W L d"
  "same_run d (report_progress d)" "work (report_progress d) = work d"
  "dl_sink (report_progress d) = dl_sink d" "dl_written (report_progress d) = dl_written d"
  "dl_span (report_progress d) = dl_span d" "dl_depth (report_progress d) = dl_depth d"
  "dl_outstanding (report_progress d) = dl_outstanding d" "dl_eof_at (report_progress d) = dl_eof_at d"
  by (simp_all add: report_progress_def download_ok_def books_def same_run_def work_def split: option.splits)

text \<open>
  A server that holds the file \<open>F\<close>: every DATA is a prefix of the file from the offset of
  the request it answers, and end of file is said only at or past the end. Short, empty
  and out-of-order replies are all allowed.
\<close>

fun honest_reply :: "bytes \<Rightarrow> downloader \<Rightarrow> arrival \<Rightarrow> bool" where
  "honest_reply F d (Arrived (Read i h off n) (Data j payload)) =
     (case dict_get (dl_outstanding d) i of
        None \<Rightarrow> True
      | Some r \<Rightarrow> payload = take (length payload) (drop (rg_offset r) F))"
| "honest_reply F d (Arrived (Read i h off n) (Status j code msg lang raw)) =
     (case dict_get (dl_outstanding d) i of
        None \<Rightarrow> True
      | Some r \<Rightarrow> code = FX_EOF \<longrightarrow> length F \<le> rg_offset r)"
| "honest_reply F d a = True"

text \<open>The same of every reply of a run, judged when it is handled.\<close>

fun honest_run :: "bytes \<Rightarrow> allocator \<Rightarrow> sender \<Rightarrow> arrival list \<Rightarrow> downloader \<Rightarrow> bool" where
  "honest_run F alloc transmit [] d = True"
| "honest_run F alloc transmit (a # rest) d =
     (let d1 = snd (fill_window alloc transmit d) in
      honest_reply F d1 a \<and>
      (case a of
         Arrived req resp \<Rightarrow> honest_run F alloc transmit rest (report_progress (snd (dispatch req resp d1)))
       | _ \<Rightarrow> honest_run F alloc transmit rest d1))"

text \<open>The content of what was written, and where end of file was said.\<close>

definition faithful :: "bytes \<Rightarrow> range list \<Rightarrow> range list \<Rightarrow> downloader \<Rightarrow> bool" where
  "faithful F W L d \<longleftrightarrow>
     (\<forall>p. 0 < hits W p \<longrightarrow> p < length F \<and> sink_at (dl_sink d) p = Some (F ! p)) \<and>
     (\<forall>r \<in> set L. length F \<le> rg_offset r)"

lemma faithful_data:
  assumes "faithful F W L d" "payload = take (length payload) (drop (rg_offset r) F)"
    and "\<And>p. sink_at (dl_sink d') p = place (rg_offset r) payload (sink_at (dl_sink d)) p"
  shows "faithful F (head_range r (length payload) # W) L d'"
proof -
  have len: "length payload \<le> length F - rg_offset r"
    using arg_cong [OF assms(2), of length] by simp
  have byte: "payload ! k = F ! (rg_offset r + k)" if "k < length payload" for k
  proof -
    have "payload ! k = take (length payload) (drop (rg_offset r) F) ! k" using assms(2) by simp
    also have "\<dots> = F ! (rg_offset r + k)" using that len by simp
    finally show ?thesis .
  qed
  have "p < length F \<and> sink_at (dl_sink d') p = Some (F ! p)"
    if "0 < hits (head_range r (length payload) # W) p" for p
  proof (cases "rg_offset r \<le> p \<and> p < rg_offset r + length payload")
    case True
    then obtain k where "p = rg_offset r + k" "k < length payload"
      by (metis add_less_cancel_left le_Suc_ex)
    then show ?thesis using len byte [of k] by (simp add: assms(3) place_def)
  next
    case False
    then have "0 < hits W p" using that hits_head [of r "length payload" p] by (auto split: if_splits)
    then show ?thesis using False assms(1) by (auto simp: assms(3) place_def faithful_def)
  qed
  then show ?thesis using assms(1) by (simp add: faithful_def)
qed

lemma dispatch_error_sink:
  assumes "dispatch req resp d = (Inl e, d')" shows "dl_sink d' = dl_sink d \<and> dl_span d' = dl_span d"
  using assms
  by (auto simp: dispatch_def handle_data_def handle_status_def Let_def
      split: packet.splits option.splits if_splits sum.splits)

text \<open>One reply, handled without an exception.\<close>

lemma dispatch_keeps:
  assumes "download_ok d" "books f W L d" "dispatch req resp d = (Inr (), d')"
  obtains W' L' where "download_ok d'" "books f W' L' d'" "same_run d d'"
    "sp_end (dl_span d) \<noteq> None \<Longrightarrow> work d' < work d"
    "\<And>F. faithful F W L d \<Longrightarrow> honest_reply F d (Arrived req resp) \<Longrightarrow> faithful F W' L' d'"
proof -
  obtain i h off n r where req: "req = Read i h off n" and get: "dict_get (dl_outstanding d) i = Some r"
    and cases: "(\<exists>j payload. resp = Data j payload \<and>
           handle_data r payload i (d\<lparr>dl_outstanding := dict_pop (dl_outstanding d) i\<rparr>) = (Inr (), d')) \<or>
         (\<exists>j code msg lang raw. resp = Status j code msg lang raw \<and>
           handle_status r code msg (d\<lparr>dl_outstanding := dict_pop (dl_outstanding d) i\<rparr>) = (Inr (), d'))"
    using dispatch_cases [OF assms(3)] .
  from cases show thesis
  proof (elim disjE exE conjE, goal_cases)
    case (1 j payload)
    note k = handle_data_keeps [OF assms(1,2) get 1(2)]
    have "faithful F (head_range r (length payload) # W) L d'"
      if "faithful F W L d" "honest_reply F d (Arrived req resp)" for F
      by (rule faithful_data [OF that(1) _ k(5)]) (use that(2) get in \<open>simp add: req 1(1)\<close>)
    then show ?thesis using that k(1-4) by blast
  next
    case (2 j code msg lang raw)
    note k = handle_status_keeps [OF assms(1,2) get 2(2)]
    have "faithful F W (r # L) d'" if "faithful F W L d" "honest_reply F d (Arrived req resp)" for F
      using that get k(5,6) by (simp add: faithful_def req 2(1))
    then show ?thesis using that k(1-4) by blast
  qed
qed

fun is_reply :: "arrival \<Rightarrow> bool" where
  "is_reply (Arrived _ _) = True"
| "is_reply _ = False"

text \<open>Positions outside the span of a run.\<close>

definition outside :: "span \<Rightarrow> nat \<Rightarrow> bool" where
  "outside sp p \<longleftrightarrow> p < sp_start sp \<or> (\<exists>e. sp_end sp = Some e \<and> e \<le> p)"

lemma books_outside:
  assumes "download_ok d" "books f W L d" "outside (dl_span d) p"
  shows "sink_at (dl_sink d) p = f p"
proof -
  have "\<not> (sp_start (dl_span d) \<le> p \<and> p < dl_next_offset d)"
    using assms(1,3) by (auto simp: outside_def download_ok_def)
  then have "hits W p = 0" using books_count [OF assms(2), of p] by (simp split: if_splits)
  then show ?thesis using assms(2) by (simp add: books_def)
qed

lemma finished_work:
  assumes "download_ok d" "work d = 0" shows "dl_outstanding d = []"
proof (rule ccontr)
  assume "dl_outstanding d \<noteq> []"
  then obtain x xs where x: "dl_outstanding d = x # xs" by (cases "dl_outstanding d") auto
  then have "1 \<le> rg_length (snd x)" using assms(1) by (auto simp: download_ok_def)
  with assms(2) x show False by (simp add: work_def)
qed

text \<open>The books at the end, faithful to every file the premise \<open>P\<close> holds of.\<close>

definition settled :: "(nat \<Rightarrow> byte option) \<Rightarrow> (bytes \<Rightarrow> bool) \<Rightarrow> downloader \<Rightarrow> bool" where
  "settled f P d \<longleftrightarrow> (\<exists>W L. books f W L d \<and> (\<forall>F. P F \<longrightarrow> faithful F W L d))"

lemma settledI: "books f W L d \<Longrightarrow> (\<And>F. P F \<Longrightarrow> faithful F W L d) \<Longrightarrow> settled f P d"
  unfolding settled_def by blast

lemma settled_mono: "settled f P d \<Longrightarrow> (\<And>F. Q F \<Longrightarrow> P F) \<Longrightarrow> settled f Q d"
  unfolding settled_def by blast

context download_ids
begin

text \<open>
  The whole run: what a finished run has done, how many replies a run that still waits can
  have had, and what no run touches.
\<close>

lemma run_loop_spec:
  assumes "download_ok d" "dl_depth d \<le> capacity" "books f W L d"
    and "run_loop alloc transmit arrivals d = (res, d')"
  shows "(\<forall>n. res = Finished n \<longrightarrow> n = dl_written d' \<and> download_ok d' \<and> dl_outstanding d' = [] \<and>
      \<not> more_to_issue d' \<and>
      settled f (\<lambda>F. faithful F W L d \<and> honest_run F alloc transmit arrivals d) d') \<and>
    (res = Waiting \<longrightarrow> sp_end (dl_span d) \<noteq> None \<longrightarrow> length (filter is_reply arrivals) < work d) \<and>
    (\<forall>p. outside (dl_span d) p \<longrightarrow> sink_at (dl_sink d') p = f p) \<and> dl_span d' = dl_span d"
  using assms
proof (induction arrivals arbitrary: d W L)
  case Nil
  obtain r d1 where fill: "fill_window alloc transmit d = (r, d1)" by fastforce
  note k = fill_window_keeps [OF Nil.prems(1-3) fill]
  have span: "dl_span d1 = dl_span d" using k(3) by (simp add: same_run_def)
  have "faithful F W L d1" if "faithful F W L d" for F using that k(6) by (simp add: faithful_def)
  moreover have "work d1 \<noteq> 0" if "dl_outstanding d1 \<noteq> []" using finished_work [OF k(1)] that by blast
  moreover have "dl_depth d1 = dl_depth d" "1 \<le> dl_depth d"
    using k(3) Nil.prems(1) by (simp_all add: same_run_def download_ok_def)
  ultimately show ?case
    using Nil.prems(4) fill k span books_outside [OF k(1,2)]
    by (subst (asm) run_loop.simps) (auto split: sum.splits if_splits intro: settledI)
next
  case (Cons a rest)
  obtain r d1 where fill: "fill_window alloc transmit d = (r, d1)" by fastforce
  note k = fill_window_keeps [OF Cons.prems(1-3) fill]
  have same: "dl_span d1 = dl_span d" "dl_depth d1 = dl_depth d" "1 \<le> dl_depth d"
    using k(3) Cons.prems(1) by (simp_all add: same_run_def download_ok_def)
  have faith: "faithful F W L d1" if "faithful F W L d" for F using that k(6) by (simp add: faithful_def)
  show ?case
  proof (cases "(\<exists>e. r = Inl e) \<or> dl_outstanding d1 = []")
    case True
    then have "(res, d') = (case r of Inl e \<Rightarrow> (Raised e, d1) | Inr _ \<Rightarrow> (Finished (dl_written d1), d1))"
      using Cons.prems(4) fill by (subst (asm) run_loop.simps) (auto split: sum.splits)
    then show ?thesis
      using True k same faith books_outside [OF k(1,2)] by (auto split: sum.splits intro: settledI)
  next
    case False
    then obtain u where u: "r = Inr u" and busy: "dl_outstanding d1 \<noteq> []" by (cases r) auto
    show ?thesis
    proof (cases "next_reply a d1")
      case (Inl e)
      then have "res = Raised e" "d' = d1"
        using Cons.prems(4) fill u busy by (subst (asm) run_loop.simps, simp)+
      then show ?thesis using same books_outside [OF k(1,2)] by simp
    next
      case (Inr o')
      show ?thesis
      proof (cases o')
        case None
        with Inr have a: "a = Silence" by (cases a) (auto simp: next_reply_def)
        have rec: "run_loop alloc transmit rest d1 = (res, d')"
          using Cons.prems(4) fill u busy Inr None by (subst (asm) run_loop.simps) simp
        have mono: "settled f (\<lambda>F. faithful F W L d1 \<and> honest_run F alloc transmit rest d1) d' \<Longrightarrow>
            settled f (\<lambda>F. faithful F W L d \<and> honest_run F alloc transmit (a # rest) d) d'"
          by (erule settled_mono) (use faith in \<open>simp add: a fill\<close>)
        have count: "length (filter is_reply (a # rest)) = length (filter is_reply rest)"
          by (simp add: a)
        from Cons.IH [OF k(1) _ k(2) rec] Cons.prems(2) same k(4) mono
        show ?thesis unfolding count by auto
      next
        case (Some rr)
        with Inr obtain req resp where a: "a = Arrived req resp" "o' = Some (req, resp)"
          by (cases a) (auto simp: next_reply_def split: option.splits)
        obtain q d2 where disp: "dispatch req resp d1 = (q, d2)" by fastforce
        show ?thesis
        proof (cases q)
          case (Inl e)
          then have "res = Raised e" "d' = d2"
            using Cons.prems(4) fill u busy Inr a disp \<open>next_reply a d1 = Inr o'\<close>
            by (subst (asm) run_loop.simps, simp)+
          moreover have "dl_sink d2 = dl_sink d1 \<and> dl_span d2 = dl_span d1"
            using dispatch_error_sink disp Inl by blast
          ultimately show ?thesis using same books_outside [OF k(1,2)] by simp
        next
          case (Inr v)
          then have disp': "dispatch req resp d1 = (Inr (), d2)" using disp by simp
          have rec: "run_loop alloc transmit rest (report_progress d2) = (res, d')"
            using Cons.prems(4) fill u busy \<open>next_reply a d1 = Inr o'\<close> a disp'
            by (subst (asm) run_loop.simps) simp
          obtain W' L' where k2: "download_ok d2" "books f W' L' d2" "same_run d1 d2"
            "sp_end (dl_span d1) \<noteq> None \<Longrightarrow> work d2 < work d1"
            "\<And>F. faithful F W L d1 \<Longrightarrow> honest_reply F d1 (Arrived req resp) \<Longrightarrow> faithful F W' L' d2"
            using dispatch_keeps [OF k(1,2) disp'] by blast
          have span2: "dl_span d2 = dl_span d" "dl_depth d2 = dl_depth d"
            using k2(3) same by (simp_all add: same_run_def)
          have faith2: "faithful F W' L' (report_progress d2)"
            if "faithful F W L d" "honest_run F alloc transmit (a # rest) d" for F
            using k2(5) [OF faith [OF that(1)]] that(2) by (simp add: a fill faithful_def)
          have rest: "honest_run F alloc transmit rest (report_progress d2)"
            if "honest_run F alloc transmit (a # rest) d" for F
            using that by (simp add: a fill disp')
          note IH = Cons.IH [of "report_progress d2" W' L', simplified, OF k2(1) _ k2(2) rec]
          have less: "work d2 < work d" if "sp_end (dl_span d) \<noteq> None" using that k2(4) k(4) same by simp
          have mono: "settled f (\<lambda>F. faithful F W' L' (report_progress d2) \<and>
              honest_run F alloc transmit rest (report_progress d2)) d' \<Longrightarrow>
            settled f (\<lambda>F. faithful F W L d \<and> honest_run F alloc transmit (a # rest) d) d'"
            by (erule settled_mono) (use faith2 rest in blast)
          have count: "length (filter is_reply (a # rest)) = Suc (length (filter is_reply rest))"
            by (simp add: a(1))
          from IH span2 Cons.prems(2) mono less show ?thesis unfolding count by auto
        qed
      qed
    qed
  qed
qed

end

interpretation codec_download: download_ids "codec_alloc shared" "nat MAX_REQUEST_ID" for shared :: "nat \<Rightarrow> int \<times> int list"
  by unfold_locales

end
