(* ===== verification/DownloadProps.thy ===== *)
theory DownloadProps
  imports DownloadLaws
begin

text \<open>
  The properties of the pipelined download, over the codec's own id allocation and for every
  behaviour of the server, the connection and the operating system.
\<close>

section \<open>Starting a run\<close>

text \<open>What the entry points check before a run starts, and what its sink has room for.\<close>

definition valid_start :: "sink \<Rightarrow> span \<Rightarrow> schedule \<Rightarrow> bool" where
  "valid_start sink sp sc \<longleftrightarrow>
     1 \<le> sc_depth sc \<and> int (sc_depth sc) \<le> MAX_REQUEST_ID \<and> 1 \<le> sc_request_length sc \<and>
     (case sp_end sp of
        None \<Rightarrow> (case sink of DescriptorSink _ \<Rightarrow> True | BufferSink _ _ \<Rightarrow> False)
      | Some e \<Rightarrow> sp_start sp \<le> e \<and> sink_room sink (sp_start sp) e)"

lemma valid_start_ok:
  assumes "valid_start sink sp sc"
  shows "download_ok (downloader_init h sink sp sc path)"
    "books (sink_at sink) [] [] (downloader_init h sink sp sc path)"
    "dl_depth (downloader_init h sink sp sc path) \<le> nat MAX_REQUEST_ID"
    "faithful F [] [] (downloader_init h sink sp sc path)"
proof -
  have "sink_room sink (sp_start sp) n" if "\<forall>e. sp_end sp = Some e \<longrightarrow> n \<le> e" for n
    using assms that by (cases sink) (auto simp: valid_start_def split: option.splits)
  then show "download_ok (downloader_init h sink sp sc path)"
    using assms by (auto simp: valid_start_def download_ok_def downloader_init_def split: option.splits)
qed (use assms in \<open>auto simp: books_def downloader_init_def faithful_def valid_start_def\<close>)

text \<open>The end of a run: the file's end, or where the span ends if that is earlier.\<close>

definition run_end :: "bytes \<Rightarrow> span \<Rightarrow> nat" where
  "run_end F sp = (case sp_end sp of None \<Rightarrow> length F | Some e \<Rightarrow> min e (length F))"

lemma finished_books:
  assumes "download_ok d" "books f W L d" "faithful F W L d" "dl_outstanding d = []" "\<not> more_to_issue d"
  shows "hits W p = (if sp_start (dl_span d) \<le> p \<and> p < run_end F (dl_span d) then 1 else 0)"
proof -
  have queue: "dl_backlog d = []" and stop: "dl_eof_at d \<noteq> None \<or>
      (\<exists>e. sp_end (dl_span d) = Some e \<and> e \<le> dl_next_offset d)"
    using assms(5) by (auto simp: more_to_issue_def split: if_splits option.splits)
  have count: "hits W q + hits L q = (if sp_start (dl_span d) \<le> q \<and> q < dl_next_offset d then 1 else 0)" for q
    using books_count [OF assms(2), of q] assms(4) queue by simp
  have lost: "length F \<le> q" if "0 < hits L q" for q
    using that assms(3) by (auto simp: hits_pos faithful_def covers_def)
  have reach: "q < dl_next_offset d" if "q < run_end F (dl_span d)" for q
    using stop
  proof
    assume "dl_eof_at d \<noteq> None"
    then obtain r where r: "r \<in> set L" "1 \<le> rg_length r" "length F \<le> rg_offset r"
      using assms(2,3) by (cases L) (auto simp: books_def faithful_def)
    then have "0 < hits L (rg_offset r)" by (auto simp: hits_pos covers_def)
    then have "rg_offset r < dl_next_offset d" using count [of "rg_offset r"] by (simp split: if_splits)
    moreover have "q < length F" using that by (auto simp: run_end_def split: option.splits)
    ultimately show ?thesis using r(3) by simp
  next
    assume "\<exists>e. sp_end (dl_span d) = Some e \<and> e \<le> dl_next_offset d"
    then show ?thesis using that by (auto simp: run_end_def)
  qed
  show ?thesis
  proof (cases "sp_start (dl_span d) \<le> p \<and> p < run_end F (dl_span d)")
    case True
    then have "p < length F" by (auto simp: run_end_def split: option.splits)
    then have "hits L p = 0" using lost [of p] by (cases "hits L p") auto
    then show ?thesis using count [of p] reach True by simp
  next
    case False
    have "\<not> 0 < hits W p"
    proof
      assume pos: "0 < hits W p"
      then have "p < length F" using assms(3) by (simp add: faithful_def)
      moreover have "sp_start (dl_span d) \<le> p" "p < dl_next_offset d"
        using count [of p] pos by (auto split: if_splits)
      ultimately show False
        using False assms(1) by (auto simp: run_end_def download_ok_def split: option.splits)
    qed
    with False show ?thesis by simp
  qed
qed

lemma run_complete:
  assumes "valid_start sink sp sc"
    and "honest_run F (codec_alloc shared) transmit arrivals (report_progress (downloader_init h sink sp sc path))"
    and "run_download (codec_alloc shared) transmit arrivals (downloader_init h sink sp sc path) = (Finished n, d')"
  shows "n = run_end F sp - sp_start sp"
    "sink_at (dl_sink d') p = (if sp_start sp \<le> p \<and> p < run_end F sp then Some (F ! p) else sink_at sink p)"
proof -
  let ?d = "report_progress (downloader_init h sink sp sc path)"
  note ok = valid_start_ok [OF assms(1), where h = h and path = path]
  have "faithful F [] [] ?d" by (simp add: faithful_def)
  with codec_download.run_loop_spec [where shared = shared, of ?d "sink_at sink" "[]" "[]" transmit arrivals "Finished n" d']
    ok assms(2,3)
  obtain W L where n: "n = dl_written d'" "download_ok d'" "dl_outstanding d' = []" "\<not> more_to_issue d'"
      "books (sink_at sink) W L d'" "faithful F W L d'" "dl_span d' = sp"
    unfolding settled_def run_download_def by (auto simp: downloader_init_def)
  have hits: "hits W q = (if sp_start sp \<le> q \<and> q < run_end F sp then 1 else 0)" for q
    using finished_books [OF n(2,5,6,3,4)] n(7) by simp
  then have "hits W q = (if sp_start sp \<le> q \<and> q < max (sp_start sp) (run_end F sp) then 1 else 0)" for q
    by auto
  from total_of_hits [OF this] have "total_length W = run_end F sp - sp_start sp" by simp
  then show "n = run_end F sp - sp_start sp" using n(1,5) by (simp add: books_def)
  show "sink_at (dl_sink d') p = (if sp_start sp \<le> p \<and> p < run_end F sp then Some (F ! p) else sink_at sink p)"
    using hits [of p] n(5,6) by (auto simp: faithful_def books_def split: if_splits)
qed

section \<open>Properties\<close>

text \<open>
  C11. A finished download is the file: against a server that holds \<open>F\<close>, in whatever order
  it answers, however short its answers are and whatever request ids the rest of the session
  holds meanwhile, a run that returns has put every byte of the span at its own offset, touched
  nothing else, and returns the number of bytes it moved.
\<close>

theorem download_complete:
  assumes "valid_start sink sp sc"
    and "honest_run F (codec_alloc shared) transmit arrivals (report_progress (downloader_init h sink sp sc path))"
    and "run_download (codec_alloc shared) transmit arrivals (downloader_init h sink sp sc path) = (Finished n, d')"
  shows "n = run_end F sp - sp_start sp \<and>
    (\<forall>p. sink_at (dl_sink d') p = (if sp_start sp \<le> p \<and> p < run_end F sp then Some (F ! p) else sink_at sink p))"
  using run_complete [OF assms] by blast

definition sample_start :: downloader where
  "sample_start = downloader_init [7] (BufferSink [0, 0, 0] 0) \<lparr>sp_start = 0, sp_end = Some 3\<rparr>
     \<lparr>sc_request_length = 2, sc_depth = 2, sc_idle_timeout = None\<rparr> None"

definition sample_arrivals :: "arrival list" where
  "sample_arrivals = [Arrived (Read 2 [7] 2 1) (Data 2 [12]), Arrived (Read 1 [7] 0 2) (Data 1 [10]),
     Arrived (Read 3 [7] 1 1) (Data 3 [11])]"

lemma sample_run:
  "run_download (codec_alloc alone) (\<lambda>_. Inr ()) sample_arrivals sample_start
     = (Finished 3, snd (run_download (codec_alloc alone) (\<lambda>_. Inr ()) sample_arrivals sample_start))"
proof -
  have "fst (run_download (codec_alloc alone) (\<lambda>_. Inr ()) sample_arrivals sample_start) = Finished 3" by code_simp
  then show ?thesis by (metis prod.collapse)
qed

lemma download_complete_witness:
  "fst (run_download (codec_alloc alone) (\<lambda>_. Inr ()) sample_arrivals sample_start) = Finished 3 \<and>
   sink_at (dl_sink (snd (run_download (codec_alloc alone) (\<lambda>_. Inr ()) sample_arrivals sample_start))) 1 = Some 11"
proof -
  have honest: "honest_run [10, 11, 12] (codec_alloc alone) (\<lambda>_. Inr ()) sample_arrivals (report_progress sample_start)"
    by code_simp
  have valid: "valid_start (BufferSink [0, 0, 0] 0) \<lparr>sp_start = 0, sp_end = Some 3\<rparr>
      \<lparr>sc_request_length = 2, sc_depth = 2, sc_idle_timeout = None\<rparr>"
    by (simp add: valid_start_def MAX_REQUEST_ID_def)
  have all: "\<forall>p. sink_at (dl_sink (snd (run_download (codec_alloc alone) (\<lambda>_. Inr ()) sample_arrivals sample_start))) p
      = (if p < 3 then Some ([10, 11, 12] ! p) else sink_at (BufferSink [0, 0, 0] 0) p)"
    using download_complete [OF valid honest [unfolded sample_start_def] sample_run [unfolded sample_start_def]]
    unfolding sample_start_def by (simp add: run_end_def)
  have "sink_at (dl_sink (snd (run_download (codec_alloc alone) (\<lambda>_. Inr ()) sample_arrivals sample_start))) 1 = Some 11"
    using all by simp
  moreover have "fst (run_download (codec_alloc alone) (\<lambda>_. Inr ()) sample_arrivals sample_start) = Finished 3"
    by (metis fst_conv sample_run)
  ultimately show ?thesis by blast
qed

text \<open>
  C12. A download of known size returns: whatever the server answers, after at most one reply
  per byte of the span and one more (the tolerated empty DATA) the run has finished or
  raised. No server can keep it spinning.
\<close>

theorem download_terminates:
  assumes "valid_start sink sp sc" "sp_end sp = Some e"
    and "e - sp_start sp + 1 \<le> length (filter is_reply arrivals)"
  shows "fst (run_download (codec_alloc shared) transmit arrivals (downloader_init h sink sp sc path)) \<noteq> Waiting"
proof
  let ?d = "report_progress (downloader_init h sink sp sc path)"
  assume wait: "fst (run_download (codec_alloc shared) transmit arrivals (downloader_init h sink sp sc path)) = Waiting"
  note ok = valid_start_ok [OF assms(1), where h = h and path = path]
  obtain d' where "run_loop (codec_alloc shared) transmit arrivals ?d = (Waiting, d')"
    using wait by (metis prod.collapse run_download_def)
  with codec_download.run_loop_spec [where shared = shared, of ?d "sink_at sink" "[]" "[]" transmit arrivals Waiting d'] ok assms(2)
  have "length (filter is_reply arrivals) < work ?d" by (auto simp: downloader_init_def)
  moreover have "work ?d = e - sp_start sp + 1" using assms(2)
    unfolding report_progress_keeps by (simp add: work_def downloader_init_def)
  ultimately show False using assms(3) by simp
qed

lemma download_terminates_witness:
  "fst (run_download (codec_alloc alone) (\<lambda>_. Inr ()) (replicate 4 (Arrived (Read 1 [7] 0 2) (Data 1 []))) sample_start)
     \<noteq> Waiting"
  unfolding sample_start_def
  by (rule download_terminates [where e = 3]) (simp_all add: valid_start_def MAX_REQUEST_ID_def)

text \<open>
  C13. Confinement: whatever the server sends, and however the run ends, no byte outside the
  span is written.
\<close>

theorem download_confined:
  assumes "valid_start sink sp sc" "outside sp p"
  shows "sink_at (dl_sink (snd (run_download (codec_alloc shared) transmit arrivals (downloader_init h sink sp sc path)))) p
    = sink_at sink p"
proof -
  let ?d = "report_progress (downloader_init h sink sp sc path)"
  obtain res d' where run: "run_loop (codec_alloc shared) transmit arrivals ?d = (res, d')" by fastforce
  from codec_download.run_loop_spec [where shared = shared, of ?d "sink_at sink" "[]" "[]" transmit arrivals res d']
    valid_start_ok [OF assms(1), where h = h and path = path] run assms(2)
  show ?thesis by (simp add: run_download_def downloader_init_def)
qed

lemma download_confined_witness:
  "sink_at (dl_sink (snd (run_download (codec_alloc alone) (\<lambda>_. Inr ()) sample_arrivals sample_start))) 5
     = sink_at (BufferSink [0, 0, 0] 0) 5"
  unfolding sample_start_def
  by (rule download_confined) (simp_all add: valid_start_def MAX_REQUEST_ID_def outside_def)

text \<open>
  No silent truncation: a run of known size that returns without the server ever having
  said end of file has moved every byte of the span, whatever the server answered.
\<close>

theorem download_not_truncated:
  assumes "valid_start sink sp sc" "sp_end sp = Some e"
    and "run_download (codec_alloc shared) transmit arrivals (downloader_init h sink sp sc path) = (Finished n, d')"
    and "dl_eof_at d' = None"
  shows "n = e - sp_start sp"
proof -
  let ?d = "report_progress (downloader_init h sink sp sc path)"
  from codec_download.run_loop_spec [where shared = shared, of ?d "sink_at sink" "[]" "[]" transmit arrivals "Finished n" d']
    valid_start_ok [OF assms(1), where h = h and path = path] assms(3)
  obtain W L where d': "n = dl_written d'" "download_ok d'" "dl_outstanding d' = []" "\<not> more_to_issue d'"
      "books (sink_at sink) W L d'" "dl_span d' = sp"
    unfolding settled_def run_download_def by (auto simp: downloader_init_def)
  have "dl_backlog d' = []" "dl_next_offset d' = e" "L = []"
    using d'(2,4,5,6) assms(2,4)
    by (auto simp: more_to_issue_def download_ok_def books_def split: if_splits)
  then have "hits W p = (if sp_start sp \<le> p \<and> p < e then 1 else 0)" for p
    using books_count [OF d'(5), of p] d'(3,6) by simp
  moreover have "sp_start sp \<le> e" using assms(1,2) by (simp add: valid_start_def)
  ultimately have "total_length W = e - sp_start sp" by (rule total_of_hits)
  then show ?thesis using d'(1,5) by (simp add: books_def)
qed

lemma download_not_truncated_witness: "(3 :: nat) = 3 - sp_start \<lparr>sp_start = 0, sp_end = Some 3\<rparr>"
proof -
  have eof: "dl_eof_at (snd (run_download (codec_alloc alone) (\<lambda>_. Inr ()) sample_arrivals sample_start)) = None"
    by code_simp
  show ?thesis
    by (rule download_not_truncated [OF _ _ sample_run [unfolded sample_start_def] eof [unfolded sample_start_def]])
       (simp_all add: valid_start_def MAX_REQUEST_ID_def)
qed

text \<open>
  \<open>read_range_into\<close> fills the caller's buffer: what comes back is the file from the
  offset on, as much of it as there is, and the rest of the buffer is untouched.
\<close>

theorem read_range_fills:
  assumes "buffer \<noteq> []" "1 \<le> depth" "depth \<le> MAX_REQUEST_ID" "1 \<le> read_length" "0 \<le> offset"
    and "honest_run F (codec_alloc shared) transmit arrivals (report_progress (downloader_init h (BufferSink buffer (nat offset))
        \<lparr>sp_start = nat offset, sp_end = Some (nat offset + length buffer)\<rparr>
        \<lparr>sc_request_length = nat read_length, sc_depth = nat depth, sc_idle_timeout = idle\<rparr> path))"
    and "read_range_into (codec_alloc shared) transmit arrivals h buffer offset read_length depth idle path = (Finished n, s)"
  shows "n = min (length buffer) (length F - nat offset) \<and>
    (\<forall>k < length buffer. sink_at s (nat offset + k) =
       Some (if k < n then F ! (nat offset + k) else buffer ! k))"
proof -
  let ?sp = "\<lparr>sp_start = nat offset, sp_end = Some (nat offset + length buffer)\<rparr>"
  let ?sc = "\<lparr>sc_request_length = nat read_length, sc_depth = nat depth, sc_idle_timeout = idle\<rparr>"
  obtain d' where run: "run_download (codec_alloc shared) transmit arrivals
      (downloader_init h (BufferSink buffer (nat offset)) ?sp ?sc path) = (Finished n, d')" and s: "s = dl_sink d'"
    using assms(1-5,7) by (cases "run_download (codec_alloc shared) transmit arrivals
      (downloader_init h (BufferSink buffer (nat offset)) ?sp ?sc path)") (auto simp: read_range_into_def)
  have valid: "valid_start (BufferSink buffer (nat offset)) ?sp ?sc"
    using assms(2-4) by (simp add: valid_start_def Suc_le_eq)
  note c = run_complete [OF valid assms(6) run]
  have "n = min (length buffer) (length F - nat offset)" using c(1) unfolding run_end_def by simp linarith
  moreover have "sink_at s (nat offset + k) = Some (if k < n then F ! (nat offset + k) else buffer ! k)"
    if "k < length buffer" for k
    using c(2) [of "nat offset + k"] that c(1) by (auto simp: s run_end_def)
  ultimately show ?thesis by blast
qed

lemma read_range_fills_witness:
  "fst (read_range_into (codec_alloc alone) (\<lambda>_. Inr ()) sample_arrivals [7] [0, 0, 0] 0 2 2 None None) = Finished 3"
proof -
  let ?run = "read_range_into (codec_alloc alone) (\<lambda>_. Inr ()) sample_arrivals [7] [0, 0, 0] 0 2 2 None None"
  obtain n s where run: "?run = (Finished n, s)"
  proof -
    have "fst ?run = Finished 3" by code_simp
    then show thesis using that by (metis prod.collapse)
  qed
  have honest: "honest_run [10, 11, 12] (codec_alloc alone) (\<lambda>_. Inr ()) sample_arrivals (report_progress
      (downloader_init [7] (BufferSink [0, 0, 0] (nat 0))
        \<lparr>sp_start = nat 0, sp_end = Some (nat 0 + length [0, 0, 0 :: byte])\<rparr>
        \<lparr>sc_request_length = nat 2, sc_depth = nat 2, sc_idle_timeout = None\<rparr> None))"
    by code_simp
  from read_range_fills [OF _ _ _ _ _ honest run] have "n = 3" by (simp add: MAX_REQUEST_ID_def)
  with run show ?thesis by simp
qed

text \<open>
  Short writes lose nothing: as long as each \<open>pwrite\<close> takes at least one of the bytes
  offered and no more than all of them, the loop of \<open>DescriptorSink.write_at\<close> ends with the
  whole payload at its offset and every other byte of the file as it was.
\<close>

lemma descriptor_write_whole:
  assumes "\<And>bs pos. bs \<noteq> [] \<Longrightarrow> 1 \<le> pwrite bs pos \<and> pwrite bs pos \<le> length bs"
  shows "descriptor_write pwrite off payload 0 f = Some (place off payload f)"
proof -
  have "descriptor_write pwrite off payload 0 (place off (take 0 payload) f) = Some (place off payload f)"
    by (rule descriptor_write_from) (use assms in auto)
  moreover have "place off [] f = f" by (rule ext) (auto simp: place_def)
  ultimately show ?thesis by simp
qed

lemma descriptor_write_whole_witness:
  "descriptor_write (\<lambda>bs pos. 1) 4 [1, 2, 3] 0 (\<lambda>_. None) = Some (place 4 [1, 2, 3] (\<lambda>_. None))"
  by (rule descriptor_write_whole) (simp add: Suc_le_eq)

text \<open>
  The window: filling it never puts more than \<open>depth\<close> requests in flight, and stops
  short of \<open>depth\<close> only when there is nothing left to ask for.
\<close>

lemma fill_window_full:
  assumes "download_ok d" "int (dl_depth d) \<le> MAX_REQUEST_ID" "books f W L d"
    and "fill_window (codec_alloc shared) transmit d = (Inr (), d')"
  shows "length (dl_outstanding d') \<le> dl_depth d \<and>
    (length (dl_outstanding d') = dl_depth d \<or> \<not> more_to_issue d')"
proof -
  have "dl_depth d \<le> nat MAX_REQUEST_ID" using assms(2) by simp
  from codec_download.fill_window_keeps [where shared = shared, OF assms(1) this assms(3,4)]
  show ?thesis by (auto simp: download_ok_def same_run_def)
qed

lemma fill_window_full_witness:
  "length (dl_outstanding (snd (fill_window (codec_alloc alone) (\<lambda>_. Inr ()) sample_start))) \<le> 2"
proof -
  have valid: "valid_start (BufferSink [0, 0, 0] 0) \<lparr>sp_start = 0, sp_end = Some 3\<rparr>
      \<lparr>sc_request_length = 2, sc_depth = 2, sc_idle_timeout = None\<rparr>"
    by (simp add: valid_start_def MAX_REQUEST_ID_def)
  have fill: "fill_window (codec_alloc alone) (\<lambda>_. Inr ()) sample_start
      = (Inr (), snd (fill_window (codec_alloc alone) (\<lambda>_. Inr ()) sample_start))"
  proof -
    have "fst (fill_window (codec_alloc alone) (\<lambda>_. Inr ()) sample_start) = Inr ()" by code_simp
    then show ?thesis by (metis prod.collapse)
  qed
  note ok = valid_start_ok [OF valid, where h = "[7]" and path = None, folded sample_start_def]
  have "int (dl_depth sample_start) \<le> MAX_REQUEST_ID" by (simp add: sample_start_def downloader_init_def MAX_REQUEST_ID_def)
  from fill_window_full [OF ok(1) this ok(2) fill] show ?thesis by (simp add: sample_start_def downloader_init_def)
qed

end
