(* ===== verification/Upload.thy ===== *)
theory Upload
  imports DownloadLaws
begin

text \<open>
  The pipelined upload of \<open>session/_upload.py\<close>. Sender and receiver are two tasks that
  interleave at their awaits, so the state has a program counter for the sender and
  \<open>up_step\<close> takes the scheduler's choice as an input: the sender runs to its next await, a
  reply arrives, the idle timeout passes, or the connection fails. A run is any sequence
  of inputs; \<open>reachable\<close> is the set of states such sequences lead to.

  \<open>up_sent\<close> and \<open>up_progress\<close> log the requests handed to the exchange and the calls of the
  progress callback.
\<close>

section \<open>Sources\<close>

datatype source =
    DescriptorSource "nat \<Rightarrow> nat \<Rightarrow> bytes"
  | BufferSource bytes nat

text \<open>\<open>os.pread\<close> is the descriptor's argument; a buffer answers with a slice.\<close>

definition read_at :: "source \<Rightarrow> nat \<Rightarrow> nat \<Rightarrow> bytes" where
  "read_at s off n =
     (case s of
        DescriptorSource pread \<Rightarrow> pread n off
      | BufferSource view base \<Rightarrow>
          (let start = int off - int base; lo = slice_index (length view) start;
               hi = slice_index (length view) (start + int n) in take (hi - lo) (drop lo view)))"

section \<open>State\<close>

datatype sender_pc = Reading | Acquiring bytes | Sending bytes | AllSent

record uploader =
  up_handle :: bytes
  up_source :: source
  up_start :: nat
  up_end :: nat
  up_write_length :: nat
  up_depth :: nat
  up_idle_timeout :: "nat option"
  up_remote_path :: "bytes option"
  up_permits :: nat
  up_outstanding :: "(int, range) dict"
  up_acknowledged :: nat
  up_all_sent :: bool
  up_finished :: bool
  up_pc :: sender_pc
  up_offset :: nat
  up_issued :: nat
  up_sent :: "packet list"
  up_progress :: "(nat \<times> nat) list"
  up_result :: run_result

datatype up_input =
    SenderRuns
  | SendFails exn
  | ReplyArrives packet packet
  | NoReply
  | ReplyBroken exn

definition uploader_init ::
    "bytes \<Rightarrow> source \<Rightarrow> span \<Rightarrow> schedule \<Rightarrow> bytes option \<Rightarrow> exn + uploader" where
  "uploader_init fhandle source sp sc path =
     (case sp_end sp of
        None \<Rightarrow> Inl (ValueErr (Msg ''an upload span must have an end'' []))
      | Some e \<Rightarrow> Inr \<lparr>up_handle = fhandle, up_source = source, up_start = sp_start sp, up_end = e,
          up_write_length = sc_request_length sc, up_depth = sc_depth sc,
          up_idle_timeout = sc_idle_timeout sc, up_remote_path = path, up_permits = sc_depth sc,
          up_outstanding = [], up_acknowledged = 0, up_all_sent = False, up_finished = False,
          up_pc = Reading, up_offset = sp_start sp, up_issued = 0, up_sent = [], up_progress = [],
          up_result = Waiting\<rparr>)"

definition settle :: "uploader \<Rightarrow> uploader" where
  "settle u = (if up_all_sent u \<and> up_outstanding u = [] then u\<lparr>up_finished := True\<rparr> else u)"

definition up_raise :: "exn \<Rightarrow> uploader \<Rightarrow> uploader" where
  "up_raise e u = u\<lparr>up_result := Raised (fst (flatten_exception_group e))\<rparr>"

definition up_report :: "uploader \<Rightarrow> uploader" where
  "up_report u = u\<lparr>up_progress := up_progress u @ [(up_start u + up_acknowledged u, up_end u)]\<rparr>"

section \<open>The sender\<close>

text \<open>
  \<open>_send_all\<close> from one await to the next, and then the wait of \<open>run\<close> for the receiver. A
  sender without a permit stays where it is.
\<close>

definition sender_step :: "allocator \<Rightarrow> sender \<Rightarrow> uploader \<Rightarrow> uploader" where
  "sender_step alloc transmit u =
     (case up_pc u of
        Reading \<Rightarrow>
          (if up_offset u < up_end u
           then (let n = min (up_write_length u) (up_end u - up_offset u);
                     payload = read_at (up_source u) (up_offset u) n in
             if payload = [] then settle (u\<lparr>up_all_sent := True, up_pc := AllSent\<rparr>)
             else u\<lparr>up_pc := Acquiring payload\<rparr>)
           else settle (u\<lparr>up_all_sent := True, up_pc := AllSent\<rparr>))
      | Acquiring payload \<Rightarrow>
          (if up_permits u = 0 then u
           else (let i = alloc (up_outstanding u) (up_issued u);
                     chunk = \<lparr>rg_offset = up_offset u, rg_length = length payload\<rparr>;
                     req = Write i (up_handle u) (int (up_offset u)) payload;
                     u1 = u\<lparr>up_permits := up_permits u - 1,
                            up_outstanding := dict_set (up_outstanding u) i chunk,
                            up_issued := up_issued u + 1\<rparr> in
             case transmit req of
               Inl e \<Rightarrow> up_raise e u1
             | Inr _ \<Rightarrow> u1\<lparr>up_sent := up_sent u1 @ [req], up_pc := Sending payload\<rparr>))
      | Sending payload \<Rightarrow> u\<lparr>up_offset := up_offset u + length payload, up_pc := Reading\<rparr>
      | AllSent \<Rightarrow>
          (if up_finished u then (up_report u)\<lparr>up_result := Finished (up_acknowledged u)\<rparr> else u))"

section \<open>The receiver\<close>

definition acknowledge :: "packet \<Rightarrow> packet \<Rightarrow> uploader \<Rightarrow> (exn + unit) \<times> uploader" where
  "acknowledge req resp u =
     (case request_id req of
        None \<Rightarrow> (Inl (AttributeErr ''request_id''), u)
      | Some i \<Rightarrow>
          (case dict_get (up_outstanding u) i of
             None \<Rightarrow> (Inl (protocol_error (Msg ''reply for a write we never sent'' []) None None None), u)
           | Some chunk \<Rightarrow>
               (let u1 = u\<lparr>up_outstanding := dict_pop (up_outstanding u) i\<rparr> in
                case resp of
                  Status _ code msg _ _ \<Rightarrow>
                    (if code \<noteq> FX_OK
                     then (Inl (TransferErr (Msg ''server refused a write'' [NatArg (rg_offset chunk), BytesArg msg])
                              (int (up_acknowledged u1)) (Some (int (rg_offset chunk))) (up_remote_path u1)), u1)
                     else (Inr (), settle (u1\<lparr>up_acknowledged := up_acknowledged u1 + rg_length chunk,
                                             up_permits := up_permits u1 + 1\<rparr>)))
                | _ \<Rightarrow> (Inl (protocol_error (Msg ''server answered a WRITE with another packet'' [])
                            None (Some i) None), u1))))"

definition write_timeout :: "nat \<Rightarrow> uploader \<Rightarrow> exn" where
  "write_timeout t u = TransferTimeoutErr (Msg ''no response from the server''
     [NatArg t, NatArg (length (up_outstanding u))]) (int (up_acknowledged u)) None (up_remote_path u)"

definition receiver_step :: "up_input \<Rightarrow> uploader \<Rightarrow> uploader" where
  "receiver_step inp u =
     (if up_finished u then u
      else (case inp of
          ReplyArrives req resp \<Rightarrow>
            (case acknowledge req resp u of
               (Inl e, u') \<Rightarrow> up_raise e u'
             | (Inr _, u') \<Rightarrow> up_report u')
        | NoReply \<Rightarrow>
            (case up_idle_timeout u of None \<Rightarrow> u | Some t \<Rightarrow> up_raise (write_timeout t u) u)
        | ReplyBroken e \<Rightarrow> up_raise e u
        | _ \<Rightarrow> u))"

definition up_step :: "allocator \<Rightarrow> sender \<Rightarrow> up_input \<Rightarrow> uploader \<Rightarrow> uploader" where
  "up_step alloc transmit inp u =
     (if up_result u \<noteq> Waiting then u
      else (case inp of
          SenderRuns \<Rightarrow> sender_step alloc transmit u
        | SendFails e \<Rightarrow> (case up_pc u of Sending _ \<Rightarrow> up_raise e u | _ \<Rightarrow> u)
        | _ \<Rightarrow> receiver_step inp u))"

text \<open>\<open>run\<close>: nothing is started when there is nothing left to send.\<close>

definition up_begin :: "uploader \<Rightarrow> uploader" where
  "up_begin u = (let u = up_report u in
     if up_start u \<ge> up_end u then u\<lparr>up_result := Finished 0\<rparr> else u)"

definition up_run :: "allocator \<Rightarrow> sender \<Rightarrow> up_input list \<Rightarrow> uploader \<Rightarrow> uploader" where
  "up_run alloc transmit inputs u = foldl (\<lambda>u inp. up_step alloc transmit inp u) (up_begin u) inputs"

definition write_range_from ::
    "allocator \<Rightarrow> sender \<Rightarrow> up_input list \<Rightarrow> bytes \<Rightarrow> bytes \<Rightarrow> int \<Rightarrow> int \<Rightarrow> int \<Rightarrow>
     nat option \<Rightarrow> bytes option \<Rightarrow> run_result" where
  "write_range_from alloc transmit inputs fhandle payload offset write_length depth idle path =
     (if depth < 1 then Raised (ValueErr (Msg ''depth must be at least 1'' [IntArg depth]))
      else if write_length < 1
      then Raised (ValueErr (Msg ''write_length must be at least 1'' [IntArg write_length]))
      else if offset < 0 then Raised (ValueErr (Msg ''offset must not be negative'' [IntArg offset]))
      else if payload = [] then Finished 0
      else (case uploader_init fhandle (BufferSource payload (nat offset))
                   \<lparr>sp_start = nat offset, sp_end = Some (nat offset + length payload)\<rparr>
                   \<lparr>sc_request_length = nat write_length, sc_depth = nat depth, sc_idle_timeout = idle\<rparr> path of
              Inl e \<Rightarrow> Raised e
            | Inr u \<Rightarrow> up_result (up_run alloc transmit inputs u)))"

text \<open>\<open>upload_handle\<close>: \<open>fsize\<close> is \<open>os.fstat(fd).st_size\<close>, \<open>pread\<close> the descriptor's \<open>os.pread\<close>.\<close>

definition upload_handle ::
    "allocator \<Rightarrow> sender \<Rightarrow> up_input list \<Rightarrow> bytes \<Rightarrow> (nat \<Rightarrow> nat \<Rightarrow> bytes) \<Rightarrow> nat \<Rightarrow> int \<Rightarrow> int \<Rightarrow>
     nat option \<Rightarrow> bytes option \<Rightarrow> int \<Rightarrow> run_result" where
  "upload_handle alloc transmit inputs fhandle pread fsize write_length depth idle path start_offset =
     (if depth < 1 then Raised (ValueErr (Msg ''depth must be at least 1'' [IntArg depth]))
      else if write_length < 1
      then Raised (ValueErr (Msg ''write_length must be at least 1'' [IntArg write_length]))
      else if start_offset < 0
      then Raised (ValueErr (Msg ''start_offset must not be negative'' [IntArg start_offset]))
      else if start_offset > int fsize
      then Raised (ValueErr (Msg ''start_offset is past the end'' [IntArg start_offset]))
      else (case uploader_init fhandle (DescriptorSource pread)
                   \<lparr>sp_start = nat start_offset, sp_end = Some fsize\<rparr>
                   \<lparr>sc_request_length = nat write_length, sc_depth = nat depth, sc_idle_timeout = idle\<rparr> path of
              Inl e \<Rightarrow> Raised e
            | Inr u \<Rightarrow> up_result (up_run alloc transmit inputs u)))"

section \<open>Reachable states\<close>

inductive reachable :: "allocator \<Rightarrow> sender \<Rightarrow> uploader \<Rightarrow> uploader \<Rightarrow> bool"
  for alloc transmit u0 where
  start: "reachable alloc transmit u0 (up_begin u0)"
| step: "reachable alloc transmit u0 u \<Longrightarrow> reachable alloc transmit u0 (up_step alloc transmit inp u)"

inductive_simps reachable_start: "reachable alloc transmit u0 (up_begin u0)"

lemma up_run_reachable: "reachable alloc transmit u0 (up_run alloc transmit inputs u0)"
proof (induction inputs rule: rev_induct)
  case Nil
  then show ?case by (simp add: up_run_def reachable.start)
next
  case (snoc inp inputs)
  then have "reachable alloc transmit u0 (up_step alloc transmit inp (up_run alloc transmit inputs u0))"
    by (rule reachable.step)
  then show ?case by (simp add: up_run_def)
qed

section \<open>Invariant\<close>

text \<open>Bytes handed over so far: what the offset says, and the chunk whose send is pending.\<close>

definition sent_upto :: "uploader \<Rightarrow> nat" where
  "sent_upto u = up_offset u + (case up_pc u of Sending p \<Rightarrow> length p | _ \<Rightarrow> 0)"

text \<open>
  \<open>A\<close> are the acknowledged ranges. Every position from the start up to what was sent is in
  exactly one acknowledged or outstanding range; permits and requests in flight add up to
  the depth.
\<close>

definition upload_core :: "range list \<Rightarrow> uploader \<Rightarrow> bool" where
  "upload_core A u \<longleftrightarrow>
     dict_wf (up_outstanding u) \<and> up_permits u + length (up_outstanding u) = up_depth u \<and>
     1 \<le> up_write_length u \<and> up_start u \<le> up_offset u \<and> sent_upto u \<le> up_end u \<and>
     (\<forall>r \<in> set (map snd (up_outstanding u)). 1 \<le> rg_length r \<and> rg_length r \<le> up_write_length u) \<and>
     (\<forall>p. hits A p + hits (map snd (up_outstanding u)) p =
        (if up_start u \<le> p \<and> p < sent_upto u then 1 else 0)) \<and>
     total_length A = up_acknowledged u \<and>
     (case up_pc u of
        Acquiring p \<Rightarrow> p \<noteq> [] \<and> length p \<le> min (up_write_length u) (up_end u - up_offset u) \<and> \<not> up_all_sent u
      | Sending p \<Rightarrow> p \<noteq> [] \<and> \<not> up_all_sent u
      | Reading \<Rightarrow> \<not> up_all_sent u
      | AllSent \<Rightarrow> up_all_sent u)"

definition upload_inv :: "range list \<Rightarrow> uploader \<Rightarrow> bool" where
  "upload_inv A u \<longleftrightarrow> upload_core A u \<and>
     (up_finished u \<longleftrightarrow> up_all_sent u \<and> up_outstanding u = []) \<and>
     (\<forall>n. up_result u = Finished n \<longrightarrow> (up_finished u \<or> up_end u \<le> up_start u) \<and> n = up_acknowledged u)"

text \<open>\<open>os.pread\<close> and a slice never return more than was asked for.\<close>

definition source_ok :: "source \<Rightarrow> bool" where
  "source_ok s \<longleftrightarrow> (\<forall>off n. length (read_at s off n) \<le> n)"

lemma buffer_source_reads:
  assumes "base \<le> off"
  shows "read_at (BufferSource view base) off n = take n (drop (off - base) view)"
proof -
  obtain k where k: "off = base + k" using assms by (metis le_Suc_ex)
  have "slice_index (length view) (int off - int base) = min k (length view)"
    "slice_index (length view) (int off - int base + int n) = min (k + n) (length view)"
    by (auto simp: slice_index_def k min_def)
  then show ?thesis
    by (cases "k \<le> length view") (auto simp: read_at_def Let_def k min_def)
qed

definition raised :: "uploader \<Rightarrow> bool" where
  "raised u \<longleftrightarrow> (\<exists>e. up_result u = Raised e)"

lemma up_raise_raised [simp]: "raised (up_raise e u)"
  by (simp add: raised_def up_raise_def)

lemma sender_step_cases:
  assumes "up_result u = Waiting"
  obtains (blocked) "sender_step alloc transmit u = u"
      "(\<exists>p. up_pc u = Acquiring p) \<and> up_permits u = 0 \<or> up_pc u = AllSent \<and> \<not> up_finished u"
  | (read) p where "up_pc u = Reading" "sender_step alloc transmit u = u\<lparr>up_pc := Acquiring p\<rparr>"
      "p = read_at (up_source u) (up_offset u) (min (up_write_length u) (up_end u - up_offset u))"
      "p \<noteq> []" "up_offset u < up_end u"
  | (ended) "up_pc u = Reading" "sender_step alloc transmit u = settle (u\<lparr>up_all_sent := True, up_pc := AllSent\<rparr>)"
      "up_offset u < up_end u \<Longrightarrow>
         read_at (up_source u) (up_offset u) (min (up_write_length u) (up_end u - up_offset u)) = []"
  | (refused) p e where "up_pc u = Acquiring p" "0 < up_permits u"
      "\<exists>d i. sender_step alloc transmit u = up_raise e (u\<lparr>up_permits := up_permits u - 1, up_outstanding := d, up_issued := i\<rparr>)
         \<and> length d \<le> Suc (length (up_outstanding u))"
  | (sent) p i where "up_pc u = Acquiring p" "0 < up_permits u" "i = alloc (up_outstanding u) (up_issued u)"
      "sender_step alloc transmit u = u\<lparr>up_permits := up_permits u - 1,
         up_outstanding := dict_set (up_outstanding u) i \<lparr>rg_offset = up_offset u, rg_length = length p\<rparr>,
         up_issued := up_issued u + 1, up_sent := up_sent u @ [Write i (up_handle u) (int (up_offset u)) p],
         up_pc := Sending p\<rparr>"
  | (landed) p where "up_pc u = Sending p"
      "sender_step alloc transmit u = u\<lparr>up_offset := up_offset u + length p, up_pc := Reading\<rparr>"
  | (finished) "up_pc u = AllSent" "up_finished u"
      "sender_step alloc transmit u = (up_report u)\<lparr>up_result := Finished (up_acknowledged u)\<rparr>"
proof (cases "up_pc u")
  case Reading
  let ?p = "read_at (up_source u) (up_offset u) (min (up_write_length u) (up_end u - up_offset u))"
  show thesis
  proof (cases "up_offset u < up_end u \<and> ?p \<noteq> []")
    case True
    then show thesis using read [of ?p] Reading by (simp add: sender_step_def Let_def)
  next
    case False
    then show thesis using ended Reading by (auto simp: sender_step_def Let_def)
  qed
next
  case (Acquiring p)
  show thesis
  proof (cases "up_permits u = 0")
    case True
    then show thesis using blocked Acquiring by (simp add: sender_step_def)
  next
    case False
    let ?i = "alloc (up_outstanding u) (up_issued u)"
    let ?r = "\<lparr>rg_offset = up_offset u, rg_length = length p\<rparr>"
    have len: "length (dict_set (up_outstanding u) ?i ?r) \<le> Suc (length (up_outstanding u))"
      by (rule length_dict_set)
    show thesis
    proof (cases "transmit (Write ?i (up_handle u) (int (up_offset u)) p)")
      case (Inl e)
      then have "sender_step alloc transmit u = up_raise e (u\<lparr>up_permits := up_permits u - 1,
          up_outstanding := dict_set (up_outstanding u) ?i ?r, up_issued := up_issued u + 1\<rparr>)"
        using Acquiring False by (simp add: sender_step_def Let_def)
      with len False Acquiring show thesis using refused [of p e] by blast
    next
      case (Inr v)
      then show thesis using sent [OF Acquiring _ refl] Acquiring False by (simp add: sender_step_def Let_def)
    qed
  qed
next
  case (Sending p)
  then show thesis using landed by (simp add: sender_step_def)
next
  case AllSent
  then show thesis using finished blocked by (cases "up_finished u") (simp_all add: sender_step_def)
qed

end
