(* ===== verification/UploadLaws.thy ===== *)
theory UploadLaws
  imports Upload
begin

text \<open>
  Why a pipelined upload is right: \<open>upload_inv\<close> holds after every step of every
  interleaving, the requests sent write the source's bytes to their own offsets, a potential
  bounds the steps of any run, and a run that has not ended can always move.
\<close>

section \<open>Every step keeps the invariant\<close>

lemma settle_fields [simp]:
  "up_outstanding (settle u) = up_outstanding u" "up_permits (settle u) = up_permits u"
  "up_depth (settle u) = up_depth u" "up_write_length (settle u) = up_write_length u"
  "up_start (settle u) = up_start u" "up_offset (settle u) = up_offset u" "up_end (settle u) = up_end u"
  "up_pc (settle u) = up_pc u" "up_acknowledged (settle u) = up_acknowledged u"
  "up_all_sent (settle u) = up_all_sent u" "up_result (settle u) = up_result u"
  "up_sent (settle u) = up_sent u" "up_source (settle u) = up_source u" "up_handle (settle u) = up_handle u"
  "sent_upto (settle u) = sent_upto u"
  "up_finished (settle u) \<longleftrightarrow> up_finished u \<or> up_all_sent u \<and> up_outstanding u = []"
  by (auto simp: settle_def sent_upto_def)

lemma upload_core_settle [simp]: "upload_core A (settle u) = upload_core A u"
  unfolding upload_core_def settle_fields by (rule refl)

lemma report_fields [simp]:
  "upload_core A (up_report u) = upload_core A u" "upload_inv A (up_report u) = upload_inv A u"
  "up_result (up_report u) = up_result u" "up_finished (up_report u) = up_finished u"
  "up_outstanding (up_report u) = up_outstanding u" "up_acknowledged (up_report u) = up_acknowledged u"
  "up_sent (up_report u) = up_sent u" "up_pc (up_report u) = up_pc u" "sent_upto (up_report u) = sent_upto u"
  "up_start (up_report u) = up_start u" "up_end (up_report u) = up_end u" "up_offset (up_report u) = up_offset u"
  "up_source (up_report u) = up_source u" "up_handle (up_report u) = up_handle u" "up_depth (up_report u) = up_depth u"
  "up_all_sent (up_report u) = up_all_sent u"
  by (simp_all add: up_report_def upload_core_def upload_inv_def sent_upto_def split: sender_pc.splits)

lemma upload_invD:
  assumes "upload_inv A u"
  shows "dict_wf (up_outstanding u)" "up_permits u + length (up_outstanding u) = up_depth u"
    "up_start u \<le> up_offset u" "sent_upto u \<le> up_end u"
    "hits A p + hits (map snd (up_outstanding u)) p = (if up_start u \<le> p \<and> p < sent_upto u then 1 else 0)"
    "total_length A = up_acknowledged u" "up_finished u \<longleftrightarrow> up_all_sent u \<and> up_outstanding u = []"
  using assms by (simp_all add: upload_inv_def upload_core_def)

context download_ids
begin

lemma sender_step_inv:
  assumes inv: "upload_inv A u" and waiting: "up_result u = Waiting"
    and source: "source_ok (up_source u)" and depth: "up_depth u \<le> capacity"
  shows "raised (sender_step alloc transmit u) \<or> upload_inv A (sender_step alloc transmit u)"
  using waiting
proof (cases rule: sender_step_cases [of u alloc transmit])
  case blocked
  then show ?thesis using inv by simp
next
  case (read p)
  then have "length p \<le> min (up_write_length u) (up_end u - up_offset u)"
    using source unfolding source_ok_def by blast
  with read inv show ?thesis by (simp add: upload_inv_def upload_core_def sent_upto_def waiting)
next
  case ended
  then show ?thesis using inv by (auto simp: upload_inv_def upload_core_def sent_upto_def waiting)
next
  case (refused p e)
  then show ?thesis by auto
next
  case (sent p i)
  let ?r = "\<lparr>rg_offset = up_offset u, rg_length = length p\<rparr>"
  have room: "length (up_outstanding u) < capacity"
    using upload_invD(2) [OF inv] sent(2) depth by linarith
  have grow: "dict_set (up_outstanding u) i ?r = up_outstanding u @ [(i, ?r)]"
    "dict_wf (up_outstanding u @ [(i, ?r)])"
    using alloc_grows [OF upload_invD(1) [OF inv] room] unfolding sent(3) by blast+
  have p: "p \<noteq> []" "length p \<le> up_write_length u" "length p \<le> up_end u - up_offset u" "\<not> up_all_sent u"
    using inv sent(1) by (simp_all add: upload_inv_def upload_core_def)
  have upto: "sent_upto u = up_offset u" using sent(1) by (simp add: sent_upto_def)
  have "up_offset u < up_end u" using p by (cases p) auto
  then have within: "up_offset u + length p \<le> up_end u" using p(3) by linarith
  have start: "up_start u \<le> up_offset u" using upload_invD(3) [OF inv] .
  have count: "hits A q + hits (map snd (up_outstanding u) @ [?r]) q =
      (if up_start u \<le> q \<and> q < up_offset u + length p then 1 else 0)" for q
    using upload_invD(5) [OF inv, of q] start upto by (cases "q < up_offset u") (auto simp: covers_def)
  have "upload_inv A (u\<lparr>up_permits := up_permits u - 1, up_outstanding := up_outstanding u @ [(i, ?r)],
      up_issued := up_issued u + 1, up_sent := s, up_pc := Sending p\<rparr>)" for s
    using inv grow(2) p within count sent(2) start
    unfolding upload_inv_def upload_core_def by (auto simp: sent_upto_def waiting add.assoc Suc_le_eq)
  then show ?thesis unfolding sent(4) grow(1) by blast
next
  case (landed p)
  then show ?thesis using inv by (auto simp: upload_inv_def upload_core_def sent_upto_def waiting)
next
  case finished
  then show ?thesis using inv by (auto simp: upload_inv_def upload_core_def sent_upto_def up_report_def)
qed

end

lemma pop_chunk:
  assumes "dict_wf d" "dict_get d i = Some r"
  shows "hits (map snd d) p = (if covers r p then 1 else 0) + hits (map snd (dict_pop d i)) p"
    and "length d = Suc (length (dict_pop d i))"
    and "set (map snd d) = insert r (set (map snd (dict_pop d i)))"
proof -
  obtain xs ys where split: "d = xs @ (i, r) # ys" "dict_pop d i = xs @ ys"
    using dict_pop_split [OF assms] .
  show "hits (map snd d) p = (if covers r p then 1 else 0) + hits (map snd (dict_pop d i)) p"
    "length d = Suc (length (dict_pop d i))" "set (map snd d) = insert r (set (map snd (dict_pop d i)))"
    unfolding split(2) unfolding split(1) by auto
qed

lemma acknowledge_cases:
  assumes "acknowledge req resp u = (Inr (), u')"
  obtains i r where "request_id req = Some i" "dict_get (up_outstanding u) i = Some r"
    "u' = settle (u\<lparr>up_outstanding := dict_pop (up_outstanding u) i,
       up_acknowledged := up_acknowledged u + rg_length r, up_permits := up_permits u + 1\<rparr>)"
  using assms
  by (cases resp) (auto simp: acknowledge_def Let_def split: option.splits if_splits)

lemma acknowledge_inv:
  assumes inv: "upload_inv A u" and waiting: "up_result u = Waiting" and "\<not> up_finished u"
    and ack: "acknowledge req resp u = (Inr (), u')"
  obtains r where "upload_inv (r # A) (up_report u')" "up_result u' = Waiting"
    "length (up_outstanding u) = Suc (length (up_outstanding u'))"
proof -
  obtain i r where get: "dict_get (up_outstanding u) i = Some r"
    and u': "u' = settle (u\<lparr>up_outstanding := dict_pop (up_outstanding u) i,
       up_acknowledged := up_acknowledged u + rg_length r, up_permits := up_permits u + 1\<rparr>)"
    using acknowledge_cases [OF ack] .
  note pop = pop_chunk [OF upload_invD(1) [OF inv] get]
  have count: "hits (r # A) p + hits (map snd (dict_pop (up_outstanding u) i)) p =
      (if up_start u \<le> p \<and> p < sent_upto u then 1 else 0)" for p
    using upload_invD(5) [OF inv, of p] pop(1) [of p] by simp
  have lens: "\<forall>t \<in> set (map snd (dict_pop (up_outstanding u) i)). 1 \<le> rg_length t \<and> rg_length t \<le> up_write_length u"
    using inv pop(3) unfolding upload_inv_def upload_core_def by blast
  have upto: "sent_upto (u\<lparr>up_outstanding := d, up_acknowledged := a, up_permits := n\<rparr>) = sent_upto u" for d a n
    by (simp add: sent_upto_def)
  have "upload_core (r # A) (u\<lparr>up_outstanding := dict_pop (up_outstanding u) i,
       up_acknowledged := up_acknowledged u + rg_length r, up_permits := up_permits u + 1\<rparr>)"
    using inv pop(2) lens count unfolding upload_inv_def upload_core_def upto by (simp split: sender_pc.splits)
  then have "upload_inv (r # A) (up_report u')"
    using inv assms(3) waiting by (auto simp: u' upload_inv_def)
  moreover have "up_result u' = Waiting" "length (up_outstanding u) = Suc (length (up_outstanding u'))"
    using pop(2) waiting by (simp_all add: u')
  ultimately show thesis using that by blast
qed

context download_ids
begin

lemma up_step_inv:
  assumes "upload_inv A u" "source_ok (up_source u)" "up_depth u \<le> capacity"
  shows "raised (up_step alloc transmit inp u) \<or> (\<exists>A'. upload_inv A' (up_step alloc transmit inp u))"
proof (cases "up_result u = Waiting")
  case False
  then show ?thesis using assms(1) by (auto simp: up_step_def)
next
  case True
  show ?thesis
  proof (cases inp)
    case SenderRuns
    then show ?thesis using sender_step_inv [OF assms(1) True assms(2,3)] True by (auto simp: up_step_def)
  next
    case (SendFails e)
    then show ?thesis using assms(1) True by (auto simp: up_step_def split: sender_pc.splits)
  next
    case (ReplyArrives req resp)
    obtain r u' where ack: "acknowledge req resp u = (r, u')" by fastforce
    show ?thesis
    proof (cases "up_finished u \<or> (\<exists>e. r = Inl e)")
      case True
      then show ?thesis
        using assms(1) ack \<open>up_result u = Waiting\<close> ReplyArrives by (auto simp: up_step_def receiver_step_def)
    next
      case False
      then have "acknowledge req resp u = (Inr (), u')" "\<not> up_finished u" using ack by (cases r; simp)+
      moreover from this obtain r where "upload_inv (r # A) (up_report u')"
        using acknowledge_inv [OF assms(1) True] by metis
      ultimately show ?thesis using ReplyArrives True by (auto simp: up_step_def receiver_step_def)
    qed
  next
    case NoReply
    then show ?thesis using assms(1) True by (auto simp: up_step_def receiver_step_def split: option.splits)
  next
    case (ReplyBroken e)
    then show ?thesis using assms(1) True by (auto simp: up_step_def receiver_step_def)
  qed
qed

end

section \<open>What never changes\<close>

definition same_upload :: "uploader \<Rightarrow> uploader \<Rightarrow> bool" where
  "same_upload u u' \<longleftrightarrow> up_source u' = up_source u \<and> up_depth u' = up_depth u \<and>
     up_start u' = up_start u \<and> up_end u' = up_end u \<and> up_handle u' = up_handle u \<and>
     up_write_length u' = up_write_length u \<and> up_idle_timeout u' = up_idle_timeout u"

lemma same_upload_refl [simp]: "same_upload u u"
  and same_upload_trans: "same_upload u v \<Longrightarrow> same_upload v w \<Longrightarrow> same_upload u w"
  by (simp_all add: same_upload_def)

lemma same_upload_parts [simp]:
  "same_upload u (settle v) = same_upload u v" "same_upload u (up_report v) = same_upload u v"
  "same_upload u (up_raise e v) = same_upload u v"
  by (simp_all add: same_upload_def settle_def up_report_def up_raise_def)

lemma same_upload_step: "same_upload u (up_step alloc transmit inp u)"
proof -
  have "same_upload u (sender_step alloc transmit u)"
    by (auto simp: sender_step_def Let_def same_upload_def settle_def up_raise_def up_report_def
        split: sender_pc.splits sum.splits)
  moreover have "same_upload u u'" if "acknowledge req resp u = (r, u')" for req resp r u'
    using that
    by (auto simp: acknowledge_def Let_def same_upload_def settle_def
        split: option.splits packet.splits if_splits)
  ultimately show ?thesis
    by (auto simp: up_step_def receiver_step_def split: up_input.splits prod.splits sum.splits
        option.splits sender_pc.splits)
qed

section \<open>What was written\<close>

text \<open>A server that carries out the WRITE requests it is sent.\<close>

fun apply_write :: "packet \<Rightarrow> (nat \<Rightarrow> byte option) \<Rightarrow> nat \<Rightarrow> byte option" where
  "apply_write (Write i h off d) f = place (nat off) d f"
| "apply_write _ f = f"

definition apply_writes :: "packet list \<Rightarrow> (nat \<Rightarrow> byte option) \<Rightarrow> nat \<Rightarrow> byte option" where
  "apply_writes ws f = fold apply_write ws f"

text \<open>A source that reads the bytes \<open>F\<close> from the position \<open>a\<close> on, with short reads allowed.\<close>

definition source_of :: "bytes \<Rightarrow> nat \<Rightarrow> source \<Rightarrow> bool" where
  "source_of F a s \<longleftrightarrow> source_ok s \<and> (\<forall>off n. a \<le> off \<longrightarrow> (let bs = read_at s off n in
     bs = take (length bs) (drop off F) \<and> (bs = [] \<longrightarrow> n = 0 \<or> length F \<le> off)))"

lemma source_of_ok: "source_of F a s \<Longrightarrow> source_ok s"
  by (simp add: source_of_def)

lemma buffer_source_ok: "source_ok (BufferSource view base)"
  unfolding source_ok_def read_at_def Let_def source.case length_take length_drop
  by (auto simp: slice_index_def)

text \<open>What \<open>write_range_from\<close> and \<open>upload_handle\<close> pass: the caller's bytes at an offset, a local file.\<close>

lemma buffer_source_of: "length gap = base \<Longrightarrow> source_of (gap @ view) base (BufferSource view base)"
  unfolding source_of_def using buffer_source_ok buffer_source_reads
  by (auto simp: Let_def min_def)

lemma descriptor_source_of: "source_of F a (DescriptorSource (\<lambda>n off. take n (drop off F)))"
  by (auto simp: source_of_def source_ok_def read_at_def Let_def min_def)

definition content :: "bytes \<Rightarrow> (nat \<Rightarrow> byte option) \<Rightarrow> uploader \<Rightarrow> bool" where
  "content F f u \<longleftrightarrow>
     (\<forall>p. apply_writes (up_sent u) f p =
        (if up_start u \<le> p \<and> p < sent_upto u then Some (F ! p) else f p)) \<and>
     sent_upto u \<le> max (up_start u) (length F) \<and>
     (\<forall>p. up_pc u = Acquiring p \<longrightarrow> p = take (length p) (drop (up_offset u) F)) \<and>
     (up_all_sent u \<longrightarrow> up_end u \<le> up_offset u \<or> length F \<le> up_offset u)"

lemma content_parts [simp]:
  "content F f (settle u) = content F f u" "content F f (up_report u) = content F f u"
  by (simp_all add: content_def)

lemma prefix_byte:
  assumes "bs = take (length bs) (drop off F)" "bs \<noteq> []"
  shows "off + length bs \<le> length F" "k < length bs \<Longrightarrow> bs ! k = F ! (off + k)"
proof -
  have "length bs \<le> length F - off" using arg_cong [OF assms(1), of length] by simp
  then show le: "off + length bs \<le> length F" using assms(2) by (cases bs) auto
  show "bs ! k = F ! (off + k)" if "k < length bs"
  proof -
    have "bs ! k = take (length bs) (drop off F) ! k" using assms(1) by simp
    then show ?thesis using that le by simp
  qed
qed

lemma sender_step_content:
  assumes inv: "upload_inv A u" and con: "content F f u" and src: "source_of F (up_start u) (up_source u)"
    and waiting: "up_result u = Waiting"
  shows "raised (sender_step alloc transmit u) \<or> content F f (sender_step alloc transmit u)"
  using waiting
proof (cases rule: sender_step_cases [of u alloc transmit])
  case blocked
  then show ?thesis using con by simp
next
  case (read p)
  have "p = take (length p) (drop (up_offset u) F)"
    using src read(3) upload_invD(3) [OF inv] unfolding source_of_def Let_def by blast
  then show ?thesis using con read(1,2) by (simp add: content_def sent_upto_def)
next
  case ended
  have "up_end u \<le> up_offset u \<or> length F \<le> up_offset u"
  proof (cases "up_offset u < up_end u")
    case True
    with ended(3) src have "min (up_write_length u) (up_end u - up_offset u) = 0 \<or> length F \<le> up_offset u"
      using upload_invD(3) [OF inv] unfolding source_of_def Let_def by blast
    then show ?thesis using True inv by (auto simp: upload_inv_def upload_core_def)
  qed simp
  then show ?thesis using con ended(1,2) by (simp add: content_def sent_upto_def)
next
  case (refused p e)
  then show ?thesis by auto
next
  case (sent p i)
  have pre: "p = take (length p) (drop (up_offset u) F)" using con sent(1) by (simp add: content_def)
  have ne: "p \<noteq> []" "\<not> up_all_sent u" using inv sent(1) by (simp_all add: upload_inv_def upload_core_def)
  note byte = prefix_byte [OF pre ne(1)]
  have start: "up_start u \<le> up_offset u" using upload_invD(3) [OF inv] .
  have upto: "sent_upto u = up_offset u" using sent(1) by (simp add: sent_upto_def)
  have "place (up_offset u) p (apply_writes (up_sent u) f) q =
      (if up_start u \<le> q \<and> q < up_offset u + length p then Some (F ! q) else f q)" for q
  proof (cases "up_offset u \<le> q \<and> q < up_offset u + length p")
    case True
    then obtain k where "q = up_offset u + k" "k < length p" by (metis add_less_cancel_left le_Suc_ex)
    then show ?thesis using byte(2) [of k] start by (simp add: place_def)
  next
    case False
    then show ?thesis using con start by (auto simp: place_def content_def upto)
  qed
  then show ?thesis
    using byte(1) ne(2) unfolding sent(4)
    by (simp add: content_def sent_upto_def apply_writes_def le_max_iff_disj)
next
  case (landed p)
  have "\<not> up_all_sent u" using inv landed(1) by (simp add: upload_inv_def upload_core_def)
  then show ?thesis using con landed by (simp add: content_def sent_upto_def)
next
  case finished
  then show ?thesis using con by (simp add: content_def sent_upto_def)
qed

lemma receiver_step_content:
  assumes "content F f u" shows "raised (receiver_step inp u) \<or> content F f (receiver_step inp u)"
proof -
  have "content F f u'" if "acknowledge req resp u = (Inr (), u')" for req resp u'
  proof -
    have "content F f (u\<lparr>up_outstanding := d, up_acknowledged := a, up_permits := n\<rparr>) = content F f u" for d a n
      by (simp add: content_def sent_upto_def)
    note same = this
    show ?thesis by (rule acknowledge_cases [OF that]) (simp add: assms same)
  qed
  then show ?thesis
    using assms by (auto simp: receiver_step_def split: up_input.splits prod.splits sum.splits option.splits)
qed

section \<open>How long a run can be\<close>

text \<open>
  The potential: five for every byte not yet handed over, the distance to the sender's next
  chunk, one for each write in flight and three while the run goes on.
\<close>

definition potential :: "uploader \<Rightarrow> nat" where
  "potential u = 5 * (up_end u - sent_upto u) +
     (case up_pc u of Reading \<Rightarrow> 2 | Acquiring _ \<Rightarrow> 1 | Sending _ \<Rightarrow> 3 | AllSent \<Rightarrow> 0) +
     length (up_outstanding u) + (if up_result u = Waiting then 3 else 0)"

lemma potential_parts [simp]:
  "potential (settle u) = potential u" "potential (up_report u) = potential u"
  by (simp_all add: potential_def)

lemma potential_raise:
  assumes "up_result u = Waiting" shows "potential (up_raise e u) < potential u"
  using assms by (simp add: potential_def up_raise_def sent_upto_def split: sender_pc.splits)

context download_ids
begin

lemma sender_step_potential:
  assumes inv: "upload_inv A u" and waiting: "up_result u = Waiting" and depth: "up_depth u \<le> capacity"
    and moves: "sender_step alloc transmit u \<noteq> u"
  shows "potential (sender_step alloc transmit u) < potential u"
  using waiting
proof (cases rule: sender_step_cases [of u alloc transmit])
  case blocked
  then show ?thesis using moves by simp
next
  case (read p)
  then show ?thesis by (simp add: potential_def sent_upto_def)
next
  case ended
  then show ?thesis by (simp add: potential_def sent_upto_def)
next
  case (refused p e)
  then obtain d i where "sender_step alloc transmit u = up_raise e (u\<lparr>up_permits := up_permits u - 1,
      up_outstanding := d, up_issued := i\<rparr>)" "length d \<le> Suc (length (up_outstanding u))" by blast
  then show ?thesis using waiting by (simp add: potential_def up_raise_def sent_upto_def split: sender_pc.splits)
next
  case (sent p i)
  have room: "length (up_outstanding u) < capacity"
    using upload_invD(2) [OF inv] sent(2) depth by linarith
  have len: "length (dict_set (up_outstanding u) i r) = Suc (length (up_outstanding u))" for r
    using alloc_grows [OF upload_invD(1) [OF inv] room] unfolding sent(3) by simp
  have p: "p \<noteq> []" "length p \<le> up_end u - up_offset u"
    using inv sent(1) by (simp_all add: upload_inv_def upload_core_def)
  then have "1 \<le> length p" by (cases p) auto
  then have "5 * (up_end u - (up_offset u + length p)) + 5 \<le> 5 * (up_end u - up_offset u)"
    using p(2) by linarith
  then show ?thesis using sent(1) unfolding sent(4) potential_def sent_upto_def by (simp add: len)
next
  case (landed p)
  then show ?thesis by (simp add: potential_def sent_upto_def)
next
  case finished
  then show ?thesis using waiting by (simp add: potential_def sent_upto_def)
qed

lemma up_step_potential:
  assumes inv: "upload_inv A u" and waiting: "up_result u = Waiting" and depth: "up_depth u \<le> capacity"
    and moves: "up_step alloc transmit inp u \<noteq> u"
  shows "potential (up_step alloc transmit inp u) < potential u"
proof (cases inp)
  case SenderRuns
  then show ?thesis
    using sender_step_potential [OF inv waiting depth] moves waiting by (simp add: up_step_def)
next
  case (SendFails e)
  then show ?thesis
    using moves waiting potential_raise [OF waiting] by (auto simp: up_step_def split: sender_pc.splits)
next
  case (ReplyArrives req resp)
  obtain r u' where ack: "acknowledge req resp u = (r, u')" by fastforce
  have running: "\<not> up_finished u"
    using moves ReplyArrives by (auto simp: up_step_def receiver_step_def split: if_splits)
  show ?thesis
  proof (cases r)
    case (Inl e)
    have "up_result u' = Waiting" "potential u' \<le> potential u"
    proof -
      have "u' = u \<or> (\<exists>i x. dict_get (up_outstanding u) i = Some x \<and>
          u' = u\<lparr>up_outstanding := dict_pop (up_outstanding u) i\<rparr>)"
        using ack Inl by (auto simp: acknowledge_def Let_def split: option.splits packet.splits if_splits)
      then show "up_result u' = Waiting" "potential u' \<le> potential u"
        using waiting pop_chunk(2) [OF upload_invD(1) [OF inv]]
        by (auto simp: potential_def sent_upto_def)
    qed
    with potential_raise [of u' e] ack Inl ReplyArrives waiting running show ?thesis
      by (simp add: up_step_def receiver_step_def)
  next
    case (Inr v)
    then have ack': "acknowledge req resp u = (Inr (), u')" using ack by simp
    obtain i x where x: "dict_get (up_outstanding u) i = Some x"
      "u' = settle (u\<lparr>up_outstanding := dict_pop (up_outstanding u) i,
       up_acknowledged := up_acknowledged u + rg_length x, up_permits := up_permits u + 1\<rparr>)"
      using acknowledge_cases [OF ack'] by metis
    then have "potential u' < potential u"
      using pop_chunk(2) [OF upload_invD(1) [OF inv] x(1)] waiting by (simp add: potential_def sent_upto_def)
    then show ?thesis using ack' ReplyArrives waiting running by (simp add: up_step_def receiver_step_def)
  qed
next
  case NoReply
  then show ?thesis
    using moves waiting potential_raise [OF waiting]
    by (auto simp: up_step_def receiver_step_def split: option.splits if_splits)
next
  case (ReplyBroken e)
  then show ?thesis
    using moves waiting potential_raise [OF waiting]
    by (auto simp: up_step_def receiver_step_def split: if_splits)
qed

end

text \<open>A run that goes on can always move: its sender, or a write whose answer is due.\<close>

lemma sender_or_reply:
  assumes inv: "upload_inv A u" and waiting: "up_result u = Waiting" and depth: "1 \<le> up_depth u"
  shows "sender_step alloc transmit u \<noteq> u \<or> up_outstanding u \<noteq> [] \<and> \<not> up_finished u"
  using waiting
proof (cases rule: sender_step_cases [of u alloc transmit])
  case blocked
  from blocked(2) have "up_outstanding u \<noteq> []"
  proof (elim disjE conjE exE)
    fix p assume "up_permits u = 0"
    then show ?thesis using upload_invD(2) [OF inv] depth by auto
  next
    assume "up_pc u = AllSent" "\<not> up_finished u"
    then show ?thesis using inv by (simp add: upload_inv_def upload_core_def)
  qed
  then show ?thesis using upload_invD(7) [OF inv] by blast
next
  case ended
  then have "up_pc (sender_step alloc transmit u) \<noteq> up_pc u" by simp
  then show ?thesis by metis
next
  case (read p)
  then have "up_pc (sender_step alloc transmit u) \<noteq> up_pc u" by simp
  then show ?thesis by metis
next
  case (refused p e)
  then have "up_result (sender_step alloc transmit u) \<noteq> up_result u" using waiting by (auto simp: up_raise_def)
  then show ?thesis by metis
next
  case (sent p i)
  then have "up_pc (sender_step alloc transmit u) \<noteq> up_pc u" by simp
  then show ?thesis by metis
next
  case (landed p)
  then have "up_pc (sender_step alloc transmit u) \<noteq> up_pc u" by simp
  then show ?thesis by metis
next
  case finished
  then have "up_result (sender_step alloc transmit u) \<noteq> up_result u" using waiting by simp
  then show ?thesis by metis
qed

section \<open>Reachable states\<close>

definition valid_upload :: "span \<Rightarrow> schedule \<Rightarrow> bool" where
  "valid_upload sp sc \<longleftrightarrow> 1 \<le> sc_depth sc \<and> int (sc_depth sc) \<le> MAX_REQUEST_ID \<and>
     1 \<le> sc_request_length sc \<and> (\<exists>e. sp_end sp = Some e \<and> sp_start sp \<le> e)"

lemma upload_begin:
  assumes "valid_upload sp sc" "uploader_init h s sp sc path = Inr u0"
  shows "upload_inv [] (up_begin u0)" "content F f (up_begin u0)" "same_upload u0 (up_begin u0)"
    "up_source u0 = s" "up_depth u0 = sc_depth sc" "up_start u0 = sp_start sp" "sp_end sp = Some (up_end u0)"
    "up_idle_timeout u0 = sc_idle_timeout sc"
  using assms
  by (auto simp: valid_upload_def uploader_init_def up_begin_def Let_def upload_inv_def upload_core_def
      content_def sent_upto_def apply_writes_def same_upload_def up_report_def le_max_iff_disj)

lemma reachable_keeps:
  assumes reach: "reachable (codec_alloc shared) transmit u0 u" and valid: "valid_upload sp sc"
    and init: "uploader_init h s sp sc path = Inr u0" and src: "source_ok s"
  shows "same_upload u0 u \<and> (raised u \<or> (\<exists>A. upload_inv A u \<and> (source_of F (sp_start sp) s \<longrightarrow> content F f u)))"
  using reach
proof (induction rule: reachable.induct)
  case start
  then show ?case using upload_begin [OF valid init] by blast
next
  case (step u inp)
  let ?u = "up_step (codec_alloc shared) transmit inp u"
  note u0 = upload_begin(4,5) [OF valid init]
  have same: "same_upload u0 ?u" using step.IH same_upload_step same_upload_trans by blast
  have start: "up_start u = sp_start sp"
    using step.IH upload_begin(3,6) [OF valid init] by (simp add: same_upload_def)
  have cap: "up_depth u \<le> nat MAX_REQUEST_ID" and source: "up_source u = s"
    using step.IH valid u0 by (auto simp: same_upload_def valid_upload_def)
  show ?case
  proof (cases "raised u")
    case True
    then have "?u = u" by (auto simp: raised_def up_step_def)
    then show ?thesis using step.IH by simp
  next
    case False
    then obtain A where A: "upload_inv A u" "source_of F (sp_start sp) s \<longrightarrow> content F f u" using step.IH by blast
    have inv: "raised ?u \<or> (\<exists>A'. upload_inv A' ?u)"
      using codec_download.up_step_inv [where shared = shared, OF A(1) _ cap] src source by simp
    have "raised ?u \<or> content F f ?u" if "source_of F (sp_start sp) s"
    proof -
      have con: "content F f u" using A(2) that by blast
      show ?thesis
      proof (cases "up_result u = Waiting")
        case True
        have "raised (sender_step (codec_alloc shared) transmit u) \<or> content F f (sender_step (codec_alloc shared) transmit u)"
          using sender_step_content [OF A(1) con _ True] that source start by simp
        with con receiver_step_content [OF con] True show ?thesis
          by (auto simp: up_step_def split: up_input.splits sender_pc.splits)
      next
        case False
        then show ?thesis using con by (simp add: up_step_def)
      qed
    qed
    with inv same show ?thesis by blast
  qed
qed

end
