(* ===== verification/UploadProps.thy ===== *)
theory UploadProps
  imports UploadLaws DownloadProps
begin

text \<open>
  The properties of the pipelined upload, over the codec's own id allocation, for every source,
  every interleaving of the sender and the receiver and every behaviour of the connection.
\<close>

section \<open>What a reachable state satisfies\<close>

lemma reachable_facts:
  assumes "reachable (codec_alloc shared) transmit u0 u" "valid_upload sp sc"
    "uploader_init h s sp sc path = Inr u0" "source_ok s" "\<not> raised u"
  obtains A where "upload_inv A u" "source_of F (sp_start sp) s \<Longrightarrow> content F f u"
    "up_source u = s" "up_depth u = sc_depth sc" "up_start u = sp_start sp" "sp_end sp = Some (up_end u)"
    "up_idle_timeout u = sc_idle_timeout sc" "up_depth u \<le> nat MAX_REQUEST_ID" "1 \<le> up_depth u"
    "same_upload u0 u"
proof -
  note keeps = reachable_keeps [OF assms(1-4), of F f]
  then obtain A where A: "upload_inv A u" "source_of F (sp_start sp) s \<longrightarrow> content F f u" using assms(5) by blast
  have same: "same_upload u0 u" using keeps by blast
  have "same_upload (up_begin u0) u0" using upload_begin(3) [OF assms(2,3)] by (simp add: same_upload_def)
  from same_upload_trans [OF this same] upload_begin(4-8) [OF assms(2,3)] same assms(2)
  have "up_source u = s" "up_depth u = sc_depth sc" "up_start u = sp_start sp" "sp_end sp = Some (up_end u)"
    "up_idle_timeout u = sc_idle_timeout sc" "up_depth u \<le> nat MAX_REQUEST_ID" "1 \<le> up_depth u"
    by (auto simp: same_upload_def valid_upload_def)
  with A same show thesis using that by blast
qed

lemma acknowledged_and_outstanding:
  assumes "upload_inv A u"
  shows "up_acknowledged u + total_length (map snd (up_outstanding u)) = sent_upto u - up_start u"
proof -
  have "hits (A @ map snd (up_outstanding u)) p =
      (if up_start u \<le> p \<and> p < sent_upto u then 1 else 0)" for p
    using upload_invD(5) [OF assms, of p] by simp
  moreover have "up_start u \<le> sent_upto u" using upload_invD(3) [OF assms] by (simp add: sent_upto_def)
  ultimately have "total_length (A @ map snd (up_outstanding u)) = sent_upto u - up_start u"
    by (rule total_of_hits)
  with upload_invD(6) [OF assms] show ?thesis by simp
qed

lemma finished_upload:
  assumes inv: "upload_inv A u" and con: "content F f u" and fin: "up_result u = Finished n"
    and "sp_start sp = up_start u" "sp_end sp = Some (up_end u)"
  shows "n = run_end F sp - sp_start sp"
    "apply_writes (up_sent u) f p = (if sp_start sp \<le> p \<and> p < run_end F sp then Some (F ! p) else f p)"
proof -
  have le: "up_start u \<le> sent_upto u" "sent_upto u \<le> up_end u" "sent_upto u \<le> max (up_start u) (length F)"
    using upload_invD(3,4) [OF inv] con by (auto simp: content_def sent_upto_def)
  have n: "n = up_acknowledged u" "up_finished u \<or> up_end u \<le> up_start u"
    using inv fin unfolding upload_inv_def by metis+
  have upto: "sent_upto u - up_start u = run_end F sp - up_start u \<and>
     (\<forall>q. up_start u \<le> q \<longrightarrow> (q < sent_upto u \<longleftrightarrow> q < run_end F sp)) \<and>
     total_length (map snd (up_outstanding u)) = 0"
  proof (cases "up_finished u")
    case True
    then have "up_all_sent u" "up_outstanding u = []" using upload_invD(7) [OF inv] by auto
    then have "sent_upto u = up_offset u" "up_end u \<le> up_offset u \<or> length F \<le> up_offset u"
      using inv con by (auto simp: upload_inv_def upload_core_def content_def sent_upto_def split: sender_pc.splits)
    with le \<open>up_outstanding u = []\<close> assms(5) show ?thesis by (auto simp: run_end_def)
  next
    case False
    then have "up_end u \<le> up_start u" using n(2) by blast
    moreover have "up_acknowledged u + total_length (map snd (up_outstanding u)) = 0"
      using acknowledged_and_outstanding [OF inv] le calculation by simp
    ultimately show ?thesis using le assms(5) by (auto simp: run_end_def)
  qed
  show "n = run_end F sp - sp_start sp"
    using acknowledged_and_outstanding [OF inv] upto n(1) assms(4) by simp
  show "apply_writes (up_sent u) f p = (if sp_start sp \<le> p \<and> p < run_end F sp then Some (F ! p) else f p)"
    using con upto assms(4) by (auto simp: content_def)
qed

section \<open>Completeness and the window\<close>

text \<open>
  C14. An upload that returns wrote the whole span: whatever order replies came in and however
  short the reads were, it returns the number of bytes of the source between the start and
  the end of the span, and a server carrying out the requests sent holds the source's bytes
  there and what it held before everywhere else.
\<close>

theorem upload_complete:
  assumes "reachable (codec_alloc shared) transmit u0 u" "valid_upload sp sc"
    and "uploader_init h s sp sc path = Inr u0" "source_of F (sp_start sp) s" "up_result u = Finished n"
  shows "n = run_end F sp - sp_start sp \<and>
    (\<forall>p. apply_writes (up_sent u) f p = (if sp_start sp \<le> p \<and> p < run_end F sp then Some (F ! p) else f p))"
proof -
  have "\<not> raised u" using assms(5) by (simp add: raised_def)
  with reachable_facts [OF assms(1-3) source_of_ok [OF assms(4)], of F f] assms(4)
  obtain A where "upload_inv A u" "content F f u" "sp_start sp = up_start u" "sp_end sp = Some (up_end u)"
    by metis
  from finished_upload [OF this(1,2) assms(5) this(3,4)] show ?thesis by blast
qed

text \<open>
  C15. The window is exact: in every state of a run that has not failed, permits and writes in
  flight add up to the depth, ids in flight are distinct, and the bytes acknowledged plus the
  bytes in flight are the bytes handed over.
\<close>

theorem upload_window:
  assumes "reachable (codec_alloc shared) transmit u0 u" "valid_upload sp sc"
    and "uploader_init h s sp sc path = Inr u0" "source_ok s" "\<not> raised u"
  shows "up_permits u + length (up_outstanding u) = sc_depth sc \<and> dict_wf (up_outstanding u) \<and>
    up_acknowledged u + total_length (map snd (up_outstanding u)) = sent_upto u - sp_start sp \<and>
    sp_start sp \<le> sent_upto u \<and> sp_end sp = Some (up_end u) \<and> sent_upto u \<le> up_end u"
proof -
  obtain A where A: "upload_inv A u" "up_depth u = sc_depth sc" "up_start u = sp_start sp"
    "sp_end sp = Some (up_end u)"
    using reachable_facts [OF assms] by metis
  then show ?thesis
    using upload_invD(1-4) [OF A(1)] acknowledged_and_outstanding [OF A(1)]
    by (simp add: sent_upto_def)
qed

section \<open>A run ends\<close>

text \<open>How many inputs of a list changed the state.\<close>

primrec effective :: "allocator \<Rightarrow> sender \<Rightarrow> uploader \<Rightarrow> up_input list \<Rightarrow> nat" where
  "effective alloc transmit u [] = 0"
| "effective alloc transmit u (inp # inputs) =
     (let u' = up_step alloc transmit inp u in (if u' = u then 0 else 1) + effective alloc transmit u' inputs)"

lemma effective_ended: "up_result u \<noteq> Waiting \<Longrightarrow> effective alloc transmit u inputs = 0"
  by (induction inputs) (simp_all add: up_step_def Let_def)

lemma effective_bound:
  assumes "upload_inv A u" "source_ok (up_source u)" "up_depth u \<le> nat MAX_REQUEST_ID"
  shows "effective (codec_alloc shared) transmit u inputs \<le> potential u"
  using assms
proof (induction inputs arbitrary: A u)
  case (Cons inp inputs)
  let ?u = "up_step (codec_alloc shared) transmit inp u"
  show ?case
  proof (cases "up_result u = Waiting \<and> ?u \<noteq> u")
    case False
    then have "?u = u" by (auto simp: up_step_def)
    then show ?thesis using Cons by (simp add: Let_def)
  next
    case True
    then have less: "potential ?u < potential u"
      using codec_download.up_step_potential [where shared = shared, OF Cons.prems(1) _ Cons.prems(3)] by blast
    have "effective (codec_alloc shared) transmit ?u inputs \<le> potential ?u"
    proof (cases "raised ?u")
      case True
      then show ?thesis using effective_ended [of ?u] by (auto simp: raised_def)
    next
      case False
      then obtain A' where "upload_inv A' ?u"
        using codec_download.up_step_inv [where shared = shared, OF Cons.prems] by blast
      then show ?thesis using Cons.IH Cons.prems(2,3) same_upload_step [of u "codec_alloc shared" transmit inp]
        by (metis same_upload_def)
    qed
    with less True show ?thesis by (simp add: Let_def)
  qed
qed simp

lemma potential_begin:
  assumes "valid_upload sp sc" "uploader_init h s sp sc path = Inr u0" "sp_end sp = Some e"
  shows "potential (up_begin u0) \<le> 5 * (e - sp_start sp) + 5"
  using assms
  by (auto simp: valid_upload_def uploader_init_def up_begin_def Let_def potential_def up_report_def sent_upto_def)

text \<open>
  No run goes on for ever: whatever the connection does, at most five inputs for every byte of
  the span, and five more, change the state of an upload.
\<close>

theorem upload_bounded:
  assumes "valid_upload sp sc" "uploader_init h s sp sc path = Inr u0" "source_ok s" "sp_end sp = Some e"
  shows "effective (codec_alloc shared) transmit (up_begin u0) inputs \<le> 5 * (e - sp_start sp) + 5"
proof -
  note begin_facts = upload_begin [OF assms(1,2)]
  have "up_source (up_begin u0) = s" "up_depth (up_begin u0) \<le> nat MAX_REQUEST_ID"
    using begin_facts(3-5) assms(1) by (auto simp: same_upload_def valid_upload_def)
  then have "effective (codec_alloc shared) transmit (up_begin u0) inputs \<le> potential (up_begin u0)"
    using effective_bound [OF begin_facts(1)] assms(3) by simp
  with potential_begin [OF assms(1,2,4)] show ?thesis by linarith
qed

text \<open>A server that confirms a write.\<close>

definition confirms :: "up_input \<Rightarrow> uploader \<Rightarrow> bool" where
  "confirms inp u \<longleftrightarrow> (case inp of
     SenderRuns \<Rightarrow> True
   | ReplyArrives (Write i _ _ _) (Status j c _ _ _) \<Rightarrow> i = j \<and> c = FX_OK \<and> dict_get (up_outstanding u) i \<noteq> None
   | _ \<Rightarrow> False)"

text \<open>Inputs of which each one confirms a write in flight when it comes, or runs the sender.\<close>

primrec confirming :: "allocator \<Rightarrow> sender \<Rightarrow> uploader \<Rightarrow> up_input list \<Rightarrow> bool" where
  "confirming alloc transmit u [] = True"
| "confirming alloc transmit u (inp # inputs) \<longleftrightarrow>
     confirms inp u \<and> confirming alloc transmit (up_step alloc transmit inp u) inputs"

definition accepts_all :: "sender \<Rightarrow> bool" where
  "accepts_all transmit \<longleftrightarrow> (\<forall>req. transmit req = Inr ())"

lemma sender_step_accepts:
  assumes "accepts_all transmit" "\<not> raised u" shows "\<not> raised (sender_step alloc transmit u)"
  using assms by (auto simp: sender_step_def raised_def accepts_all_def Let_def settle_def split: sender_pc.splits)

lemma confirmed_step:
  assumes "dict_get (up_outstanding u) i = Some r" "up_result u = Waiting" "\<not> up_finished u"
  shows "up_step alloc transmit (ReplyArrives (Write i h off d) (Status i FX_OK m l k)) u =
    up_report (settle (u\<lparr>up_outstanding := dict_pop (up_outstanding u) i,
      up_acknowledged := up_acknowledged u + rg_length r, up_permits := up_permits u + 1\<rparr>))"
  using assms by (simp add: up_step_def receiver_step_def acknowledge_def Let_def)

lemma can_move:
  assumes inv: "upload_inv A u" and depth: "1 \<le> up_depth u" and waiting: "up_result u = Waiting"
    and accepts: "accepts_all transmit"
  obtains inp where "confirms inp u" "up_step (codec_alloc shared) transmit inp u \<noteq> u"
    "\<not> raised (up_step (codec_alloc shared) transmit inp u)"
  using sender_or_reply [OF inv waiting depth, of "codec_alloc shared" transmit]
proof (elim disjE conjE)
  assume "sender_step (codec_alloc shared) transmit u \<noteq> u"
  then show thesis
    using that [of SenderRuns] waiting sender_step_accepts [OF accepts]
    by (auto simp: confirms_def up_step_def raised_def)
next
  assume "up_outstanding u \<noteq> []" and fin: "\<not> up_finished u"
  then obtain i r rest where out: "up_outstanding u = (i, r) # rest" by (cases "up_outstanding u") auto
  let ?inp = "ReplyArrives (Write i [] 0 []) (Status i FX_OK [] [] None)"
  have get: "dict_get (up_outstanding u) i = Some r" by (simp add: out dict_get_def)
  note pop = pop_chunk(2) [OF upload_invD(1) [OF inv] get]
  have "up_outstanding (up_step (codec_alloc shared) transmit ?inp u) = dict_pop (up_outstanding u) i"
    unfolding confirmed_step [OF get waiting fin] by simp
  then have "up_step (codec_alloc shared) transmit ?inp u \<noteq> u" using pop by (metis n_not_Suc_n)
  moreover have "\<not> raised (up_step (codec_alloc shared) transmit ?inp u)"
    unfolding confirmed_step [OF get waiting fin] by (simp add: raised_def waiting)
  ultimately show thesis using that [of ?inp] get by (simp add: confirms_def)
qed

lemma upload_can_finish:
  assumes "upload_inv A u" "source_ok (up_source u)" "up_depth u \<le> nat MAX_REQUEST_ID" "1 \<le> up_depth u"
    "accepts_all transmit" "\<not> raised u"
  shows "\<exists>inputs n. length inputs \<le> potential u \<and> confirming (codec_alloc shared) transmit u inputs \<and>
    up_result (foldl (\<lambda>u inp. up_step (codec_alloc shared) transmit inp u) u inputs) = Finished n"
  using assms
proof (induction "potential u" arbitrary: A u rule: less_induct)
  case less
  show ?case
  proof (cases "up_result u = Waiting")
    case False
    then show ?thesis
    proof (cases "up_result u")
      case (Finished n)
      then show ?thesis by (intro exI [of _ "[]"]) simp
    qed (use less.prems(6) False in \<open>simp_all add: raised_def\<close>)
  next
    case True
    obtain inp where inp: "confirms inp u" "up_step (codec_alloc shared) transmit inp u \<noteq> u"
      "\<not> raised (up_step (codec_alloc shared) transmit inp u)"
      using can_move [OF less.prems(1,4) True less.prems(5)] .
    let ?u = "up_step (codec_alloc shared) transmit inp u"
    have smaller: "potential ?u < potential u"
      using codec_download.up_step_potential [where shared = shared, OF less.prems(1) True less.prems(3) inp(2)] .
    obtain A' where "upload_inv A' ?u"
      using codec_download.up_step_inv [where shared = shared, OF less.prems(1-3)] inp(3) by blast
    note inv' = this
    have same: "up_source ?u = up_source u" "up_depth ?u = up_depth u"
      using same_upload_step [of u "codec_alloc shared" transmit inp] by (simp_all add: same_upload_def)
    obtain inputs n where "length inputs \<le> potential ?u" "confirming (codec_alloc shared) transmit ?u inputs"
      "up_result (foldl (\<lambda>u inp. up_step (codec_alloc shared) transmit inp u) ?u inputs) = Finished n"
      using less.hyps [OF smaller inv'] less.prems(2-5) inp(3) unfolding same by blast
    then show ?thesis using inp(1) smaller by (intro exI [of _ "inp # inputs"]) auto
  qed
qed

text \<open>
  C16. An upload is never stuck: from every state a run can be in that has not failed, over a
  connection that takes its requests, the sender and confirmations of writes in flight alone
  finish it, in no more steps than the potential of the state.
\<close>

theorem upload_never_stuck:
  assumes "reachable (codec_alloc shared) transmit u0 u" "valid_upload sp sc"
    and "uploader_init h s sp sc path = Inr u0" "source_ok s" "\<not> raised u" "accepts_all transmit"
  shows "\<exists>inputs n. length inputs \<le> potential u \<and> confirming (codec_alloc shared) transmit u inputs \<and>
    up_result (foldl (\<lambda>u inp. up_step (codec_alloc shared) transmit inp u) u inputs) = Finished n"
proof -
  obtain A where "upload_inv A u" "up_source u = s" "up_depth u \<le> nat MAX_REQUEST_ID" "1 \<le> up_depth u"
    using reachable_facts [OF assms(1-5)] by metis
  with assms(4-6) show ?thesis by (intro upload_can_finish) simp_all
qed

text \<open>
  The idle timeout does not wait for a write to be outstanding: with a timeout set, the first
  thing the receiver can do in a fresh run, before the sender has sent anything, is to fail with a
  timeout that reports no write in flight.
\<close>

theorem upload_idle_before_sending:
  assumes "valid_upload sp sc" "uploader_init h s sp sc path = Inr u0"
    and "sc_idle_timeout sc = Some t" "sp_end sp = Some e" "sp_start sp < e"
  shows "up_result (up_run (codec_alloc shared) transmit [NoReply] u0) =
      Raised (TransferTimeoutErr (Msg ''no response from the server'' [NatArg t, NatArg 0]) 0 None path) \<and>
    up_outstanding (up_begin u0) = [] \<and> up_sent (up_run (codec_alloc shared) transmit [NoReply] u0) = []"
  using assms
  by (auto simp: uploader_init_def up_run_def up_begin_def Let_def up_report_def up_step_def receiver_step_def
      write_timeout_def up_raise_def flatten_exception_group_def)

section \<open>Concrete runs\<close>

text \<open>Three bytes from a buffer, two per write, two in flight, starting at offset ten.\<close>

definition small_upload :: "uploader" where
  "small_upload = (case uploader_init [7] (BufferSource [1, 2, 3] 10) \<lparr>sp_start = 10, sp_end = Some 13\<rparr>
     \<lparr>sc_request_length = 2, sc_depth = 2, sc_idle_timeout = Some 60\<rparr> None of Inr u \<Rightarrow> u | Inl e \<Rightarrow> undefined)"

definition small_inputs :: "up_input list" where
  "small_inputs = replicate 7 SenderRuns @
     [ReplyArrives (Write 2 [7] 12 [3]) (Status 2 FX_OK [] [] None),
      ReplyArrives (Write 1 [7] 10 [1, 2]) (Status 1 FX_OK [] [] None), SenderRuns]"

lemma small_upload_init:
  "uploader_init [7] (BufferSource [1, 2, 3] 10) \<lparr>sp_start = 10, sp_end = Some 13\<rparr>
     \<lparr>sc_request_length = 2, sc_depth = 2, sc_idle_timeout = Some 60\<rparr> None = Inr small_upload"
  by (simp add: small_upload_def uploader_init_def)

lemma small_valid:
  "valid_upload \<lparr>sp_start = 10, sp_end = Some 13\<rparr> \<lparr>sc_request_length = 2, sc_depth = 2, sc_idle_timeout = Some 60\<rparr>"
  by (simp add: valid_upload_def MAX_REQUEST_ID_def)

lemma small_source:
  "source_of (replicate 10 0 @ [1, 2, 3]) (sp_start \<lparr>sp_start = 10, sp_end = Some 13\<rparr>) (BufferSource [1, 2, 3] 10)"
  using buffer_source_of [of "replicate 10 0" 10 "[1, 2, 3]"] by simp

lemma small_result:
  "up_result (up_run (codec_alloc alone) (\<lambda>_. Inr ()) small_inputs small_upload) = Finished 3"
  by code_simp

lemma small_partial:
  "\<not> raised (up_run (codec_alloc alone) (\<lambda>_. Inr ()) (take 7 small_inputs) small_upload)"
  "length (up_outstanding (up_run (codec_alloc alone) (\<lambda>_. Inr ()) (take 7 small_inputs) small_upload)) = 2"
proof -
  have "up_result (up_run (codec_alloc alone) (\<lambda>_. Inr ()) (take 7 small_inputs) small_upload) = Waiting" by code_simp
  then show "\<not> raised (up_run (codec_alloc alone) (\<lambda>_. Inr ()) (take 7 small_inputs) small_upload)"
    by (simp add: raised_def)
qed code_simp

lemma upload_complete_witness:
  "apply_writes (up_sent (up_run (codec_alloc alone) (\<lambda>_. Inr ()) small_inputs small_upload)) (\<lambda>_. None) 11 = Some 2"
  using upload_complete [OF up_run_reachable small_valid small_upload_init small_source small_result, of "\<lambda>_. None"]
  by (simp add: run_end_def nth_append)

lemma upload_window_witness:
  "up_permits (up_run (codec_alloc alone) (\<lambda>_. Inr ()) (take 7 small_inputs) small_upload) = 0"
  using upload_window [OF up_run_reachable small_valid small_upload_init buffer_source_ok small_partial(1)]
    small_partial(2) by simp

lemma upload_bounded_witness:
  "effective (codec_alloc alone) (\<lambda>_. Inr ()) (up_begin small_upload) (replicate 100 SenderRuns) \<le> 20"
  using upload_bounded [OF small_valid small_upload_init buffer_source_ok,
      of 13 alone "\<lambda>_. Inr ()" "replicate 100 SenderRuns"]
  by simp

lemma upload_never_stuck_witness:
  "\<exists>inputs n. length inputs \<le> potential (up_run (codec_alloc alone) (\<lambda>_. Inr ()) (take 7 small_inputs) small_upload) \<and>
    confirming (codec_alloc alone) (\<lambda>_. Inr ()) (up_run (codec_alloc alone) (\<lambda>_. Inr ()) (take 7 small_inputs) small_upload) inputs \<and>
    up_result (foldl (\<lambda>u inp. up_step (codec_alloc alone) (\<lambda>_. Inr ()) inp u)
      (up_run (codec_alloc alone) (\<lambda>_. Inr ()) (take 7 small_inputs) small_upload) inputs) = Finished n"
  by (rule upload_never_stuck [OF up_run_reachable small_valid small_upload_init buffer_source_ok small_partial(1)])
    (simp add: accepts_all_def)

lemma upload_idle_before_sending_witness:
  "up_result (up_run (codec_alloc alone) (\<lambda>_. Inr ()) [NoReply] small_upload) =
    Raised (TransferTimeoutErr (Msg ''no response from the server'' [NatArg 60, NatArg 0]) 0 None None)"
  using upload_idle_before_sending [OF small_valid small_upload_init, of 60 13 alone "\<lambda>_. Inr ()"] by simp

end
