(* ===== verification/Dispatch.thy ===== *)
theory Dispatch
  imports Codec
begin

text \<open>
  The reader of \<open>session/_dispatch.py\<close> and the exchanges it feeds. Exchanges are objects on a
  heap, named by their position; the dispatcher's routing table maps a request id in flight to
  the exchange that sent it. Tasks interleave at their awaits, so what a task does between two
  awaits is one operation here and a run is a sequence of \<open>dp_input\<close>s: an operation opens an
  exchange, asks, takes a step of its \<open>receive\<close> loop or retires the exchange; the write that
  holds the send lock goes on or completes, and a write breaks, times out or is cancelled; a chunk arrives or
  the transport breaks; the reaper takes a step; the session closes.

  The send lock is a queue: tasks get it in the order in which they asked for it, as
  \<open>anyio.Lock\<close> documents, and only its holder writes. \<open>ex_log\<close> and \<open>ex_taken\<close> record the requests accepted from an exchange and the replies its
  owner took from it, \<open>dp_frames\<close> the frames handed to the transport in the order of the lock,
  \<open>dp_cut\<close> whether a write was ever abandoned, and \<open>dp_handles\<close> the handles of unclaimed replies.
\<close>

section \<open>State\<close>

record exchange =
  ex_outstanding :: "int list"
  ex_ready :: "(packet \<times> packet) list"
  ex_failure :: "exn option"
  ex_arrived :: bool
  ex_parked :: bool
  ex_log :: "packet list"
  ex_taken :: "(packet \<times> packet) list"

datatype reader_state = Unstarted | Listening | Stopped
datatype reaper_state = ReaperIdle | Reaping nat

record dispatcher =
  dp_codec :: codec
  dp_send_timeout :: "nat option"
  dp_routes :: "(int, nat) dict"
  dp_heap :: "exchange list"
  dp_live :: "nat list"
  dp_writers :: "(nat \<times> packet \<times> bytes) list"
  dp_taken :: nat
  dp_failure :: "exn option"
  dp_closed :: bool
  dp_unclaimed :: nat
  dp_reader :: reader_state
  dp_orphans :: "bytes list"
  dp_reaper :: reaper_state
  dp_reaped :: nat
  dp_requests_sent :: nat
  dp_replies_received :: nat
  dp_bytes_sent :: nat
  dp_bytes_received :: nat
  dp_pipe :: bytes
  dp_frames :: "bytes list"
  dp_cut :: bool
  dp_handles :: "bytes list"

definition new_exchange :: exchange where
  "new_exchange = \<lparr>ex_outstanding = [], ex_ready = [], ex_failure = None, ex_arrived = False,
     ex_parked = False, ex_log = [], ex_taken = []\<rparr>"

definition new_dispatcher :: "codec \<Rightarrow> nat option \<Rightarrow> dispatcher" where
  "new_dispatcher c send_timeout =
     \<lparr>dp_codec = c, dp_send_timeout = send_timeout, dp_routes = [], dp_heap = [], dp_live = [],
      dp_writers = [], dp_taken = 0, dp_failure = None, dp_closed = False, dp_unclaimed = 0, dp_reader = Unstarted,
      dp_orphans = [], dp_reaper = ReaperIdle, dp_reaped = 0, dp_requests_sent = 0,
      dp_replies_received = 0, dp_bytes_sent = 0, dp_bytes_received = 0, dp_pipe = [],
      dp_frames = [], dp_cut = False, dp_handles = []\<rparr>"

definition with_exchange :: "nat \<Rightarrow> (exchange \<Rightarrow> exchange) \<Rightarrow> dispatcher \<Rightarrow> dispatcher" where
  "with_exchange k f d = d\<lparr>dp_heap := (dp_heap d)[k := f (dp_heap d ! k)]\<rparr>"

section \<open>Exchanges\<close>

definition set_add :: "int \<Rightarrow> int list \<Rightarrow> int list" where
  "set_add i xs = (if i \<in> set xs then xs else xs @ [i])"

definition deliver :: "packet \<Rightarrow> packet \<Rightarrow> exchange \<Rightarrow> exchange" where
  "deliver req resp e =
     e\<lparr>ex_outstanding := (case request_id req of None \<Rightarrow> ex_outstanding e | Some i \<Rightarrow> removeAll i (ex_outstanding e)),
       ex_ready := ex_ready e @ [(req, resp)], ex_arrived := True\<rparr>"

definition ex_fail :: "exn \<Rightarrow> exchange \<Rightarrow> exchange" where
  "ex_fail err e = e\<lparr>ex_failure := Some err, ex_arrived := True\<rparr>"

text \<open>
  One turn of the loop of \<open>Exchange.receive\<close>: a reply, the failure, or a new event and a wait.
  A waiting task runs again only once its event is set.
\<close>

definition receive_turn :: "exchange \<Rightarrow> (exn + packet \<times> packet) option \<times> exchange" where
  "receive_turn e =
     (if ex_parked e \<and> \<not> ex_arrived e then (None, e)
      else (case ex_ready e of
              x # rest \<Rightarrow> (Some (Inr x), e\<lparr>ex_ready := rest, ex_parked := False, ex_taken := ex_taken e @ [x]\<rparr>)
            | [] \<Rightarrow>
                (case ex_failure e of
                   Some err \<Rightarrow> (Some (Inl err), e\<lparr>ex_parked := False\<rparr>)
                 | None \<Rightarrow> (None, e\<lparr>ex_arrived := False, ex_parked := True\<rparr>))))"

definition exchange_open :: "dispatcher \<Rightarrow> nat \<times> dispatcher" where
  "exchange_open d = (length (dp_heap d),
     d\<lparr>dp_heap := dp_heap d @ [new_exchange], dp_live := dp_live d @ [length (dp_heap d)]\<rparr>)"

definition retire :: "nat \<Rightarrow> dispatcher \<Rightarrow> dispatcher" where
  "retire k d = d\<lparr>dp_live := removeAll k (dp_live d),
     dp_routes := fold (\<lambda>i r. dict_pop r i) (ex_outstanding (dp_heap d ! k)) (dp_routes d)\<rparr>"

section \<open>Failure\<close>

definition dp_fail :: "exn \<Rightarrow> dispatcher \<Rightarrow> dispatcher" where
  "dp_fail err d = fold (\<lambda>k. with_exchange k (ex_fail err)) (dp_live d)
     (d\<lparr>dp_failure := Some err, dp_routes := []\<rparr>)"

section \<open>Sending\<close>

text \<open>\<open>submit\<close> up to \<open>_write\<close>, whose frame queues behind the send lock.\<close>

definition submit :: "packet \<Rightarrow> nat \<Rightarrow> dispatcher \<Rightarrow> (exn + unit) \<times> dispatcher" where
  "submit req k d =
     (case dp_failure d of
        Some err \<Rightarrow> (Inl err, d)
      | None \<Rightarrow>
          (if dp_closed d then (Inl (StateErr (Msg ''the session is closed'' [])), d)
           else (case send req (dp_codec d) of
                   (Inl err, c) \<Rightarrow> (Inl err, d\<lparr>dp_codec := c\<rparr>)
                 | (Inr wire, c) \<Rightarrow>
                     (Inr (), (with_exchange k (\<lambda>e. e\<lparr>ex_log := ex_log e @ [req]\<rparr>) d)
                        \<lparr>dp_codec := c,
                         dp_routes := (case request_id req of
                            None \<Rightarrow> dp_routes d | Some i \<Rightarrow> dict_set (dp_routes d) i k),
                         dp_requests_sent := dp_requests_sent d + 1,
                         dp_bytes_sent := dp_bytes_sent d + length wire,
                         dp_writers := dp_writers d @ [(k, req, wire)],
                         dp_frames := dp_frames d @ [wire]\<rparr>))))"

definition exchange_send :: "packet \<Rightarrow> nat \<Rightarrow> dispatcher \<Rightarrow> (exn + unit) \<times> dispatcher" where
  "exchange_send req k d =
     (case request_id req of
        None \<Rightarrow> (Inl (AttributeErr ''request_id''), d)
      | Some i \<Rightarrow> submit req k
          (with_exchange k (\<lambda>e. e\<lparr>ex_outstanding := set_add i (ex_outstanding e)\<rparr>) d))"

text \<open>
  What every caller does in one stretch: allocate an id, build the packet, send it. The inner
  option is that of \<open>allocate_request_id\<close>, whose loop is shown to end.
\<close>

definition ask :: "(int \<Rightarrow> packet) \<Rightarrow> nat \<Rightarrow> dispatcher \<Rightarrow> ((exn + unit) \<times> dispatcher) option" where
  "ask mk k d =
     (case allocate_request_id (dp_codec d) of
        None \<Rightarrow> None
      | Some (Inl err, c) \<Rightarrow> Some (Inl err, d\<lparr>dp_codec := c\<rparr>)
      | Some (Inr i, c) \<Rightarrow> Some (exchange_send (mk i) k (d\<lparr>dp_codec := c\<rparr>)))"

text \<open>
  \<open>_write\<close>: the first of the writers holds the send lock, and \<open>dp_taken\<close> bytes of its frame are in
  the pipe already; the transport's \<open>send\<close> loops, so a frame goes out in pieces. The write ends
  when the rest of the frame is out, or it is abandoned after \<open>n\<close> more bytes.
\<close>

definition write_some :: "nat \<Rightarrow> dispatcher \<Rightarrow> dispatcher" where
  "write_some n d =
     (case dp_writers d of
        [] \<Rightarrow> d
      | (_, _, wire) # rest \<Rightarrow>
          d\<lparr>dp_pipe := dp_pipe d @ take n (drop (dp_taken d) wire), dp_taken := min (dp_taken d + n) (length wire)\<rparr>)"

definition write_done :: "dispatcher \<Rightarrow> dispatcher" where
  "write_done d =
     (case dp_writers d of
        [] \<Rightarrow> d
      | (_, _, wire) # rest \<Rightarrow>
          d\<lparr>dp_pipe := dp_pipe d @ drop (dp_taken d) wire, dp_taken := 0, dp_writers := rest\<rparr>)"

definition abandon_write :: "nat \<Rightarrow> nat \<Rightarrow> dispatcher \<Rightarrow> dispatcher" where
  "abandon_write j n d =
     (let d1 = d\<lparr>dp_writers := take j (dp_writers d) @ drop (j + 1) (dp_writers d), dp_cut := True\<rparr> in
      if j = 0 then d1\<lparr>dp_pipe := dp_pipe d @ take n (drop (dp_taken d) (snd (snd (hd (dp_writers d))))), dp_taken := 0\<rparr>
      else d1)"

text \<open>
  The write that raises is \<open>_close_orphan\<close>'s when the frame is of the reaper's exchange: the
  error is suppressed there, the exchange retired, and the reaper goes on to the next handle.
\<close>

definition release_reaper :: "nat \<Rightarrow> dispatcher \<Rightarrow> dispatcher" where
  "release_reaper k d = (if dp_reaper d = Reaping k then (retire k d)\<lparr>dp_reaper := ReaperIdle\<rparr> else d)"

definition write_timed_out :: "nat \<Rightarrow> nat \<Rightarrow> dispatcher \<Rightarrow> dispatcher" where
  "write_timed_out j n d =
     (case dp_send_timeout d of
        None \<Rightarrow> d
      | Some t \<Rightarrow>
          (if j < length (dp_writers d)
           then release_reaper (fst (dp_writers d ! j))
                  (dp_fail (TransferTimeoutErr (Msg ''the connection did not accept a write''
                     [NatArg (length (snd (snd (dp_writers d ! j)))), NatArg t]) 0 None None) (abandon_write j n d))
           else d))"

text \<open>An error of the transport, or the cancellation of the sending task, records nothing here.\<close>

definition write_abandoned :: "nat \<Rightarrow> nat \<Rightarrow> dispatcher \<Rightarrow> dispatcher" where
  "write_abandoned j n d =
     (if j < length (dp_writers d) then release_reaper (fst (dp_writers d ! j)) (abandon_write j n d) else d)"

section \<open>The reader\<close>

fun orphan :: "packet \<Rightarrow> dispatcher \<Rightarrow> dispatcher" where
  "orphan (Handle _ h) d = d\<lparr>dp_orphans := dp_orphans d @ [h], dp_handles := dp_handles d @ [h]\<rparr>"
| "orphan _ d = d"

definition route :: "event \<Rightarrow> dispatcher \<Rightarrow> (exn + unit) \<times> dispatcher" where
  "route ev d =
     (case ev of
        Negotiated _ _ \<Rightarrow> (Inl (protocol_error (Msg ''server sent Negotiated after the handshake'' []) None None None), d)
      | Completed req resp \<Rightarrow>
          (let d1 = d\<lparr>dp_replies_received := dp_replies_received d + 1\<rparr> in
           case request_id req of
             None \<Rightarrow> (Inl (AttributeErr ''request_id''), d1)
           | Some i \<Rightarrow>
               (case dict_get (dp_routes d) i of
                  None \<Rightarrow> (Inr (), orphan resp (d1\<lparr>dp_unclaimed := dp_unclaimed d + 1\<rparr>))
                | Some k \<Rightarrow> (Inr (), with_exchange k (deliver req resp) (d1\<lparr>dp_routes := dict_pop (dp_routes d) i\<rparr>)))))"

fun route_all :: "event list \<Rightarrow> dispatcher \<Rightarrow> (exn + unit) \<times> dispatcher" where
  "route_all [] d = (Inr (), d)"
| "route_all (ev # evs) d =
     (case route ev d of
        (Inl err, d') \<Rightarrow> (Inl err, d')
      | (Inr _, d') \<Rightarrow> route_all evs d')"

text \<open>\<open>except Exception\<close> of \<open>run\<close>: anything but a cancellation is the connection's failure.\<close>

definition reader_raises :: "exn \<Rightarrow> dispatcher \<Rightarrow> dispatcher" where
  "reader_raises err d = (if err = Cancelled then d else dp_fail err d)\<lparr>dp_reader := Stopped\<rparr>"

definition reader_start :: "dispatcher \<Rightarrow> (exn + unit) \<times> dispatcher" where
  "reader_start d =
     (if dp_reader d \<noteq> Unstarted then (Inl (StateErr (Msg ''this dispatcher already has a reader'' [])), d)
      else (Inr (), d\<lparr>dp_reader := (if dp_closed d then Stopped else Listening)\<rparr>))"

definition reader_chunk :: "bool \<Rightarrow> bytes \<Rightarrow> dispatcher \<Rightarrow> dispatcher" where
  "reader_chunk held chunk d =
     (if dp_reader d \<noteq> Listening then d
      else (let d1 = d\<lparr>dp_bytes_received := dp_bytes_received d + length chunk\<rparr> in
        case receive held chunk (dp_codec d1) of
          (Inl err, c) \<Rightarrow> reader_raises err (d1\<lparr>dp_codec := c\<rparr>)
        | (Inr evs, c) \<Rightarrow>
            (case route_all evs (d1\<lparr>dp_codec := c\<rparr>) of
               (Inl err, d2) \<Rightarrow> reader_raises err d2
             | (Inr _, d2) \<Rightarrow> d2)))"

definition reader_broken :: "exn \<Rightarrow> dispatcher \<Rightarrow> dispatcher" where
  "reader_broken err d = (if dp_reader d \<noteq> Listening then d else reader_raises err d)"

text \<open>\<open>close\<close> cancels the reader and the reaper; the reaper's exchange is retired on the way out.\<close>

definition dp_close :: "dispatcher \<Rightarrow> dispatcher" where
  "dp_close d =
     (let d1 = d\<lparr>dp_closed := True, dp_reader := (if dp_reader d = Unstarted then Unstarted else Stopped)\<rparr> in
      case dp_reaper d1 of
        ReaperIdle \<Rightarrow> d1
      | Reaping k \<Rightarrow> (retire k d1)\<lparr>dp_reaper := ReaperIdle\<rparr>)"

section \<open>The reaper\<close>

text \<open>
  \<open>reap_orphans\<close> and \<open>_close_orphan\<close>: take the next handle, count it, send its CLOSE through an
  exchange of its own, and retire that exchange when the reply or an error comes.
\<close>

definition reap_next :: "dispatcher \<Rightarrow> dispatcher option" where
  "reap_next d =
     (if dp_closed d then Some d
      else (case dp_reaper d of
        Reaping _ \<Rightarrow> Some d
      | ReaperIdle \<Rightarrow>
          (case dp_orphans d of
             [] \<Rightarrow> Some d
           | h # rest \<Rightarrow>
               (let d1 = d\<lparr>dp_orphans := rest, dp_reaped := dp_reaped d + 1\<rparr> in
                case allocate_request_id (dp_codec d1) of
                  None \<Rightarrow> None
                | Some (Inl _, c) \<Rightarrow> Some (d1\<lparr>dp_codec := c\<rparr>)
                | Some (Inr i, c) \<Rightarrow>
                    (case exchange_open (d1\<lparr>dp_codec := c\<rparr>) of
                       (k, d2) \<Rightarrow>
                         (case exchange_send (Close i h) k d2 of
                            (Inl _, d3) \<Rightarrow> Some (retire k d3)
                          | (Inr _, d3) \<Rightarrow> Some (d3\<lparr>dp_reaper := Reaping k\<rparr>)))))))"

definition reap_wait :: "dispatcher \<Rightarrow> dispatcher" where
  "reap_wait d =
     (case dp_reaper d of
        ReaperIdle \<Rightarrow> d
      | Reaping k \<Rightarrow>
          (case receive_turn (dp_heap d ! k) of
             (None, e) \<Rightarrow> with_exchange k (\<lambda>_. e) d
           | (Some _, e) \<Rightarrow> (retire k (with_exchange k (\<lambda>_. e) d))\<lparr>dp_reaper := ReaperIdle\<rparr>))"

section \<open>Runs\<close>

datatype dp_input =
    OpenExchange
  | Ask "int \<Rightarrow> packet" nat
  | TakeReply nat
  | RetireExchange nat
  | WriteSome nat
  | WriteDone
  | WriteTimesOut nat nat
  | WriteAbandoned nat nat
  | StartReader
  | ChunkArrives bool bytes
  | TransportBreaks exn
  | ReapNext
  | ReapWait
  | CloseSession

text \<open>An operation acts on an exchange of its own while it is open.\<close>

definition owned :: "nat \<Rightarrow> dispatcher \<Rightarrow> bool" where
  "owned k d \<longleftrightarrow> k \<in> set (dp_live d) \<and> dp_reaper d \<noteq> Reaping k"

definition take_reply :: "nat \<Rightarrow> dispatcher \<Rightarrow> (exn + packet \<times> packet) option \<times> dispatcher" where
  "take_reply k d =
     (if owned k d
      then (case receive_turn (dp_heap d ! k) of (res, e) \<Rightarrow> (res, with_exchange k (\<lambda>_. e) d))
      else (None, d))"

definition dp_step :: "dp_input \<Rightarrow> dispatcher \<Rightarrow> dispatcher" where
  "dp_step inp d =
     (case inp of
        OpenExchange \<Rightarrow> snd (exchange_open d)
      | Ask mk k \<Rightarrow> (if owned k d then (case ask mk k d of None \<Rightarrow> d | Some r \<Rightarrow> snd r) else d)
      | TakeReply k \<Rightarrow> snd (take_reply k d)
      | RetireExchange k \<Rightarrow> (if owned k d then retire k d else d)
      | WriteSome n \<Rightarrow> write_some n d
      | WriteDone \<Rightarrow> write_done d
      | WriteTimesOut j n \<Rightarrow> write_timed_out j n d
      | WriteAbandoned j n \<Rightarrow> write_abandoned j n d
      | StartReader \<Rightarrow> snd (reader_start d)
      | ChunkArrives held chunk \<Rightarrow> reader_chunk held chunk d
      | TransportBreaks err \<Rightarrow> reader_broken err d
      | ReapNext \<Rightarrow> (case reap_next d of None \<Rightarrow> d | Some d' \<Rightarrow> d')
      | ReapWait \<Rightarrow> reap_wait d
      | CloseSession \<Rightarrow> dp_close d)"

definition dp_run :: "dp_input list \<Rightarrow> dispatcher \<Rightarrow> dispatcher" where
  "dp_run inputs d = foldl (\<lambda>d inp. dp_step inp d) d inputs"

end
