(* ===== verification/DispatchLaws.thy ===== *)
theory DispatchLaws
  imports Dispatch
begin

text \<open>
  What holds in every state of a session: the routing table, the codec's requests in flight
  and the exchanges agree, so a reply goes to the operation that asked; no task sleeps on a
  reply or a failure that has come; frames reach the pipe whole and in order.

  The codec handles all frames of a chunk before the first event is routed, so the invariant is
  stated over \<open>O\<close>, the requests whose replies have not been routed yet.
\<close>

section \<open>The events of a chunk\<close>

primrec events_from :: "(int, packet) dict \<Rightarrow> event list \<Rightarrow> (int, packet) dict \<Rightarrow> bool" where
  "events_from O1 [] O2 \<longleftrightarrow> O2 = O1"
| "events_from O1 (ev # evs) O2 \<longleftrightarrow>
     (\<exists>i req resp. ev = Completed req resp \<and> is_response resp \<and> request_id resp = Some i \<and>
        request_id req = Some i \<and> dict_get O1 i = Some req \<and> events_from (dict_pop O1 i) evs O2)"

lemma handle_frames_events:
  assumes "codec_ok c" "cd_state c = READY" "handle_frames frs c = (Inr evs, c')"
  shows "events_from (cd_outstanding c) evs (cd_outstanding c')"
  using assms
proof (induction frs arbitrary: c evs)
  case (Cons fr frs)
  obtain p ev c1 evs' where h: "decode fr = Inr p" "handle p c = (Inr ev, c1)"
      "handle_frames frs c1 = (Inr evs', c')" "evs = ev # evs'"
    using Cons.prems(3) by (auto split: sum.splits prod.splits)
  have c1: "codec_ok c1" "cd_state c1 = READY" using codec_ok_handle [OF Cons.prems(1) h(2)] by simp_all
  from h(2) Cons.prems(2) obtain i req where ev: "is_response p" "request_id p = Some i"
      "dict_get (cd_outstanding c) i = Some req" "ev = Completed req p"
      "c1 = c\<lparr>cd_outstanding := dict_pop (cd_outstanding c) i\<rparr>"
    unfolding handle_eq by auto
  moreover have "request_id req = Some i" using Cons.prems(1) ev(3) by (simp add: codec_ok_def)
  ultimately show ?case using Cons.IH [OF c1 h(3)] h(4) by auto
qed simp

lemma receive_events:
  assumes "codec_ok c" "cd_state c = READY" "receive held chunk c = (Inr evs, c')"
  shows "events_from (cd_outstanding c) evs (cd_outstanding c')" "codec_ok c'" "cd_state c' = READY"
proof -
  obtain frs sp where r: "handle_frames frs (c\<lparr>cd_splitter := sp\<rparr>) = (Inr evs, c')"
      "codec_ok (c\<lparr>cd_splitter := sp\<rparr>)" "codec_ok c'"
    using receive_ok [OF assms(1,3)] by metis
  show "events_from (cd_outstanding c) evs (cd_outstanding c')"
    using handle_frames_events [OF r(2) _ r(1)] assms(2) by simp
  show "codec_ok c'" by (rule r(3))
  show "cd_state c' = READY"
    using handle_frames_ok [OF r(2,1)] assms(2) by (auto dest: arg_cong [of _ _ cd_state])
qed

section \<open>The invariant\<close>

definition ex_sound :: "exchange \<Rightarrow> bool" where
  "ex_sound e \<longleftrightarrow>
     (ex_parked e \<and> \<not> ex_arrived e \<longrightarrow> ex_ready e = [] \<and> ex_failure e = None) \<and>
     (\<forall>(req, resp) \<in> set (ex_taken e @ ex_ready e). is_response resp \<and> request_id resp = request_id req) \<and>
     distinct (ex_outstanding e)"

definition healthy :: "dispatcher \<Rightarrow> bool" where
  "healthy d \<longleftrightarrow> dp_failure d = None \<and> \<not> dp_closed d"

definition delivered :: "exchange \<Rightarrow> packet list" where
  "delivered e = map fst (ex_taken e @ ex_ready e)"

definition routed :: "(int, packet) dict \<Rightarrow> (int, nat) dict \<Rightarrow> nat \<Rightarrow> exchange \<Rightarrow> packet list" where
  "routed O1 R k e = map (\<lambda>i. the (dict_get O1 i)) (filter (\<lambda>i. dict_get R i = Some k) (ex_outstanding e))"

definition accounts :: "(int, packet) dict \<Rightarrow> (int, nat) dict \<Rightarrow> nat \<Rightarrow> exchange \<Rightarrow> bool" where
  "accounts O1 R k e \<longleftrightarrow> mset (delivered e) + mset (routed O1 R k e) \<subseteq># mset (ex_log e)"

text \<open>An open exchange of a healthy connection: every request is delivered or still routed here.\<close>

definition complete :: "(int, packet) dict \<Rightarrow> (int, nat) dict \<Rightarrow> nat \<Rightarrow> exchange \<Rightarrow> bool" where
  "complete O1 R k e \<longleftrightarrow> mset (delivered e) + mset (routed O1 R k e) = mset (ex_log e) \<and>
     (\<forall>i \<in> set (ex_outstanding e). dict_get R i = Some k)"

definition routes_ok :: "(int, packet) dict \<Rightarrow> dispatcher \<Rightarrow> bool" where
  "routes_ok O1 d \<longleftrightarrow> (\<forall>i k. dict_get (dp_routes d) i = Some k \<longrightarrow>
     k \<in> set (dp_live d) \<and> dict_has O1 i \<and> i \<in> set (ex_outstanding (dp_heap d ! k)))"

definition dispatch_ok :: "(int, packet) dict \<Rightarrow> dispatcher \<Rightarrow> bool" where
  "dispatch_ok O1 d \<longleftrightarrow> routes_ok O1 d \<and>
     (\<forall>k < length (dp_heap d). ex_sound (dp_heap d ! k) \<and> accounts O1 (dp_routes d) k (dp_heap d ! k)) \<and>
     distinct (dp_live d) \<and> (\<forall>k \<in> set (dp_live d). k < length (dp_heap d)) \<and>
     (healthy d \<longrightarrow> (\<forall>k \<in> set (dp_live d). complete O1 (dp_routes d) k (dp_heap d ! k))) \<and>
     (dp_failure d \<noteq> None \<longrightarrow> dp_routes d = [] \<and>
        (\<forall>k \<in> set (dp_live d). ex_failure (dp_heap d ! k) \<noteq> None \<or> ex_log (dp_heap d ! k) = [])) \<and>
     (dp_closed d \<longrightarrow> dp_reader d \<noteq> Listening) \<and>
     (\<forall>k. dp_reaper d = Reaping k \<longrightarrow> k \<in> set (dp_live d))"

definition session_ok :: "dispatcher \<Rightarrow> bool" where
  "session_ok d \<longleftrightarrow> dispatch_ok (cd_outstanding (dp_codec d)) d \<and> codec_ok (dp_codec d) \<and>
     (dp_failure d = None \<or> dp_reader d \<noteq> Stopped \<longrightarrow> cd_state (dp_codec d) = READY)"

lemma dispatch_okD:
  assumes "dispatch_ok O1 d"
  shows "dict_get (dp_routes d) i = Some k \<Longrightarrow> k \<in> set (dp_live d) \<and> dict_has O1 i \<and> i \<in> set (ex_outstanding (dp_heap d ! k))"
    "k < length (dp_heap d) \<Longrightarrow> ex_sound (dp_heap d ! k)"
    "k < length (dp_heap d) \<Longrightarrow> accounts O1 (dp_routes d) k (dp_heap d ! k)"
    "distinct (dp_live d)" "k \<in> set (dp_live d) \<Longrightarrow> k < length (dp_heap d)"
    "healthy d \<Longrightarrow> k \<in> set (dp_live d) \<Longrightarrow> complete O1 (dp_routes d) k (dp_heap d ! k)"
    "dp_failure d \<noteq> None \<Longrightarrow> dp_routes d = []"
    "dp_failure d \<noteq> None \<Longrightarrow> k \<in> set (dp_live d) \<Longrightarrow> ex_failure (dp_heap d ! k) \<noteq> None \<or> ex_log (dp_heap d ! k) = []"
    "dp_closed d \<Longrightarrow> dp_reader d \<noteq> Listening"
    "dp_reaper d = Reaping k \<Longrightarrow> k \<in> set (dp_live d)"
  using assms unfolding dispatch_ok_def routes_ok_def by auto

lemma dispatch_okI:
  assumes "\<And>i k. dict_get (dp_routes d) i = Some k \<Longrightarrow>
      k \<in> set (dp_live d) \<and> dict_has O1 i \<and> i \<in> set (ex_outstanding (dp_heap d ! k))"
    "\<And>k. k < length (dp_heap d) \<Longrightarrow> ex_sound (dp_heap d ! k) \<and> accounts O1 (dp_routes d) k (dp_heap d ! k)"
    "distinct (dp_live d)" "\<And>k. k \<in> set (dp_live d) \<Longrightarrow> k < length (dp_heap d)"
    "\<And>k. dp_failure d = None \<Longrightarrow> \<not> dp_closed d \<Longrightarrow> k \<in> set (dp_live d) \<Longrightarrow> complete O1 (dp_routes d) k (dp_heap d ! k)"
    "\<And>err. dp_failure d = Some err \<Longrightarrow> dp_routes d = []"
    "\<And>err k. dp_failure d = Some err \<Longrightarrow> k \<in> set (dp_live d) \<Longrightarrow>
       ex_failure (dp_heap d ! k) \<noteq> None \<or> ex_log (dp_heap d ! k) = []"
    "dp_closed d \<Longrightarrow> dp_reader d \<noteq> Listening" "\<And>k. dp_reaper d = Reaping k \<Longrightarrow> k \<in> set (dp_live d)"
  shows "dispatch_ok O1 d"
  using assms unfolding dispatch_ok_def routes_ok_def healthy_def by blast

text \<open>Only these parts of a dispatcher matter to the invariant.\<close>

lemma dispatch_ok_cong:
  assumes "dp_routes d' = dp_routes d" "dp_heap d' = dp_heap d" "dp_live d' = dp_live d"
    "dp_failure d' = dp_failure d" "dp_closed d' = dp_closed d" "dp_reader d' = dp_reader d" "dp_reaper d' = dp_reaper d"
  shows "dispatch_ok O1 d' = dispatch_ok O1 d"
  unfolding dispatch_ok_def routes_ok_def healthy_def assms ..

section \<open>Delivering\<close>

lemma with_exchange_fields [simp]:
  "dp_routes (with_exchange k f d) = dp_routes d" "dp_live (with_exchange k f d) = dp_live d"
  "dp_failure (with_exchange k f d) = dp_failure d" "dp_closed (with_exchange k f d) = dp_closed d"
  "dp_reader (with_exchange k f d) = dp_reader d" "dp_reaper (with_exchange k f d) = dp_reaper d"
  "dp_codec (with_exchange k f d) = dp_codec d" "length (dp_heap (with_exchange k f d)) = length (dp_heap d)"
  "healthy (with_exchange k f d) = healthy d"
  "j < length (dp_heap d) \<Longrightarrow> dp_heap (with_exchange k f d) ! j = (if j = k then f (dp_heap d ! k) else dp_heap d ! j)"
  by (auto simp: with_exchange_def healthy_def)

text \<open>Changing one exchange in place, with the routing table and the requests in flight as they are.\<close>

lemma dispatch_ok_exchange:
  assumes inv: "dispatch_ok O1 d" and k: "k < length (dp_heap d)"
    and "ex_outstanding (f (dp_heap d ! k)) = ex_outstanding (dp_heap d ! k)"
    and "ex_log (f (dp_heap d ! k)) = ex_log (dp_heap d ! k)" "delivered (f (dp_heap d ! k)) = delivered (dp_heap d ! k)"
    and "ex_failure (f (dp_heap d ! k)) = ex_failure (dp_heap d ! k)" "ex_sound (f (dp_heap d ! k))"
  shows "dispatch_ok O1 (with_exchange k f d)"
proof -
  have "routed O1 R k (f (dp_heap d ! k)) = routed O1 R k (dp_heap d ! k)" for R by (simp add: routed_def assms(3))
  then have acc: "accounts O1 R k (f (dp_heap d ! k)) = accounts O1 R k (dp_heap d ! k)"
    "complete O1 R k (f (dp_heap d ! k)) = complete O1 R k (dp_heap d ! k)" for R
    using assms(3-5) by (simp_all add: accounts_def complete_def)
  let ?d = "with_exchange k f d"
  have heap: "dp_heap ?d ! j = (if j = k then f (dp_heap d ! k) else dp_heap d ! j)" if "j < length (dp_heap d)" for j
    using that by simp
  have live: "j < length (dp_heap d)" if "j \<in> set (dp_live d)" for j using dispatch_okD(5) [OF inv that] .
  have "routes_ok O1 ?d"
    using dispatch_okD(1) [OF inv] heap live assms(3) by (auto simp: routes_ok_def)
  moreover have "ex_sound (dp_heap ?d ! j) \<and> accounts O1 (dp_routes d) j (dp_heap ?d ! j)"
    if "j < length (dp_heap d)" for j
    using dispatch_okD(2,3) [OF inv that] assms(7) acc unfolding heap [OF that] by auto
  moreover have "complete O1 (dp_routes d) j (dp_heap ?d ! j)" if "healthy d" "j \<in> set (dp_live d)" for j
    using dispatch_okD(6) [OF inv that] acc unfolding heap [OF live [OF that(2)]] by auto
  moreover have "ex_failure (dp_heap ?d ! j) \<noteq> None \<or> ex_log (dp_heap ?d ! j) = []"
    if "dp_failure d \<noteq> None" "j \<in> set (dp_live d)" for j
    using dispatch_okD(8) [OF inv that] assms(4,6) unfolding heap [OF live [OF that(2)]] by auto
  ultimately show ?thesis using inv unfolding dispatch_ok_def with_exchange_fields by blast
qed

lemma routed_other:
  assumes "dict_get R i \<noteq> Some k" "dict_get R' i \<noteq> Some k"
    and "\<And>j. j \<noteq> i \<Longrightarrow> dict_get R' j = dict_get R j" "\<And>j. j \<noteq> i \<Longrightarrow> dict_get O2 j = dict_get O1 j"
  shows "routed O2 R' k e = routed O1 R k e"
proof -
  have "dict_get R' j = Some k \<longleftrightarrow> dict_get R j = Some k" for j using assms(1-3) by metis
  moreover have "dict_get O2 j = dict_get O1 j" if "dict_get R j = Some k" for j using assms(1,4) that by metis
  ultimately show ?thesis unfolding routed_def by (auto intro!: map_cong)
qed

lemma filter_remove_distinct:
  assumes "distinct xs" "i \<in> set xs" "P i"
  shows "mset (filter P xs) = add_mset i (mset (filter P (removeAll i xs)))"
  using assms by (induction xs) (auto simp: removeAll_id)

lemma deliver_fields [simp]:
  "ex_log (deliver req resp e) = ex_log e" "ex_failure (deliver req resp e) = ex_failure e"
  "delivered (deliver req resp e) = delivered e @ [req]"
  "request_id req = Some i \<Longrightarrow> ex_outstanding (deliver req resp e) = removeAll i (ex_outstanding e)"
  by (simp_all add: deliver_def delivered_def)

lemma deliver_sound:
  assumes "ex_sound e" "is_response resp" "request_id resp = request_id req"
  shows "ex_sound (deliver req resp e)"
  using assms by (auto simp: ex_sound_def deliver_def distinct_removeAll split: option.split)

lemma routed_deliver:
  assumes "ex_sound e" "i \<in> set (ex_outstanding e)" "dict_get R i = Some k" "dict_get O1 i = Some req"
    "request_id req = Some i"
  shows "mset (routed O1 R k e) = add_mset req (mset (routed (dict_pop O1 i) (dict_pop R i) k (deliver req resp e)))"
proof -
  let ?xs = "removeAll i (ex_outstanding e)"
  have "mset (filter (\<lambda>i. dict_get R i = Some k) (ex_outstanding e)) =
      add_mset i (mset (filter (\<lambda>i. dict_get R i = Some k) ?xs))"
    by (rule filter_remove_distinct) (use assms in \<open>simp_all add: ex_sound_def\<close>)
  then have "mset (routed O1 R k e) =
      add_mset req (mset (map (\<lambda>i. the (dict_get O1 i)) (filter (\<lambda>i. dict_get R i = Some k) ?xs)))"
    by (simp add: routed_def assms(4))
  also have "map (\<lambda>i. the (dict_get O1 i)) (filter (\<lambda>i. dict_get R i = Some k) ?xs) =
      routed (dict_pop O1 i) (dict_pop R i) k (deliver req resp e)"
    unfolding routed_def deliver_fields(4) [OF assms(5)] by (auto intro!: map_cong filter_cong)
  finally show ?thesis .
qed

text \<open>One event: its reply goes to the exchange its request is routed to, or is counted unclaimed.\<close>

lemma route_claimed:
  assumes inv: "dispatch_ok O1 d" and get: "dict_get O1 i = Some req" and route: "dict_get (dp_routes d) i = Some k"
    and ids: "request_id req = Some i" "request_id resp = Some i" "is_response resp"
    and same: "dp_routes d1 = dict_pop (dp_routes d) i" "dp_heap d1 = dp_heap d" "dp_live d1 = dp_live d"
    "dp_failure d1 = dp_failure d" "dp_closed d1 = dp_closed d" "dp_reader d1 = dp_reader d" "dp_reaper d1 = dp_reaper d"
  shows "dispatch_ok (dict_pop O1 i) (with_exchange k (deliver req resp) d1)"
proof -
  let ?d = "with_exchange k (deliver req resp) d1" and ?O = "dict_pop O1 i" and ?R = "dict_pop (dp_routes d) i"
  have k: "k \<in> set (dp_live d)" "k < length (dp_heap d)" "i \<in> set (ex_outstanding (dp_heap d ! k))"
    using dispatch_okD(1) [OF inv route] dispatch_okD(5) [OF inv] by auto
  have alive: "dp_failure d = None" using dispatch_okD(7) [OF inv] route by (cases "dp_failure d") auto
  have heap: "j < length (dp_heap d) \<Longrightarrow>
      dp_heap ?d ! j = (if j = k then deliver req resp (dp_heap d ! k) else dp_heap d ! j)" for j
    using same(2) by simp
  note sound = dispatch_okD(2) [OF inv] and accs = dispatch_okD(3) [OF inv]
  have rk: "mset (routed O1 (dp_routes d) k (dp_heap d ! k)) =
      add_mset req (mset (routed ?O ?R k (deliver req resp (dp_heap d ! k))))"
    by (rule routed_deliver [OF sound [OF k(2)] k(3) route get ids(1)])
  have rj: "routed ?O ?R j e = routed O1 (dp_routes d) j e" if "j \<noteq> k" for j e
    by (rule routed_other [of _ i]) (use route that in auto)
  show ?thesis
  proof (rule dispatch_okI, goal_cases)
    case (1 j k')
    then show ?case
      using dispatch_okD(1) [OF inv, of j k'] dispatch_okD(5) [OF inv] same ids(1) heap
      by (auto split: if_splits)
  next
    case (2 j)
    then have "j < length (dp_heap d)" using same(2) by simp
    then show ?case
      using sound accs [of j] deliver_sound [OF sound [OF k(2)] ids(3), of req] ids rk rj same(1) heap [of j]
      by (auto simp: accounts_def)
  next
    case (5 j)
    then have j: "healthy d" "j \<in> set (dp_live d)" "j < length (dp_heap d)"
      using same dispatch_okD(5) [OF inv] by (auto simp: healthy_def)
    then show ?case
      using dispatch_okD(6) [OF inv j(1,2)] rk rj route ids(1) same(1) heap [of j] by (auto simp: complete_def)
  qed (use same alive dispatch_okD(4,5,9,10) [OF inv] in auto)
qed

lemma dispatch_ok_unrouted:
  assumes inv: "dispatch_ok O1 d" and free: "dict_get (dp_routes d) i = None"
  shows "dispatch_ok (dict_pop O1 i) d"
proof -
  have same: "routed (dict_pop O1 i) (dp_routes d) j e = routed O1 (dp_routes d) j e" for j e
    by (rule routed_other [of _ i]) (use free in auto)
  show ?thesis
  proof (rule dispatch_okI, goal_cases)
    case (1 j k)
    then show ?case using dispatch_okD(1) [OF inv 1] free by auto
  next
    case (2 j)
    then show ?case using dispatch_okD(2,3) [OF inv 2] same by (simp add: accounts_def)
  next
    case (5 j)
    then show ?case using dispatch_okD(6) [OF inv _ 5(3)] same by (simp add: complete_def healthy_def)
  qed (use dispatch_okD(4,5,7-10) [OF inv] in auto)
qed

lemma orphan_fields [simp]:
  "dp_routes (orphan r d) = dp_routes d" "dp_heap (orphan r d) = dp_heap d" "dp_live (orphan r d) = dp_live d"
  "dp_failure (orphan r d) = dp_failure d" "dp_closed (orphan r d) = dp_closed d"
  "dp_reader (orphan r d) = dp_reader d" "dp_reaper (orphan r d) = dp_reaper d" "dp_codec (orphan r d) = dp_codec d"
  by (cases r; simp)+

lemma route_ok:
  assumes inv: "dispatch_ok O1 d" and get: "dict_get O1 i = Some req"
    and ids: "request_id req = Some i" "request_id resp = Some i" "is_response resp"
  obtains d' where "route (Completed req resp) d = (Inr (), d')" "dispatch_ok (dict_pop O1 i) d'"
    "dp_codec d' = dp_codec d" "dp_failure d' = dp_failure d"
proof (cases "dict_get (dp_routes d) i")
  case None
  let ?d = "orphan resp (d\<lparr>dp_replies_received := dp_replies_received d + 1, dp_unclaimed := dp_unclaimed d + 1\<rparr>)"
  have "dispatch_ok (dict_pop O1 i) ?d = dispatch_ok (dict_pop O1 i) d" by (rule dispatch_ok_cong) simp_all
  then show thesis
    using that [of ?d] dispatch_ok_unrouted [OF inv None] None ids(1) by (simp add: route_def Let_def)
next
  case (Some k)
  let ?d1 = "d\<lparr>dp_replies_received := dp_replies_received d + 1, dp_routes := dict_pop (dp_routes d) i\<rparr>"
  have "dispatch_ok (dict_pop O1 i) (with_exchange k (deliver req resp) ?d1)"
    by (rule route_claimed [OF inv get Some ids]) simp_all
  then show thesis
    using that [of "with_exchange k (deliver req resp) ?d1"] Some ids(1) by (simp add: route_def Let_def)
qed

lemma route_all_ok:
  assumes "dispatch_ok O1 d" "events_from O1 evs O2"
  shows "\<exists>d'. route_all evs d = (Inr (), d') \<and> dispatch_ok O2 d' \<and>
    dp_codec d' = dp_codec d \<and> dp_failure d' = dp_failure d"
  using assms
proof (induction evs arbitrary: O1 d)
  case (Cons ev evs)
  from Cons.prems(2) obtain i req resp where ev: "ev = Completed req resp" "is_response resp"
      "request_id resp = Some i" "request_id req = Some i" "dict_get O1 i = Some req"
      "events_from (dict_pop O1 i) evs O2" by auto
  obtain d1 where d1: "route ev d = (Inr (), d1)" "dispatch_ok (dict_pop O1 i) d1"
      "dp_codec d1 = dp_codec d" "dp_failure d1 = dp_failure d"
    using route_ok [OF Cons.prems(1) ev(5,4,3,2)] unfolding ev(1) by metis
  from Cons.IH [OF d1(2) ev(6)] d1 show ?case by auto
qed simp

section \<open>Failing\<close>

lemma ex_fail_fields [simp]:
  "ex_log (ex_fail err e) = ex_log e" "ex_failure (ex_fail err e) = Some err"
  "ex_outstanding (ex_fail err e) = ex_outstanding e" "delivered (ex_fail err e) = delivered e"
  by (simp_all add: ex_fail_def delivered_def)

lemma ex_fail_sound: "ex_sound e \<Longrightarrow> ex_sound (ex_fail err e)"
  by (simp add: ex_sound_def ex_fail_def)

lemma fold_with_exchange:
  assumes "distinct ks"
  shows "j < length (dp_heap d) \<Longrightarrow> dp_heap (fold (\<lambda>k. with_exchange k f) ks d) ! j =
      (if j \<in> set ks then f (dp_heap d ! j) else dp_heap d ! j)"
    and "length (dp_heap (fold (\<lambda>k. with_exchange k f) ks d)) = length (dp_heap d)"
    and "dp_routes (fold (\<lambda>k. with_exchange k f) ks d) = dp_routes d"
    and "dp_live (fold (\<lambda>k. with_exchange k f) ks d) = dp_live d"
    and "dp_failure (fold (\<lambda>k. with_exchange k f) ks d) = dp_failure d"
    and "dp_closed (fold (\<lambda>k. with_exchange k f) ks d) = dp_closed d"
    and "dp_reader (fold (\<lambda>k. with_exchange k f) ks d) = dp_reader d"
    and "dp_reaper (fold (\<lambda>k. with_exchange k f) ks d) = dp_reaper d"
    and "dp_codec (fold (\<lambda>k. with_exchange k f) ks d) = dp_codec d"
  using assms by (induction ks arbitrary: d) auto

lemma dp_fail_fields [simp]:
  "dp_routes (dp_fail err d) = []" "dp_failure (dp_fail err d) = Some err" "dp_codec (dp_fail err d) = dp_codec d"
  "dp_closed (dp_fail err d) = dp_closed d" "dp_live (dp_fail err d) = dp_live d"
  "dp_reader (dp_fail err d) = dp_reader d" "dp_reaper (dp_fail err d) = dp_reaper d"
  if "distinct (dp_live d)"
  using that by (simp_all add: dp_fail_def fold_with_exchange)

lemma dp_fail_heap:
  assumes "distinct (dp_live d)"
  shows "length (dp_heap (dp_fail err d)) = length (dp_heap d)"
    "j < length (dp_heap d) \<Longrightarrow> dp_heap (dp_fail err d) ! j =
       (if j \<in> set (dp_live d) then ex_fail err (dp_heap d ! j) else dp_heap d ! j)"
  using assms by (simp_all add: dp_fail_def fold_with_exchange)

lemma accounts_fewer:
  assumes "accounts O1 R k e" shows "accounts O2 [] k e"
proof -
  have "mset (delivered e) \<subseteq># mset (ex_log e)"
    using assms subset_mset.trans [OF mset_subset_eq_add_left] unfolding accounts_def by blast
  then show ?thesis by (simp add: accounts_def routed_def)
qed

lemma dispatch_ok_fail:
  assumes inv: "dispatch_ok O1 d" shows "dispatch_ok O2 (dp_fail err d)"
proof -
  note dist = dispatch_okD(4) [OF inv]
  show ?thesis
  proof (rule dispatch_okI, goal_cases)
    case (2 j)
    then have j: "j < length (dp_heap d)" by (simp add: dp_fail_heap dist)
    have "accounts O2 [] j (ex_fail err (dp_heap d ! j)) = accounts O2 [] j (dp_heap d ! j)"
      by (simp add: accounts_def routed_def)
    then show ?case
      using dispatch_okD(2) [OF inv j] accounts_fewer [OF dispatch_okD(3) [OF inv j]] ex_fail_sound
      by (simp add: dp_fail_heap dist j)
  qed (use dispatch_okD(4,5,9,10) [OF inv] in \<open>auto simp: dp_fail_heap\<close>)
qed

section \<open>Opening, taking and retiring\<close>

lemma new_exchange_ok [simp]:
  "ex_sound new_exchange" "accounts O1 R k new_exchange" "complete O1 R k new_exchange"
  "ex_log new_exchange = []" "ex_outstanding new_exchange = []"
  by (simp_all add: new_exchange_def ex_sound_def accounts_def complete_def delivered_def routed_def)

lemma exchange_open_ok:
  assumes inv: "dispatch_ok O1 d" and opens: "exchange_open d = (k, d')"
  shows "dispatch_ok O1 d'" "k = length (dp_heap d)" "k \<in> set (dp_live d')" "dp_codec d' = dp_codec d"
    "dp_failure d' = dp_failure d" "dp_closed d' = dp_closed d" "dp_reaper d' = dp_reaper d" "dp_reader d' = dp_reader d"
    "dp_heap d' ! k = new_exchange" "length (dp_heap d') = Suc k"
proof -
  have d': "d' = d\<lparr>dp_heap := dp_heap d @ [new_exchange], dp_live := dp_live d @ [length (dp_heap d)]\<rparr>"
    and k: "k = length (dp_heap d)" using opens by (auto simp: exchange_open_def)
  note live = dispatch_okD(5) [OF inv]
  show "dispatch_ok O1 d'"
    unfolding d'
  proof (rule dispatch_okI, goal_cases)
    case (1 i j)
    then show ?case using dispatch_okD(1) [OF inv, of i j] live by (auto simp: nth_append)
  next
    case (2 j)
    then show ?case using dispatch_okD(2,3) [OF inv, of j] by (cases "j < length (dp_heap d)") (auto simp: nth_append)
  next
    case (5 j)
    then show ?case using dispatch_okD(6) [OF inv, of j] live by (auto simp: nth_append healthy_def)
  next
    case (7 err j)
    then show ?case using dispatch_okD(8) [OF inv, of j] live by (auto simp: nth_append)
  qed (use dispatch_okD(4,5,7,9,10) [OF inv] in \<open>auto dest: live simp: less_Suc_eq\<close>)
qed (use opens in \<open>auto simp: exchange_open_def nth_append\<close>)

lemma receive_turn_fields:
  assumes "ex_sound e" "receive_turn e = (res, e')"
  shows "ex_sound e'" "ex_outstanding e' = ex_outstanding e" "ex_log e' = ex_log e"
    "delivered e' = delivered e" "ex_failure e' = ex_failure e"
  using assms by (auto simp: receive_turn_def ex_sound_def delivered_def split: if_splits list.splits option.splits)

lemma receive_turn_ok:
  assumes inv: "dispatch_ok O1 d" and "k \<in> set (dp_live d)" "receive_turn (dp_heap d ! k) = (res, e')"
  shows "dispatch_ok O1 (with_exchange k (\<lambda>_. e') d)"
proof -
  have k: "k < length (dp_heap d)" using dispatch_okD(5) [OF inv assms(2)] .
  from receive_turn_fields [OF dispatch_okD(2) [OF inv k] assms(3)] show ?thesis
    by (intro dispatch_ok_exchange [OF inv k]) simp_all
qed

lemma fold_dict_pop: "dict_get (fold (\<lambda>i r. dict_pop r i) xs r) j = (if j \<in> set xs then None else dict_get r j)"
  by (induction xs arbitrary: r) auto

lemma mset_map_filter_fewer: "mset (map f (filter Q xs)) \<subseteq># mset (map f xs)"
proof -
  have "mset (map f xs) = mset (map f (filter Q xs)) + mset (map f (filter (\<lambda>x. \<not> Q x) xs))"
    by (induction xs) simp_all
  then show ?thesis by simp
qed

text \<open>Retiring an exchange touches no request of another one.\<close>

lemma retire_ok:
  assumes inv: "dispatch_ok O1 d" and idle: "dp_reaper d \<noteq> Reaping k" and k: "k \<in> set (dp_live d)"
  shows "dispatch_ok O1 (retire k d)"
proof -
  let ?R = "fold (\<lambda>i r. dict_pop r i) (ex_outstanding (dp_heap d ! k)) (dp_routes d)"
  have get: "dict_get ?R j = (if j \<in> set (ex_outstanding (dp_heap d ! k)) then None else dict_get (dp_routes d) j)" for j
    by (rule fold_dict_pop)
  have fewer: "mset (routed O1 ?R j e) \<subseteq># mset (routed O1 (dp_routes d) j e)" for j e
  proof -
    have "filter (\<lambda>i. dict_get ?R i = Some j) xs =
        filter (\<lambda>i. i \<notin> set (ex_outstanding (dp_heap d ! k))) (filter (\<lambda>i. dict_get (dp_routes d) i = Some j) xs)" for xs
      by (auto simp: get intro: filter_cong)
    then show ?thesis unfolding routed_def by (simp only: mset_map_filter_fewer)
  qed
  have same: "routed O1 ?R j (dp_heap d ! j) = routed O1 (dp_routes d) j (dp_heap d ! j)"
    and kept: "\<forall>i \<in> set (ex_outstanding (dp_heap d ! j)). dict_get ?R i = Some j"
    if "healthy d" "j \<in> set (dp_live d)" "j \<noteq> k" for j
  proof -
    have mine: "dict_get (dp_routes d) i = Some j" if "i \<in> set (ex_outstanding (dp_heap d ! j))" for i
      using dispatch_okD(6) [OF inv \<open>healthy d\<close> \<open>j \<in> set (dp_live d)\<close>] that by (simp add: complete_def)
    moreover have "dict_get (dp_routes d) i = Some k" if "i \<in> set (ex_outstanding (dp_heap d ! k))" for i
      using dispatch_okD(6) [OF inv \<open>healthy d\<close> k] that by (simp add: complete_def)
    ultimately have rest: "dict_get ?R i = Some j" if "i \<in> set (ex_outstanding (dp_heap d ! j))" for i
      using that \<open>j \<noteq> k\<close> unfolding get by (metis option.inject)
    from rest show "\<forall>i \<in> set (ex_outstanding (dp_heap d ! j)). dict_get ?R i = Some j" by blast
    have "filter (\<lambda>i. dict_get ?R i = Some j) (ex_outstanding (dp_heap d ! j)) =
        filter (\<lambda>i. dict_get (dp_routes d) i = Some j) (ex_outstanding (dp_heap d ! j))"
      by (rule filter_cong) (use rest mine in blast)+
    then show "routed O1 ?R j (dp_heap d ! j) = routed O1 (dp_routes d) j (dp_heap d ! j)" by (simp add: routed_def)
  qed
  show ?thesis
    unfolding retire_def
  proof (rule dispatch_okI, goal_cases)
    case (1 i j)
    then have "i \<notin> set (ex_outstanding (dp_heap d ! k))" "dict_get (dp_routes d) i = Some j"
      by (simp_all add: get split: if_splits)
    then show ?case using dispatch_okD(1) [OF inv, of i j] by auto
  next
    case (2 j)
    then show ?case
      using dispatch_okD(2,3) [OF inv, of j] subset_mset.trans [OF mset_subset_eq_mono_add [OF subset_mset.order_refl fewer]]
      by (auto simp: accounts_def)
  next
    case (5 j)
    then show ?case using dispatch_okD(6) [OF inv, of j] same [of j] kept [of j] by (simp add: complete_def healthy_def)
  next
    case (6 err)
    have "fold (\<lambda>i r. dict_pop r i) xs [] = []" for xs :: "int list" by (induction xs) (simp_all add: dict_pop_def)
    with 6 show ?case using dispatch_okD(7) [OF inv] by simp
  qed (use dispatch_okD(4,5,8-10) [OF inv] idle in \<open>auto simp: distinct_removeAll\<close>)
qed

section \<open>Sending\<close>

text \<open>A request that no exchange of a healthy connection waits for, and its send accepted.\<close>

lemma submit_accepted:
  assumes inv: "dispatch_ok O1 d" and well: "healthy d" and k: "k \<in> set (dp_live d)"
    and fresh: "\<not> dict_has O1 i" and id: "request_id req = Some i"
    and heap: "dp_heap d' = (dp_heap d)[k := (dp_heap d ! k)\<lparr>ex_outstanding := ex_outstanding (dp_heap d ! k) @ [i],
        ex_log := ex_log (dp_heap d ! k) @ [req]\<rparr>]"
    and same: "dp_routes d' = dict_set (dp_routes d) i k" "dp_live d' = dp_live d"
    "dp_failure d' = dp_failure d" "dp_closed d' = dp_closed d" "dp_reader d' = dp_reader d" "dp_reaper d' = dp_reaper d"
  shows "dispatch_ok (dict_set O1 i req) d'"
proof -
  let ?O = "dict_set O1 i req" and ?R = "dict_set (dp_routes d) i k" and ?e = "dp_heap d ! k"
  note klen = dispatch_okD(5) [OF inv k]
  have unrouted: "dict_get (dp_routes d) i = None"
    using dispatch_okD(1) [OF inv, of i] fresh by (cases "dict_get (dp_routes d) i") auto
  have notin: "i \<notin> set (ex_outstanding (dp_heap d ! j))" if "j \<in> set (dp_live d)" for j
  proof
    assume "i \<in> set (ex_outstanding (dp_heap d ! j))"
    then show False using dispatch_okD(6) [OF inv well that] unrouted by (simp add: complete_def)
  qed
  have rj: "routed ?O ?R j e = routed O1 (dp_routes d) j e" if "j \<noteq> k" for j e
    by (rule routed_other [of _ i]) (use unrouted that in auto)
  have "filter (\<lambda>j. dict_get ?R j = Some k) (ex_outstanding ?e) =
      filter (\<lambda>j. dict_get (dp_routes d) j = Some k) (ex_outstanding ?e)"
    by (rule filter_cong) (use notin [OF k] in auto)
  moreover have "map (\<lambda>j. the (dict_get ?O j)) (filter P (ex_outstanding ?e)) =
      map (\<lambda>j. the (dict_get O1 j)) (filter P (ex_outstanding ?e))" for P
    using notin [OF k] by auto
  ultimately have rk: "routed ?O ?R k (?e\<lparr>ex_outstanding := ex_outstanding ?e @ [i], ex_log := ex_log ?e @ [req]\<rparr>) =
      routed O1 (dp_routes d) k ?e @ [req]"
    unfolding routed_def by simp
  have new: "dp_heap d' ! j = (if j = k then ?e\<lparr>ex_outstanding := ex_outstanding ?e @ [i], ex_log := ex_log ?e @ [req]\<rparr>
      else dp_heap d ! j)" if "j < length (dp_heap d)" for j
    using that klen unfolding heap by simp
  have len: "length (dp_heap d') = length (dp_heap d)" by (simp add: heap)
  show ?thesis
  proof (rule dispatch_okI, goal_cases)
    case (1 a j)
    then show ?case
      using dispatch_okD(1) [OF inv, of a j] dispatch_okD(5) [OF inv] same k klen new [of j]
      by (auto split: if_splits)
  next
    case (2 j)
    then have j: "j < length (dp_heap d)" by (simp add: len)
    have "ex_sound (?e\<lparr>ex_outstanding := ex_outstanding ?e @ [i], ex_log := ex_log ?e @ [req]\<rparr>)"
      using dispatch_okD(2) [OF inv klen] notin [OF k] by (simp add: ex_sound_def)
    then show ?case
      using dispatch_okD(2,3) [OF inv j] rj rk same(1) unfolding new [OF j]
      by (auto simp: accounts_def delivered_def add.assoc)
  next
    case (5 j)
    then have j: "j \<in> set (dp_live d)" "j < length (dp_heap d)" using same dispatch_okD(5) [OF inv] by auto
    show ?case
      using dispatch_okD(6) [OF inv well j(1)] rj rk same(1) notin [OF j(1)] unfolding new [OF j(2)]
      by (auto simp: complete_def delivered_def add.assoc)
  qed (use dispatch_okD(4,5,9,10) [OF inv] well same len in \<open>auto simp: healthy_def\<close>)
qed

text \<open>On a connection that is closed or has failed the id is left with the exchange, unrouted.\<close>

lemma dispatch_ok_unsent:
  assumes inv: "dispatch_ok O1 d" and sick: "\<not> healthy d" and k: "k \<in> set (dp_live d)"
    and fresh: "\<not> dict_has O1 i"
  shows "dispatch_ok O1 (with_exchange k (\<lambda>e. e\<lparr>ex_outstanding := set_add i (ex_outstanding e)\<rparr>) d)"
proof -
  let ?f = "\<lambda>e. e\<lparr>ex_outstanding := set_add i (ex_outstanding e)\<rparr>"
  let ?d = "with_exchange k ?f d"
  have unrouted: "dict_get (dp_routes d) i = None"
    using dispatch_okD(1) [OF inv, of i] fresh by (cases "dict_get (dp_routes d) i") auto
  have "routed O1 (dp_routes d) j (?f e) = routed O1 (dp_routes d) j e" for j e
    by (simp add: routed_def set_add_def unrouted)
  then have acc: "accounts O1 (dp_routes d) j (?f e) = accounts O1 (dp_routes d) j e" for j e
    by (simp add: accounts_def delivered_def)
  have sound: "ex_sound e \<Longrightarrow> ex_sound (?f e)" for e by (auto simp: ex_sound_def set_add_def)
  have heap: "dp_heap ?d ! j = (if j = k then ?f (dp_heap d ! k) else dp_heap d ! j)" if "j < length (dp_heap d)" for j
    using that by simp
  have live: "j < length (dp_heap d)" if "j \<in> set (dp_live d)" for j using dispatch_okD(5) [OF inv that] .
  show ?thesis
  proof (rule dispatch_okI, goal_cases)
    case (1 a j)
    then show ?case using dispatch_okD(1) [OF inv, of a j] heap [OF live, of j] by (auto simp: set_add_def)
  next
    case (2 j)
    then have j: "j < length (dp_heap d)" by simp
    then show ?case using dispatch_okD(2,3) [OF inv j] acc sound unfolding heap [OF j] by auto
  next
    case (7 err j)
    then show ?case using dispatch_okD(8) [OF inv, of j] heap [OF live, of j] by auto
  qed (use dispatch_okD(4,5,7,9,10) [OF inv] sick in \<open>auto simp: healthy_def\<close>)
qed

text \<open>A request every caller could send: an id of its own and fields that fit the wire.\<close>

definition sendable :: "(int \<Rightarrow> packet) \<Rightarrow> bool" where
  "sendable mk \<longleftrightarrow> (\<forall>i. MIN_REQUEST_ID \<le> i \<and> i \<le> MAX_REQUEST_ID \<longrightarrow>
     request_id (mk i) = Some i \<and> (\<exists>wire. encode (mk i) = Inr wire))"

lemma send_cases:
  assumes "codec_ok c" "cd_state c = READY" "\<not> dict_has (cd_outstanding c) i" "request_id req = Some i"
  obtains (refused) err where "send req c = (Inl err, c)" "encode req = Inl err"
  | (accepted) wire where "send req c = (Inr wire, c\<lparr>cd_outstanding := dict_set (cd_outstanding c) i req\<rparr>)"
      "encode req = Inr wire"
  using assms by (cases "encode req") (auto simp: send_def require_state_def)

section \<open>Every step\<close>

lemma session_okI:
  assumes "dispatch_ok (cd_outstanding (dp_codec d)) d" "codec_ok (dp_codec d)"
    "dp_failure d = None \<or> dp_reader d \<noteq> Stopped \<Longrightarrow> cd_state (dp_codec d) = READY"
  shows "session_ok d"
  using assms by (simp add: session_ok_def)

lemma session_ok_cong:
  assumes "dp_routes d' = dp_routes d" "dp_heap d' = dp_heap d" "dp_live d' = dp_live d"
    "dp_failure d' = dp_failure d" "dp_closed d' = dp_closed d" "dp_reader d' = dp_reader d"
    "dp_reaper d' = dp_reaper d" "dp_codec d' = dp_codec d"
  shows "session_ok d' = session_ok d"
  using dispatch_ok_cong [OF assms(1-7)] assms(4,6,8) by (simp add: session_ok_def)

lemma session_ok_reaper:
  assumes "session_ok d" "\<And>k. r = Reaping k \<Longrightarrow> k \<in> set (dp_live d)"
  shows "session_ok (d\<lparr>dp_reaper := r\<rparr>)"
proof -
  have inv: "dispatch_ok (cd_outstanding (dp_codec d)) d" using assms(1) by (simp add: session_ok_def)
  have "dispatch_ok (cd_outstanding (dp_codec d)) (d\<lparr>dp_reaper := r\<rparr>)"
    by (rule dispatch_okI) (use dispatch_okD [OF inv] assms(2) in \<open>simp_all add: healthy_def\<close>)
  then show ?thesis using assms(1) by (simp add: session_ok_def)
qed

lemma session_ok_stopping:
  assumes "session_ok d" "r \<noteq> Listening \<or> \<not> dp_closed d" "r = Stopped \<or> r = dp_reader d \<or> dp_reader d = Unstarted"
    "c \<longrightarrow> r \<noteq> Listening" "dp_closed d \<longrightarrow> c"
  shows "session_ok (d\<lparr>dp_closed := c, dp_reader := r\<rparr>)"
proof -
  have inv: "dispatch_ok (cd_outstanding (dp_codec d)) d" using assms(1) by (simp add: session_ok_def)
  have "dispatch_ok (cd_outstanding (dp_codec d)) (d\<lparr>dp_closed := c, dp_reader := r\<rparr>)"
    by (rule dispatch_okI) (use dispatch_okD [OF inv] assms(4,5) in \<open>simp_all add: healthy_def\<close>)
  then show ?thesis using assms(1,3) by (auto simp: session_ok_def)
qed

lemma session_ok_exchange_send:
  assumes ok: "session_ok d" and k: "k \<in> set (dp_live d)" and fresh: "\<not> dict_has (cd_outstanding (dp_codec d)) i"
    and id: "request_id req = Some i" and r: "exchange_send req k d = (res, d')"
    and encodes: "healthy d \<Longrightarrow> \<exists>wire. encode req = Inr wire"
  shows "session_ok d'" "dp_reaper d' = dp_reaper d" "dp_live d' = dp_live d"
proof -
  have inv: "dispatch_ok (cd_outstanding (dp_codec d)) d" and cok: "codec_ok (dp_codec d)"
    using ok by (simp_all add: session_ok_def)
  let ?f = "\<lambda>e. e\<lparr>ex_outstanding := set_add i (ex_outstanding e)\<rparr>"
  have d': "submit req k (with_exchange k ?f d) = (res, d')" using r id by (simp add: exchange_send_def)
  have "session_ok d' \<and> dp_reaper d' = dp_reaper d \<and> dp_live d' = dp_live d"
  proof (cases "healthy d")
    case False
    then have "d' = with_exchange k ?f d" using d' by (auto simp: submit_def healthy_def split: option.splits)
    then show ?thesis using dispatch_ok_unsent [OF inv False k fresh] ok by (simp add: session_ok_def)
  next
    case True
    then have ready: "cd_state (dp_codec d) = READY" using ok by (simp add: session_ok_def healthy_def)
    obtain wire where wire: "send req (dp_codec d) =
        (Inr wire, (dp_codec d)\<lparr>cd_outstanding := dict_set (cd_outstanding (dp_codec d)) i req\<rparr>)"
      using send_cases [OF cok ready fresh id] encodes [OF True] by (metis sum.distinct(1))
    have klen: "k < length (dp_heap d)" using dispatch_okD(5) [OF inv k] .
    have "i \<notin> set (ex_outstanding (dp_heap d ! k))"
      using dispatch_okD(6) [OF inv True k] dispatch_okD(1) [OF inv, of i] fresh by (auto simp: complete_def)
    then have heap: "dp_heap d' = (dp_heap d)[k := (dp_heap d ! k)\<lparr>ex_outstanding := ex_outstanding (dp_heap d ! k) @ [i],
        ex_log := ex_log (dp_heap d ! k) @ [req]\<rparr>]"
      using d' True wire klen by (auto simp: submit_def healthy_def with_exchange_def set_add_def)
    have same: "dp_routes d' = dict_set (dp_routes d) i k" "dp_live d' = dp_live d"
      "dp_failure d' = dp_failure d" "dp_closed d' = dp_closed d" "dp_reader d' = dp_reader d"
      "dp_reaper d' = dp_reaper d" "dp_codec d' = (dp_codec d)\<lparr>cd_outstanding := dict_set (cd_outstanding (dp_codec d)) i req\<rparr>"
      using d' True wire id by (auto simp: submit_def healthy_def)
    have "dispatch_ok (dict_set (cd_outstanding (dp_codec d)) i req) d'"
      by (rule submit_accepted [OF inv True k fresh id heap same(1-6)])
    moreover have "codec_ok (dp_codec d')" unfolding same(7) using codec_ok_send [OF cok wire] .
    ultimately show ?thesis using same ready by (auto intro: session_okI)
  qed
  then show "session_ok d'" "dp_reaper d' = dp_reaper d" "dp_live d' = dp_live d" by blast+
qed

lemma session_ok_codec:
  assumes "session_ok d" "codec_ok c" "cd_outstanding c = cd_outstanding (dp_codec d)" "cd_state c = cd_state (dp_codec d)"
  shows "session_ok (d\<lparr>dp_codec := c\<rparr>)"
proof -
  have "dispatch_ok (cd_outstanding c) (d\<lparr>dp_codec := c\<rparr>) = dispatch_ok (cd_outstanding c) d"
    by (rule dispatch_ok_cong) simp_all
  then show ?thesis using assms by (simp add: session_ok_def)
qed

text \<open>\<open>allocate_request_id\<close>, with the id it gives.\<close>

lemma session_allocate:
  assumes "session_ok d"
  obtains (full) err where "allocate_request_id (dp_codec d) = Some (Inl err, dp_codec d)"
  | (fresh) i c where "allocate_request_id (dp_codec d) = Some (Inr i, c)" "session_ok (d\<lparr>dp_codec := c\<rparr>)"
      "\<not> dict_has (cd_outstanding c) i" "MIN_REQUEST_ID \<le> i" "i \<le> MAX_REQUEST_ID"
proof -
  have ok: "codec_ok (dp_codec d)" using assms by (simp add: session_ok_def)
  show thesis
    using ok
  proof (cases rule: allocate_cases)
    case full
    then show thesis using that(1) by blast
  next
    case (fresh i)
    let ?c = "(dp_codec d)\<lparr>cd_next_id := advance i\<rparr>"
    have "session_ok (d\<lparr>dp_codec := ?c\<rparr>)"
      by (rule session_ok_codec) (use assms codec_ok_allocate [OF ok fresh(1)] in simp_all)
    with fresh that(2) show thesis by auto
  qed
qed

lemma session_ok_ask:
  assumes ok: "session_ok d" and k: "k \<in> set (dp_live d)" and mk: "sendable mk" and r: "ask mk k d = Some (res, d')"
  shows "session_ok d'"
  using ok
proof (cases rule: session_allocate)
  case (full err)
  then show ?thesis using ok r by (simp add: ask_def)
next
  case (fresh i c)
  then have "exchange_send (mk i) k (d\<lparr>dp_codec := c\<rparr>) = (res, d')" using r by (simp add: ask_def)
  then show ?thesis
    using session_ok_exchange_send(1) [OF fresh(2), of k i "mk i" res d'] k fresh(3-5) mk
    by (auto simp: sendable_def)
qed

lemma session_ok_fail: "session_ok d \<Longrightarrow> session_ok (dp_fail err d)"
  by (auto simp: session_ok_def intro: dispatch_ok_fail dest: dispatch_okD(4))

section \<open>The reaper, the reader and the end of a session\<close>

lemma session_ok_retire:
  assumes "session_ok d" "k \<in> set (dp_live d)" "dp_reaper d \<noteq> Reaping k" shows "session_ok (retire k d)"
  using assms retire_ok [of _ d k] by (auto simp: session_ok_def retire_def)

text \<open>A refused send whose exchange is retired at once.\<close>

lemma retire_unsent:
  assumes ok: "session_ok d" and k: "k \<in> set (dp_live d)" "dp_reaper d \<noteq> Reaping k"
    and fresh: "\<not> dict_has (cd_outstanding (dp_codec d)) i"
  shows "session_ok (retire k (with_exchange k (\<lambda>e. e\<lparr>ex_outstanding := set_add i (ex_outstanding e)\<rparr>) d))"
proof -
  let ?f = "\<lambda>e. e\<lparr>ex_outstanding := set_add i (ex_outstanding e)\<rparr>" and ?O = "cd_outstanding (dp_codec d)"
  let ?d = "retire k (with_exchange k ?f d)" and ?r = "retire k d"
  have inv: "dispatch_ok ?O d" using ok by (simp add: session_ok_def)
  have klen: "k < length (dp_heap d)" using dispatch_okD(5) [OF inv k(1)] .
  have rinv: "dispatch_ok ?O ?r" using session_ok_retire [OF ok k] by (simp add: session_ok_def retire_def)
  have get: "dict_get (dp_routes ?d) j = dict_get (dp_routes ?r) j" for j
    using dispatch_okD(1) [OF inv, of i] fresh klen
    by (cases "dict_get (dp_routes d) i") (auto simp: retire_def fold_dict_pop set_add_def)
  have heap: "dp_heap ?d ! j = (if j = k then ?f (dp_heap ?r ! k) else dp_heap ?r ! j)" if "j < length (dp_heap d)" for j
    using that by (simp add: retire_def)
  have dead: "dict_get (dp_routes ?r) j \<noteq> Some k" for j
    using dispatch_okD(1) [OF rinv, of j k] by (auto simp: retire_def)
  have same: "dp_live ?d = dp_live ?r" "dp_failure ?d = dp_failure ?r" "dp_closed ?d = dp_closed ?r"
    "dp_reader ?d = dp_reader ?r" "dp_reaper ?d = dp_reaper ?r" "length (dp_heap ?d) = length (dp_heap ?r)"
    "dp_codec ?d = dp_codec d"
    by (simp_all add: retire_def)
  have routed_same: "routed ?O (dp_routes ?d) j e = routed ?O (dp_routes ?r) j e" for j e
    by (simp add: routed_def get)
  have away: "k \<notin> set (dp_live ?r)" by (simp add: retire_def)
  have "dispatch_ok ?O ?d"
  proof (rule dispatch_okI, goal_cases)
    case (1 a j)
    then have "dict_get (dp_routes ?r) a = Some j" by (simp add: get)
    then show ?case
      using dispatch_okD(1) [OF rinv, of a j] dispatch_okD(5) [OF rinv, of j] heap [of j] dead same
      by (auto simp: retire_def)
  next
    case (2 j)
    then have j: "j < length (dp_heap ?r)" "j < length (dp_heap d)" by (simp_all add: retire_def)
    have "routed ?O (dp_routes ?r) k (?f e) = []" "routed ?O (dp_routes ?r) k e = []" for e
      using dead by (simp_all add: routed_def)
    have "accounts ?O (dp_routes ?r) k e \<Longrightarrow> accounts ?O (dp_routes ?r) k (?f e)" for e
      using \<open>\<And>e. routed ?O (dp_routes ?r) k (?f e) = []\<close> \<open>\<And>e. routed ?O (dp_routes ?r) k e = []\<close>
      by (simp add: accounts_def delivered_def)
    moreover have "ex_sound e \<Longrightarrow> ex_sound (?f e)" for e by (auto simp: ex_sound_def set_add_def)
    moreover have "accounts ?O (dp_routes ?d) j' e = accounts ?O (dp_routes ?r) j' e" for j' e
      by (simp only: accounts_def routed_same)
    ultimately show ?case
      using dispatch_okD(2,3) [OF rinv j(1)] unfolding heap [OF j(2)] by (cases "j = k") simp_all
  next
    case (5 j)
    then have j: "healthy ?r" "j \<in> set (dp_live ?r)" "j \<noteq> k" using same away by (auto simp: healthy_def)
    then have "j < length (dp_heap d)" using dispatch_okD(5) [OF rinv] by (simp add: retire_def)
    then show ?case
      using dispatch_okD(6) [OF rinv j(1,2)] j(3) heap [of j] by (simp add: complete_def routed_same get)
  next
    case (6 err)
    then have "dp_routes ?r = []" using dispatch_okD(7) [OF rinv] same by auto
    with get have none: "dict_get (dp_routes ?d) j = None" for j by simp
    then show ?case using none [of "fst (hd (dp_routes ?d))"] by (cases "dp_routes ?d") (auto simp: dict_get_def)
  next
    case (7 err j)
    then show ?case using dispatch_okD(8) [OF rinv, of j] heap [of j] away dispatch_okD(5) [OF rinv, of j] same
      by (auto simp: retire_def)
  qed (use dispatch_okD(4,5,9,10) [OF rinv] same in auto)
  then show ?thesis using ok by (simp add: session_ok_def same retire_def)
qed

lemma session_ok_reap_next:
  assumes ok: "session_ok d" and r: "reap_next d = Some d'"
  shows "session_ok d'"
proof (cases "dp_closed d \<or> dp_reaper d \<noteq> ReaperIdle \<or> dp_orphans d = []")
  case True
  then have "d' = d" using r by (auto simp: reap_next_def split: reaper_state.splits list.splits if_splits)
  then show ?thesis using ok by simp
next
  case False
  then obtain h rest where idle: "\<not> dp_closed d" "dp_reaper d = ReaperIdle" "dp_orphans d = h # rest"
    by (cases "dp_orphans d") auto
  let ?d1 = "d\<lparr>dp_orphans := rest, dp_reaped := dp_reaped d + 1\<rparr>"
  have ok1: "session_ok ?d1" using session_ok_cong [of ?d1 d] ok by simp
  show ?thesis
    using ok1
  proof (cases rule: session_allocate)
    case (full err)
    then show ?thesis using r idle ok1 by (simp add: reap_next_def)
  next
    case (fresh i c)
    let ?d2 = "?d1\<lparr>dp_codec := c\<rparr>"
    obtain k d3 where op: "exchange_open ?d2 = (k, d3)" by fastforce
    have inv2: "dispatch_ok (cd_outstanding c) ?d2" using fresh(2) by (simp add: session_ok_def)
    note opened = exchange_open_ok [OF inv2 op]
    have ok3: "session_ok d3" using opened(1,4,5,8) fresh(2) by (simp add: session_ok_def)
    have k: "k \<in> set (dp_live d3)" "dp_reaper d3 \<noteq> Reaping k" "\<not> dict_has (cd_outstanding (dp_codec d3)) i"
      using opened(3,4,7) idle(2) fresh(3) by simp_all
    obtain res d4 where sent: "exchange_send (Close i h) k d3 = (res, d4)" by fastforce
    have d': "d' = (case res of Inl _ \<Rightarrow> retire k d4 | Inr _ \<Rightarrow> d4\<lparr>dp_reaper := Reaping k\<rparr>)"
      using r idle fresh(1) op sent by (simp add: reap_next_def split: sum.splits)
    show ?thesis
    proof (cases "healthy d3 \<longrightarrow> (\<exists>wire. encode (Close i h) = Inr wire)")
      case True
      then have sent_ok: "session_ok d4" "dp_reaper d4 = dp_reaper d3" "dp_live d4 = dp_live d3"
        using session_ok_exchange_send [OF ok3 k(1,3) _ sent] by auto
      show ?thesis
      proof (cases res)
        case (Inl err)
        then show ?thesis using session_ok_retire [OF sent_ok(1)] k sent_ok(2,3) by (simp add: d')
      next
        case (Inr v)
        then show ?thesis using session_ok_reaper [OF sent_ok(1), of "Reaping k"] k sent_ok(3) by (simp add: d')
      qed
    next
      case False
      then obtain err where enc: "encode (Close i h) = Inl err" and well: "healthy d3"
        by (cases "encode (Close i h)") auto
      have ready: "cd_state (dp_codec d3) = READY" "codec_ok (dp_codec d3)"
        using ok3 well by (simp_all add: session_ok_def healthy_def)
      have refused: "send (Close i h) (dp_codec d3) = (Inl err, dp_codec d3)"
        using send_cases [OF ready(2,1) k(3), of "Close i h"] enc by (metis request_id.simps(4) sum.distinct(1) sum.inject(1))
      have "res = Inl err \<and> d4 = with_exchange k (\<lambda>e. e\<lparr>ex_outstanding := set_add i (ex_outstanding e)\<rparr>) d3"
        using sent refused well by (auto simp: exchange_send_def submit_def healthy_def with_exchange_def)
      then show ?thesis using retire_unsent [OF ok3 k] by (simp add: d')
    qed
  qed
qed

lemma session_ok_reap_wait:
  assumes ok: "session_ok d" shows "session_ok (reap_wait d)"
proof (cases "dp_reaper d")
  case (Reaping k)
  obtain res e where turn: "receive_turn (dp_heap d ! k) = (res, e)" by fastforce
  let ?d = "with_exchange k (\<lambda>_. e) d"
  have inv: "dispatch_ok (cd_outstanding (dp_codec d)) d" using ok by (simp add: session_ok_def)
  have k: "k \<in> set (dp_live d)" using dispatch_okD(10) [OF inv Reaping] .
  have ok': "session_ok ?d" using receive_turn_ok [OF inv k turn] ok by (simp add: session_ok_def)
  have "session_ok (?d\<lparr>dp_reaper := ReaperIdle\<rparr>)" using session_ok_reaper [OF ok', of ReaperIdle] by simp
  then have "session_ok (retire k (?d\<lparr>dp_reaper := ReaperIdle\<rparr>))"
    using session_ok_retire [of "?d\<lparr>dp_reaper := ReaperIdle\<rparr>" k] k by simp
  moreover have "retire k (?d\<lparr>dp_reaper := ReaperIdle\<rparr>) = (retire k ?d)\<lparr>dp_reaper := ReaperIdle\<rparr>"
    by (simp add: retire_def)
  ultimately show ?thesis using ok' Reaping turn by (simp add: reap_wait_def split: option.split)
qed (use ok in \<open>simp add: reap_wait_def\<close>)

lemma session_ok_close:
  assumes ok: "session_ok d" shows "session_ok (dp_close d)"
proof -
  let ?d = "d\<lparr>dp_closed := True, dp_reader := (if dp_reader d = Unstarted then Unstarted else Stopped)\<rparr>"
  have closed: "session_ok ?d" by (rule session_ok_stopping [OF ok]) simp_all
  show ?thesis
  proof (cases "dp_reaper d")
    case ReaperIdle
    then show ?thesis using closed by (simp add: dp_close_def)
  next
    case (Reaping k)
    have k: "k \<in> set (dp_live d)" using ok Reaping by (simp add: session_ok_def dispatch_ok_def)
    have "session_ok (?d\<lparr>dp_reaper := ReaperIdle\<rparr>)" using session_ok_reaper [OF closed, of ReaperIdle] by simp
    then have "session_ok (retire k (?d\<lparr>dp_reaper := ReaperIdle\<rparr>))"
      using session_ok_retire [of "?d\<lparr>dp_reaper := ReaperIdle\<rparr>" k] k by simp
    moreover have "retire k (?d\<lparr>dp_reaper := ReaperIdle\<rparr>) = (retire k ?d)\<lparr>dp_reaper := ReaperIdle\<rparr>"
      by (simp add: retire_def)
    ultimately show ?thesis using Reaping by (simp add: dp_close_def Let_def)
  qed
qed

lemma dispatch_ok_stopped: "dispatch_ok O1 d \<Longrightarrow> dispatch_ok O1 (d\<lparr>dp_reader := Stopped\<rparr>)"
  unfolding dispatch_ok_def routes_ok_def healthy_def by simp

lemma session_ok_stopped: "session_ok d \<Longrightarrow> session_ok (d\<lparr>dp_reader := Stopped\<rparr>)"
  by (simp add: session_ok_def dispatch_ok_stopped)

lemma session_ok_raises: "session_ok d \<Longrightarrow> session_ok (reader_raises err d)"
  by (simp add: reader_raises_def session_ok_stopped session_ok_fail)

lemma session_ok_chunk:
  assumes ok: "session_ok d" shows "session_ok (reader_chunk held chunk d)"
proof (cases "dp_reader d = Listening")
  case False
  then show ?thesis using ok by (simp add: reader_chunk_def)
next
  case True
  let ?d1 = "d\<lparr>dp_bytes_received := dp_bytes_received d + length chunk\<rparr>"
  have inv: "dispatch_ok (cd_outstanding (dp_codec d)) d" and cok: "codec_ok (dp_codec d)"
    using ok by (simp_all add: session_ok_def)
  have inv1: "dispatch_ok O1 (?d1\<lparr>dp_codec := c\<rparr>) = dispatch_ok O1 d" for O1 c
    by (rule dispatch_ok_cong) simp_all
  obtain res c where rcv: "receive held chunk (dp_codec d) = (res, c)" by fastforce
  show ?thesis
  proof (cases res)
    case (Inl err)
    have failed: "is_protocol_error err" "codec_ok c" using receive_error [OF cok] rcv Inl by auto
    then have "err \<noteq> Cancelled" by auto
    moreover have "dispatch_ok (cd_outstanding c) (dp_fail err (?d1\<lparr>dp_codec := c\<rparr>))"
      using dispatch_ok_fail inv inv1 by blast
    then have "session_ok ((dp_fail err (?d1\<lparr>dp_codec := c\<rparr>))\<lparr>dp_reader := Stopped\<rparr>)"
      using failed(2) dispatch_okD(4) [OF inv] dispatch_ok_stopped by (intro session_okI) simp_all
    ultimately show ?thesis
      using True rcv Inl by (simp add: reader_chunk_def reader_raises_def)
  next
    case (Inr evs)
    have ready: "cd_state (dp_codec d) = READY" using ok True by (simp add: session_ok_def)
    note rcvd = receive_events [OF cok ready rcv [unfolded Inr]]
    obtain d2 where d2: "route_all evs (?d1\<lparr>dp_codec := c\<rparr>) = (Inr (), d2)" "dispatch_ok (cd_outstanding c) d2"
        "dp_codec d2 = c" "dp_failure d2 = dp_failure d"
      using route_all_ok [OF _ rcvd(1), of "?d1\<lparr>dp_codec := c\<rparr>"] inv inv1 by auto
    then have "session_ok d2" using rcvd(2,3) by (intro session_okI) simp_all
    then show ?thesis using True rcv Inr d2(1) by (simp add: reader_chunk_def)
  qed
qed

section \<open>Runs\<close>

definition polite :: "dp_input \<Rightarrow> bool" where
  "polite inp \<longleftrightarrow> (case inp of Ask mk k \<Rightarrow> sendable mk | _ \<Rightarrow> True)"

lemma take_reply_ok:
  assumes "session_ok d" "take_reply k d = (res, d')" shows "session_ok d'"
proof (cases "owned k d")
  case True
  then have k: "k \<in> set (dp_live d)" by (simp add: owned_def)
  obtain e where turn: "receive_turn (dp_heap d ! k) = (res, e)" "d' = with_exchange k (\<lambda>_. e) d"
    using assms(2) True by (auto simp: take_reply_def split: prod.splits)
  show ?thesis
    using receive_turn_ok [OF _ k turn(1)] assms(1) turn(2) by (simp add: session_ok_def)
qed (use assms in \<open>simp add: take_reply_def\<close>)

lemma abandon_write_fields [simp]:
  "session_ok (abandon_write j n d) = session_ok d" "session_ok (write_done d) = session_ok d"
  "session_ok (write_some n d) = session_ok d"
  by (rule session_ok_cong; simp add: abandon_write_def write_done_def write_some_def Let_def split: list.split)+

lemma session_ok_release:
  assumes ok: "session_ok d" shows "session_ok (release_reaper k d)"
proof (cases "dp_reaper d = Reaping k")
  case True
  then have k: "k \<in> set (dp_live d)" using ok by (simp add: session_ok_def dispatch_ok_def)
  have "session_ok (d\<lparr>dp_reaper := ReaperIdle\<rparr>)" using session_ok_reaper [OF ok, of ReaperIdle] by simp
  then have "session_ok (retire k (d\<lparr>dp_reaper := ReaperIdle\<rparr>))"
    using session_ok_retire [of "d\<lparr>dp_reaper := ReaperIdle\<rparr>" k] k by simp
  moreover have "retire k (d\<lparr>dp_reaper := ReaperIdle\<rparr>) = (retire k d)\<lparr>dp_reaper := ReaperIdle\<rparr>"
    by (simp add: retire_def)
  ultimately show ?thesis using True by (simp add: release_reaper_def)
qed (use ok in \<open>simp add: release_reaper_def\<close>)

lemma dp_step_ok:
  assumes ok: "session_ok d" and "polite inp" shows "session_ok (dp_step inp d)"
proof (cases inp)
  case OpenExchange
  obtain k d' where op: "exchange_open d = (k, d')" by fastforce
  have inv: "dispatch_ok (cd_outstanding (dp_codec d)) d" using ok by (simp add: session_ok_def)
  from exchange_open_ok [OF inv op] ok show ?thesis by (simp add: dp_step_def OpenExchange op session_ok_def)
next
  case (Ask mk k)
  then show ?thesis
    using ok session_ok_ask [OF ok, of k mk] assms(2)
    by (auto simp: dp_step_def owned_def polite_def split: option.split)
next
  case (TakeReply k)
  then show ?thesis using take_reply_ok [OF ok, of k] by (cases "take_reply k d") (simp add: dp_step_def)
next
  case (RetireExchange k)
  then show ?thesis using session_ok_retire [OF ok] ok by (simp add: dp_step_def owned_def)
next
  case (WriteTimesOut j n)
  then show ?thesis using ok by (simp add: dp_step_def write_timed_out_def session_ok_fail session_ok_release split: option.split)
next
  case (WriteAbandoned j n)
  then show ?thesis using ok by (simp add: dp_step_def write_abandoned_def session_ok_release)
next
  case StartReader
  show ?thesis
  proof (cases "dp_reader d = Unstarted")
    case True
    have "session_ok (d\<lparr>dp_closed := dp_closed d, dp_reader := (if dp_closed d then Stopped else Listening)\<rparr>)"
      by (rule session_ok_stopping [OF ok]) (use True in auto)
    then show ?thesis using True StartReader by (simp add: dp_step_def reader_start_def)
  qed (use ok StartReader in \<open>simp add: dp_step_def reader_start_def\<close>)
next
  case ReapNext
  then show ?thesis using session_ok_reap_next [OF ok] ok by (auto simp: dp_step_def split: option.split)
qed (use ok session_ok_chunk session_ok_raises session_ok_reap_wait session_ok_close
      in \<open>simp_all add: dp_step_def reader_broken_def\<close>)

lemma session_ok_new:
  assumes "codec_ok c" "cd_state c = READY" "cd_outstanding c = []"
  shows "session_ok (new_dispatcher c t)"
  using assms
  by (intro session_okI dispatch_okI) (simp_all add: new_dispatcher_def)

lemma session_ok_run:
  assumes "session_ok d" "list_all polite inputs" shows "session_ok (dp_run inputs d)"
  using assms
proof (induction inputs rule: rev_induct)
  case (snoc inp inputs)
  then show ?case using dp_step_ok by (simp add: dp_run_def)
qed (simp add: dp_run_def)

end
