(* ===== verification/DispatchProps.thy ===== *)
theory DispatchProps
  imports DispatchLaws "HOL-Library.Sublist"
begin

text \<open>
  The properties of the reader and its exchanges, for every interleaving of operations, writes,
  arriving chunks, the reaper and the end of the session.
\<close>

section \<open>Frames and handles\<close>

definition queued :: "dispatcher \<Rightarrow> bytes" where
  "queued d = drop (dp_taken d) (concat (map (snd \<circ> snd) (dp_writers d)))"

definition frames_ok :: "dispatcher \<Rightarrow> bool" where
  "frames_ok d \<longleftrightarrow> (\<not> dp_cut d \<longrightarrow> dp_pipe d @ queued d = concat (dp_frames d)) \<and>
     dp_taken d \<le> (case dp_writers d of [] \<Rightarrow> 0 | (_, _, wire) # _ \<Rightarrow> length wire) \<and>
     dp_bytes_sent d = length (concat (dp_frames d)) \<and> dp_requests_sent d = length (dp_frames d)"

definition handles_ok :: "dispatcher \<Rightarrow> bool" where
  "handles_ok d \<longleftrightarrow> dp_reaped d \<le> length (dp_handles d) \<and> dp_orphans d = drop (dp_reaped d) (dp_handles d) \<and>
     length (dp_handles d) \<le> dp_unclaimed d"

definition sent_part :: "dispatcher \<Rightarrow> _" where
  "sent_part d = (dp_pipe d, dp_writers d, dp_taken d, dp_frames d, dp_cut d, dp_bytes_sent d, dp_requests_sent d)"

definition handle_part :: "dispatcher \<Rightarrow> _" where
  "handle_part d = (dp_reaped d, dp_orphans d, dp_handles d, dp_unclaimed d)"

lemma sent_part_ok: "sent_part d' = sent_part d \<Longrightarrow> frames_ok d' = frames_ok d"
  by (simp add: sent_part_def frames_ok_def queued_def)

lemma handle_part_ok: "handle_part d' = handle_part d \<Longrightarrow> handles_ok d' = handles_ok d"
  by (simp add: handle_part_def handles_ok_def)

lemma with_exchange_parts [simp]:
  "sent_part (with_exchange k f d) = sent_part d" "handle_part (with_exchange k f d) = handle_part d"
  by (simp_all add: with_exchange_def sent_part_def handle_part_def)

lemma fold_with_exchange_parts:
  "sent_part (fold (\<lambda>k. with_exchange k f) ks d) = sent_part d"
  "handle_part (fold (\<lambda>k. with_exchange k f) ks d) = handle_part d"
  by (induction ks arbitrary: d) simp_all

lemma dp_fail_parts [simp]: "sent_part (dp_fail err d) = sent_part d" "handle_part (dp_fail err d) = handle_part d"
  unfolding dp_fail_def fold_with_exchange_parts by (simp_all add: sent_part_def handle_part_def)

lemma reader_raises_parts [simp]:
  "sent_part (reader_raises err d) = sent_part d" "handle_part (reader_raises err d) = handle_part d"
  using dp_fail_parts [of err d] by (simp_all add: reader_raises_def sent_part_def handle_part_def)

lemma orphan_parts [simp]:
  "sent_part (orphan r d) = sent_part d"
  "handles_ok d \<Longrightarrow> dp_unclaimed d' = Suc (dp_unclaimed d) \<Longrightarrow> dp_reaped d' = dp_reaped d \<Longrightarrow>
     dp_orphans d' = dp_orphans d \<Longrightarrow> dp_handles d' = dp_handles d \<Longrightarrow> handles_ok (orphan r d')"
  by (cases r; auto simp: sent_part_def handles_ok_def)+

lemma route_parts:
  assumes "route ev d = (res, d')"
  shows "sent_part d' = sent_part d" "handles_ok d \<Longrightarrow> handles_ok d'"
proof -
  show "sent_part d' = sent_part d"
    using assms by (auto simp: route_def Let_def split: event.splits option.splits) (simp_all add: sent_part_def)
  show "handles_ok d'" if "handles_ok d"
  proof (cases ev)
    case (Completed req resp)
    let ?d1 = "d\<lparr>dp_replies_received := dp_replies_received d + 1\<rparr>"
    have "handles_ok (?d1\<lparr>dp_routes := r\<rparr>) = handles_ok d" "handles_ok ?d1 = handles_ok d" for r
      by (rule handle_part_ok; simp add: handle_part_def)+
    moreover have "handles_ok (with_exchange k f x) = handles_ok x" for k f x
      by (rule handle_part_ok) simp
    moreover have "handles_ok (orphan resp (?d1\<lparr>dp_unclaimed := dp_unclaimed d + 1\<rparr>))"
      by (rule orphan_parts(2) [OF that]) simp_all
    ultimately show ?thesis
      using assms that Completed by (auto simp: route_def Let_def split: option.splits)
  qed (use assms that in \<open>simp add: route_def\<close>)
qed

lemma route_all_parts:
  "route_all evs d = (res, d') \<Longrightarrow> sent_part d' = sent_part d \<and> (handles_ok d \<longrightarrow> handles_ok d')"
proof (induction evs arbitrary: d)
  case (Cons ev evs)
  obtain r d1 where r: "route ev d = (r, d1)" by fastforce
  from Cons route_parts [OF r] r show ?case by (cases r) auto
qed simp

lemma reader_chunk_parts:
  "sent_part (reader_chunk held chunk d) = sent_part d"
  "handles_ok d \<Longrightarrow> handles_ok (reader_chunk held chunk d)"
proof -
  let ?d1 = "\<lambda>c. d\<lparr>dp_bytes_received := dp_bytes_received d + length chunk, dp_codec := c\<rparr>"
  have base: "sent_part (?d1 c) = sent_part d" "handles_ok (?d1 c) = handles_ok d" for c
    by (simp add: sent_part_def, rule handle_part_ok, simp add: handle_part_def)
  have raised: "handles_ok (reader_raises err x) = handles_ok x" for err x by (rule handle_part_ok) simp
  note routed = route_all_parts [of _ "?d1 c" for c, unfolded base]
  show "sent_part (reader_chunk held chunk d) = sent_part d"
    using routed by (auto simp: reader_chunk_def Let_def base split: prod.splits sum.splits)
  show "handles_ok d \<Longrightarrow> handles_ok (reader_chunk held chunk d)"
    using routed by (auto simp: reader_chunk_def Let_def base raised split: prod.splits sum.splits)
qed

lemma submit_parts:
  assumes "submit req k d = (res, d')" "frames_ok d" shows "frames_ok d'" "handle_part d' = handle_part d"
  using assms
  by (auto simp: submit_def frames_ok_def queued_def handle_part_def with_exchange_def
      split: option.splits if_splits prod.splits sum.splits list.splits)

lemma exchange_send_parts:
  assumes "exchange_send req k d = (res, d')" "frames_ok d" shows "frames_ok d'" "handle_part d' = handle_part d"
proof -
  let ?d = "\<lambda>i. with_exchange k (\<lambda>e. e\<lparr>ex_outstanding := set_add i (ex_outstanding e)\<rparr>) d"
  have "frames_ok (?d i)" for i using sent_part_ok [of "?d i" d] assms(2) by simp
  with submit_parts [of req k "?d i" res d' for i] assms show "frames_ok d'" "handle_part d' = handle_part d"
    by (auto simp: exchange_send_def split: option.splits)
qed

lemma abandon_write_parts:
  assumes "frames_ok d" shows "frames_ok (abandon_write j n d)" "handle_part (abandon_write j n d) = handle_part d"
proof -
  obtain ws where ws: "dp_writers d = ws" by blast
  show "frames_ok (abandon_write j n d)"
    using assms by (cases ws; cases j) (auto simp: ws abandon_write_def frames_ok_def Let_def split: list.split)
  show "handle_part (abandon_write j n d) = handle_part d"
    by (simp add: abandon_write_def handle_part_def Let_def)
qed

lemma retire_parts [simp]: "sent_part (retire k d) = sent_part d" "handle_part (retire k d) = handle_part d"
  by (simp_all add: retire_def sent_part_def handle_part_def)

lemma release_reaper_parts [simp]:
  "sent_part (release_reaper k d) = sent_part d" "handle_part (release_reaper k d) = handle_part d"
  by (simp_all add: release_reaper_def sent_part_def handle_part_def retire_def)

lemma write_parts:
  assumes "frames_ok d" shows "frames_ok (write_done d)" "frames_ok (write_some n d)"
    "handles_ok (write_done d) = handles_ok d" "handles_ok (write_some n d) = handles_ok d"
proof -
  have "frames_ok (write_done d) \<and> frames_ok (write_some n d)"
  proof (cases "dp_writers d")
    case (Cons w rest)
    obtain k req wire where w: "w = (k, req, wire)" by (metis prod_cases3)
    let ?rest = "concat (map (snd \<circ> snd) rest)"
    have taken: "dp_taken d \<le> length wire" using assms Cons w by (simp add: frames_ok_def)
    then have all: "\<not> dp_cut d \<longrightarrow> dp_pipe d @ drop (dp_taken d) wire @ ?rest = concat (dp_frames d)"
      using assms Cons w by (simp add: frames_ok_def queued_def)
    have "drop (min (dp_taken d + n) (length wire)) wire = drop n (drop (dp_taken d) wire)"
      by (simp add: min_def add.commute)
    then have "take n (drop (dp_taken d) wire) @ drop (min (dp_taken d + n) (length wire)) wire = drop (dp_taken d) wire"
      by (metis append_take_drop_id)
    then have "\<not> dp_cut d \<longrightarrow> dp_pipe d @ take n (drop (dp_taken d) wire) @
        drop (min (dp_taken d + n) (length wire)) wire @ ?rest = concat (dp_frames d)"
      using all by (metis append_assoc)
    then have "frames_ok (write_some n d)"
      using assms Cons w by (simp add: write_some_def frames_ok_def queued_def)
    moreover have "frames_ok (write_done d)"
      using assms Cons w all by (simp add: write_done_def frames_ok_def queued_def split: list.split)
    ultimately show ?thesis by blast
  qed (use assms in \<open>simp add: write_done_def write_some_def\<close>)
  then show "frames_ok (write_done d)" "frames_ok (write_some n d)" by blast+
  show "handles_ok (write_done d) = handles_ok d" "handles_ok (write_some n d) = handles_ok d"
    by (rule handle_part_ok, simp add: write_done_def write_some_def handle_part_def split: list.split)+
qed

lemma frames_ok_reap_next:
  assumes "frames_ok d" "handles_ok d" "reap_next d = Some d'"
  shows "frames_ok d' \<and> handles_ok d'"
proof (cases "dp_closed d \<or> dp_reaper d \<noteq> ReaperIdle \<or> dp_orphans d = []")
  case True
  then have "d' = d" using assms(3) by (auto simp: reap_next_def split: reaper_state.splits list.splits if_splits)
  then show ?thesis using assms by simp
next
  case False
  then obtain h rest where idle: "\<not> dp_closed d" "dp_reaper d = ReaperIdle" "dp_orphans d = h # rest"
    by (cases "dp_orphans d") auto
  let ?d1 = "d\<lparr>dp_orphans := rest, dp_reaped := dp_reaped d + 1\<rparr>"
  have "dp_reaped d < length (dp_handles d)" "drop (dp_reaped d) (dp_handles d) = h # rest"
    using assms(2) idle(3) by (auto simp: handles_ok_def intro: ccontr)
  then have h1: "handles_ok (?d1\<lparr>dp_codec := c\<rparr>)" for c
    using assms(2) by (simp add: handles_ok_def) (metis Suc_eq_plus1 drop_Suc list.sel(3) tl_drop)
  have f1: "frames_ok (?d1\<lparr>dp_codec := c\<rparr>)" for c
    using assms(1) by (simp add: frames_ok_def queued_def)
  obtain r c where alloc: "allocate_request_id (dp_codec d) = Some (r, c)"
    using assms(3) idle by (cases "allocate_request_id (dp_codec d)") (auto simp: reap_next_def Let_def)
  show ?thesis
  proof (cases r)
    case (Inl err)
    then have "d' = ?d1\<lparr>dp_codec := c\<rparr>" using assms(3) idle alloc by (simp add: reap_next_def)
    then show ?thesis using h1 f1 by blast
  next
    case (Inr i)
    obtain k d3 where op: "exchange_open (?d1\<lparr>dp_codec := c\<rparr>) = (k, d3)" by fastforce
    then have parts3: "sent_part d3 = sent_part (?d1\<lparr>dp_codec := c\<rparr>)" "handle_part d3 = handle_part (?d1\<lparr>dp_codec := c\<rparr>)"
      by (auto simp: exchange_open_def sent_part_def handle_part_def)
    obtain res d4 where sent: "exchange_send (Close i h) k d3 = (res, d4)" by fastforce
    have f4: "frames_ok d4" "handle_part d4 = handle_part d3"
      using exchange_send_parts [OF sent] sent_part_ok [OF parts3(1)] f1 by blast+
    have d': "d' = (case res of Inl _ \<Rightarrow> retire k d4 | Inr _ \<Rightarrow> d4\<lparr>dp_reaper := Reaping k\<rparr>)"
      using assms(3) idle alloc Inr op sent by (simp add: reap_next_def split: sum.splits)
    have "sent_part d' = sent_part d4" "handle_part d' = handle_part d4"
      unfolding d' by (simp_all add: sent_part_def handle_part_def retire_def split: sum.split)
    then show ?thesis
      using f4 parts3(2) sent_part_ok handle_part_ok h1 by metis
  qed
qed

lemma dp_step_parts:
  assumes ok: "frames_ok d" "handles_ok d" shows "frames_ok (dp_step inp d) \<and> handles_ok (dp_step inp d)"
proof -
  have keep: "frames_ok x \<and> handles_ok x" if "sent_part x = sent_part d" "handle_part x = handle_part d" for x
    using ok sent_part_ok [OF that(1)] handle_part_ok [OF that(2)] by simp
  have fail: "frames_ok (dp_fail err x) = frames_ok x" "handles_ok (dp_fail err x) = handles_ok x" for err x
    by (rule sent_part_ok handle_part_ok; simp)+
  have release: "frames_ok (release_reaper k x) = frames_ok x" "handles_ok (release_reaper k x) = handles_ok x" for k x
    by (rule sent_part_ok handle_part_ok; simp)+
  have cut: "frames_ok (abandon_write j n d)" "handles_ok (abandon_write j n d)" for j n
    using abandon_write_parts [OF ok(1)] handle_part_ok ok(2) by blast+
  show ?thesis
  proof (cases inp)
    case (Ask mk k)
    have "frames_ok x \<and> handles_ok x" if r: "ask mk k d = Some (res, x)" for res x
    proof (cases "allocate_request_id (dp_codec d)")
      case (Some a)
      obtain v c where a: "a = (v, c)" by fastforce
      let ?d = "d\<lparr>dp_codec := c\<rparr>"
      have same: "sent_part ?d = sent_part d" "handle_part ?d = handle_part d"
        by (simp_all add: sent_part_def handle_part_def)
      show ?thesis
      proof (cases v)
        case (Inl err)
        then show ?thesis using r Some a keep [OF same] by (simp add: ask_def)
      next
        case (Inr i)
        then have "exchange_send (mk i) k ?d = (res, x)" using r Some a by (simp add: ask_def)
        from exchange_send_parts [OF this] show ?thesis
          using keep [OF same] handle_part_ok by blast
      qed
    qed (use r in \<open>simp add: ask_def\<close>)
    then show ?thesis using ok Ask by (auto simp: dp_step_def split: option.split)
  next
    case (TakeReply k)
    then show ?thesis
      by (intro keep) (auto simp: dp_step_def take_reply_def split: prod.split)
  next
    case (ChunkArrives held chunk)
    have "frames_ok (reader_chunk held chunk d)" using sent_part_ok [OF reader_chunk_parts(1)] ok(1) by blast
    then show ?thesis using reader_chunk_parts(2) [OF ok(2)] ChunkArrives by (simp add: dp_step_def)
  next
    case WriteDone
    show ?thesis using write_parts [OF ok(1)] ok(2) WriteDone by (simp add: dp_step_def)
  next
    case (WriteSome n)
    show ?thesis using write_parts [OF ok(1)] ok(2) WriteSome by (simp add: dp_step_def)
  next
    case (WriteTimesOut j n)
    then show ?thesis using ok cut fail release by (simp add: dp_step_def write_timed_out_def split: option.split)
  next
    case (WriteAbandoned j n)
    then show ?thesis using ok cut release by (simp add: dp_step_def write_abandoned_def)
  next
    case ReapNext
    then show ?thesis using ok frames_ok_reap_next [OF ok] by (simp add: dp_step_def split: option.split)
  next
    case ReapWait
    have "sent_part (reap_wait d) = sent_part d" "handle_part (reap_wait d) = handle_part d"
      by (auto simp: reap_wait_def sent_part_def handle_part_def retire_def with_exchange_def
          split: reaper_state.split prod.split option.split)
    then show ?thesis using keep ReapWait by (simp add: dp_step_def)
  next
    case (TransportBreaks err)
    then show ?thesis using keep ok by (simp add: dp_step_def reader_broken_def)
  qed (rule keep; auto simp: dp_step_def exchange_open_def reader_start_def reader_broken_def dp_close_def retire_def
      sent_part_def handle_part_def reader_raises_def Let_def split: reaper_state.split)+
qed

lemma parts_run:
  assumes "frames_ok d" "handles_ok d" shows "frames_ok (dp_run inputs d) \<and> handles_ok (dp_run inputs d)"
  using assms
proof (induction inputs rule: rev_induct)
  case (snoc inp inputs)
  then show ?case using dp_step_parts by (simp add: dp_run_def)
qed (simp add: dp_run_def)

section \<open>Requests and their frames\<close>

text \<open>
  The frames handed to the transport are those of the requests accepted from the exchanges, and
  the frames of one exchange are handed over in the order in which it sent them.
\<close>

definition logs_ok :: "dispatcher \<Rightarrow> bool" where
  "logs_ok d \<longleftrightarrow> (\<forall>k \<in> set (dp_live d). k < length (dp_heap d)) \<and>
     list_all (\<lambda>sent. subseq (map encode sent) (map Inr (dp_frames d))) (map ex_log (dp_heap d)) \<and>
     mset (map Inr (dp_frames d)) = mset (map encode (concat (map ex_log (dp_heap d))))"

lemma logs_ok_cong:
  assumes "map ex_log (dp_heap d') = map ex_log (dp_heap d)" "dp_frames d' = dp_frames d"
    "set (dp_live d') \<subseteq> set (dp_live d)" "logs_ok d"
  shows "logs_ok d'"
proof -
  have "length (dp_heap d') = length (dp_heap d)" using assms(1) by (rule map_eq_imp_length_eq)
  then show ?thesis using assms unfolding logs_ok_def by auto
qed

text \<open>A step that accepts no request leaves the logs and the frames, and opens no exchange.\<close>

definition quiet :: "dispatcher \<Rightarrow> dispatcher \<Rightarrow> bool" where
  "quiet d d' \<longleftrightarrow> map ex_log (dp_heap d') = map ex_log (dp_heap d) \<and> dp_frames d' = dp_frames d \<and>
     set (dp_live d') \<subseteq> set (dp_live d)"

lemma quiet_ok: "quiet d d' \<Longrightarrow> logs_ok d \<Longrightarrow> logs_ok d'"
  unfolding quiet_def using logs_ok_cong by blast

lemma quiet_refl [simp]: "quiet d d" by (simp add: quiet_def)

lemma quiet_trans [trans]: "quiet d d1 \<Longrightarrow> quiet d1 d2 \<Longrightarrow> quiet d d2" by (auto simp: quiet_def)

lemma quiet_exchange [simp]: "(\<And>e. ex_log (f e) = ex_log e) \<Longrightarrow> quiet d (with_exchange k f d)"
  by (cases "k < length (dp_heap d)") (simp_all add: quiet_def with_exchange_def map_update list_update_same_conv list_update_beyond)

lemma quiet_fold:
  "(\<And>e. ex_log (f e) = ex_log e) \<Longrightarrow> quiet d (fold (\<lambda>k. with_exchange k f) ks d)"
proof (induction ks arbitrary: d)
  case (Cons k ks)
  then have "quiet d (with_exchange k f d)" by simp
  with Cons.IH [OF Cons.prems, of "with_exchange k f d"] show ?case using quiet_trans by auto
qed simp

lemma quiet_fail [simp]: "quiet d (dp_fail err d)"
proof -
  have "quiet d (d\<lparr>dp_failure := Some err, dp_routes := []\<rparr>)" by (simp add: quiet_def)
  moreover have "quiet x (fold (\<lambda>k. with_exchange k (ex_fail err)) ks x)" for x ks by (rule quiet_fold) simp
  ultimately show ?thesis unfolding dp_fail_def by (rule quiet_trans)
qed

lemma quiet_retire [simp]: "quiet d (retire k d)"
  by (auto simp: quiet_def retire_def)

lemma quiet_raises [simp]: "quiet d (reader_raises err d)"
  using quiet_fail [of d err] by (simp add: reader_raises_def quiet_def)

lemma quiet_orphan [simp]: "quiet d (orphan resp d)"
  by (cases resp) (simp_all add: quiet_def)

lemma quiet_update:
  assumes "quiet d d'" "map ex_log (dp_heap e') = map ex_log (dp_heap d')" "dp_frames e' = dp_frames d'" "dp_live e' = dp_live d'"
  shows "quiet d e'"
  using assms by (simp add: quiet_def)

lemma quiet_release [simp]: "quiet d (release_reaper k d)"
  using quiet_retire [of d k] by (simp add: release_reaper_def quiet_def)

lemma quiet_abandon [simp]: "quiet d (abandon_write j n d)" "quiet d (write_done d)" "quiet d (write_some n d)"
  by (simp_all add: quiet_def abandon_write_def write_done_def write_some_def Let_def split: list.split)

lemma quiet_route:
  assumes "route ev d = (res, d')" shows "quiet d d'"
proof (cases ev)
  case (Completed req resp)
  let ?d1 = "d\<lparr>dp_replies_received := dp_replies_received d + 1\<rparr>"
  have base: "quiet d ?d1" by (simp add: quiet_def)
  have lost: "quiet d (orphan resp (?d1\<lparr>dp_unclaimed := dp_unclaimed d + 1\<rparr>))"
    by (rule quiet_trans [OF _ quiet_orphan]) (simp add: quiet_def)
  have given: "quiet d (with_exchange k (deliver req resp) (?d1\<lparr>dp_routes := r\<rparr>))" for k r
    by (rule quiet_trans [OF _ quiet_exchange]) (simp_all add: quiet_def)
  show ?thesis
  proof (cases "request_id req")
    case (Some i)
    then show ?thesis using assms Completed lost given by (cases "dict_get (dp_routes d) i") (auto simp: route_def)
  qed (use assms Completed base in \<open>simp add: route_def\<close>)
qed (use assms in \<open>simp add: route_def\<close>)

lemma quiet_route_all: "route_all evs d = (res, d') \<Longrightarrow> quiet d d'"
proof (induction evs arbitrary: d)
  case (Cons ev evs)
  obtain r d1 where r: "route ev d = (r, d1)" by fastforce
  from Cons quiet_route [OF r] r show ?case by (cases r) (auto intro: quiet_trans)
qed simp

lemma quiet_chunk [simp]: "quiet d (reader_chunk held chunk d)"
proof -
  let ?d1 = "\<lambda>c. d\<lparr>dp_bytes_received := dp_bytes_received d + length chunk, dp_codec := c\<rparr>"
  have base: "quiet d (?d1 c)" for c by (simp add: quiet_def)
  show ?thesis
  proof (cases "receive held chunk (dp_codec d)")
    case (Pair r c)
    obtain res d2 where routed: "route_all (case r of Inl _ \<Rightarrow> [] | Inr evs \<Rightarrow> evs) (?d1 c) = (res, d2)" by fastforce
    have "quiet d d2" "quiet d (reader_raises err (?d1 c))" "quiet d (reader_raises err d2)" for err
      using base quiet_route_all [OF routed] quiet_trans quiet_raises by blast+
    then show ?thesis using Pair routed by (auto simp: reader_chunk_def Let_def split: sum.split)
  qed
qed

lemma quiet_turn: "receive_turn (dp_heap d ! k) = (res, e) \<Longrightarrow> quiet d (with_exchange k (\<lambda>_. e) d)"
proof -
  assume "receive_turn (dp_heap d ! k) = (res, e)"
  then have "ex_log e = ex_log (dp_heap d ! k)"
    by (auto simp: receive_turn_def split: if_splits list.splits option.splits)
  then show ?thesis
    by (cases "k < length (dp_heap d)") (simp_all add: quiet_def with_exchange_def map_update list_update_same_conv list_update_beyond)
qed

lemma mset_concat_update:
  "k < length xs \<Longrightarrow> mset (concat (xs[k := xs ! k @ [x]])) = add_mset x (mset (concat xs))"
  by (induction xs arbitrary: k) (auto split: nat.split)

lemma logs_ok_accepted:
  assumes "logs_ok d" "k < length (dp_heap d)" "encode req = Inr wire"
    "map ex_log (dp_heap d') = (map ex_log (dp_heap d))[k := ex_log (dp_heap d ! k) @ [req]]"
    "dp_frames d' = dp_frames d @ [wire]" "dp_live d' = dp_live d"
  shows "logs_ok d'"
proof -
  let ?logs = "map ex_log (dp_heap d)"
  have nth: "?logs ! k = ex_log (dp_heap d ! k)" using assms(2) by simp
  have len: "length (dp_heap d') = length (dp_heap d)" using assms(4) by (metis length_list_update length_map)
  have old: "list_all (\<lambda>sent. subseq (map encode sent) (map Inr (dp_frames d))) ?logs"
    using assms(1) by (simp add: logs_ok_def)
  have "subseq (map encode sent) (map Inr (dp_frames d) @ [Inr wire])" if "sent \<in> set (map ex_log (dp_heap d'))" for sent
  proof (cases "sent \<in> set ?logs")
    case True
    then have "subseq (map encode sent) (map Inr (dp_frames d))" using old by (auto simp: list_all_iff)
    then show ?thesis by (rule subseq_rev_drop_many)
  next
    case False
    then have "sent = ?logs ! k @ [req]"
      using that nth unfolding assms(4) by (metis in_mono insertE set_update_subset_insert)
    moreover have "subseq (map encode (?logs ! k)) (map Inr (dp_frames d))"
      using old assms(2) by (simp add: list_all_length)
    then have "subseq (map encode (?logs ! k) @ [Inr wire]) (map Inr (dp_frames d) @ [Inr wire])"
      by (simp only: subseq_append)
    ultimately show ?thesis using assms(3) by simp
  qed
  moreover have "mset (concat (map ex_log (dp_heap d'))) = add_mset req (mset (concat ?logs))"
    using mset_concat_update [of k ?logs req] assms(2,4) nth by simp
  moreover have "\<forall>j \<in> set (dp_live d'). j < length (dp_heap d')"
    using assms(1,6) len by (simp add: logs_ok_def)
  ultimately show ?thesis using assms(1,3,5) by (simp add: logs_ok_def list_all_iff)
qed

lemma exchange_send_logs:
  assumes "logs_ok d" "k < length (dp_heap d)" "exchange_send req k d = (res, d')"
  shows "logs_ok d'"
proof (cases "request_id req")
  case (Some i)
  let ?d = "with_exchange k (\<lambda>e. e\<lparr>ex_outstanding := set_add i (ex_outstanding e)\<rparr>) d"
  have ok: "logs_ok ?d" by (rule quiet_ok [OF quiet_exchange assms(1)]) simp
  have sub: "submit req k ?d = (res, d')" using assms(3) Some by (simp add: exchange_send_def)
  show ?thesis
  proof (cases "dp_failure ?d = None \<and> \<not> dp_closed ?d")
    case True
    obtain r c where sent: "send req (dp_codec ?d) = (r, c)" by fastforce
    show ?thesis
    proof (cases r)
      case (Inl err)
      then have "d' = ?d\<lparr>dp_codec := c\<rparr>" using sub True sent by (simp add: submit_def)
      then show ?thesis using quiet_ok [OF _ ok, of d'] by (simp add: quiet_def)
    next
      case (Inr wire)
      then have "encode req = Inr wire"
        using sent by (auto simp: send_def require_state_def split: if_splits option.splits sum.splits)
      moreover have "map ex_log (dp_heap d') = (map ex_log (dp_heap d))[k := ex_log (dp_heap d ! k) @ [req]]"
          "dp_frames d' = dp_frames d @ [wire]" "dp_live d' = dp_live d"
        using sub True sent Inr assms(2) by (auto simp: submit_def with_exchange_def map_update list_update_same_conv)
      ultimately show ?thesis using logs_ok_accepted [OF assms(1,2)] by blast
    qed
  next
    case False
    then have "d' = ?d" using sub by (auto simp: submit_def split: option.splits)
    then show ?thesis using ok by simp
  qed
qed (use assms in \<open>simp add: exchange_send_def\<close>)

lemma exchange_open_logs: "logs_ok d \<Longrightarrow> exchange_open d = (k, d') \<Longrightarrow> logs_ok d' \<and> k < length (dp_heap d')"
  by (auto simp: logs_ok_def exchange_open_def new_exchange_def less_Suc_eq)

lemma reap_next_logs:
  assumes "logs_ok d" "reap_next d = Some d'" shows "logs_ok d'"
proof (cases "dp_closed d \<or> dp_reaper d \<noteq> ReaperIdle \<or> dp_orphans d = []")
  case True
  then have "d' = d" using assms(2) by (auto simp: reap_next_def split: reaper_state.splits list.splits if_splits)
  then show ?thesis using assms by simp
next
  case False
  then obtain h rest where idle: "\<not> dp_closed d" "dp_reaper d = ReaperIdle" "dp_orphans d = h # rest"
    by (cases "dp_orphans d") auto
  let ?d1 = "\<lambda>c. d\<lparr>dp_orphans := rest, dp_reaped := dp_reaped d + 1, dp_codec := c\<rparr>"
  have ok1: "logs_ok (?d1 c)" for c by (rule quiet_ok [OF _ assms(1)]) (simp add: quiet_def)
  obtain r c where alloc: "allocate_request_id (dp_codec d) = Some (r, c)"
    using assms(2) idle by (cases "allocate_request_id (dp_codec d)") (auto simp: reap_next_def Let_def)
  show ?thesis
  proof (cases r)
    case (Inl err)
    then have "d' = ?d1 c" using assms(2) idle alloc by (simp add: reap_next_def)
    then show ?thesis using ok1 by simp
  next
    case (Inr i)
    obtain k d3 where op: "exchange_open (?d1 c) = (k, d3)" by fastforce
    obtain res d4 where sent: "exchange_send (Close i h) k d3 = (res, d4)" by fastforce
    have ok4: "logs_ok d4" using exchange_open_logs [OF ok1 op] exchange_send_logs [OF _ _ sent] by blast
    have "logs_ok (retire k d4)" "logs_ok (d4\<lparr>dp_reaper := Reaping k\<rparr>)"
      by (rule quiet_ok [OF _ ok4], simp add: quiet_def retire_def)+ 
    moreover have "d' = (case res of Inl _ \<Rightarrow> retire k d4 | Inr _ \<Rightarrow> d4\<lparr>dp_reaper := Reaping k\<rparr>)"
      using assms(2) idle alloc Inr op sent by (simp add: reap_next_def split: sum.splits)
    ultimately show ?thesis by (cases res) auto
  qed
qed

lemma dp_step_logs:
  assumes ok: "logs_ok d" shows "logs_ok (dp_step inp d)"
proof (cases inp)
  case OpenExchange
  then show ?thesis using exchange_open_logs [OF ok] by (cases "exchange_open d") (simp add: dp_step_def)
next
  case (Ask mk k)
  have "logs_ok x" if own: "owned k d" and asked: "ask mk k d = Some (res, x)" for res x
  proof -
    have k: "k < length (dp_heap d)" using ok own by (simp add: logs_ok_def owned_def)
    obtain v c where alloc: "allocate_request_id (dp_codec d) = Some (v, c)"
      using asked by (auto simp: ask_def split: option.splits)
    have ok': "logs_ok (d\<lparr>dp_codec := c\<rparr>)" by (rule quiet_ok [OF _ ok]) (simp add: quiet_def)
    show ?thesis
      using asked alloc ok' exchange_send_logs [OF ok', of k _ res x] k by (cases v) (auto simp: ask_def)
  qed
  then show ?thesis using ok Ask by (auto simp: dp_step_def split: option.split)
next
  case (TakeReply k)
  obtain res e where turn: "receive_turn (dp_heap d ! k) = (res, e)" by fastforce
  from quiet_ok [OF quiet_turn [OF turn] ok] show ?thesis
    using ok turn TakeReply by (simp add: dp_step_def take_reply_def)
next
  case ReapNext
  then show ?thesis using ok reap_next_logs [OF ok] by (simp add: dp_step_def split: option.split)
next
  case ReapWait
  have "quiet d (reap_wait d)"
  proof (cases "dp_reaper d")
    case (Reaping k)
    obtain res e where turn: "receive_turn (dp_heap d ! k) = (res, e)" by fastforce
    let ?d = "with_exchange k (\<lambda>_. e) d"
    have "quiet d ?d" "quiet d (retire k ?d)"
      using quiet_turn [OF turn] quiet_trans [OF _ quiet_retire] by blast+
    then show ?thesis using Reaping turn by (auto simp: reap_wait_def quiet_def split: option.split)
  qed (simp add: reap_wait_def)
  then show ?thesis using quiet_ok ok ReapWait by (simp add: dp_step_def)
next
  case (WriteTimesOut j n)
  have "quiet d (release_reaper k (dp_fail err (abandon_write j n d)))" for k err
    by (blast intro: quiet_trans quiet_abandon quiet_fail quiet_release)
  then show ?thesis using ok quiet_ok WriteTimesOut by (auto simp: dp_step_def write_timed_out_def split: option.split)
next
  case (WriteAbandoned j n)
  have "quiet d (release_reaper k (abandon_write j n d))" for k
    by (blast intro: quiet_trans quiet_abandon quiet_release)
  then show ?thesis using ok quiet_ok WriteAbandoned by (auto simp: dp_step_def write_abandoned_def)
next
  case CloseSession
  have "quiet d (dp_close d)"
    using quiet_retire by (auto simp: dp_close_def quiet_def retire_def Let_def split: reaper_state.split)
  then show ?thesis using ok quiet_ok CloseSession by (simp add: dp_step_def)
next
  case StartReader
  have "quiet d (snd (reader_start d))" by (simp add: reader_start_def quiet_def)
  then show ?thesis using ok quiet_ok StartReader by (simp add: dp_step_def)
qed (use ok quiet_ok [OF _ ok] in \<open>auto simp: dp_step_def reader_broken_def\<close>)

lemma logs_run: "logs_ok d \<Longrightarrow> logs_ok (dp_run inputs d)"
proof (induction inputs rule: rev_induct)
  case (snoc inp inputs)
  then show ?case using dp_step_logs by (simp add: dp_run_def)
qed (simp add: dp_run_def)

section \<open>Properties\<close>

text \<open>A codec whose handshake is done.\<close>

definition negotiated :: "codec \<Rightarrow> bool" where
  "negotiated c \<longleftrightarrow> codec_ok c \<and> cd_state c = READY \<and> cd_outstanding c = []"

lemma session_ok_reached:
  assumes "negotiated c" "list_all polite inputs" shows "session_ok (dp_run inputs (new_dispatcher c t))"
  using assms session_ok_new session_ok_run by (simp add: negotiated_def)

text \<open>
  C17. Replies reach the operation that asked: while the connection is healthy, the requests
  accepted from an open exchange are exactly those it has a reply for, each once, and those the
  codec still has in flight and routes to it; every reply it holds carries its request's id.
\<close>

theorem replies_reach_their_operation:
  assumes "negotiated c" "list_all polite inputs" "d = dp_run inputs (new_dispatcher c t)"
    and "dp_failure d = None" "\<not> dp_closed d" "k \<in> set (dp_live d)" "e = dp_heap d ! k"
  shows "mset (ex_log e) = mset (map fst (ex_taken e @ ex_ready e)) +
       mset (map (\<lambda>i. the (dict_get (cd_outstanding (dp_codec d)) i)) (ex_outstanding e)) \<and>
     list_all (\<lambda>i. dict_has (cd_outstanding (dp_codec d)) i \<and> dict_get (dp_routes d) i = Some k) (ex_outstanding e) \<and>
     list_all (\<lambda>(req, resp). is_response resp \<and> request_id resp = request_id req) (ex_taken e @ ex_ready e)"
proof -
  have inv: "dispatch_ok (cd_outstanding (dp_codec d)) d"
    using session_ok_reached [OF assms(1,2)] assms(3) by (simp add: session_ok_def)
  have well: "healthy d" using assms(4,5) by (simp add: healthy_def)
  have comp: "complete (cd_outstanding (dp_codec d)) (dp_routes d) k e"
    using dispatch_okD(6) [OF inv well assms(6)] assms(7) by simp
  then have routes: "\<forall>i \<in> set (ex_outstanding e). dict_get (dp_routes d) i = Some k" by (simp add: complete_def)
  then have "filter (\<lambda>i. dict_get (dp_routes d) i = Some k) (ex_outstanding e) = ex_outstanding e"
    by (simp add: filter_id_conv)
  then have "mset (ex_log e) = mset (map fst (ex_taken e @ ex_ready e)) +
      mset (map (\<lambda>i. the (dict_get (cd_outstanding (dp_codec d)) i)) (ex_outstanding e))"
    using comp by (simp add: complete_def delivered_def routed_def)
  moreover have "dict_has (cd_outstanding (dp_codec d)) i" if "i \<in> set (ex_outstanding e)" for i
    using dispatch_okD(1) [OF inv] routes that by blast
  moreover have "ex_sound e" using dispatch_okD(2,5) [OF inv] assms(6,7) by blast
  ultimately show ?thesis using routes by (auto simp: list_all_iff ex_sound_def)
qed

text \<open>
  C18. No task sleeps through what it waits for: whenever a turn of an operation's receive loop
  gives nothing, it has no reply and no failure waiting; and once the connection has failed, a
  turn of any open exchange that ever had a request accepted returns a reply or raises.
\<close>

theorem failure_reaches_every_waiter:
  assumes "negotiated c" "list_all polite inputs" "d = dp_run inputs (new_dispatcher c t)"
    and "owned k d" "e = dp_heap d ! k"
  shows "(fst (take_reply k d) = None \<longrightarrow> ex_ready e = [] \<and> ex_failure e = None) \<and>
    (dp_failure d \<noteq> None \<and> ex_log e \<noteq> [] \<longrightarrow> fst (take_reply k d) \<noteq> None \<and>
       (ex_ready e = [] \<longrightarrow> (\<exists>err. fst (take_reply k d) = Some (Inl err) \<and> ex_failure e = Some err)))"
proof -
  have inv: "dispatch_ok (cd_outstanding (dp_codec d)) d"
    using session_ok_reached [OF assms(1,2)] assms(3) by (simp add: session_ok_def)
  have k: "k \<in> set (dp_live d)" using assms(4) by (simp add: owned_def)
  have sound: "ex_sound e" using dispatch_okD(2,5) [OF inv] k assms(5) by blast
  have turn: "fst (take_reply k d) = fst (receive_turn e)"
    using assms(4,5) by (simp add: take_reply_def split: prod.split)
  have failed: "dp_failure d = None \<or> ex_log e = [] \<or> (\<exists>err. ex_failure e = Some err)"
    using dispatch_okD(8) [OF inv _ k] assms(5) by (cases "dp_failure d") auto
  show ?thesis
    unfolding turn using sound failed
    by (auto simp: receive_turn_def ex_sound_def split: list.splits option.splits)
qed

text \<open>
  C19. Frames are never interleaved: whatever the order in which tasks send, and in however many
  pieces the transport takes a frame, as long as no write was abandoned the pipe's bytes followed
  by what is queued behind the send lock are a sequence of whole frames. These are the encodings
  of the requests accepted from the exchanges, each once, those of one exchange in the order in
  which it sent them, and the two counters are their number and size. That only the holder of
  the lock writes is the model's send lock.
\<close>

theorem frames_whole_and_in_order:
  assumes "d = dp_run inputs (new_dispatcher c t)"
  shows "(\<not> dp_cut d \<longrightarrow>
       dp_pipe d @ drop (dp_taken d) (concat (map (snd \<circ> snd) (dp_writers d))) = concat (dp_frames d)) \<and>
    mset (map Inr (dp_frames d)) = mset (map encode (concat (map ex_log (dp_heap d)))) \<and>
    list_all (\<lambda>e. subseq (map encode (ex_log e)) (map Inr (dp_frames d))) (dp_heap d) \<and>
    dp_bytes_sent d = length (concat (dp_frames d)) \<and> dp_requests_sent d = length (dp_frames d)"
proof -
  have "frames_ok (new_dispatcher c t)" "handles_ok (new_dispatcher c t)" "logs_ok (new_dispatcher c t)"
    by (simp_all add: new_dispatcher_def frames_ok_def handles_ok_def logs_ok_def queued_def)
  with parts_run [of "new_dispatcher c t" inputs] logs_run [of "new_dispatcher c t" inputs]
  show ?thesis unfolding assms frames_ok_def logs_ok_def queued_def by (simp add: list_all_iff)
qed

text \<open>
  What the reaper's next step does with the handle it takes: one CLOSE of it under a fresh id, on
  an exchange of its own that the reply is routed to; or nothing, for a reason.
\<close>

definition closes_next :: "bytes \<Rightarrow> dispatcher \<Rightarrow> dispatcher \<Rightarrow> bool" where
  "closes_next h d d' \<longleftrightarrow>
     (case dp_reaper d' of
        Reaping k \<Rightarrow> \<exists>i wire. encode (Close i h) = Inr wire \<and> \<not> dict_has (cd_outstanding (dp_codec d)) i \<and>
          dp_frames d' = dp_frames d @ [wire] \<and> dp_writers d' = dp_writers d @ [(k, Close i h, wire)] \<and>
          k \<notin> set (dp_live d) \<and> dict_get (dp_routes d') i = Some k \<and> ex_log (dp_heap d' ! k) = [Close i h]
      | ReaperIdle \<Rightarrow> dp_frames d' = dp_frames d \<and> dp_writers d' = dp_writers d \<and> dp_live d' = dp_live d \<and>
          (dp_failure d \<noteq> None \<or> int (length (cd_outstanding (dp_codec d))) > MAX_REQUEST_ID - MIN_REQUEST_ID \<or>
           (\<exists>i err. encode (Close i h) = Inl err)))"

lemma exchange_send_closes:
  assumes ok: "session_ok d" and k: "k \<in> set (dp_live d)" "ex_log (dp_heap d ! k) = []" "\<not> dp_closed d"
    and fresh: "\<not> dict_has (cd_outstanding (dp_codec d)) i"
  shows "(\<exists>wire d'. exchange_send (Close i h) k d = (Inr (), d') \<and> encode (Close i h) = Inr wire \<and>
       dp_frames d' = dp_frames d @ [wire] \<and> dp_writers d' = dp_writers d @ [(k, Close i h, wire)] \<and>
       dict_get (dp_routes d') i = Some k \<and> ex_log (dp_heap d' ! k) = [Close i h] \<and>
       dp_orphans d' = dp_orphans d \<and> dp_reaped d' = dp_reaped d) \<or>
     (\<exists>err d'. exchange_send (Close i h) k d = (Inl err, d') \<and> dp_frames d' = dp_frames d \<and>
       dp_writers d' = dp_writers d \<and> dp_live d' = dp_live d \<and> dp_orphans d' = dp_orphans d \<and>
       dp_reaped d' = dp_reaped d \<and> dp_reaper d' = dp_reaper d \<and>
       (dp_failure d \<noteq> None \<or> (\<exists>err. encode (Close i h) = Inl err)))"
proof -
  let ?d = "with_exchange k (\<lambda>e. e\<lparr>ex_outstanding := set_add i (ex_outstanding e)\<rparr>) d"
  have inv: "dispatch_ok (cd_outstanding (dp_codec d)) d" using ok by (simp add: session_ok_def)
  have len: "k < length (dp_heap d)" using dispatch_okD(5) [OF inv k(1)] .
  show ?thesis
  proof (cases "dp_failure d")
    case None
    then have ready: "codec_ok (dp_codec d)" "cd_state (dp_codec d) = READY" using ok by (simp_all add: session_ok_def)
    have id: "request_id (Close i h) = Some i" by simp
    from ready fresh id show ?thesis
    proof (cases rule: send_cases)
      case (refused err)
      then show ?thesis using None k by (simp add: exchange_send_def submit_def with_exchange_def)
    next
      case (accepted wire)
      then show ?thesis using None k len by (simp add: exchange_send_def submit_def with_exchange_def)
    qed
  next
    case (Some err)
    then show ?thesis by (simp add: exchange_send_def submit_def with_exchange_def)
  qed
qed

lemma reap_next_closes:
  assumes ok: "session_ok d" "\<not> dp_closed d" "dp_reaper d = ReaperIdle" "dp_orphans d = h # rest"
  shows "\<exists>d'. reap_next d = Some d' \<and> dp_orphans d' = rest \<and> dp_reaped d' = Suc (dp_reaped d) \<and> closes_next h d d'"
proof -
  let ?d1 = "d\<lparr>dp_orphans := rest, dp_reaped := dp_reaped d + 1\<rparr>"
  have ok1: "session_ok ?d1" using session_ok_cong [of ?d1 d] ok(1) by simp
  have cok: "codec_ok (dp_codec d)" using ok(1) by (simp add: session_ok_def)
  from cok show ?thesis
  proof (cases rule: allocate_cases)
    case full
    then show ?thesis using ok(2-4) by (simp add: reap_next_def closes_next_def)
  next
    case (fresh i)
    let ?c = "(dp_codec d)\<lparr>cd_next_id := advance i\<rparr>"
    have ok2: "session_ok (?d1\<lparr>dp_codec := ?c\<rparr>)"
      by (rule session_ok_codec [OF ok1]) (use codec_ok_allocate [OF cok fresh(1)] in simp_all)
    then have inv2: "dispatch_ok (cd_outstanding ?c) (?d1\<lparr>dp_codec := ?c\<rparr>)" by (simp add: session_ok_def)
    obtain k d3 where op: "exchange_open (?d1\<lparr>dp_codec := ?c\<rparr>) = (k, d3)" by fastforce
    note opened = exchange_open_ok [OF inv2 op]
    have d3: "dp_frames d3 = dp_frames d" "dp_writers d3 = dp_writers d" "dp_live d3 = dp_live d @ [k]"
        "dp_orphans d3 = rest" "dp_reaped d3 = Suc (dp_reaped d)"
      using op by (auto simp: exchange_open_def)
    have ok3: "session_ok d3" using opened(1,4,5,8) ok2 by (simp add: session_ok_def)
    have new: "k \<notin> set (dp_live d)"
      using dispatch_okD(5) [of "cd_outstanding (dp_codec d)" d k] ok(1) opened(2) by (auto simp: session_ok_def)
    have next_step: "reap_next d = (case exchange_send (Close i h) k d3 of
        (Inl _, d4) \<Rightarrow> Some (retire k d4) | (Inr _, d4) \<Rightarrow> Some (d4\<lparr>dp_reaper := Reaping k\<rparr>))"
      using ok(2-4) fresh(1) op by (simp add: reap_next_def)
    have "ex_log (dp_heap d3 ! k) = []" "\<not> dp_closed d3" "\<not> dict_has (cd_outstanding (dp_codec d3)) i"
      using opened(4,6,9) ok(2) fresh(2) by (simp_all add: new_exchange_def)
    from exchange_send_closes [OF ok3 opened(3) this, of h]
    consider (closed) wire d4 where "exchange_send (Close i h) k d3 = (Inr (), d4)" "encode (Close i h) = Inr wire"
        "dp_frames d4 = dp_frames d3 @ [wire]" "dp_writers d4 = dp_writers d3 @ [(k, Close i h, wire)]"
        "dict_get (dp_routes d4) i = Some k" "ex_log (dp_heap d4 ! k) = [Close i h]"
        "dp_orphans d4 = dp_orphans d3" "dp_reaped d4 = dp_reaped d3"
      | (refused) err d4 where "exchange_send (Close i h) k d3 = (Inl err, d4)" "dp_frames d4 = dp_frames d3"
        "dp_writers d4 = dp_writers d3" "dp_live d4 = dp_live d3" "dp_orphans d4 = dp_orphans d3"
        "dp_reaped d4 = dp_reaped d3" "dp_reaper d4 = dp_reaper d3"
        "dp_failure d3 \<noteq> None \<or> (\<exists>err. encode (Close i h) = Inl err)"
      by blast
    then show ?thesis
    proof cases
      case closed
      then show ?thesis
        using next_step d3 new fresh(2) by (auto simp: closes_next_def)
    next
      case (refused err d4)
      have "closes_next h d (retire k d4)"
        using refused d3 new opened(5,7) ok(3) by (auto simp: closes_next_def retire_def)
      then show ?thesis using next_step refused d3 by (simp add: retire_def)
    qed
  qed
qed

lemma reaper_freed_by_an_answer:
  assumes ok: "session_ok d" and busy: "dp_reaper d = Reaping k"
    and "ex_ready (dp_heap d ! k) \<noteq> [] \<or> ex_failure (dp_heap d ! k) \<noteq> None"
  shows "dp_reaper (reap_wait d) = ReaperIdle \<and> k \<notin> set (dp_live (reap_wait d))"
proof -
  have inv: "dispatch_ok (cd_outstanding (dp_codec d)) d" using ok by (simp add: session_ok_def)
  have "ex_sound (dp_heap d ! k)"
    using dispatch_okD(2) [OF inv dispatch_okD(5) [OF inv dispatch_okD(10) [OF inv busy]]] .
  then show ?thesis
    using assms(3) busy
    by (auto simp: reap_wait_def receive_turn_def ex_sound_def retire_def split: list.splits option.splits)
qed

lemma reaper_freed_by_its_write:
  assumes "dp_reaper d = Reaping k" "j < length (dp_writers d)" "fst (dp_writers d ! j) = k"
  shows "dp_reaper (write_abandoned j n d) = ReaperIdle \<and> k \<notin> set (dp_live (write_abandoned j n d))"
  using assms by (simp add: write_abandoned_def release_reaper_def abandon_write_def retire_def Let_def)

text \<open>
  C35. Orphaned handles are closed: at any moment at which the reaper is free and holds the handle
  of an unclaimed reply, its next step takes the oldest one it has not taken (they come in the
  order in which the replies came, and each is taken once), counts it, and either hands over
  exactly one frame, the CLOSE of that very handle under a fresh id, on an exchange of its own
  that its reply is routed to, or hands over nothing, which happens only when the connection has
  failed, every request id is in flight or the CLOSE cannot be encoded. Once its exchange has the
  answer or a failure, or its write is abandoned, the reaper is free again and the exchange
  retired.
\<close>

theorem orphans_are_closed_one_by_one:
  assumes "negotiated c" "list_all polite inputs" "d = dp_run inputs (new_dispatcher c t)" "\<not> dp_closed d"
  shows "(dp_reaper d = ReaperIdle \<and> dp_orphans d = h # rest \<longrightarrow>
      h = dp_handles d ! dp_reaped d \<and> dp_reaped d < length (dp_handles d) \<and>
      (\<exists>d'. reap_next d = Some d' \<and> dp_orphans d' = drop (Suc (dp_reaped d)) (dp_handles d) \<and>
         dp_reaped d' = Suc (dp_reaped d) \<and> closes_next h d d')) \<and>
    (dp_reaper d = Reaping k \<longrightarrow>
      (ex_ready (dp_heap d ! k) \<noteq> [] \<or> ex_failure (dp_heap d ! k) \<noteq> None \<longrightarrow>
         dp_reaper (reap_wait d) = ReaperIdle \<and> k \<notin> set (dp_live (reap_wait d))) \<and>
      (j < length (dp_writers d) \<and> fst (dp_writers d ! j) = k \<longrightarrow>
         dp_reaper (write_abandoned j n d) = ReaperIdle \<and> k \<notin> set (dp_live (write_abandoned j n d))))"
proof -
  have ok: "session_ok d" using session_ok_reached [OF assms(1,2)] assms(3) by simp
  have "frames_ok (new_dispatcher c t)" "handles_ok (new_dispatcher c t)"
    by (simp_all add: new_dispatcher_def frames_ok_def handles_ok_def queued_def)
  from parts_run [OF this, of inputs] have handles: "handles_ok d" by (simp add: assms(3))
  have "h = dp_handles d ! dp_reaped d \<and> dp_reaped d < length (dp_handles d) \<and> rest = drop (Suc (dp_reaped d)) (dp_handles d)"
    if "dp_orphans d = h # rest"
    using handles that unfolding handles_ok_def
    by (metis Cons_nth_drop_Suc drop_all leI list.distinct(1) list.inject)
  then show ?thesis using reap_next_closes [OF ok assms(4)] reaper_freed_by_an_answer [OF ok] reaper_freed_by_its_write by blast
qed

section \<open>Concrete runs\<close>

text \<open>A codec after its handshake, and two operations that ask for attributes.\<close>

definition ready_codec :: codec where
  "ready_codec = \<lparr>cd_splitter = \<lparr>fs_buf = [], fs_start = 0, fs_max = 1000\<rparr>, cd_state = READY,
     cd_version = Some PROTOCOL_VERSION, cd_extensions = [], cd_outstanding = [], cd_next_id = MIN_REQUEST_ID\<rparr>"

definition ask_stat :: "int \<Rightarrow> packet" where "ask_stat i = Stat i [47]"

definition ask_open :: "int \<Rightarrow> packet" where "ask_open i = Open i [47] 1 EMPTY_ATTRS None"

lemma ready_negotiated: "negotiated ready_codec"
  by (simp add: negotiated_def ready_codec_def codec_ok_def drained_def splitter_ok_def pending_def split_stream_nil
      MIN_REQUEST_ID_def MAX_REQUEST_ID_def)

lemma sendable_stat: "sendable ask_stat"
proof -
  have "\<exists>wire. encode (Stat i [47]) = Inr wire" if "1 \<le> i" "i \<le> 4294967295" for i
    using that
    by (simp add: encode_def encode_string_request_def wseq_def write_uint8_def write_uint32_def write_string_def
        to_bytes_def frame_def UINT8_MAX_def UINT32_MAX_def put_chunk_def wire_writer_def)
  then show ?thesis by (simp add: sendable_def ask_stat_def MIN_REQUEST_ID_def MAX_REQUEST_ID_def)
qed

definition handle_frame :: bytes where
  "handle_frame = [0, 0, 0, 10, 102, 0, 0, 0, 1, 0, 0, 0, 1, 7]"

text \<open>Two operations ask; then the first chunk of the reply to the second one breaks off.\<close>

definition two_asks :: "dp_input list" where
  "two_asks = [StartReader, OpenExchange, OpenExchange, Ask ask_stat 0, Ask ask_stat 1, WriteDone, TakeReply 0,
     ChunkArrives False [0, 0, 0, 24, 101, 0, 0, 0, 2]]"

lemma two_asks_polite: "list_all polite two_asks" "list_all polite (two_asks @ [TransportBreaks ConnectErr])"
  by (simp_all add: two_asks_def polite_def sendable_stat)

lemma replies_reach_their_operation_witness:
  "let e = dp_heap (dp_run two_asks (new_dispatcher ready_codec None)) ! 1 in
     mset (ex_log e) = mset (map fst (ex_taken e @ ex_ready e)) +
       mset (map (\<lambda>i. the (dict_get (cd_outstanding (dp_codec (dp_run two_asks (new_dispatcher ready_codec None)))) i))
         (ex_outstanding e))"
proof -
  have "dp_failure (dp_run two_asks (new_dispatcher ready_codec None)) = None" by code_simp
  moreover have "\<not> dp_closed (dp_run two_asks (new_dispatcher ready_codec None))" by code_simp
  moreover have "1 \<in> set (dp_live (dp_run two_asks (new_dispatcher ready_codec None)))" by code_simp
  ultimately show ?thesis
    using replies_reach_their_operation [OF ready_negotiated two_asks_polite(1) refl, of None 1] by simp
qed

lemma failure_reaches_every_waiter_witness:
  "fst (take_reply 0 (dp_run (two_asks @ [TransportBreaks ConnectErr]) (new_dispatcher ready_codec None))) \<noteq> None"
proof -
  let ?d = "dp_run (two_asks @ [TransportBreaks ConnectErr]) (new_dispatcher ready_codec None)"
  have "owned 0 ?d" by code_simp
  moreover have "dp_failure ?d = Some ConnectErr" by code_simp
  moreover have "ex_log (dp_heap ?d ! 0) = [Stat 1 [47]]" by code_simp
  ultimately show ?thesis
    using failure_reaches_every_waiter [OF ready_negotiated two_asks_polite(2) refl, of 0 None] by simp
qed

text \<open>Two tasks send, the transport takes the first frame in pieces, and the first task is done.\<close>

definition two_sends :: "dp_input list" where
  "two_sends = [StartReader, OpenExchange, OpenExchange, Ask ask_stat 0, Ask ask_stat 1, WriteSome 5, WriteSome 2,
     TakeReply 0, WriteSome 20, WriteDone, WriteSome 3]"

lemma frames_whole_and_in_order_witness:
  "let d = dp_run two_sends (new_dispatcher ready_codec None) in
   dp_pipe d @ drop 3 (concat (map (snd \<circ> snd) (dp_writers d))) = concat (dp_frames d) \<and>
   length (dp_writers d) = 1 \<and> length (dp_frames d) = 2"
proof -
  have "\<not> dp_cut (dp_run two_sends (new_dispatcher ready_codec None))" by code_simp
  moreover have "dp_taken (dp_run two_sends (new_dispatcher ready_codec None)) = 3" by code_simp
  moreover have "length (dp_writers (dp_run two_sends (new_dispatcher ready_codec None))) = 1 \<and>
      length (dp_frames (dp_run two_sends (new_dispatcher ready_codec None))) = 2" by code_simp
  ultimately show ?thesis
    using frames_whole_and_in_order [OF refl, of two_sends ready_codec None] by (simp add: Let_def)
qed

text \<open>An operation that opens a file is abandoned; the server's handle arrives for nobody.\<close>

definition abandoned_open :: "dp_input list" where
  "abandoned_open = [StartReader, OpenExchange, Ask ask_open 0, WriteDone, RetireExchange 0, ChunkArrives True handle_frame]"

lemma sendable_open: "sendable ask_open"
proof -
  have "\<exists>wire. encode (Open i [47] 1 EMPTY_ATTRS None) = Inr wire" if "1 \<le> i" "i \<le> 4294967295" for i
    using that
    by (simp add: encode_def wseq_def write_uint8_def write_uint32_def write_string_def to_bytes_def frame_def
        encode_attrs_def EMPTY_ATTRS_def attrs_flags_def wopt_def wskip_def open_wire_pflags_def UINT8_MAX_def UINT32_MAX_def put_chunk_def wire_writer_def)
  then show ?thesis by (simp add: sendable_def ask_open_def MIN_REQUEST_ID_def MAX_REQUEST_ID_def)
qed

lemma orphans_are_closed_one_by_one_witness:
  "let d = dp_run abandoned_open (new_dispatcher ready_codec None) in
   \<exists>d'. reap_next d = Some d' \<and> dp_orphans d' = [] \<and> closes_next [7] d d'"
proof -
  let ?d = "dp_run abandoned_open (new_dispatcher ready_codec None)"
  have "list_all polite abandoned_open" by (simp add: abandoned_open_def polite_def sendable_open)
  moreover have "\<not> dp_closed ?d" by code_simp
  moreover have "dp_reaper ?d = ReaperIdle \<and> dp_orphans ?d = [[7]] \<and> dp_handles ?d = [[7]] \<and> dp_reaped ?d = 0" by code_simp
  ultimately have "\<exists>d'. reap_next ?d = Some d' \<and> dp_orphans d' = [] \<and> dp_reaped d' = Suc 0 \<and> closes_next [7] ?d d'"
    using orphans_are_closed_one_by_one [OF ready_negotiated, of abandoned_open ?d None "[7]" "[]"] by simp
  then show ?thesis unfolding Let_def by blast
qed

section \<open>What the code does not promise, or does not keep\<close>

text \<open>
  A handle can be lost between its delivery and its owner: when the reply to an OPEN is
  delivered to an exchange whose owner is cancelled before it runs again, retiring the exchange
  drops it. Nothing is counted unclaimed and the reaper never learns of it; had the reply come
  after the exchange was retired, the reaper would have it.
\<close>

theorem delivered_handle_is_lost:
  "let before = [StartReader, OpenExchange, Ask ask_open 0, WriteDone, TakeReply 0];
       d = dp_run (before @ [ChunkArrives True handle_frame, RetireExchange 0]) (new_dispatcher ready_codec None);
       d' = dp_run (before @ [RetireExchange 0, ChunkArrives True handle_frame]) (new_dispatcher ready_codec None) in
   map snd (ex_ready (dp_heap d ! 0)) = [Handle 1 [7]] \<and> dp_live d = [] \<and> ex_taken (dp_heap d ! 0) = [] \<and>
   cd_outstanding (dp_codec d) = [] \<and> dp_unclaimed d = 0 \<and> dp_orphans d = [] \<and>
   dp_unclaimed d' = 1 \<and> dp_orphans d' = [[7]]"
  by code_simp

text \<open>
  An abandoned write does not stop the ones behind it: a write that was waiting for the lock
  when another timed out still goes into the pipe, behind the part of a frame, although the
  connection is recorded as failed; and a write abandoned by cancellation leaves the part of a
  frame without any failure being recorded, so the next operation writes on.
\<close>

theorem writes_after_a_cut_frame:
  "let before = [StartReader, OpenExchange, OpenExchange, Ask ask_stat 0, Ask ask_stat 1];
       d = dp_run (before @ [WriteTimesOut 0 3, WriteDone]) (new_dispatcher ready_codec (Some 30));
       d' = dp_run (before @ [WriteAbandoned 0 3, WriteDone]) (new_dispatcher ready_codec (Some 30)) in
   dp_failure d \<noteq> None \<and> dp_pipe d = take 3 (dp_frames d ! 0) @ dp_frames d ! 1 \<and>
   dp_failure d' = None \<and> dp_pipe d' = take 3 (dp_frames d' ! 0) @ dp_frames d' ! 1"
  by code_simp

text \<open>
  A request sent under an id that is in flight is refused, but retiring the exchange it was
  refused on takes the route of the request that holds the id.
\<close>

lemma duplicate_id_takes_the_route:
  "let d = dp_run [StartReader, OpenExchange, OpenExchange, Ask ask_stat 0] (new_dispatcher ready_codec None);
       (res, d1) = exchange_send (Stat 1 [48]) 1 d in
   dict_get (dp_routes d) 1 = Some 0 \<and> res = Inl (StateErr (Msg ''request id is already in flight'' [IntArg 1])) \<and>
   dict_get (dp_routes (retire 1 d1)) 1 = None \<and> dict_has (cd_outstanding (dp_codec (retire 1 d1))) 1"
  by code_simp

end
