(* ===== verification/ByteText.thy ===== *)
theory ByteText
  imports Prelude "HOL-Library.Sublist"
begin

text \<open>
  The methods of Python's \<open>bytes\<close> and \<open>str\<close> that paths, names and messages are handled with,
  over lists of any element type: \<open>split\<close>, \<open>join\<close>, the substring test \<open>in\<close>, \<open>startswith\<close>,
  \<open>endswith\<close>, \<open>rstrip\<close>, \<open>partition\<close> and ASCII \<open>lower\<close>.
\<close>

section \<open>Splitting and joining\<close>

text \<open>\<open>xs.split(c)\<close> for a separator of one element: never empty.\<close>

fun split_on :: "'a \<Rightarrow> 'a list \<Rightarrow> 'a list list" where
  "split_on c [] = [[]]"
| "split_on c (x # xs) =
     (if x = c then [] # split_on c xs
      else (case split_on c xs of [] \<Rightarrow> [[x]] | p # ps \<Rightarrow> (x # p) # ps))"

text \<open>\<open>c.join(pieces)\<close>.\<close>

fun join_with :: "'a \<Rightarrow> 'a list list \<Rightarrow> 'a list" where
  "join_with c [] = []"
| "join_with c [p] = p"
| "join_with c (p # q # ps) = p @ c # join_with c (q # ps)"

lemma split_on_not_Nil [simp]: "split_on c xs \<noteq> []"
  by (induction xs) (auto split: list.splits)

lemma join_split_on [simp]: "join_with c (split_on c xs) = xs"
proof (induction xs)
  case (Cons x xs)
  obtain p ps where sp: "split_on c xs = p # ps" by (cases "split_on c xs") auto
  with Cons show ?case by (cases ps) auto
qed simp

lemma split_on_pieces: "p \<in> set (split_on c xs) \<Longrightarrow> c \<notin> set p"
  by (induction xs arbitrary: p) (auto split: if_splits list.splits)

lemma split_on_elements: "p \<in> set (split_on c xs) \<Longrightarrow> set p \<subseteq> set xs"
  by (induction xs arbitrary: p) (force split: if_splits list.splits)+

lemma split_on_none: "c \<notin> set p \<Longrightarrow> split_on c p = [p]"
  by (induction p) auto

lemma split_on_append_sep: "c \<notin> set p \<Longrightarrow> split_on c (p @ c # xs) = p # split_on c xs"
  by (induction p) auto

lemma split_join:
  assumes "ps \<noteq> []" "\<forall>p \<in> set ps. c \<notin> set p" shows "split_on c (join_with c ps) = ps"
  using assms
proof (induction c ps rule: join_with.induct)
  case (2 c p)
  then show ?case by (simp add: split_on_none)
next
  case (3 c p q ps)
  then show ?case using split_on_append_sep [of c p] by simp
qed simp

lemma join_with_append:
  "ps \<noteq> [] \<Longrightarrow> qs \<noteq> [] \<Longrightarrow> join_with c (ps @ qs) = join_with c ps @ c # join_with c qs"
proof (induction c ps rule: join_with.induct)
  case (2 c p)
  then show ?case by (cases qs) simp_all
qed simp_all

lemma split_on_append:
  "split_on c (xs @ c # ys) = split_on c xs @ split_on c ys"
proof -
  have "join_with c (split_on c xs @ split_on c ys) = xs @ c # ys" by (simp add: join_with_append)
  moreover have "\<forall>p \<in> set (split_on c xs @ split_on c ys). c \<notin> set p" by (auto dest: split_on_pieces)
  ultimately show ?thesis using split_join [of "split_on c xs @ split_on c ys" c] by simp
qed

section \<open>Testing\<close>

text \<open>\<open>needle in xs\<close>.\<close>

fun contains :: "'a list \<Rightarrow> 'a list \<Rightarrow> bool" where
  "contains needle [] \<longleftrightarrow> needle = []"
| "contains needle (x # xs) \<longleftrightarrow> prefix needle (x # xs) \<or> contains needle xs"

lemma contains_iff: "contains needle xs \<longleftrightarrow> (\<exists>a b. xs = a @ needle @ b)"
proof (induction xs)
  case (Cons x xs)
  show ?case
  proof
    assume "contains needle (x # xs)"
    then show "\<exists>a b. x # xs = a @ needle @ b"
    proof (simp, elim disjE)
      assume "prefix needle (x # xs)"
      then show ?thesis by (auto simp: prefix_def intro: exI [of _ "[]"])
    next
      assume "contains needle xs"
      then show ?thesis using Cons by (metis append_Cons)
    qed
  next
    assume "\<exists>a b. x # xs = a @ needle @ b"
    then obtain a b where ab: "x # xs = a @ needle @ b" by blast
    show "contains needle (x # xs)"
    proof (cases a)
      case Nil
      then have "prefix needle (x # xs)" using ab by simp
      then show ?thesis by simp
    next
      case (Cons y a')
      then have "xs = a' @ needle @ b" using ab by simp
      then show ?thesis using Cons.IH by auto
    qed
  qed
qed auto

text \<open>\<open>xs.find(needle, i)\<close>, with \<open>None\<close> for \<open>-1\<close>.\<close>

definition find_from :: "'a list \<Rightarrow> 'a list \<Rightarrow> nat \<Rightarrow> nat option" where
  "find_from needle xs i = find (\<lambda>j. prefix needle (drop j xs)) [i..<Suc (length xs)]"

lemma find_from_Some:
  assumes "find_from needle xs i = Some j"
  shows "i \<le> j" "j + length needle \<le> length xs" "take (length needle) (drop j xs) = needle"
proof -
  have j: "j \<in> set [i..<Suc (length xs)]" "prefix needle (drop j xs)"
    using assms by (auto simp: find_from_def find_Some_iff simp del: upt_Suc)
  then show "i \<le> j" by auto
  from j(2) have "length needle \<le> length (drop j xs)" by (rule prefix_length_le)
  with j(1) show "j + length needle \<le> length xs" by auto
  show "take (length needle) (drop j xs) = needle" using j(2) by (auto simp: prefix_def)
qed

section \<open>ASCII case\<close>

definition lower_byte :: "byte \<Rightarrow> byte" where
  "lower_byte b = (if 65 \<le> b \<and> b \<le> 90 then b + 32 else b)"

end
