(* ===== verification/Glob.thy ===== *)
theory Glob
  imports ByteText Errors
begin

text \<open>
  The glob matcher of \<open>session/_glob.py\<close>, index by index as the code walks the pattern. A byte
  is an integer here as it is there, so that the subject of \<open>validate_pattern\<close> can be \<open>-1\<close>, which
  is no byte. A computation that may raise is a sum; the two-pointer loop of \<open>_match_here\<close> is a
  partial function whose \<open>None\<close> would be a loop that never ends.
\<close>

section \<open>Bytes and classes\<close>

definition byte_at :: "bytes \<Rightarrow> nat \<Rightarrow> int" where "byte_at pat p = uint (pat ! p)"

definition STAR :: int where "STAR = 42"
definition QUESTION :: int where "QUESTION = 63"
definition OPEN_CLASS :: int where "OPEN_CLASS = 91"
definition CLOSE_CLASS :: int where "CLOSE_CLASS = 93"
definition ESCAPE :: int where "ESCAPE = 92"
definition NEGATE :: "int list" where "NEGATE = [33, 94]"
definition DASH :: int where "DASH = 45"
definition COLON :: int where "COLON = 58"
definition LOCALE_MARKERS :: "int list" where "LOCALE_MARKERS = [61, 46]"
definition NO_BYTE :: int where "NO_BYTE = -1"
definition MAGIC_BYTES :: bytes where "MAGIC_BYTES = [42, 63, 91]"
definition RECURSIVE :: bytes where "RECURSIVE = [42, 42]"

lemmas glob_bytes = STAR_def QUESTION_def OPEN_CLASS_def CLOSE_CLASS_def ESCAPE_def NEGATE_def DASH_def
  COLON_def LOCALE_MARKERS_def

text \<open>The twelve POSIX classes as sets of byte values.\<close>

definition in_upper :: "int \<Rightarrow> bool" where "in_upper b \<longleftrightarrow> 65 \<le> b \<and> b \<le> 90"
definition in_lower :: "int \<Rightarrow> bool" where "in_lower b \<longleftrightarrow> 97 \<le> b \<and> b \<le> 122"
definition in_digit :: "int \<Rightarrow> bool" where "in_digit b \<longleftrightarrow> 48 \<le> b \<and> b \<le> 57"
definition in_alpha :: "int \<Rightarrow> bool" where "in_alpha b \<longleftrightarrow> in_upper b \<or> in_lower b"
definition in_graph :: "int \<Rightarrow> bool" where "in_graph b \<longleftrightarrow> 33 \<le> b \<and> b < 127"

definition named_class :: "bytes \<Rightarrow> (int \<Rightarrow> bool) option" where
  "named_class = map_of
     [(ascii ''alnum'', \<lambda>b. in_alpha b \<or> in_digit b), (ascii ''alpha'', in_alpha),
      (ascii ''blank'', \<lambda>b. b \<in> {9, 32}), (ascii ''cntrl'', \<lambda>b. 0 \<le> b \<and> b < 32 \<or> b = 127),
      (ascii ''digit'', in_digit), (ascii ''graph'', in_graph), (ascii ''lower'', in_lower),
      (ascii ''print'', \<lambda>b. 32 \<le> b \<and> b < 127),
      (ascii ''punct'', \<lambda>b. in_graph b \<and> \<not> in_alpha b \<and> \<not> in_digit b),
      (ascii ''space'', \<lambda>b. b \<in> {9, 10, 11, 12, 13, 32}), (ascii ''upper'', in_upper),
      (ascii ''xdigit'', \<lambda>b. in_digit b \<or> 97 \<le> b \<and> b \<le> 102 \<or> 65 \<le> b \<and> b \<le> 70)]"

definition fold_byte :: "int \<Rightarrow> int" where "fold_byte b = (if 65 \<le> b \<and> b \<le> 90 then b + 32 else b)"

definition swap_case :: "int \<Rightarrow> int" where
  "swap_case b = (if 65 \<le> b \<and> b \<le> 90 then b + 32 else if 97 \<le> b \<and> b \<le> 122 then b - 32 else b)"

definition equal_byte :: "int \<Rightarrow> int \<Rightarrow> bool \<Rightarrow> bool" where
  "equal_byte l r cs = (if cs then l = r else fold_byte l = fold_byte r)"

definition in_range :: "int \<Rightarrow> int \<Rightarrow> int \<Rightarrow> bool \<Rightarrow> bool" where
  "in_range low high b cs =
     (if cs then low \<le> b \<and> b \<le> high
      else low \<le> b \<and> b \<le> high \<or> fold_byte low \<le> fold_byte b \<and> fold_byte b \<le> fold_byte high)"

section \<open>Bracket expressions\<close>

definition read_named_class :: "bytes \<Rightarrow> nat \<Rightarrow> int \<Rightarrow> bool \<Rightarrow> exn + (nat \<times> bool) option" where
  "read_named_class pat p b cs =
     (case find_from [58, 93] pat (p + 2) of
        None \<Rightarrow> Inr None
      | Some e \<Rightarrow>
          (let name = take (e - (p + 2)) (drop (p + 2) pat) in
           if list_ex (\<lambda>l. uint l < 97 \<or> uint l > 122) name then Inr None
           else (case named_class name of
                   None \<Rightarrow> Inl (ValueErr (Msg ''unknown character class'' [BytesArg name, NatArg p, BytesArg pat]))
                 | Some members \<Rightarrow>
                     Inr (Some (e + 2, if cs then members b else members b \<or> members (swap_case b))))))"

definition read_sub_expression :: "bytes \<Rightarrow> nat \<Rightarrow> int \<Rightarrow> bool \<Rightarrow> exn + (nat \<times> bool) option" where
  "read_sub_expression pat p b cs =
     (let marker = byte_at pat (p + 1) in
      if marker = COLON then read_named_class pat p b cs
      else if marker \<in> set LOCALE_MARKERS
      then (case find_from [pat ! (p + 1), 93] pat (p + 2) of
              None \<Rightarrow> Inr None
            | Some e \<Rightarrow> Inl (ValueErr (Msg ''not supported in a glob pattern'' [NatArg p, BytesArg pat])))
      else Inr None)"

definition match_class_item :: "bytes \<Rightarrow> nat \<Rightarrow> int \<Rightarrow> bool \<Rightarrow> exn + (nat \<times> bool)" where
  "match_class_item pat p b cs =
     (let low = byte_at pat p in
      case (if low = OPEN_CLASS \<and> p + 1 < length pat then read_sub_expression pat p b cs else Inr None) of
        Inl e \<Rightarrow> Inl e
      | Inr (Some sub) \<Rightarrow> Inr sub
      | Inr None \<Rightarrow>
          Inr (if low = ESCAPE \<and> p + 1 < length pat then (p + 2, equal_byte (byte_at pat (p + 1)) b cs)
               else if p + 2 < length pat \<and> byte_at pat (p + 1) = DASH \<and> byte_at pat (p + 2) \<noteq> CLOSE_CLASS
               then (p + 3, in_range low (byte_at pat (p + 2)) b cs)
               else (p + 1, equal_byte low b cs)))"

lemma match_class_item_advances: "match_class_item pat p b cs = Inr (c, hit) \<Longrightarrow> p < c"
  by (auto simp: match_class_item_def Let_def read_sub_expression_def read_named_class_def
      split: if_splits option.splits sum.splits dest: find_from_Some(1))

text \<open>The loop of \<open>_scan_class\<close>, from \<open>p\<close> with what matched so far.\<close>

function scan_members :: "bytes \<Rightarrow> nat \<Rightarrow> nat \<Rightarrow> bool \<Rightarrow> int \<Rightarrow> bool \<Rightarrow> nat \<Rightarrow> bool \<Rightarrow> exn + (nat \<times> bool)" where
  "scan_members pat start first negated b cs p matched =
     (if p < length pat then
        (if byte_at pat p = CLOSE_CLASS \<and> p > first then Inr (p + 1, matched \<noteq> negated)
         else (case match_class_item pat p b cs of
                 Inl e \<Rightarrow> Inl e
               | Inr (c, hit) \<Rightarrow> scan_members pat start first negated b cs c (matched \<or> hit)))
      else Inr (start + 1, equal_byte OPEN_CLASS b cs))"
  by auto
termination
  by (relation "measure (\<lambda>(pat, start, first, negated, b, cs, p, matched). length pat - p)")
    (auto dest: match_class_item_advances)

declare scan_members.simps [simp del]

definition scan_class :: "bytes \<Rightarrow> nat \<Rightarrow> int \<Rightarrow> bool \<Rightarrow> exn + (nat \<times> bool)" where
  "scan_class pat start b cs =
     (let p = start + 1;
          negated = (p < length pat \<and> byte_at pat p \<in> set NEGATE);
          first = (if negated then p + 1 else p) in
      scan_members pat start first negated b cs first False)"

definition match_class :: "bytes \<Rightarrow> nat \<Rightarrow> int \<Rightarrow> bool \<Rightarrow> exn + nat option" where
  "match_class pat start b cs =
     bind_sum (scan_class pat start b cs) (\<lambda>(e, matched). Inr (if matched then Some e else None))"

section \<open>Matching one name\<close>

definition match_single :: "bytes \<Rightarrow> nat \<Rightarrow> bytes \<Rightarrow> nat \<Rightarrow> bool \<Rightarrow> exn + nat option" where
  "match_single pat p name n cs =
     (if p \<ge> length pat then Inr None
      else (let element = byte_at pat p in
        if element = QUESTION then Inr (Some (p + 1))
        else if element = OPEN_CLASS then match_class pat p (byte_at name n) cs
        else if element = ESCAPE \<and> p + 1 < length pat
        then Inr (if equal_byte (byte_at pat (p + 1)) (byte_at name n) cs then Some (p + 2) else None)
        else Inr (if equal_byte element (byte_at name n) cs then Some (p + 1) else None)))"

text \<open>The loop; the star, when there was one, is its position and how far it reached.\<close>

partial_function (option) match_loop ::
    "bytes \<Rightarrow> bytes \<Rightarrow> bool \<Rightarrow> nat \<Rightarrow> nat \<Rightarrow> (nat \<times> nat) option \<Rightarrow> (exn + bool) option" where
  "match_loop pat name cs p n star =
     (if n < length name then
        (if p < length pat \<and> byte_at pat p = STAR then match_loop pat name cs (p + 1) n (Some (p, n))
         else (case match_single pat p name n cs of
                 Inl e \<Rightarrow> Some (Inl e)
               | Inr (Some consumed) \<Rightarrow> match_loop pat name cs consumed (n + 1) star
               | Inr None \<Rightarrow>
                   (case star of
                      None \<Rightarrow> Some (Inr False)
                    | Some (sp, sn) \<Rightarrow> match_loop pat name cs (sp + 1) (sn + 1) (Some (sp, sn + 1)))))
      else Some (Inr (list_all (\<lambda>b. uint b = STAR) (drop p pat))))"

definition match_here :: "bytes \<Rightarrow> bytes \<Rightarrow> bool \<Rightarrow> (exn + bool) option" where
  "match_here pat name cs = match_loop pat name cs 0 0 None"

definition matches_leading_dot :: "bytes \<Rightarrow> bool" where
  "matches_leading_dot pat \<longleftrightarrow> prefix [46] pat \<or> prefix [92, 46] pat"

definition match_component :: "bytes \<Rightarrow> bytes \<Rightarrow> bool \<Rightarrow> (exn + bool) option" where
  "match_component pat name cs =
     (if prefix [46] name \<and> \<not> matches_leading_dot pat then Some (Inr False) else match_here pat name cs)"

section \<open>Patterns\<close>

definition has_magic :: "bytes \<Rightarrow> bool" where
  "has_magic component \<longleftrightarrow> list_ex (\<lambda>b. b \<in> set component) MAGIC_BYTES"

lemma scan_members_advances: "scan_members pat start first negated b cs p matched = Inr (e, m) \<Longrightarrow> start < p \<Longrightarrow> start < e"
proof (induction pat start first negated b cs p matched rule: scan_members.induct)
  case (1 pat start first negated b cs p matched)
  show ?case
  proof (cases "p < length pat \<and> \<not> (byte_at pat p = CLOSE_CLASS \<and> p > first)")
    case True
    then obtain c hit where item: "match_class_item pat p b cs = Inr (c, hit)"
        "scan_members pat start first negated b cs c (matched \<or> hit) = Inr (e, m)"
      using "1.prems"(1) by (subst (asm) scan_members.simps) (auto split: if_splits sum.splits)
    then show ?thesis
      using "1.IH" [of "(c, hit)" c hit] True match_class_item_advances [OF item(1)] "1.prems"(2) by auto
  next
    case False
    then show ?thesis using "1.prems" by (subst (asm) scan_members.simps) (auto split: if_splits)
  qed
qed

lemma scan_class_advances: "scan_class pat start b cs = Inr (e, m) \<Longrightarrow> start < e"
  by (auto simp: scan_class_def Let_def dest!: scan_members_advances split: if_splits)

function validate_from :: "bytes \<Rightarrow> nat \<Rightarrow> exn + unit" where
  "validate_from pat p =
     (if p < length pat then
        (if byte_at pat p = ESCAPE then validate_from pat (p + 2)
         else if byte_at pat p = OPEN_CLASS
         then (case scan_class pat p NO_BYTE True of
                 Inl e \<Rightarrow> Inl e
               | Inr (q, _) \<Rightarrow> validate_from pat q)
         else validate_from pat (p + 1))
      else Inr ())"
  by auto
termination
  by (relation "measure (\<lambda>(pat, p). length pat - p)") (auto dest: scan_class_advances)

declare validate_from.simps [simp del]

definition validate_pattern :: "bytes \<Rightarrow> exn + unit" where
  "validate_pattern pat = validate_from pat 0"

text \<open>The literal prefix, what remains to be matched, and whether only directories are asked for.\<close>

definition split_pattern :: "bytes \<Rightarrow> bool \<Rightarrow> bytes \<times> bytes list \<times> bool" where
  "split_pattern pat cs =
     (let directories_only = (suffix [47] pat \<and> pat \<noteq> [47]);
          parts = filter (\<lambda>p. p \<noteq> []) (split_on 47 pat);
          index = length (takeWhile (\<lambda>p. \<not> (has_magic p \<or> p = RECURSIVE)) parts);
          index = (if \<not> cs \<and> parts \<noteq> [] then min index (length parts - 1) else index);
          joined = join_with 47 (take index parts) in
      (if prefix [47] pat then 47 # joined else joined, drop index parts, directories_only))"

end
