(* ===== verification/GlobLaws.thy ===== *)
theory GlobLaws
  imports Glob
begin

text \<open>
  What a pattern means and why the two-pointer loop decides it. A valid pattern is a list of
  tokens, stars and sets of bytes; \<open>matches\<close> is the reference, which tries every length for
  every star. The loop keeps one backtrack point, the last star, and that is enough.
\<close>

section \<open>Tokens\<close>

datatype token = Star | Single "int \<Rightarrow> bool"

definition class_has :: "bytes \<Rightarrow> nat \<Rightarrow> bool \<Rightarrow> int \<Rightarrow> bool" where
  "class_has pat p cs b = (case scan_class pat p b cs of Inl _ \<Rightarrow> False | Inr (_, m) \<Rightarrow> m)"

definition and_then :: "token \<Rightarrow> exn + token list \<Rightarrow> exn + token list" where
  "and_then t r = bind_sum r (\<lambda>ts. Inr (t # ts))"

lemma and_then_Inr [simp]: "and_then t r = Inr us \<longleftrightarrow> (\<exists>ts. r = Inr ts \<and> us = t # ts)"
  by (auto simp: and_then_def)

function tokens :: "bytes \<Rightarrow> bool \<Rightarrow> nat \<Rightarrow> exn + token list" where
  "tokens pat cs p =
     (if p < length pat then
        (let e = byte_at pat p in
         if e = STAR then and_then Star (tokens pat cs (p + 1))
         else if e = QUESTION then and_then (Single (\<lambda>_. True)) (tokens pat cs (p + 1))
         else if e = OPEN_CLASS
         then (case scan_class pat p NO_BYTE cs of
                 Inl err \<Rightarrow> Inl err
               | Inr (q, _) \<Rightarrow> and_then (Single (class_has pat p cs)) (tokens pat cs q))
         else if e = ESCAPE \<and> p + 1 < length pat
         then and_then (Single (\<lambda>b. equal_byte (byte_at pat (p + 1)) b cs)) (tokens pat cs (p + 2))
         else and_then (Single (\<lambda>b. equal_byte e b cs)) (tokens pat cs (p + 1)))
      else Inr [])"
  by auto
termination
  by (relation "measure (\<lambda>(pat, cs, p). length pat - p)") (auto dest: scan_class_advances)

declare tokens.simps [simp del]

fun matches :: "token list \<Rightarrow> int list \<Rightarrow> bool" where
  "matches [] xs \<longleftrightarrow> xs = []"
| "matches (Single f # ts) xs \<longleftrightarrow> (case xs of [] \<Rightarrow> False | x # xs' \<Rightarrow> f x \<and> matches ts xs')"
| "matches (Star # ts) [] \<longleftrightarrow> matches ts []"
| "matches (Star # ts) (x # xs) \<longleftrightarrow> matches ts (x # xs) \<or> matches (Star # ts) xs"

lemma matches_Star: "matches (Star # ts) xs \<longleftrightarrow> (\<exists>k \<le> length xs. matches ts (drop k xs))"
proof (induction xs)
  case (Cons x xs)
  show ?case
  proof
    assume "matches (Star # ts) (x # xs)"
    then consider "matches ts (x # xs)" | "matches (Star # ts) xs" by auto
    then show "\<exists>k \<le> length (x # xs). matches ts (drop k (x # xs))"
    proof cases
      case 1
      then show ?thesis by (intro exI [of _ 0]) simp
    next
      case 2
      then obtain k where "k \<le> length xs" "matches ts (drop k xs)" using Cons by blast
      then show ?thesis by (intro exI [of _ "Suc k"]) simp
    qed
  next
    assume "\<exists>k \<le> length (x # xs). matches ts (drop k (x # xs))"
    then obtain k where "k \<le> length (x # xs)" "matches ts (drop k (x # xs))" by blast
    then show "matches (Star # ts) (x # xs)" using Cons by (cases k) auto
  qed
qed simp

lemma matches_Star_longer: "matches (Star # ts) (drop k xs) \<Longrightarrow> matches (Star # ts) xs"
proof (induction k arbitrary: xs)
  case (Suc k)
  then show ?case by (cases xs) auto
qed simp

fun single :: "token \<Rightarrow> bool" where
  "single Star = False"
| "single (Single _) = True"

lemma matches_singles:
  "list_all single pre \<Longrightarrow> matches (pre @ ts) xs \<Longrightarrow> length pre \<le> length xs \<and> matches ts (drop (length pre) xs)"
proof (induction pre arbitrary: xs)
  case (Cons t pre)
  then obtain f where "t = Single f" by (cases t) auto
  with Cons show ?case by (cases xs) auto
qed simp

section \<open>Where an expression ends does not depend on the byte\<close>

definition end_of :: "exn + (nat \<times> bool) \<Rightarrow> exn + nat" where
  "end_of r = map_sum (\<lambda>e. e) fst r"

lemma end_of_simps [simp]: "end_of (Inl e) = Inl e" "end_of (Inr x) = Inr (fst x)"
  by (simp_all add: end_of_def)

lemma read_named_class_end:
  "map_sum (\<lambda>e. e) (map_option fst) (read_named_class pat p b cs) =
   map_sum (\<lambda>e. e) (map_option fst) (read_named_class pat p b' cs')"
  by (simp add: read_named_class_def Let_def split: option.split)

lemma read_sub_expression_end:
  "map_sum (\<lambda>e. e) (map_option fst) (read_sub_expression pat p b cs) =
   map_sum (\<lambda>e. e) (map_option fst) (read_sub_expression pat p b' cs')"
  using read_named_class_end [of pat p b cs b' cs']
  by (simp add: read_sub_expression_def Let_def split: option.split)

lemma item_end: "end_of (match_class_item pat p b cs) = end_of (match_class_item pat p b' cs')"
proof -
  define r where "r b cs = (if byte_at pat p = OPEN_CLASS \<and> p + 1 < length pat
      then read_sub_expression pat p b cs else Inr None)" for b cs
  have "map_sum (\<lambda>e. e) (map_option fst) (r b cs) = map_sum (\<lambda>e. e) (map_option fst) (r b' cs')"
    using read_sub_expression_end by (simp add: r_def)
  then show ?thesis
    unfolding match_class_item_def Let_def r_def [symmetric]
    by (cases "r b cs"; cases "r b' cs'") (auto split: option.splits)
qed

lemma scan_members_end:
  "end_of (scan_members pat start first negated b cs p m) = end_of (scan_members pat start first negated b' cs' p m')"
proof (induction "length pat - p" arbitrary: p m m' rule: less_induct)
  case less
  show ?case
  proof (cases "p < length pat \<and> \<not> (byte_at pat p = CLOSE_CLASS \<and> p > first)")
    case False
    then show ?thesis
      by (subst (1 2) scan_members.simps) auto
  next
    case True
    note same = item_end [of pat p b cs b' cs']
    show ?thesis
    proof (cases "match_class_item pat p b cs")
      case (Inl e)
      then have "match_class_item pat p b' cs' = Inl e" using same by (cases "match_class_item pat p b' cs'") auto
      with Inl True show ?thesis by (subst (1 2) scan_members.simps) auto
    next
      case (Inr x)
      then obtain c h where x: "match_class_item pat p b cs = Inr (c, h)" by (cases x) auto
      then obtain h' where y: "match_class_item pat p b' cs' = Inr (c, h')"
        using same by (cases "match_class_item pat p b' cs'") (auto simp: prod_eq_iff)
      have "length pat - c < length pat - p" using match_class_item_advances [OF x] True by auto
      from less [OF this, of "m \<or> h" "m' \<or> h'"] show ?thesis
        using x y True by (subst (1 2) scan_members.simps) auto
    qed
  qed
qed

lemma scan_class_end: "end_of (scan_class pat p b cs) = end_of (scan_class pat p b' cs')"
  unfolding scan_class_def Let_def by (rule scan_members_end)

lemma scan_class_any:
  assumes "scan_class pat p NO_BYTE cs = Inr (q, m)"
  shows "scan_class pat p b cs' = Inr (q, class_has pat p cs' b)"
  using scan_class_end [of pat p b cs' NO_BYTE cs] assms
  by (cases "scan_class pat p b cs'") (auto simp: class_has_def)

section \<open>One step of the loop\<close>

lemma tokens_end: "tokens pat cs p = Inr ts \<Longrightarrow> list_all (\<lambda>b. uint b = STAR) (drop p pat) \<longleftrightarrow> matches ts []"
proof (induction pat cs p arbitrary: ts rule: tokens.induct)
  case (1 pat cs p)
  show ?case
  proof (cases "p < length pat")
    case True
    then have drop: "drop p pat = pat ! p # drop (p + 1) pat" by (simp add: Cons_nth_drop_Suc)
    show ?thesis
    proof (cases "byte_at pat p = STAR")
      case True
      then obtain us where us: "tokens pat cs (p + 1) = Inr us" "ts = Star # us"
        using "1.prems" \<open>p < length pat\<close> by (subst (asm) tokens.simps) auto
      from "1.IH"(1) [OF \<open>p < length pat\<close> refl True us(1)] show ?thesis
        using True us(2) by (simp add: drop byte_at_def)
    next
      case False
      then obtain f us where "ts = Single f # us"
        using "1.prems" \<open>p < length pat\<close>
        by (subst (asm) tokens.simps) (auto simp: Let_def split: if_splits sum.splits)
      then show ?thesis using False by (simp add: drop byte_at_def)
    qed
  next
    case False
    then show ?thesis using "1.prems" by (subst (asm) tokens.simps) auto
  qed
qed

lemma tokens_Nil: "tokens pat cs p = Inr [] \<Longrightarrow> length pat \<le> p"
  by (subst (asm) tokens.simps) (auto simp: Let_def split: if_splits sum.splits)

lemma tokens_Star: "tokens pat cs p = Inr (Star # ts) \<Longrightarrow>
    p < length pat \<and> byte_at pat p = STAR \<and> tokens pat cs (p + 1) = Inr ts"
  by (subst (asm) tokens.simps) (auto simp: Let_def split: if_splits sum.splits)

lemma tokens_Single:
  assumes "tokens pat cs p = Inr (Single f # ts)"
  obtains q where "p < length pat" "byte_at pat p \<noteq> STAR" "tokens pat cs q = Inr ts" "p < q"
    "\<And>name n. match_single pat p name n cs = Inr (if f (byte_at name n) then Some q else None)"
proof -
  have p: "p < length pat" "byte_at pat p \<noteq> STAR"
    using assms by (subst (asm) tokens.simps, auto simp: Let_def split: if_splits sum.splits)+
  consider "byte_at pat p = QUESTION" | "byte_at pat p \<noteq> QUESTION" "byte_at pat p = OPEN_CLASS"
    | "byte_at pat p \<noteq> QUESTION" "byte_at pat p \<noteq> OPEN_CLASS" "byte_at pat p = ESCAPE \<and> p + 1 < length pat"
    | "byte_at pat p \<noteq> QUESTION" "byte_at pat p \<noteq> OPEN_CLASS" "\<not> (byte_at pat p = ESCAPE \<and> p + 1 < length pat)"
    by blast
  then show thesis
  proof cases
    case 1
    then show thesis using that [of "p + 1"] assms p
      by (subst (asm) tokens.simps) (auto simp: Let_def match_single_def)
  next
    case 2
    obtain q m where q: "scan_class pat p NO_BYTE cs = Inr (q, m)" "f = class_has pat p cs" "tokens pat cs q = Inr ts"
      using assms p 2 by (subst (asm) tokens.simps) (auto simp: Let_def split: sum.splits)
    then show thesis
      using that [of q] p 2 scan_class_advances [OF q(1)] scan_class_any [OF q(1)]
      by (auto simp: match_single_def match_class_def Let_def)
  next
    case 3
    then show thesis using that [of "p + 2"] assms p
      by (subst (asm) tokens.simps) (auto simp: Let_def match_single_def)
  next
    case 4
    then show thesis using that [of "p + 1"] assms p
      by (subst (asm) tokens.simps) (auto simp: Let_def match_single_def)
  qed
qed

section \<open>The loop\<close>

text \<open>
  What the loop still decides at a point: the tokens ahead against the bytes ahead, or, after a
  star, the star again from one byte further than it has reached.
\<close>

definition ahead :: "bytes \<Rightarrow> nat \<Rightarrow> int list" where "ahead name n = map uint (drop n name)"

lemma ahead_Cons: "n < length name \<Longrightarrow> ahead name n = byte_at name n # ahead name (n + 1)"
  by (simp add: ahead_def byte_at_def Cons_nth_drop_Suc [symmetric])

lemma ahead_Nil: "length name \<le> n \<Longrightarrow> ahead name n = []"
  by (simp add: ahead_def)

lemma drop_ahead: "drop k (ahead name n) = ahead name (n + k)"
  by (simp add: ahead_def drop_map add.commute)

lemma length_ahead [simp]: "length (ahead name n) = length name - n"
  by (simp add: ahead_def)

lemma matches_Star_ahead: "n \<le> m \<Longrightarrow> matches (Star # ts) (ahead name m) \<Longrightarrow> matches (Star # ts) (ahead name n)"
  using matches_Star_longer [of ts "m - n" "ahead name n"] by (simp add: drop_ahead)

text \<open>What is known of the last star: its tokens begin with the bytes read since.\<close>

fun star_inv :: "bytes \<Rightarrow> bytes \<Rightarrow> bool \<Rightarrow> token list \<Rightarrow> nat \<Rightarrow> (nat \<times> nat) option \<Rightarrow> token list \<Rightarrow> bool" where
  "star_inv pat name cs ts n None pre \<longleftrightarrow> True"
| "star_inv pat name cs ts n (Some (sp, sn)) pre \<longleftrightarrow>
     list_all single pre \<and> tokens pat cs (sp + 1) = Inr (pre @ ts) \<and> sn + length pre = n"

fun star_rest :: "bytes \<Rightarrow> token list \<Rightarrow> (nat \<times> nat) option \<Rightarrow> bool" where
  "star_rest name ts None \<longleftrightarrow> False"
| "star_rest name ts (Some (sp, sn)) \<longleftrightarrow> sn < length name \<and> matches (Star # ts) (ahead name (sn + 1))"

lemma star_inv_step: "star_inv pat name cs (Single f # ts) n star pre \<Longrightarrow> star_inv pat name cs ts (n + 1) star (pre @ [Single f])"
  by (cases star) auto

text \<open>At the end of the name an earlier star has nothing left to give.\<close>

lemma star_rest_exhausted:
  assumes "star_inv pat name cs ts n star pre" "length name \<le> n"
  shows "\<not> star_rest name (pre @ ts) star"
proof (cases star)
  case (Some x)
  obtain sp sn where x: "x = (sp, sn)" by (cases x)
  show ?thesis
  proof
    assume "star_rest name (pre @ ts) star"
    then obtain k where k: "sn < length name" "matches (pre @ ts) (ahead name (sn + 1 + k))"
      using Some x by (auto simp: matches_Star drop_ahead)
    have "length pre \<le> length (ahead name (sn + 1 + k))"
      using matches_singles [OF _ k(2)] assms(1) Some x by simp
    then show False using assms Some x k(1) by auto
  qed
qed simp

text \<open>A later star can do all that an earlier one could.\<close>

lemma star_rest_subsumed:
  assumes "star_inv pat name cs (Star # ts) n star pre" "star_rest name (pre @ Star # ts) star"
  shows "matches (Star # ts) (ahead name n)"
proof (cases star)
  case (Some x)
  obtain sp sn where x: "x = (sp, sn)" by (cases x)
  obtain k where k: "matches (pre @ Star # ts) (ahead name (sn + 1 + k))"
    using assms(2) Some x by (auto simp: matches_Star [of "pre @ Star # ts"] drop_ahead)
  have "matches (Star # ts) (ahead name (sn + 1 + k + length pre))"
    using matches_singles [OF _ k] assms(1) Some x by (simp add: drop_ahead)
  then show ?thesis using assms(1) Some x by (auto intro: matches_Star_ahead [rotated])
qed (use assms in simp)

definition star_left :: "bytes \<Rightarrow> (nat \<times> nat) option \<Rightarrow> nat" where
  "star_left name star = (case star of None \<Rightarrow> length name + 1 | Some (_, sn) \<Rightarrow> length name - sn)"

lemmas wf_loop = wf_lex_prod [OF wf_less_than wf_less_than]

lemma match_loop_correct:
  assumes "tokens pat cs p = Inr ts" "n \<le> length name" "star_inv pat name cs ts n star pre"
  shows "match_loop pat name cs p n star = Some (Inr (matches ts (ahead name n) \<or> star_rest name (pre @ ts) star))"
  using assms
proof (induction "(star_left name star, length name - n + (length pat - p))" arbitrary: p n star ts pre
    rule: wf_induct_rule [OF wf_loop])
  case 1
  note IH = 1(1) and prems = 1(2-4)
  show ?case
  proof (cases "n < length name")
    case False
    then show ?thesis
      using prems star_rest_exhausted [OF prems(3)] tokens_end [OF prems(1)]
      by (subst match_loop.simps) (simp add: ahead_Nil)
  next
    case n: True
    have restart: ?thesis
      if "\<not> (p < length pat \<and> byte_at pat p = STAR)" "match_single pat p name n cs = Inr None"
        "\<not> matches ts (ahead name n)"
    proof (cases star)
      case None
      then show ?thesis using that n by (subst match_loop.simps) auto
    next
      case (Some x)
      obtain sp sn where x: "x = (sp, sn)" by (cases x)
      have inv: "list_all single pre" "tokens pat cs (sp + 1) = Inr (pre @ ts)" "sn + length pre = n"
        using prems(3) Some x by auto
      have "match_loop pat name cs (sp + 1) (sn + 1) (Some (sp, sn + 1)) =
          Some (Inr (matches (pre @ ts) (ahead name (sn + 1)) \<or> star_rest name ([] @ pre @ ts) (Some (sp, sn + 1))))"
        by (rule IH) (use inv n Some x in \<open>auto simp: star_left_def\<close>)
      moreover have "matches (Star # pre @ ts) (ahead name (sn + 1)) \<longleftrightarrow>
          matches (pre @ ts) (ahead name (sn + 1)) \<or> star_rest name ([] @ pre @ ts) (Some (sp, sn + 1))"
        using inv n by (cases "sn + 1 < length name") (auto simp: ahead_Cons [of "Suc sn"] ahead_Nil)
      ultimately show ?thesis
        using that n Some x inv by (subst match_loop.simps) auto
    qed
    show ?thesis
    proof (cases ts)
      case Nil
      then have "length pat \<le> p" using tokens_Nil prems(1) by blast
      then show ?thesis using restart Nil n by (simp add: match_single_def ahead_Cons)
    next
      case (Cons t ts')
      show ?thesis
      proof (cases t)
        case Star
        have p: "p < length pat" "byte_at pat p = STAR" "tokens pat cs (p + 1) = Inr ts'"
          using tokens_Star prems(1) Cons Star by blast+
        have "match_loop pat name cs (p + 1) n (Some (p, n)) =
            Some (Inr (matches ts' (ahead name n) \<or> star_rest name ([] @ ts') (Some (p, n))))"
          by (rule IH) (use p n prems(3) in \<open>auto simp: star_left_def split: option.splits\<close>)
        moreover have "matches ts (ahead name n) \<longleftrightarrow> matches ts' (ahead name n) \<or> star_rest name ([] @ ts') (Some (p, n))"
          using Cons Star n by (simp add: ahead_Cons)
        moreover have "star_rest name (pre @ ts) star \<Longrightarrow> matches ts (ahead name n)"
          using star_rest_subsumed prems(3) Cons Star by simp
        ultimately show ?thesis using p n by (subst match_loop.simps) auto
      next
        case (Single f)
        obtain q where q: "p < length pat" "byte_at pat p \<noteq> STAR" "tokens pat cs q = Inr ts'" "p < q"
            "match_single pat p name n cs = Inr (if f (byte_at name n) then Some q else None)"
          using tokens_Single prems(1) Cons Single by metis
        show ?thesis
        proof (cases "f (byte_at name n)")
          case True
          have "match_loop pat name cs q (n + 1) star =
              Some (Inr (matches ts' (ahead name (n + 1)) \<or> star_rest name ((pre @ [Single f]) @ ts') star))"
            by (rule IH) (use q n prems(3) Cons Single star_inv_step in \<open>auto simp: star_left_def\<close>)
          then show ?thesis using q n True Cons Single by (subst match_loop.simps) (simp add: ahead_Cons)
        next
          case False
          then show ?thesis using restart q Cons Single n by (simp add: ahead_Cons)
        qed
      qed
    qed
  qed
qed

section \<open>Valid patterns\<close>

lemma valid_tokens: "(\<exists>ts. tokens pat cs p = Inr ts) \<longleftrightarrow> validate_from pat p = Inr ()"
proof (induction "length pat - p" arbitrary: p rule: less_induct)
  case less
  show ?case
  proof (cases "p < length pat")
    case False
    then show ?thesis by (simp add: tokens.simps [of pat cs p] validate_from.simps [of pat p])
  next
    case p: True
    have IH: "(\<exists>ts. tokens pat cs q = Inr ts) \<longleftrightarrow> validate_from pat q = Inr ()" if "p < q" for q
      using less that p by simp
    consider (literal) "byte_at pat p \<noteq> ESCAPE" "byte_at pat p \<noteq> OPEN_CLASS" | (bracket) "byte_at pat p = OPEN_CLASS"
      | (escape) "byte_at pat p = ESCAPE" by blast
    then show ?thesis
    proof cases
      case literal
      then show ?thesis using p IH [of "p + 1"]
        by (simp add: tokens.simps [of pat cs p] validate_from.simps [of pat p] Let_def)
    next
      case bracket
      have same: "end_of (scan_class pat p NO_BYTE cs) = end_of (scan_class pat p NO_BYTE True)"
        by (rule scan_class_end)
      show ?thesis
      proof (cases "scan_class pat p NO_BYTE cs")
        case (Inl e)
        then have "scan_class pat p NO_BYTE True = Inl e" using same by (cases "scan_class pat p NO_BYTE True") auto
        then show ?thesis using Inl p bracket
          by (simp add: tokens.simps [of pat cs p] validate_from.simps [of pat p] Let_def glob_bytes)
      next
        case (Inr x)
        then obtain q m where q: "scan_class pat p NO_BYTE cs = Inr (q, m)" by (cases x) auto
        then obtain m' where q': "scan_class pat p NO_BYTE True = Inr (q, m')"
          using same by (cases "scan_class pat p NO_BYTE True") (auto simp: prod_eq_iff)
        show ?thesis using q q' p bracket IH [OF scan_class_advances [OF q]]
          by (simp add: tokens.simps [of pat cs p] validate_from.simps [of pat p] Let_def glob_bytes)
      qed
    next
      case escape
      then show ?thesis using p IH [of "p + 2"]
        by (cases "p + 1 < length pat")
          (simp_all add: tokens.simps [of pat cs p] validate_from.simps [of pat p] Let_def glob_bytes
            tokens.simps [of pat cs "Suc p"] validate_from.simps [of pat "Suc (Suc p)"])
    qed
  qed
qed

section \<open>The loop cut short\<close>

text \<open>The same loop stopped after \<open>k\<close> rounds.\<close>

fun loop_within :: "nat \<Rightarrow> bytes \<Rightarrow> bytes \<Rightarrow> bool \<Rightarrow> nat \<Rightarrow> nat \<Rightarrow> (nat \<times> nat) option \<Rightarrow> (exn + bool) option" where
  "loop_within 0 pat name cs p n star = None"
| "loop_within (Suc k) pat name cs p n star =
     (if n < length name then
        (if p < length pat \<and> byte_at pat p = STAR then loop_within k pat name cs (p + 1) n (Some (p, n))
         else (case match_single pat p name n cs of
                 Inl e \<Rightarrow> Some (Inl e)
               | Inr (Some consumed) \<Rightarrow> loop_within k pat name cs consumed (n + 1) star
               | Inr None \<Rightarrow>
                   (case star of
                      None \<Rightarrow> Some (Inr False)
                    | Some (sp, sn) \<Rightarrow> loop_within k pat name cs (sp + 1) (sn + 1) (Some (sp, sn + 1)))))
      else Some (Inr (list_all (\<lambda>b. uint b = STAR) (drop p pat))))"

lemma loop_within_loop: "loop_within k pat name cs p n star = Some r \<Longrightarrow> match_loop pat name cs p n star = Some r"
proof (induction k arbitrary: p n star)
  case (Suc k)
  then show ?case
    by (subst match_loop.simps) (auto split: if_splits sum.splits option.splits)
qed simp

lemma match_single_advances: "match_single pat p name n cs = Inr (Some q) \<Longrightarrow> p < q"
  by (auto simp: match_single_def match_class_def Let_def dest!: scan_class_advances split: if_splits)

text \<open>What a round costs: a step along the pattern, or one more byte given to the star.\<close>

definition rounds_left :: "bytes \<Rightarrow> bytes \<Rightarrow> nat \<Rightarrow> (nat \<times> nat) option \<Rightarrow> nat" where
  "rounds_left pat name p star = star_left name star * (length pat + 1) + (length pat - p)"

lemma rounds_restart:
  assumes "sn < length name"
  shows "rounds_left pat name (sp + 1) (Some (sp, sn + 1)) < rounds_left pat name p (Some (sp, sn))"
proof -
  obtain d where "length name = sn + Suc d" using assms by (metis add_Suc_right less_iff_Suc_add)
  then show ?thesis by (simp add: rounds_left_def star_left_def)
qed

lemma rounds_star:
  assumes "p < length pat" "\<And>sp sn. star = Some (sp, sn) \<Longrightarrow> sn \<le> n"
  shows "rounds_left pat name (p + 1) (Some (p, n)) < rounds_left pat name p star"
proof -
  have "star_left name (Some (p, n)) \<le> star_left name star"
    using assms(2) by (auto simp: star_left_def split: option.splits)
  then have "star_left name (Some (p, n)) * (length pat + 1) \<le> star_left name star * (length pat + 1)"
    by (rule mult_le_mono1)
  then show ?thesis using assms(1) by (simp add: rounds_left_def)
qed

lemma loop_within_enough:
  assumes "rounds_left pat name p star < k" "n \<le> length name" "\<And>sp sn. star = Some (sp, sn) \<Longrightarrow> sn \<le> n"
  shows "\<exists>r. loop_within k pat name cs p n star = Some r"
  using assms
proof (induction k arbitrary: p n star)
  case (Suc k)
  show ?case
  proof (cases "n < length name")
    case n: True
    show ?thesis
    proof (cases "p < length pat \<and> byte_at pat p = STAR")
      case True
      then have "rounds_left pat name (p + 1) (Some (p, n)) < k"
        using rounds_star [of p pat star n name] Suc.prems by auto
      then show ?thesis using Suc.IH [of "p + 1" "Some (p, n)" n] True n by auto
    next
      case False
      show ?thesis
      proof (cases "match_single pat p name n cs")
        case (Inl e)
        then show ?thesis using False n by auto
      next
        case (Inr c)
        show ?thesis
        proof (cases c)
          case (Some q)
          have "p < length pat" using Inr Some by (auto simp: match_single_def split: if_splits)
          then have "rounds_left pat name q star < rounds_left pat name p star"
            using match_single_advances [of pat p name n cs q] Inr Some by (simp add: rounds_left_def)
          then show ?thesis
            using Suc.IH [of q star "n + 1"] Suc.prems Inr Some False n by fastforce
        next
          case None
          show ?thesis
          proof (cases star)
            case (Some x)
            obtain sp sn where x: "x = (sp, sn)" by (cases x)
            have "sn < length name" using Suc.prems(3) Some x n by auto
            then show ?thesis
              using Suc.IH [of "sp + 1" "Some (sp, sn + 1)" "sn + 1"] Suc.prems(1)
                rounds_restart [of sn name pat sp p] Inr None Some x False n
              by auto
          qed (use Inr None False n in auto)
        qed
      qed
    qed
  qed auto
qed simp

section \<open>What the matcher promises\<close>

text \<open>The reference: a leading dot is matched by a literal dot only, and the tokens match the bytes.\<close>

definition glob_matches :: "bytes \<Rightarrow> bytes \<Rightarrow> bool \<Rightarrow> bool" where
  "glob_matches pat name cs \<longleftrightarrow>
     (case tokens pat cs 0 of Inl _ \<Rightarrow> False
      | Inr ts \<Rightarrow> (if prefix [46] name then matches_leading_dot pat else True) \<and> matches ts (map uint name))"

text \<open>
  C20. The matcher keeps a single backtrack point, the last star, and still decides the reference:
  for a pattern \<open>validate_pattern\<close> accepts, every name gets an answer, never an error, and the answer
  is what trying every length for every star would give, with or without folding case.
\<close>

theorem match_component_decides:
  assumes "validate_pattern pat = Inr ()"
  shows "match_component pat name cs = Some (Inr (glob_matches pat name cs))"
proof -
  obtain ts where ts: "tokens pat cs 0 = Inr ts"
    using assms valid_tokens [of pat cs 0] by (auto simp: validate_pattern_def)
  have "match_loop pat name cs 0 0 None = Some (Inr (matches ts (map uint name)))"
    using match_loop_correct [OF ts, of 0 name None "[]"] by (simp add: ahead_def)
  then show ?thesis by (simp add: match_component_def match_here_def glob_matches_def ts)
qed

lemma match_component_decides_witness:
  "match_component (ascii ''*.[ct]?v'') (ascii ''a.b.csv'') True = Some (Inr (glob_matches (ascii ''*.[ct]?v'') (ascii ''a.b.csv'') True))"
  by (rule match_component_decides) code_simp

text \<open>
  A hostile name cannot make the matcher run away: whatever the pattern, refused ones included,
  the loop ends within (pattern length + 1) times (name length + 2) rounds, and that is the answer
  of the loop itself.
\<close>

theorem match_is_bounded:
  "\<exists>r. loop_within ((length pat + 1) * (length name + 2)) pat name cs 0 0 None = Some r \<and> match_here pat name cs = Some r"
proof -
  have "rounds_left pat name 0 None < (length pat + 1) * (length name + 2)"
    by (simp add: rounds_left_def star_left_def)
  then obtain r where "loop_within ((length pat + 1) * (length name + 2)) pat name cs 0 0 None = Some r"
    using loop_within_enough [of pat name 0 None _ 0 cs] by blast
  then show ?thesis using loop_within_loop by (auto simp only: match_here_def)
qed

text \<open>
  Validation does not see what matching sees. The whole pattern is validated unsplit, on the
  ground that a separator means nothing to a bracket expression; but the traversal matches it
  component by component. Here is a pattern that is accepted whole although its second component
  raises against every name, and one that is refused whole although both its components are valid.
\<close>

theorem validation_differs_from_components:
  "validate_pattern (ascii ''[/[][:foo:]]'') = Inr () \<and>
   split_on 47 (ascii ''[/[][:foo:]]'') = [ascii ''['', ascii ''[][:foo:]]''] \<and>
   validate_pattern (ascii ''[][:foo:]]'') \<noteq> Inr () \<and>
   validate_pattern (ascii ''a[/[:foo:]'') \<noteq> Inr () \<and>
   split_on 47 (ascii ''a[/[:foo:]'') = [ascii ''a['', ascii ''[:foo:]''] \<and>
   validate_pattern (ascii ''a['') = Inr () \<and> validate_pattern (ascii ''[:foo:]'') = Inr ()"
  by code_simp

end
