(* ===== verification/LocalPath.thy ===== *)
theory LocalPath
  imports ByteText Errors
begin

text \<open>
  Turning a server-supplied name into a local path, \<open>session/_localpath.py\<close>. A local path is
  the list of its components below the file system's root, as \<open>pathlib\<close> keeps it. What the
  file system decides is a parameter: \<open>resolve\<close> is \<open>Path.resolve\<close>, \<open>lstat\<close> gives a file's device
  and inode, \<open>fold_name\<close> is the case and normalisation folding of a preview.
\<close>

section \<open>Component validation\<close>

definition WINDOWS_FORBIDDEN_CHARACTERS :: bytes where
  "WINDOWS_FORBIDDEN_CHARACTERS = [92, 58, 42, 63, 34, 60, 62, 124]"

definition WINDOWS_RESERVED_NAMES :: "bytes list" where
  "WINDOWS_RESERVED_NAMES = map ascii [''con'', ''prn'', ''aux'', ''nul''] @
     map (\<lambda>d. ascii ''com'' @ [d]) [49, 50, 51, 52, 53, 54, 55, 56, 57] @
     map (\<lambda>d. ascii ''lpt'' @ [d]) [49, 50, 51, 52, 53, 54, 55, 56, 57]"

definition DOT_NAMES :: "bytes list" where "DOT_NAMES = [[46], [46, 46]]"

text \<open>
  The stem is decoded with replacement characters and lowered; a byte outside ASCII becomes a
  character no reserved name holds, so keeping the byte compares the same.
\<close>

definition windows_stem :: "bytes \<Rightarrow> bytes" where
  "windows_stem name = map lower_byte (hd (split_on 46 name))"

definition windows_reason :: "bytes \<Rightarrow> string option" where
  "windows_reason name =
     (if list_ex (\<lambda>b. b \<in> set name) WINDOWS_FORBIDDEN_CHARACTERS
      then Some ''a character Windows does not allow in a filename''
      else if list_ex (\<lambda>b. b < 32) name then Some ''a control character''
      else if suffix [46] name \<or> suffix [32] name then Some ''a trailing dot or space, which Windows strips''
      else if windows_stem name \<in> set WINDOWS_RESERVED_NAMES then Some ''the reserved device name''
      else None)"

definition unsafe_reason :: "bytes \<Rightarrow> bool \<Rightarrow> string option" where
  "unsafe_reason name windows =
     (if name = [] then Some ''an empty name''
      else if name \<in> set DOT_NAMES then Some ''a relative directory entry''
      else if 47 \<in> set name then Some ''a path separator''
      else if 0 \<in> set name then Some ''a NUL byte''
      else if windows then windows_reason name
      else None)"

definition check_component :: "bytes \<Rightarrow> bool \<Rightarrow> exn + unit" where
  "check_component name windows =
     (case unsafe_reason name windows of None \<Rightarrow> Inr () | Some reason \<Rightarrow> Inl (UnsafePathErr name reason))"

section \<open>Local paths\<close>

type_synonym local_path = "bytes list"

text \<open>
  \<open>parent / name\<close>: an absolute name replaces the parent, empty and \<open>.\<close> components vanish.
\<close>

definition path_div :: "local_path \<Rightarrow> bytes \<Rightarrow> local_path" where
  "path_div parent name =
     (let parts = filter (\<lambda>p. p \<noteq> [] \<and> p \<noteq> [46]) (split_on 47 name) in
      if prefix [47] name then parts else parent @ parts)"

definition local_child :: "local_path \<Rightarrow> bytes \<Rightarrow> bool \<Rightarrow> exn + local_path" where
  "local_child parent name windows = bind_sum (check_component name windows) (\<lambda>_. Inr (path_div parent name))"

definition check_contained :: "(local_path \<Rightarrow> local_path) \<Rightarrow> local_path \<Rightarrow> local_path \<Rightarrow> exn + local_path" where
  "check_contained resolve root candidate =
     (if resolve candidate = resolve root \<or> prefix (resolve root) (resolve candidate) then Inr candidate
      else Inl (UnsafePathErr (if candidate = [] then [] else last candidate)
             ''a path that escapes the destination directory''))"

section \<open>Ledgers\<close>

datatype lstat_result = Present nat nat | Absent | LstatFails exn

text \<open>\<open>identity\<close>: the device and inode, or the \<open>OSError\<close> of \<open>lstat\<close>.\<close>

definition identity :: "(local_path \<Rightarrow> lstat_result) \<Rightarrow> local_path \<Rightarrow> exn + (nat \<times> nat)" where
  "identity lstat path =
     (case lstat path of Present dev ino \<Rightarrow> Inr (dev, ino) | Absent \<Rightarrow> Inl OSErr | LstatFails e \<Rightarrow> Inl e)"

type_synonym 'k claims = "('k, bytes) dict"

definition collides_with :: "(local_path \<Rightarrow> lstat_result) \<Rightarrow> local_path \<Rightarrow> (nat \<times> nat) claims \<Rightarrow> exn + bytes option" where
  "collides_with lstat path claims =
     (case lstat path of
        Absent \<Rightarrow> Inr None
      | _ \<Rightarrow> bind_sum (identity lstat path) (\<lambda>k. Inr (dict_get claims k)))"

definition claim :: "(local_path \<Rightarrow> lstat_result) \<Rightarrow> local_path \<Rightarrow> bytes \<Rightarrow> (nat \<times> nat) claims \<Rightarrow> exn + (nat \<times> nat) claims" where
  "claim lstat path remote claims =
     bind_sum (identity lstat path) (\<lambda>k. Inr (dict_set claims k remote))"

definition folded_collides_with :: "(local_path \<Rightarrow> 'k) \<Rightarrow> local_path \<Rightarrow> 'k claims \<Rightarrow> exn + bytes option" where
  "folded_collides_with fold_name path claims = Inr (dict_get claims (fold_name path))"

definition folded_claim :: "(local_path \<Rightarrow> 'k) \<Rightarrow> local_path \<Rightarrow> bytes \<Rightarrow> 'k claims \<Rightarrow> exn + 'k claims" where
  "folded_claim fold_name path remote claims = Inr (dict_set claims (fold_name path) remote)"

section \<open>What a safe name is\<close>

lemma safe_name:
  assumes "unsafe_reason name windows = None"
  shows "name \<noteq> []" "name \<noteq> [46]" "name \<noteq> [46, 46]" "47 \<notin> set name" "0 \<notin> set name"
    "windows \<Longrightarrow> windows_reason name = None"
  using assms by (auto simp: unsafe_reason_def DOT_NAMES_def split: if_splits)

lemma local_child_cases:
  "local_child parent name windows =
     (case unsafe_reason name windows of None \<Rightarrow> Inr (parent @ [name]) | Some r \<Rightarrow> Inl (UnsafePathErr name r))"
proof (cases "unsafe_reason name windows")
  case None
  note safe = safe_name [OF None]
  then have "path_div parent name = parent @ [name]"
    by (cases name) (auto simp: path_div_def split_on_none)
  then show ?thesis using None by (simp add: local_child_def check_component_def)
qed (simp add: local_child_def check_component_def)

text \<open>
  Where a path leads when no component is a link: \<open>..\<close> goes up.
\<close>

definition lexical :: "local_path \<Rightarrow> local_path" where
  "lexical path = foldl (\<lambda>acc p. if p = [46, 46] then butlast acc else acc @ [p]) [] path"

lemma lexical_append: "\<forall>p \<in> set ps. p \<noteq> [46, 46] \<Longrightarrow> lexical (path @ ps) = lexical path @ ps"
  unfolding lexical_def by (induction ps rule: rev_induct) simp_all

text \<open>The names a walk meets on its way down, each joined to the directory above it.\<close>

definition descend :: "local_path \<Rightarrow> bytes list \<Rightarrow> bool \<Rightarrow> exn + local_path" where
  "descend root names windows = fold_sum (\<lambda>parent name. local_child parent name windows) root names"

lemma descend_ok:
  "descend root names windows = Inr path \<longleftrightarrow>
     path = root @ names \<and> list_all (\<lambda>n. unsafe_reason n windows = None) names"
proof (induction names arbitrary: root)
  case (Cons n names)
  then show ?case
    by (auto simp: descend_def local_child_cases bind_sum_def split: option.splits)
qed (auto simp: descend_def)

lemma descend_error:
  "descend root names windows = Inl e \<longleftrightarrow>
     (\<exists>before n after r. names = before @ n # after \<and> list_all (\<lambda>n. unsafe_reason n windows = None) before \<and>
        unsafe_reason n windows = Some r \<and> e = UnsafePathErr n r)"
proof (induction names arbitrary: root)
  case Nil
  then show ?case by (simp add: descend_def)
next
  case (Cons n names)
  show ?case
  proof (cases "unsafe_reason n windows")
    case None
    then have "descend root (n # names) windows = descend (root @ [n]) names windows"
      by (simp add: descend_def local_child_cases)
    moreover have "(\<exists>before m after r. n # names = before @ m # after \<and>
          list_all (\<lambda>n. unsafe_reason n windows = None) before \<and> unsafe_reason m windows = Some r \<and> e = UnsafePathErr m r)
        \<longleftrightarrow> (\<exists>before m after r. names = before @ m # after \<and>
          list_all (\<lambda>n. unsafe_reason n windows = None) before \<and> unsafe_reason m windows = Some r \<and> e = UnsafePathErr m r)"
      (is "(\<exists>before m after r. ?P before m after r) \<longleftrightarrow> (\<exists>before m after r. ?Q before m after r)")
    proof
      assume "\<exists>before m after r. ?P before m after r"
      then obtain before m after r where p: "?P before m after r" by blast
      then have "?Q (tl before) m after r" using None by (cases before) auto
      then show "\<exists>before m after r. ?Q before m after r" by blast
    next
      assume "\<exists>before m after r. ?Q before m after r"
      then obtain before m after r where "?Q before m after r" by blast
      then have "?P (n # before) m after r" using None by simp
      then show "\<exists>before m after r. ?P before m after r" by blast
    qed
    ultimately show ?thesis using Cons [of "root @ [n]"] by simp
  next
    case (Some r)
    then have "descend root (n # names) windows = Inl (UnsafePathErr n r)"
      by (simp add: descend_def local_child_cases)
    moreover have "e = UnsafePathErr n r"
      if "n # names = before @ m # after" "list_all (\<lambda>n. unsafe_reason n windows = None) before"
        "unsafe_reason m windows = Some r'" "e = UnsafePathErr m r'" for before m after r'
      using that Some by (cases before) auto
    moreover have "n # names = [] @ n # names" by simp
    ultimately show ?thesis using Some by (metis list.pred_inject(1) sum.inject(1))
  qed
qed

text \<open>
  The zip-slip defence: walking down from a directory by server-supplied names ends either
  exactly at those names below it, every one of them a plain component, so that no \<open>..\<close>, separator
  or absolute name leads out of the directory; or with a refusal that carries the first name that
  is not one.
\<close>

theorem descent_stays_inside:
  "case descend root names windows of
     Inr path \<Rightarrow> path = root @ names \<and> lexical path = lexical root @ names \<and>
       list_all (\<lambda>n. n \<noteq> [] \<and> n \<noteq> [46] \<and> n \<noteq> [46, 46] \<and> \<not> (47 \<in> set n) \<and> \<not> (0 \<in> set n)) names
   | Inl e \<Rightarrow> \<exists>before n after r. names = before @ n # after \<and> descend root before windows = Inr (root @ before) \<and>
       unsafe_reason n windows = Some r \<and> e = UnsafePathErr n r"
proof (cases "descend root names windows")
  case (Inl e)
  then show ?thesis using descend_error [of root names windows e] descend_ok by auto
next
  case (Inr path)
  then have path: "path = root @ names" "list_all (\<lambda>n. unsafe_reason n windows = None) names"
    by (simp_all add: descend_ok)
  have "list_all (\<lambda>n. n \<noteq> [] \<and> n \<noteq> [46] \<and> n \<noteq> [46, 46] \<and> \<not> (47 \<in> set n) \<and> \<not> (0 \<in> set n)) names"
    using path(2) unfolding list_all_iff by (metis safe_name(1-5))
  moreover have "lexical path = lexical root @ names"
    unfolding path(1) by (rule lexical_append) (use calculation in \<open>simp add: list_all_iff\<close>)
  ultimately show ?thesis using Inr path(1) by simp
qed

lemma contained_inside:
  "check_contained resolve root candidate = Inr p \<Longrightarrow>
     p = candidate \<and> prefix (resolve root) (resolve candidate)"
  by (auto simp: check_contained_def split: if_splits)

section \<open>One interface for both ledgers\<close>

text \<open>
  A ledger of destinations: \<open>key\<close> says which file a path is, when it is one; \<open>look\<close> and \<open>put\<close> are
  \<open>collides_with\<close> and \<open>claim\<close>.
\<close>

locale ledger =
  fixes key :: "local_path \<Rightarrow> 'k option"
    and look :: "local_path \<Rightarrow> 'c \<Rightarrow> exn + bytes option"
    and put :: "local_path \<Rightarrow> bytes \<Rightarrow> 'c \<Rightarrow> exn + 'c"
  assumes put_ok: "(\<exists>c'. put p r c = Inr c') \<longleftrightarrow> key p \<noteq> None"
    and look_put: "put p r c = Inr c' \<Longrightarrow> key q \<noteq> None \<Longrightarrow>
      look q c' = (if key q = key p then Inr (Some r) else look q c)"
begin

definition claim_all :: "(local_path \<times> bytes) list \<Rightarrow> 'c \<Rightarrow> exn + 'c" where
  "claim_all ps c = fold_sum (\<lambda>c (p, r). put p r c) c ps"

text \<open>A path is reported under the remote path that claimed its file last.\<close>

lemma look_claim_all:
  assumes "claim_all ps c = Inr c'" "key q \<noteq> None"
  shows "look q c' = (case filter (\<lambda>(p, r). key p = key q) (rev ps) of [] \<Rightarrow> look q c | (p, r) # rest \<Rightarrow> Inr (Some r))"
  using assms(1)
proof (induction ps arbitrary: c' rule: rev_induct)
  case Nil
  then show ?case by (simp add: claim_all_def)
next
  case (snoc pr ps)
  obtain p r where pr: "pr = (p, r)" by fastforce
  obtain c1 where c1: "claim_all ps c = Inr c1" "put p r c1 = Inr c'"
    using snoc.prems by (auto simp: claim_all_def fold_sum_append pr)
  show ?case
    using look_put [OF c1(2) assms(2)] snoc.IH [OF c1(1)] by (auto simp: pr)
qed

end

definition lstat_key :: "(local_path \<Rightarrow> lstat_result) \<Rightarrow> local_path \<Rightarrow> (nat \<times> nat) option" where
  "lstat_key lstat p = (case lstat p of Present dev ino \<Rightarrow> Some (dev, ino) | _ \<Rightarrow> None)"

interpretation destination: ledger "lstat_key lstat" "collides_with lstat" "claim lstat"
  for lstat :: "local_path \<Rightarrow> lstat_result"
  by unfold_locales
    (auto simp: lstat_key_def collides_with_def claim_def identity_def bind_sum_def split: lstat_result.splits)

interpretation folded: ledger "\<lambda>p. Some (fold_name p)" "folded_collides_with fold_name" "folded_claim fold_name"
  for fold_name :: "local_path \<Rightarrow> 'k"
  by unfold_locales (auto simp: folded_collides_with_def folded_claim_def)

text \<open>A second write to a file this run wrote is seen, whatever name it comes under.\<close>

lemma collision_seen:
  assumes "claim lstat p r claims = Inr claims'" "identity lstat q = identity lstat p"
  shows "collides_with lstat q claims' = Inr (Some r)"
proof -
  have "lstat_key lstat p \<noteq> None" using destination.put_ok assms(1) by metis
  moreover have "lstat_key lstat q = lstat_key lstat p"
    using assms(2) calculation by (auto simp: identity_def lstat_key_def split: lstat_result.splits)
  ultimately show ?thesis using destination.look_put [OF assms(1), of q] by simp
qed

end
