(* ===== verification/RemotePath.thy ===== *)
theory RemotePath
  imports GlobLaws LocalPath
begin

text \<open>
  Remote paths: the joining and checking of names in \<open>session/_recursive.py\<close> and the pure algebra
  of \<open>path.py\<close>. A path is the bytes that go on the wire and is never normalised; its components
  are a view of it. A method of \<open>SFTPPath\<close> that derives a new path is the function on the bytes.
\<close>

section \<open>Joining and checking names\<close>

definition join_remote :: "bytes \<Rightarrow> bytes \<Rightarrow> bytes" where
  "join_remote parent name = (if parent = [] \<or> suffix [47] parent then parent @ name else parent @ [47] @ name)"

definition remote_component_reason :: "bytes \<Rightarrow> string option" where
  "remote_component_reason name =
     (if name = [] then Some ''an empty name''
      else if name \<in> set DOT_NAMES then Some ''a relative directory entry''
      else if 47 \<in> set name then Some ''a path separator''
      else if 0 \<in> set name then Some ''a NUL byte''
      else None)"

definition check_listed_name :: "bytes \<Rightarrow> exn + bytes" where
  "check_listed_name name =
     (case remote_component_reason name of None \<Rightarrow> Inr name | Some reason \<Rightarrow> Inl (UnsafePathErr name reason))"

definition check_path_component :: "bytes \<Rightarrow> exn + bytes" where
  "check_path_component name =
     (case remote_component_reason name of None \<Rightarrow> Inr name | Some reason \<Rightarrow> Inl (UnsafePathErr name reason))"

section \<open>Components\<close>

abbreviation absolute :: "bytes \<Rightarrow> bool" where "absolute path \<equiv> prefix [47] path"

definition split_components :: "bytes \<Rightarrow> bytes list" where
  "split_components path = filter (\<lambda>p. p \<noteq> []) (split_on 47 path)"

definition path_parts :: "bytes \<Rightarrow> bytes list" where
  "path_parts path = (if absolute path then [47] # split_components path else split_components path)"

definition parent_of :: "bytes \<Rightarrow> bytes" where
  "parent_of path =
     (let components = split_components path in
      if length components \<le> 1 then (if absolute path then [47] else [46])
      else (let joined = join_with 47 (butlast components) in
            if absolute path then 47 # joined else joined))"

definition name_of :: "bytes \<Rightarrow> bytes" where
  "name_of path = (let components = split_components path in if components = [] then [] else last components)"

text \<open>\<open>name.rfind(b".")\<close>, with \<open>None\<close> for \<open>-1\<close>.\<close>

definition rfind_dot :: "bytes \<Rightarrow> nat option" where
  "rfind_dot name = find (\<lambda>i. name ! i = 46) (rev [0..<length name])"

definition suffix_at :: "bytes \<Rightarrow> nat option" where
  "suffix_at name =
     (case rfind_dot name of None \<Rightarrow> None | Some dot \<Rightarrow> if 0 < dot \<and> dot < length name - 1 then Some dot else None)"

definition suffix_of :: "bytes \<Rightarrow> bytes" where
  "suffix_of name = (case suffix_at name of Some dot \<Rightarrow> drop dot name | None \<Rightarrow> [])"

definition stem_of :: "bytes \<Rightarrow> bytes" where
  "stem_of name = (case suffix_at name of Some dot \<Rightarrow> take dot name | None \<Rightarrow> name)"

definition suffixes_of :: "bytes \<Rightarrow> bytes list" where
  "suffixes_of name =
     (if suffix [46] name then []
      else map (\<lambda>part. 46 # part) (drop 1 (split_on 46 (dropWhile (\<lambda>b. b = 46) name))))"

definition with_name :: "bytes \<Rightarrow> bytes \<Rightarrow> exn + bytes" where
  "with_name path name =
     (let components = split_components path in
      if components = [] then Inl (ValueErr (Msg ''empty name'' [BytesArg path]))
      else bind_sum (check_path_component name) (\<lambda>_.
        let joined = join_with 47 (butlast components @ [name]) in
        Inr (if absolute path then 47 # joined else joined)))"

definition relative_components :: "bytes \<Rightarrow> bytes \<Rightarrow> bytes list option" where
  "relative_components path other =
     (if absolute path \<noteq> absolute other then None
      else (let ours = split_components path; theirs = split_components other in
            if take (length theirs) ours \<noteq> theirs then None else Some (drop (length theirs) ours)))"

section \<open>Matching a path\<close>

text \<open>
  \<open>_spread\<close>: once reachable, reachable from there on. Then one row of the sweep for an element that
  is not \<open>**\<close>, entries 1 onwards: a name is matched only where what precedes it is reachable.
\<close>

fun spread_from :: "bool \<Rightarrow> bool list \<Rightarrow> bool list" where
  "spread_from seen [] = []"
| "spread_from seen (v # vs) = (seen \<or> v) # spread_from (seen \<or> v) vs"

definition spread :: "bool list \<Rightarrow> bool list" where "spread reachable = spread_from False reachable"

definition cons_result :: "bool \<Rightarrow> (exn + bool list) option \<Rightarrow> (exn + bool list) option" where
  "cons_result b r = map_option (map_sum (\<lambda>e. e) (\<lambda>bs. b # bs)) r"

fun sweep :: "bytes \<Rightarrow> bool \<Rightarrow> bool list \<Rightarrow> bytes list \<Rightarrow> (exn + bool list) option" where
  "sweep element cs (r # rs) (c # components) =
     (if r then (case match_component element c cs of
                   None \<Rightarrow> None
                 | Some (Inl e) \<Rightarrow> Some (Inl e)
                 | Some (Inr b) \<Rightarrow> cons_result b (sweep element cs rs components))
      else cons_result False (sweep element cs rs components))"
| "sweep element cs _ _ = Some (Inr [])"

fun sweep_all :: "bytes list \<Rightarrow> bool \<Rightarrow> bool list \<Rightarrow> bytes list \<Rightarrow> (exn + bool list) option" where
  "sweep_all [] cs reachable components = Some (Inr reachable)"
| "sweep_all (element # pat) cs reachable components =
     (if element = RECURSIVE then sweep_all pat cs (spread reachable) components
      else (case sweep element cs reachable components of
              None \<Rightarrow> None
            | Some (Inl e) \<Rightarrow> Some (Inl e)
            | Some (Inr row) \<Rightarrow> sweep_all pat cs (False # row) components))"

definition match_components :: "bytes list \<Rightarrow> bytes list \<Rightarrow> bool \<Rightarrow> (exn + bool) option" where
  "match_components pat components cs =
     map_option (map_sum (\<lambda>e. e) (\<lambda>reachable. reachable ! length components))
       (sweep_all pat cs (True # replicate (length components) False) components)"

definition match_path :: "bytes \<Rightarrow> bytes \<Rightarrow> bool \<Rightarrow> (exn + bool) option" where
  "match_path pat path cs =
     (if pat = [] then Some (Inl (ValueErr (Msg ''an empty pattern matches nothing'' [])))
      else (case validate_pattern pat of
              Inl e \<Rightarrow> Some (Inl e)
            | Inr _ \<Rightarrow>
                (if absolute pat \<and> \<not> absolute path then Some (Inr False)
                 else (let components = split_components pat;
                           wanted = (if absolute pat then components else RECURSIVE # components) in
                       match_components wanted (split_components path) cs))))"

section \<open>Methods of \<open>SFTPPath\<close>\<close>

text \<open>What the components of a parent are, and that going up ends.\<close>

lemma split_components_wf: "p \<in> set (split_components path) \<Longrightarrow> p \<noteq> [] \<and> 47 \<notin> set p"
  by (auto simp: split_components_def dest: split_on_pieces)

lemma split_components_Cons [simp]: "split_components (47 # path) = split_components path"
  by (simp add: split_components_def)

lemma split_components_dot: "split_components [46] = [[46]]"
  by (simp add: split_components_def)

lemma split_components_join:
  assumes "list_all (\<lambda>p. p \<noteq> [] \<and> 47 \<notin> set p) ps"
  shows "split_components (join_with 47 ps) = ps"
proof (cases "ps = []")
  case False
  then have "split_on 47 (join_with 47 ps) = ps"
    using assms by (intro split_join) (auto simp: list_all_iff)
  then show ?thesis using assms by (simp add: split_components_def filter_id_conv list_all_iff)
qed (simp add: split_components_def)

lemma components_butlast: "split_components (join_with 47 (butlast (split_components path))) = butlast (split_components path)"
  by (rule split_components_join) (auto simp: list_all_iff dest!: in_set_butlastD split_components_wf)

lemma parent_of_components:
  "split_components (parent_of path) =
     (if 1 < length (split_components path) then butlast (split_components path)
      else if absolute path then [] else [[46]])"
  by (simp add: parent_of_def Let_def components_butlast split_components_dot split_components_def [of "[]"])

lemma parent_of_root: "parent_of [47] = [47]" "parent_of [46] = [46]"
  by (simp_all add: parent_of_def split_components_dot split_components_def)

text \<open>\<open>_ancestors\<close>: up until the path stops changing.\<close>

function ancestors :: "bytes \<Rightarrow> bytes list" where
  "ancestors current =
     (let above = parent_of current in if above = current then [] else above # ancestors above)"
  by auto
termination
proof (relation "measure (\<lambda>p. if p = [47] \<or> p = [46] then 0 else Suc (length (split_components p)))", goal_cases)
  case (2 current above)
  then show ?case
    using parent_of_components [of current] parent_of_root
    by (auto simp: parent_of_def Let_def split: if_splits)
qed simp

declare ancestors.simps [simp del]

fun joinpath :: "bytes \<Rightarrow> bytes list \<Rightarrow> exn + bytes" where
  "joinpath path [] = Inr path"
| "joinpath path (name # names) =
     bind_sum (check_path_component name) (\<lambda>n. joinpath (join_remote path n) names)"

definition with_stem :: "bytes \<Rightarrow> bytes \<Rightarrow> exn + bytes" where
  "with_stem path stem = with_name path (stem @ suffix_of (name_of path))"

definition with_suffix :: "bytes \<Rightarrow> bytes \<Rightarrow> exn + bytes" where
  "with_suffix path suf =
     (if suf \<noteq> [] \<and> \<not> prefix [46] suf
      then Inl (ValueErr (Msg ''an extension has to begin with a dot'' [BytesArg suf]))
      else with_name path (stem_of (name_of path) @ suf))"

definition relative_to :: "bytes \<Rightarrow> bytes \<Rightarrow> exn + bytes" where
  "relative_to path other =
     (case relative_components path other of
        None \<Rightarrow> Inl (ValueErr (Msg ''not below'' [BytesArg path, BytesArg other]))
      | Some rest \<Rightarrow> Inr (if rest = [] then [46] else join_with 47 rest))"

definition is_relative_to :: "bytes \<Rightarrow> bytes \<Rightarrow> bool" where
  "is_relative_to path other \<longleftrightarrow> relative_components path other \<noteq> None"

end
