(* ===== verification/RemotePathLaws.thy ===== *)
theory RemotePathLaws
  imports RemotePath
begin

text \<open>
  What path arithmetic promises: the sweep of \<open>match_components\<close> decides the reference in which
  every \<open>**\<close> may stop anywhere, joining adds exactly the names it is given below the path it is
  given, and the view of a name as stem and suffix loses nothing.
\<close>

section \<open>The reference for a sequence of components\<close>

fun names_match :: "bool \<Rightarrow> bytes list \<Rightarrow> bytes list \<Rightarrow> bool" where
  "names_match cs [] names \<longleftrightarrow> names = []"
| "names_match cs (element # pat) names \<longleftrightarrow>
     (if element = RECURSIVE
      then list_ex (\<lambda>k. names_match cs pat (drop k names)) [0..<Suc (length names)]
      else (case names of [] \<Rightarrow> False | n # rest \<Rightarrow> glob_matches element n cs \<and> names_match cs pat rest))"

section \<open>One row of the sweep\<close>

lemma length_spread [simp]: "length (spread vs) = length vs"
proof -
  have "length (spread_from seen vs) = length vs" for seen by (induction vs arbitrary: seen) auto
  then show ?thesis by (simp add: spread_def)
qed

lemma nth_spread:
  assumes "j < length vs" shows "spread vs ! j \<longleftrightarrow> (\<exists>i \<le> j. vs ! i)"
proof -
  have "spread_from seen vs ! j \<longleftrightarrow> seen \<or> (\<exists>i \<le> j. vs ! i)" for seen
    using assms
  proof (induction vs arbitrary: seen j)
    case (Cons v vs)
    show ?case
    proof (cases j)
      case 0
      then show ?thesis by simp
    next
      case (Suc j')
      have "(\<exists>i \<le> Suc j'. (v # vs) ! i) \<longleftrightarrow> v \<or> (\<exists>i \<le> j'. vs ! i)"
        by (metis Suc_le_mono nth_Cons_0 nth_Cons_Suc not0_implies_Suc zero_le)
      then show ?thesis using Cons Suc by simp
    qed
  qed simp
  then show ?thesis by (simp add: spread_def)
qed

lemma sweep_row:
  assumes "validate_pattern element = Inr ()" "length reachable = Suc (length components)"
  shows "\<exists>row. sweep element cs reachable components = Some (Inr row) \<and> length row = length components \<and>
    (\<forall>j < length components. row ! j \<longleftrightarrow> reachable ! j \<and> glob_matches element (components ! j) cs)"
  using assms(2)
proof (induction components arbitrary: reachable)
  case Nil
  then show ?case by (cases reachable) auto
next
  case (Cons c components)
  then obtain r rs where r: "reachable = r # rs" "length rs = Suc (length components)"
    by (cases reachable) auto
  from Cons.IH [OF r(2)] obtain row where row: "sweep element cs rs components = Some (Inr row)"
      "length row = length components"
      "\<forall>j < length components. row ! j \<longleftrightarrow> rs ! j \<and> glob_matches element (components ! j) cs" by blast
  have "sweep element cs reachable (c # components) = Some (Inr ((r \<and> glob_matches element c cs) # row))"
    using row(1) by (simp add: r match_component_decides [OF assms(1)] cons_result_def)
  then show ?case using row r by (auto simp: nth_Cons split: nat.splits)
qed

section \<open>The sweep\<close>

lemma sweep_all_decides:
  assumes "list_all (\<lambda>e. e = RECURSIVE \<or> validate_pattern e = Inr ()) pat"
    "length reachable = Suc (length components)"
  shows "\<exists>row. sweep_all pat cs reachable components = Some (Inr row) \<and>
    (row ! length components \<longleftrightarrow> (\<exists>j \<le> length components. reachable ! j \<and> names_match cs pat (drop j components)))"
  using assms
proof (induction pat arbitrary: reachable)
  case Nil
  then show ?case by (auto intro: exI [of _ "length components"])
next
  case (Cons element pat)
  show ?case
  proof (cases "element = RECURSIVE")
    case True
    have "(\<exists>j \<le> length components. spread reachable ! j \<and> names_match cs pat (drop j components)) \<longleftrightarrow>
        (\<exists>i \<le> length components. reachable ! i \<and> names_match cs (element # pat) (drop i components))"
      (is "?l \<longleftrightarrow> ?r")
    proof
      assume ?l
      then obtain i j where ij: "i \<le> j" "j \<le> length components" "reachable ! i" "names_match cs pat (drop j components)"
        using Cons.prems(2) by (auto simp: nth_spread)
      have "names_match cs pat (drop (j - i) (drop i components))" using ij by simp
      moreover have "j - i \<in> set [0..<Suc (length (drop i components))]" using ij by auto
      ultimately have "names_match cs (element # pat) (drop i components)"
        unfolding names_match.simps True list_ex_iff by (simp only: refl if_True) blast
      then show ?r using ij by (metis order_trans)
    next
      assume ?r
      then obtain i k where "i \<le> length components" "reachable ! i" "k \<le> length components - i"
          "names_match cs pat (drop (k + i) components)"
        using True by (auto simp: list_ex_iff less_Suc_eq_le simp del: upt_Suc)
      then show ?l using Cons.prems(2) by (intro exI [of _ "k + i"]) (auto simp: nth_spread intro: exI [of _ i])
    qed
    then show ?thesis using Cons.IH [of "spread reachable"] Cons.prems True by simp
  next
    case False
    obtain row where row: "sweep element cs reachable components = Some (Inr row)" "length row = length components"
        "\<forall>j < length components. row ! j \<longleftrightarrow> reachable ! j \<and> glob_matches element (components ! j) cs"
      using sweep_row [of element reachable components cs] Cons.prems False by auto
    have "(\<exists>j \<le> length components. (False # row) ! j \<and> names_match cs pat (drop j components)) \<longleftrightarrow>
        (\<exists>i \<le> length components. reachable ! i \<and> names_match cs (element # pat) (drop i components))"
      (is "?l \<longleftrightarrow> ?r")
    proof
      assume ?l
      then obtain j where j: "j \<le> length components" "(False # row) ! j" "names_match cs pat (drop j components)" by blast
      then obtain i where i: "j = Suc i" by (cases j) auto
      then have "drop i components = components ! i # drop (Suc i) components"
        using j by (simp add: Cons_nth_drop_Suc)
      then show ?r using j i row(3) False by (intro exI [of _ i]) auto
    next
      assume ?r
      then obtain i where i: "i \<le> length components" "reachable ! i" "names_match cs (element # pat) (drop i components)" by blast
      then have "i < length components" using False by (cases "i = length components") auto
      then have "drop i components = components ! i # drop (Suc i) components" by (simp add: Cons_nth_drop_Suc)
      then show ?l using i row \<open>i < length components\<close> False by (intro exI [of _ "Suc i"]) auto
    qed
    then show ?thesis using Cons.IH [of "False # row"] Cons.prems row False by simp
  qed
qed

lemma match_components_decides:
  assumes "list_all (\<lambda>e. e = RECURSIVE \<or> validate_pattern e = Inr ()) pat"
  shows "match_components pat names cs = Some (Inr (names_match cs pat names))"
proof -
  have "j = 0" if "j \<le> length names" "(True # replicate (length names) False) ! j" for j
    using that by (cases j) auto
  then have "(\<exists>j \<le> length names. (True # replicate (length names) False) ! j \<and> names_match cs pat (drop j names))
      \<longleftrightarrow> names_match cs pat names"
    by (metis drop_0 le0 nth_Cons_0)
  then show ?thesis
    using sweep_all_decides [OF assms, of "True # replicate (length names) False" names cs]
    by (auto simp: match_components_def)
qed

section \<open>Joining\<close>

lemma check_path_component_Inr:
  "check_path_component name = Inr n \<longleftrightarrow> n = name \<and> name \<noteq> [] \<and> name \<notin> set DOT_NAMES \<and> 47 \<notin> set name \<and> 0 \<notin> set name"
  by (auto simp: check_path_component_def remote_component_reason_def split: if_splits)

lemma split_components_append_sep: "split_components (p @ 47 # q) = split_components p @ split_components q"
  by (simp add: split_components_def split_on_append)

lemma split_components_single: "name \<noteq> [] \<Longrightarrow> 47 \<notin> set name \<Longrightarrow> split_components name = [name]"
  by (simp add: split_components_def split_on_none)

lemma join_remote_components:
  assumes "name \<noteq> []" "47 \<notin> set name"
  shows "split_components (join_remote path name) = split_components path @ [name]"
proof (cases "path = []")
  case True
  then show ?thesis using assms by (simp add: join_remote_def split_components_single split_components_def [of "[]"])
next
  case False
  show ?thesis
  proof (cases "suffix [47] path")
    case True
    then obtain p where "path = p @ [47]" by (auto simp: suffix_def)
    then show ?thesis using assms split_components_append_sep [of p name] split_components_append_sep [of p "[]"]
      by (simp add: join_remote_def split_components_single split_components_def [of "[]"])
  next
    case False
    then show ?thesis using assms \<open>path \<noteq> []\<close> split_components_append_sep [of path name]
      by (simp add: join_remote_def split_components_single)
  qed
qed

lemma join_remote_absolute:
  "name \<noteq> [] \<Longrightarrow> 47 \<notin> set name \<Longrightarrow> absolute (join_remote path name) \<longleftrightarrow> absolute path"
  by (cases path; cases name) (auto simp: join_remote_def)

lemma joinpath_view:
  "joinpath path names = Inr q \<Longrightarrow> split_components q = split_components path @ names \<and> (absolute q \<longleftrightarrow> absolute path)"
proof (induction names arbitrary: path)
  case (Cons name names)
  then obtain "check_path_component name = Inr name" "joinpath (join_remote path name) names = Inr q"
    by (auto simp: check_path_component_Inr)
  then show ?case using Cons.IH [of "join_remote path name"] join_remote_components [of name path]
      join_remote_absolute [of name path]
    by (simp add: check_path_component_Inr)
qed simp

text \<open>What is below a path and the path give the whole back.\<close>

lemma relative_components_Some:
  "relative_components path other = Some names \<longleftrightarrow>
     split_components path = split_components other @ names \<and> (absolute path \<longleftrightarrow> absolute other)"
proof -
  have "(take (length bs) as = bs \<and> drop (length bs) as = names) \<longleftrightarrow> as = bs @ names" for as bs :: "bytes list"
    by (metis append_eq_conv_conj)
  then show ?thesis by (auto simp: relative_components_def Let_def)
qed

section \<open>Stem and suffix\<close>

lemma stem_suffix: "stem_of name @ suffix_of name = name"
  by (simp add: stem_of_def suffix_of_def split: option.split)

section \<open>What the algebra promises\<close>

lemma path_parts_view: "path_parts q = path_parts p \<longleftrightarrow> split_components q = split_components p \<and> (absolute q \<longleftrightarrow> absolute p)"
  using split_components_wf [of "[47]" p] split_components_wf [of "[47]" q]
  by (auto simp: path_parts_def) (metis list.set_intros(1))+

lemma safe_names_join: "list_all (\<lambda>n. remote_component_reason n = None) names \<Longrightarrow> \<exists>q. joinpath path names = Inr q"
  by (induction names arbitrary: path) (auto simp: check_path_component_def)

lemma joined_names_safe: "joinpath path names = Inr q \<Longrightarrow> list_all (\<lambda>n. remote_component_reason n = None) names"
  by (induction names arbitrary: path) (auto simp: check_path_component_def split: option.splits)

text \<open>
  C21. A path matches a pattern exactly as the reference says, whenever the pattern and each of its
  components are ones the matcher honours: an absolute pattern accounts for the whole path, a
  relative one for some number of its last names, and every \<open>**\<close> may account for any number of names.
  The sweep never raises and always ends.
\<close>

theorem match_path_decides:
  assumes "pat \<noteq> []" "validate_pattern pat = Inr ()"
    "list_all (\<lambda>c. validate_pattern c = Inr ()) (split_components pat)"
  shows "match_path pat path cs = Some (Inr
    (if absolute pat then absolute path \<and> names_match cs (split_components pat) (split_components path)
     else list_ex (\<lambda>k. names_match cs (split_components pat) (drop k (split_components path)))
            [0..<Suc (length (split_components path))]))"
proof -
  have "list_all (\<lambda>e. e = RECURSIVE \<or> validate_pattern e = Inr ()) (split_components pat)"
    using assms(3) by (auto simp: list_all_iff)
  then show ?thesis
    using assms(1,2) match_components_decides [of "split_components pat" "split_components path" cs]
      match_components_decides [of "RECURSIVE # split_components pat" "split_components path" cs]
    by (simp add: match_path_def Let_def del: upt_Suc)
qed

lemma match_path_decides_witness:
  "match_path (ascii ''in/**/*.csv'') (ascii ''/srv/in/a/b/x.csv'') True = Some (Inr True)"
proof -
  have "match_path (ascii ''in/**/*.csv'') (ascii ''/srv/in/a/b/x.csv'') True = Some (Inr
    (if absolute (ascii ''in/**/*.csv'') then absolute (ascii ''/srv/in/a/b/x.csv'') \<and>
       names_match True (split_components (ascii ''in/**/*.csv'')) (split_components (ascii ''/srv/in/a/b/x.csv''))
     else list_ex (\<lambda>k. names_match True (split_components (ascii ''in/**/*.csv''))
         (drop k (split_components (ascii ''/srv/in/a/b/x.csv''))))
       [0..<Suc (length (split_components (ascii ''/srv/in/a/b/x.csv'')))]))"
    by (rule match_path_decides) code_simp+
  also have "\<dots> = Some (Inr True)" by code_simp
  finally show ?thesis .
qed

text \<open>
  C22. Joining and taking the relative path are inverse to each other: joining names onto a path gives
  the components of another exactly when those names are what that other is below the path and each
  of them is one safe component. So no sequence of names a server chooses leads out of the path.
\<close>

theorem join_inverts_relative:
  "(\<exists>q. joinpath other names = Inr q \<and> path_parts q = path_parts path) \<longleftrightarrow>
   relative_components path other = Some names \<and> list_all (\<lambda>n. remote_component_reason n = None) names"
proof
  assume "\<exists>q. joinpath other names = Inr q \<and> path_parts q = path_parts path"
  then obtain q where q: "joinpath other names = Inr q" "path_parts q = path_parts path" by blast
  then show "relative_components path other = Some names \<and> list_all (\<lambda>n. remote_component_reason n = None) names"
    using joinpath_view [OF q(1)] joined_names_safe [OF q(1)] by (simp add: path_parts_view relative_components_Some)
next
  assume below: "relative_components path other = Some names \<and> list_all (\<lambda>n. remote_component_reason n = None) names"
  then obtain q where q: "joinpath other names = Inr q" using safe_names_join by blast
  then show "\<exists>q. joinpath other names = Inr q \<and> path_parts q = path_parts path"
    using below joinpath_view [OF q] by (auto simp: path_parts_view relative_components_Some)
qed

lemma join_not_absolute: "list_all (\<lambda>c. c \<noteq> [] \<and> 47 \<notin> set c) ps \<Longrightarrow> \<not> absolute (join_with 47 ps)"
proof (induction "47 :: byte" ps rule: join_with.induct)
  case (2 p)
  then show ?case by (cases p) auto
next
  case (3 p q ps)
  then show ?case by (cases p) auto
qed simp

text \<open>
  C23. Splitting a pattern yields well-formed parts whatever the pattern: the components left to match
  are non-empty names without a separator; the base has no magic in it and is absolute exactly when
  the pattern is; base and components together are the pattern's components, none lost and none
  merged; and without case sensitivity the last component is never folded into the base.
\<close>

theorem split_pattern_well_formed:
  "case split_pattern pat cs of (base, components, directories_only) \<Rightarrow>
     list_all (\<lambda>c. c \<noteq> [] \<and> 47 \<notin> set c) components \<and>
     list_all (\<lambda>c. \<not> has_magic c \<and> c \<noteq> RECURSIVE) (split_components base) \<and>
     (absolute base \<longleftrightarrow> absolute pat) \<and>
     split_components base @ components = split_components pat \<and>
     (cs \<or> split_components pat = [] \<or> 0 < length components) \<and>
     (directories_only \<longleftrightarrow> suffix [47] pat \<and> pat \<noteq> [47])"
proof -
  define parts where "parts = split_components pat"
  define i where "i = length (takeWhile (\<lambda>p. \<not> (has_magic p \<or> p = RECURSIVE)) parts)"
  define j where "j = (if \<not> cs \<and> parts \<noteq> [] then min i (length parts - 1) else i)"
  define base where "base = (if absolute pat then 47 # join_with 47 (take j parts) else join_with 47 (take j parts))"
  have wf: "list_all (\<lambda>c. c \<noteq> [] \<and> 47 \<notin> set c) parts"
    by (auto simp: parts_def list_all_iff dest: split_components_wf)
  then have wfs: "list_all (\<lambda>c. c \<noteq> [] \<and> 47 \<notin> set c) (take k parts)"
      "list_all (\<lambda>c. c \<noteq> [] \<and> 47 \<notin> set c) (drop k parts)" for k
    by (auto simp: list_all_iff dest: in_set_takeD in_set_dropD)
  have base: "split_components base = take j parts"
    by (simp add: base_def split_components_join [OF wfs(1)])
  have "take j parts = take j (takeWhile (\<lambda>p. \<not> (has_magic p \<or> p = RECURSIVE)) parts)"
  proof -
    have "takeWhile (\<lambda>p. \<not> (has_magic p \<or> p = RECURSIVE)) parts = take i parts"
      unfolding i_def by (rule takeWhile_eq_take)
    moreover have "j \<le> i" by (simp add: j_def)
    ultimately show ?thesis by (simp add: min_def)
  qed
  then have plain: "list_all (\<lambda>c. \<not> has_magic c \<and> c \<noteq> RECURSIVE) (take j parts)"
    by (auto simp: list_all_iff dest!: in_set_takeD set_takeWhileD)
  have "\<not> absolute (join_with 47 (take j parts))" by (rule join_not_absolute [OF wfs(1)])
  then have abs: "absolute base \<longleftrightarrow> absolute pat" by (simp add: base_def)
  have left: "cs \<or> parts = [] \<or> 0 < length (drop j parts)" by (cases parts) (auto simp: j_def)
  have "split_pattern pat cs = (base, drop j parts, suffix [47] pat \<and> pat \<noteq> [47])"
    by (simp add: split_pattern_def Let_def base_def j_def i_def parts_def split_components_def)
  then show ?thesis using wfs(2) base plain abs left by (simp add: parts_def not_le)
qed

end
