(* ===== verification/Retry.thy ===== *)
theory Retry
  imports ByteText Wire Complex_Main
begin

text \<open>
  Trying again. The fingerprint of \<open>session/_quirks.py\<close> decides what this server's refusals mean;
  \<open>session/_transient.py\<close> repeats one request on a live session, \<open>session/_retry.py\<close> a whole
  operation on a fresh connection. What is attempted and what sleeping does to the world are
  parameters: an attempt takes the state of the world to a new one and a value or an exception, and
  a sleep says whether it was cancelled. Seconds are rationals.
\<close>

section \<open>Fingerprints\<close>

text \<open>
  A profile's name is one of the table's keys or, lowered, the product a server reports of itself;
  the bytes kept are those the server sent.
\<close>

datatype profile_name = Known string | SelfReported bytes

record server_profile =
  sp_name :: profile_name
  sp_version :: "bytes option"
  sp_informative :: bool
  sp_transient :: "bytes list"

definition classifies_transient :: "server_profile \<Rightarrow> bytes \<Rightarrow> bool" where
  "classifies_transient profile message \<longleftrightarrow>
     (if \<not> sp_informative profile then False
      else list_ex (\<lambda>marker. contains marker message) (sp_transient profile))"

definition UNKNOWN :: server_profile where
  "UNKNOWN = \<lparr>sp_name = Known ''unknown'', sp_version = None, sp_informative = False, sp_transient = []\<rparr>"

definition OPENSSH :: server_profile where
  "OPENSSH = \<lparr>sp_name = Known ''openssh'', sp_version = None, sp_informative = False, sp_transient = []\<rparr>"

definition ASYNCSSH :: server_profile where
  "ASYNCSSH = \<lparr>sp_name = Known ''asyncssh'', sp_version = None, sp_informative = True,
     sp_transient = [ascii ''Too many open files'']\<rparr>"

definition PARAMIKO :: server_profile where
  "PARAMIKO = \<lparr>sp_name = Known ''paramiko'', sp_version = None, sp_informative = False, sp_transient = []\<rparr>"

definition OPENSSH_MARKERS :: "bytes list" where
  "OPENSSH_MARKERS = [ascii ''users-groups-by-id@openssh.com'', ascii ''home-directory'', ascii ''expand-path@openssh.com'']"

definition PARAMIKO_MARKERS :: "bytes list" where "PARAMIKO_MARKERS = [ascii ''check-file'']"

definition parse_vendor_id :: "bytes \<Rightarrow> (bytes \<times> bytes \<times> bytes \<times> int) option" where
  "parse_vendor_id data =
     (case fst (rbind read_string (\<lambda>vendor. rbind read_string (\<lambda>product. rbind read_string (\<lambda>version.
        rbind read_uint64 (\<lambda>build. rreturn (vendor, product, version, build))))) (wire_reader data None None)) of
        Inl _ \<Rightarrow> None
      | Inr parsed \<Rightarrow> Some parsed)"

text \<open>
  The table's one product name has no letter that a character outside ASCII lowers to, so comparing
  the bytes lowered is comparing the decoded text lowered.
\<close>

definition from_vendor_id :: "bytes \<Rightarrow> server_profile option" where
  "from_vendor_id vendor_id =
     (case parse_vendor_id vendor_id of
        None \<Rightarrow> None
      | Some (_, product, version, _) \<Rightarrow>
          (let shown = (if version = [] then None else Some version) in
           if product = [] then None
           else if map lower_byte product = ascii ''asyncssh'' then Some (ASYNCSSH\<lparr>sp_version := shown\<rparr>)
           else Some \<lparr>sp_name = SelfReported product, sp_version = shown, sp_informative = False, sp_transient = []\<rparr>))"

definition identify :: "(bytes, bytes) dict \<Rightarrow> server_profile" where
  "identify extensions =
     (case Option.bind (dict_get extensions (ascii ''vendor-id'')) from_vendor_id of
        Some profile \<Rightarrow> profile
      | None \<Rightarrow>
          (if list_ex (\<lambda>m. dict_has extensions m) OPENSSH_MARKERS then OPENSSH
           else if list_ex (\<lambda>m. dict_has extensions m) PARAMIKO_MARKERS then PARAMIKO
           else UNKNOWN))"

section \<open>What may be tried again\<close>

definition RETRYABLE_STATUS_CODES :: "int list" where
  "RETRYABLE_STATUS_CODES = [status_code_value FX_NO_CONNECTION, status_code_value FX_CONNECTION_LOST]"

definition is_retryable :: "exn \<Rightarrow> bool" where
  "is_retryable error =
     (case error of
        AuthenticationErr \<Rightarrow> False
      | HostKeyErr \<Rightarrow> False
      | ConnectErr \<Rightarrow> True
      | DestinationNotAllowedErr \<Rightarrow> True
      | TransferTimeoutErr _ _ _ _ \<Rightarrow> True
      | ServerErr _ code _ _ \<Rightarrow> code \<in> set RETRYABLE_STATUS_CODES
      | _ \<Rightarrow> False)"

definition is_transient_refusal :: "server_profile \<Rightarrow> exn \<Rightarrow> bool" where
  "is_transient_refusal profile error =
     (case error of
        ServerErr _ code message _ \<Rightarrow>
          (if code \<noteq> status_code_value FX_FAILURE then False else classifies_transient profile message)
      | _ \<Rightarrow> False)"

definition is_repeatable_open :: "int \<Rightarrow> bool" where
  "is_repeatable_open pflags \<longleftrightarrow> pflags AND NOT OPEN_READ = 0"

section \<open>The ladder\<close>

datatype attempt_note = NoNote | GaveUp nat nat | Stopped nat nat

definition note_attempts :: "nat \<Rightarrow> nat \<Rightarrow> bool \<Rightarrow> attempt_note" where
  "note_attempts attempt attempts exhausted =
     (if attempt \<le> 1 then NoNote else if exhausted then GaveUp attempt attempts else Stopped attempt attempts)"

text \<open>What a run leaves: the failures it swallowed, the sleeps it took, its outcome and the note.\<close>

record ('a, 's) run =
  swallowed :: "exn list"
  slept :: "rat list"
  outcome :: "exn + 'a"
  noted :: attempt_note
  world :: 's

text \<open>Only what derives from \<open>Exception\<close> is caught: a cancellation goes through untouched.\<close>

function ladder ::
    "(exn \<Rightarrow> bool) \<Rightarrow> (nat \<Rightarrow> nat \<Rightarrow> bool \<Rightarrow> attempt_note) \<Rightarrow> ('s \<Rightarrow> (exn + 'a) \<times> 's) \<Rightarrow> (rat \<Rightarrow> 's \<Rightarrow> bool \<times> 's) \<Rightarrow>
     nat \<Rightarrow> rat \<Rightarrow> nat \<Rightarrow> rat \<Rightarrow> 's \<Rightarrow> ('a, 's) run" where
  "ladder again note_of attempt_once sleep attempts backoff_max tried delay s =
     (let attempt = tried + 1 in
      case attempt_once s of
        (Inr v, s') \<Rightarrow> \<lparr>swallowed = [], slept = [], outcome = Inr v, noted = NoNote, world = s'\<rparr>
      | (Inl e, s') \<Rightarrow>
          (if e = Cancelled then \<lparr>swallowed = [], slept = [], outcome = Inl e, noted = NoNote, world = s'\<rparr>
           else if \<not> again e \<or> attempts \<le> attempt
           then \<lparr>swallowed = [], slept = [], outcome = Inl e, noted = note_of attempt attempts (again e), world = s'\<rparr>
           else (case sleep delay s' of
                   (True, s'') \<Rightarrow> \<lparr>swallowed = [e], slept = [], outcome = Inl Cancelled, noted = NoNote, world = s''\<rparr>
                 | (False, s'') \<Rightarrow>
                     (let r = ladder again note_of attempt_once sleep attempts backoff_max attempt
                                (min (delay * 2) backoff_max) s'' in
                      r\<lparr>swallowed := e # swallowed r, slept := delay # slept r\<rparr>))))"
  by pat_completeness auto
termination
  by (relation "measure (\<lambda>(a, nt, o', sl, attempts, m, tried, d, s). attempts - tried)") auto

declare ladder.simps [simp del]

definition DEFAULT_ATTEMPTS :: int where "DEFAULT_ATTEMPTS = 3"
definition DEFAULT_BACKOFF :: rat where "DEFAULT_BACKOFF = 1"
definition DEFAULT_BACKOFF_MAX :: rat where "DEFAULT_BACKOFF_MAX = 30"
definition TRANSIENT_ATTEMPTS :: int where "TRANSIENT_ATTEMPTS = 3"
definition TRANSIENT_BACKOFF :: rat where "TRANSIENT_BACKOFF = 1 / 4"
definition TRANSIENT_BACKOFF_MAX :: rat where "TRANSIENT_BACKOFF_MAX = 2"

definition refused_attempts :: "int \<Rightarrow> 's \<Rightarrow> ('a, 's) run" where
  "refused_attempts attempts s =
     \<lparr>swallowed = [], slept = [], outcome = Inl (ValueErr (Msg ''attempts must be at least 1'' [IntArg attempts])),
      noted = NoNote, world = s\<rparr>"

definition with_reconnect ::
    "('s \<Rightarrow> (exn + 'a) \<times> 's) \<Rightarrow> (rat \<Rightarrow> 's \<Rightarrow> bool \<times> 's) \<Rightarrow> int \<Rightarrow> rat \<Rightarrow> rat \<Rightarrow> 's \<Rightarrow> ('a, 's) run" where
  "with_reconnect operate sleep attempts backoff backoff_max s =
     (if attempts < 1 then refused_attempts attempts s
      else ladder is_retryable note_attempts operate sleep (nat attempts) backoff_max 0 backoff s)"

definition with_transient_retry ::
    "server_profile \<Rightarrow> ('s \<Rightarrow> (exn + 'a) \<times> 's) \<Rightarrow> (rat \<Rightarrow> 's \<Rightarrow> bool \<times> 's) \<Rightarrow> int \<Rightarrow> rat \<Rightarrow> rat \<Rightarrow> 's \<Rightarrow> ('a, 's) run" where
  "with_transient_retry profile request sleep attempts backoff backoff_max s =
     (if attempts < 1 then refused_attempts attempts s
      else ladder (is_transient_refusal profile) (\<lambda>_ _ _. NoNote) request sleep (nat attempts) backoff_max 0 backoff s)"

definition open_for_read ::
    "(bytes \<Rightarrow> int \<Rightarrow> 's \<Rightarrow> (exn + bytes) \<times> 's) \<Rightarrow> bytes \<Rightarrow> server_profile \<Rightarrow> (rat \<Rightarrow> 's \<Rightarrow> bool \<times> 's) \<Rightarrow> 's \<Rightarrow> (bytes, 's) run" where
  "open_for_read opener path profile sleep s =
     with_transient_retry profile (opener path OPEN_READ) sleep TRANSIENT_ATTEMPTS TRANSIENT_BACKOFF TRANSIENT_BACKOFF_MAX s"

section \<open>What the ladder keeps\<close>

text \<open>Each rung waits twice as long as the one before, up to the ceiling.\<close>

fun rungs :: "rat \<Rightarrow> rat \<Rightarrow> nat \<Rightarrow> rat list" where
  "rungs delay backoff_max 0 = []"
| "rungs delay backoff_max (Suc n) = delay # rungs (min (delay * 2) backoff_max) backoff_max n"

lemma length_rungs [simp]: "length (rungs delay backoff_max n) = n"
  by (induction n arbitrary: delay) simp_all

lemma nth_rungs:
  assumes "0 \<le> delay" "0 \<le> backoff_max" "k < n"
  shows "rungs delay backoff_max n ! k = (if k = 0 then delay else min (delay * 2 ^ k) backoff_max)"
  using assms
proof (induction n arbitrary: delay k)
  case (Suc n)
  show ?case
  proof (cases k)
    case (Suc j)
    have "min (min (delay * 2) backoff_max * 2 ^ j) backoff_max = min (delay * 2 * 2 ^ j) backoff_max"
    proof (cases "delay * 2 \<le> backoff_max")
      case False
      have one: "1 \<le> (2 :: rat) ^ j" by simp
      have "backoff_max * 1 \<le> backoff_max * 2 ^ j" by (rule mult_left_mono [OF one Suc.prems(2)])
      moreover have "delay * 2 * 1 \<le> delay * 2 * 2 ^ j" by (rule mult_left_mono [OF one]) (use Suc.prems in simp)
      ultimately show ?thesis using False by simp
    qed simp
    then show ?thesis using Suc.IH [of "min (delay * 2) backoff_max" j] Suc.prems Suc
      by (auto simp: mult.assoc)
  qed simp
qed simp

text \<open>
  What a run owes its caller, when \<open>tried\<close> attempts came before it: no more tries than allowed,
  nothing swallowed that may not be tried again, the waits of the rungs; a failure it raises is a
  cancellation or carries the note, and one that may be tried again comes from the last try.
\<close>

definition ladder_ok ::
    "(exn \<Rightarrow> bool) \<Rightarrow> (nat \<Rightarrow> nat \<Rightarrow> bool \<Rightarrow> attempt_note) \<Rightarrow> nat \<Rightarrow> rat \<Rightarrow> nat \<Rightarrow> rat \<Rightarrow> ('a, 's) run \<Rightarrow> bool" where
  "ladder_ok again note_of attempts backoff_max tried delay r \<longleftrightarrow>
     tried + length (swallowed r) < attempts \<and> list_all again (swallowed r) \<and>
     slept r = rungs delay backoff_max (length (slept r)) \<and>
     (case outcome r of
        Inr _ \<Rightarrow> length (slept r) = length (swallowed r) \<and> noted r = NoNote
      | Inl e \<Rightarrow>
          (if e = Cancelled then length (swallowed r) - length (slept r) \<le> 1 \<and> noted r = NoNote
           else length (slept r) = length (swallowed r) \<and>
             noted r = note_of (tried + length (swallowed r) + 1) attempts (again e) \<and>
             (\<not> again e \<or> tried + length (swallowed r) + 1 = attempts)))"

locale retry_rule =
  fixes again :: "exn \<Rightarrow> bool" and note_of :: "nat \<Rightarrow> nat \<Rightarrow> bool \<Rightarrow> attempt_note"
  assumes never_cancelled: "\<not> again Cancelled"
begin

lemma ladder_keeps:
  "tried < attempts \<Longrightarrow>
     ladder_ok again note_of attempts backoff_max tried delay
       (ladder again note_of attempt_once sleep attempts backoff_max tried delay s)"
proof (induction "attempts - tried" arbitrary: tried delay s rule: less_induct)
  case less
  let ?run = "ladder again note_of attempt_once sleep attempts backoff_max tried delay s"
  obtain x s' where x: "attempt_once s = (x, s')" by (cases "attempt_once s")
  show ?case
  proof (cases x)
    case (Inr v)
    then show ?thesis using x less.prems by (subst ladder.simps) (simp add: ladder_ok_def)
  next
    case (Inl e)
    show ?thesis
    proof (cases "e = Cancelled \<or> \<not> again e \<or> attempts \<le> tried + 1")
      case True
      then show ?thesis using x Inl less.prems by (subst ladder.simps) (auto simp: ladder_ok_def)
    next
      case again: False
      obtain c s'' where c: "sleep delay s' = (c, s'')" by (cases "sleep delay s'")
      show ?thesis
      proof (cases c)
        case True
        then show ?thesis using x Inl c again by (subst ladder.simps) (simp add: ladder_ok_def)
      next
        case False
        define r where "r = ladder again note_of attempt_once sleep attempts backoff_max (tried + 1)
            (min (delay * 2) backoff_max) s''"
        have "ladder_ok again note_of attempts backoff_max (tried + 1) (min (delay * 2) backoff_max) r"
          unfolding r_def by (rule less.hyps) (use again in auto)
        moreover have "?run = r\<lparr>swallowed := e # swallowed r, slept := delay # slept r\<rparr>"
          using x Inl c again False by (subst ladder.simps) (simp add: r_def Let_def)
        ultimately show ?thesis using again
          by (auto simp: ladder_ok_def split: sum.splits if_splits)
      qed
    qed
  qed
qed

lemma cancellation_kept: "ladder_ok again note_of attempts backoff_max tried delay r \<Longrightarrow> Cancelled \<notin> set (swallowed r)"
  using never_cancelled by (auto simp: ladder_ok_def list_all_iff)

end

interpretation reconnect: retry_rule is_retryable note_attempts
  by unfold_locales (simp add: is_retryable_def)

interpretation transient: retry_rule "is_transient_refusal profile" "\<lambda>_ _ _. NoNote" for profile
  by unfold_locales (simp add: is_transient_refusal_def)

section \<open>What retrying promises\<close>

text \<open>
  C24. Reconnecting: an operation is tried at most the number of times allowed, only failures that are
  worth it are swallowed and never a cancellation, the waits double from the first up to the
  ceiling, and what is raised in the end is a cancellation, a failure not worth another try, or the
  failure of the last try, with the note that says which.
\<close>

theorem reconnect_ladder:
  assumes "1 \<le> attempts" "0 \<le> backoff" "0 \<le> backoff_max"
  shows "let r = with_reconnect operate sleep attempts backoff backoff_max s in
    ladder_ok is_retryable note_attempts (nat attempts) backoff_max 0 backoff r \<and>
    Cancelled \<notin> set (swallowed r) \<and>
    list_all (\<lambda>k. slept r ! k = (if k = 0 then backoff else min (backoff * 2 ^ k) backoff_max)) [0..<length (slept r)]"
proof -
  define r where "r = with_reconnect operate sleep attempts backoff backoff_max s"
  have ok: "ladder_ok is_retryable note_attempts (nat attempts) backoff_max 0 backoff r"
    using assms(1) reconnect.ladder_keeps [of 0 "nat attempts"] by (simp add: r_def with_reconnect_def)
  have slept: "slept r = rungs backoff backoff_max (length (slept r))" using ok by (simp add: ladder_ok_def)
  have "slept r ! k = (if k = 0 then backoff else min (backoff * 2 ^ k) backoff_max)" if "k < length (slept r)" for k
    using nth_rungs [OF assms(2,3) that] slept by metis
  then show ?thesis using ok reconnect.cancellation_kept [OF ok]
    by (simp add: r_def [symmetric] list_all_iff)
qed

lemma reconnect_ladder_witness:
  "ladder_ok is_retryable note_attempts 3 30 0 1
     (with_reconnect (\<lambda>n :: nat. (if n < 2 then Inl ConnectErr else Inr n, n + 1)) (\<lambda>_ n. (False, n)) 3 1 30 0)"
  using reconnect_ladder [of 3 1 30 "\<lambda>n :: nat. (if n < 2 then Inl ConnectErr else Inr n, n + 1)" "\<lambda>_ n. (False, n)" 0]
  by (simp add: Let_def)

lemma identify_transient:
  "classifies_transient (identify extensions) message \<Longrightarrow>
     sp_name (identify extensions) = Known ''asyncssh'' \<and> contains (ascii ''Too many open files'') message"
  by (auto simp: classifies_transient_def identify_def from_vendor_id_def Let_def UNKNOWN_def OPENSSH_def ASYNCSSH_def PARAMIKO_def
      split: if_splits option.splits bind_splits)

text \<open>
  A refusal is repeated on a live session only where it was measured to be transient: opening a
  file for reading swallows at most two refusals, each the catch-all status with the text one
  implementation sends when it is out of descriptors, and none at all from a server that is not
  identified as that implementation.
\<close>

theorem only_measured_refusals_repeat:
  "let r = open_for_read opener path (identify extensions) sleep s in
     length (swallowed r) \<le> 2 \<and>
     list_all (\<lambda>e. case e of ServerErr _ code message _ \<Rightarrow> code = 4 \<and> contains (ascii ''Too many open files'') message | _ \<Rightarrow> False)
       (swallowed r) \<and>
     (swallowed r = [] \<or> sp_name (identify extensions) = Known ''asyncssh'')"
proof -
  define r where "r = open_for_read opener path (identify extensions) sleep s"
  have ok: "ladder_ok (is_transient_refusal (identify extensions)) (\<lambda>_ _ _. NoNote) 3 TRANSIENT_BACKOFF_MAX 0 TRANSIENT_BACKOFF r"
    using transient.ladder_keeps [of 0 3 "identify extensions"]
    by (simp add: r_def open_for_read_def with_transient_retry_def TRANSIENT_ATTEMPTS_def)
  then have "\<forall>e \<in> set (swallowed r). is_transient_refusal (identify extensions) e" "length (swallowed r) \<le> 2"
    by (auto simp: ladder_ok_def list_all_iff)
  then show ?thesis
    using identify_transient [of extensions]
    unfolding r_def [symmetric] Let_def list_all_iff is_transient_refusal_def
    by (cases "swallowed r") (fastforce split: exn.splits if_splits)+
qed

text \<open>
  A destination the allowlist refuses is asked for again: the refusal is a connection error to the
  classifier, so the loop that never repeats a rejected credential runs the recipe three times against
  the same policy, sleeping in between, and only then reports a failure that could not have changed.
\<close>

theorem refused_destination_is_retried:
  "let r = with_reconnect (\<lambda>n :: nat. (Inl DestinationNotAllowedErr :: exn + unit, n + 1)) (\<lambda>_ n. (False, n))
       DEFAULT_ATTEMPTS DEFAULT_BACKOFF DEFAULT_BACKOFF_MAX 0 in
     world r = 3 \<and> swallowed r = [DestinationNotAllowedErr, DestinationNotAllowedErr] \<and> slept r = [1, 2] \<and>
     noted r = GaveUp 3 3 \<and> is_retryable AuthenticationErr = False \<and> is_retryable HostKeyErr = False"
  by (simp add: with_reconnect_def DEFAULT_ATTEMPTS_def DEFAULT_BACKOFF_def DEFAULT_BACKOFF_MAX_def ladder.simps
      is_retryable_def note_attempts_def Let_def)

end
