(* ===== verification/Acts.thy ===== *)
theory Acts
  imports Errors
begin

text \<open>
  Orchestrations over a session. An operation takes the state of the world to an outcome and a new
  state; what the world is stays abstract. A program is a sequence of operations that also keeps
  every state an operation left behind, so that a property can speak of each moment of a run and
  not only of its end. \<open>runs\<close> is the proof rule the programs are verified with.
\<close>

section \<open>Operations and programs\<close>

type_synonym ('a, 'w) act = "'w \<Rightarrow> (exn + 'a) \<times> 'w"

type_synonym ('a, 'w) prog = "'w \<Rightarrow> (exn + 'a) \<times> 'w \<times> 'w list"

definition give :: "'a \<Rightarrow> ('a, 'w) prog" where "give x w = (Inr x, w, [])"

definition throw :: "exn \<Rightarrow> ('a, 'w) prog" where "throw e w = (Inl e, w, [])"

definition call :: "('a, 'w) act \<Rightarrow> ('a, 'w) prog" where
  "call f w = (case f w of (r, w') \<Rightarrow> (r, w', [w']))"

definition ask :: "('w \<Rightarrow> 'a) \<Rightarrow> ('a, 'w) prog" where "ask f w = (Inr (f w), w, [])"

definition andthen :: "('a, 'w) prog \<Rightarrow> ('a \<Rightarrow> ('b, 'w) prog) \<Rightarrow> ('b, 'w) prog" where
  "andthen m f w =
     (case m w of
        (Inl e, w', t) \<Rightarrow> (Inl e, w', t)
      | (Inr x, w', t) \<Rightarrow> (case f x w' of (r, w'', t') \<Rightarrow> (r, w'', t @ t')))"

lemma andthen_give [simp]: "andthen (give x) f = f x"
  by (rule ext) (simp add: andthen_def give_def split: prod.splits)

definition catching :: "('a, 'w) prog \<Rightarrow> (exn \<Rightarrow> ('a, 'w) prog) \<Rightarrow> ('a, 'w) prog" where
  "catching m h w =
     (case m w of
        (Inr x, w', t) \<Rightarrow> (Inr x, w', t)
      | (Inl e, w', t) \<Rightarrow> (case h e w' of (r, w'', t') \<Rightarrow> (r, w'', t @ t')))"

text \<open>\<open>try: m  finally: c\<close>: an exception of the cleanup replaces what came before it.\<close>

definition ensuring :: "('a, 'w) prog \<Rightarrow> (unit, 'w) prog \<Rightarrow> ('a, 'w) prog" where
  "ensuring m c = andthen (catching m (\<lambda>e. andthen c (\<lambda>_. throw e))) (\<lambda>x. andthen c (\<lambda>_. give x))"

text \<open>A program as one operation over the world and the states seen so far, and back.\<close>

definition traced :: "('a, 'w) prog \<Rightarrow> 'w \<times> 'w list \<Rightarrow> (exn + 'a) \<times> ('w \<times> 'w list)" where
  "traced m s = (case m (fst s) of (r, w', t) \<Rightarrow> (r, w', snd s @ t))"

section \<open>What a program keeps\<close>

text \<open>
  From every state with \<open>P\<close>, each state an operation leaves satisfies \<open>I\<close>, a result comes with \<open>Q\<close>
  and an exception with \<open>E\<close>.
\<close>

definition runs ::
    "('w \<Rightarrow> bool) \<Rightarrow> ('w \<Rightarrow> bool) \<Rightarrow> ('a, 'w) prog \<Rightarrow> ('a \<Rightarrow> 'w \<Rightarrow> bool) \<Rightarrow> (exn \<Rightarrow> 'w \<Rightarrow> bool) \<Rightarrow> bool" where
  "runs I P m Q E \<longleftrightarrow>
     (\<forall>w r w' t. P w \<longrightarrow> m w = (r, w', t) \<longrightarrow>
        list_all I t \<and> (case r of Inl e \<Rightarrow> E e w' | Inr x \<Rightarrow> Q x w'))"

lemma runsI:
  assumes "\<And>w r w' t. P w \<Longrightarrow> m w = (r, w', t) \<Longrightarrow> list_all I t \<and> (case r of Inl e \<Rightarrow> E e w' | Inr x \<Rightarrow> Q x w')"
  shows "runs I P m Q E"
  using assms by (simp add: runs_def)

lemma runsD:
  assumes "runs I P m Q E" "P w" "m w = (r, w', t)"
  shows "list_all I t" "case r of Inl e \<Rightarrow> E e w' | Inr x \<Rightarrow> Q x w'"
  using assms unfolding runs_def by blast+

lemma runs_weaken:
  assumes "runs I P' m Q' E'" "\<And>w. P w \<Longrightarrow> P' w" "\<And>x w. Q' x w \<Longrightarrow> Q x w" "\<And>e w. E' e w \<Longrightarrow> E e w"
  shows "runs I P m Q E"
  using assms by (fastforce simp: runs_def split: sum.splits)

lemma runs_give: "(\<And>w. P w \<Longrightarrow> Q x w) \<Longrightarrow> runs I P (give x) Q E"
  by (simp add: runs_def give_def)

lemma runs_throw: "(\<And>w. P w \<Longrightarrow> E e w) \<Longrightarrow> runs I P (throw e) Q E"
  by (simp add: runs_def throw_def)

lemma runs_ask: "(\<And>w. P w \<Longrightarrow> Q (f w) w) \<Longrightarrow> runs I P (ask f) Q E"
  by (simp add: runs_def ask_def)

lemma runs_call:
  assumes "\<And>w r w'. P w \<Longrightarrow> f w = (r, w') \<Longrightarrow> I w' \<and> (case r of Inl e \<Rightarrow> E e w' | Inr x \<Rightarrow> Q x w')"
  shows "runs I P (call f) Q E"
  using assms by (auto simp: runs_def call_def split: prod.splits)

lemma runs_andthen:
  assumes "runs I P m R E" "\<And>x. runs I (R x) (f x) Q E"
  shows "runs I P (andthen m f) Q E"
proof (rule runsI)
  fix w r w' t assume P: "P w" and run: "andthen m f w = (r, w', t)"
  obtain r0 w0 t0 where m: "m w = (r0, w0, t0)" using prod_cases3 by blast
  note first = runsD [OF assms(1) P m]
  show "list_all I t \<and> (case r of Inl e \<Rightarrow> E e w' | Inr x \<Rightarrow> Q x w')"
  proof (cases r0)
    case (Inl e)
    then show ?thesis using run m first by (auto simp: andthen_def)
  next
    case (Inr x)
    obtain t1 where f: "f x w0 = (r, w', t1)" "t = t0 @ t1"
      using run m Inr by (auto simp: andthen_def split: prod.splits)
    have "R x w0" using first(2) Inr by simp
    from runsD [OF assms(2) this f(1)] show ?thesis using first(1) f(2) by simp
  qed
qed

lemma runs_catching:
  assumes "runs I P m Q R" "\<And>e. runs I (R e) (h e) Q E"
  shows "runs I P (catching m h) Q E"
proof (rule runsI)
  fix w r w' t assume P: "P w" and run: "catching m h w = (r, w', t)"
  obtain r0 w0 t0 where m: "m w = (r0, w0, t0)" using prod_cases3 by blast
  note first = runsD [OF assms(1) P m]
  show "list_all I t \<and> (case r of Inl e \<Rightarrow> E e w' | Inr x \<Rightarrow> Q x w')"
  proof (cases r0)
    case (Inr x)
    then show ?thesis using run m first by (auto simp: catching_def)
  next
    case (Inl e)
    obtain t1 where f: "h e w0 = (r, w', t1)" "t = t0 @ t1"
      using run m Inl by (auto simp: catching_def split: prod.splits)
    have "R e w0" using first(2) Inl by simp
    from runsD [OF assms(2) this f(1)] show ?thesis using first(1) f(2) by simp
  qed
qed

lemma runs_ensuring:
  assumes "runs I P m Q E" "\<And>x. runs I (Q x) c (\<lambda>_. Q x) E" "\<And>e. runs I (E e) c (\<lambda>_. E e) E"
  shows "runs I P (ensuring m c) Q E"
  unfolding ensuring_def
  by (rule runs_andthen [OF runs_catching [OF assms(1) runs_andthen [OF assms(3) runs_throw]]], assumption,
      rule runs_andthen [OF assms(2) runs_give])

lemma runs_if:
  "(b \<Longrightarrow> runs I P m Q E) \<Longrightarrow> (\<not> b \<Longrightarrow> runs I P m' Q E) \<Longrightarrow> runs I P (if b then m else m') Q E"
  by simp

lemma runs_fact: "(\<And>w. P w \<Longrightarrow> b) \<Longrightarrow> (b \<Longrightarrow> runs I P m Q E) \<Longrightarrow> runs I P m Q E"
  by (fastforce simp: runs_def)

section \<open>Programs that leave a view of the world alone\<close>

definition quiet :: "('w \<Rightarrow> 'v) \<Rightarrow> ('a, 'w) prog \<Rightarrow> bool" where
  "quiet view m \<longleftrightarrow> (\<forall>w r w' t. m w = (r, w', t) \<longrightarrow> view w' = view w \<and> list_all (\<lambda>v. view v = view w) t)"

named_theorems quiet_rules

lemma quiet_give [quiet_rules]: "quiet view (give x)"
  by (simp add: quiet_def give_def)

lemma quiet_throw [quiet_rules]: "quiet view (throw e)"
  by (simp add: quiet_def throw_def)

lemma quiet_ask [quiet_rules]: "quiet view (ask f)"
  by (simp add: quiet_def ask_def)

lemma quiet_call: "(\<And>w r w'. f w = (r, w') \<Longrightarrow> view w' = view w) \<Longrightarrow> quiet view (call f)"
  by (auto simp: quiet_def call_def split: prod.splits)

lemma quietI:
  "(\<And>w r w' t. m w = (r, w', t) \<Longrightarrow> view w' = view w \<and> list_all (\<lambda>v. view v = view w) t) \<Longrightarrow> quiet view m"
  by (simp add: quiet_def)

lemma quietD: "quiet view m \<Longrightarrow> m w = (r, w', t) \<Longrightarrow> view w' = view w \<and> list_all (\<lambda>v. view v = view w) t"
  by (simp add: quiet_def)

lemma quiet_andthen [quiet_rules]:
  assumes "quiet view m" "\<And>x. quiet view (f x)" shows "quiet view (andthen m f)"
proof (rule quietI)
  fix w r w' t assume run: "andthen m f w = (r, w', t)"
  obtain r0 w0 t0 where m: "m w = (r0, w0, t0)" using prod_cases3 by blast
  note first = quietD [OF assms(1) m]
  show "view w' = view w \<and> list_all (\<lambda>v. view v = view w) t"
  proof (cases r0)
    case (Inr x)
    then obtain t1 where f: "f x w0 = (r, w', t1)" "t = t0 @ t1"
      using run m by (auto simp: andthen_def split: prod.splits)
    from quietD [OF assms(2) f(1)] show ?thesis using first f(2) by simp
  qed (use run m first in \<open>auto simp: andthen_def\<close>)
qed

lemma quiet_catching [quiet_rules]:
  assumes "quiet view m" "\<And>e. quiet view (h e)" shows "quiet view (catching m h)"
proof (rule quietI)
  fix w r w' t assume run: "catching m h w = (r, w', t)"
  obtain r0 w0 t0 where m: "m w = (r0, w0, t0)" using prod_cases3 by blast
  note first = quietD [OF assms(1) m]
  show "view w' = view w \<and> list_all (\<lambda>v. view v = view w) t"
  proof (cases r0)
    case (Inl e)
    then obtain t1 where f: "h e w0 = (r, w', t1)" "t = t0 @ t1"
      using run m by (auto simp: catching_def split: prod.splits)
    from quietD [OF assms(2) f(1)] show ?thesis using first f(2) by simp
  qed (use run m first in \<open>auto simp: catching_def\<close>)
qed

lemma quiet_ensuring [quiet_rules]: "quiet view m \<Longrightarrow> quiet view c \<Longrightarrow> quiet view (ensuring m c)"
  unfolding ensuring_def by (intro quiet_rules)

lemma quiet_if [quiet_rules]: "quiet view m \<Longrightarrow> quiet view m' \<Longrightarrow> quiet view (if b then m else m')"
  by simp

lemma runs_quiet:
  assumes "quiet view m" "\<And>w. P w \<Longrightarrow> I w"
    "\<And>w w'. P w \<Longrightarrow> view w' = view w \<Longrightarrow> P w'"
  shows "runs I P m (\<lambda>_. P) (\<lambda>_. P)"
proof (rule runsI)
  fix w r w' t assume P: "P w" "m w = (r, w', t)"
  note q = quietD [OF assms(1) P(2)]
  have "P w'" using assms(3) P(1) q by blast
  moreover have "list_all I t" using assms(2,3) P(1) q by (fastforce simp: list_all_iff)
  ultimately show "list_all I t \<and> (case r of Inl e \<Rightarrow> P w' | Inr x \<Rightarrow> P w')" by (cases r) simp_all
qed

lemma runs_conj:
  assumes "runs I P m Q1 E1" "runs J P m Q2 E2"
  shows "runs I P m (\<lambda>x w. Q1 x w \<and> Q2 x w) (\<lambda>e w. E1 e w \<and> E2 e w)"
proof (rule runsI)
  fix w r w' t assume "P w" "m w = (r, w', t)"
  from runsD [OF assms(1) this] runsD(2) [OF assms(2) this]
  show "list_all I t \<and> (case r of Inl e \<Rightarrow> E1 e w' \<and> E2 e w' | Inr x \<Rightarrow> Q1 x w' \<and> Q2 x w')"
    by (cases r) simp_all
qed

text \<open>What only the outcome of a quiet program adds to what stays true around it.\<close>

lemma runs_quiet_more:
  assumes "quiet view m" "\<And>w. P w \<Longrightarrow> I w" "\<And>w w'. P w \<Longrightarrow> view w' = view w \<Longrightarrow> P w'"
    "runs (\<lambda>_. True) P m Q E"
  shows "runs I P m (\<lambda>x w. P w \<and> Q x w) (\<lambda>e w. P w \<and> E e w)"
  by (rule runs_conj [OF runs_quiet [OF assms(1-3)] assms(4)])

end
