(* ===== verification/SessionOps.thy ===== *)
theory SessionOps
  imports Acts Retry
begin

text \<open>
  The operations of a session that the publishing and verifying code calls, as it sees them: the
  \<open>_SessionOperations\<close> interface, the local file being sent, and the two writes of the journal. What
  an operation does is a parameter; \<open>honest\<close> states what the code relies on: which operations change
  no file, what a rename, a removal, an \<open>OPEN\<close> and an upload do when they answer, and that an
  exception which is not the server's own refusal leaves open whether the request was performed.
\<close>

section \<open>The interface\<close>

record 'w session_ops =
  op_supports :: "string \<Rightarrow> 'w \<Rightarrow> bool"
  op_refuses :: "string \<Rightarrow> 'w \<Rightarrow> bool"
  op_stat :: "bytes \<Rightarrow> (nat option, 'w) act"
  op_lstat :: "bytes \<Rightarrow> (unit, 'w) act"
  op_open :: "bytes \<Rightarrow> int \<Rightarrow> int option \<Rightarrow> (bytes, 'w) act"
  op_fchmod :: "bytes \<Rightarrow> int \<Rightarrow> (unit, 'w) act"
  op_futime :: "bytes \<Rightarrow> int \<times> int \<Rightarrow> (unit, 'w) act"
  op_fsync_if_supported :: "bytes \<Rightarrow> (bool, 'w) act"
  op_upload_from :: "bytes \<Rightarrow> nat \<Rightarrow> (nat, 'w) act"
  op_download_into :: "bytes \<Rightarrow> nat \<Rightarrow> nat \<Rightarrow> (bytes, 'w) act"
  op_check_file :: "bytes \<Rightarrow> nat \<Rightarrow> nat \<Rightarrow> nat \<Rightarrow> (bytes \<times> bytes list, 'w) act"
  op_close :: "bytes \<Rightarrow> (unit, 'w) act"
  op_remove :: "bytes \<Rightarrow> (unit, 'w) act"
  op_rename :: "bytes \<Rightarrow> bytes \<Rightarrow> (unit, 'w) act"
  op_posix_rename_if_supported :: "bytes \<Rightarrow> bytes \<Rightarrow> (bool, 'w) act"
  op_sleep :: "rat \<Rightarrow> 'w \<Rightarrow> bool \<times> 'w"
  op_local_stat :: "(nat, 'w) act"
  op_local_times :: "(int \<times> int, 'w) act"
  op_local_bytes :: "(bytes, 'w) act"
  op_profile :: server_profile
  op_staging :: "bytes \<Rightarrow> bytes \<Rightarrow> (unit, 'w) act"
  op_published :: "bytes \<Rightarrow> (unit, 'w) act"

fun is_server_error :: "exn \<Rightarrow> bool" where
  "is_server_error (ServerErr _ _ _ _) = True"
| "is_server_error _ = False"

fun is_no_such_file :: "exn \<Rightarrow> bool" where
  "is_no_such_file (ServerErr NoSuchFile _ _ _) = True"
| "is_no_such_file _ = False"

fun is_value_error :: "exn \<Rightarrow> bool" where
  "is_value_error (ValueErr _) = True"
| "is_value_error _ = False"

text \<open>\<open>close_quietly\<close>: shielded, and what \<open>Exception\<close> covers is dropped.\<close>

definition quietly :: "(unit, 'w) prog \<Rightarrow> (unit, 'w) prog" where
  "quietly m = catching m (\<lambda>e. if e = Cancelled then throw e else give ())"

definition close_quietly :: "'w session_ops \<Rightarrow> bytes \<Rightarrow> (unit, 'w) prog" where
  "close_quietly ops h = quietly (call (op_close ops h))"

text \<open>\<open>open_for_read\<close> and the upload's opener, as programs: the ladder of \<open>_transient\<close> over the trace.\<close>

definition retrying :: "'w session_ops \<Rightarrow> ('a, 'w) prog \<Rightarrow> ('a, 'w) prog" where
  "retrying ops m w =
     (let r = with_transient_retry (op_profile ops) (traced m)
                (\<lambda>d s. case op_sleep ops d (fst s) of (c, w') \<Rightarrow> (c, (w', snd s)))
                TRANSIENT_ATTEMPTS TRANSIENT_BACKOFF TRANSIENT_BACKOFF_MAX (w, []) in
      (outcome r, fst (world r), snd (world r)))"

definition opening_for_read :: "'w session_ops \<Rightarrow> bytes \<Rightarrow> (bytes, 'w) prog" where
  "opening_for_read ops path = retrying ops (call (op_open ops path OPEN_READ None))"

section \<open>What the code relies on\<close>

text \<open>The server's files, and the file an open handle stands for.\<close>

record store =
  files :: "bytes \<Rightarrow> bytes option"
  names :: "bytes \<Rightarrow> bytes option"

definition keeps :: "('w \<Rightarrow> 'v) \<Rightarrow> ('a, 'w) act \<Rightarrow> bool" where
  "keeps view f \<longleftrightarrow> (\<forall>w r w'. f w = (r, w') \<longrightarrow> view w' = view w)"

text \<open>
  A request that changes the files: performed when it answers, not performed when the server refuses
  it, and either when the answer is lost.
\<close>

definition performs :: "('w \<Rightarrow> store) \<Rightarrow> ('a, 'w) act \<Rightarrow> ((bytes \<Rightarrow> bytes option) \<Rightarrow> bytes \<Rightarrow> bytes option) \<Rightarrow> bool" where
  "performs view f g \<longleftrightarrow>
     (\<forall>w r w'. f w = (r, w') \<longrightarrow>
        (case r of
           Inr _ \<Rightarrow> files (view w') = g (files (view w))
         | Inl e \<Rightarrow> files (view w') = files (view w) \<or> \<not> is_server_error e \<and> files (view w') = g (files (view w))))"

definition renamed :: "bytes \<Rightarrow> bytes \<Rightarrow> (bytes \<Rightarrow> bytes option) \<Rightarrow> bytes \<Rightarrow> bytes option" where
  "renamed a b fs = fs(b := fs a, a := None)"

definition removed :: "bytes \<Rightarrow> (bytes \<Rightarrow> bytes option) \<Rightarrow> bytes \<Rightarrow> bytes option" where
  "removed a fs = fs(a := None)"

definition posix_rename_ok :: "('w \<Rightarrow> store) \<Rightarrow> (bool, 'w) act \<Rightarrow> bytes \<Rightarrow> bytes \<Rightarrow> bool" where
  "posix_rename_ok view f a b \<longleftrightarrow>
     (\<forall>w r w'. f w = (r, w') \<longrightarrow>
        (case r of
           Inr True \<Rightarrow> files (view w') = renamed a b (files (view w))
         | Inr False \<Rightarrow> files (view w') = files (view w)
         | Inl e \<Rightarrow> files (view w') = files (view w) \<or> \<not> is_server_error e \<and> files (view w') = renamed a b (files (view w))))"

text \<open>An \<open>OPEN\<close> creates or truncates its own file at most; when it fails it may have done so.\<close>

definition opened_as :: "int \<Rightarrow> bytes option \<Rightarrow> bytes option" where
  "opened_as pflags old =
     (case old of
        None \<Rightarrow> if pflags AND OPEN_CREAT \<noteq> 0 then Some [] else None
      | Some c \<Rightarrow> if pflags AND OPEN_TRUNC \<noteq> 0 then Some [] else Some c)"

definition open_ok :: "('w \<Rightarrow> store) \<Rightarrow> (bytes, 'w) act \<Rightarrow> bytes \<Rightarrow> int \<Rightarrow> bool" where
  "open_ok view f path pflags \<longleftrightarrow>
     (\<forall>w r w'. f w = (r, w') \<longrightarrow>
        (case r of
           Inr h \<Rightarrow>
             files (view w') = (files (view w))(path := opened_as pflags (files (view w) path)) \<and>
             files (view w') path \<noteq> None \<and> names (view w') h = Some path \<and>
             (pflags AND OPEN_EXCL \<noteq> 0 \<longrightarrow> files (view w) path = None)
         | Inl _ \<Rightarrow>
             files (view w') = files (view w) \<or>
             files (view w') = (files (view w))(path := opened_as pflags (files (view w) path))))"

text \<open>An upload through a handle writes the local file's bytes from the offset on, over what is there.\<close>

definition upload_ok :: "('w \<Rightarrow> store) \<Rightarrow> bytes \<Rightarrow> (nat, 'w) act \<Rightarrow> bytes \<Rightarrow> nat \<Rightarrow> bool" where
  "upload_ok view content f h start \<longleftrightarrow>
     (\<forall>w r w' path. f w = (r, w') \<longrightarrow> names (view w) h = Some path \<longrightarrow>
        (\<forall>p. p \<noteq> path \<longrightarrow> files (view w') p = files (view w) p) \<and>
        (case r of
           Inr n \<Rightarrow> (\<forall>c. files (view w) path = Some c \<longrightarrow> start \<le> length c \<longrightarrow>
              n = length content - start \<and> files (view w') path = Some (take start c @ drop start content @ drop (length content) c))
         | Inl _ \<Rightarrow> True))"

definition download_ok :: "('w \<Rightarrow> store) \<Rightarrow> (bytes, 'w) act \<Rightarrow> bytes \<Rightarrow> nat \<Rightarrow> bool" where
  "download_ok view f h limit \<longleftrightarrow>
     keeps view f \<and>
     (\<forall>w got w' path c. f w = (Inr got, w') \<longrightarrow> names (view w) h = Some path \<longrightarrow> files (view w) path = Some c \<longrightarrow>
        got = take limit c)"

definition answers :: "('w \<Rightarrow> 'v) \<Rightarrow> ('a, 'w) act \<Rightarrow> ('a \<Rightarrow> 'v \<Rightarrow> bool) \<Rightarrow> bool" where
  "answers view f good \<longleftrightarrow> keeps view f \<and> (\<forall>w x w'. f w = (Inr x, w') \<longrightarrow> good x (view w))"

text \<open>
  An honest session over a store, sending the local file \<open>content\<close>. Nothing is assumed of what fails
  when, of the bytes of a message, or of how often a request is refused.
\<close>

definition honest :: "'w session_ops \<Rightarrow> ('w \<Rightarrow> store) \<Rightarrow> bytes \<Rightarrow> bool" where
  "honest ops view content \<longleftrightarrow>
     (\<forall>p. answers view (op_stat ops p) (\<lambda>reported s. \<forall>n. reported = Some n \<longrightarrow> (\<exists>c. files s p = Some c \<and> length c = n))) \<and>
     (\<forall>p w e w'. op_stat ops p w = (Inl e, w') \<longrightarrow> is_no_such_file e \<longrightarrow> files (view w) p = None) \<and>
     (\<forall>p. keeps view (op_lstat ops p)) \<and>
     (\<forall>p flags mode. open_ok view (op_open ops p flags mode) p flags) \<and>
     (\<forall>h m. keeps view (op_fchmod ops h m)) \<and> (\<forall>h t. keeps view (op_futime ops h t)) \<and>
     (\<forall>h. keeps view (op_fsync_if_supported ops h)) \<and>
     (\<forall>h start. upload_ok view content (op_upload_from ops h start) h start) \<and>
     (\<forall>h limit. download_ok view (op_download_into ops h limit 0) h limit) \<and>
     (\<forall>h start len block. keeps view (op_check_file ops h start len block)) \<and>
     (\<forall>h. keeps view (op_close ops h)) \<and>
     (\<forall>p. performs view (op_remove ops p) (removed p)) \<and>
     (\<forall>a b. performs view (op_rename ops a b) (renamed a b)) \<and>
     (\<forall>a b. posix_rename_ok view (op_posix_rename_if_supported ops a b) a b) \<and>
     (\<forall>d w c w'. op_sleep ops d w = (c, w') \<longrightarrow> view w' = view w) \<and>
     answers view (op_local_stat ops) (\<lambda>n _. n = length content) \<and>
     keeps view (op_local_times ops) \<and>
     answers view (op_local_bytes ops) (\<lambda>c _. c = content) \<and>
     (\<forall>a b. keeps view (op_staging ops a b)) \<and> (\<forall>b. keeps view (op_published ops b))"

section \<open>The hypotheses, one by one\<close>

lemma honestD:
  assumes "honest ops view content"
  shows "answers view (op_stat ops p) (\<lambda>reported s. \<forall>n. reported = Some n \<longrightarrow> (\<exists>c. files s p = Some c \<and> length c = n))"
    "keeps view (op_lstat ops p)" "open_ok view (op_open ops p flags mode) p flags"
    "keeps view (op_fchmod ops h m)" "keeps view (op_futime ops h t)" "keeps view (op_fsync_if_supported ops h)"
    "upload_ok view content (op_upload_from ops h start) h start" "download_ok view (op_download_into ops h limit 0) h limit"
    "keeps view (op_check_file ops h start len block)" "keeps view (op_close ops h)"
    "performs view (op_remove ops p) (removed p)" "performs view (op_rename ops a b) (renamed a b)"
    "posix_rename_ok view (op_posix_rename_if_supported ops a b) a b"
    "op_sleep ops d w = (c, w') \<Longrightarrow> view w' = view w"
    "answers view (op_local_stat ops) (\<lambda>n _. n = length content)" "keeps view (op_local_times ops)"
    "answers view (op_local_bytes ops) (\<lambda>c _. c = content)" "keeps view (op_staging ops a b)" "keeps view (op_published ops b)"
    "op_stat ops p w = (Inl e, w') \<Longrightarrow> is_no_such_file e \<Longrightarrow> files (view w) p = None"
  using assms by (simp_all add: honest_def del: split_paired_All)

lemma open_okD:
  assumes "open_ok view f path pflags" "f w = (r, w')"
  shows "r = Inr h \<Longrightarrow> files (view w') = (files (view w))(path := opened_as pflags (files (view w) path))"
    "r = Inr h \<Longrightarrow> files (view w') path \<noteq> None" "r = Inr h \<Longrightarrow> names (view w') h = Some path"
    "r = Inr h \<Longrightarrow> pflags AND OPEN_EXCL \<noteq> 0 \<Longrightarrow> files (view w) path = None"
    "r = Inl e \<Longrightarrow> files (view w') = files (view w) \<or>
       files (view w') = (files (view w))(path := opened_as pflags (files (view w) path))"
  using assms(1) [unfolded open_ok_def, rule_format, OF assms(2)] by (auto split: if_splits)

lemma quiet_keeps: "keeps view f \<Longrightarrow> quiet view (call f)"
  by (rule quiet_call) (auto simp: keeps_def)

lemma quiet_answers: "answers view f good \<Longrightarrow> quiet view (call f)"
  by (rule quiet_keeps) (simp add: answers_def)

lemma quiet_files: "quiet view m \<Longrightarrow> quiet (\<lambda>w. files (view w)) m"
  unfolding quiet_def list_all_iff by metis

lemma quiet_quietly [quiet_rules]: "quiet view m \<Longrightarrow> quiet view (quietly m)"
  unfolding quietly_def by (intro quiet_rules)

lemma runs_answers:
  assumes "answers view f good" shows "runs (\<lambda>_. True) P (call f) (\<lambda>x w. good x (view w)) (\<lambda>_ _. True)"
  using assms by (intro runs_call) (auto simp: answers_def keeps_def split: sum.splits)

section \<open>Repeating a request\<close>

text \<open>
  A ladder of requests keeps what each of them keeps, when sleeping keeps it too: its outcome is
  that of one of them.
\<close>

lemma ladder_runs:
  assumes "runs I P m Q E" "\<And>e w. E e w \<Longrightarrow> P w \<and> E Cancelled w"
    "\<And>d w c w' e. op_sleep ops d w = (c, w') \<Longrightarrow> P w \<Longrightarrow> E e w \<Longrightarrow> P w' \<and> E e w'" "P w" "list_all I seen"
  defines "sleep \<equiv> (\<lambda>d s. case op_sleep ops d (fst s) of (c, w') \<Rightarrow> (c, (w', snd s)))"
  shows "ladder again note_of (traced m) sleep attempts backoff_max tried delay (w, seen) = R \<Longrightarrow>
    list_all I (snd (world R)) \<and> (case outcome R of Inl e \<Rightarrow> E e (fst (world R)) | Inr x \<Rightarrow> Q x (fst (world R)))"
  using assms(4,5)
proof (induction "attempts - tried" arbitrary: tried delay w seen R rule: less_induct)
  case less
  obtain x w1 t1 where m: "m w = (x, w1, t1)" using prod_cases3 by blast
  note first = runsD [OF assms(1) less.prems(2) m]
  have once: "traced m (w, seen) = (x, (w1, seen @ t1))" by (simp add: traced_def m)
  note run = less.prems(1) [symmetric, unfolded ladder.simps [of _ _ _ _ _ _ tried], simplified once Let_def]
  show ?case
  proof (cases x)
    case (Inr v)
    then show ?thesis using run first less.prems(3) by simp
  next
    case (Inl e)
    show ?thesis
    proof (cases "e = Cancelled \<or> \<not> again e \<or> attempts \<le> tried + 1")
      case True
      then show ?thesis using run Inl first less.prems(3) by auto
    next
      case False
      obtain c w2 where sl: "op_sleep ops delay w1 = (c, w2)" by (cases "op_sleep ops delay w1")
      have E1: "E e w1" using first(2) Inl by simp
      have E2: "P w2 \<and> E e w2" using assms(3) [OF sl] assms(2) [OF E1] E1 by blast
      then have EC: "E Cancelled w2" using assms(2) by blast
      have slept: "sleep delay (w1, seen @ t1) = (c, (w2, seen @ t1))" by (simp add: sleep_def sl)
      show ?thesis
      proof (cases c)
        case True
        then show ?thesis using run Inl False slept EC first(1) less.prems(3) by simp
      next
        case c: False
        have fewer: "attempts - (tried + 1) < attempts - tried" using False by auto
        define R' where "R' = ladder again note_of (traced m) sleep attempts backoff_max (tried + 1)
            (min (delay * 2) backoff_max) (w2, seen @ t1)"
        note rest = less.hyps [OF fewer R'_def [symmetric]]
        have "outcome R = outcome R'" "world R = world R'"
          using run Inl False slept c by (simp_all add: R'_def)
        then show ?thesis using rest E2 first(1) less.prems(3) by (cases "outcome R'") simp_all
      qed
    qed
  qed
qed

lemma runs_retrying:
  assumes "runs I P m Q E" "\<And>e w. E e w \<Longrightarrow> P w \<and> E Cancelled w"
    "\<And>d w c w' e. op_sleep ops d w = (c, w') \<Longrightarrow> P w \<Longrightarrow> E e w \<Longrightarrow> P w' \<and> E e w'"
  shows "runs I P (retrying ops m) Q E"
proof (rule runsI)
  fix w r w' t assume P: "P w" and run: "retrying ops m w = (r, w', t)"
  define R where "R = ladder (is_transient_refusal (op_profile ops)) (\<lambda>_ _ _. NoNote) (traced m)
      (\<lambda>d s. case op_sleep ops d (fst s) of (c, w') \<Rightarrow> (c, (w', snd s))) 3 TRANSIENT_BACKOFF_MAX 0 TRANSIENT_BACKOFF (w, [])"
  have "r = outcome R" "w' = fst (world R)" "t = snd (world R)"
    using run by (simp_all add: retrying_def with_transient_retry_def TRANSIENT_ATTEMPTS_def Let_def R_def)
  moreover have "list_all I (snd (world R)) \<and>
      (case outcome R of Inl e \<Rightarrow> E e (fst (world R)) | Inr x \<Rightarrow> Q x (fst (world R)))"
  proof (rule ladder_runs [OF assms(1) _ _ P _ R_def [symmetric]], goal_cases)
    case 1
    then show ?case by (rule assms(2))
  next
    case 2
    then show ?case by (rule assms(3))
  qed simp
  ultimately show "list_all I t \<and> (case r of Inl e \<Rightarrow> E e w' | Inr x \<Rightarrow> Q x w')" by (cases "outcome R") simp_all
qed

end
