(* ===== verification/Verify.thy ===== *)
theory Verify
  imports SessionOps
begin

text \<open>
  Comparing what the server holds with the local file, \<open>session/_verify.py\<close>: the blocks, the hash
  comparison, the re-read, and the two gates. A digest is a parameter that has no answer for an
  algorithm it does not know; the scratch file of a re-read is the bytes that were downloaded.
\<close>

section \<open>Grades and results\<close>

datatype verify = VerifySize | VerifyHash | VerifyReread

datatype content_check = ContentSkipped | ContentHashed | ContentReread | ContentUnavailable

datatype resume_check = ResumeSkipped | ResumeMatched | ResumeUnavailable

definition CHECK_FILE_BLOCK_SIZE :: nat where "CHECK_FILE_BLOCK_SIZE = 65536"

section \<open>Blocks\<close>

text \<open>\<open>range(start, stop, step)\<close> for a positive step.\<close>

function py_range :: "nat \<Rightarrow> nat \<Rightarrow> nat \<Rightarrow> nat list" where
  "py_range start stop step = (if start < stop \<and> 0 < step then start # py_range (start + step) stop step else [])"
  by auto
termination by (relation "measure (\<lambda>(start, stop, step). stop - start)") auto

declare py_range.simps [simp del]

definition block_bounds :: "nat \<Rightarrow> nat \<Rightarrow> nat \<Rightarrow> exn + nat list" where
  "block_bounds start len block_size =
     (if block_size < 1 then Inl (ValueErr (Msg ''block_size must be at least 1'' [NatArg block_size]))
      else Inr (py_range start (start + len) block_size))"

definition pread :: "bytes \<Rightarrow> nat \<Rightarrow> nat \<Rightarrow> bytes" where "pread fd len offset = take len (drop offset fd)"

definition blocks_equal :: "bytes \<Rightarrow> bytes \<Rightarrow> nat \<Rightarrow> nat \<Rightarrow> bool" where
  "blocks_equal left right offset len \<longleftrightarrow> pread left len offset = pread right len offset"

definition ranges_equal :: "bytes \<Rightarrow> bytes \<Rightarrow> nat \<Rightarrow> nat \<Rightarrow> nat \<Rightarrow> exn + bool" where
  "ranges_equal fd mine start len block_size =
     bind_sum (block_bounds start len block_size)
       (\<lambda>offsets. Inr (list_all (\<lambda>offset. blocks_equal fd mine offset (min block_size (start + len - offset))) offsets))"

definition digest_block :: "(bytes \<Rightarrow> bytes option) \<Rightarrow> bytes \<Rightarrow> nat \<Rightarrow> nat \<Rightarrow> exn + bytes" where
  "digest_block digest fd offset len =
     (case digest (pread fd len offset) of None \<Rightarrow> Inl (ValueErr (Msg ''unsupported hash type'' [])) | Some d \<Rightarrow> Inr d)"

definition local_block_digests ::
    "(bytes \<Rightarrow> bytes \<Rightarrow> bytes option) \<Rightarrow> bytes \<Rightarrow> bytes \<Rightarrow> nat \<Rightarrow> nat \<Rightarrow> nat \<Rightarrow> exn + bytes list" where
  "local_block_digests digest mine algorithm start len block_size =
     (if digest algorithm [] = None then Inl (ValueErr (Msg ''unsupported hash type'' []))
      else bind_sum (block_bounds start len block_size)
        (\<lambda>offsets. fold_sum (\<lambda>ds offset. bind_sum
             (digest_block (digest algorithm) mine offset (min block_size (start + len - offset))) (\<lambda>d. Inr (ds @ [d])))
           [] offsets))"

section \<open>Asking the server\<close>

definition hashes_agree ::
    "'w session_ops \<Rightarrow> (bytes \<Rightarrow> bytes \<Rightarrow> bytes option) \<Rightarrow> bytes \<Rightarrow> nat \<Rightarrow> nat \<Rightarrow> (bool option, 'w) prog" where
  "hashes_agree ops digest path start len =
     andthen (ask (op_refuses ops EXTENSION_CHECK_FILE)) (\<lambda>refused.
       if refused then give None
       else if len = 0 then give (Some True)
       else andthen (opening_for_read ops path) (\<lambda>h.
         andthen (ensuring
            (catching (andthen (call (op_check_file ops h start len CHECK_FILE_BLOCK_SIZE)) (\<lambda>x. give (Some x)))
               (\<lambda>e. if is_server_error e then give None else throw e))
            (close_quietly ops h)) (\<lambda>answer.
           case answer of
             None \<Rightarrow> give None
           | Some (algorithm, theirs) \<Rightarrow>
               andthen (call (op_local_bytes ops)) (\<lambda>mine.
                 case local_block_digests digest mine algorithm start len CHECK_FILE_BLOCK_SIZE of
                   Inl e \<Rightarrow> if is_value_error e then give None else throw e
                 | Inr ours \<Rightarrow> give (Some (theirs = ours))))))"

definition reread_agrees :: "'w session_ops \<Rightarrow> bytes \<Rightarrow> nat \<Rightarrow> nat \<Rightarrow> (bool, 'w) prog" where
  "reread_agrees ops path start len =
     (if len = 0 then give True
      else andthen (opening_for_read ops path) (\<lambda>h.
        ensuring
          (andthen (call (op_download_into ops h (start + len) start)) (\<lambda>scratch.
             andthen (call (op_local_bytes ops)) (\<lambda>mine.
               case ranges_equal scratch mine start len CHECK_FILE_BLOCK_SIZE of
                 Inl e \<Rightarrow> throw e
               | Inr same \<Rightarrow> give same)))
          (close_quietly ops h)))"

text \<open>\<open>gate_resume\<close>: the bytes adopted have to be a prefix of the local file, as far as the grade can tell.\<close>

definition gate_resume ::
    "'w session_ops \<Rightarrow> (bytes \<Rightarrow> bytes \<Rightarrow> bytes option) \<Rightarrow> bytes \<Rightarrow> nat \<Rightarrow> verify \<Rightarrow> (resume_check, 'w) prog" where
  "gate_resume ops digest path adopted v =
     (if adopted = 0 then give ResumeSkipped
      else andthen
        (if v = VerifyReread then andthen (reread_agrees ops path 0 adopted) (\<lambda>b. give (Some b))
         else hashes_agree ops digest path 0 adopted)
        (\<lambda>agreed.
          case agreed of
            None \<Rightarrow> give ResumeUnavailable
          | Some False \<Rightarrow> throw (TransferErr (Msg ''cannot resume'' [NatArg adopted, BytesArg path]) 0 (Some (int adopted)) (Some path))
          | Some True \<Rightarrow> give ResumeMatched))"

definition verifying ::
    "string \<Rightarrow> 'w session_ops \<Rightarrow> (bytes \<Rightarrow> bytes \<Rightarrow> bytes option) \<Rightarrow> bytes \<Rightarrow> nat \<Rightarrow> verify \<Rightarrow> (content_check, 'w) prog" where
  "verifying complaint ops digest path expected v =
     (let refused = throw (TransferErr (Msg complaint [BytesArg path, NatArg expected]) (int expected) (Some 0) (Some path)) in
      case v of
        VerifySize \<Rightarrow> give ContentSkipped
      | VerifyHash \<Rightarrow>
          andthen (hashes_agree ops digest path 0 expected) (\<lambda>agreed.
            case agreed of
              None \<Rightarrow> give ContentUnavailable
            | Some b \<Rightarrow> if \<not> b then refused else give ContentHashed)
      | VerifyReread \<Rightarrow>
          andthen (reread_agrees ops path 0 expected) (\<lambda>agreed. if \<not> agreed then refused else give ContentReread))"

definition verify_content ::
    "'w session_ops \<Rightarrow> (bytes \<Rightarrow> bytes \<Rightarrow> bytes option) \<Rightarrow> bytes \<Rightarrow> nat \<Rightarrow> verify \<Rightarrow> (content_check, 'w) prog" where
  "verify_content = verifying ''the upload is corrupt''"

definition verify_downloaded_content ::
    "'w session_ops \<Rightarrow> (bytes \<Rightarrow> bytes \<Rightarrow> bytes option) \<Rightarrow> bytes \<Rightarrow> nat \<Rightarrow> verify \<Rightarrow> (content_check, 'w) prog" where
  "verify_downloaded_content = verifying ''the download is corrupt''"

section \<open>Block by block is the whole range\<close>

lemma blocks_cover:
  assumes "0 < block"
  shows "list_all (\<lambda>offset. blocks_equal a b offset (min block (start + len - offset))) (py_range start (start + len) block) \<longleftrightarrow>
    take len (drop start a) = take len (drop start b)"
proof (induction len arbitrary: start rule: less_induct)
  case (less len)
  show ?case
  proof (cases "len = 0")
    case True
    then show ?thesis by (simp add: py_range.simps)
  next
    case False
    define rest where "rest = len - block"
    have split: "take len (drop start x) = take (min block len) (drop start x) @ take rest (drop (start + block) x)" for x :: bytes
    proof -
      have "len = min block len + rest" by (simp add: rest_def)
      then have "take len (drop start x) = take (min block len) (drop start x) @ take rest (drop (min block len) (drop start x))"
        by (metis take_add)
      moreover have "take rest (drop (min block len) (drop start x)) = take rest (drop (start + block) x)"
        by (cases "block \<le> len") (simp_all add: rest_def add.commute)
      ultimately show ?thesis by simp
    qed
    have range: "py_range start (start + len) block = start # py_range (start + block) (start + block + rest) block"
    proof (cases "block \<le> len")
      case True
      then show ?thesis using False assms by (subst py_range.simps) (simp add: rest_def)
    next
      case False
      then show ?thesis using \<open>len \<noteq> 0\<close> assms
        by (subst py_range.simps) (simp add: rest_def py_range.simps [of "start + block"])
    qed
    have same: "list_all (\<lambda>offset. blocks_equal a b offset (min block (start + len - offset))) (py_range (start + block) (start + block + rest) block) \<longleftrightarrow>
        list_all (\<lambda>offset. blocks_equal a b offset (min block (start + block + rest - offset))) (py_range (start + block) (start + block + rest) block)"
    proof (cases "block \<le> len")
      case True
      then show ?thesis by (simp add: rest_def)
    next
      case False
      then show ?thesis by (simp add: rest_def py_range.simps)
    qed
    have both: "take len (drop start a) = take len (drop start b) \<longleftrightarrow>
        take (min block len) (drop start a) = take (min block len) (drop start b) \<and>
        take rest (drop (start + block) a) = take rest (drop (start + block) b)" (is "?l \<longleftrightarrow> ?r")
    proof
      assume ?l
      then have "take (min block len) (take len (drop start a)) = take (min block len) (take len (drop start b))"
          "drop (min block len) (take len (drop start a)) = drop (min block len) (take len (drop start b))" by simp_all
      then show ?r by (cases "block \<le> len") (simp_all add: rest_def drop_take add.commute min_def)
    next
      assume ?r
      then show ?l using split [of a] split [of b] by simp
    qed
    have "rest < len" using False assms by (simp add: rest_def)
    from less [OF this, of "start + block"] same show ?thesis
      by (simp add: range both blocks_equal_def pread_def)
  qed
qed

lemma ranges_equal_iff:
  "ranges_equal a b start len CHECK_FILE_BLOCK_SIZE = Inr (take len (drop start a) = take len (drop start b))"
  using blocks_cover [of CHECK_FILE_BLOCK_SIZE a b start len]
  by (simp add: ranges_equal_def block_bounds_def CHECK_FILE_BLOCK_SIZE_def)

end
