(* ===== verification/Put.thy ===== *)
theory Put
  imports Verify
begin

text \<open>
  Uploading one file, \<open>session/_put.py\<close> with the results of \<open>session/_publish.py\<close> and the bits of
  \<open>session/_mode.py\<close>: in place, or staged under a second name and renamed over the destination.
  The code's internal signal that the staging file is the only copy left is a result here, so that
  the handler which cleans up cannot see it, as in the code.
\<close>

section \<open>Results and settings\<close>

datatype publish_mechanism = POSIX_RENAME | RENAME | REMOVE_RENAME | IN_PLACE

datatype durability = Fsynced | DurabilityUnavailable | DurabilitySkipped

datatype size_check = SizeMatched | SizeUnavailable | SizeSkipped

datatype time_preservation = TimesPreserved | TimesUnavailable | TimesSkipped

record upload_settings =
  up_fsync :: bool
  up_require_fsync :: bool
  up_resume :: bool
  up_preserve_times :: bool
  up_verify :: verify
  up_mode :: "int option"

record upload_result =
  ur_transferred :: nat
  ur_path :: bytes
  ur_mechanism :: publish_mechanism
  ur_durability :: durability
  ur_size_check :: size_check
  ur_times :: time_preservation
  ur_content :: content_check
  ur_resume :: resume_check
  ur_staged :: "bytes option"
  ur_mode :: "int option"

definition result_atomic :: "upload_result \<Rightarrow> bool" where
  "result_atomic r \<longleftrightarrow> ur_mechanism r \<in> {POSIX_RENAME, RENAME}"

definition result_durable :: "upload_result \<Rightarrow> bool" where "result_durable r \<longleftrightarrow> ur_durability r = Fsynced"

definition PERMISSION_BITS :: int where "PERMISSION_BITS = 4095"
definition CREATE_BITS :: int where "CREATE_BITS = 511"

definition create_bits :: "int option \<Rightarrow> int option" where
  "create_bits mode = map_option (\<lambda>m. m AND CREATE_BITS) mode"

definition TRUNCATE_FLAGS :: int where "TRUNCATE_FLAGS = OPEN_WRITE OR OPEN_CREAT OR OPEN_TRUNC"
definition RESUME_FLAGS :: int where "RESUME_FLAGS = OPEN_WRITE OR OPEN_CREAT"
definition STAGE_FLAGS :: int where "STAGE_FLAGS = OPEN_WRITE OR OPEN_CREAT OR OPEN_EXCL"

section \<open>Steps of an upload\<close>

definition local_size :: "'w session_ops \<Rightarrow> (nat, 'w) prog" where
  "local_size ops = catching (call (op_local_stat ops)) (\<lambda>e. if e = OSErr then give 0 else throw e)"

definition confirm_size :: "'w session_ops \<Rightarrow> bytes \<Rightarrow> nat \<Rightarrow> (size_check, 'w) prog" where
  "confirm_size ops path expected =
     andthen (catching (andthen (call (op_stat ops path)) (\<lambda>n. give (Some n)))
                (\<lambda>e. if is_server_error e then give None else throw e))
       (\<lambda>answer.
          case answer of
            None \<Rightarrow> give SizeUnavailable
          | Some None \<Rightarrow> give SizeUnavailable
          | Some (Some n) \<Rightarrow>
              (if n \<noteq> expected
               then throw (TransferErr (Msg ''uploaded but the size differs'' [NatArg expected, BytesArg path, NatArg n])
                             (int n) (Some (int n)) (Some path))
               else give SizeMatched))"

definition open_for_upload :: "'w session_ops \<Rightarrow> bytes \<Rightarrow> int \<Rightarrow> int option \<Rightarrow> (bytes, 'w) prog" where
  "open_for_upload ops path pflags mode = retrying ops (call (op_open ops path pflags mode))"

definition upload_resume_offset :: "'w session_ops \<Rightarrow> upload_settings \<Rightarrow> bytes \<Rightarrow> (nat, 'w) prog" where
  "upload_resume_offset ops up path =
     (if \<not> up_resume up then give 0
      else andthen (local_size ops) (\<lambda>mine.
        andthen (catching (andthen (call (op_stat ops path)) (\<lambda>n. give (Some n)))
                   (\<lambda>e. if is_no_such_file e then give None else throw e))
          (\<lambda>answer.
             case answer of
               None \<Rightarrow> give 0
             | Some None \<Rightarrow> throw (TransferErr (Msg ''resume needs a size'' [BytesArg path]) 0 None (Some path))
             | Some (Some theirs) \<Rightarrow>
                 (if theirs > mine
                  then throw (TransferErr (Msg ''cannot resume: not a prefix'' [BytesArg path, NatArg theirs, NatArg mine])
                                0 (Some (int theirs)) (Some path))
                  else give theirs))))"

definition set_times :: "'w session_ops \<Rightarrow> upload_settings \<Rightarrow> bytes \<Rightarrow> (time_preservation, 'w) prog" where
  "set_times ops up h =
     (if \<not> up_preserve_times up then give TimesSkipped
      else andthen (call (op_local_times ops)) (\<lambda>times.
        catching (andthen (call (op_futime ops h times)) (\<lambda>_. give TimesPreserved))
          (\<lambda>e. if is_server_error e then give TimesUnavailable else throw e)))"

definition flush_upload :: "'w session_ops \<Rightarrow> upload_settings \<Rightarrow> bytes \<Rightarrow> (durability, 'w) prog" where
  "flush_upload ops up h =
     (if \<not> up_fsync up then give DurabilitySkipped
      else andthen (catching (andthen (call (op_fsync_if_supported ops h)) (\<lambda>b. give (Some b)))
             (\<lambda>e. if is_server_error e then (if up_require_fsync up then throw e else give None) else throw e))
        (\<lambda>flushed.
           case flushed of
             None \<Rightarrow> give DurabilityUnavailable
           | Some True \<Rightarrow> give Fsynced
           | Some False \<Rightarrow>
               (if up_require_fsync up then throw (CapabilityErr ''durable upload'') else give DurabilityUnavailable)))"

definition fill_and_close ::
    "'w session_ops \<Rightarrow> upload_settings \<Rightarrow> bytes \<Rightarrow> bytes \<Rightarrow> nat \<Rightarrow> (nat \<times> durability \<times> time_preservation \<times> int option, 'w) prog" where
  "fill_and_close ops up h path start =
     andthen (catching
         (andthen (call (op_upload_from ops h start)) (\<lambda>n.
            andthen (case up_mode up of None \<Rightarrow> give () | Some m \<Rightarrow> call (op_fchmod ops h m)) (\<lambda>_.
              andthen (set_times ops up h) (\<lambda>times.
                andthen (flush_upload ops up h) (\<lambda>durable. give (n, durable, times, up_mode up))))))
         (\<lambda>e. andthen (close_quietly ops h) (\<lambda>_. throw e)))
       (\<lambda>filled. andthen (call (op_close ops h)) (\<lambda>_. give filled))"

definition probe_durability :: "'w session_ops \<Rightarrow> bytes \<Rightarrow> (unit, 'w) prog" where
  "probe_durability ops h =
     andthen (ask (op_supports ops EXTENSION_FSYNC)) (\<lambda>supported.
       if supported then give ()
       else andthen (call (op_fsync_if_supported ops h)) (\<lambda>flushed.
         if \<not> flushed then throw (CapabilityErr ''durable upload'') else give ()))"

section \<open>In place\<close>

definition put_in_place ::
    "'w session_ops \<Rightarrow> (bytes \<Rightarrow> bytes \<Rightarrow> bytes option) \<Rightarrow> upload_settings \<Rightarrow> bytes \<Rightarrow> (upload_result, 'w) prog" where
  "put_in_place ops digest up target =
     andthen (upload_resume_offset ops up target) (\<lambda>start.
     andthen (gate_resume ops digest target start (up_verify up)) (\<lambda>resume_check.
     andthen (open_for_upload ops target (if up_resume up then RESUME_FLAGS else TRUNCATE_FLAGS) (create_bits (up_mode up))) (\<lambda>h.
     andthen (case up_mode up of None \<Rightarrow> give () | Some m \<Rightarrow> call (op_fchmod ops h (m AND CREATE_BITS))) (\<lambda>_.
     andthen (fill_and_close ops up h target start) (\<lambda>(n, durable, times, mode).
     andthen (local_size ops) (\<lambda>expected.
     andthen (confirm_size ops target expected) (\<lambda>sized.
     andthen (verify_content ops digest target expected (up_verify up)) (\<lambda>content.
       give \<lparr>ur_transferred = n, ur_path = target, ur_mechanism = IN_PLACE, ur_durability = durable, ur_size_check = sized,
             ur_times = times, ur_content = content, ur_resume = resume_check, ur_staged = None, ur_mode = mode\<rparr>))))))))"

section \<open>Publishing\<close>

datatype publish_outcome = Published publish_mechanism | OnlyCopy exn bool

definition confirmed_present :: "'w session_ops \<Rightarrow> bytes \<Rightarrow> (bool, 'w) prog" where
  "confirmed_present ops path =
     catching (andthen (call (op_lstat ops path)) (\<lambda>_. give True)) (\<lambda>e. if is_server_error e then give False else throw e)"

definition refuse_unpublishable :: "'w session_ops \<Rightarrow> bytes \<Rightarrow> (unit, 'w) prog" where
  "refuse_unpublishable ops target =
     andthen (confirmed_present ops target) (\<lambda>present.
       if \<not> present then give () else throw (CapabilityErr ''atomic publish''))"

definition publish_by_plain_rename ::
    "'w session_ops \<Rightarrow> bytes \<Rightarrow> bytes \<Rightarrow> bool \<Rightarrow> (publish_outcome, 'w) prog" where
  "publish_by_plain_rename ops staged target require_atomic =
     andthen (catching (andthen (call (op_rename ops staged target)) (\<lambda>_. give True))
        (\<lambda>refusal.
           if \<not> is_server_error refusal then throw refusal
           else andthen (confirmed_present ops target) (\<lambda>present.
             if \<not> present then throw refusal
             else if require_atomic then throw (CapabilityErr ''atomic publish'')
             else give False)))
       (\<lambda>done_already.
          if done_already then give (Published RENAME)
          else andthen (catching (andthen (call (op_remove ops target)) (\<lambda>_. give None))
                  (\<lambda>e. if is_server_error e then throw e else give (Some (OnlyCopy e False))))
            (\<lambda>lost.
               case lost of
                 Some signal \<Rightarrow> give signal
               | None \<Rightarrow>
                   catching (andthen (call (op_rename ops staged target)) (\<lambda>_. give (Published REMOVE_RENAME)))
                     (\<lambda>e. give (OnlyCopy e True))))"

definition publish_staged ::
    "'w session_ops \<Rightarrow> bytes \<Rightarrow> bytes \<Rightarrow> bool \<Rightarrow> (publish_outcome, 'w) prog" where
  "publish_staged ops staged target require_atomic =
     andthen (call (op_posix_rename_if_supported ops staged target)) (\<lambda>supported.
       if supported then give (Published POSIX_RENAME)
       else publish_by_plain_rename ops staged target require_atomic)"

definition open_staging_file :: "'w session_ops \<Rightarrow> bytes \<Rightarrow> bool \<Rightarrow> int option \<Rightarrow> (bytes, 'w) prog" where
  "open_staging_file ops staged resume mode =
     open_for_upload ops staged (if resume then RESUME_FLAGS else STAGE_FLAGS) mode"

text \<open>\<open>_discard\<close>: shielded; a failure to remove becomes a note on the error that led here.\<close>

definition discard :: "'w session_ops \<Rightarrow> bytes \<Rightarrow> (unit, 'w) prog" where
  "discard ops staged = quietly (call (op_remove ops staged))"

section \<open>Atomically\<close>

datatype staged_outcome = Finished upload_result | LeftStaged exn

definition stage_and_publish ::
    "'w session_ops \<Rightarrow> (bytes \<Rightarrow> bytes \<Rightarrow> bytes option) \<Rightarrow> upload_settings \<Rightarrow> bytes \<Rightarrow> bytes \<Rightarrow> bool \<Rightarrow> nat \<Rightarrow> resume_check \<Rightarrow> bytes \<Rightarrow>
     (staged_outcome, 'w) prog" where
  "stage_and_publish ops digest up target staged require_atomic start resume_check h =
     andthen (if up_require_fsync up then probe_durability ops h else give ()) (\<lambda>_.
     andthen (fill_and_close ops up h staged start) (\<lambda>(n, durable, times, mode).
     andthen (local_size ops) (\<lambda>expected.
     andthen (confirm_size ops staged expected) (\<lambda>sized.
     andthen (verify_content ops digest staged expected (up_verify up)) (\<lambda>content.
     andthen (publish_staged ops staged target require_atomic) (\<lambda>outcome.
       give (case outcome of
               OnlyCopy e _ \<Rightarrow> LeftStaged e
             | Published mechanism \<Rightarrow>
                 Finished \<lparr>ur_transferred = n, ur_path = target, ur_mechanism = mechanism, ur_durability = durable,
                   ur_size_check = sized, ur_times = times, ur_content = content, ur_resume = resume_check,
                   ur_staged = Some staged, ur_mode = mode\<rparr>)))))))"

definition put_atomically ::
    "'w session_ops \<Rightarrow> (bytes \<Rightarrow> bytes \<Rightarrow> bytes option) \<Rightarrow> upload_settings \<Rightarrow> bytes \<Rightarrow> bytes \<Rightarrow> bool \<Rightarrow> bool \<Rightarrow> (upload_result, 'w) prog" where
  "put_atomically ops digest up target staged require_atomic journalled =
     andthen (ask (op_supports ops EXTENSION_POSIX_RENAME)) (\<lambda>supported.
     andthen (if require_atomic \<and> \<not> supported then refuse_unpublishable ops target else give ()) (\<lambda>_.
     andthen (if journalled then call (op_staging ops staged target) else give ()) (\<lambda>_.
     andthen (upload_resume_offset ops up staged) (\<lambda>start.
     andthen (gate_resume ops digest staged start (up_verify up)) (\<lambda>resume_check.
     andthen (open_staging_file ops staged (up_resume up) (create_bits (up_mode up))) (\<lambda>h.
     andthen (catching (stage_and_publish ops digest up target staged require_atomic start resume_check h)
        (\<lambda>e. andthen (discard ops staged) (\<lambda>_.
               andthen (if journalled then call (op_published ops target) else give ()) (\<lambda>_. throw e))))
       (\<lambda>outcome.
          case outcome of
            LeftStaged e \<Rightarrow> throw e
          | Finished result \<Rightarrow>
              andthen (if journalled then call (op_published ops target) else give ()) (\<lambda>_. give result))))))))"

end
