(* ===== verification/PutLaws.thy ===== *)
theory PutLaws
  imports Put
begin

text \<open>
  What the steps of an upload do to the server's files, when the session is honest. Everything that
  only asks is quiet; opening, uploading, renaming and removing are followed one by one.
\<close>

section \<open>Steps that only ask\<close>

lemma quiet_iff_runs: "quiet f m \<longleftrightarrow> (\<forall>c. runs (\<lambda>w. f w = c) (\<lambda>w. f w = c) m (\<lambda>_ w. f w = c) (\<lambda>_ w. f w = c))"
proof
  assume q: "quiet f m"
  show "\<forall>c. runs (\<lambda>w. f w = c) (\<lambda>w. f w = c) m (\<lambda>_ w. f w = c) (\<lambda>_ w. f w = c)"
    by (intro allI runs_quiet [OF q]) simp_all
next
  assume r: "\<forall>c. runs (\<lambda>w. f w = c) (\<lambda>w. f w = c) m (\<lambda>_ w. f w = c) (\<lambda>_ w. f w = c)"
  show "quiet f m"
  proof (rule quietI)
    fix w r w' t assume m: "m w = (r, w', t)"
    from runsD [OF r [rule_format, of "f w"] refl m]
    show "f w' = f w \<and> list_all (\<lambda>v. f v = f w) t" by (cases r) simp_all
  qed
qed

lemma quiet_retrying:
  assumes "quiet f m" "\<And>d w c w'. op_sleep ops d w = (c, w') \<Longrightarrow> f w' = f w"
  shows "quiet f (retrying ops m)"
  unfolding quiet_iff_runs
proof (intro allI runs_retrying)
  fix c show "runs (\<lambda>w. f w = c) (\<lambda>w. f w = c) m (\<lambda>_ w. f w = c) (\<lambda>_ w. f w = c)"
    using assms(1) unfolding quiet_iff_runs by blast
qed (use assms(2) in auto)

lemma quiet_option [quiet_rules]:
  "quiet f n \<Longrightarrow> (\<And>x. quiet f (s x)) \<Longrightarrow> quiet f (case o' of None \<Rightarrow> n | Some x \<Rightarrow> s x)"
  by (cases o') simp_all

lemma quiet_bool [quiet_rules]:
  "quiet f a \<Longrightarrow> quiet f b \<Longrightarrow> quiet f (case x of True \<Rightarrow> a | False \<Rightarrow> b)"
  by (cases x) simp_all

lemma quiet_sum [quiet_rules]:
  "(\<And>e. quiet f (a e)) \<Longrightarrow> (\<And>y. quiet f (b y)) \<Longrightarrow> quiet f (case x of Inl e \<Rightarrow> a e | Inr y \<Rightarrow> b y)"
  by (cases x) simp_all

lemma quiet_prod [quiet_rules]: "(\<And>a b. quiet f (g a b)) \<Longrightarrow> quiet f (case x of (a, b) \<Rightarrow> g a b)"
  by (cases x) simp

abbreviation held :: "('w \<Rightarrow> store) \<Rightarrow> 'w \<Rightarrow> bytes \<Rightarrow> bytes option" where "held view w \<equiv> files (view w)"

lemma honest_quiet:
  assumes "honest ops view content"
  shows "quiet view (call (op_stat ops p))" "quiet view (call (op_lstat ops p))" "quiet view (call (op_fchmod ops h m))"
    "quiet view (call (op_futime ops h ts))" "quiet view (call (op_fsync_if_supported ops h))" "quiet view (call (op_check_file ops h s l b))"
    "quiet view (call (op_close ops h))" "quiet view (call (op_local_stat ops))" "quiet view (call (op_local_times ops))"
    "quiet view (call (op_local_bytes ops))" "quiet view (call (op_staging ops a b'))" "quiet view (call (op_published ops b'))"
    "quiet view (call (op_download_into ops h l 0))"
proof -
  have "keeps view (op_download_into ops h l 0)" using honestD(8) [OF assms] by (simp add: download_ok_def)
  then show "quiet view (call (op_download_into ops h l 0))" by (rule quiet_keeps)
qed (rule quiet_answers [OF honestD(1) [OF assms]]
    quiet_keeps [OF honestD(2) [OF assms]]
    quiet_keeps [OF honestD(4) [OF assms]]
    quiet_keeps [OF honestD(5) [OF assms]]
    quiet_keeps [OF honestD(6) [OF assms]]
    quiet_keeps [OF honestD(9) [OF assms]]
    quiet_keeps [OF honestD(10) [OF assms]]
    quiet_answers [OF honestD(15) [OF assms]]
    quiet_keeps [OF honestD(16) [OF assms]]
    quiet_answers [OF honestD(17) [OF assms]]
    quiet_keeps [OF honestD(18) [OF assms]]
    quiet_keeps [OF honestD(19) [OF assms]])+

lemmas honest_quiet_files = honest_quiet [THEN quiet_files]

lemma quiet_open_for_read:
  assumes "honest ops view content" shows "quiet (held view) (opening_for_read ops p)"
  unfolding opening_for_read_def
proof (rule quiet_retrying)
  have unchanged: "opened_as OPEN_READ old = old" for old
    by (cases old) (simp_all add: opened_as_def OPEN_READ_def OPEN_CREAT_def OPEN_TRUNC_def)
  show "quiet (held view) (call (op_open ops p OPEN_READ None))"
  proof (rule quiet_call)
    fix w r w' assume "op_open ops p OPEN_READ None w = (r, w')"
    note opened = open_okD [OF honestD(3) [OF assms] this]
    show "held view w' = held view w"
      by (cases r) (use opened(1,5) in \<open>auto simp: unchanged\<close>)
  qed
qed (use honestD(14) [OF assms] in auto)

lemma quiet_close_quietly:
  assumes "honest ops view content" shows "quiet view (close_quietly ops h)"
  unfolding close_quietly_def by (intro quiet_rules honest_quiet [OF assms])

lemma quiet_local_size: "honest ops view content \<Longrightarrow> quiet view (local_size ops)"
  unfolding local_size_def by (intro quiet_rules honest_quiet)

lemma quiet_confirm_size: "honest ops view content \<Longrightarrow> quiet view (confirm_size ops p n)"
  unfolding confirm_size_def by (intro quiet_rules honest_quiet)

lemma quiet_resume_offset: "honest ops view content \<Longrightarrow> quiet view (upload_resume_offset ops up p)"
  unfolding upload_resume_offset_def by (intro quiet_rules quiet_local_size honest_quiet)

lemma quiet_set_times: "honest ops view content \<Longrightarrow> quiet view (set_times ops up h)"
  unfolding set_times_def by (intro quiet_rules honest_quiet)

lemma quiet_flush: "honest ops view content \<Longrightarrow> quiet view (flush_upload ops up h)"
  unfolding flush_upload_def by (intro quiet_rules honest_quiet)

lemma quiet_probe: "honest ops view content \<Longrightarrow> quiet view (probe_durability ops h)"
  unfolding probe_durability_def by (intro quiet_rules honest_quiet)

lemma quiet_present: "honest ops view content \<Longrightarrow> quiet view (confirmed_present ops p)"
  unfolding confirmed_present_def by (intro quiet_rules honest_quiet)

lemma quiet_refuse: "honest ops view content \<Longrightarrow> quiet view (refuse_unpublishable ops p)"
  unfolding refuse_unpublishable_def by (intro quiet_rules quiet_present)

lemma quiet_hashes_agree:
  assumes "honest ops view content" shows "quiet (held view) (hashes_agree ops digest p s l)"
  unfolding hashes_agree_def
  by (intro quiet_rules honest_quiet_files [OF assms] quiet_open_for_read [OF assms] quiet_close_quietly [OF assms, THEN quiet_files])

lemma quiet_reread_agrees:
  assumes "honest ops view content" shows "quiet (held view) (reread_agrees ops p 0 l)"
  unfolding reread_agrees_def
  by (intro quiet_rules honest_quiet_files [OF assms] quiet_open_for_read [OF assms] quiet_close_quietly [OF assms, THEN quiet_files])

lemma quiet_gate_resume:
  assumes "honest ops view content" shows "quiet (held view) (gate_resume ops digest p n v)"
  unfolding gate_resume_def
  by (intro quiet_rules quiet_reread_agrees [OF assms] quiet_hashes_agree [OF assms])

lemma quiet_verify_content:
  assumes "honest ops view content" shows "quiet (held view) (verify_content ops digest p n v)"
  unfolding verify_content_def verifying_def Let_def
  by (cases v) (auto intro!: quiet_rules quiet_reread_agrees [OF assms] quiet_hashes_agree [OF assms])

section \<open>Steps that change files\<close>

lemma runs_hold:
  assumes "quiet (held view) m" "\<And>w. \<phi> (held view w) \<Longrightarrow> I w"
  shows "runs I (\<lambda>w. \<phi> (held view w)) m (\<lambda>_ w. \<phi> (held view w)) (\<lambda>_ w. \<phi> (held view w))"
  by (rule runs_quiet [OF assms]) auto

text \<open>A quiet step may say something more of its outcome.\<close>

lemma runs_hold_more:
  assumes "quiet (held view) m" "\<And>w. \<phi> (held view w) \<Longrightarrow> I w" "runs (\<lambda>_. True) (\<lambda>w. \<phi> (held view w)) m Q (\<lambda>_ _. True)"
  shows "runs I (\<lambda>w. \<phi> (held view w)) m (\<lambda>x w. \<phi> (held view w) \<and> Q x w) (\<lambda>_ w. \<phi> (held view w))"
  using runs_quiet_more [OF assms(1,2) _ assms(3)] by (rule runs_weaken) auto

text \<open>Everything but the files named is as it was.\<close>

definition others :: "(bytes \<Rightarrow> bytes option) \<Rightarrow> bytes set \<Rightarrow> (bytes \<Rightarrow> bytes option) \<Rightarrow> bool" where
  "others fs S fs' \<longleftrightarrow> (\<forall>p. p \<notin> S \<longrightarrow> fs' p = fs p)"

lemma others_refl [simp]: "others fs S fs"
  by (simp add: others_def)

lemma others_update: "p \<in> S \<Longrightarrow> others fs S (fs'(p := x)) \<longleftrightarrow> others fs S fs'"
  by (auto simp: others_def)

lemma stage_flags: "STAGE_FLAGS AND OPEN_EXCL \<noteq> 0" "STAGE_FLAGS AND OPEN_CREAT \<noteq> 0"
  by (simp_all add: STAGE_FLAGS_def OPEN_WRITE_def OPEN_CREAT_def OPEN_EXCL_def)

lemma runs_open_staging:
  assumes "honest ops view content" "\<And>w. others F {staged} (held view w) \<Longrightarrow> I w"
  shows "runs I (\<lambda>w. others F {staged} (held view w)) (open_staging_file ops staged False mode)
    (\<lambda>h w. held view w = F(staged := Some []) \<and> names (view w) h = Some staged) (\<lambda>_ w. others F {staged} (held view w))"
  unfolding open_staging_file_def open_for_upload_def if_False
proof (rule runs_retrying)
  show "runs I (\<lambda>w. others F {staged} (held view w)) (call (op_open ops staged STAGE_FLAGS mode))
    (\<lambda>h w. held view w = F(staged := Some []) \<and> names (view w) h = Some staged) (\<lambda>_ w. others F {staged} (held view w))"
  proof (rule runs_call)
    fix w r w' assume P: "others F {staged} (held view w)" and f: "op_open ops staged STAGE_FLAGS mode w = (r, w')"
    note opened = open_okD [OF honestD(3) [OF assms(1)] f]
    show "I w' \<and> (case r of Inl e \<Rightarrow> others F {staged} (held view w')
        | Inr h \<Rightarrow> held view w' = F(staged := Some []) \<and> names (view w') h = Some staged)"
    proof (cases r)
      case (Inl e)
      then have "others F {staged} (held view w')" using P opened(5) by (auto simp: others_def)
      then show ?thesis using Inl assms(2) by simp
    next
      case (Inr h)
      have "held view w staged = None" using opened(4) Inr stage_flags(1) by blast
      then have "held view w' = (held view w)(staged := Some [])"
        using opened(1) Inr stage_flags(2) by (simp add: opened_as_def)
      moreover have "(held view w)(staged := Some []) = F(staged := Some [])"
        using P by (auto simp: others_def)
      ultimately show ?thesis using opened(3) Inr assms(2) [of w'] by (simp add: others_update)
    qed
  qed
next
  fix d w c w' e assume "op_sleep ops d w = (c, w')" "others F {staged} (held view w)"
  then show "others F {staged} (held view w') \<and> others F {staged} (held view w')"
    using honestD(14) [OF assms(1)] by metis
qed simp

lemma flush_durable:
  "runs (\<lambda>_. True) P (flush_upload ops up h) (\<lambda>d _. up_fsync up \<and> up_require_fsync up \<longrightarrow> d = Fsynced) (\<lambda>_ _. True)"
proof (cases "up_fsync up \<and> up_require_fsync up")
  case False
  then show ?thesis by (auto simp: runs_def list_all_iff split: sum.splits)
next
  case True
  then show ?thesis unfolding flush_upload_def
    by (auto simp: runs_def andthen_def catching_def call_def give_def throw_def split: prod.splits sum.splits option.splits bool.splits if_splits)
qed

lemma runs_fill:
  assumes H: "honest ops view content" and I: "\<And>w. others F {staged} (held view w) \<Longrightarrow> I w" and c0: "length c0 \<le> length content"
    and c1: "c1 = c0 @ drop (length c0) content"
  shows "runs I (\<lambda>w. held view w = F(staged := Some c0) \<and> names (view w) h = Some staged) (fill_and_close ops up h staged (length c0))
    (\<lambda>(n, d, ts, m) w. held view w = F(staged := Some c1) \<and> n = length content - length c0 \<and>
       (up_fsync up \<and> up_require_fsync up \<longrightarrow> d = Fsynced) \<and> m = up_mode up)
    (\<lambda>_ w. others F {staged} (held view w))"
proof -
  let ?P = "\<lambda>w. held view w = F(staged := Some c0) \<and> names (view w) h = Some staged"
  let ?C = "\<lambda>w. held view w = F(staged := Some c1)"
  let ?Q = "\<lambda>(n, d, ts :: time_preservation, m) w. ?C w \<and> n = length content - length c0 \<and> (up_fsync up \<and> up_require_fsync up \<longrightarrow> d = Fsynced) \<and> m = up_mode up"
  let ?E = "\<lambda>(_ :: exn) w. others F {staged} (held view w)"
  have CI: "I w" if "?C w" for w using I that by (simp add: others_update)
  have C_E: "?E e w" if "?C w" for e w using that by (simp add: others_update)
  have quiet: "runs I ?C m (\<lambda>_. ?C) ?E" if "quiet view m" for m
    by (rule runs_weaken [OF runs_hold [OF quiet_files [OF that], where \<phi> = "\<lambda>fs. fs = F(staged := Some c1)"]])
      (use CI C_E in auto)
  have mode: "quiet view (case up_mode up of None \<Rightarrow> give () | Some m \<Rightarrow> call (op_fchmod ops h m))"
    by (intro quiet_rules honest_quiet [OF H])
  have flush: "runs I ?C (flush_upload ops up h) (\<lambda>d w. ?C w \<and> (up_fsync up \<and> up_require_fsync up \<longrightarrow> d = Fsynced)) ?E"
    by (rule runs_weaken [OF runs_hold_more [OF quiet_files [OF quiet_flush [OF H]], where \<phi> = "\<lambda>fs. fs = F(staged := Some c1)",
          OF _ flush_durable]]) (use CI C_E in auto)
  have upload: "runs I ?P (call (op_upload_from ops h (length c0))) (\<lambda>n w. ?C w \<and> n = length content - length c0) ?E"
  proof (rule runs_call)
    fix w r w' assume P: "?P w" and f: "op_upload_from ops h (length c0) w = (r, w')"
    note up = honestD(7) [OF H, unfolded upload_ok_def, rule_format, OF f conjunct2 [OF P]]
    have whole: "take (length c0) c0 @ drop (length c0) content @ drop (length content) c0 = c1"
      using c0 by (simp add: c1)
    have o': "others F {staged} (held view w')" using up P by (auto simp: others_def)
    have "?C w' \<and> n = length content - length c0" if "r = Inr n" for n
      using up P that o' whole by (auto simp: others_def)
    then show "I w' \<and> (case r of Inl e \<Rightarrow> ?E e w' | Inr n \<Rightarrow> ?C w' \<and> n = length content - length c0)"
      using o' I by (cases r) simp_all
  qed
  have tail: "runs I (\<lambda>w. ?C w \<and> n = length content - length c0) (andthen (case up_mode up of None \<Rightarrow> give () | Some m \<Rightarrow> call (op_fchmod ops h m))
        (\<lambda>_. andthen (set_times ops up h) (\<lambda>ts. andthen (flush_upload ops up h) (\<lambda>d. give (n, d, ts, up_mode up))))) ?Q ?E" for n
  proof (rule runs_fact [where b = "n = length content - length c0"], simp)
    assume n: "n = length content - length c0"
    have "runs I ?C (andthen (case up_mode up of None \<Rightarrow> give () | Some m \<Rightarrow> call (op_fchmod ops h m))
        (\<lambda>_. andthen (set_times ops up h) (\<lambda>ts. andthen (flush_upload ops up h) (\<lambda>d. give (n, d, ts, up_mode up))))) ?Q ?E"
      by (rule runs_andthen [OF quiet [OF mode]], rule runs_andthen [OF quiet [OF quiet_set_times [OF H]]],
          rule runs_andthen [OF flush], rule runs_give) (use n in auto)
    then show ?thesis by (rule runs_weaken) auto
  qed
  have body: "runs I ?P (andthen (call (op_upload_from ops h (length c0))) (\<lambda>n. andthen (case up_mode up of None \<Rightarrow> give () | Some m \<Rightarrow> call (op_fchmod ops h m))
        (\<lambda>_. andthen (set_times ops up h) (\<lambda>ts. andthen (flush_upload ops up h) (\<lambda>d. give (n, d, ts, up_mode up)))))) ?Q ?E"
    by (rule runs_andthen [OF upload tail])
  have close: "runs I (?E e) (andthen (close_quietly ops h) (\<lambda>_. throw e)) ?Q ?E" for e
    by (rule runs_andthen [OF runs_hold [OF quiet_files [OF quiet_close_quietly [OF H]], where \<phi> = "others F {staged}"]])
      (use I in \<open>auto intro: runs_throw\<close>)
  have "runs I (?Q x) (andthen (call (op_close ops h)) (\<lambda>_. give x)) ?Q ?E" for x
  proof (cases x)
    case (fields n d ts m)
    show ?thesis
      by (rule runs_fact [where b = "n = length content - length c0 \<and> (up_fsync up \<and> up_require_fsync up \<longrightarrow> d = Fsynced) \<and> m = up_mode up"], simp add: fields,
          rule runs_weaken [OF runs_andthen [OF quiet [OF honest_quiet(7) [OF H]]], where Q' = ?Q],
          rule runs_give) (auto simp: fields)
  qed
  then show ?thesis unfolding fill_and_close_def
    by (intro runs_andthen [where R = ?Q] runs_catching [where R = ?E] body close)
qed

section \<open>Adopting what is there\<close>

lemma runs_reread:
  fixes view :: "'w \<Rightarrow> store"
  assumes H: "honest ops view content"
  shows "runs (\<lambda>_. True) (\<lambda>w. held view w = F) (reread_agrees ops p 0 n)
    (\<lambda>b w. b \<longrightarrow> n = 0 \<or> (\<exists>c. F p = Some c \<and> take n c = take n content)) (\<lambda>_ _. True)"
proof (cases "n = 0")
  case True
  then show ?thesis by (auto simp: reread_agrees_def intro: runs_give)
next
  case False
  let ?F = "\<lambda>w. held view w = F"
  have unchanged: "opened_as OPEN_READ old = old" for old
    by (cases old) (simp_all add: opened_as_def OPEN_READ_def OPEN_CREAT_def OPEN_TRUNC_def)
  have open': "runs (\<lambda>_. True) ?F (opening_for_read ops p) (\<lambda>h w. ?F w \<and> names (view w) h = Some p \<and> F p \<noteq> None) (\<lambda>_. ?F)"
    unfolding opening_for_read_def
  proof (rule runs_retrying)
    show "runs (\<lambda>_. True) ?F (call (op_open ops p OPEN_READ None)) (\<lambda>h w. ?F w \<and> names (view w) h = Some p \<and> F p \<noteq> None) (\<lambda>_. ?F)"
    proof (rule runs_call)
      fix w r w' assume P: "?F w" and f: "op_open ops p OPEN_READ None w = (r, w')"
      note opened = open_okD [OF honestD(3) [OF H] f]
      show "True \<and> (case r of Inl e \<Rightarrow> ?F w' | Inr h \<Rightarrow> ?F w' \<and> names (view w') h = Some p \<and> F p \<noteq> None)"
        using P opened(1,2,3,5) by (cases r) (auto simp: unchanged)
    qed
  next
    fix d w c w' e assume "op_sleep ops d w = (c, w')" "?F w"
    then show "?F w' \<and> ?F w'" using honestD(14) [OF H] by metis
  qed simp
  have body: "runs (\<lambda>_. True) (\<lambda>w. ?F w \<and> names (view w) h = Some p \<and> F p \<noteq> None)
      (andthen (call (op_download_into ops h (0 + n) 0)) (\<lambda>scratch. andthen (call (op_local_bytes ops)) (\<lambda>mine.
         case ranges_equal scratch mine 0 n CHECK_FILE_BLOCK_SIZE of Inl e \<Rightarrow> throw e | Inr same \<Rightarrow> give same)))
      (\<lambda>b w. b \<longrightarrow> n = 0 \<or> (\<exists>c. F p = Some c \<and> take n c = take n content)) (\<lambda>_ _. True)" for h
  proof (rule runs_andthen)
    show "runs (\<lambda>_. True) (\<lambda>w. ?F w \<and> names (view w) h = Some p \<and> F p \<noteq> None) (call (op_download_into ops h (0 + n) 0))
        (\<lambda>scratch _. \<exists>c. F p = Some c \<and> scratch = take n c) (\<lambda>_ _. True)"
      using honestD(8) [OF H, of h n] by (intro runs_call) (fastforce simp: download_ok_def split: sum.splits)
    show "runs (\<lambda>_. True) (\<lambda>_. \<exists>c. F p = Some c \<and> scratch = take n c) (andthen (call (op_local_bytes ops)) (\<lambda>mine.
         case ranges_equal scratch mine 0 n CHECK_FILE_BLOCK_SIZE of Inl e \<Rightarrow> throw e | Inr same \<Rightarrow> give same))
        (\<lambda>b w. b \<longrightarrow> n = 0 \<or> (\<exists>c. F p = Some c \<and> take n c = take n content)) (\<lambda>_ _. True)" for scratch
    proof (rule runs_fact)
      assume "\<exists>c. F p = Some c \<and> scratch = take n c"
      then show ?thesis
        by (intro runs_andthen [OF runs_answers [OF honestD(17) [OF H]]]) (auto simp: ranges_equal_iff intro!: runs_give)
    qed simp
  qed
  have closed: "runs (\<lambda>_. True) (\<lambda>w. ?F w \<and> names (view w) h = Some p \<and> F p \<noteq> None) (ensuring
      (andthen (call (op_download_into ops h (0 + n) 0)) (\<lambda>scratch. andthen (call (op_local_bytes ops)) (\<lambda>mine.
         case ranges_equal scratch mine 0 n CHECK_FILE_BLOCK_SIZE of Inl e \<Rightarrow> throw e | Inr same \<Rightarrow> give same)))
      (close_quietly ops h)) (\<lambda>b w. b \<longrightarrow> n = 0 \<or> (\<exists>c. F p = Some c \<and> take n c = take n content)) (\<lambda>_ _. True)" for h
    by (rule runs_ensuring [OF body]) (auto simp: runs_def list_all_iff split: sum.splits)
  have opened: "runs (\<lambda>_. True) ?F (opening_for_read ops p) (\<lambda>h w. ?F w \<and> names (view w) h = Some p \<and> F p \<noteq> None) (\<lambda>_ _. True)"
    by (rule runs_weaken [OF open']) auto
  show ?thesis unfolding reread_agrees_def if_not_P [OF False]
    by (rule runs_andthen [OF opened closed])
qed

text \<open>What a resumed upload adopts is what the server holds, no longer than the local file.\<close>

definition adopted_ok :: "bytes option \<Rightarrow> bytes \<Rightarrow> nat \<Rightarrow> bool" where
  "adopted_ok old content n \<longleftrightarrow> (case old of None \<Rightarrow> n = 0 | Some c \<Rightarrow> n = length c \<and> n \<le> length content)"

lemma resume_offset_adopts:
  assumes H: "honest ops view content" and "up_resume up"
  shows "runs (\<lambda>_. True) (\<lambda>w. held view w = F) (upload_resume_offset ops up p) (\<lambda>n w. adopted_ok (F p) content n) (\<lambda>_ _. True)"
proof -
  let ?F = "\<lambda>w. held view w = F"
  have size': "runs (\<lambda>_. True) ?F (local_size ops) (\<lambda>n w. ?F w \<and> n \<le> length content) (\<lambda>_ _. True)"
    unfolding local_size_def
  proof (rule runs_catching [where R = "\<lambda>_. ?F"])
    show "runs (\<lambda>_. True) ?F (call (op_local_stat ops)) (\<lambda>n w. ?F w \<and> n \<le> length content) (\<lambda>_. ?F)"
      using honestD(15) [OF H] by (intro runs_call) (fastforce simp: answers_def keeps_def split: sum.splits)
  qed (auto intro!: runs_if runs_give runs_throw)
  have stat': "runs (\<lambda>_. True) (\<lambda>w. ?F w \<and> mine \<le> length content)
      (catching (andthen (call (op_stat ops p)) (\<lambda>n. give (Some n))) (\<lambda>e. if is_no_such_file e then give None else throw e))
      (\<lambda>answer w. mine \<le> length content \<and> (case answer of None \<Rightarrow> F p = None | Some None \<Rightarrow> True | Some (Some n) \<Rightarrow> \<exists>c. F p = Some c \<and> n = length c))
      (\<lambda>_ _. True)" for mine
  proof (rule runs_catching [where R = "\<lambda>e _. mine \<le> length content \<and> (is_no_such_file e \<longrightarrow> F p = None)"])
    show "runs (\<lambda>_. True) (\<lambda>w. ?F w \<and> mine \<le> length content) (andthen (call (op_stat ops p)) (\<lambda>n. give (Some n)))
      (\<lambda>answer w. mine \<le> length content \<and> (case answer of None \<Rightarrow> F p = None | Some None \<Rightarrow> True | Some (Some n) \<Rightarrow> \<exists>c. F p = Some c \<and> n = length c))
      (\<lambda>e _. mine \<le> length content \<and> (is_no_such_file e \<longrightarrow> F p = None))"
    proof (rule runs_andthen)
      show "runs (\<lambda>_. True) (\<lambda>w. ?F w \<and> mine \<le> length content) (call (op_stat ops p))
          (\<lambda>n _. mine \<le> length content \<and> (case n of None \<Rightarrow> True | Some n \<Rightarrow> \<exists>c. F p = Some c \<and> n = length c))
          (\<lambda>e _. mine \<le> length content \<and> (is_no_such_file e \<longrightarrow> F p = None))"
        using honestD(1) [OF H, of p] honestD(20) [OF H, of p]
        by (intro runs_call) (fastforce simp: answers_def split: sum.splits option.splits)
    qed (auto intro!: runs_give split: option.splits)
  qed (auto intro!: runs_if runs_give runs_throw)
  show ?thesis unfolding upload_resume_offset_def
    by (simp add: assms(2), rule runs_andthen [OF size'], rule runs_andthen [OF stat'])
      (auto simp: adopted_ok_def split: option.splits intro!: runs_give runs_throw runs_if)
qed

lemma gate_reread:
  assumes H: "honest ops view content"
  shows "runs (\<lambda>_. True) (\<lambda>w. held view w = F) (gate_resume ops digest p n VerifyReread)
    (\<lambda>_ w. n = 0 \<or> (\<exists>c. F p = Some c \<and> take n c = take n content)) (\<lambda>_ _. True)"
proof (cases "n = 0")
  case True
  then show ?thesis by (auto simp: gate_resume_def intro: runs_give)
next
  case False
  let ?same = "\<exists>c. F p = Some c \<and> take n c = take n content"
  have asked: "runs (\<lambda>_. True) (\<lambda>w. held view w = F) (andthen (reread_agrees ops p 0 n) (\<lambda>b. give (Some b)))
      (\<lambda>agreed w. case agreed of Some b \<Rightarrow> b \<longrightarrow> ?same | None \<Rightarrow> False) (\<lambda>_ _. True)"
    by (rule runs_andthen [OF runs_reread [OF H]], rule runs_give) (use False in auto)
  have "runs (\<lambda>_. True) (\<lambda>w. case agreed of Some b \<Rightarrow> b \<longrightarrow> ?same | None \<Rightarrow> False)
      (case agreed of None \<Rightarrow> give ResumeUnavailable
        | Some False \<Rightarrow> throw (TransferErr (Msg ''cannot resume'' [NatArg n, BytesArg p]) 0 (Some (int n)) (Some p))
        | Some True \<Rightarrow> give ResumeMatched) (\<lambda>_ w. n = 0 \<or> ?same) (\<lambda>_ _. True)" for agreed
    by (cases agreed) (auto split: bool.splits intro!: runs_give runs_throw)
  then show ?thesis unfolding gate_resume_def using False
    by (simp only: if_False if_True refl, intro runs_andthen [OF asked])
qed

lemma resume_flags: "opened_as RESUME_FLAGS None = Some []" "opened_as RESUME_FLAGS (Some c) = Some c"
  by (simp_all add: opened_as_def RESUME_FLAGS_def OPEN_WRITE_def OPEN_CREAT_def OPEN_TRUNC_def)

lemma runs_open_resumed:
  assumes H: "honest ops view content" and I: "\<And>w. others F {staged} (held view w) \<Longrightarrow> I w"
    and c0: "F staged = Some c0 \<or> F staged = None \<and> c0 = []"
  shows "runs I (\<lambda>w. held view w = F) (open_staging_file ops staged True mode)
    (\<lambda>h w. held view w = F(staged := Some c0) \<and> names (view w) h = Some staged) (\<lambda>_ w. others F {staged} (held view w))"
proof -
  let ?P = "\<lambda>w. held view w = F \<or> held view w = F(staged := Some c0)"
  have P: "others F {staged} (held view w)" if "?P w" for w using that by (auto simp: others_update)
  have "runs I ?P (open_staging_file ops staged True mode)
      (\<lambda>h w. held view w = F(staged := Some c0) \<and> names (view w) h = Some staged) (\<lambda>_. ?P)"
    unfolding open_staging_file_def open_for_upload_def if_True
  proof (rule runs_retrying)
    show "runs I ?P (call (op_open ops staged RESUME_FLAGS mode))
      (\<lambda>h w. held view w = F(staged := Some c0) \<and> names (view w) h = Some staged) (\<lambda>_. ?P)"
    proof (rule runs_call)
      fix w r w' assume now: "?P w" and f: "op_open ops staged RESUME_FLAGS mode w = (r, w')"
      note opened = open_okD [OF honestD(3) [OF H] f]
      have next_file: "(held view w)(staged := opened_as RESUME_FLAGS (held view w staged)) = F(staged := Some c0)"
        using now c0 by (auto simp: resume_flags)
      have "?P w'" using opened(1,5) now next_file by (cases r) auto
      then show "I w' \<and> (case r of Inl e \<Rightarrow> ?P w' | Inr h \<Rightarrow> held view w' = F(staged := Some c0) \<and> names (view w') h = Some staged)"
        using I P opened(1,3) next_file by (cases r) auto
    qed
  next
    fix d w c w' e assume "op_sleep ops d w = (c, w')" "?P w"
    then show "?P w' \<and> ?P w'" using honestD(14) [OF H] by metis
  qed simp
  then show ?thesis by (rule runs_weaken) (use P in auto)
qed

end
