(* ===== verification/PublishLaws.thy ===== *)
theory PublishLaws
  imports PutLaws
begin

text \<open>
  What an atomic upload does to the destination, at every moment of it: staging, checking and
  publishing put together, with the cleanup of every failure.
\<close>

section \<open>Publishing a staged file\<close>

text \<open>
  The files once the destination holds what was staged, and in the window of the fallback in which
  it holds nothing.
\<close>

definition replaced :: "bytes \<Rightarrow> bytes \<Rightarrow> bytes \<Rightarrow> (bytes \<Rightarrow> bytes option) \<Rightarrow> bytes \<Rightarrow> bytes option" where
  "replaced staged target content F = F(staged := None, target := Some content)"

definition window :: "bytes \<Rightarrow> bytes \<Rightarrow> bytes \<Rightarrow> (bytes \<Rightarrow> bytes option) \<Rightarrow> bytes \<Rightarrow> bytes option" where
  "window staged target content F = F(staged := Some content, target := None)"

lemma renamed_staged:
  assumes "staged \<noteq> target"
  shows "renamed staged target (F(staged := Some content)) = replaced staged target content F"
    "renamed staged target (window staged target content F) = replaced staged target content F"
    "removed target (F(staged := Some content)) = window staged target content F"
  using assms by (auto simp: renamed_def removed_def replaced_def window_def)

lemma performsD:
  assumes "performs view f g" "f w = (r, w')"
  shows "r = Inr x \<Longrightarrow> files (view w') = g (files (view w))"
    "r = Inl e \<Longrightarrow> is_server_error e \<Longrightarrow> files (view w') = files (view w)"
    "r = Inl e \<Longrightarrow> files (view w') = files (view w) \<or> files (view w') = g (files (view w))"
  using assms(1) [unfolded performs_def, rule_format, OF assms(2)] by auto

text \<open>A request that changes the files, when both what it may leave satisfy the invariant.\<close>

lemma runs_performs:
  assumes "performs view f g" "\<And>w. held view w = A \<or> held view w = g A \<Longrightarrow> I w"
  shows "runs I (\<lambda>w. held view w = A) (call f) (\<lambda>_ w. held view w = g A)
    (\<lambda>e w. held view w = A \<or> \<not> is_server_error e \<and> held view w = g A)"
proof (rule runs_call)
  fix w r w' assume "held view w = A" "f w = (r, w')"
  note f = performsD [OF assms(1) this(2)] this(1)
  have "held view w' = A \<or> held view w' = g A" using f by (cases r) auto
  then show "I w' \<and> (case r of Inl e \<Rightarrow> held view w' = A \<or> \<not> is_server_error e \<and> held view w' = g A | Inr _ \<Rightarrow> held view w' = g A)"
    using assms(2) f by (cases r) auto
qed

lemma runs_posix_rename:
  assumes "posix_rename_ok view f staged target" "staged \<noteq> target"
    "\<And>w. held view w = F(staged := Some content) \<or> held view w = replaced staged target content F \<Longrightarrow> I w"
  shows "runs I (\<lambda>w. held view w = F(staged := Some content)) (call f)
    (\<lambda>done' w. held view w = (if done' then replaced staged target content F else F(staged := Some content)))
    (\<lambda>_ w. held view w = F(staged := Some content) \<or> held view w = replaced staged target content F)"
proof (rule runs_call)
  fix w r w' assume P: "held view w = F(staged := Some content)" and f: "f w = (r, w')"
  note f = assms(1) [unfolded posix_rename_ok_def, rule_format, OF f]
  then have "held view w' = F(staged := Some content) \<or> held view w' = replaced staged target content F"
    using P renamed_staged(1) [OF assms(2), of F content] by (auto split: sum.splits bool.splits)
  then show "I w' \<and> (case r of
        Inl e \<Rightarrow> held view w' = F(staged := Some content) \<or> held view w' = replaced staged target content F
      | Inr done' \<Rightarrow> held view w' = (if done' then replaced staged target content F else F(staged := Some content)))"
    using assms(3) f P renamed_staged(1) [OF assms(2), of F content] by (auto split: sum.splits bool.splits)
qed

lemma runs_publish:
  assumes H: "honest ops view content'" and ne: "staged \<noteq> target"
    and I: "\<And>w. held view w = F(staged := Some content) \<or> held view w = replaced staged target content F \<or>
      \<not> require_atomic \<and> held view w = window staged target content F \<Longrightarrow> I w"
  shows "runs I (\<lambda>w. held view w = F(staged := Some content)) (publish_staged ops staged target require_atomic)
    (\<lambda>published w. case published of
        Published m \<Rightarrow> held view w = replaced staged target content F \<and> m \<noteq> IN_PLACE \<and> (require_atomic \<longrightarrow> m \<noteq> REMOVE_RENAME)
      | OnlyCopy e _ \<Rightarrow> \<not> require_atomic \<and> I w \<and>
          (held view w = F(staged := Some content) \<or> held view w = window staged target content F \<or> held view w = replaced staged target content F))
    (\<lambda>_ w. held view w = F(staged := Some content) \<or> held view w = replaced staged target content F)"
proof -
  let ?C = "\<lambda>w. held view w = F(staged := Some content)"
  let ?D = "\<lambda>w. held view w = replaced staged target content F"
  let ?W = "\<lambda>w. held view w = window staged target content F"
  let ?Q = "\<lambda>published w. case published of
        Published m \<Rightarrow> ?D w \<and> m \<noteq> IN_PLACE \<and> (require_atomic \<longrightarrow> m \<noteq> REMOVE_RENAME)
      | OnlyCopy e _ \<Rightarrow> \<not> require_atomic \<and> I w \<and> (?C w \<or> ?W w \<or> ?D w)"
  let ?E = "\<lambda>(_ :: exn) w. ?C w \<or> ?D w"
  note rs = renamed_staged [OF ne]
  have present: "runs I ?C (confirmed_present ops target) (\<lambda>_. ?C) ?E"
    by (rule runs_weaken [OF runs_hold [OF quiet_files [OF quiet_present [OF H]], where \<phi> = "\<lambda>fs. fs = F(staged := Some content)"]])
      (use I in auto)
  have rename: "runs I ?C (call (op_rename ops staged target)) (\<lambda>_. ?D) (\<lambda>e w. ?C w \<or> \<not> is_server_error e \<and> ?D w)"
    by (rule runs_performs [OF honestD(12) [OF H, of staged target], where A = "F(staged := Some content)", unfolded rs]) (use I in auto)
  have again: "runs I ?W (call (op_rename ops staged target)) (\<lambda>_. ?D) (\<lambda>e w. ?W w \<or> \<not> is_server_error e \<and> ?D w)" if "\<not> require_atomic"
    by (rule runs_performs [OF honestD(12) [OF H, of staged target], where A = "window staged target content F", unfolded rs]) (use I that in auto)
  have remove: "runs I ?C (call (op_remove ops target)) (\<lambda>_. ?W) (\<lambda>e w. ?C w \<or> \<not> is_server_error e \<and> ?W w)" if "\<not> require_atomic"
    by (rule runs_performs [OF honestD(11) [OF H, of target], where A = "F(staged := Some content)", unfolded rs]) (use I that in auto)
  have refusal: "runs I (\<lambda>w. ?C w \<or> \<not> is_server_error e \<and> ?D w)
      (if \<not> is_server_error e then throw e else andthen (confirmed_present ops target) (\<lambda>present.
         if \<not> present then throw e else if require_atomic then throw (CapabilityErr ''atomic publish'') else give False))
      (\<lambda>done' w. if done' then ?D w else \<not> require_atomic \<and> ?C w) ?E" for e
  proof (rule runs_if)
    show "runs I (\<lambda>w. ?C w \<or> \<not> is_server_error e \<and> ?D w) (throw e) (\<lambda>done' w. if done' then ?D w else \<not> require_atomic \<and> ?C w) ?E"
      by (rule runs_throw) auto
    assume "\<not> \<not> is_server_error e"
    then have "runs I ?C (andthen (confirmed_present ops target) (\<lambda>present.
         if \<not> present then throw e else if require_atomic then throw (CapabilityErr ''atomic publish'') else give False))
        (\<lambda>done' w. if done' then ?D w else \<not> require_atomic \<and> ?C w) ?E"
      by (intro runs_andthen [OF present] runs_if runs_throw runs_give) auto
    then show "runs I (\<lambda>w. ?C w \<or> \<not> is_server_error e \<and> ?D w) (andthen (confirmed_present ops target) (\<lambda>present.
         if \<not> present then throw e else if require_atomic then throw (CapabilityErr ''atomic publish'') else give False))
        (\<lambda>done' w. if done' then ?D w else \<not> require_atomic \<and> ?C w) ?E"
      by (rule runs_weaken) (use \<open>\<not> \<not> is_server_error e\<close> in auto)
  qed
  have first: "runs I ?C (catching (andthen (call (op_rename ops staged target)) (\<lambda>_. give True))
        (\<lambda>e. if \<not> is_server_error e then throw e else andthen (confirmed_present ops target) (\<lambda>present.
         if \<not> present then throw e else if require_atomic then throw (CapabilityErr ''atomic publish'') else give False)))
      (\<lambda>done' w. if done' then ?D w else \<not> require_atomic \<and> ?C w) ?E"
    by (rule runs_catching [OF _ refusal], rule runs_andthen [OF rename], rule runs_give) simp
  have fallback: "runs I ?C (andthen (catching (andthen (call (op_remove ops target)) (\<lambda>_. give None))
          (\<lambda>e. if is_server_error e then throw e else give (Some (OnlyCopy e False))))
        (\<lambda>lost. case lost of Some signal \<Rightarrow> give signal
          | None \<Rightarrow> catching (andthen (call (op_rename ops staged target)) (\<lambda>_. give (Published REMOVE_RENAME)))
              (\<lambda>e. give (OnlyCopy e True)))) ?Q ?E" if na: "\<not> require_atomic"
  proof (rule runs_andthen)
    show "runs I ?C (catching (andthen (call (op_remove ops target)) (\<lambda>_. give None))
          (\<lambda>e. if is_server_error e then throw e else give (Some (OnlyCopy e False))))
        (\<lambda>lost w. case lost of None \<Rightarrow> ?W w | Some signal \<Rightarrow> (?C w \<or> ?W w) \<and> (\<exists>e. signal = OnlyCopy e False)) ?E"
      by (rule runs_catching [OF runs_andthen [OF remove [OF na]]], rule runs_give, simp,
          intro runs_if runs_throw runs_give) auto
    show "runs I (\<lambda>w. case lost of None \<Rightarrow> ?W w | Some signal \<Rightarrow> (?C w \<or> ?W w) \<and> (\<exists>e. signal = OnlyCopy e False))
        (case lost of Some signal \<Rightarrow> give signal
          | None \<Rightarrow> catching (andthen (call (op_rename ops staged target)) (\<lambda>_. give (Published REMOVE_RENAME)))
              (\<lambda>e. give (OnlyCopy e True))) ?Q ?E" for lost
    proof (cases lost)
      case None
      have "runs I ?W (catching (andthen (call (op_rename ops staged target)) (\<lambda>_. give (Published REMOVE_RENAME)))
              (\<lambda>e. give (OnlyCopy e True))) ?Q ?E"
        by (rule runs_catching [OF runs_andthen [OF again [OF na]]], rule runs_give, use na in simp,
            rule runs_give) (use na I in auto)
      then show ?thesis using None by simp
    next
      case (Some signal)
      then show ?thesis by (auto intro!: runs_give simp: na I)
    qed
  qed
  have plain: "runs I ?C (publish_by_plain_rename ops staged target require_atomic) ?Q ?E"
    unfolding publish_by_plain_rename_def
  proof (rule runs_andthen [OF first])
    fix done'
    show "runs I (\<lambda>w. if done' then ?D w else \<not> require_atomic \<and> ?C w)
        (if done' then give (Published RENAME)
         else andthen (catching (andthen (call (op_remove ops target)) (\<lambda>_. give None))
            (\<lambda>e. if is_server_error e then throw e else give (Some (OnlyCopy e False))))
          (\<lambda>lost. case lost of Some signal \<Rightarrow> give signal
            | None \<Rightarrow> catching (andthen (call (op_rename ops staged target)) (\<lambda>_. give (Published REMOVE_RENAME)))
                (\<lambda>e. give (OnlyCopy e True)))) ?Q ?E"
    proof (cases done')
      case True
      then show ?thesis by (auto intro: runs_give)
    next
      case False
      show ?thesis
        unfolding if_not_P [OF False]
        by (rule runs_fact [where b = "\<not> require_atomic"], simp, rule runs_weaken [OF fallback]) auto
    qed
  qed
  show ?thesis unfolding publish_staged_def
  proof (rule runs_andthen [OF runs_posix_rename [OF honestD(13) [OF H] ne]])
    show "runs I (\<lambda>w. held view w = (if supported then replaced staged target content F else F(staged := Some content)))
        (if supported then give (Published POSIX_RENAME) else publish_by_plain_rename ops staged target require_atomic) ?Q ?E" for supported
      by (cases supported) (use plain in \<open>auto intro: runs_give\<close>)
  qed (use I in auto)
qed

section \<open>The destination at every moment\<close>

text \<open>
  No other file is touched, and the destination holds what it held or the whole of what was sent;
  where the caller did not insist on atomicity it may be missing, but only while the staging file
  holds the whole of it.
\<close>

definition intact :: "bool \<Rightarrow> bytes \<Rightarrow> bytes \<Rightarrow> bytes \<Rightarrow> (bytes \<Rightarrow> bytes option) \<Rightarrow> (bytes \<Rightarrow> bytes option) \<Rightarrow> bool" where
  "intact strict staged target content F fs \<longleftrightarrow>
     (\<forall>p. p \<noteq> staged \<and> p \<noteq> target \<longrightarrow> fs p = F p) \<and>
     (fs target = F target \<or> fs target = Some content \<or> \<not> strict \<and> fs target = None \<and> fs staged = Some content)"

lemma intact_cases:
  assumes "staged \<noteq> target"
  shows "others F {staged} fs \<Longrightarrow> intact strict staged target content F fs"
    "fs = replaced staged target content F \<Longrightarrow> intact strict staged target content F fs"
    "\<not> strict \<Longrightarrow> fs = window staged target content F \<Longrightarrow> intact strict staged target content F fs"
  using assms by (auto simp: intact_def others_def replaced_def window_def)

lemma runs_stage_and_publish:
  fixes view :: "'w \<Rightarrow> store" and F require_atomic
  assumes H: "honest ops view content" and ne: "staged \<noteq> target" and c0: "length c0 \<le> length content"
    and c1: "c1 = c0 @ drop (length c0) content"
  defines "I \<equiv> (\<lambda>w. intact require_atomic staged target c1 F (held view w))"
  shows "runs I (\<lambda>w. held view w = F(staged := Some c0) \<and> names (view w) h = Some staged)
    (stage_and_publish ops digest up target staged require_atomic (length c0) checked h)
    (\<lambda>out w. case out of
        Finished r \<Rightarrow> held view w = replaced staged target c1 F \<and> ur_transferred r = length content - length c0 \<and>
          ur_mechanism r \<noteq> IN_PLACE \<and> (require_atomic \<longrightarrow> result_atomic r) \<and>
          (up_fsync up \<and> up_require_fsync up \<longrightarrow> result_durable r) \<and> ur_mode r = up_mode up
      | LeftStaged e \<Rightarrow> I w)
    (\<lambda>_ w. others F {staged} (held view w) \<or> held view w = replaced staged target c1 F)"
proof -
  let ?P = "\<lambda>w. held view w = F(staged := Some c0) \<and> names (view w) h = Some staged"
  let ?C = "\<lambda>w. held view w = F(staged := Some c1)"
  let ?E = "\<lambda>(_ :: exn) w. others F {staged} (held view w) \<or> held view w = replaced staged target c1 F"
  let ?G = "\<lambda>out w. case out of
        Finished r \<Rightarrow> held view w = replaced staged target c1 F \<and> ur_transferred r = length content - length c0 \<and>
          ur_mechanism r \<noteq> IN_PLACE \<and> (require_atomic \<longrightarrow> result_atomic r) \<and>
          (up_fsync up \<and> up_require_fsync up \<longrightarrow> result_durable r) \<and> ur_mode r = up_mode up
      | LeftStaged e \<Rightarrow> I w"
  have I: "others F {staged} (held view w) \<or> held view w = replaced staged target c1 F \<or>
      \<not> require_atomic \<and> held view w = window staged target c1 F \<Longrightarrow> I w" for w
    using intact_cases [OF ne] unfolding I_def by blast
  have C: "others F {staged} (held view w)" if "?C w" for w using that by (simp add: others_update)
  have P: "others F {staged} (held view w)" if "?P w" for w using that by (simp add: others_update)
  have probe: "runs I ?P (if up_require_fsync up then probe_durability ops h else give ()) (\<lambda>_. ?P) ?E"
  proof (rule runs_weaken [OF runs_quiet [where view = view and P = ?P]])
    show "quiet view (if up_require_fsync up then probe_durability ops h else give ())"
      by (intro quiet_rules quiet_probe [OF H])
  qed (use I P in auto)
  have quiet: "runs I ?C m (\<lambda>_. ?C) ?E" if "quiet (held view) m" for m
    by (rule runs_weaken [OF runs_hold [OF that, where \<phi> = "\<lambda>fs. fs = F(staged := Some c1)"]]) (use I C in auto)
  have pub: "runs I ?C (publish_staged ops staged target require_atomic) (\<lambda>published w. case published of
        Published m \<Rightarrow> held view w = replaced staged target c1 F \<and> m \<noteq> IN_PLACE \<and> (require_atomic \<longrightarrow> m \<noteq> REMOVE_RENAME)
      | OnlyCopy e _ \<Rightarrow> I w) ?E"
    by (rule runs_weaken [OF runs_publish [OF H ne, of F c1 require_atomic I]])
      (use I C in \<open>auto split: publish_outcome.splits\<close>)
  have publish: "runs I ?C (andthen (publish_staged ops staged target require_atomic) (\<lambda>published.
      give (case published of OnlyCopy e _ \<Rightarrow> LeftStaged e
        | Published mechanism \<Rightarrow> Finished \<lparr>ur_transferred = n, ur_path = target, ur_mechanism = mechanism, ur_durability = durable,
            ur_size_check = sized, ur_times = ts, ur_content = checked', ur_resume = checked, ur_staged = Some staged, ur_mode = mode\<rparr>)))
      ?G ?E" if "n = length content - length c0" "up_fsync up \<and> up_require_fsync up \<longrightarrow> durable = Fsynced" "mode = up_mode up"
    for n durable sized ts checked' mode
  proof (rule runs_andthen [OF pub])
    fix published
    show "runs I (\<lambda>w. case published of
        Published m \<Rightarrow> held view w = replaced staged target c1 F \<and> m \<noteq> IN_PLACE \<and> (require_atomic \<longrightarrow> m \<noteq> REMOVE_RENAME)
      | OnlyCopy e _ \<Rightarrow> I w)
      (give (case published of OnlyCopy e _ \<Rightarrow> LeftStaged e
        | Published mechanism \<Rightarrow> Finished \<lparr>ur_transferred = n, ur_path = target, ur_mechanism = mechanism, ur_durability = durable,
            ur_size_check = sized, ur_times = ts, ur_content = checked', ur_resume = checked, ur_staged = Some staged, ur_mode = mode\<rparr>)) ?G ?E"
    proof (rule runs_give, cases published)
      fix w m assume "case published of
        Published m \<Rightarrow> held view w = replaced staged target c1 F \<and> m \<noteq> IN_PLACE \<and> (require_atomic \<longrightarrow> m \<noteq> REMOVE_RENAME)
      | OnlyCopy e _ \<Rightarrow> I w" "published = Published m"
      then show "?G (case published of OnlyCopy e _ \<Rightarrow> LeftStaged e
        | Published mechanism \<Rightarrow> Finished \<lparr>ur_transferred = n, ur_path = target, ur_mechanism = mechanism, ur_durability = durable,
            ur_size_check = sized, ur_times = ts, ur_content = checked', ur_resume = checked, ur_staged = Some staged, ur_mode = mode\<rparr>) w"
        using that by (cases m) (simp_all add: result_atomic_def result_durable_def)
    qed simp
  qed
  have fill: "runs I ?P (fill_and_close ops up h staged (length c0)) (\<lambda>filled w. case filled of (n, d, ts, m) \<Rightarrow> ?C w \<and> n = length content - length c0 \<and>
        (up_fsync up \<and> up_require_fsync up \<longrightarrow> d = Fsynced) \<and> m = up_mode up) ?E"
    by (rule runs_weaken [OF runs_fill [OF H _ c0 c1, of F staged I]]) (use I in auto)
  have rest: "runs I (\<lambda>w. case filled of (n, d, ts, m) \<Rightarrow> ?C w \<and> n = length content - length c0 \<and>
        (up_fsync up \<and> up_require_fsync up \<longrightarrow> d = Fsynced) \<and> m = up_mode up)
      (case filled of (n, durable, ts, mode) \<Rightarrow> andthen (local_size ops) (\<lambda>expected. andthen (confirm_size ops staged expected) (\<lambda>sized.
         andthen (verify_content ops digest staged expected (up_verify up)) (\<lambda>checked'.
           andthen (publish_staged ops staged target require_atomic) (\<lambda>published.
      give (case published of OnlyCopy e _ \<Rightarrow> LeftStaged e
        | Published mechanism \<Rightarrow> Finished \<lparr>ur_transferred = n, ur_path = target, ur_mechanism = mechanism, ur_durability = durable,
            ur_size_check = sized, ur_times = ts, ur_content = checked', ur_resume = checked, ur_staged = Some staged, ur_mode = mode\<rparr>))))))
      ?G ?E" for filled
  proof (cases filled)
    case (fields n d ts m)
    show ?thesis unfolding fields prod.case
      by (rule runs_fact [where b = "n = length content - length c0 \<and> (up_fsync up \<and> up_require_fsync up \<longrightarrow> d = Fsynced) \<and> m = up_mode up"], blast,
          rule runs_weaken [where P' = ?C],
          rule runs_andthen [OF quiet [OF quiet_files [OF quiet_local_size [OF H]]]],
          rule runs_andthen [OF quiet [OF quiet_files [OF quiet_confirm_size [OF H]]]],
          rule runs_andthen [OF quiet [OF quiet_verify_content [OF H]] publish]) auto
  qed
  show ?thesis unfolding stage_and_publish_def
    by (rule runs_andthen [OF probe], rule runs_andthen [OF fill rest])
qed

end
