(* ===== verification/PublishProps.thy ===== *)
theory PublishProps
  imports PublishLaws "HOL-Library.Code_Target_Nat"
begin

text \<open>
  What an atomic upload promises, a concrete server it can be run against, and what is left behind
  when durability is demanded of a server that cannot give it.
\<close>

section \<open>The whole upload\<close>

text \<open>
  What an upload publishes. A resumed upload that was not told to read the staged bytes back trusts
  them: it sends the rest, and publishes the bytes it found followed by the rest of the source.
\<close>

definition published_content :: "upload_settings \<Rightarrow> bytes option \<Rightarrow> bytes \<Rightarrow> bytes" where
  "published_content up found content =
     (if up_resume up \<and> up_verify up \<noteq> VerifyReread
      then (case found of None \<Rightarrow> content | Some c \<Rightarrow> c @ drop (length c) content) else content)"

lemma runs_put_atomically:
  fixes view :: "'w \<Rightarrow> store" and F require_atomic
  assumes H: "honest ops view content" and ne: "staged \<noteq> target"
    and new: "new = published_content up (F staged) content"
  defines "I \<equiv> (\<lambda>w. intact require_atomic staged target new F (held view w))"
  shows "runs I (\<lambda>w. held view w = F) (put_atomically ops digest up target staged require_atomic journalled)
    (\<lambda>r w. held view w = replaced staged target new F \<and> (if up_resume up then ur_transferred r \<le> length content else ur_transferred r = length content) \<and>
       ur_mechanism r \<noteq> IN_PLACE \<and> (require_atomic \<longrightarrow> result_atomic r) \<and>
       (up_fsync up \<and> up_require_fsync up \<longrightarrow> result_durable r) \<and> ur_mode r = up_mode up)
    (\<lambda>_. I)"
proof -
  let ?O = "\<lambda>w. others F {staged} (held view w)"
  let ?D = "\<lambda>w. held view w = replaced staged target new F"
  let ?B = "\<lambda>(_ :: exn) w. ?O w \<or> ?D w"
  let ?G = "\<lambda>r w. ?D w \<and> (if up_resume up then ur_transferred r \<le> length content else ur_transferred r = length content) \<and> ur_mechanism r \<noteq> IN_PLACE \<and> (require_atomic \<longrightarrow> result_atomic r) \<and>
       (up_fsync up \<and> up_require_fsync up \<longrightarrow> result_durable r) \<and> ur_mode r = up_mode up"
  have I: "?O w \<or> ?D w \<Longrightarrow> I w" for w using intact_cases [OF ne] unfolding I_def by blast
  have start: "runs I (\<lambda>w. held view w = F) m (\<lambda>_ w. held view w = F) (\<lambda>_. I)" if "quiet view m" for m
    by (rule runs_weaken [OF runs_hold [OF quiet_files [OF that], where \<phi> = "\<lambda>fs. fs = F"]]) (use I in auto)
  have preflight: "quiet view (if require_atomic \<and> \<not> s then refuse_unpublishable ops target else give ())" for s
    by (intro quiet_rules quiet_refuse [OF H])
  have note_it: "quiet view (if journalled then call (op_staging ops staged target) else give ())"
    by (intro quiet_rules honest_quiet [OF H])
  have noted': "quiet (held view) (if journalled then call (op_published ops target) else give ())"
    by (intro quiet_rules honest_quiet_files [OF H])
  have gone: "runs I (?B e) (discard ops staged) (\<lambda>_. ?B e) ?B" for e :: exn
  proof -
    have "runs I (?B e) (call (op_remove ops staged)) (\<lambda>_. ?B e) ?B"
    proof (rule runs_call)
      fix w r w' assume P: "?B e w" and f: "op_remove ops staged w = (r, w')"
      have "held view w' = held view w \<or> held view w' = removed staged (held view w)"
        using performsD [OF honestD(11) [OF H] f] by (cases r) auto
      then have "?B e w'" using P ne by (auto simp: removed_def others_def replaced_def fun_upd_twist)
      then show "I w' \<and> (case r of Inl e \<Rightarrow> ?B e w' | Inr _ \<Rightarrow> ?B e w')" using I by (cases r) auto
    qed
    then show ?thesis unfolding discard_def quietly_def
      by (rule runs_catching) (auto intro!: runs_if runs_throw runs_give)
  qed
  have cleanup: "runs I (?B e) (andthen (discard ops staged) (\<lambda>_. andthen (if journalled then call (op_published ops target) else give ())
      (\<lambda>_. throw e))) Q (\<lambda>_. I)" for e :: exn and Q :: "staged_outcome \<Rightarrow> 'w \<Rightarrow> bool"
  proof -
    have "runs I (?B e) (andthen (discard ops staged) (\<lambda>_. andthen (if journalled then call (op_published ops target) else give ())
        (\<lambda>_. throw e))) Q ?B"
      by (rule runs_andthen [OF gone], rule runs_andthen [OF runs_hold [OF noted', where \<phi> = "\<lambda>fs. others F {staged} fs \<or> fs = replaced staged target new F"]])
        (use I in \<open>auto intro: runs_throw\<close>)
    then show ?thesis by (rule runs_weaken) (use I in auto)
  qed
  let ?S = "\<lambda>out w. case out of Finished r \<Rightarrow> ?G r w | LeftStaged e \<Rightarrow> I w"
  have finish: "runs I (?S out) (case out of LeftStaged e \<Rightarrow> throw e
      | Finished result \<Rightarrow> andthen (if journalled then call (op_published ops target) else give ()) (\<lambda>_. give result)) ?G (\<lambda>_. I)" for out
  proof (cases out)
    case (Finished r)
    show ?thesis unfolding Finished staged_outcome.case
      by (rule runs_fact [where b = "(if up_resume up then ur_transferred r \<le> length content else ur_transferred r = length content) \<and> ur_mechanism r \<noteq> IN_PLACE \<and> (require_atomic \<longrightarrow> result_atomic r) \<and>
              (up_fsync up \<and> up_require_fsync up \<longrightarrow> result_durable r) \<and> ur_mode r = up_mode up"], blast,
          rule runs_weaken [where P' = ?D and E' = "\<lambda>_. ?D"],
          rule runs_andthen [OF runs_hold [OF noted', where \<phi> = "\<lambda>fs. fs = replaced staged target new F"]], use I in blast,
          rule runs_give) (use I in auto)
  next
    case (LeftStaged e)
    then show ?thesis by (auto intro: runs_throw)
  qed
  have stage: "runs I (\<lambda>w. held view w = F(staged := Some c0) \<and> names (view w) h = Some staged)
      (stage_and_publish ops digest up target staged require_atomic (length c0) checked h) ?S ?B"
    if "length c0 \<le> length content" "new = c0 @ drop (length c0) content" "up_resume up \<or> c0 = []" for c0 h checked
    by (rule runs_weaken [OF runs_stage_and_publish [OF H ne that(1,2), where F = F and require_atomic = require_atomic, folded I_def]])
      (use that in \<open>auto simp: I_def split: staged_outcome.splits\<close>)
  have body: "runs I (\<lambda>w. held view w = F(staged := Some c0) \<and> names (view w) h = Some staged)
      (andthen (catching (stage_and_publish ops digest up target staged require_atomic (length c0) checked h)
         (\<lambda>e. andthen (discard ops staged) (\<lambda>_. andthen (if journalled then call (op_published ops target) else give ()) (\<lambda>_. throw e))))
       (\<lambda>out. case out of LeftStaged e \<Rightarrow> throw e
          | Finished result \<Rightarrow> andthen (if journalled then call (op_published ops target) else give ()) (\<lambda>_. give result))) ?G (\<lambda>_. I)"
    if "length c0 \<le> length content" "new = c0 @ drop (length c0) content" "up_resume up \<or> c0 = []" for c0 h checked
    by (rule runs_andthen [OF runs_catching [OF stage [OF that] cleanup] finish])
  let ?T = "\<lambda>start checked. andthen (open_staging_file ops staged (up_resume up) (create_bits (up_mode up))) (\<lambda>h.
      andthen (catching (stage_and_publish ops digest up target staged require_atomic start checked h)
         (\<lambda>e. andthen (discard ops staged) (\<lambda>_. andthen (if journalled then call (op_published ops target) else give ()) (\<lambda>_. throw e))))
       (\<lambda>out. case out of LeftStaged e \<Rightarrow> throw e
          | Finished result \<Rightarrow> andthen (if journalled then call (op_published ops target) else give ()) (\<lambda>_. give result)))"
  have tail: "runs I (\<lambda>w. held view w = F) (andthen (upload_resume_offset ops up staged) (\<lambda>start.
      andthen (gate_resume ops digest staged start (up_verify up)) (\<lambda>checked. ?T start checked))) ?G (\<lambda>_. I)"
  proof (cases "up_resume up")
    case False
    have offset: "upload_resume_offset ops up staged = give 0" "gate_resume ops digest staged 0 v = give ResumeSkipped" for v
      using False by (simp_all add: upload_resume_offset_def gate_resume_def)
    have "runs I (\<lambda>w. held view w = F) (open_staging_file ops staged False (create_bits (up_mode up)))
        (\<lambda>h w. held view w = F(staged := Some []) \<and> names (view w) h = Some staged) (\<lambda>_. I)"
      by (rule runs_weaken [OF runs_open_staging [OF H, of F staged I]]) (use I in auto)
    from runs_andthen [OF this body [of "[]"]] show ?thesis
      using False by (simp add: offset new published_content_def)
  next
    case True
    then have True': "up_resume up = True" by simp
    define c0 where "c0 = (case F staged of None \<Rightarrow> [] | Some c \<Rightarrow> c)"
    have adopt: "runs I (\<lambda>w. held view w = F) (upload_resume_offset ops up staged)
        (\<lambda>n w. held view w = F \<and> adopted_ok (F staged) content n) (\<lambda>_. I)"
      by (rule runs_weaken [OF runs_hold_more [OF quiet_files [OF quiet_resume_offset [OF H]], where \<phi> = "\<lambda>fs. fs = F",
            OF _ resume_offset_adopts [OF H True]]]) (use I in auto)
    let ?same = "\<lambda>n. up_verify up = VerifyReread \<longrightarrow> n = 0 \<or> (\<exists>c. F staged = Some c \<and> take n c = take n content)"
    have gate: "runs I (\<lambda>w. held view w = F) (gate_resume ops digest staged n (up_verify up))
        (\<lambda>_ w. held view w = F \<and> ?same n) (\<lambda>_. I)" for n
    proof (cases "up_verify up = VerifyReread")
      case reread: True
      have "runs I (\<lambda>w. held view w = F) (gate_resume ops digest staged n VerifyReread)
          (\<lambda>_ w. held view w = F \<and> (n = 0 \<or> (\<exists>c. F staged = Some c \<and> take n c = take n content))) (\<lambda>_ w. held view w = F)"
        by (rule runs_hold_more [OF quiet_gate_resume [OF H] _ gate_reread [OF H]]) (use I in auto)
      then show ?thesis unfolding reread by (rule runs_weaken) (use I in auto)
    next
      case False
      have "runs I (\<lambda>w. held view w = F) (gate_resume ops digest staged n (up_verify up)) (\<lambda>_ w. held view w = F) (\<lambda>_ w. held view w = F)"
        by (rule runs_hold [OF quiet_gate_resume [OF H], where \<phi> = "\<lambda>fs. fs = F"]) (use I in auto)
      then show ?thesis by (rule runs_weaken) (use I False in auto)
    qed
    have staging: "runs I (\<lambda>w. held view w = F) (open_staging_file ops staged (up_resume up) (create_bits (up_mode up)))
        (\<lambda>h w. held view w = F(staged := Some c0) \<and> names (view w) h = Some staged) (\<lambda>_. I)"
      unfolding True'
      by (rule runs_weaken [OF runs_open_resumed [OF H, of F staged I c0]]) (use I in \<open>auto simp: c0_def split: option.splits\<close>)
    show ?thesis
    proof (rule runs_andthen [OF adopt], rule runs_fact)
      fix n assume n: "adopted_ok (F staged) content n"
      show "runs I (\<lambda>w. held view w = F \<and> adopted_ok (F staged) content n)
          (andthen (gate_resume ops digest staged n (up_verify up)) (\<lambda>checked. ?T n checked)) ?G (\<lambda>_. I)"
      proof (rule runs_weaken [where P' = "\<lambda>w. held view w = F"], rule runs_andthen [OF gate], rule runs_fact)
        fix checked assume same: "?same n"
        have c0: "n = length c0" "length c0 \<le> length content" "new = c0 @ drop (length c0) content"
        proof -
          show len: "n = length c0" using n by (auto simp: adopted_ok_def c0_def split: option.splits)
          show "length c0 \<le> length content" using n by (auto simp: adopted_ok_def c0_def split: option.splits)
          show "new = c0 @ drop (length c0) content"
          proof (cases "up_verify up = VerifyReread")
            case reread: True
            then have "take n c0 = take n content" using same by (auto simp: c0_def)
            then have "c0 = take (length c0) content" using len by simp
            then have "c0 @ drop (length c0) content = content" by (metis append_take_drop_id)
            then show ?thesis using reread by (simp add: new published_content_def)
          qed (use True in \<open>simp add: new published_content_def c0_def split: option.split\<close>)
        qed
        have "runs I (\<lambda>w. held view w = F) (?T (length c0) checked) ?G (\<lambda>_. I)"
          by (rule runs_andthen [OF staging body [OF c0(2,3) disjI1 [OF True]]])
        then show "runs I (\<lambda>w. held view w = F \<and> ?same n) (?T n checked) ?G (\<lambda>_. I)"
          unfolding c0(1) by (rule runs_weaken) auto
      qed auto
    qed auto
  qed
  show ?thesis
    unfolding put_atomically_def
    by (rule runs_andthen [where R = "\<lambda>_ w. held view w = F"], rule runs_ask, assumption,
        rule runs_andthen [OF start [OF preflight]], rule runs_andthen [OF start [OF note_it] tail])
qed

section \<open>A server to run it against\<close>

text \<open>
  A store with the handles that are open, on a server that does or does not rename over a file and
  does or does not flush. Everything it is asked for, it does.
\<close>

record box = store +
  open_handles :: "bytes list"
  next_handle :: byte

definition shown :: "box \<Rightarrow> store" where "shown w = \<lparr>files = files w, names = names w\<rparr>"

definition missing :: "bytes \<Rightarrow> exn" where "missing p = ServerErr NoSuchFile 2 [] (Some p)"
definition failure :: "bytes \<Rightarrow> exn" where "failure p = ServerErr PlainServerError 4 (ascii ''Failure'') (Some p)"

definition box_open :: "bytes \<Rightarrow> int \<Rightarrow> int option \<Rightarrow> (bytes, box) act" where
  "box_open p pflags mode w =
     (if pflags AND OPEN_EXCL \<noteq> 0 \<and> files w p \<noteq> None then (Inl (failure p), w)
      else (case opened_as pflags (files w p) of
              None \<Rightarrow> (Inl (missing p), w)
            | Some c \<Rightarrow>
                (let h = [next_handle w] in
                 (Inr h, w\<lparr>files := (files w)(p := Some c), names := (names w)(h := Some p),
                    open_handles := h # open_handles w, next_handle := next_handle w + 1\<rparr>))))"

definition box_upload :: "bytes \<Rightarrow> bytes \<Rightarrow> nat \<Rightarrow> (nat, box) act" where
  "box_upload content h start w =
     (case names w h of
        None \<Rightarrow> (Inl (failure h), w)
      | Some p \<Rightarrow>
          (case files w p of
             None \<Rightarrow> (Inl (failure p), w)
           | Some c \<Rightarrow> (Inr (length content - start), w\<lparr>files := (files w)(p := Some (take start c @ drop start content @ drop (length content) c))\<rparr>)))"

definition box_rename :: "bool \<Rightarrow> bytes \<Rightarrow> bytes \<Rightarrow> box \<Rightarrow> exn + box" where
  "box_rename over a b w =
     (if files w a = None then Inl (missing a)
      else if \<not> over \<and> files w b \<noteq> None then Inl (failure b)
      else Inr (w\<lparr>files := renamed a b (files w)\<rparr>))"

definition box_session :: "bool \<Rightarrow> bool \<Rightarrow> bytes \<Rightarrow> box session_ops" where
  "box_session posix flushes content =
     \<lparr>op_supports = (\<lambda>_ _. False), op_refuses = (\<lambda>_ _. False),
      op_stat = (\<lambda>p w. (case files w p of None \<Rightarrow> Inl (missing p) | Some c \<Rightarrow> Inr (Some (length c)), w)),
      op_lstat = (\<lambda>p w. (case files w p of None \<Rightarrow> Inl (missing p) | Some c \<Rightarrow> Inr (), w)),
      op_open = box_open,
      op_fchmod = (\<lambda>_ _ w. (Inr (), w)), op_futime = (\<lambda>_ _ w. (Inr (), w)),
      op_fsync_if_supported = (\<lambda>_ w. (Inr flushes, w)),
      op_upload_from = box_upload content,
      op_download_into = (\<lambda>h limit _ w.
         (case Option.bind (names w h) (files w) of None \<Rightarrow> Inl (failure h) | Some c \<Rightarrow> Inr (take limit c), w)),
      op_check_file = (\<lambda>_ _ _ _ w. (Inl (ServerErr Unsupported 8 [] None), w)),
      op_close = (\<lambda>h w. (Inr (), w\<lparr>open_handles := removeAll h (open_handles w)\<rparr>)),
      op_remove = (\<lambda>p w. if files w p = None then (Inl (missing p), w) else (Inr (), w\<lparr>files := removed p (files w)\<rparr>)),
      op_rename = (\<lambda>a b w. case box_rename False a b w of Inl e \<Rightarrow> (Inl e, w) | Inr w' \<Rightarrow> (Inr (), w')),
      op_posix_rename_if_supported = (\<lambda>a b w.
         if \<not> posix then (Inr False, w) else (case box_rename True a b w of Inl e \<Rightarrow> (Inl e, w) | Inr w' \<Rightarrow> (Inr True, w'))),
      op_sleep = (\<lambda>_ w. (False, w)),
      op_local_stat = (\<lambda>w. (Inr (length content), w)), op_local_times = (\<lambda>w. (Inr (0, 0), w)),
      op_local_bytes = (\<lambda>w. (Inr content, w)), op_profile = UNKNOWN,
      op_staging = (\<lambda>_ _ w. (Inr (), w)), op_published = (\<lambda>_ w. (Inr (), w))\<rparr>"

lemma box_honest: "honest (box_session posix flushes content) shown content"
proof -
  have files: "files (shown w) = files w" "names (shown w) = names w" for w by (simp_all add: shown_def)
  have "open_ok shown (box_open p flags mode) p flags" for p flags mode
    by (auto simp: open_ok_def box_open_def files Let_def split: if_splits option.splits)
  moreover have "upload_ok shown content (box_upload content h start) h start" for h start
    by (auto simp: upload_ok_def box_upload_def files split: option.splits)
  ultimately show ?thesis
    by (simp add: honest_def box_session_def answers_def keeps_def performs_def posix_rename_ok_def download_ok_def box_rename_def files
        split: option.splits sum.splits if_splits)
      (auto simp: shown_def missing_def failure_def)
qed

section \<open>What an atomic upload promises\<close>

text \<open>
  C25. An atomic upload never loses a file and never shows half of one. Against any server that does
  what it answers, whatever is refused and whichever answers are lost, at every moment of the run no
  other file is touched and the destination holds what it held before or the whole of what the
  upload publishes; if the caller did not insist on atomicity it may be missing, but only while the
  staging file holds the whole of it, also when the upload ends there. An upload that returns has
  replaced the destination, left no staging file, and kept what the caller insisted on. What is
  published is the source, unless the upload is resumed and not told to read the staged bytes back
  (\<open>verify\<close> other than \<open>reread\<close>): then it is the bytes found in the staging file followed by the
  rest of the source.
\<close>

theorem atomic_upload_keeps_destination:
  assumes "honest ops view content" "staged \<noteq> target" "new = published_content up (files (view w) staged) content"
  shows "case put_atomically ops digest up target staged require_atomic journalled w of (r, w', visited) \<Rightarrow>
    list_all (\<lambda>v. intact require_atomic staged target new (files (view w)) (files (view v))) visited \<and>
    (case r of
       Inl _ \<Rightarrow> intact require_atomic staged target new (files (view w)) (files (view w'))
     | Inr result \<Rightarrow>
         files (view w') = replaced staged target new (files (view w)) \<and>
         (if up_resume up then ur_transferred result \<le> length content else ur_transferred result = length content) \<and>
         (if require_atomic then result_atomic result else ur_mechanism result \<noteq> IN_PLACE) \<and>
         (if up_fsync up \<and> up_require_fsync up then result_durable result else True) \<and> ur_mode result = up_mode up)"
proof -
  obtain r w' visited where run: "put_atomically ops digest up target staged require_atomic journalled w = (r, w', visited)"
    using prod_cases3 by blast
  note kept = runsD [OF runs_put_atomically [OF assms(1,2), where F = "files (view w)", OF assms(3)] refl run]
  show ?thesis using kept by (cases r) (auto simp: run result_atomic_def)
qed

definition old_and_new :: "box" where
  "old_and_new = \<lparr>files = [ascii ''/in/a.csv'' \<mapsto> ascii ''old''], names = Map.empty, open_handles = [], next_handle = 1\<rparr>"

definition demo_settings :: upload_settings where
  "demo_settings = \<lparr>up_fsync = True, up_require_fsync = False, up_resume = False, up_preserve_times = True,
     up_verify = VerifySize, up_mode = Some 420\<rparr>"

lemma atomic_upload_keeps_destination_witness:
  "case put_atomically (box_session False False (ascii ''new'')) (\<lambda>_ _. None) demo_settings (ascii ''/in/a.csv'')
      (ascii ''/in/.a.csv.part'') False True old_and_new of (r, w', visited) \<Rightarrow>
    list_all (\<lambda>v. intact False (ascii ''/in/.a.csv.part'') (ascii ''/in/a.csv'') (ascii ''new'') (files (shown old_and_new)) (files (shown v))) visited \<and>
    (case r of
       Inl _ \<Rightarrow> intact False (ascii ''/in/.a.csv.part'') (ascii ''/in/a.csv'') (ascii ''new'') (files (shown old_and_new)) (files (shown w'))
     | Inr result \<Rightarrow>
         files (shown w') = replaced (ascii ''/in/.a.csv.part'') (ascii ''/in/a.csv'') (ascii ''new'') (files (shown old_and_new)) \<and>
         (if up_resume demo_settings then ur_transferred result \<le> length (ascii ''new'') else ur_transferred result = length (ascii ''new'')) \<and>
         (if False then result_atomic result else ur_mechanism result \<noteq> IN_PLACE) \<and>
         (if up_fsync demo_settings \<and> up_require_fsync demo_settings then result_durable result else True) \<and>
         ur_mode result = up_mode demo_settings)"
  by (rule atomic_upload_keeps_destination [OF box_honest]) code_simp+

text \<open>
  The mixture, with the default check: a staging file an earlier upload of another content left is
  adopted by its size, and what is published is neither content; reading it back refuses.
\<close>

definition stale_staging :: box where
  "stale_staging = old_and_new\<lparr>files := (files old_and_new)(ascii ''/in/.a.csv.part'' \<mapsto> ascii ''xy'')\<rparr>"

lemma resumed_upload_publishes_a_mixture:
  "case put_atomically (box_session False False (ascii ''new'')) (\<lambda>_ _. None) (demo_settings\<lparr>up_resume := True\<rparr>)
      (ascii ''/in/a.csv'') (ascii ''/in/.a.csv.part'') False True stale_staging of (r, w', _) \<Rightarrow>
    \<not> isl r \<and> files w' (ascii ''/in/a.csv'') = Some (ascii ''xyw'')"
  by code_simp

lemma reread_refuses_the_mixture:
  "case put_atomically (box_session False False (ascii ''new'')) (\<lambda>_ _. None)
      (demo_settings\<lparr>up_resume := True, up_verify := VerifyReread\<rparr>)
      (ascii ''/in/a.csv'') (ascii ''/in/.a.csv.part'') False True stale_staging of (r, w', _) \<Rightarrow>
    isl r \<and> files w' (ascii ''/in/a.csv'') = Some (ascii ''old'')"
  by code_simp

text \<open>
  Demanding durability of a server that cannot flush leaks the handle. The probe runs on the open
  staging handle, outside the block that closes it: the refusal removes the staging file by name and
  is raised with the handle still open on the server. The same upload without the demand closes it.
\<close>

theorem durability_refusal_leaks_the_handle:
  "(case put_atomically (box_session False False (ascii ''new'')) (\<lambda>_ _. None) (demo_settings\<lparr>up_require_fsync := True\<rparr>)
        (ascii ''/in/a.csv'') (ascii ''/in/.a.csv.part'') False False old_and_new of (r, w', _) \<Rightarrow>
      r = Inl (CapabilityErr ''durable upload'') \<and> files w' (ascii ''/in/.a.csv.part'') = None \<and> open_handles w' = [[1]]) \<and>
   (case put_atomically (box_session False False (ascii ''new'')) (\<lambda>_ _. None) demo_settings
        (ascii ''/in/a.csv'') (ascii ''/in/.a.csv.part'') False False old_and_new of (r, w', _) \<Rightarrow>
      open_handles w' = [] \<and> files w' (ascii ''/in/a.csv'') = Some (ascii ''new''))"
  by code_simp

end
