(* ===== verification/PyText.thy ===== *)
theory PyText
  imports ByteText
begin

text \<open>
  Python's \<open>str\<close> as the list of its code points, and the two ways the code crosses from bytes to
  text: \<open>bytes.decode("utf-8", errors)\<close> with the handlers \<open>replace\<close> and \<open>surrogateescape\<close>, and
  \<open>str.encode("utf-8", "surrogateescape")\<close>. The second pair is what makes a name a server sent
  come back byte for byte (\<open>decode_name\<close>, \<open>session/_listing.py\<close>). Also \<open>str.splitlines\<close>.
\<close>

type_synonym str = "nat list"

definition text_of :: "string \<Rightarrow> str" where "text_of s = map of_char s"

section \<open>UTF-8\<close>

definition continuation :: "byte \<Rightarrow> bool" where
  "continuation b \<longleftrightarrow> 128 \<le> unat b \<and> unat b < 192"

text \<open>The second byte of a sequence: no overlong form, no surrogate, nothing above U+10FFFF.\<close>

definition second_byte :: "byte \<Rightarrow> byte \<Rightarrow> bool" where
  "second_byte lead b \<longleftrightarrow>
     continuation b \<and>
     (unat lead = 224 \<longrightarrow> 160 \<le> unat b) \<and> (unat lead = 237 \<longrightarrow> unat b < 160) \<and>
     (unat lead = 240 \<longrightarrow> 144 \<le> unat b) \<and> (unat lead = 244 \<longrightarrow> unat b < 144)"

text \<open>
  One step of the decoder: the code point and the number of bytes it took, or, for a sequence that
  is not well formed, the length of its longest part that could have begun one.
\<close>

definition utf8_next :: "byte \<Rightarrow> bytes \<Rightarrow> nat option \<times> nat" where
  "utf8_next b bs =
     (if unat b < 128 then (Some (unat b), 1)
      else if 194 \<le> unat b \<and> unat b < 224 then
        (case bs of
           c # _ \<Rightarrow> (if continuation c then (Some ((unat b - 192) * 64 + (unat c - 128)), 2) else (None, 1))
         | [] \<Rightarrow> (None, 1))
      else if 224 \<le> unat b \<and> unat b < 240 then
        (case bs of
           c # d # _ \<Rightarrow>
             (if \<not> second_byte b c then (None, 1)
              else if \<not> continuation d then (None, 2)
              else (Some ((unat b - 224) * 4096 + (unat c - 128) * 64 + (unat d - 128)), 3))
         | [c] \<Rightarrow> (None, if second_byte b c then 2 else 1)
         | [] \<Rightarrow> (None, 1))
      else if 240 \<le> unat b \<and> unat b < 245 then
        (case bs of
           c # d # e # _ \<Rightarrow>
             (if \<not> second_byte b c then (None, 1)
              else if \<not> continuation d then (None, 2)
              else if \<not> continuation e then (None, 3)
              else (Some ((unat b - 240) * 262144 + (unat c - 128) * 4096 + (unat d - 128) * 64 + (unat e - 128)), 4))
         | [c, d] \<Rightarrow> (None, if \<not> second_byte b c then 1 else if \<not> continuation d then 2 else 3)
         | [c] \<Rightarrow> (None, if second_byte b c then 2 else 1)
         | [] \<Rightarrow> (None, 1))
      else (None, 1))"

lemma utf8_next_takes: "utf8_next b bs = (r, n) \<Longrightarrow> 0 < n \<and> n \<le> Suc (length bs)"
  by (auto simp: utf8_next_def split: if_splits list.splits)

text \<open>\<open>bs.decode("utf-8", on_error)\<close>, the handler taking the bytes that are not a character.\<close>

function decode_text :: "(bytes \<Rightarrow> str) \<Rightarrow> bytes \<Rightarrow> str" where
  "decode_text on_error [] = []"
| "decode_text on_error (b # bs) =
     (case utf8_next b bs of
        (Some c, n) \<Rightarrow> c # decode_text on_error (drop n (b # bs))
      | (None, n) \<Rightarrow> on_error (take n (b # bs)) @ decode_text on_error (drop n (b # bs)))"
  by pat_completeness auto
termination
  by (relation "measure (\<lambda>(_, bs). length bs)") (auto dest: utf8_next_takes [OF sym])

definition replacing :: "bytes \<Rightarrow> str" where "replacing bad = [65533]"

definition surrogate_escaping :: "bytes \<Rightarrow> str" where "surrogate_escaping bad = map (\<lambda>b. 56320 + unat b) bad"

text \<open>\<open>c.encode("utf-8", "surrogateescape")\<close> of one code point; \<open>None\<close> is \<open>UnicodeEncodeError\<close>.\<close>

definition encode_point :: "nat \<Rightarrow> bytes option" where
  "encode_point c =
     (if c < 128 then Some [of_nat c]
      else if c < 2048 then Some [of_nat (192 + c div 64), of_nat (128 + c mod 64)]
      else if 56448 \<le> c \<and> c < 56576 then Some [of_nat (c - 56320)]
      else if 55296 \<le> c \<and> c < 57344 then None
      else if c < 65536 then
        Some [of_nat (224 + c div 4096), of_nat (128 + c div 64 mod 64), of_nat (128 + c mod 64)]
      else if c < 1114112 then
        Some [of_nat (240 + c div 262144), of_nat (128 + c div 4096 mod 64), of_nat (128 + c div 64 mod 64), of_nat (128 + c mod 64)]
      else None)"

fun encode_text :: "str \<Rightarrow> bytes option" where
  "encode_text [] = Some []"
| "encode_text (c # cs) =
     (case encode_point c of
        None \<Rightarrow> None
      | Some bs \<Rightarrow> (case encode_text cs of None \<Rightarrow> None | Some rest \<Rightarrow> Some (bs @ rest)))"

definition decode_name :: "bytes \<Rightarrow> str" where
  "decode_name filename = decode_text surrogate_escaping filename"

section \<open>Lines\<close>

text \<open>\<open>str.splitlines()\<close>: more separators than the newline, and \<open>\r\n\<close> is one of them.\<close>

definition line_break :: "nat \<Rightarrow> bool" where
  "line_break c \<longleftrightarrow> c \<in> {10, 11, 12, 13, 28, 29, 30, 133, 8232, 8233}"

fun lines_from :: "str \<Rightarrow> str \<Rightarrow> str list" where
  "lines_from acc [] = (if acc = [] then [] else [rev acc])"
| "lines_from acc [c] = (if line_break c then [rev acc] else [rev (c # acc)])"
| "lines_from acc (c # d # cs) =
     (if c = 13 \<and> d = 10 then rev acc # lines_from [] cs
      else if line_break c then rev acc # lines_from [] (d # cs)
      else lines_from (c # acc) (d # cs))"

definition splitlines :: "str \<Rightarrow> str list" where "splitlines s = lines_from [] s"

section \<open>Decoding is reversible\<close>

lemma unat_byte_less [simp]: "unat (b :: byte) < 256"
proof -
  have "unat b < 2 ^ LENGTH(8)" by (rule unsigned_less)
  then show ?thesis by simp
qed

lemma of_nat_byte: "n = unat b \<Longrightarrow> of_nat n = (b :: byte)"
  by simp

lemma digits_64: "y < 64 \<Longrightarrow> (x * 64 + y) div 64 = x \<and> (x * 64 + y) mod 64 = (y :: nat)"
  by simp

lemma encode_two:
  assumes "194 \<le> unat b" "unat b < 224" "continuation c"
  shows "encode_point ((unat b - 192) * 64 + (unat c - 128)) = Some [b, c]"
proof -
  obtain x y where xy: "unat b = 192 + x" "unat c = 128 + y" "2 \<le> x" "x < 32" "y < 64"
  proof (rule that [of "unat b - 192" "unat c - 128"])
  qed (use assms in \<open>auto simp: continuation_def\<close>)
  have w: "of_nat (192 + x) = b" "of_nat (128 + y) = c"
    by (rule of_nat_byte, simp add: xy)+
  show ?thesis using xy w by (simp add: encode_point_def)
qed

lemma encode_three:
  assumes "224 \<le> unat b" "unat b < 240" "second_byte b c" "continuation d"
  shows "encode_point ((unat b - 224) * 4096 + (unat c - 128) * 64 + (unat d - 128)) = Some [b, c, d]"
proof -
  obtain x y z where xyz: "unat b = 224 + x" "unat c = 128 + y" "unat d = 128 + z" "x < 16" "y < 64" "z < 64"
      "x = 0 \<longrightarrow> 32 \<le> y" "x = 13 \<longrightarrow> y < 32"
  proof (rule that [of "unat b - 224" "unat c - 128" "unat d - 128"])
  qed (use assms in \<open>auto simp: continuation_def second_byte_def\<close>)
  define p where "p = x * 64 + y"
  have p: "p div 64 = x" "p mod 64 = y" "32 \<le> p" "p < 1024" "p < 864 \<or> 896 \<le> p"
    using xyz by (auto simp: p_def) presburger+
  have q: "x * 4096 + y * 64 + z = p * 64 + z" by (simp add: p_def)
  have d: "(p * 64 + z) div 64 = p" "(p * 64 + z) mod 64 = z" using xyz by simp_all
  have "(p * 64 + z) div 4096 = (p * 64 + z) div 64 div 64" by (simp only: div_mult2_eq [symmetric]) simp
  then have d2: "(p * 64 + z) div 4096 = x" using p d by simp
  have w: "b = of_nat (224 + x)" "c = of_nat (128 + y)" "d = of_nat (128 + z)"
    by (rule of_nat_byte [symmetric], simp add: xyz)+
  have r: "\<not> p * 64 + z < 2048" "p * 64 + z < 65536" "p * 64 + z < 55296 \<or> 57344 \<le> p * 64 + z"
    using p xyz by auto
  have "encode_point (p * 64 + z) = Some [of_nat (224 + x), of_nat (128 + y), of_nat (128 + z)]"
    using r unfolding encode_point_def d d2 p by auto
  then show ?thesis unfolding w [symmetric] by (simp add: xyz q)
qed

lemma encode_four:
  assumes "240 \<le> unat b" "unat b < 245" "second_byte b c" "continuation d" "continuation e"
  shows "encode_point ((unat b - 240) * 262144 + (unat c - 128) * 4096 + (unat d - 128) * 64 + (unat e - 128)) = Some [b, c, d, e]"
proof -
  obtain x y z u where xyz: "unat b = 240 + x" "unat c = 128 + y" "unat d = 128 + z" "unat e = 128 + u"
      "x < 5" "y < 64" "z < 64" "u < 64" "x = 0 \<longrightarrow> 16 \<le> y" "x = 4 \<longrightarrow> y < 16"
  proof (rule that [of "unat b - 240" "unat c - 128" "unat d - 128" "unat e - 128"])
  qed (use assms in \<open>auto simp: continuation_def second_byte_def\<close>)
  define p where "p = x * 64 + y"
  define q where "q = p * 64 + z"
  have p: "p div 64 = x" "p mod 64 = y" "16 \<le> p" "p < 272"
    using xyz by (auto simp: p_def)
  have q: "q div 64 = p" "q mod 64 = z" "1024 \<le> q" "q < 17408" using xyz p by (auto simp: q_def)
  have v: "x * 262144 + y * 4096 + z * 64 + u = q * 64 + u" by (simp add: p_def q_def)
  have d: "(q * 64 + u) div 64 = q" "(q * 64 + u) mod 64 = u" using xyz by simp_all
  have "(q * 64 + u) div 4096 = (q * 64 + u) div 64 div 64" by (simp only: div_mult2_eq [symmetric]) simp
  then have d2: "(q * 64 + u) div 4096 = p" using q d by simp
  have "(q * 64 + u) div 262144 = (q * 64 + u) div 64 div 64 div 64" by (simp only: div_mult2_eq [symmetric]) simp
  then have d3: "(q * 64 + u) div 262144 = x" using p q d by simp
  have w: "b = of_nat (240 + x)" "c = of_nat (128 + y)" "d = of_nat (128 + z)" "e = of_nat (128 + u)"
    by (rule of_nat_byte [symmetric], simp add: xyz)+
  have r: "65536 \<le> q * 64 + u" "q * 64 + u < 1114112"
    using q xyz by auto
  have "encode_point (q * 64 + u) = Some [of_nat (240 + x), of_nat (128 + y), of_nat (128 + z), of_nat (128 + u)]"
    using r unfolding encode_point_def d d2 d3 p q by auto
  then show ?thesis unfolding w [symmetric] by (simp add: xyz v)
qed

lemma encode_next:
  assumes "utf8_next b bs = (Some c, n)" shows "encode_point c = Some (take n (b # bs))"
proof -
  have "unat b < 128 \<Longrightarrow> encode_point (unat b) = Some [b]" by (simp add: encode_point_def)
  then show ?thesis
    using assms encode_two [of b] encode_three [of b] encode_four [of b]
    by (auto simp: utf8_next_def split: if_splits list.splits)
qed

lemma next_bad:
  assumes "utf8_next b bs = (None, n)" shows "\<forall>x \<in> set (take n (b # bs)). 128 \<le> unat x"
  using assms by (auto simp: utf8_next_def second_byte_def continuation_def split: if_splits list.splits)

lemma encode_append: "encode_text (a @ b) =
    (case encode_text a of None \<Rightarrow> None | Some x \<Rightarrow> (case encode_text b of None \<Rightarrow> None | Some y \<Rightarrow> Some (x @ y)))"
  by (induction a) (auto split: option.splits)

lemma encode_escaped: "\<forall>x \<in> set bad. 128 \<le> unat x \<Longrightarrow> encode_text (surrogate_escaping bad) = Some bad"
proof (induction bad)
  case (Cons x bad)
  have "encode_point (56320 + unat x) = Some [x]" using Cons.prems by (simp add: encode_point_def)
  then show ?case using Cons by (simp add: surrogate_escaping_def)
qed (simp add: surrogate_escaping_def)

text \<open>\<open>name.encode("utf-8", "surrogateescape")\<close> takes back what \<open>decode_name\<close> made.\<close>

lemma encode_decode_name: "encode_text (decode_name bs) = Some bs"
  unfolding decode_name_def
proof (induction bs rule: length_induct)
  case (1 xs)
  show ?case
  proof (cases xs)
    case (Cons b bs)
    obtain r n where step: "utf8_next b bs = (r, n)" by (cases "utf8_next b bs")
    have "length (drop n xs) < length xs" using utf8_next_takes [OF step] Cons by simp
    then have rest: "encode_text (decode_text surrogate_escaping (drop n xs)) = Some (drop n xs)" using 1 by blast
    have cut: "take n xs @ drop n xs = b # bs" using Cons by simp
    show ?thesis
    proof (cases r)
      case None
      have "encode_text (surrogate_escaping (take n xs)) = Some (take n xs)"
        using next_bad [OF step [unfolded None]] Cons by (intro encode_escaped) simp
      then show ?thesis using rest step None cut Cons by (simp add: encode_append)
    next
      case (Some c)
      then have "encode_point c = Some (take n xs)" using encode_next step Cons by simp
      then show ?thesis using Some rest step cut Cons by simp
    qed
  qed simp
qed

section \<open>Decoding and reading lines in pieces\<close>

text \<open>A newline is never part of a longer sequence, so a text is decoded line by line.\<close>

lemma utf8_next_stops: "utf8_next b (bs @ 10 # ys) = utf8_next b bs \<and> snd (utf8_next b bs) \<le> Suc (length bs)"
proof -
  have no: "\<not> continuation 10" "\<not> second_byte b 10" by (simp_all add: continuation_def second_byte_def)
  show ?thesis
  proof (cases bs)
    case Nil
    then show ?thesis using no by (auto simp: utf8_next_def split: list.splits)
  next
    case (Cons c cs)
    show ?thesis
    proof (cases cs)
      case Nil
      then show ?thesis using no Cons by (auto simp: utf8_next_def split: list.splits)
    next
      case (Cons d ds)
      then show ?thesis using no \<open>bs = c # cs\<close> by (cases ds) (auto simp: utf8_next_def split: list.splits)
    qed
  qed
qed

lemma decode_text_newline: "decode_text f (a @ 10 # b) = decode_text f a @ 10 # decode_text f b"
proof (induction a rule: length_induct)
  case (1 xs)
  show ?case
  proof (cases xs)
    case Nil
    then show ?thesis by (simp add: utf8_next_def)
  next
    case (Cons c cs)
    obtain r n where step: "utf8_next c cs = (r, n)" by (cases "utf8_next c cs")
    have n: "0 < n" "n \<le> length xs" using utf8_next_takes [OF step] Cons by simp_all
    have step': "utf8_next c (cs @ 10 # b) = (r, n)" using utf8_next_stops [of c cs b] step by simp
    have cut: "take n (xs @ 10 # b) = take n xs" "drop n (xs @ 10 # b) = drop n xs @ 10 # b" using n by simp_all
    have "length (drop n xs) < length xs" using n by simp
    then have rest: "decode_text f (drop n xs @ 10 # b) = decode_text f (drop n xs) @ 10 # decode_text f b" using 1 by blast
    have l: "decode_text f xs = (case r of Some c \<Rightarrow> c # decode_text f (drop n xs) | None \<Rightarrow> f (take n xs) @ decode_text f (drop n xs))"
      using step by (cases r) (simp_all add: Cons)
    have "decode_text f (xs @ 10 # b) =
        (case r of Some c \<Rightarrow> c # decode_text f (drop n (xs @ 10 # b))
         | None \<Rightarrow> f (take n (xs @ 10 # b)) @ decode_text f (drop n (xs @ 10 # b)))"
      using step' by (cases r) (simp_all add: Cons)
    then show ?thesis unfolding cut rest l by (cases r) simp_all
  qed
qed

lemma lines_from_newline: "lines_from acc (a @ 10 # b) = lines_from acc (a @ [10]) @ splitlines b"
proof (induction acc a rule: lines_from.induct)
  case (1 acc)
  then show ?case by (cases b) (simp_all add: splitlines_def line_break_def)
next
  case (2 acc c)
  show ?case by (cases b) (simp_all add: splitlines_def line_break_def)
next
  case (3 acc c d cs)
  then show ?case by simp
qed

lemma splitlines_newline: "splitlines (a @ 10 # b) = splitlines (a @ [10]) @ splitlines b"
  unfolding splitlines_def by (rule lines_from_newline [of "[]", unfolded splitlines_def])

lemma splitlines_Nil [simp]: "splitlines [] = []" by (simp add: splitlines_def)

lemma lines_from_plain:
  "list_all (\<lambda>c. \<not> line_break c) a \<Longrightarrow> lines_from acc (a @ [10]) = [rev acc @ a]"
proof (induction acc a rule: lines_from.induct)
  case (2 acc c)
  then show ?case by (auto simp: line_break_def)
next
  case (3 acc c d cs)
  then show ?case by (auto simp: line_break_def)
qed (simp add: line_break_def)

lemma splitlines_line: "list_all (\<lambda>c. \<not> line_break c) a \<Longrightarrow> splitlines (a @ [10]) = [a]"
  by (simp add: splitlines_def lines_from_plain)

text \<open>Text of printable ASCII is decoded as it is.\<close>

lemma decode_ascii: "list_all (\<lambda>c. c < 128) a \<Longrightarrow> decode_text f (map of_nat a) = a"
proof (induction a)
  case (Cons c a)
  have "unat (of_nat c :: byte) = c" using Cons.prems by (simp add: unat_of_nat)
  then show ?case using Cons by (simp add: utf8_next_def)
qed simp

section \<open>What a decoded name consists of\<close>

text \<open>No code point above U+10FFFF and no high surrogate.\<close>

definition path_text :: "str \<Rightarrow> bool" where
  "path_text s \<longleftrightarrow> list_all (\<lambda>c. c < 1114112 \<and> \<not> (55296 \<le> c \<and> c < 56320)) s"

lemma encode_point_range: "encode_point c = Some bs \<Longrightarrow> c < 1114112 \<and> \<not> (55296 \<le> c \<and> c < 56320)"
  by (auto simp: encode_point_def split: if_splits)

lemma encode_text_path: "encode_text s = Some bs \<Longrightarrow> path_text s"
proof (induction s arbitrary: bs)
  case (Cons c s)
  then show ?case using encode_point_range [of c] by (fastforce simp: path_text_def split: option.splits)
qed (simp add: path_text_def)

lemma decode_name_path [simp]: "path_text (decode_name bs)"
  by (rule encode_text_path [OF encode_decode_name])

end
