(* ===== verification/Json.thy ===== *)
theory Json
  imports PyText "HOL-Library.List_Lexorder"
begin

text \<open>
  The part of Python's \<open>json\<close> the journal and the manifests are written with: \<open>json.loads\<close> of any
  text, as the C scanner reads it, and \<open>json.dumps(document, sort_keys=True)\<close> of a flat document.
  The failures of \<open>loads\<close> are kept apart, because only the first is a \<open>JSONDecodeError\<close>: text that
  is not JSON, an integer of more than 4300 digits (\<open>ValueError\<close>), and nesting beyond the recursion
  the interpreter has left (\<open>RecursionError\<close>), which is the parameter \<open>depth\<close>.
\<close>

section \<open>Documents\<close>

text \<open>A float is its exact decimal value, mantissa and exponent; \<open>NaN\<close> and the infinities are the rest.\<close>

datatype json =
    JNull
  | JBool bool
  | JInt int
  | JFloat int int
  | JSpecial str
  | JStr str
  | JList "json list"
  | JObj "(str, json) dict"

datatype json_error = NotJson | TooManyDigits | TooDeep

section \<open>Reading\<close>

definition blank :: "nat \<Rightarrow> bool" where "blank c \<longleftrightarrow> c \<in> {32, 9, 10, 13}"

definition skip_blank :: "str \<Rightarrow> str" where "skip_blank s = dropWhile blank s"

lemma skip_blank_le: "length (skip_blank s) \<le> length s"
  by (simp add: skip_blank_def length_dropWhile_le)

lemma skip_blank_less:
  "length s < Suc n \<Longrightarrow> 2 * length (skip_blank s) < Suc (Suc (2 * n))"
  "length s < Suc n \<Longrightarrow> 2 * length (skip_blank s) < Suc (Suc (Suc (2 * n)))"
  "2 * length (skip_blank s) < Suc (2 * length s)"
  "length s < m \<Longrightarrow> length (skip_blank s) < m"
  using skip_blank_le [of s] by linarith+

definition digit :: "nat \<Rightarrow> bool" where "digit c \<longleftrightarrow> 48 \<le> c \<and> c \<le> 57"

definition number_of :: "str \<Rightarrow> nat" where "number_of ds = foldl (\<lambda>n c. n * 10 + (c - 48)) 0 ds"

definition hex_digit :: "nat \<Rightarrow> nat option" where
  "hex_digit c =
     (if digit c then Some (c - 48) else if 97 \<le> c \<and> c \<le> 102 then Some (c - 87)
      else if 65 \<le> c \<and> c \<le> 70 then Some (c - 55) else None)"

definition hex4 :: "str \<Rightarrow> nat option" where
  "hex4 s =
     (case s of
        a # b # c # d # _ \<Rightarrow>
          (case (hex_digit a, hex_digit b, hex_digit c, hex_digit d) of
             (Some w, Some x, Some y, Some z) \<Rightarrow> Some (w * 4096 + x * 256 + y * 16 + z)
           | _ \<Rightarrow> None)
      | _ \<Rightarrow> None)"

definition short_escape :: "nat \<Rightarrow> nat option" where
  "short_escape c = map_of [(34, 34), (92, 92), (47, 47), (98, 8), (102, 12), (110, 10), (114, 13), (116, 9)] c"

text \<open>The low half of a surrogate pair written as two escapes.\<close>

definition low_half :: "str \<Rightarrow> nat option" where
  "low_half s =
     (case s of
        b # u # rest \<Rightarrow>
          (if b = 92 \<and> u = 117 then (case hex4 rest of Some v \<Rightarrow> (if 56320 \<le> v \<and> v < 57344 then Some v else None) | None \<Rightarrow> None)
           else None)
      | _ \<Rightarrow> None)"

definition glue :: "nat \<Rightarrow> (str \<times> str) option \<Rightarrow> (str \<times> str) option" where
  "glue c r = map_option (\<lambda>(s, rest). (c # s, rest)) r"

text \<open>A string after its opening quote: what it says, and what follows the closing one.\<close>

function scan_string :: "str \<Rightarrow> (str \<times> str) option" where
  "scan_string [] = None"
| "scan_string (c # cs) =
     (if c = 34 then Some ([], cs)
      else if c < 32 then None
      else if c \<noteq> 92 then glue c (scan_string cs)
      else (case cs of
              [] \<Rightarrow> None
            | e # rest \<Rightarrow>
                (if e = 117 then
                   (case hex4 rest of
                      None \<Rightarrow> None
                    | Some v \<Rightarrow>
                        (case (if 55296 \<le> v \<and> v < 56320 then low_half (drop 4 rest) else None) of
                           Some w \<Rightarrow> glue (65536 + (v - 55296) * 1024 + (w - 56320)) (scan_string (drop 10 rest))
                         | None \<Rightarrow> glue v (scan_string (drop 4 rest))))
                 else (case short_escape e of None \<Rightarrow> None | Some v \<Rightarrow> glue v (scan_string rest)))))"
  by pat_completeness auto
termination by (relation "measure length") auto

text \<open>A number: the longest literal, an integer unless it has a fraction or an exponent.\<close>

definition take_digits :: "str \<Rightarrow> str \<times> str" where "take_digits s = (takeWhile digit s, dropWhile digit s)"

definition fraction :: "str \<Rightarrow> str \<times> str" where
  "fraction s =
     (case s of
        [] \<Rightarrow> ([], s)
      | c # rest \<Rightarrow>
          (if c = 46 then (case take_digits rest of ([], _) \<Rightarrow> ([], s) | (ds, r) \<Rightarrow> (ds, r)) else ([], s)))"

definition exponent :: "str \<Rightarrow> int option \<times> str" where
  "exponent s =
     (case s of
        c # rest \<Rightarrow>
          (if c = 69 \<or> c = 101 then
             (let negative = prefix [45] rest;
                  unsigned = (case rest of d # r \<Rightarrow> (if d = 45 \<or> d = 43 then r else rest) | [] \<Rightarrow> rest) in
              case take_digits unsigned of
                ([], _) \<Rightarrow> (None, s)
              | (ds, r) \<Rightarrow> (Some (if negative then - int (number_of ds) else int (number_of ds)), r))
           else (None, s))
      | [] \<Rightarrow> (None, s))"

definition signed :: "bool \<Rightarrow> int \<Rightarrow> int" where "signed negative n = (if negative then - n else n)"

definition unsigned_number :: "bool \<Rightarrow> str \<Rightarrow> json_error + json \<times> str" where
  "unsigned_number negative s =
     (case s of
        [] \<Rightarrow> Inl NotJson
      | c # rest \<Rightarrow>
          (if \<not> digit c then Inl NotJson
           else (case (if c = 48 then ([c], rest) else take_digits s) of
                   (ds, r) \<Rightarrow>
                     (case fraction r of
                        (fr, r1) \<Rightarrow>
                          (case exponent r1 of
                             (ex, r2) \<Rightarrow>
                               (if fr = [] \<and> ex = None then
                                  (if int (length ds) > 4300 then Inl TooManyDigits
                                   else Inr (JInt (signed negative (int (number_of ds))), r2))
                                else Inr (JFloat (signed negative (int (number_of (ds @ fr))))
                                            ((case ex of None \<Rightarrow> 0 | Some e \<Rightarrow> e) - int (length fr)), r2)))))))"

definition parse_number :: "str \<Rightarrow> json_error + json \<times> str" where
  "parse_number s = (if prefix [45] s then unsigned_number True (tl s) else unsigned_number False s)"

text \<open>The literals, each with what it stands for.\<close>

definition literals :: "(str \<times> json) list" where
  "literals =
     [(text_of ''null'', JNull), (text_of ''true'', JBool True), (text_of ''false'', JBool False),
      (text_of ''NaN'', JSpecial (text_of ''NaN'')), (text_of ''Infinity'', JSpecial (text_of ''Infinity'')),
      (text_of ''-Infinity'', JSpecial (text_of ''-Infinity''))]"

definition parse_literal :: "str \<Rightarrow> (json \<times> str) option" where
  "parse_literal s =
     (case find (\<lambda>(w, _). prefix w s) literals of
        None \<Rightarrow> None
      | Some (w, v) \<Rightarrow> Some (v, drop (length w) s))"

text \<open>
  The value at the front of a text. An object's member starts at its quote, an array's element at
  its first character. That each part leaves less text than it was given is tested where the
  recursion needs it, and \<open>parse_shorter\<close> proves that the test never fails.
\<close>

function parse_value :: "nat \<Rightarrow> str \<Rightarrow> json_error + json \<times> str"
  and parse_members :: "nat \<Rightarrow> (str, json) dict \<Rightarrow> str \<Rightarrow> json_error + json \<times> str"
  and parse_elements :: "nat \<Rightarrow> json list \<Rightarrow> str \<Rightarrow> json_error + json \<times> str" where
  "parse_value depth [] = Inl NotJson"
| "parse_value depth (c # cs) =
          (if c = 34 then (case scan_string cs of None \<Rightarrow> Inl NotJson | Some (t, r) \<Rightarrow> Inr (JStr t, r))
           else if c = 123 then
             (if depth = 0 then Inl TooDeep
              else if prefix [125] (skip_blank cs) then Inr (JObj [], tl (skip_blank cs))
              else parse_members (depth - 1) [] (skip_blank cs))
           else if c = 91 then
             (if depth = 0 then Inl TooDeep
              else if prefix [93] (skip_blank cs) then Inr (JList [], tl (skip_blank cs))
              else parse_elements (depth - 1) [] (skip_blank cs))
           else (case parse_literal (c # cs) of Some x \<Rightarrow> Inr x | None \<Rightarrow> parse_number (c # cs)))"
| "parse_members depth acc [] = Inl NotJson"
| "parse_members depth acc (q # cs) =
          (if q \<noteq> 34 then Inl NotJson
           else (case scan_string cs of
                   None \<Rightarrow> Inl NotJson
                 | Some (k, r) \<Rightarrow>
                     (case skip_blank r of
                        [] \<Rightarrow> Inl NotJson
                      | colon # r1 \<Rightarrow>
                          (if colon \<noteq> 58 \<or> \<not> length r1 < length (q # cs) then Inl NotJson
                           else (case parse_value depth (skip_blank r1) of
                                   Inl e \<Rightarrow> Inl e
                                 | Inr (v, r2) \<Rightarrow>
                                     (case skip_blank r2 of
                                        [] \<Rightarrow> Inl NotJson
                                      | d # r3 \<Rightarrow>
                                          (if d = 125 then Inr (JObj (dict_set acc k v), r3)
                                           else if d \<noteq> 44 \<or> \<not> length r3 < length (q # cs) then Inl NotJson
                                           else parse_members depth (dict_set acc k v) (skip_blank r3))))))))"
| "parse_elements depth acc [] = Inl NotJson"
| "parse_elements depth acc (c # cs) =
     (case parse_value depth (c # cs) of
        Inl e \<Rightarrow> Inl e
      | Inr (v, r) \<Rightarrow>
          (case skip_blank r of
             [] \<Rightarrow> Inl NotJson
           | d # r1 \<Rightarrow>
               (if d = 93 then Inr (JList (acc @ [v]), r1)
                else if d \<noteq> 44 \<or> \<not> length r1 < length (c # cs) then Inl NotJson
                else parse_elements depth (acc @ [v]) (skip_blank r1))))"
  by pat_completeness auto
termination
  by (relation "measure (\<lambda>x. case x of Inl (_, s) \<Rightarrow> 2 * length s | Inr (Inl (_, _, s)) \<Rightarrow> 2 * length s + 1
       | Inr (Inr (_, _, s)) \<Rightarrow> 2 * length s + 1)")
    (auto simp: skip_blank_less)

text \<open>The three as one equation each.\<close>

lemma parse_value_eq:
  "parse_value depth s =
     (case s of
        [] \<Rightarrow> Inl NotJson
      | c # cs \<Rightarrow>
          (if c = 34 then (case scan_string cs of None \<Rightarrow> Inl NotJson | Some (t, r) \<Rightarrow> Inr (JStr t, r))
           else if c = 123 then
             (if depth = 0 then Inl TooDeep
              else if prefix [125] (skip_blank cs) then Inr (JObj [], tl (skip_blank cs))
              else parse_members (depth - 1) [] (skip_blank cs))
           else if c = 91 then
             (if depth = 0 then Inl TooDeep
              else if prefix [93] (skip_blank cs) then Inr (JList [], tl (skip_blank cs))
              else parse_elements (depth - 1) [] (skip_blank cs))
           else (case parse_literal s of Some x \<Rightarrow> Inr x | None \<Rightarrow> parse_number s)))"
  by (induct s) (simp_all only: list.case parse_value.simps)

lemma parse_members_eq:
  "parse_members depth acc s =
     (case s of
        [] \<Rightarrow> Inl NotJson
      | q # cs \<Rightarrow>
          (if q \<noteq> 34 then Inl NotJson
           else (case scan_string cs of
                   None \<Rightarrow> Inl NotJson
                 | Some (k, r) \<Rightarrow>
                     (case skip_blank r of
                        [] \<Rightarrow> Inl NotJson
                      | colon # r1 \<Rightarrow>
                          (if colon \<noteq> 58 \<or> \<not> length r1 < length s then Inl NotJson
                           else (case parse_value depth (skip_blank r1) of
                                   Inl e \<Rightarrow> Inl e
                                 | Inr (v, r2) \<Rightarrow>
                                     (case skip_blank r2 of
                                        [] \<Rightarrow> Inl NotJson
                                      | d # r3 \<Rightarrow>
                                          (if d = 125 then Inr (JObj (dict_set acc k v), r3)
                                           else if d \<noteq> 44 \<or> \<not> length r3 < length s then Inl NotJson
                                           else parse_members depth (dict_set acc k v) (skip_blank r3)))))))))"
  by (induct s) (simp_all only: list.case parse_members.simps)

lemma parse_elements_eq:
  "parse_elements depth acc s =
     (case parse_value depth s of
        Inl e \<Rightarrow> Inl e
      | Inr (v, r) \<Rightarrow>
          (case skip_blank r of
             [] \<Rightarrow> Inl NotJson
           | d # r1 \<Rightarrow>
               (if d = 93 then Inr (JList (acc @ [v]), r1)
                else if d \<noteq> 44 \<or> \<not> length r1 < length s then Inl NotJson
                else parse_elements depth (acc @ [v]) (skip_blank r1))))"
  by (induct s) (simp_all only: list.case parse_elements.simps parse_value.simps sum.case)

text \<open>\<open>json.loads(text)\<close>.\<close>

definition loads :: "nat \<Rightarrow> str \<Rightarrow> json_error + json" where
  "loads depth s =
     (if prefix [65279] s then Inl NotJson
      else (case parse_value depth (skip_blank s) of
              Inl e \<Rightarrow> Inl e
            | Inr (v, rest) \<Rightarrow> (if skip_blank rest = [] then Inr v else Inl NotJson)))"

section \<open>Writing\<close>

text \<open>The values a record of the journal or of a manifest has: text, and a whole number.\<close>

datatype pyint = PyInt int | PyBool bool

datatype field = TextField str | NumberField pyint

fun int_of_pyint :: "pyint \<Rightarrow> int" where
  "int_of_pyint (PyInt n) = n"
| "int_of_pyint (PyBool b) = (if b then 1 else 0)"

fun json_of_field :: "field \<Rightarrow> json" where
  "json_of_field (TextField s) = JStr s"
| "json_of_field (NumberField (PyInt n)) = JInt n"
| "json_of_field (NumberField (PyBool b)) = JBool b"

definition hex_char :: "nat \<Rightarrow> nat" where "hex_char v = (if v < 10 then 48 + v else 87 + v)"

definition write_hex4 :: "nat \<Rightarrow> str" where
  "write_hex4 v =
     [92, 117, hex_char (v div 4096 mod 16), hex_char (v div 256 mod 16), hex_char (v div 16 mod 16), hex_char (v mod 16)]"

definition named_escape :: "nat \<Rightarrow> nat option" where
  "named_escape c = map_of [(34, 34), (92, 92), (8, 98), (12, 102), (10, 110), (13, 114), (9, 116)] c"

definition escape_char :: "nat \<Rightarrow> str" where
  "escape_char c =
     (case named_escape c of
        Some e \<Rightarrow> [92, e]
      | None \<Rightarrow>
          (if 32 \<le> c \<and> c \<le> 126 then [c]
           else if c < 65536 then write_hex4 c
           else write_hex4 (55296 + (c - 65536) div 1024) @ write_hex4 (56320 + (c - 65536) mod 1024)))"

definition write_string :: "str \<Rightarrow> str" where "write_string s = 34 # concat (map escape_char s) @ [34]"

fun write_nat :: "nat \<Rightarrow> str" where
  "write_nat n = (if n < 10 then [48 + n] else write_nat (n div 10) @ [48 + n mod 10])"

declare write_nat.simps [simp del]

definition write_int :: "int \<Rightarrow> str" where
  "write_int i = (if i < 0 then 45 # write_nat (nat (- i)) else write_nat (nat i))"

fun write_field :: "field \<Rightarrow> str" where
  "write_field (TextField s) = write_string s"
| "write_field (NumberField (PyInt n)) = write_int n"
| "write_field (NumberField (PyBool b)) = (if b then text_of ''true'' else text_of ''false'')"

definition write_member :: "str \<times> field \<Rightarrow> str" where
  "write_member m = write_string (fst m) @ [58, 32] @ write_field (snd m)"

fun write_members :: "(str \<times> field) list \<Rightarrow> str" where
  "write_members [] = []"
| "write_members [m] = write_member m"
| "write_members (m # m' # ms) = write_member m @ [44, 32] @ write_members (m' # ms)"

text \<open>\<open>json.dumps(document, sort_keys=True)\<close>.\<close>

definition dumps :: "(str, field) dict \<Rightarrow> str" where
  "dumps document = 123 # write_members (sort_key fst document) @ [125]"

section \<open>Reading back what was written\<close>

lemma hex_digit_char: "v < 16 \<Longrightarrow> hex_digit (hex_char v) = Some v"
  by (auto simp: hex_digit_def hex_char_def digit_def)

lemma sixteen: "v < 65536 \<Longrightarrow> v div 4096 mod 16 * 4096 + v div 256 mod 16 * 256 + v div 16 mod 16 * 16 + v mod 16 = (v :: nat)"
proof -
  assume v: "v < 65536"
  have "v div 256 = v div 16 div 16" "v div 4096 = v div 16 div 16 div 16"
    by (simp_all only: div_mult2_eq [symmetric]) simp_all
  moreover have "v div 16 div 16 div 16 mod 16 = v div 16 div 16 div 16" using v by (simp add: less_mult_imp_div_less)
  moreover have "c * 4096 + x * 256 + y * 16 + z = v"
    if "v = a * 16 + z" "a = b * 16 + y" "b = c * 16 + x" for a b c x y z
    using that by simp
  from this [OF div_mult_mod_eq [symmetric] div_mult_mod_eq [symmetric] div_mult_mod_eq [symmetric]]
  have "v div 16 div 16 div 16 * 4096 + v div 16 div 16 mod 16 * 256 + v div 16 mod 16 * 16 + v mod 16 = v" .
  ultimately show ?thesis by (simp only:)
qed

lemma hex4_write: "v < 65536 \<Longrightarrow> hex4 (drop 2 (write_hex4 v) @ rest) = Some v"
  using sixteen [of v] by (simp add: hex4_def write_hex4_def hex_digit_char)

lemma length_write_hex4 [simp]: "length (write_hex4 v) = 6" by (simp add: write_hex4_def)

lemma write_hex4_cut: "write_hex4 v = 92 # 117 # drop 2 (write_hex4 v)" by (simp add: write_hex4_def)

lemma glue_simps [simp]: "glue c None = None" "glue c (Some (s, r)) = Some (c # s, r)"
  by (simp_all add: glue_def)

lemma scan_hex4:
  assumes "v < 65536" "\<not> (55296 \<le> v \<and> v < 56320)"
  shows "scan_string (write_hex4 v @ rest) = glue v (scan_string rest)"
proof -
  have h: "hex4 (drop 2 (write_hex4 v) @ rest) = Some v" by (rule hex4_write) fact
  have d: "drop 4 (drop 2 (write_hex4 v) @ rest) = rest" by (simp add: write_hex4_def)
  show ?thesis
    by (subst write_hex4_cut) (use assms(2) in \<open>auto simp: h d simp del: drop_drop drop_append\<close>)
qed

lemma scan_pair:
  assumes "55296 \<le> v" "v < 56320" "56320 \<le> w" "w < 57344"
  shows "scan_string (write_hex4 v @ write_hex4 w @ rest) = glue (65536 + (v - 55296) * 1024 + (w - 56320)) (scan_string rest)"
proof -
  let ?m = "write_hex4 w @ rest"
  have h: "hex4 (drop 2 (write_hex4 v) @ ?m) = Some v" using assms by (intro hex4_write) simp
  have d: "drop 4 (drop 2 (write_hex4 v) @ ?m) = ?m" by (simp add: write_hex4_def)
  have d2: "drop 10 (drop 2 (write_hex4 v) @ ?m) = rest" by (simp add: write_hex4_def)
  have "hex4 (drop 2 (write_hex4 w) @ rest) = Some w" using assms by (intro hex4_write) simp
  then have l: "low_half ?m = Some w"
    by (subst write_hex4_cut) (use assms in \<open>simp add: low_half_def\<close>)
  show ?thesis
    by (subst write_hex4_cut [of v]) (use assms in \<open>simp add: h d d2 l del: drop_drop drop_append\<close>)
qed

lemma scan_escape:
  assumes "c < 1114112" "\<not> (55296 \<le> c \<and> c < 56320)"
  shows "scan_string (escape_char c @ rest) = glue c (scan_string rest)"
proof (cases "named_escape c")
  case (Some e)
  then show ?thesis by (auto simp: escape_char_def named_escape_def short_escape_def split: if_splits)
next
  case None
  then have ne: "c \<noteq> 34" "c \<noteq> 92" by (auto simp: named_escape_def)
  consider "32 \<le> c" "c \<le> 126" | "\<not> (32 \<le> c \<and> c \<le> 126)" "c < 65536" | "65536 \<le> c" by linarith
  then show ?thesis
  proof cases
    case 1
    then have "escape_char c = [c]" using None by (simp add: escape_char_def)
    then show ?thesis using 1 ne by simp
  next
    case 2
    then have "escape_char c = write_hex4 c" using None by (simp only: escape_char_def option.case) simp
    then show ?thesis using scan_hex4 [of c rest] 2 assms by simp
  next
    case 3
    let ?v = "55296 + (c - 65536) div 1024" and ?w = "56320 + (c - 65536) mod 1024"
    have "escape_char c = write_hex4 ?v @ write_hex4 ?w" using None 3 by (simp only: escape_char_def option.case) simp
    moreover have "(c - 65536) div 1024 < 1024" using assms(1) by (simp add: less_mult_imp_div_less)
    then have "scan_string (write_hex4 ?v @ write_hex4 ?w @ rest) =
        glue (65536 + (?v - 55296) * 1024 + (?w - 56320)) (scan_string rest)"
      by (intro scan_pair) simp_all
    moreover have "65536 + (?v - 55296) * 1024 + (?w - 56320) = c"
      using 3 div_mult_mod_eq [of "c - 65536" 1024] by simp
    ultimately show ?thesis by simp
  qed
qed

lemma scan_write: "path_text s \<Longrightarrow> scan_string (concat (map escape_char s) @ 34 # rest) = Some (s, rest)"
proof (induction s)
  case (Cons c s)
  then have "scan_string (escape_char c @ concat (map escape_char s) @ 34 # rest) = glue c (Some (s, rest))"
    using scan_escape [of c] by (simp add: path_text_def)
  then show ?case by simp
qed simp

lemma number_of_snoc: "number_of (ds @ [c]) = number_of ds * 10 + (c - 48)"
  by (simp add: number_of_def)

lemma write_nat_digits:
  "list_all digit (write_nat n)" "number_of (write_nat n) = n" "write_nat n \<noteq> []"
proof (induction n rule: write_nat.induct)
  case (1 n)
  show "list_all digit (write_nat n)" using 1 by (subst write_nat.simps) (auto, simp_all add: digit_def)
  show "number_of (write_nat n) = n"
  proof (cases "n < 10")
    case True
    then show ?thesis by (simp add: write_nat.simps number_of_def)
  next
    case False
    then have "number_of (write_nat n) = n div 10 * 10 + n mod 10"
      using 1(2) by (simp add: write_nat.simps [of n] number_of_snoc)
    then show ?thesis by simp
  qed
  show "write_nat n \<noteq> []" by (subst write_nat.simps) simp
qed

lemma write_nat_zero_first: "write_nat n = 48 # ds \<Longrightarrow> n = 0"
proof (induction n arbitrary: ds rule: write_nat.induct)
  case (1 n)
  show ?case
  proof (cases "n < 10")
    case True
    then show ?thesis using 1(2) by (simp add: write_nat.simps)
  next
    case False
    then have w: "write_nat (n div 10) @ [48 + n mod 10] = 48 # ds" using 1(2) by (simp add: write_nat.simps [of n])
    obtain c cs where c: "write_nat (n div 10) = c # cs" using write_nat_digits(3) by (cases "write_nat (n div 10)") auto
    have "n div 10 = 0" using 1(1) [OF False, of cs] c w by simp
    then show ?thesis using False by simp
  qed
qed

lemma length_write_nat: "n < 10 ^ k \<Longrightarrow> 0 < k \<Longrightarrow> length (write_nat n) \<le> k"
proof (induction k arbitrary: n)
  case (Suc k)
  show ?case
  proof (cases "n < 10 \<or> k = 0")
    case True
    then have "n < 10" using Suc.prems by auto
    then show ?thesis by (simp add: write_nat.simps)
  next
    case False
    have "n div 10 < 10 ^ k" using Suc.prems(1) by (simp add: less_mult_imp_div_less mult.commute)
    then show ?thesis using Suc.IH False by (subst write_nat.simps) simp
  qed
qed simp

text \<open>A number short enough for \<open>loads\<close>, as every size and time is.\<close>

definition short_int :: "int \<Rightarrow> bool" where "short_int i \<longleftrightarrow> length (write_nat (nat \<bar>i\<bar>)) \<le> 4300"

lemma short_int_64: "\<bar>i\<bar> < 2 ^ 64 \<Longrightarrow> short_int i"
proof -
  assume "\<bar>i\<bar> < 2 ^ 64"
  then have "nat \<bar>i\<bar> < 10 ^ 20" by (simp add: nat_less_iff)
  then show ?thesis using length_write_nat [of _ 20] by (fastforce simp: short_int_def)
qed

text \<open>A character a number ends at.\<close>

definition after_number :: "str \<Rightarrow> bool" where
  "after_number rest \<longleftrightarrow> (case rest of [] \<Rightarrow> True | c # _ \<Rightarrow> \<not> digit c \<and> c \<notin> {46, 69, 101})"

lemma take_digits_append:
  "list_all digit ds \<Longrightarrow> after_number rest \<Longrightarrow> take_digits (ds @ rest) = (ds, rest)"
  by (induction ds) (auto simp: take_digits_def after_number_def split: list.splits)

lemma unsigned_write:
  assumes "length (write_nat n) \<le> 4300" "after_number rest"
  shows "unsigned_number neg (write_nat n @ rest) = Inr (JInt (signed neg (int n)), rest)"
proof -
  obtain c cs where c: "write_nat n = c # cs" using write_nat_digits(3) by (cases "write_nat n") auto
  have dig: "list_all digit (c # cs)" "number_of (c # cs) = n" using write_nat_digits [of n] c by simp_all
  have len: "length (c # cs) \<le> 4300" using assms(1) c by simp
  have ends: "fraction rest = ([], rest)" "exponent rest = (None, rest)"
    using assms(2) by (auto simp: fraction_def exponent_def after_number_def split: list.splits)
  have "(if c = 48 then ([c], cs @ rest) else take_digits (c # cs @ rest)) = (c # cs, rest)"
  proof (cases "c = 48")
    case True
    then have "n = 0" using write_nat_zero_first c by simp
    then have "cs = []" using c by (simp add: write_nat.simps)
    then show ?thesis using True by simp
  next
    case False
    then show ?thesis using take_digits_append [OF dig(1) assms(2)] by simp
  qed
  then show ?thesis using dig ends len by (simp add: unsigned_number_def c)
qed

lemma parse_write_int:
  assumes "short_int i" "after_number rest"
  shows "parse_number (write_int i @ rest) = Inr (JInt i, rest)"
proof (cases "i < 0")
  case True
  then show ?thesis
    using unsigned_write [of "nat (- i)"] assms by (simp add: short_int_def parse_number_def write_int_def signed_def)
next
  case False
  then have "\<not> prefix [45] (write_nat (nat i) @ rest)"
    using write_nat_digits(1,3) [of "nat i"] by (cases "write_nat (nat i)") (auto simp: digit_def)
  then show ?thesis
    using False unsigned_write [of "nat i"] assms by (simp add: short_int_def parse_number_def write_int_def signed_def)
qed

section \<open>Reading back a document\<close>

declare parse_value.simps [simp del] parse_members.simps [simp del] parse_elements.simps [simp del]

lemma tl_skip_blank: "prefix [c] (skip_blank s) \<Longrightarrow> length (tl (skip_blank s)) < length s"
  using skip_blank_le [of s] by (cases "skip_blank s") simp_all

lemma scan_string_shorter: "scan_string s = Some (t, r) \<Longrightarrow> length r < length s"
proof (induction s arbitrary: t r rule: length_induct)
  case (1 s)
  have IH: "length r' < n" if "scan_string s' = Some (t', r')" "length s' < length s" "length s' \<le> n" for s' t' r' n
    using 1(1) that by fastforce
  show ?case
  proof (cases s)
    case (Cons c cs)
    then show ?thesis
      using 1(2) by (auto simp: glue_def split: if_splits option.splits list.splits intro: IH)
  qed (use 1 in simp)
qed

lemma parse_number_shorter: "parse_number s = Inr (v, r) \<Longrightarrow> length r < length s"
proof -
  have f: "length (snd (fraction s)) \<le> length s" for s
    by (auto simp: fraction_def take_digits_def length_dropWhile_le le_SucI split: list.splits prod.splits)
  have e: "length (snd (exponent s)) \<le> length s" for s
    by (auto simp: exponent_def take_digits_def Let_def length_dropWhile_le le_SucI split: list.splits prod.splits
        intro: le_trans [OF length_dropWhile_le])
  have u: "length r < length s" if u: "unsigned_number neg s = Inr (v, r)" for neg s
  proof -
    obtain c rest where s: "s = c # rest" "digit c" using u by (auto simp: unsigned_number_def split: list.splits if_splits)
    define q where "q = (if c = 48 then ([c], rest) else take_digits s)"
    have q: "length (snd q) \<le> length rest"
      using s by (simp add: q_def take_digits_def length_dropWhile_le)
    have "r = snd (exponent (snd (fraction (snd q))))"
      using u s by (auto simp: unsigned_number_def q_def split: prod.splits if_splits)
    then show ?thesis using q f [of "snd q"] e [of "snd (fraction (snd q))"] s by simp
  qed
  assume "parse_number s = Inr (v, r)"
  then show ?thesis using u [of True "tl s"] u [of False s] by (cases s) (auto simp: parse_number_def split: if_splits)
qed

lemma parse_literal_shorter: "parse_literal s = Some (v, r) \<Longrightarrow> length r < length s"
  by (auto simp: parse_literal_def literals_def text_of_def prefix_def split: if_splits)

lemma parse_shorter:
  "parse_value depth s = Inr (v, r) \<Longrightarrow> length r < length s"
  "parse_members depth acc s = Inr (v, r) \<Longrightarrow> length r < length s"
  "parse_elements depth es s = Inr (v, r) \<Longrightarrow> length r < length s"
proof (induction depth s and depth acc s and depth es s arbitrary: v r and v r and v r
    rule: parse_value_parse_members_parse_elements.induct)
  case (2 depth c cs)
  define s where s: "s = c # cs"
  note run = 2(3) [unfolded parse_value_eq [of depth "c # cs"] list.case]
  consider "c = 34" | "c = 123" | "c = 91" | "c \<noteq> 34" "c \<noteq> 123" "c \<noteq> 91" by blast
  then show ?case
  proof cases
    case 1
    then show ?thesis using run scan_string_shorter [of cs] by (fastforce simp: s split: option.splits)
  next
    case 2
    show ?thesis
    proof (cases "prefix [125] (skip_blank cs)")
      case True
      then show ?thesis using run 2 tl_skip_blank [of 125 cs] by (auto simp: s split: if_splits)
    next
      case False
      then have "parse_members (depth - 1) [] (skip_blank cs) = Inr (v, r)" "depth \<noteq> 0" using run 2 by (auto split: if_splits)
      then have "length r < length (skip_blank cs)" using "2.IH"(1) 2 False by simp
      then show ?thesis using skip_blank_le [of cs] by (simp add: s)
    qed
  next
    case 3
    show ?thesis
    proof (cases "prefix [93] (skip_blank cs)")
      case True
      then show ?thesis using run 3 tl_skip_blank [of 93 cs] by (auto simp: s split: if_splits)
    next
      case False
      then have "parse_elements (depth - 1) [] (skip_blank cs) = Inr (v, r)" "depth \<noteq> 0" using run 3 by (auto split: if_splits)
      then have "length r < length (skip_blank cs)" using "2.IH"(2) 3 False by simp
      then show ?thesis using skip_blank_le [of cs] by (simp add: s)
    qed
  next
    case 4
    then show ?thesis using run parse_literal_shorter [of s v r] parse_number_shorter [of s v r]
      by (auto simp: s split: option.splits)
  qed
next
  case (4 depth acc q cs)
  obtain k r0 r1 v2 r2 d r3 where s: "q = 34" "scan_string cs = Some (k, r0)" "skip_blank r0 = 58 # r1" "length r1 < length (q # cs)"
      "parse_value depth (skip_blank r1) = Inr (v2, r2)" "skip_blank r2 = d # r3"
      "d = 125 \<and> r = r3 \<or> d \<noteq> 125 \<and> d = 44 \<and> length r3 < length (q # cs) \<and>
         parse_members depth (dict_set acc k v2) (skip_blank r3) = Inr (v, r)"
    using 4(3) by (subst (asm) parse_members_eq) (auto split: list.splits if_splits option.splits sum.splits)
  have "length r2 < length (skip_blank r1)" using "4.IH"(1) s by simp
  then have "length r3 < length (q # cs)" using skip_blank_le [of r1] skip_blank_le [of r2] s(4,6) by simp
  moreover have "length r < length (skip_blank r3)" if "d \<noteq> 125" using "4.IH"(2) s that by simp
  ultimately show ?case using s(7) skip_blank_le [of r3] by (cases "d = 125") auto
next
  case (6 depth es c cs)
  obtain v1 r0 d r1 where s: "parse_value depth (c # cs) = Inr (v1, r0)" "skip_blank r0 = d # r1"
      "d = 93 \<and> r = r1 \<or> d \<noteq> 93 \<and> d = 44 \<and> length r1 < length (c # cs) \<and> parse_elements depth (es @ [v1]) (skip_blank r1) = Inr (v, r)"
    using 6(3) by (subst (asm) parse_elements_eq) (auto split: list.splits if_splits sum.splits)
  have "length r0 < length (c # cs)" using "6.IH"(1) s by simp
  then have "length r1 < length (c # cs)" using skip_blank_le [of r0] s(2) by simp
  moreover have "length r < length (skip_blank r1)" if "d \<noteq> 93" using "6.IH"(2) s that by simp
  ultimately show ?case using s(3) skip_blank_le [of r1] by (cases "d = 93") auto
qed (simp_all add: parse_value_eq parse_members_eq parse_elements.simps)

definition field_ok :: "field \<Rightarrow> bool" where
  "field_ok f = (case f of TextField s \<Rightarrow> path_text s | NumberField n \<Rightarrow> short_int (int_of_pyint n))"

definition document_ok :: "(str, field) dict \<Rightarrow> bool" where
  "document_ok d \<longleftrightarrow> dict_wf d \<and> list_all (\<lambda>(k, f). path_text k \<and> field_ok f) d"

lemma write_int_head:
  obtains c cs where "write_int i = c # cs" "digit c" | c cs where "write_int i = 45 # c # cs" "digit c"
proof -
  obtain c cs where c: "write_nat (nat \<bar>i\<bar>) = c # cs" using write_nat_digits(3) by (cases "write_nat (nat \<bar>i\<bar>)") auto
  then have "digit c" using write_nat_digits(1) [of "nat \<bar>i\<bar>"] by simp
  then show ?thesis using that c by (cases "i < 0") (auto simp: write_int_def)
qed

lemma parse_write_field:
  assumes "field_ok f" "c = 44 \<or> c = 125"
  shows "parse_value depth (write_field f @ c # rest) = Inr (json_of_field f, c # rest)"
proof (cases f)
  case (TextField s)
  then show ?thesis
    using assms scan_write [of s "c # rest"] by (simp add: parse_value_eq field_ok_def write_string_def)
next
  case (NumberField n)
  show ?thesis
  proof (cases n)
    case (PyInt i)
    have p: "parse_number (write_int i @ c # rest) = Inr (JInt i, c # rest)"
      using assms NumberField PyInt
      by (intro parse_write_int) (auto simp: field_ok_def after_number_def digit_def)
    show ?thesis
    proof (cases rule: write_int_head [of i])
      case (1 d ds)
      then have "parse_literal (d # ds @ c # rest) = None"
        by (auto simp: parse_literal_def literals_def text_of_def digit_def)
      then show ?thesis using p 1 NumberField PyInt by (simp add: parse_value_eq digit_def)
    next
      case (2 d ds)
      then have "parse_literal (45 # d # ds @ c # rest) = None"
        by (auto simp: parse_literal_def literals_def text_of_def digit_def)
      then show ?thesis using p 2 NumberField PyInt by (simp add: parse_value_eq)
    qed
  next
    case (PyBool b)
    then show ?thesis
      using NumberField by (auto simp: parse_value_eq parse_literal_def literals_def text_of_def)
  qed
qed

lemma skip_plain [simp]: "\<not> blank c \<Longrightarrow> skip_blank (c # s) = c # s" "blank c \<Longrightarrow> skip_blank (c # s) = skip_blank s"
  by (simp_all add: skip_blank_def)

lemma write_field_head: "\<exists>c cs. write_field f = c # cs \<and> \<not> blank c"
proof (cases f)
  case (TextField s)
  then show ?thesis by (simp add: write_string_def blank_def)
next
  case (NumberField n)
  show ?thesis
  proof (cases n)
    case (PyInt i)
    show ?thesis
      by (cases rule: write_int_head [of i]) (use NumberField PyInt in \<open>auto simp: digit_def blank_def\<close>)
  next
    case (PyBool b)
    then show ?thesis using NumberField by (simp add: text_of_def blank_def)
  qed
qed

lemma skip_field: "skip_blank (write_field f @ rest) = write_field f @ rest"
  using write_field_head [of f] by auto

lemma blank_simps [simp]: "blank 32" "\<not> blank 34" "\<not> blank 58" "\<not> blank 44" "\<not> blank 125" "\<not> blank 123" "\<not> blank 91"
  by (simp_all add: blank_def)

definition read_back :: "(str, json) dict \<Rightarrow> (str \<times> field) list \<Rightarrow> (str, json) dict" where
  "read_back acc ms = foldl (\<lambda>d (k, f). dict_set d k (json_of_field f)) acc ms"

lemma read_member:
  assumes "path_text k" "field_ok f" "c = 44 \<or> c = 125"
  shows "parse_members depth acc (write_member (k, f) @ c # rest) =
    (if c = 125 then Inr (JObj (dict_set acc k (json_of_field f)), rest)
     else parse_members depth (dict_set acc k (json_of_field f)) (skip_blank rest))"
proof -
  have s: "scan_string (concat (map escape_char k) @ 34 # 58 # 32 # write_field f @ c # rest) =
      Some (k, 58 # 32 # write_field f @ c # rest)"
    using scan_write assms(1) by blast
  have v: "parse_value depth (write_field f @ c # rest) = Inr (json_of_field f, c # rest)"
    using assms by (intro parse_write_field)
  have k: "skip_blank (c # rest) = c # rest" using assms(3) by auto
  show ?thesis
    by (subst parse_members_eq) (use assms(3) in \<open>auto simp: write_member_def write_string_def s v k skip_field\<close>)
qed

lemma read_members:
  assumes "ms \<noteq> []" "list_all (\<lambda>(k, f). path_text k \<and> field_ok f) ms"
  shows "parse_members depth acc (write_members ms @ 125 # rest) = Inr (JObj (read_back acc ms), rest)"
  using assms
proof (induction ms arbitrary: acc rule: write_members.induct)
  case (2 m)
  then show ?case by (cases m) (simp add: read_member read_back_def)
next
  case (3 m m' ms)
  obtain k f where m: "m = (k, f)" by (cases m)
  have "skip_blank (write_members (m' # ms) @ 125 # rest) = write_members (m' # ms) @ 125 # rest"
    by (cases ms) (simp_all add: write_member_def write_string_def)
  then show ?case using 3 by (simp add: m read_member read_back_def)
qed simp

lemma read_back_get:
  "distinct (map fst ms) \<Longrightarrow> dict_get (read_back acc ms) k =
    (case map_of ms k of Some f \<Rightarrow> Some (json_of_field f) | None \<Rightarrow> dict_get acc k)"
proof (induction ms arbitrary: acc)
  case (Cons m ms)
  obtain k' f where m: "m = (k', f)" by (cases m)
  have "read_back acc (m # ms) = read_back (dict_set acc k' (json_of_field f)) ms" by (simp add: read_back_def m)
  moreover have "map_of ms k' = None" using Cons.prems by (simp add: m map_of_eq_None_iff)
  ultimately show ?case using Cons by (auto simp: m split: option.splits)
qed (simp add: read_back_def)

lemma sorted_get: "dict_wf d \<Longrightarrow> map_of (sort_key fst d) k = dict_get d k"
proof -
  assume d: "dict_wf d"
  then have "distinct (map fst (sort_key fst d))"
    unfolding dict_wf_def by (metis distinct_map distinct_sort set_sort)
  then show ?thesis using d unfolding dict_get_def dict_wf_def
    by (intro map_of_inject_set [THEN iffD2, THEN fun_cong]) simp_all
qed

lemma loads_dumps:
  assumes "document_ok d" "0 < depth"
  shows "loads depth (dumps d) = Inr (JObj (read_back [] (sort_key fst d)))"
proof -
  let ?ms = "sort_key fst d"
  have ok: "list_all (\<lambda>(k, f). path_text k \<and> field_ok f) ?ms"
    using assms(1) by (simp add: document_ok_def list_all_iff)
  show ?thesis
  proof (cases "?ms = []")
    case True
    then show ?thesis using assms(2)
      by (simp add: loads_def dumps_def parse_value_eq read_back_def) (simp add: skip_blank_def)
  next
    case False
    then obtain m ms where "?ms = m # ms" by (cases ?ms) auto
    then obtain r where q: "write_members ?ms @ [125] = 34 # r"
      by (cases ms) (simp_all add: write_member_def write_string_def)
    then have sk: "skip_blank (write_members ?ms @ [125]) = write_members ?ms @ [125]" "\<not> prefix [125] (write_members ?ms @ [125])"
      unfolding q by simp_all
    have "parse_members (depth - 1) [] (write_members ?ms @ [125]) = Inr (JObj (read_back [] ?ms), [])"
      by (rule read_members [OF False ok])
    then show ?thesis using assms(2) sk
      by (simp add: loads_def dumps_def parse_value_eq) (simp add: skip_blank_def)
  qed
qed

text \<open>Reading a document back gives every member the value it was written with.\<close>

lemma loads_dumps_get:
  assumes "document_ok d" "0 < depth"
  obtains ms where "loads depth (dumps d) = Inr (JObj ms)" "\<And>k. dict_get ms k = map_option json_of_field (dict_get d k)"
proof
  show "loads depth (dumps d) = Inr (JObj (read_back [] (sort_key fst d)))" by (rule loads_dumps [OF assms])
  have wf: "dict_wf d" using assms(1) by (simp add: document_ok_def)
  then have "distinct (map fst (sort_key fst d))"
    unfolding dict_wf_def by (metis distinct_map distinct_sort set_sort)
  then show "dict_get (read_back [] (sort_key fst d)) k = map_option json_of_field (dict_get d k)" for k
    using read_back_get [of "sort_key fst d" "[]" k] sorted_get [OF wf, of k] by (auto split: option.splits)
qed

text \<open>What is written is printable ASCII, so it is one line of a file.\<close>

definition printable :: "nat \<Rightarrow> bool" where "printable c \<longleftrightarrow> 32 \<le> c \<and> c < 127"

lemma write_hex4_printable: "list_all printable (write_hex4 v)"
proof -
  have "printable (hex_char (x mod 16))" for x
  proof -
    have "x mod 16 < 16" by simp
    then show ?thesis unfolding hex_char_def printable_def by (auto simp del: mod_less_divisor)
  qed
  then show ?thesis by (simp add: write_hex4_def printable_def)
qed

lemma escape_printable: "list_all printable (escape_char c)"
  using write_hex4_printable
  by (auto simp: escape_char_def named_escape_def printable_def [of 92] split: option.splits if_splits)
    (auto simp: printable_def)

lemma write_string_printable: "list_all printable (write_string s)"
  using escape_printable by (induction s) (auto simp: write_string_def printable_def [of 34])

lemma digits_printable: "list_all digit ds \<Longrightarrow> list_all printable ds"
  by (auto simp: list_all_iff digit_def printable_def)

lemma write_field_printable: "list_all printable (write_field f)"
proof (induction f rule: write_field.induct)
  case (2 n)
  then show ?case using write_nat_digits(1) digits_printable by (simp add: write_int_def printable_def [of 45])
qed (auto simp: write_string_printable, auto simp: text_of_def printable_def)

lemma write_members_printable: "list_all printable (write_members ms)"
  by (induction ms rule: write_members.induct)
    (auto simp: write_member_def write_string_printable write_field_printable, simp_all add: printable_def)

lemma dumps_printable: "list_all printable (dumps d)"
  using write_members_printable by (simp add: dumps_def) (simp add: printable_def)

section \<open>A document cut short\<close>

text \<open>Text after the closing quote does not matter to the string before it.\<close>

lemma hex4_append: "hex4 s = Some v \<Longrightarrow> hex4 (s @ q) = Some v \<and> 4 \<le> length s"
  by (auto simp: hex4_def split: list.splits)

lemma low_half_append:
  assumes "scan_string s = Some x" shows "low_half (s @ q) = low_half s"
proof -
  obtain c cs where s: "s = c # cs" using assms by (cases s) auto
  show ?thesis
  proof (cases "c = 92")
    case True
    then obtain u us where cs: "cs = u # us" using assms s by (cases cs) auto
    show ?thesis
    proof (cases "u = 117")
      case u: True
      then obtain v where "hex4 us = Some v" using assms s cs True by (cases "hex4 us") auto
      then show ?thesis using hex4_append [of us v q] s cs True u by (simp add: low_half_def)
    qed (simp add: low_half_def s cs)
  qed (auto simp: low_half_def s split: list.splits)
qed

lemma scan_append: "scan_string s = Some (t, r) \<Longrightarrow> scan_string (s @ q) = Some (t, r @ q)"
proof (induction s arbitrary: t r rule: length_induct)
  case (1 s)
  have IH: "scan_string (s' @ q) = Some (t', r' @ q)" if "scan_string s' = Some (t', r')" "length s' < length s" for s' t' r'
    using 1(1) that by blast
  obtain c cs where s: "s = c # cs" using 1(2) by (cases s) auto
  consider "c = 34" | "c \<noteq> 34" "c \<noteq> 92" | e rest where "c = 92" "cs = e # rest" "e \<noteq> 117"
    | rest v where "c = 92" "cs = 117 # rest" "hex4 rest = Some v"
    using 1(2) s by (cases cs) (auto split: option.splits if_splits)
  then show ?case
  proof cases
    case 1
    then show ?thesis using \<open>scan_string s = Some (t, r)\<close> s by simp
  next
    case 2
    then show ?thesis using \<open>scan_string s = Some (t, r)\<close> s IH [of cs] by (auto simp: glue_def split: if_splits)
  next
    case 3
    then show ?thesis using \<open>scan_string s = Some (t, r)\<close> s IH [of rest] by (auto simp: glue_def split: option.splits)
  next
    case 4
    have h: "hex4 (rest @ q) = Some v" "4 \<le> length rest" using hex4_append [OF 4(3), of q] by simp_all
    have d4: "drop 4 (rest @ q) = drop 4 rest @ q" using h(2) by simp
    let ?low = "\<lambda>s. if 55296 \<le> v \<and> v < 56320 then low_half s else None"
    show ?thesis
    proof (cases "?low (drop 4 rest)")
      case None
      then obtain t' where t': "scan_string (drop 4 rest) = Some (t', r)" "t = v # t'"
        using \<open>scan_string s = Some (t, r)\<close> s 4 by (auto simp: glue_def split: if_splits)
      have "?low (drop 4 (rest @ q)) = None" unfolding d4 low_half_append [OF t'(1)] by (rule None)
      then show ?thesis using s 4 h t' d4 IH [OF t'(1)] by (simp del: drop_append)
    next
      case (Some w)
      then obtain t' where t': "scan_string (drop 10 rest) = Some (t', r)" "t = (65536 + (v - 55296) * 1024 + (w - 56320)) # t'"
        using \<open>scan_string s = Some (t, r)\<close> s 4 by (auto simp: glue_def split: if_splits)
      have low: "low_half (drop 4 rest) = Some w" using Some by (simp split: if_splits)
      then obtain x y rest' where x: "drop 4 rest = x # y # rest'" "hex4 rest' = Some w" "x = 92" "y = 117"
        by (auto simp: low_half_def split: list.splits if_splits option.splits)
      have len: "10 \<le> length rest" using arg_cong [OF x(1), of length] hex4_append [OF x(2), of "[]", THEN conjunct2] by simp
      then have d10: "drop 10 (rest @ q) = drop 10 rest @ q" by simp
      have "low_half (drop 4 rest @ q) = Some w"
        using x hex4_append [OF x(2), of q] low by (simp add: low_half_def)
      then have "?low (drop 4 (rest @ q)) = Some w" using Some d4 by (simp split: if_splits)
      then show ?thesis using s 4 h t' d10 IH [OF t'(1)] by (simp del: drop_append)
    qed
  qed
qed

text \<open>A string cut before its closing quote is not one.\<close>

lemma scan_cut:
  assumes "path_text s" "prefix p (concat (map escape_char s) @ [34])" "p \<noteq> concat (map escape_char s) @ [34]"
  shows "scan_string p = None"
proof (rule ccontr)
  assume "scan_string p \<noteq> None"
  then obtain t r where "scan_string p = Some (t, r)" by auto
  moreover obtain q where q: "concat (map escape_char s) @ [34] = p @ q" using assms(2) by (auto simp: prefix_def)
  ultimately have "scan_string (concat (map escape_char s) @ [34]) = Some (t, r @ q)" using scan_append by simp
  then show False using scan_write [OF assms(1), of "[]"] q assms(3) by simp
qed

lemma digits_cut:
  assumes "list_all digit ds" "length ds \<le> 4300"
  shows "case unsigned_number neg ds of Inl e \<Rightarrow> e = NotJson | Inr (v, r) \<Rightarrow> list_all digit r"
proof (cases ds)
  case (Cons c cs)
  have f: "fraction r = ([], r)" "exponent r = (None, r)" if "list_all digit r" for r
    using that by (auto simp: fraction_def exponent_def digit_def split: list.splits)
  have t: "take_digits ds = (ds, [])" using assms(1) take_digits_append [of ds "[]"] by (simp add: after_number_def)
  show ?thesis using assms Cons t f [of cs] f [of "[]"] by (auto simp: unsigned_number_def)
qed (simp add: unsigned_number_def)

lemma parse_not_literal: "c # cs = s \<Longrightarrow> digit c \<or> c = 45 \<and> (cs = [] \<or> digit (hd cs)) \<Longrightarrow> parse_literal s = None"
  by (cases cs) (auto simp: parse_literal_def literals_def text_of_def digit_def)

lemma field_cut:
  assumes "field_ok f" "prefix p (write_field f)"
  shows "case parse_value depth p of Inl e \<Rightarrow> e = NotJson | Inr (v, r) \<Rightarrow> list_all digit r"
proof (cases p)
  case Nil
  then show ?thesis by (simp add: parse_value_eq)
next
  case (Cons c cs)
  show ?thesis
  proof (cases f)
    case (TextField s)
    then have c: "c = 34" "prefix cs (concat (map escape_char s) @ [34])" using assms(2) Cons by (simp_all add: write_string_def)
    show ?thesis
    proof (cases "cs = concat (map escape_char s) @ [34]")
      case True
      then show ?thesis using scan_write [of s "[]"] assms(1) TextField Cons c by (simp add: field_ok_def parse_value_eq)
    next
      case False
      then show ?thesis using scan_cut [of s cs] assms(1) TextField Cons c by (simp add: field_ok_def parse_value_eq)
    qed
  next
    case (NumberField n)
    show ?thesis
    proof (cases n)
      case (PyInt i)
      let ?w = "write_nat (nat \<bar>i\<bar>)"
      have len: "length ?w \<le> 4300" using assms(1) NumberField PyInt by (simp add: field_ok_def short_int_def)
      have digs: "list_all digit ds \<and> length ds \<le> 4300" if "prefix ds ?w" for ds
        using that write_nat_digits(1) [of "nat \<bar>i\<bar>"] len prefix_length_le [OF that]
        by (auto simp: prefix_def)
      show ?thesis
      proof (cases "i < 0")
        case True
        then have c: "c = 45" "prefix cs ?w" using assms(2) NumberField PyInt Cons by (simp_all add: write_int_def)
        have "parse_literal p = None"
          using parse_not_literal [of c cs p] c Cons digs [of cs] by (cases cs) simp_all
        then show ?thesis using digits_cut [of cs True] digs [OF c(2)] c Cons by (simp add: parse_value_eq parse_number_def)
      next
        case False
        then have c: "prefix p ?w" using assms(2) NumberField PyInt by (simp add: write_int_def)
        have "digit c" using digs [OF c] Cons by simp
        moreover from this have "parse_literal p = None" using parse_not_literal [of c cs p] Cons by simp
        ultimately show ?thesis using digits_cut [of p False] digs [OF c] Cons
          by (auto simp: parse_value_eq parse_number_def digit_def)
      qed
    next
      case (PyBool b)
      have p: "p \<in> set (prefixes (write_field f))" using assms(2) by simp
      show ?thesis
        using p NumberField PyBool
        by (cases b) (auto simp: parse_value_eq parse_literal_def literals_def text_of_def parse_number_def unsigned_number_def digit_def)
    qed
  qed
qed

lemma member_cut:
  assumes "path_text k" "field_ok f" "prefix p (write_member (k, f))"
  shows "parse_members depth acc p = Inl NotJson"
proof (cases p)
  case Nil
  then show ?thesis by (simp add: parse_members_eq)
next
  case (Cons c cs)
  let ?body = "concat (map escape_char k) @ [34]"
  have c: "c = 34" "prefix cs (?body @ 58 # 32 # write_field f)"
    using assms(3) Cons by (simp_all add: write_member_def write_string_def)
  consider "cs \<noteq> ?body" "prefix cs ?body" | "cs = ?body" | "cs = ?body @ [58]" | p' where "cs = ?body @ 58 # 32 # p'" "prefix p' (write_field f)"
    using c(2) by (auto simp: prefix_append prefix_Cons)
  then show ?thesis
  proof cases
    case 1
    then show ?thesis using scan_cut [OF assms(1), of cs] Cons c by (simp add: parse_members_eq)
  next
    case 2
    then show ?thesis using scan_write [OF assms(1), of "[]"] Cons c
      by (simp add: parse_members_eq) (simp add: skip_blank_def)
  next
    case 3
    then have "scan_string cs = Some (k, [58])" using scan_write [OF assms(1), of "[58]"] by simp
    then show ?thesis using Cons c
      by (simp add: parse_members_eq) (simp add: skip_blank_def parse_value_eq)
  next
    case 4
    then have s: "scan_string cs = Some (k, 58 # 32 # p')" using scan_write [OF assms(1), of "58 # 32 # p'"] by simp
    have sk: "skip_blank p' = p'"
      using 4(2) write_field_head [of f] by (cases p') (auto simp: skip_blank_def)
    have stop: "case skip_blank r of [] \<Rightarrow> True | d # _ \<Rightarrow> d \<noteq> 125 \<and> d \<noteq> 44" if "list_all digit r" for r
      using that by (cases r) (auto simp: skip_blank_def blank_def digit_def)
    show ?thesis
    proof (cases "parse_value depth p'")
      case (Inl e)
      then show ?thesis using field_cut [OF assms(2) 4(2), of depth] s sk Cons c by (simp add: parse_members_eq)
    next
      case (Inr x)
      obtain v r where x: "x = (v, r)" by (cases x)
      then have "list_all digit r" using field_cut [OF assms(2) 4(2), of depth] Inr by simp
      from stop [OF this] show ?thesis using s sk Cons c Inr x
        by (auto simp: parse_members_eq split: list.splits)
    qed
  qed
qed

lemma members_cut:
  assumes "list_all (\<lambda>(k, f). path_text k \<and> field_ok f) ms" "prefix p (write_members ms)"
  shows "parse_members depth acc p = Inl NotJson"
  using assms
proof (induction ms arbitrary: acc p rule: write_members.induct)
  case 1
  then show ?case by (simp add: parse_members_eq)
next
  case (2 m)
  obtain k f where "m = (k, f)" by (cases m)
  then show ?case using 2 member_cut [of k f p] by simp
next
  case (3 m m' ms)
  obtain k f where m: "m = (k, f)" by (cases m)
  have ok: "path_text k" "field_ok f" using 3(2) by (simp_all add: m)
  consider "prefix p (write_member m)" | "p = write_member m @ [44]" | p' where "p = write_member m @ 44 # 32 # p'" "prefix p' (write_members (m' # ms))"
    using 3(3) by (auto simp: prefix_append prefix_Cons)
  then show ?case
  proof cases
    case 1
    then show ?thesis using member_cut ok m by simp
  next
    case 2
    then show ?thesis using read_member [OF ok, of 44] m by (simp add: skip_blank_def parse_members_eq)
  next
    case 3
    have "skip_blank p' = p'"
      using \<open>prefix p' (write_members (m' # ms))\<close>
      by (cases ms; cases p') (auto simp: write_member_def write_string_def skip_blank_def blank_def)
    then show ?thesis
      using "3.IH" [of p'] \<open>list_all _ (m # m' # ms)\<close> 3 read_member [OF ok, of 44] m by simp
  qed
qed

text \<open>A document cut anywhere before its last character is not JSON.\<close>

lemma dumps_cut:
  assumes "document_ok d" "0 < depth" "prefix p (dumps d)" "p \<noteq> dumps d"
  shows "loads depth p = Inl NotJson"
proof (cases p)
  case Nil
  then show ?thesis by (simp add: loads_def skip_blank_def parse_value_eq)
next
  case (Cons c cs)
  let ?ms = "sort_key fst d"
  have ok: "list_all (\<lambda>(k, f). path_text k \<and> field_ok f) ?ms"
    using assms(1) by (simp add: document_ok_def list_all_iff)
  have c: "c = 123" "prefix cs (write_members ?ms)" using assms(3,4) Cons by (auto simp: dumps_def)
  have head: "cs = [] \<or> (\<exists>r. cs = 34 # r)"
    using c(2) by (cases ?ms rule: write_members.cases; cases cs) (auto simp: write_member_def write_string_def)
  then have sk: "skip_blank cs = cs" "\<not> prefix [125] cs" by (auto simp: skip_blank_def blank_def)
  show ?thesis using members_cut [OF ok c(2)] sk assms(2) Cons c
    by (simp add: loads_def parse_value_eq)
qed

end
