(* ===== verification/Journal.thy ===== *)
theory Journal
  imports Json Acts
begin

text \<open>
  The upload journal, \<open>session/_journal.py\<close>: an append-only log of which staging file an interrupted
  upload was writing, one JSON document per line. \<open>fold_log\<close> reads it whole, \<open>staged_for\<close> reads what
  was appended since the last lookup, \<open>compact\<close> rewrites it through a temporary file. The local file
  system is a parameter, \<open>file_ops\<close>; what a lookup finds at the path is a \<open>log_file\<close>.
\<close>

section \<open>Records\<close>

definition JOURNAL_VERSION :: int where "JOURNAL_VERSION = 1"
definition STAGED_EVENT :: str where "STAGED_EVENT = text_of ''staged''"
definition PUBLISHED_EVENT :: str where "PUBLISHED_EVENT = text_of ''published''"

record source_identity =
  src_path :: str
  src_size :: int
  src_mtime :: int

text \<open>The answer of \<open>stat\<close> is the size and the modification time in whole seconds, or a failure.\<close>

definition source_identity_of :: "str \<Rightarrow> (int \<times> int) option \<Rightarrow> source_identity" where
  "source_identity_of local_path status =
     (case status of
        None \<Rightarrow> \<lparr>src_path = local_path, src_size = 0, src_mtime = 0\<rparr>
      | Some (n, mtime) \<Rightarrow> \<lparr>src_path = local_path, src_size = n, src_mtime = mtime\<rparr>)"

record journal_entry =
  je_staged :: bytes
  je_target :: bytes
  je_local_path :: str
  je_local_size :: pyint
  je_local_mtime :: pyint

definition entry_matches :: "journal_entry \<Rightarrow> source_identity \<Rightarrow> bool" where
  "entry_matches entry source \<longleftrightarrow>
     je_local_path entry = src_path source \<and>
     int_of_pyint (je_local_size entry) = src_size source \<and>
     int_of_pyint (je_local_mtime entry) = src_mtime source"

definition journal_line :: "str \<Rightarrow> (str, field) dict \<Rightarrow> bytes" where
  "journal_line event extra =
     map of_nat (dumps (foldl (\<lambda>d (k, f). dict_set d k f)
       [(text_of ''version'', NumberField (PyInt JOURNAL_VERSION)), (text_of ''event'', TextField event)] extra)) @ [10]"

definition fields_of :: "journal_entry \<Rightarrow> (str, field) dict" where
  "fields_of entry =
     [(text_of ''staged'', TextField (decode_name (je_staged entry))),
      (text_of ''target'', TextField (decode_name (je_target entry))),
      (text_of ''local'', TextField (je_local_path entry)),
      (text_of ''local_size'', NumberField (je_local_size entry)),
      (text_of ''local_mtime'', NumberField (je_local_mtime entry))]"

section \<open>Folding lines\<close>

text \<open>What escapes the fold: an integer of too many digits, nesting, a name that is not encodable.\<close>

datatype journal_error = IntegerTooLong | RecursionTooDeep | NotEncodable

type_synonym in_flight = "(str, journal_entry) dict"

text \<open>
  \<open>value == 1\<close>: also \<open>true\<close>, and any decimal that rounds to the double \<open>1.0\<close>, from half a unit
  below to half a unit above.
\<close>

definition equals_one :: "json \<Rightarrow> bool" where
  "equals_one v =
     (case v of
        JInt n \<Rightarrow> n = 1
      | JBool b \<Rightarrow> b
      | JFloat m e \<Rightarrow>
          (if 0 \<le> e then (2 ^ 54 - 1) \<le> m * 10 ^ nat e * 2 ^ 54 \<and> m * 10 ^ nat e * 2 ^ 54 \<le> 2 ^ 54 + 2
           else (2 ^ 54 - 1) * 10 ^ nat (- e) \<le> m * 2 ^ 54 \<and> m * 2 ^ 54 \<le> (2 ^ 54 + 2) * 10 ^ nat (- e))
      | _ \<Rightarrow> False)"

definition text_field :: "(str, json) dict \<Rightarrow> string \<Rightarrow> str option" where
  "text_field record key = (case dict_get record (text_of key) of Some (JStr s) \<Rightarrow> Some s | _ \<Rightarrow> None)"

definition number_field :: "(str, json) dict \<Rightarrow> string \<Rightarrow> pyint option" where
  "number_field record key =
     (case dict_get record (text_of key) of
        Some (JInt n) \<Rightarrow> Some (PyInt n)
      | Some (JBool b) \<Rightarrow> Some (PyBool b)
      | _ \<Rightarrow> None)"

definition entry_from :: "(str, json) dict \<Rightarrow> journal_error + journal_entry option" where
  "entry_from record =
     (case (text_field record ''staged'', text_field record ''target'', text_field record ''local'',
            number_field record ''local_size'', number_field record ''local_mtime'') of
        (Some staged, Some target, Some local_path, Some n, Some mtime) \<Rightarrow>
          (case (encode_text staged, encode_text target) of
             (Some s, Some t) \<Rightarrow>
               Inr (Some \<lparr>je_staged = s, je_target = t, je_local_path = local_path, je_local_size = n, je_local_mtime = mtime\<rparr>)
           | _ \<Rightarrow> Inl NotEncodable)
      | _ \<Rightarrow> Inr None)"

definition apply_line :: "nat \<Rightarrow> in_flight \<Rightarrow> str \<Rightarrow> journal_error + in_flight" where
  "apply_line depth entries line =
     (case loads depth line of
        Inl NotJson \<Rightarrow> Inr entries
      | Inl TooManyDigits \<Rightarrow> Inl IntegerTooLong
      | Inl TooDeep \<Rightarrow> Inl RecursionTooDeep
      | Inr (JObj document) \<Rightarrow>
          (case dict_get document (text_of ''version'') of
             None \<Rightarrow> Inr entries
           | Some version \<Rightarrow>
               (if \<not> equals_one version then Inr entries
                else (case text_field document ''target'' of
                        None \<Rightarrow> Inr entries
                      | Some target \<Rightarrow>
                          (if text_field document ''event'' = Some PUBLISHED_EVENT then Inr (dict_pop entries target)
                           else if text_field document ''event'' \<noteq> Some STAGED_EVENT then Inr entries
                           else (case entry_from document of
                                   Inl e \<Rightarrow> Inl e
                                 | Inr None \<Rightarrow> Inr entries
                                 | Inr (Some entry) \<Rightarrow> Inr (dict_set entries target entry))))))
      | Inr _ \<Rightarrow> Inr entries)"

text \<open>The loop over lines: the dictionary is updated in place, so a line that raises leaves what came before it.\<close>

fun apply_lines :: "nat \<Rightarrow> in_flight \<Rightarrow> str list \<Rightarrow> in_flight \<times> journal_error option" where
  "apply_lines depth entries [] = (entries, None)"
| "apply_lines depth entries (line # lines) =
     (case apply_line depth entries line of
        Inl e \<Rightarrow> (entries, Some e)
      | Inr entries' \<Rightarrow> apply_lines depth entries' lines)"

section \<open>Reading the log\<close>

text \<open>What is at the path: nothing that opens, something that opens and cannot be read, or a file.\<close>

datatype log_file = NoFile | Unreadable | LogFile int int bytes

record folded =
  fd_device :: int
  fd_inode :: int
  fd_offset :: nat
  fd_entries :: in_flight

definition new_folded :: folded where
  "new_folded = \<lparr>fd_device = -1, fd_inode = -1, fd_offset = 0, fd_entries = []\<rparr>"

definition restart :: "folded \<Rightarrow> int \<Rightarrow> int \<Rightarrow> folded" where
  "restart state device inode =
     state\<lparr>fd_device := device, fd_inode := inode, fd_offset := 0, fd_entries := []\<rparr>"

definition read_tail :: "folded \<Rightarrow> int \<Rightarrow> int \<Rightarrow> bytes \<Rightarrow> folded \<times> bytes" where
  "read_tail state device inode content =
     (let same_file = ((device, inode) = (fd_device state, fd_inode state));
          chunk = take (length content - fd_offset state + 1) (drop (fd_offset state - 1) content) in
      if same_file \<and> 0 < fd_offset state \<and> fd_offset state \<le> length content \<and> prefix [10] chunk
      then (state, drop 1 chunk)
      else (restart state device inode, content))"

text \<open>\<open>chunk.rfind(b"\n") + 1\<close>.\<close>

definition boundary :: "bytes \<Rightarrow> nat" where
  "boundary chunk = length chunk - length (takeWhile (\<lambda>b. b \<noteq> 10) (rev chunk))"

definition fold_tail :: "nat \<Rightarrow> folded \<Rightarrow> log_file \<Rightarrow> folded \<times> (journal_error + str)" where
  "fold_tail depth state path =
     (case path of
        NoFile \<Rightarrow> (restart state (-1) (-1), Inr [])
      | Unreadable \<Rightarrow> (restart state (-1) (-1), Inr [])
      | LogFile device inode content \<Rightarrow>
          (case read_tail state device inode content of
             (state, chunk) \<Rightarrow>
               (case apply_lines depth (fd_entries state) (splitlines (decode_text replacing (take (boundary chunk) chunk))) of
                  (entries, Some e) \<Rightarrow> (state\<lparr>fd_entries := entries\<rparr>, Inl e)
                | (entries, None) \<Rightarrow>
                    (state\<lparr>fd_entries := entries, fd_offset := fd_offset state + boundary chunk\<rparr>,
                     Inr (decode_text replacing (drop (boundary chunk) chunk))))))"

definition fold_log :: "nat \<Rightarrow> log_file \<Rightarrow> journal_error + in_flight" where
  "fold_log depth path =
     (case fold_tail depth new_folded path of
        (state, Inl e) \<Rightarrow> Inl e
      | (state, Inr tail) \<Rightarrow>
          (case apply_lines depth (fd_entries state) (splitlines tail) of
             (_, Some e) \<Rightarrow> Inl e
           | (entries, None) \<Rightarrow> Inr entries))"

definition tail_says :: "nat \<Rightarrow> journal_entry option \<Rightarrow> str \<Rightarrow> str \<Rightarrow> journal_error + journal_entry option" where
  "tail_says depth entry key tail =
     (case apply_lines depth (case entry of None \<Rightarrow> [] | Some e \<Rightarrow> [(key, e)]) (splitlines tail) of
        (_, Some e) \<Rightarrow> Inl e
      | (scratch, None) \<Rightarrow> Inr (dict_get scratch key))"

definition staged_for ::
    "nat \<Rightarrow> log_file \<Rightarrow> bytes \<Rightarrow> source_identity \<Rightarrow> folded \<Rightarrow> folded \<times> (journal_error + bytes option)" where
  "staged_for depth path target source state =
     (let key = decode_name target in
      case fold_tail depth state path of
        (state, Inl e) \<Rightarrow> (state, Inl e)
      | (state, Inr tail) \<Rightarrow>
          (case (if tail \<noteq> [] then tail_says depth (dict_get (fd_entries state) key) key tail
                 else Inr (dict_get (fd_entries state) key)) of
             Inl e \<Rightarrow> (state, Inl e)
           | Inr None \<Rightarrow> (state, Inr None)
           | Inr (Some entry) \<Rightarrow> (state, Inr (if entry_matches entry source then Some (je_staged entry) else None))))"

section \<open>Writing the log\<close>

record 'w file_ops =
  fo_exists :: "(bool, 'w) act"
  fo_open_append :: "(nat, 'w) act"
  fo_write :: "nat \<Rightarrow> bytes \<Rightarrow> (nat, 'w) act"
  fo_fsync :: "nat \<Rightarrow> (unit, 'w) act"
  fo_close :: "nat \<Rightarrow> (unit, 'w) act"
  fo_open_directory :: "(nat, 'w) act"
  fo_mkstemp :: "(nat \<times> str, 'w) act"
  fo_replace :: "str \<Rightarrow> (unit, 'w) act"
  fo_unlink :: "str \<Rightarrow> (unit, 'w) act"
  fo_read :: "'w \<Rightarrow> log_file"

definition swallow_oserror :: "(unit, 'w) prog \<Rightarrow> (unit, 'w) prog" where
  "swallow_oserror m = catching m (\<lambda>e. if e = OSErr then give () else throw e)"

definition fsync_directory :: "'w file_ops \<Rightarrow> (unit, 'w) prog" where
  "fsync_directory fo =
     andthen (catching (andthen (call (fo_open_directory fo)) (\<lambda>d. give (Some d))) (\<lambda>e. if e = OSErr then give None else throw e))
       (\<lambda>opened.
          case opened of
            None \<Rightarrow> give ()
          | Some d \<Rightarrow> ensuring (swallow_oserror (call (fo_fsync fo d))) (call (fo_close fo d)))"

text \<open>The number of bytes \<open>os.write\<close> reports is not looked at, here and below.\<close>

definition append_record :: "'w file_ops \<Rightarrow> str \<Rightarrow> (str, field) dict \<Rightarrow> (unit, 'w) prog" where
  "append_record fo event extra =
     andthen (call (fo_exists fo)) (\<lambda>there.
     andthen (call (fo_open_append fo)) (\<lambda>descriptor.
     andthen (ensuring (andthen (call (fo_write fo descriptor (journal_line event extra))) (\<lambda>_. call (fo_fsync fo descriptor)))
                (call (fo_close fo descriptor))) (\<lambda>_.
       if there then give () else fsync_directory fo)))"

definition replace_atomically :: "'w file_ops \<Rightarrow> bytes \<Rightarrow> (unit, 'w) prog" where
  "replace_atomically fo payload =
     andthen (call (fo_mkstemp fo)) (\<lambda>(descriptor, name).
     andthen (catching
         (andthen (ensuring (andthen (call (fo_write fo descriptor payload)) (\<lambda>_. call (fo_fsync fo descriptor)))
                     (call (fo_close fo descriptor)))
            (\<lambda>_. call (fo_replace fo name)))
         (\<lambda>e. andthen (call (fo_unlink fo name)) (\<lambda>_. throw e)))
       (\<lambda>_. fsync_directory fo))"

text \<open>An exception of the fold is one of Python's, not of this library's.\<close>

definition exn_of_journal :: "journal_error \<Rightarrow> exn" where
  "exn_of_journal e =
     ValueErr (Msg (case e of IntegerTooLong \<Rightarrow> ''integer string conversion'' | RecursionTooDeep \<Rightarrow> ''recursion'' | NotEncodable \<Rightarrow> ''surrogates not allowed'') [])"

definition compact_payload :: "in_flight \<Rightarrow> bytes" where
  "compact_payload surviving = concat (map (\<lambda>entry. journal_line STAGED_EVENT (fields_of entry)) (map snd surviving))"

definition compact :: "nat \<Rightarrow> 'w file_ops \<Rightarrow> (nat, 'w) prog" where
  "compact depth fo =
     andthen (ask (\<lambda>w. fold_log depth (fo_read fo w))) (\<lambda>folded.
       case folded of
         Inl e \<Rightarrow> throw (exn_of_journal e)
       | Inr surviving \<Rightarrow> andthen (replace_atomically fo (compact_payload surviving)) (\<lambda>_. give (length surviving)))"

section \<open>The journal\<close>

definition entry_of :: "bytes \<Rightarrow> bytes \<Rightarrow> source_identity \<Rightarrow> journal_entry" where
  "entry_of staged target source =
     \<lparr>je_staged = staged, je_target = target, je_local_path = src_path source,
      je_local_size = PyInt (src_size source), je_local_mtime = PyInt (src_mtime source)\<rparr>"

definition journal_staging :: "'w file_ops \<Rightarrow> bytes \<Rightarrow> bytes \<Rightarrow> source_identity \<Rightarrow> (unit, 'w) prog" where
  "journal_staging fo staged target source = append_record fo STAGED_EVENT (fields_of (entry_of staged target source))"

definition journal_published :: "'w file_ops \<Rightarrow> bytes \<Rightarrow> (unit, 'w) prog" where
  "journal_published fo target = append_record fo PUBLISHED_EVENT [(text_of ''target'', TextField (decode_name target))]"

end
