(* ===== verification/JournalLaws.thy ===== *)
theory JournalLaws
  imports Journal
begin

text \<open>
  The laws the journal's properties rest on: a log is folded piece by piece, one line only changes
  what is known of the target it names, and the lines this module writes are read back as the
  events they record.
\<close>

section \<open>A log in pieces\<close>

definition log_lines :: "bytes \<Rightarrow> str list" where
  "log_lines content = splitlines (decode_text replacing content)"

definition complete :: "bytes \<Rightarrow> bool" where "complete content \<longleftrightarrow> content = [] \<or> last content = 10"

lemma log_lines_Nil [simp]: "log_lines [] = []" by (simp add: log_lines_def)

lemma log_lines_newline: "log_lines (a @ 10 # b) = log_lines (a @ [10]) @ log_lines b"
proof -
  have "decode_text replacing (a @ [10]) = decode_text replacing a @ [10]"
    using decode_text_newline [of replacing a "[]"] by simp
  then show ?thesis
    using splitlines_newline [of "decode_text replacing a" "decode_text replacing b"]
    by (simp add: log_lines_def decode_text_newline)
qed

lemma log_lines_append: "complete a \<Longrightarrow> log_lines (a @ b) = log_lines a @ log_lines b"
proof (cases a rule: rev_cases)
  case (snoc xs x)
  assume "complete a"
  then have "x = 10" using snoc by (simp add: complete_def)
  then show ?thesis using log_lines_newline [of xs b] by (simp add: snoc)
qed simp

lemma complete_append [simp]: "complete a \<Longrightarrow> complete b \<Longrightarrow> complete (a @ b)"
  by (auto simp: complete_def last_append)

lemma complete_Nil [simp]: "complete []" by (simp add: complete_def)

lemma boundary_le: "boundary chunk \<le> length chunk" by (simp add: boundary_def)

lemma boundary_split:
  "chunk = take (boundary chunk) chunk @ drop (boundary chunk) chunk"
  "complete (take (boundary chunk) chunk)" "10 \<notin> set (drop (boundary chunk) chunk)"
proof -
  let ?t = "takeWhile (\<lambda>b. b \<noteq> 10) (rev chunk)" and ?d = "dropWhile (\<lambda>b. b \<noteq> 10) (rev chunk)"
  have "rev chunk = ?t @ ?d" by simp
  then have c: "chunk = rev ?d @ rev ?t" by (metis rev_append rev_rev_ident)
  have b: "boundary chunk = length (rev ?d)"
    using arg_cong [OF c, of length] by (simp add: boundary_def)
  have t: "take (boundary chunk) chunk = rev ?d" unfolding b by (subst c) simp
  have d: "drop (boundary chunk) chunk = rev ?t" unfolding b by (subst c) simp
  show "chunk = take (boundary chunk) chunk @ drop (boundary chunk) chunk" by simp
  show "complete (take (boundary chunk) chunk)"
    unfolding t complete_def using hd_dropWhile [of "\<lambda>b. b \<noteq> 10" "rev chunk"] by (auto simp: last_rev)
  show "10 \<notin> set (drop (boundary chunk) chunk)" unfolding d by (auto dest: set_takeWhileD)
qed

lemma boundary_complete: "complete a \<Longrightarrow> 10 \<notin> set b \<Longrightarrow> boundary (a @ b) = length a"
proof -
  assume a: "complete a" and b: "10 \<notin> set b"
  have all: "\<And>x. x \<in> set (rev b) \<Longrightarrow> x \<noteq> 10" using b by auto
  have "takeWhile (\<lambda>b. b \<noteq> 10) (rev b @ rev a) = rev b @ takeWhile (\<lambda>b. b \<noteq> 10) (rev a)"
    using all by (rule takeWhile_append2)
  moreover have "takeWhile (\<lambda>b. b \<noteq> 10) (rev a) = []"
    using a by (cases a rule: rev_cases) (auto simp: complete_def)
  ultimately show ?thesis by (simp add: boundary_def)
qed

section \<open>Folding in pieces\<close>

lemma apply_lines_append:
  "apply_lines depth es (xs @ ys) =
     (case apply_lines depth es xs of (es', Some e) \<Rightarrow> (es', Some e) | (es', None) \<Rightarrow> apply_lines depth es' ys)"
  by (induction xs arbitrary: es) (auto split: sum.splits)

definition folded_lines :: "nat \<Rightarrow> in_flight \<Rightarrow> str list \<Rightarrow> journal_error + in_flight" where
  "folded_lines depth es xs = (case apply_lines depth es xs of (_, Some e) \<Rightarrow> Inl e | (es', None) \<Rightarrow> Inr es')"

lemma folded_lines_simps [simp]:
  "folded_lines depth es [] = Inr es"
  "folded_lines depth es (x # xs) = bind_sum (apply_line depth es x) (\<lambda>es'. folded_lines depth es' xs)"
  by (simp_all add: folded_lines_def split: sum.splits)

lemma folded_lines_append:
  "folded_lines depth es (xs @ ys) = bind_sum (folded_lines depth es xs) (\<lambda>es'. folded_lines depth es' ys)"
  by (induction xs arbitrary: es) (auto simp: bind_sum_def split: sum.splits)

lemma apply_lines_folded:
  "folded_lines depth es xs = Inl e \<longleftrightarrow> snd (apply_lines depth es xs) = Some e"
  "folded_lines depth es xs = Inr es' \<longleftrightarrow> apply_lines depth es xs = (es', None)"
  by (auto simp: folded_lines_def split: prod.splits option.splits)

text \<open>A whole fold is the fold of the lines of the file.\<close>

lemma fold_log_lines: "fold_log depth (LogFile d i content) = folded_lines depth [] (log_lines content)"
proof -
  let ?a = "take (boundary content) content" and ?b = "drop (boundary content) content"
  have lines: "log_lines content = log_lines ?a @ log_lines ?b"
    using log_lines_append [OF boundary_split(2)] boundary_split(1) by metis
  obtain es r where a: "apply_lines depth [] (log_lines ?a) = (es, r)" by (cases "apply_lines depth [] (log_lines ?a)")
  show ?thesis
  proof (cases r)
    case (Some e)
    then show ?thesis using a by (simp add: fold_log_def fold_tail_def read_tail_def new_folded_def restart_def lines
          folded_lines_append) (simp add: log_lines_def folded_lines_def)
  next
    case None
    then have f: "folded_lines depth [] (log_lines ?a) = Inr es" using a by (simp add: apply_lines_folded)
    show ?thesis using a None
      by (simp add: fold_log_def fold_tail_def read_tail_def new_folded_def restart_def)
        (simp add: lines folded_lines_append f, simp add: log_lines_def folded_lines_def)
  qed
qed

section \<open>A line changes what it names\<close>

definition same_at :: "str \<Rightarrow> journal_error + in_flight \<Rightarrow> journal_error + in_flight \<Rightarrow> bool" where
  "same_at key r r' \<longleftrightarrow>
     (case (r, r') of
        (Inl e, Inl e') \<Rightarrow> e = e'
      | (Inr es, Inr es') \<Rightarrow> dict_get es key = dict_get es' key
      | _ \<Rightarrow> False)"

lemma apply_line_local:
  "dict_get es key = dict_get es' key \<Longrightarrow> same_at key (apply_line depth es line) (apply_line depth es' line)"
  by (auto simp: apply_line_def same_at_def split: sum.splits json_error.splits json.splits option.splits)

lemma folded_lines_local:
  "dict_get es key = dict_get es' key \<Longrightarrow> same_at key (folded_lines depth es xs) (folded_lines depth es' xs)"
proof (induction xs arbitrary: es es')
  case (Cons x xs)
  then show ?case
    using apply_line_local [OF Cons.prems, of depth x]
    by (cases "apply_line depth es x"; cases "apply_line depth es' x") (auto simp: same_at_def)
qed (simp add: same_at_def)

text \<open>So a scratch dictionary with the one entry answers for that entry as the whole one would.\<close>

lemma tail_says_whole:
  "tail_says depth (dict_get es key) key tail =
     (case folded_lines depth es (splitlines tail) of Inl e \<Rightarrow> Inl e | Inr es' \<Rightarrow> Inr (dict_get es' key))"
proof -
  let ?one = "case dict_get es key of None \<Rightarrow> [] | Some e \<Rightarrow> [(key, e)]"
  have "dict_get ?one key = dict_get es key" by (simp add: dict_get_def split: option.splits)
  note folded_lines_local [OF this, of depth "splitlines tail"]
  then show ?thesis
    by (auto simp: tail_says_def folded_lines_def same_at_def split: prod.splits option.splits sum.splits)
qed

section \<open>What an incremental fold stands for\<close>

text \<open>
  A fold tracks a file when it is of another one, or of nothing yet, or has folded exactly the
  complete lines up to its offset.
\<close>

definition tracks :: "nat \<Rightarrow> folded \<Rightarrow> int \<Rightarrow> int \<Rightarrow> bytes \<Rightarrow> bool" where
  "tracks depth state device inode content \<longleftrightarrow>
     ((fd_device state, fd_inode state) = (device, inode) \<and> 0 < fd_offset state \<longrightarrow>
        fd_offset state \<le> length content \<and> complete (take (fd_offset state) content) \<and>
        folded_lines depth [] (log_lines (take (fd_offset state) content)) = Inr (fd_entries state))"

lemma tracks_append: "tracks depth state device inode content \<Longrightarrow> tracks depth state device inode (content @ new)"
  by (auto simp: tracks_def)

lemma tracks_new: "tracks depth new_folded device inode content"
  by (simp add: tracks_def new_folded_def)

text \<open>The state after \<open>read_tail\<close> and the bytes it returns make up the file.\<close>

lemma read_tail_tracks:
  assumes "tracks depth state device inode content" "read_tail state device inode content = (state', chunk)"
  shows "(fd_device state', fd_inode state') = (device, inode)"
    "complete (take (fd_offset state') content)" "fd_offset state' \<le> length content"
    "chunk = drop (fd_offset state') content"
    "folded_lines depth [] (log_lines (take (fd_offset state') content)) = Inr (fd_entries state')"
proof -
  let ?n = "fd_offset state" and ?c = "take (length content - fd_offset state + 1) (drop (fd_offset state - 1) content)"
  have "(fd_device state', fd_inode state') = (device, inode) \<and> complete (take (fd_offset state') content) \<and>
      fd_offset state' \<le> length content \<and> chunk = drop (fd_offset state') content \<and>
      folded_lines depth [] (log_lines (take (fd_offset state') content)) = Inr (fd_entries state')"
  proof (cases "(device, inode) = (fd_device state, fd_inode state) \<and> 0 < ?n \<and> ?n \<le> length content \<and> prefix [10] ?c")
    case True
    then have s: "state' = state" "chunk = drop 1 ?c" using assms(2) by (auto simp: read_tail_def Let_def)
    have e: "drop 1 ?c = drop ?n content" using True by (simp add: drop_take)
    have c: "chunk = drop ?n content" by (rule trans [OF s(2) e])
    show ?thesis unfolding s(1) c using True assms(1) by (simp add: tracks_def)
  next
    case False
    then have s: "state' = restart state device inode" "chunk = content"
      using assms(2) by (auto simp: read_tail_def Let_def split: if_splits)
    then show ?thesis by (simp add: restart_def)
  qed
  then show "(fd_device state', fd_inode state') = (device, inode)"
    "complete (take (fd_offset state') content)" "fd_offset state' \<le> length content"
    "chunk = drop (fd_offset state') content"
    "folded_lines depth [] (log_lines (take (fd_offset state') content)) = Inr (fd_entries state')" by blast+
qed

lemma fold_tail_tracks:
  assumes "tracks depth state device inode content"
    "fold_tail depth state (LogFile device inode content) = (state', r)"
  shows "case r of
      Inl e \<Rightarrow> folded_lines depth [] (log_lines content) = Inl e
    | Inr tail \<Rightarrow> tracks depth state' device inode content \<and>
        folded_lines depth [] (log_lines content) = folded_lines depth (fd_entries state') (splitlines tail)"
proof -
  obtain s chunk where rt: "read_tail state device inode content = (s, chunk)" by fastforce
  note t = read_tail_tracks [OF assms(1) rt]
  let ?n = "fd_offset s" and ?a = "take (boundary chunk) chunk" and ?b = "drop (boundary chunk) chunk"
  have content: "content = take ?n content @ ?a @ ?b" by (simp only: append_take_drop_id t(4))
  have all: "log_lines content = log_lines (take ?n content) @ log_lines ?a @ log_lines ?b"
    using log_lines_append [OF t(2), of "?a @ ?b"] log_lines_append [OF boundary_split(2) [of chunk], of ?b] content by metis
  have whole: "folded_lines depth [] (log_lines content) =
      bind_sum (folded_lines depth (fd_entries s) (log_lines ?a)) (\<lambda>es. folded_lines depth es (log_lines ?b))"
    using t(5) by (simp add: all folded_lines_append)
  obtain es e where ap: "apply_lines depth (fd_entries s) (log_lines ?a) = (es, e)" by fastforce
  show ?thesis
  proof (cases e)
    case (Some err)
    then have "r = Inl err" using assms(2) rt ap by (simp add: fold_tail_def log_lines_def)
    moreover have "folded_lines depth (fd_entries s) (log_lines ?a) = Inl err" using ap Some by (simp add: apply_lines_folded)
    ultimately show ?thesis using whole by simp
  next
    case None
    have f: "folded_lines depth (fd_entries s) (log_lines ?a) = Inr es" using ap None by (simp add: apply_lines_folded)
    have s': "state' = s\<lparr>fd_entries := es, fd_offset := ?n + boundary chunk\<rparr>" "r = Inr (decode_text replacing ?b)"
      using assms(2) rt ap None by (simp_all add: fold_tail_def log_lines_def)
    have tk: "take (?n + boundary chunk) content = take ?n content @ ?a" using t(4) by (simp add: take_add)
    have "folded_lines depth [] (log_lines (take ?n content @ ?a)) = Inr es"
      using t(5) f by (simp add: log_lines_append [OF t(2)] folded_lines_append)
    moreover have "?n + boundary chunk \<le> length content" using t(3,4) boundary_le [of chunk] by simp
    ultimately have "tracks depth state' device inode content"
      using t(1,2) boundary_split(2) [of chunk] by (simp add: tracks_def s' tk)
    then show ?thesis using whole f s' by (simp add: log_lines_def)
  qed
qed

section \<open>Lines this module writes\<close>

text \<open>An event of the log, and what a log of events says is in flight.\<close>

datatype journal_event = Staging bytes bytes source_identity | Publishing bytes

fun event_bytes :: "journal_event \<Rightarrow> bytes" where
  "event_bytes (Staging staged target source) = journal_line STAGED_EVENT (fields_of (entry_of staged target source))"
| "event_bytes (Publishing target) = journal_line PUBLISHED_EVENT [(text_of ''target'', TextField (decode_name target))]"

fun event_in_flight :: "(bytes \<Rightarrow> journal_entry option) \<Rightarrow> journal_event \<Rightarrow> bytes \<Rightarrow> journal_entry option" where
  "event_in_flight m (Staging staged target source) = m(target := Some (entry_of staged target source))"
| "event_in_flight m (Publishing target) = m(target := None)"

definition in_flight_after :: "journal_event list \<Rightarrow> bytes \<Rightarrow> journal_entry option" where
  "in_flight_after events = foldl event_in_flight (\<lambda>_. None) events"

definition log_of :: "journal_event list \<Rightarrow> bytes" where "log_of events = concat (map event_bytes events)"

definition source_ok :: "source_identity \<Rightarrow> bool" where
  "source_ok source \<longleftrightarrow> path_text (src_path source) \<and> \<bar>src_size source\<bar> < 2 ^ 64 \<and> \<bar>src_mtime source\<bar> < 2 ^ 64"

fun event_ok :: "journal_event \<Rightarrow> bool" where
  "event_ok (Staging staged target source) \<longleftrightarrow> source_ok source"
| "event_ok (Publishing target) \<longleftrightarrow> True"

lemma decode_name_inject [simp]: "decode_name a = decode_name b \<longleftrightarrow> a = b"
  using encode_decode_name by (metis option.inject)

definition entry_ok :: "journal_entry \<Rightarrow> bool" where
  "entry_ok entry \<longleftrightarrow> path_text (je_local_path entry) \<and> short_int (int_of_pyint (je_local_size entry)) \<and> short_int (int_of_pyint (je_local_mtime entry))"

lemma entry_ok_of: "source_ok source \<Longrightarrow> entry_ok (entry_of staged target source)"
  by (auto simp: entry_ok_def source_ok_def entry_of_def intro: short_int_64)

definition staged_document :: "journal_entry \<Rightarrow> (str, field) dict" where
  "staged_document entry =
     [(text_of ''version'', NumberField (PyInt 1)), (text_of ''event'', TextField STAGED_EVENT),
      (text_of ''staged'', TextField (decode_name (je_staged entry))),
      (text_of ''target'', TextField (decode_name (je_target entry))),
      (text_of ''local'', TextField (je_local_path entry)),
      (text_of ''local_size'', NumberField (je_local_size entry)),
      (text_of ''local_mtime'', NumberField (je_local_mtime entry))]"

definition published_document :: "bytes \<Rightarrow> (str, field) dict" where
  "published_document target =
     [(text_of ''version'', NumberField (PyInt 1)), (text_of ''event'', TextField PUBLISHED_EVENT),
      (text_of ''target'', TextField (decode_name target))]"

lemma staged_line: "journal_line STAGED_EVENT (fields_of entry) = map of_nat (dumps (staged_document entry)) @ [10]"
  by (simp add: journal_line_def fields_of_def staged_document_def dict_set_def text_of_def JOURNAL_VERSION_def)

lemma published_line:
  "journal_line PUBLISHED_EVENT [(text_of ''target'', TextField (decode_name target))] = map of_nat (dumps (published_document target)) @ [10]"
  by (simp add: journal_line_def published_document_def dict_set_def text_of_def JOURNAL_VERSION_def)

lemma short_one: "short_int 1" by (rule short_int_64) simp

lemma text_of_path: "path_text (text_of s)"
proof -
  have c: "of_char c < (256 :: nat)" for c :: char using nat_of_char_less_256 [of c] by simp
  have "of_char c < (1114112 :: nat) \<and> \<not> (55296 \<le> (of_char c :: nat) \<and> (of_char c :: nat) < 56320)" for c :: char
    using c [of c] by linarith
  then show ?thesis by (auto simp: path_text_def text_of_def list_all_iff)
qed

lemma staged_document_ok: "entry_ok entry \<Longrightarrow> document_ok (staged_document entry)"
  by (simp add: document_ok_def dict_wf_def staged_document_def field_ok_def entry_ok_def short_one text_of_path STAGED_EVENT_def)
    (simp add: text_of_def)

lemma published_document_ok: "document_ok (published_document target)"
  by (simp add: document_ok_def dict_wf_def published_document_def field_ok_def short_one text_of_path PUBLISHED_EVENT_def)
    (simp add: text_of_def)

lemma apply_staged:
  assumes "entry_ok entry" "0 < depth"
  shows "apply_line depth es (dumps (staged_document entry)) = Inr (dict_set es (decode_name (je_target entry)) entry)"
proof -
  obtain ms where ms: "loads depth (dumps (staged_document entry)) = Inr (JObj ms)"
      "\<And>k. dict_get ms k = map_option json_of_field (dict_get (staged_document entry) k)"
    using loads_dumps_get [OF staged_document_ok [OF assms(1)] assms(2)] by blast
  have g: "dict_get ms (text_of ''version'') = Some (JInt 1)" "dict_get ms (text_of ''event'') = Some (JStr STAGED_EVENT)"
      "dict_get ms (text_of ''staged'') = Some (JStr (decode_name (je_staged entry)))"
      "dict_get ms (text_of ''target'') = Some (JStr (decode_name (je_target entry)))"
      "dict_get ms (text_of ''local'') = Some (JStr (je_local_path entry))"
      "dict_get ms (text_of ''local_size'') = Some (json_of_field (NumberField (je_local_size entry)))"
      "dict_get ms (text_of ''local_mtime'') = Some (json_of_field (NumberField (je_local_mtime entry)))"
    by (simp_all only: ms(2)) (simp_all add: staged_document_def dict_get_def text_of_def)
  have n: "number_field ms ''local_size'' = Some (je_local_size entry)" "number_field ms ''local_mtime'' = Some (je_local_mtime entry)"
    by (cases "je_local_size entry", simp_all add: number_field_def g) (cases "je_local_mtime entry", simp_all)
  have ne: "STAGED_EVENT \<noteq> PUBLISHED_EVENT" by (simp add: text_of_def STAGED_EVENT_def PUBLISHED_EVENT_def)
  show ?thesis
    by (simp add: apply_line_def ms(1) g text_field_def entry_from_def encode_decode_name n ne equals_one_def) (cases entry, simp)
qed

lemma apply_published:
  assumes "0 < depth"
  shows "apply_line depth es (dumps (published_document target)) = Inr (dict_pop es (decode_name target))"
proof -
  obtain ms where ms: "loads depth (dumps (published_document target)) = Inr (JObj ms)"
      "\<And>k. dict_get ms k = map_option json_of_field (dict_get (published_document target) k)"
    using loads_dumps_get [OF published_document_ok assms] by blast
  have g: "dict_get ms (text_of ''version'') = Some (JInt 1)" "dict_get ms (text_of ''event'') = Some (JStr PUBLISHED_EVENT)"
      "dict_get ms (text_of ''target'') = Some (JStr (decode_name target))"
    by (simp_all only: ms(2)) (simp_all add: published_document_def dict_get_def text_of_def)
  show ?thesis by (simp add: apply_line_def ms(1) g text_field_def equals_one_def)
qed

section \<open>A log of events\<close>

lemma log_lines_dumps: "log_lines (map of_nat (dumps d) @ [10]) = [dumps d]"
proof -
  have p: "list_all (\<lambda>c. 32 \<le> c \<and> c < 127) (dumps d)" using dumps_printable [of d] by (simp add: printable_def [abs_def])
  then have "list_all (\<lambda>c. c < 128) (dumps d @ [10])" by (auto simp: list_all_iff)
  from decode_ascii [OF this] have "decode_text replacing (map of_nat (dumps d) @ [10]) = dumps d @ [10]" by simp
  moreover have "list_all (\<lambda>c. \<not> line_break c) (dumps d)" using p by (auto simp: list_all_iff line_break_def)
  ultimately show ?thesis by (simp add: log_lines_def splitlines_line)
qed

lemma complete_event [simp]: "complete (event_bytes ev)"
  by (cases ev) (simp_all add: staged_line published_line complete_def)

lemma complete_log [simp]: "complete (log_of events)"
  by (induction events) (simp_all add: log_of_def)

lemma apply_event:
  assumes "event_ok ev" "0 < depth" "\<forall>t. dict_get es (decode_name t) = m t"
  obtains es' where "folded_lines depth es (log_lines (event_bytes ev)) = Inr es'"
    "\<forall>t. dict_get es' (decode_name t) = event_in_flight m ev t"
proof (cases ev)
  case (Staging staged target source)
  then show ?thesis
    using assms apply_staged [OF entry_ok_of assms(2)] that
    by (simp add: staged_line log_lines_dumps) (simp add: entry_of_def)
next
  case (Publishing target)
  then show ?thesis
    using assms apply_published [OF assms(2)] that by (simp add: published_line log_lines_dumps)
qed

text \<open>Folding a log of events gives, for every target, what its events say.\<close>

lemma folded_log:
  assumes "list_all event_ok events" "0 < depth"
  shows "\<exists>es. folded_lines depth [] (log_lines (log_of events)) = Inr es \<and>
    (\<forall>t. dict_get es (decode_name t) = in_flight_after events t)"
  using assms(1)
proof (induction events rule: rev_induct)
  case Nil
  then show ?case by (simp add: log_of_def in_flight_after_def)
next
  case (snoc ev events)
  then obtain es where es: "folded_lines depth [] (log_lines (log_of events)) = Inr es"
      "\<forall>t. dict_get es (decode_name t) = in_flight_after events t" by auto
  have "event_ok ev" using snoc.prems by simp
  from apply_event [OF this assms(2) es(2)] obtain es' where
    "folded_lines depth es (log_lines (event_bytes ev)) = Inr es'"
    "\<forall>t. dict_get es' (decode_name t) = event_in_flight (in_flight_after events) ev t" .
  moreover have "log_of (events @ [ev]) = log_of events @ event_bytes ev" by (simp add: log_of_def)
  ultimately show ?case using es by (simp add: log_lines_append folded_lines_append in_flight_after_def)
qed

text \<open>Everything in such a fold is an entry this module wrote, filed under its own target.\<close>

definition filed :: "in_flight \<Rightarrow> bool" where
  "filed es \<longleftrightarrow> dict_wf es \<and> list_all (\<lambda>(key, entry). key = decode_name (je_target entry) \<and> entry_ok entry) es"

lemma filed_set: "filed es \<Longrightarrow> entry_ok entry \<Longrightarrow> filed (dict_set es (decode_name (je_target entry)) entry)"
proof -
  assume f: "filed es" "entry_ok entry"
  have "\<forall>(k, e) \<in> set (AList.update (decode_name (je_target entry)) entry d). k = decode_name (je_target e) \<and> entry_ok e"
    if "\<forall>(k, e) \<in> set d. k = decode_name (je_target e) \<and> entry_ok e" for d
    using that f(2) by (induction d) auto
  then show ?thesis using f by (auto simp: filed_def list_all_iff dict_set_def distinct_update dict_wf_def)
qed

lemma filed_pop: "filed es \<Longrightarrow> filed (dict_pop es key)"
  by (auto simp: filed_def list_all_iff) (auto simp: dict_pop_def AList.delete_eq)

lemma filed_event:
  assumes "event_ok ev" "0 < depth" "filed es" "folded_lines depth es (log_lines (event_bytes ev)) = Inr es'"
  shows "filed es'"
proof (cases ev)
  case (Staging staged target source)
  let ?e = "entry_of staged target source"
  have "entry_ok ?e" using assms(1) Staging by (simp add: entry_ok_of)
  then show ?thesis using assms Staging apply_staged filed_set [OF assms(3), of ?e] by (simp add: staged_line log_lines_dumps)
next
  case (Publishing target)
  then show ?thesis using assms apply_published filed_pop by (auto simp: published_line log_lines_dumps)
qed

lemma filed_log:
  assumes "list_all event_ok events" "0 < depth" "folded_lines depth [] (log_lines (log_of events)) = Inr es"
  shows "filed es"
  using assms(1,3)
proof (induction events arbitrary: es rule: rev_induct)
  case Nil
  then show ?case by (simp add: log_of_def filed_def)
next
  case (snoc ev events)
  obtain es1 where es1: "folded_lines depth [] (log_lines (log_of events)) = Inr es1"
    using folded_log [of events depth] snoc.prems(1) assms(2) by auto
  have "folded_lines depth es1 (log_lines (event_bytes ev)) = Inr es"
    using snoc.prems(2) es1 by (simp add: log_of_def) (simp add: log_lines_append [OF complete_log, unfolded log_of_def] folded_lines_append)
  then show ?case using filed_event [of ev depth es1 es] snoc.IH [OF _ es1] snoc.prems(1) assms(2) by simp
qed

text \<open>Folding the lines of a compaction rebuilds the entries, in their order.\<close>

lemma compact_payload_lines:
  "list_all (\<lambda>(k, e). entry_ok e) es \<Longrightarrow>
    complete (compact_payload es) \<and> log_lines (compact_payload es) = map (\<lambda>(k, e). dumps (staged_document e)) es"
proof (induction es)
  case (Cons x es)
  let ?line = "map of_nat (dumps (staged_document (snd x))) @ [10]"
  have "complete ?line" by (simp add: complete_def)
  moreover have "compact_payload (x # es) = ?line @ compact_payload es"
    by (simp only: compact_payload_def staged_line list.map concat.simps)
  ultimately show ?case
    using Cons log_lines_append [of ?line "compact_payload es"] log_lines_dumps [of "staged_document (snd x)"]
    by (simp add: complete_append [of ?line, simplified] split_def)
qed (simp add: compact_payload_def)

lemma compact_payload_folds:
  assumes "filed es" "0 < depth"
  shows "folded_lines depth [] (log_lines (compact_payload es)) = Inr es"
proof -
  have "folded_lines depth acc (map (\<lambda>(k, e). dumps (staged_document e)) xs) = Inr (acc @ xs)"
    if "filed (acc @ xs)" for acc xs
    using that
  proof (induction xs arbitrary: acc)
    case (Cons x xs)
    obtain k e where x: "x = (k, e)" by (cases x)
    have "entry_ok e" "k = decode_name (je_target e)" "\<not> dict_has acc k"
      using Cons.prems by (auto simp: filed_def x dict_has_def dict_wf_def)
    then have "apply_line depth acc (dumps (staged_document e)) = Inr (acc @ [x])"
      using apply_staged [OF _ assms(2), of e acc] dict_set_fresh [of acc k e] by (simp add: x)
    then show ?case using Cons.IH [of "acc @ [x]"] Cons.prems by (simp add: x)
  qed simp
  moreover have "list_all (\<lambda>(k, e). entry_ok e) es" using assms(1) by (auto simp: filed_def list_all_iff)
  ultimately show ?thesis using compact_payload_lines [of es] assms(1) by (metis append_Nil)
qed

end
