(* ===== verification/JournalProps.thy ===== *)
theory JournalProps
  imports JournalLaws "HOL-Library.Code_Target_Nat"
begin

text \<open>
  What the upload journal promises: a crash in the middle of an append loses at most the event being
  written; looking up by reading only what was appended answers as reading the whole log would; and
  compaction never shows a log that forgets an upload in flight.
\<close>

section \<open>A crash during an append\<close>

definition log_says :: "nat \<Rightarrow> log_file \<Rightarrow> (bytes \<Rightarrow> journal_entry option) \<Rightarrow> bool" where
  "log_says depth path m \<longleftrightarrow>
     (case fold_log depth path of Inl _ \<Rightarrow> False | Inr es \<Rightarrow> (\<forall>t. dict_get es (decode_name t) = m t))"

lemma log_saysI:
  "folded_lines depth [] (log_lines content) = Inr es \<Longrightarrow> \<forall>t. dict_get es (decode_name t) = m t \<Longrightarrow>
    log_says depth (LogFile d i content) m"
  by (simp add: log_says_def fold_log_lines)

fun event_document :: "journal_event \<Rightarrow> (str, field) dict" where
  "event_document (Staging staged target source) = staged_document (entry_of staged target source)"
| "event_document (Publishing target) = published_document target"

lemma event_bytes_document: "event_bytes ev = map of_nat (dumps (event_document ev)) @ [10]"
  by (cases ev) (simp_all add: staged_line published_line)

lemma event_document_ok: "event_ok ev \<Longrightarrow> document_ok (event_document ev)"
  by (cases ev) (simp_all add: staged_document_ok entry_ok_of published_document_ok)

lemma log_lines_plain:
  assumes "list_all printable p" shows "log_lines (map of_nat p) = (if p = [] then [] else [p])"
proof -
  have "list_all (\<lambda>c. c < 128) p" using assms by (auto simp: list_all_iff printable_def)
  then have d: "decode_text replacing (map of_nat p) = p" by (rule decode_ascii)
  have "lines_from acc p = (if rev acc @ p = [] then [] else [rev acc @ p])" for acc
    using assms by (induction acc p rule: lines_from.induct) (auto simp: printable_def line_break_def)
  then show ?thesis by (simp add: log_lines_def d splitlines_def)
qed

lemma torn_document:
  assumes "document_ok d" "0 < depth" "n < length (dumps d)"
  shows "folded_lines depth es (log_lines (take n (map of_nat (dumps d) @ rest))) = Inr es"
proof -
  have t: "take n (map of_nat (dumps d) @ rest) = map of_nat (take n (dumps d))" using assms(3) by (simp add: take_map)
  have p: "list_all printable (take n (dumps d))" using dumps_printable [of d] by (auto simp: list_all_iff dest: in_set_takeD)
  have "take n (dumps d) \<noteq> dumps d" using assms(3) by (metis length_take min.absorb4 less_irrefl)
  then have "loads depth (take n (dumps d)) = Inl NotJson"
    using dumps_cut [OF assms(1,2), of "take n (dumps d)"] by (simp add: take_is_prefix)
  then show ?thesis unfolding t log_lines_plain [OF p] by (simp add: apply_line_def)
qed

lemma unended_document: "log_lines (map of_nat (dumps d)) = [dumps d]"
  using log_lines_plain [OF dumps_printable, of d] by (simp add: dumps_def)

lemma torn_event:
  assumes "event_ok ev" "0 < depth" "n < length (dumps (event_document ev))"
  shows "folded_lines depth es (log_lines (take n (event_bytes ev))) = Inr es"
  unfolding event_bytes_document by (rule torn_document [OF event_document_ok [OF assms(1)] assms(2,3)])

lemma whole_event:
  assumes "event_ok ev" "0 < depth" "n = length (dumps (event_document ev))"
  shows "folded_lines depth es (log_lines (take n (event_bytes ev))) = folded_lines depth es (log_lines (event_bytes ev))"
  using assms(3) by (simp add: event_bytes_document unended_document log_lines_dumps)

text \<open>
  C26. A crash during an append: when the log holds the events recorded so far and the first \<open>n\<close>
  bytes of the line of one more, a fold succeeds, and what it reports in flight is, for every
  target, what the earlier events say until the document is whole, and from then on what they say
  with the new event. Here \<open>n\<close> may also be the whole line, which is a log without a crash.
\<close>

theorem journal_survives_a_crash:
  assumes "list_all event_ok (events @ [ev])" "0 < depth"
  shows "log_says depth (LogFile device inode (log_of events @ take n (event_bytes ev)))
    (in_flight_after (if n < length (event_bytes ev) - 1 then events else events @ [ev]))"
proof -
  have ok: "list_all event_ok events" "event_ok ev" using assms(1) by simp_all
  obtain es where es: "folded_lines depth [] (log_lines (log_of events)) = Inr es"
      "\<forall>t. dict_get es (decode_name t) = in_flight_after events t"
    using folded_log [OF ok(1) assms(2)] by blast
  have whole: "folded_lines depth [] (log_lines (log_of events @ take n (event_bytes ev))) =
      folded_lines depth es (log_lines (take n (event_bytes ev)))"
    by (simp add: log_lines_append folded_lines_append es)
  let ?l = "length (dumps (event_document ev))"
  have len: "length (event_bytes ev) = Suc ?l" by (simp add: event_bytes_document)
  show ?thesis
  proof (cases "n < ?l")
    case True
    then show ?thesis
      using whole torn_event [OF ok(2) assms(2) True] es(2) len by (intro log_saysI) simp_all
  next
    case False
    obtain es' where es': "folded_lines depth es (log_lines (event_bytes ev)) = Inr es'"
        "\<forall>t. dict_get es' (decode_name t) = event_in_flight (in_flight_after events) ev t"
      using apply_event [OF ok(2) assms(2) es(2)] .
    have "folded_lines depth es (log_lines (take n (event_bytes ev))) = Inr es'"
    proof (cases "n = ?l")
      case True
      then show ?thesis using whole_event [OF ok(2) assms(2) True] es'(1) by simp
    next
      case False
      then have "take n (event_bytes ev) = event_bytes ev" using len \<open>\<not> n < ?l\<close> by simp
      then show ?thesis using es'(1) by simp
    qed
    then show ?thesis using whole es'(2) len False by (intro log_saysI) (simp_all add: in_flight_after_def)
  qed
qed

definition example_source :: source_identity where
  "example_source = \<lparr>src_path = text_of ''a'', src_size = 5, src_mtime = 7\<rparr>"

lemma example_source_ok: "source_ok example_source"
  by (simp add: source_ok_def example_source_def path_text_def text_of_def)

lemma journal_survives_a_crash_witness:
  "log_says 1 (LogFile 0 0 (log_of [Staging [1] [2] example_source] @ take 9 (event_bytes (Publishing [2]))))
    (in_flight_after (if 9 < length (event_bytes (Publishing [2])) - 1 then [Staging [1] [2] example_source]
       else [Staging [1] [2] example_source] @ [Publishing [2]]))"
  using journal_survives_a_crash [of "[Staging [1] [2] example_source]" "Publishing [2]" 1 0 0 9] example_source_ok
  by (simp del: event_bytes.simps append.simps)

section \<open>Reading what was appended\<close>

text \<open>
  C27. Looking up a staging file by folding only what was appended since the last lookup answers
  what folding the whole log would, for a log of any bytes at all, whatever was appended and also
  when the last line is not finished; a line that makes the fold raise makes both raise alike. The
  fold then tracks the longer log, so the next lookup may do the same. A fold of another file, as
  after a compaction, tracks this one, since it is read again from its first byte.
\<close>

theorem tailing_is_folding:
  assumes "tracks depth state device inode content" and path_def: "path = LogFile device inode (content @ appended)"
  shows "snd (staged_for depth path target source state) =
      (case fold_log depth path of
         Inl e \<Rightarrow> Inl e
       | Inr es \<Rightarrow>
           Inr (case dict_get es (decode_name target) of
                  None \<Rightarrow> None
                | Some entry \<Rightarrow> if entry_matches entry source then Some (je_staged entry) else None)) \<and>
    (case snd (staged_for depth path target source state) of
       Inl _ \<Rightarrow> True
     | Inr _ \<Rightarrow> tracks depth (fst (staged_for depth path target source state)) device inode (content @ appended))"
proof -
  obtain s r where ft: "fold_tail depth state path = (s, r)" by fastforce
  note whole = fold_tail_tracks [OF tracks_append [OF assms(1), of appended] ft [unfolded path_def]]
  let ?key = "decode_name target"
  show ?thesis
  proof (cases r)
    case (Inl e)
    then show ?thesis using whole ft by (simp add: staged_for_def Let_def path_def fold_log_lines)
  next
    case (Inr tail)
    let ?tail = "folded_lines depth (fd_entries s) (splitlines tail)"
    have f: "fold_log depth path = ?tail" using whole Inr by (simp add: path_def fold_log_lines)
    have says: "(if tail \<noteq> [] then tail_says depth (dict_get (fd_entries s) ?key) ?key tail
         else Inr (dict_get (fd_entries s) ?key)) =
        (case ?tail of Inl e \<Rightarrow> Inl e | Inr es' \<Rightarrow> Inr (dict_get es' ?key))"
      by (simp add: tail_says_whole)
    show ?thesis
      using whole Inr unfolding staged_for_def Let_def ft f
      by (simp add: says [simplified] split: sum.splits option.splits)
  qed
qed

lemma tailing_is_folding_witness:
  "snd (staged_for 1 (LogFile 3 4 (log_of [Staging [1] [2] example_source] @ [65])) [2] example_source new_folded) =
    (case fold_log 1 (LogFile 3 4 (log_of [Staging [1] [2] example_source] @ [65])) of
         Inl e \<Rightarrow> Inl e
       | Inr es \<Rightarrow>
           Inr (case dict_get es (decode_name [2]) of
                  None \<Rightarrow> None
                | Some entry \<Rightarrow> if entry_matches entry example_source then Some (je_staged entry) else None))"
  using tailing_is_folding [OF tracks_new refl, of 1 3 4 "log_of [Staging [1] [2] example_source]" "[65]" "[2]" example_source]
  by blast

section \<open>Compaction\<close>

text \<open>The local files compaction touches: the journal, the temporary files, and what descriptors are open on.\<close>

record local_files =
  lf_journal :: log_file
  lf_temp :: "str \<Rightarrow> bytes"
  lf_open :: "nat \<Rightarrow> str"

definition temp_written :: "local_files \<Rightarrow> nat \<Rightarrow> bytes \<Rightarrow> local_files" where
  "temp_written f d bs = f\<lparr>lf_temp := (lf_temp f)(lf_open f d := lf_temp f (lf_open f d) @ bs)\<rparr>"

text \<open>
  A local file system: a temporary file is new, empty and not the journal; a write appends at most
  what it is given; \<open>replace\<close> puts a file in the journal's place or leaves the journal alone.
\<close>

definition honest_files :: "'w file_ops \<Rightarrow> ('w \<Rightarrow> local_files) \<Rightarrow> bool" where
  "honest_files fo view \<longleftrightarrow>
     (\<forall>w. fo_read fo w = lf_journal (view w)) \<and>
     (\<forall>w r w'. fo_mkstemp fo w = (r, w') \<longrightarrow> lf_journal (view w') = lf_journal (view w) \<and>
        (case r of Inl _ \<Rightarrow> True | Inr (d, name) \<Rightarrow> lf_open (view w') d = name \<and> lf_temp (view w') name = [])) \<and>
     (\<forall>d bs w r w'. fo_write fo d bs w = (r, w') \<longrightarrow>
        (case r of Inl _ \<Rightarrow> lf_journal (view w') = lf_journal (view w)
         | Inr n \<Rightarrow> view w' = temp_written (view w) d (take n bs))) \<and>
     (\<forall>d w r w'. fo_fsync fo d w = (r, w') \<longrightarrow> view w' = view w) \<and>
     (\<forall>d w r w'. fo_close fo d w = (r, w') \<longrightarrow> view w' = view w) \<and>
     (\<forall>w r w'. fo_open_directory fo w = (r, w') \<longrightarrow> view w' = view w) \<and>
     (\<forall>name w r w'. fo_unlink fo name w = (r, w') \<longrightarrow> lf_journal (view w') = lf_journal (view w)) \<and>
     (\<forall>name w r w'. fo_replace fo name w = (r, w') \<longrightarrow>
        (case r of Inl _ \<Rightarrow> lf_journal (view w') = lf_journal (view w)
         | Inr _ \<Rightarrow> (\<exists>d i. lf_journal (view w') = LogFile d i (lf_temp (view w) name))))"

text \<open>
  \<open>os.write\<close> may take only a part of the buffer, and the code does not look. Whether a file system
  never does that is a case distinction in what follows.
\<close>

definition whole_writes :: "'w file_ops \<Rightarrow> bool" where
  "whole_writes fo \<longleftrightarrow> (\<forall>d bs w n w'. fo_write fo d bs w = (Inr n, w') \<longrightarrow> n = length bs)"

lemma honest_filesD:
  assumes "honest_files fo view"
  shows "fo_read fo w = lf_journal (view w)"
    "fo_mkstemp fo w = (r0, w') \<Longrightarrow> lf_journal (view w') = lf_journal (view w)"
    "fo_mkstemp fo w = (Inr (d, name), w') \<Longrightarrow> lf_open (view w') d = name \<and> lf_temp (view w') name = []"
    "fo_write fo d bs w = (Inl e, w') \<Longrightarrow> lf_journal (view w') = lf_journal (view w)"
    "fo_write fo d bs w = (Inr n, w') \<Longrightarrow> view w' = temp_written (view w) d (take n bs)"
    "fo_fsync fo d w = (r, w') \<Longrightarrow> view w' = view w" "fo_close fo d w = (r, w') \<Longrightarrow> view w' = view w"
    "fo_open_directory fo w = (r1, w') \<Longrightarrow> view w' = view w"
    "fo_unlink fo name w = (r, w') \<Longrightarrow> lf_journal (view w') = lf_journal (view w)"
    "fo_replace fo name w = (Inl e, w') \<Longrightarrow> lf_journal (view w') = lf_journal (view w)"
    "fo_replace fo name w = (Inr u, w') \<Longrightarrow> \<exists>d i. lf_journal (view w') = LogFile d i (lf_temp (view w) name)"
  using assms unfolding honest_files_def by (fastforce split: sum.splits)+

lemma quiet_fsync_directory: "honest_files fo view \<Longrightarrow> quiet view (fsync_directory fo)"
  unfolding fsync_directory_def swallow_oserror_def
  by (intro quiet_rules quiet_call) (auto split: option.splits intro!: quiet_rules quiet_call dest: honest_filesD)

lemma runs_fsync_directory:
  "honest_files fo view \<Longrightarrow> (\<And>w w'. P w \<Longrightarrow> view w' = view w \<Longrightarrow> P w') \<Longrightarrow> (\<And>w. P w \<Longrightarrow> I w) \<Longrightarrow>
    runs I P (fsync_directory fo) (\<lambda>_. P) (\<lambda>_. P)"
  using runs_quiet [OF quiet_fsync_directory] by blast

text \<open>
  Replacing a file atomically: from a journal \<open>J\<close>, at every moment the journal is \<open>J\<close> or the part of
  the payload that the write took, and it is that once the call returns.
\<close>

definition journal_is :: "'w file_ops \<Rightarrow> log_file \<Rightarrow> 'w \<Rightarrow> bool" where
  "journal_is fo j w \<longleftrightarrow> fo_read fo w = j"

definition journal_holds :: "'w file_ops \<Rightarrow> bytes \<Rightarrow> 'w \<Rightarrow> bool" where
  "journal_holds fo payload w \<longleftrightarrow> (\<exists>d i. fo_read fo w = LogFile d i payload)"

definition replaced_by :: "'w file_ops \<Rightarrow> bytes \<Rightarrow> 'w \<Rightarrow> bool" where
  "replaced_by fo payload w \<longleftrightarrow>
     (\<exists>k. journal_holds fo (take k payload) w \<and> (whole_writes fo \<longrightarrow> length payload \<le> k))"

lemma runs_replace_atomically:
  assumes h: "honest_files fo view"
  shows "runs (\<lambda>w. journal_is fo j w \<or> replaced_by fo payload w) (journal_is fo j) (replace_atomically fo payload)
    (\<lambda>_. replaced_by fo payload) (\<lambda>_ w. journal_is fo j w \<or> replaced_by fo payload w)"
proof -
  let ?I = "\<lambda>w. journal_is fo j w \<or> replaced_by fo payload w"
  let ?E = "\<lambda>_. ?I"
  note read = honest_filesD(1) [OF h]
  have keep: "journal_is fo j w' \<longleftrightarrow> journal_is fo j w" "replaced_by fo payload w' \<longleftrightarrow> replaced_by fo payload w"
    if "lf_journal (view w') = lf_journal (view w)" for w w'
    using that by (simp_all add: journal_is_def replaced_by_def journal_holds_def read)
  let ?new = "\<lambda>x w. journal_is fo j w \<and> lf_open (view w) (fst x) = snd x \<and> lf_temp (view w) (snd x) = []"
  let ?full = "\<lambda>(name :: str) w. journal_is fo j w \<and>
      (\<exists>k. lf_temp (view w) name = take k payload \<and> (whole_writes fo \<longrightarrow> length payload \<le> k))"
  let ?old = "\<lambda>(e :: exn) w. journal_is fo j w"
  have make: "runs ?I (journal_is fo j) (call (fo_mkstemp fo)) ?new ?E"
  proof (rule runs_call, goal_cases)
    case (1 w r w')
    have same: "journal_is fo j w'" using 1(1) keep(1) honest_filesD(2) [OF h 1(2)] by blast
    show ?case using same 1 honest_filesD(3) [OF h] by (cases r) auto
  qed
  have wrote: "runs ?I (?new (d, name)) (call (fo_write fo d payload)) (\<lambda>_. ?full name) ?old" for d name
  proof (rule runs_call, goal_cases)
    case (1 w r w')
    show ?case
    proof (cases r)
      case (Inl e)
      have "journal_is fo j w'" using 1(1) keep(1) honest_filesD(4) [OF h 1(2) [unfolded Inl]] by blast
      then show ?thesis using Inl by simp
    next
      case (Inr n)
      have v: "view w' = temp_written (view w) d (take n payload)"
        using honest_filesD(5) [OF h 1(2) [unfolded Inr]] .
      have all: "whole_writes fo \<longrightarrow> length payload \<le> n"
        using 1(2) [unfolded Inr] unfolding whole_writes_def by (metis order_refl)
      have "lf_journal (view w') = lf_journal (view w)" unfolding v by (simp add: temp_written_def)
      then have "journal_is fo j w'" using 1(1) keep(1) by blast
      moreover have "lf_temp (view w') name = take n payload" using 1(1) by (simp add: v temp_written_def)
      ultimately show ?thesis using all Inr by auto
    qed
  qed
  have filled: "?full name w \<Longrightarrow> view w' = view w \<Longrightarrow> ?full name w'" for name w w'
    by (simp add: journal_is_def read)
  have sync: "runs ?I (?full name) (call (fo_fsync fo d)) (\<lambda>_. ?full name) ?old" for d name
  proof (rule runs_call, goal_cases)
    case (1 w r w')
    have "?full name w'" by (rule filled [OF 1(1) honest_filesD(6) [OF h 1(2)]])
    then show ?case by (cases r) simp_all
  qed
  have close: "runs ?I (?full name) (call (fo_close fo d)) (\<lambda>_. ?full name) ?old" for d name
  proof (rule runs_call, goal_cases)
    case (1 w r w')
    have "?full name w'" by (rule filled [OF 1(1) honest_filesD(7) [OF h 1(2)]])
    then show ?case by (cases r) simp_all
  qed
  have close_old: "runs ?I (journal_is fo j) (call (fo_close fo d)) (\<lambda>_. journal_is fo j) ?old" for d
    by (rule runs_call) (auto simp: journal_is_def read split: sum.splits dest!: honest_filesD(7) [OF h])
  have fill: "runs ?I (?new (d, name)) (ensuring (andthen (call (fo_write fo d payload)) (\<lambda>_. call (fo_fsync fo d))) (call (fo_close fo d)))
      (\<lambda>_. ?full name) ?old" for d name
    by (intro runs_ensuring runs_andthen [OF wrote sync] close close_old)
  have swap: "runs ?I (?full name) (call (fo_replace fo name)) (\<lambda>_. replaced_by fo payload) ?old" for name
  proof (rule runs_call, goal_cases)
    case (1 w r w')
    show ?case
    proof (cases r)
      case (Inl e)
      have "journal_is fo j w'" using 1(1) keep(1) honest_filesD(10) [OF h 1(2) [unfolded Inl]] by blast
      then show ?thesis using Inl by simp
    next
      case (Inr u)
      obtain k where k: "lf_temp (view w) name = take k payload" "whole_writes fo \<longrightarrow> length payload \<le> k"
        using 1(1) by blast
      obtain d i where "lf_journal (view w') = LogFile d i (take k payload)"
        using honest_filesD(11) [OF h 1(2) [unfolded Inr]] k(1) by auto
      then have "replaced_by fo payload w'" unfolding replaced_by_def journal_holds_def read using k(2) by blast
      then show ?thesis using Inr by simp
    qed
  qed
  have clean: "runs ?I (journal_is fo j) (andthen (call (fo_unlink fo name)) (\<lambda>_. throw e)) (\<lambda>_. replaced_by fo payload) ?E" for name e
  proof (rule runs_andthen [of _ _ _ "\<lambda>_. journal_is fo j"])
    show "runs ?I (journal_is fo j) (call (fo_unlink fo name)) (\<lambda>_. journal_is fo j) ?E"
    proof (rule runs_call, goal_cases)
      case (1 w r w')
      have "journal_is fo j w'" using 1(1) keep(1) honest_filesD(9) [OF h 1(2)] by blast
      then show ?case by (cases r) simp_all
    qed
  qed (simp add: runs_throw)
  have "runs ?I (?new x)
      (case x of (d, name) \<Rightarrow> andthen (catching
         (andthen (ensuring (andthen (call (fo_write fo d payload)) (\<lambda>_. call (fo_fsync fo d))) (call (fo_close fo d)))
            (\<lambda>_. call (fo_replace fo name)))
         (\<lambda>e. andthen (call (fo_unlink fo name)) (\<lambda>_. throw e)))
       (\<lambda>_. fsync_directory fo)) (\<lambda>_. replaced_by fo payload) ?E" for x
  proof (cases x)
    case (Pair d name)
    have last: "runs ?I (replaced_by fo payload) (fsync_directory fo) (\<lambda>_. replaced_by fo payload) ?E"
      by (rule runs_weaken [OF runs_fsync_directory [OF h, of "replaced_by fo payload"]]) (auto simp: replaced_by_def journal_holds_def read)
    show ?thesis unfolding Pair prod.case
      by (rule runs_andthen [OF runs_catching [OF runs_andthen [OF fill swap] clean] last])
  qed
  then show ?thesis unfolding replace_atomically_def by (rule runs_andthen [OF make])
qed

lemma map_of_prefix: "map_of (take m xs) k = Some v \<Longrightarrow> map_of xs k = Some v"
  by (metis append_take_drop_id map_add_Some_iff map_of_append)

text \<open>Folding any part of a compaction gives its first entries; a torn one is not counted.\<close>

lemma torn_payload:
  assumes "0 < depth"
  shows "filed (acc @ xs) \<Longrightarrow> \<exists>m. folded_lines depth acc (log_lines (take k (compact_payload xs))) = Inr (acc @ take m xs)"
proof (induction xs arbitrary: acc k)
  case (Cons x xs)
  obtain key e where x: "x = (key, e)" by (cases x)
  have e: "entry_ok e" "key = decode_name (je_target e)" "\<not> dict_has acc key"
    using Cons.prems by (auto simp: filed_def x dict_has_def dict_wf_def)
  then have applied: "apply_line depth acc (dumps (staged_document e)) = Inr (acc @ [x])"
    using apply_staged [OF _ assms, of e acc] dict_set_fresh [of acc key e] by (simp add: x)
  let ?d = "dumps (staged_document e)"
  have payload: "compact_payload (x # xs) = (map of_nat ?d @ [10]) @ compact_payload xs"
    by (simp add: compact_payload_def staged_line x)
  consider (torn) "k < length ?d" | (unended) "k = length ?d" | (past) k' where "k = Suc (length ?d) + k'"
    by (metis add_Suc_shift less_imp_Suc_add linorder_neqE_nat plus_nat.simps(2))
  then show ?case
  proof cases
    case torn
    then have "folded_lines depth acc (log_lines (take k (compact_payload (x # xs)))) = Inr (acc @ take 0 (x # xs))"
      using torn_document [OF staged_document_ok [OF e(1)] assms torn, of acc] by (simp add: payload)
    then show ?thesis by blast
  next
    case unended
    then have "folded_lines depth acc (log_lines (take k (compact_payload (x # xs)))) = Inr (acc @ take 1 (x # xs))"
      using applied by (simp add: payload unended_document)
    then show ?thesis by blast
  next
    case (past k')
    have line: "complete (map of_nat ?d @ [10])" by (simp add: complete_def)
    have "take k (compact_payload (x # xs)) = (map of_nat ?d @ [10]) @ take k' (compact_payload xs)"
      unfolding payload past by simp
    then have "folded_lines depth acc (log_lines (take k (compact_payload (x # xs)))) =
        folded_lines depth (acc @ [x]) (log_lines (take k' (compact_payload xs)))"
      using applied by (simp only: log_lines_append [OF line] log_lines_dumps folded_lines_append) simp
    moreover obtain m where "folded_lines depth (acc @ [x]) (log_lines (take k' (compact_payload xs))) = Inr ((acc @ [x]) @ take m xs)"
      using Cons.IH [of "acc @ [x]" k'] Cons.prems by auto
    ultimately have "folded_lines depth acc (log_lines (take k (compact_payload (x # xs)))) = Inr (acc @ take (Suc m) (x # xs))"
      by simp
    then show ?thesis by blast
  qed
qed (auto simp: compact_payload_def)

text \<open>A log that says of every target what \<open>m\<close> says of it, or nothing.\<close>

definition log_says_at_most :: "nat \<Rightarrow> log_file \<Rightarrow> (bytes \<Rightarrow> journal_entry option) \<Rightarrow> bool" where
  "log_says_at_most depth path m \<longleftrightarrow>
     (case fold_log depth path of
        Inl _ \<Rightarrow> False
      | Inr es \<Rightarrow> (\<forall>t. dict_get es (decode_name t) = None \<or> dict_get es (decode_name t) = m t))"

lemma log_says_less: "log_says depth path m \<Longrightarrow> log_says_at_most depth path m"
  by (auto simp: log_says_def log_says_at_most_def split: sum.splits)

text \<open>
  C28. Compaction of a journal: after every step it takes, finished or failed, the journal folds
  without an error and never says of a target anything but what its events said; what it may do
  is forget one, and only where \<open>os.write\<close> takes less than the whole buffer. On a file system
  that always takes all of it, the journal says of every target just what its events said, at
  every step, and when compaction returns the file holds the lines of the surviving entries alone.
  The number returned is theirs, also when not all of them were written.
\<close>

theorem compact_keeps_in_flight:
  assumes "honest_files fo view" "list_all event_ok events" "0 < depth"
    and "says = (\<lambda>w. (if whole_writes fo then log_says else log_says_at_most) depth (fo_read fo w) (in_flight_after events))"
  shows "runs says (journal_holds fo (log_of events)) (compact depth fo)
    (\<lambda>n w. says w \<and> (\<exists>es. length es = n \<and> fold_log depth (LogFile 0 0 (log_of events)) = Inr es \<and>
       (if whole_writes fo then journal_holds fo (compact_payload es) w
        else \<exists>k. journal_holds fo (take k (compact_payload es)) w)))
    (\<lambda>_. says)"
proof (rule runsI)
  fix w r w' t assume holds: "journal_holds fo (log_of events) w" and run: "compact depth fo w = (r, w', t)"
  obtain d i where j: "fo_read fo w = LogFile d i (log_of events)" using holds by (auto simp: journal_holds_def)
  obtain es where es: "folded_lines depth [] (log_lines (log_of events)) = Inr es"
      "\<forall>t. dict_get es (decode_name t) = in_flight_after events t"
    using folded_log [OF assms(2,3)] by blast
  have filed: "filed es" by (rule filed_log [OF assms(2,3) es(1)])
  have said: "log_says depth (fo_read fo v) (in_flight_after events) \<Longrightarrow> says v" for v
    using log_says_less by (simp add: assms(4))
  have old: "journal_is fo (fo_read fo w) v \<Longrightarrow> says v" for v
    using said log_saysI [OF es] by (simp add: journal_is_def j)
  have all: "journal_holds fo (compact_payload es) v \<Longrightarrow> says v" for v
    using said log_saysI [OF compact_payload_folds [OF filed assms(3)] es(2)] by (auto simp: journal_holds_def)
  have part: "log_says_at_most depth (fo_read fo v) (in_flight_after events)" if "journal_holds fo (take k (compact_payload es)) v" for v k
  proof -
    obtain m where m: "folded_lines depth [] (log_lines (take k (compact_payload es))) = Inr (take m es)"
      using torn_payload [OF assms(3), of "[]" es k] filed by auto
    have some: "dict_get (take m es) x = None \<or> dict_get (take m es) x = dict_get es x" for x
      using map_of_prefix [of m es x] by (cases "map_of (take m es) x") (simp_all add: dict_get_def)
    have "dict_get (take m es) (decode_name t) = None \<or> dict_get (take m es) (decode_name t) = in_flight_after events t" for t
      using some [of "decode_name t"] spec [OF es(2), of t] by simp
    moreover obtain d i where "fo_read fo v = LogFile d i (take k (compact_payload es))"
      using \<open>journal_holds fo (take k (compact_payload es)) v\<close> by (auto simp: journal_holds_def)
    ultimately show ?thesis by (simp add: log_says_at_most_def fold_log_lines m)
  qed
  have new: "replaced_by fo (compact_payload es) v \<Longrightarrow> says v" for v
    using all part by (cases "whole_writes fo") (auto simp: replaced_by_def assms(4))
  have fold: "fold_log depth (fo_read fo w) = Inr es" by (simp add: j fold_log_lines es)
  obtain r0 w0 t0 where ra: "replace_atomically fo (compact_payload es) w = (r0, w0, t0)" using prod_cases3 by blast
  note q = runsD [OF runs_replace_atomically [OF assms(1), of "fo_read fo w" "compact_payload es"] _ ra]
  have t: "list_all says t0" using q(1) old new by (auto simp: journal_is_def list_all_iff)
  show "list_all says t \<and> (case r of Inl e \<Rightarrow> says w'
      | Inr n \<Rightarrow> says w' \<and> (\<exists>es. length es = n \<and> fold_log depth (LogFile 0 0 (log_of events)) = Inr es \<and>
          (if whole_writes fo then journal_holds fo (compact_payload es) w'
           else \<exists>k. journal_holds fo (take k (compact_payload es)) w')))"
  proof (cases r0)
    case (Inl e)
    then show ?thesis using run fold ra t q(2) old new
      by (auto simp: compact_def ask_def andthen_def journal_is_def)
  next
    case (Inr u)
    then have same: "r = Inr (length es)" "w' = w0" "t = t0"
      using run fold ra by (auto simp: compact_def ask_def andthen_def give_def)
    have "replaced_by fo (compact_payload es) w0" using q(2) Inr by (simp add: journal_is_def)
    then have "says w0" "if whole_writes fo then journal_holds fo (compact_payload es) w0
        else \<exists>k. journal_holds fo (take k (compact_payload es)) w0"
      using new by (auto simp: replaced_by_def)
    then show ?thesis using t same es(1) by (auto simp: fold_log_lines)
  qed
qed

text \<open>A disk whose writes take the part of the buffer that \<open>part\<close> leaves.\<close>

definition disk_ops :: "(bytes \<Rightarrow> bytes) \<Rightarrow> local_files file_ops" where
  "disk_ops part =
     \<lparr>fo_exists = (\<lambda>w. (Inr True, w)), fo_open_append = (\<lambda>w. (Inr 3, w)),
      fo_write = (\<lambda>d bs w. (Inr (length (part bs)), temp_written w d (part bs))),
      fo_fsync = (\<lambda>d w. (Inr (), w)), fo_close = (\<lambda>d w. (Inr (), w)), fo_open_directory = (\<lambda>w. (Inl OSErr, w)),
      fo_mkstemp = (\<lambda>w. (Inr (5, [116]), w\<lparr>lf_open := (lf_open w)(5 := [116]), lf_temp := (lf_temp w)([116] := [])\<rparr>)),
      fo_replace = (\<lambda>name w. (Inr (), w\<lparr>lf_journal := LogFile 0 9 (lf_temp w name)\<rparr>)),
      fo_unlink = (\<lambda>name w. (Inr (), w)), fo_read = lf_journal\<rparr>"

lemma disk_honest: "(\<And>bs. prefix (part bs) bs) \<Longrightarrow> honest_files (disk_ops part) (\<lambda>w. w)"
proof -
  assume "\<And>bs. prefix (part bs) bs"
  then have "take (length (part bs)) bs = part bs" for bs by (metis append_eq_conv_conj prefix_def)
  then show ?thesis by (simp add: honest_files_def disk_ops_def temp_written_def del: split_paired_All)
qed

definition example_files :: local_files where
  "example_files = \<lparr>lf_journal = LogFile 0 1 (log_of [Staging [1] [2] example_source]), lf_temp = (\<lambda>_. []), lf_open = (\<lambda>_. [])\<rparr>"

text \<open>On a disk that takes only ten bytes at a time: the journal never says anything wrong.\<close>

lemma compact_keeps_in_flight_witness:
  "runs (\<lambda>w. log_says_at_most 1 (lf_journal w) (in_flight_after [Staging [1] [2] example_source]))
    (journal_holds (disk_ops (take 10)) (log_of [Staging [1] [2] example_source])) (compact 1 (disk_ops (take 10)))
    (\<lambda>n w. log_says_at_most 1 (lf_journal w) (in_flight_after [Staging [1] [2] example_source]))
    (\<lambda>_ w. log_says_at_most 1 (lf_journal w) (in_flight_after [Staging [1] [2] example_source])) \<and>
   journal_holds (disk_ops (take 10)) (log_of [Staging [1] [2] example_source]) example_files"
proof
  let ?fo = "disk_ops (take 10)"
  show "journal_holds ?fo (log_of [Staging [1] [2] example_source]) example_files"
    by (simp add: journal_holds_def disk_ops_def example_files_def)
  have "fo_write ?fo 0 (replicate 11 0) example_files = (Inr 10, temp_written example_files 0 (take 10 (replicate 11 0)))"
    by (simp add: disk_ops_def)
  then have w: "\<not> whole_writes ?fo"
    unfolding whole_writes_def by (metis length_replicate numeral_eq_iff num.distinct(1) semiring_norm(87,88,89))
  have read: "fo_read ?fo = lf_journal" by (simp add: disk_ops_def)
  have says: "(\<lambda>w. log_says_at_most 1 (lf_journal w) m) =
      (\<lambda>w. (if whole_writes ?fo then log_says else log_says_at_most) 1 (fo_read ?fo w) m)" for m
    by (simp add: w read)
  show "runs (\<lambda>w. log_says_at_most 1 (lf_journal w) (in_flight_after [Staging [1] [2] example_source]))
    (journal_holds ?fo (log_of [Staging [1] [2] example_source])) (compact 1 ?fo)
    (\<lambda>n w. log_says_at_most 1 (lf_journal w) (in_flight_after [Staging [1] [2] example_source]))
    (\<lambda>_ w. log_says_at_most 1 (lf_journal w) (in_flight_after [Staging [1] [2] example_source]))"
    by (rule runs_weaken [OF compact_keeps_in_flight [OF disk_honest, of "take 10" "[Staging [1] [2] example_source]" 1, OF _ _ _ says]])
      (simp_all add: example_source_ok take_is_prefix)
qed

section \<open>Where the journal falls short of what it says\<close>

text \<open>
  A write that takes less than it is given, as on a disk that is filling up, is not noticed: the
  compaction returns and the journal no longer holds the entry it counted.
\<close>

lemma short_write:
  "case compact 1 (disk_ops (take 10)) example_files of
     (r, w, _) \<Rightarrow> r = Inr 1 \<and> fold_log 1 (lf_journal w) = Inr []"
  by code_simp

definition lone_surrogate_record :: bytes where
  "lone_surrogate_record = (map of_nat (text_of ''{\"version\": 1, \"event\": \"staged\", \"target\": \"a\", \"staged\": \"'' @ 92 # text_of ''ud800\", \"local\": \"b\", \"local_size\": 1, \"local_mtime\": 1}'') @ [10])"

text \<open>A record whose staged name is a lone high surrogate stops every lookup of the journal.\<close>

lemma lone_surrogate:
  "fold_log 1 (LogFile 0 0 lone_surrogate_record) = Inl NotEncodable"
  by code_simp

text \<open>The record appended after a torn one is on the torn one's line and is lost with it.\<close>

lemma record_after_torn:
  "fold_log 1 (LogFile 0 0 (take 20 (event_bytes (Publishing [97])) @ event_bytes (Staging [1] [2] example_source))) = Inr []"
  by code_simp

text \<open>
  Three limits of the promises above. A compaction on a disk that takes only part of a write
  returns as if it had kept its entry, and the journal holds none. A record whose staged name is a
  lone high surrogate raises out of every fold. And the record appended after a torn one shares its
  line, so that a staging file recorded durably is not found.
\<close>

theorem journal_falls_short:
  "(case compact 1 (disk_ops (take 10)) example_files of
      (r, w, _) \<Rightarrow> r = Inr 1 \<and> fold_log 1 (lf_journal w) = Inr []) \<and>
   fold_log 1 (LogFile 0 0 lone_surrogate_record) = Inl NotEncodable \<and>
   fold_log 1 (LogFile 0 0 (take 20 (event_bytes (Publishing [97])) @ event_bytes (Staging [1] [2] example_source))) = Inr []"
  using short_write lone_surrogate record_after_torn by blast

end
