(* ===== verification/Policy.thy ===== *)
theory Policy
  imports Put PyText RemotePath Attrs
begin

text \<open>
  The decisions of a transfer that need no server: what a \<open>Publish\<close> policy is and how the keyword
  arguments it replaced become one (\<open>session/_publish.py\<close>), how a staging file is named, which
  combinations are refused and what a download adopts, checks and preserves (\<open>session/_policy.py\<close>),
  and what a \<open>mode=\<close> argument means (\<open>session/_mode.py\<close>).
\<close>

section \<open>Arguments as Python passes them\<close>

text \<open>A value a keyword argument can have; \<open>OtherArg\<close> is one of any other type, by its name.\<close>

datatype py_arg = NoneArg | BoolArg bool | NumArg int | BytesValue bytes | TextArg str | OtherArg string

section \<open>The policy\<close>

datatype staging_name = BytesName bytes | StrName str

record publish =
  pub_atomic :: bool
  pub_fsync :: bool
  pub_require_atomic :: bool
  pub_require_fsync :: bool
  pub_staging_name :: "staging_name option"
  pub_journal :: bool

definition DEFAULT_PUBLISH :: publish where
  "DEFAULT_PUBLISH =
     \<lparr>pub_atomic = True, pub_fsync = True, pub_require_atomic = False, pub_require_fsync = False,
      pub_staging_name = None, pub_journal = False\<rparr>"

definition LEGACY_PUBLISH_ARGUMENTS :: "string list" where
  "LEGACY_PUBLISH_ARGUMENTS = [''atomic'', ''fsync'', ''require_atomic'', ''require_fsync'', ''staging_name'']"

definition legacy_flag :: "(string, py_arg) dict \<Rightarrow> string \<Rightarrow> bool \<Rightarrow> exn + bool" where
  "legacy_flag legacy name otherwise =
     (case dict_get legacy name of
        None \<Rightarrow> Inr otherwise
      | Some (BoolArg b) \<Rightarrow> Inr b
      | Some _ \<Rightarrow> Inl (TypeErr (Msg ''must be a bool'' [StrArg name])))"

definition legacy_staging_name :: "(string, py_arg) dict \<Rightarrow> exn + staging_name option" where
  "legacy_staging_name legacy =
     (case dict_get legacy ''staging_name'' of
        None \<Rightarrow> Inr None
      | Some NoneArg \<Rightarrow> Inr None
      | Some (BytesValue b) \<Rightarrow> Inr (Some (BytesName b))
      | Some (TextArg s) \<Rightarrow> Inr (Some (StrName s))
      | Some _ \<Rightarrow> Inl (TypeErr (Msg ''staging_name must be bytes or str'' [])))"

text \<open>The policy of a call, and whether the deprecation warning is issued.\<close>

definition publish_from_legacy :: "publish option \<Rightarrow> (string, py_arg) dict \<Rightarrow> exn + publish \<times> bool" where
  "publish_from_legacy publish legacy =
     (if \<exists>k \<in> set (map fst legacy). k \<notin> set LEGACY_PUBLISH_ARGUMENTS
      then Inl (TypeErr (Msg ''got unexpected keyword argument(s)'' []))
      else (case publish of
              Some p \<Rightarrow> (if legacy \<noteq> [] then Inl (TypeErr (Msg ''got both publish= and legacy'' [])) else Inr (p, False))
            | None \<Rightarrow>
                (if legacy = [] then Inr (DEFAULT_PUBLISH, False)
                 else bind_sum (legacy_flag legacy ''atomic'' (pub_atomic DEFAULT_PUBLISH)) (\<lambda>a.
                      bind_sum (legacy_flag legacy ''fsync'' (pub_fsync DEFAULT_PUBLISH)) (\<lambda>f.
                      bind_sum (legacy_flag legacy ''require_atomic'' (pub_require_atomic DEFAULT_PUBLISH)) (\<lambda>ra.
                      bind_sum (legacy_flag legacy ''require_fsync'' (pub_require_fsync DEFAULT_PUBLISH)) (\<lambda>rf.
                      bind_sum (legacy_staging_name legacy) (\<lambda>n.
                        Inr (\<lparr>pub_atomic = a, pub_fsync = f, pub_require_atomic = ra, pub_require_fsync = rf,
                              pub_staging_name = n, pub_journal = False\<rparr>, True)))))))))"

section \<open>Paths and names\<close>

text \<open>\<open>_encode_path\<close>: a remote path is bytes, or text that is encoded back.\<close>

definition encode_path :: "py_arg \<Rightarrow> exn + bytes" where
  "encode_path path =
     (case path of
        BytesValue b \<Rightarrow> Inr b
      | TextArg s \<Rightarrow> (case encode_text s of Some b \<Rightarrow> Inr b | None \<Rightarrow> Inl (ValueErr (Msg ''surrogates not allowed'' [])))
      | _ \<Rightarrow> Inl (TypeErr (Msg ''a remote path must be bytes or str'' [])))"

definition optional_path :: "staging_name option \<Rightarrow> exn + bytes option" where
  "optional_path path =
     (case path of
        None \<Rightarrow> Inr None
      | Some (BytesName b) \<Rightarrow> bind_sum (encode_path (BytesValue b)) (\<lambda>b. Inr (Some b))
      | Some (StrName s) \<Rightarrow> bind_sum (encode_path (TextArg s)) (\<lambda>b. Inr (Some b)))"

definition MAX_STAGED_NAME_LENGTH :: nat where "MAX_STAGED_NAME_LENGTH = 255"

definition TOKEN_BYTES :: nat where "TOKEN_BYTES = 4"

text \<open>\<open>os.urandom(4).hex()\<close>, encoded; the random bytes are the argument.\<close>

definition hex_byte :: "nat \<Rightarrow> byte" where "hex_byte v = of_nat (if v < 10 then 48 + v else 87 + v)"

definition staging_token :: "bytes \<Rightarrow> bytes" where
  "staging_token random = concat (map (\<lambda>b. [hex_byte (unat b div 16), hex_byte (unat b mod 16)]) (take TOKEN_BYTES random))"

text \<open>\<open>path.rpartition(b"/")\<close>, the separator kept with the parent.\<close>

definition split_parent :: "bytes \<Rightarrow> bytes \<times> bytes" where
  "split_parent path =
     (rev (dropWhile (\<lambda>b. b \<noteq> 47) (rev path)), rev (takeWhile (\<lambda>b. b \<noteq> 47) (rev path)))"

definition staged_suffix :: "bytes \<Rightarrow> bytes" where "staged_suffix token = 46 # token @ ascii ''.part''"

definition staged_path :: "bytes \<Rightarrow> bytes \<Rightarrow> bytes option \<Rightarrow> exn + bytes" where
  "staged_path target token name =
     (case split_parent target of
        (parent, base) \<Rightarrow>
          (if base = [] then Inl (ValueErr (Msg ''remote path has no filename to publish'' [BytesArg target]))
           else (case name of
                   Some n \<Rightarrow> Inr (if 47 \<in> set n then n else parent @ n)
                 | None \<Rightarrow>
                     Inr (parent @ 46 # take (MAX_STAGED_NAME_LENGTH - (1 + length (staged_suffix token))) base @ staged_suffix token))))"

text \<open>\<open>resume_target\<close>, the journal's lookup being an argument.\<close>

definition resume_target :: "(bytes \<Rightarrow> bytes option) option \<Rightarrow> bytes \<Rightarrow> bool \<Rightarrow> bytes option \<Rightarrow> bytes option" where
  "resume_target journal target resume name =
     (case journal of
        None \<Rightarrow> None
      | Some lookup \<Rightarrow> (if \<not> resume \<or> name \<noteq> None then None else lookup target))"

section \<open>What is refused before anything is sent\<close>

definition check_publish_flags :: "publish \<Rightarrow> bool \<Rightarrow> exn + unit" where
  "check_publish_flags p resume =
     (if pub_require_atomic p \<and> \<not> pub_atomic p then Inl (ValueErr (Msg ''require_atomic=True contradicts atomic=False'' []))
      else if pub_require_fsync p \<and> \<not> pub_fsync p then Inl (ValueErr (Msg ''require_fsync=True contradicts fsync=False'' []))
      else if resume \<and> pub_atomic p \<and> pub_staging_name p = None \<and> \<not> pub_journal p
      then Inl (ValueErr (Msg ''resume=True needs journal= or staging_name='' []))
      else Inr ())"

definition check_tree_publish :: "publish \<Rightarrow> bool \<Rightarrow> exn + unit" where
  "check_tree_publish p resume =
     (if resume \<and> pub_atomic p \<and> \<not> pub_journal p
      then Inl (ValueErr (Msg ''needs a journal to resume with atomic publishing'' []))
      else if pub_staging_name p \<noteq> None then Inl (ValueErr (Msg ''cannot take a staging_name'' []))
      else check_publish_flags p resume)"

definition check_transfer_concurrency :: "int \<Rightarrow> bool \<Rightarrow> exn + unit" where
  "check_transfer_concurrency concurrency progress =
     (if concurrency < 1 then Inl (ValueErr (Msg ''concurrency must be at least 1'' [IntArg concurrency]))
      else if concurrency > 1 \<and> progress then Inl (ValueErr (Msg ''cannot take progress= with concurrency'' [IntArg concurrency]))
      else Inr ())"

text \<open>\<open>_check_local_path\<close>: a \<open>Path\<close> is an \<open>OtherArg ''Path''\<close>.\<close>

definition check_local_path :: "py_arg \<Rightarrow> exn + unit" where
  "check_local_path local_path =
     (case local_path of
        TextArg _ \<Rightarrow> Inr ()
      | OtherArg t \<Rightarrow> (if t = ''Path'' then Inr () else Inl (TypeErr (Msg ''needs a Path or str for its local path'' [])))
      | _ \<Rightarrow> Inl (TypeErr (Msg ''needs a Path or str for its local path'' [])))"

section \<open>Modes\<close>

datatype mode = PreserveMode | Bits int

definition resolve_mode :: "py_arg \<Rightarrow> exn + mode option" where
  "resolve_mode m =
     (case m of
        NoneArg \<Rightarrow> Inr None
      | BoolArg _ \<Rightarrow> Inl (TypeErr (Msg ''mode= must be an octal permission mode, not a bool'' []))
      | TextArg s \<Rightarrow> (if s = text_of ''preserve'' then Inr (Some PreserveMode) else Inl (ValueErr (Msg ''not a mode'' [])))
      | NumArg n \<Rightarrow>
          (if 0 \<le> n \<and> n \<le> PERMISSION_BITS then Inr (Some (Bits n))
           else Inl (ValueErr (Msg ''mode= must be between 0o0 and 0o7777'' [IntArg n])))
      | _ \<Rightarrow> Inl (TypeErr (Msg ''mode= must be an octal permission mode'' [])))"

text \<open>\<open>local_mode\<close> of the \<open>st_mode\<close> a \<open>stat\<close> answered.\<close>

definition local_mode :: "int \<Rightarrow> int" where "local_mode st_mode = st_mode AND PERMISSION_BITS"

definition download_mode :: "mode option \<Rightarrow> attrs \<Rightarrow> bytes \<Rightarrow> exn + int option" where
  "download_mode m attributes remote_path =
     (case m of
        None \<Rightarrow> Inr None
      | Some (Bits n) \<Rightarrow> Inr (Some n)
      | Some PreserveMode \<Rightarrow>
          (case a_permissions attributes of
             None \<Rightarrow> Inl (TransferErr (Msg ''the server sent no permissions'' [BytesArg remote_path]) 0 (Some 0) (Some remote_path))
           | Some permissions \<Rightarrow> Inr (Some (permissions AND PERMISSION_BITS))))"

section \<open>Checking a download\<close>

definition preservation :: "bool \<Rightarrow> times option \<Rightarrow> time_preservation" where
  "preservation asked t = (if \<not> asked then TimesSkipped else if t \<noteq> None then TimesPreserved else TimesUnavailable)"

definition gate_as_content_check :: "resume_check \<Rightarrow> verify \<Rightarrow> content_check" where
  "gate_as_content_check resume_check v =
     (if v = VerifySize then ContentSkipped
      else if resume_check = ResumeMatched then (if v = VerifyHash then ContentHashed else ContentReread)
      else ContentUnavailable)"

definition confirm_download_size :: "bytes \<Rightarrow> int \<Rightarrow> int option \<Rightarrow> bool \<Rightarrow> exn + size_check" where
  "confirm_download_size remote_path arrived announced asked =
     (if \<not> asked then Inr SizeSkipped
      else (case announced of
              None \<Rightarrow> Inr SizeUnavailable
            | Some n \<Rightarrow>
                (if arrived \<noteq> n
                 then Inl (TransferErr (Msg ''truncated or the file shrank'' [BytesArg remote_path]) arrived (Some arrived) (Some remote_path))
                 else Inr SizeMatched)))"

text \<open>\<open>_download_resume_offset\<close> of what the local file holds, 0 when it cannot be read.\<close>

definition download_resume_offset :: "nat \<Rightarrow> int option \<Rightarrow> bytes \<Rightarrow> exn + int" where
  "download_resume_offset have_bytes size_reported remote_path =
     (case size_reported of
        None \<Rightarrow> Inl (TransferErr (Msg ''resume needs a size'' [BytesArg remote_path]) 0 None (Some remote_path))
      | Some n \<Rightarrow>
          (if int have_bytes > n
           then Inl (TransferErr (Msg ''cannot resume: not a prefix'' [BytesArg remote_path]) 0 (Some (int have_bytes)) (Some remote_path))
           else Inr (int have_bytes)))"

section \<open>What the decisions guarantee\<close>

lemma split_parent_append: "split_parent target = (parent, base) \<Longrightarrow> target = parent @ base"
proof -
  assume "split_parent target = (parent, base)"
  then have "rev base @ rev parent = rev target" by (auto simp: split_parent_def)
  then show ?thesis by (metis rev_append rev_rev_ident)
qed

lemma split_parent_base: "split_parent target = (parent, base) \<Longrightarrow> 47 \<notin> set base"
  by (auto simp: split_parent_def dest: set_takeWhileD)

lemma split_parent_join: "47 \<notin> set base \<Longrightarrow> parent = [] \<or> last parent = 47 \<Longrightarrow> split_parent (parent @ base) = (parent, base)"
proof (cases parent rule: rev_cases)
  case Nil
  assume "47 \<notin> set base"
  then have "\<forall>x \<in> set (rev base). x \<noteq> 47" by auto
  then show ?thesis by (simp add: Nil split_parent_def takeWhile_eq_all_conv [THEN iffD2] dropWhile_eq_Nil_conv [THEN iffD2])
next
  case (snoc xs x)
  assume b: "47 \<notin> set base" and "parent = [] \<or> last parent = 47"
  then have x: "x = 47" using snoc by simp
  have all: "\<And>y. y \<in> set (rev base) \<Longrightarrow> y \<noteq> 47" using b by auto
  have "takeWhile (\<lambda>b. b \<noteq> 47) (rev base @ 47 # rev xs) = rev base @ takeWhile (\<lambda>b. b \<noteq> 47) (47 # rev xs)"
    "dropWhile (\<lambda>b. b \<noteq> 47) (rev base @ 47 # rev xs) = dropWhile (\<lambda>b. b \<noteq> 47) (47 # rev xs)"
    by (rule takeWhile_append2, erule all, rule dropWhile_append2, erule all)
  then show ?thesis by (simp add: split_parent_def snoc x)
qed

lemma split_parent_parent: "split_parent target = (parent, base) \<Longrightarrow> parent = [] \<or> last parent = 47"
  using hd_dropWhile [of "\<lambda>b. b \<noteq> 47" "rev target"] by (auto simp: split_parent_def last_rev)

lemma token_bytes: "c \<in> set (staging_token random) \<Longrightarrow> c \<noteq> 47 \<and> c \<noteq> 0"
proof -
  have h: "hex_byte v \<noteq> 47 \<and> hex_byte v \<noteq> 0" if "v < 16" for v
  proof -
    have "v \<in> set [0..<16]" using that by simp
    then show ?thesis by (auto simp: hex_byte_def upt_rec)
  qed
  have d: "unat (b :: byte) div 16 < 16" for b using unat_byte_less [of b] by (simp add: less_mult_imp_div_less)
  assume "c \<in> set (staging_token random)"
  then obtain b where "c = hex_byte (unat (b :: byte) div 16) \<or> c = hex_byte (unat b mod 16)"
    by (auto simp: staging_token_def)
  then show ?thesis using h [OF d, of b] h [of "unat b mod 16"] by auto
qed

lemma length_staging_token: "4 \<le> length random \<Longrightarrow> length (staging_token random) = 8"
proof -
  assume "4 \<le> length random"
  moreover have "length (concat (map (\<lambda>b. [f b, g b]) xs)) = 2 * length xs" for f g :: "byte \<Rightarrow> byte" and xs :: bytes
    by (induction xs) simp_all
  ultimately show ?thesis by (simp add: staging_token_def TOKEN_BYTES_def)
qed

lemma staged_suffix_plain: "47 \<notin> set token \<Longrightarrow> 47 \<notin> set (staged_suffix token)"
  by (simp add: staged_suffix_def ascii_def)

text \<open>
  C30. The generated name of a staging file: in the directory of its target, hidden, a single
  component of at most 255 bytes, and another file than the target unless the target's own name has
  the full 255 bytes; two tokens of the same length never give one name. A target without a file name is refused.
\<close>

theorem staged_names_are_siblings:
  assumes "split_parent target = (parent, base)" "4 \<le> length random"
  shows "case staged_path target (staging_token random) None of
      Inl _ \<Rightarrow> base = []
    | Inr staged \<Rightarrow>
        base \<noteq> [] \<and>
        (\<exists>name. split_parent staged = (parent, name) \<and> length name \<le> MAX_STAGED_NAME_LENGTH \<and> hd name = 46 \<and>
           (if 0 \<in> set base then True else remote_component_reason name = None)) \<and>
        (if length base < MAX_STAGED_NAME_LENGTH then staged \<noteq> target else True) \<and>
        (if length other = 8 \<and> staged_path target other None = Inr staged then other = staging_token random else True)"
proof (cases "base = []")
  case True
  then show ?thesis using assms by (simp add: staged_path_def)
next
  case False
  let ?token = "staging_token random"
  have tl: "length ?token = 8" by (rule length_staging_token) fact
  have sl: "length (staged_suffix t) = 14" if "length t = 8" for t
    using that by (simp add: staged_suffix_def ascii_def)
  let ?head = "take (255 - (1 + 14)) base"
  let ?name = "46 # ?head @ staged_suffix ?token"
  have sp: "staged_path target t None = Inr (parent @ 46 # ?head @ staged_suffix t)" if "length t = 8" for t
    using that assms(1) False sl [OF that] by (simp add: staged_path_def MAX_STAGED_NAME_LENGTH_def)
  have plain: "47 \<notin> set ?name"
    using split_parent_base [OF assms(1)] staged_suffix_plain [of ?token] token_bytes [of _ random] by (auto dest: in_set_takeD)
  have split: "split_parent (parent @ ?name) = (parent, ?name)"
    using split_parent_join [OF plain split_parent_parent [OF assms(1)]] .
  have zero: "0 \<notin> set ?name" if "0 \<notin> set base"
  proof -
    have "0 \<notin> set ?token" using token_bytes by blast
    then show ?thesis using that by (auto simp: staged_suffix_def ascii_def dest: in_set_takeD)
  qed
  have reason: "remote_component_reason ?name = None" if "0 \<notin> set base"
  proof -
    have "2 < length ?name" using sl [OF tl] by simp
    moreover have "\<forall>x \<in> set DOT_NAMES. length x \<le> 2" by (simp add: DOT_NAMES_def)
    ultimately have "?name \<notin> set DOT_NAMES" by (metis not_le)
    then show ?thesis using zero [OF that] plain by (simp add: remote_component_reason_def)
  qed
  have differs: "parent @ ?name \<noteq> target" if "length base < 255"
  proof
    assume "parent @ ?name = target"
    then have "?name = base" using split_parent_append [OF assms(1)] by simp
    then have "length ?name = length base" by (rule arg_cong)
    then show False using that sl [OF tl] by (simp add: min_def split: if_splits)
  qed
  have inj: "other = ?token" if "length other = 8" "staged_path target other None = Inr (parent @ ?name)"
    using that(2) sp [OF that(1)] by (simp add: staged_suffix_def)
  show ?thesis
    using False sp [OF tl] split reason differs inj sl [OF tl] by (auto simp: MAX_STAGED_NAME_LENGTH_def)
qed

lemma staged_names_are_siblings_witness:
  "case staged_path [47, 97, 47, 98] (staging_token [1, 2, 3, 4]) None of
      Inl _ \<Rightarrow> [98 :: byte] = []
    | Inr staged \<Rightarrow>
        [98 :: byte] \<noteq> [] \<and>
        (\<exists>name. split_parent staged = ([47, 97, 47], name) \<and> length name \<le> MAX_STAGED_NAME_LENGTH \<and> hd name = 46 \<and>
           (if 0 \<in> set [98 :: byte] then True else remote_component_reason name = None)) \<and>
        (if length [98 :: byte] < MAX_STAGED_NAME_LENGTH then staged \<noteq> [47, 97, 47, 98] else True) \<and>
        (if length ([] :: bytes) = 8 \<and> staged_path [47, 97, 47, 98] [] None = Inr staged then [] = staging_token [1, 2, 3, 4] else True)"
  by (rule staged_names_are_siblings) (simp_all add: split_parent_def)

end
