(* ===== verification/Operations.thy ===== *)
theory Operations
  imports Policy Codec Extensions Acts
begin

text \<open>
  The operations of a session, one request and one reply each: \<open>session/_operations.py\<close> over
  \<open>session/_core.py\<close>, with the directory entries of \<open>session/_listing.py\<close>. The dispatcher below is a
  parameter, \<open>connection\<close>: it allocates a request id and exchanges a packet for its reply, an
  exception, or no answer within the request timeout. What a session remembers is its state: the
  extensions found out to be unsupported, the working directory and the server's default one.
\<close>

section \<open>Directory entries\<close>

datatype entry_kind_of = FILE | DIRECTORY | SYMLINK | OTHER | UNKNOWN

definition file_type :: "int \<Rightarrow> int" where "file_type mode = mode AND 61440"

definition entry_kind :: "attrs \<Rightarrow> entry_kind_of" where
  "entry_kind attributes =
     (case a_permissions attributes of
        None \<Rightarrow> UNKNOWN
      | Some mode \<Rightarrow>
          (if file_type mode = 16384 then DIRECTORY
           else if file_type mode = 40960 then SYMLINK
           else if file_type mode = 32768 then FILE
           else OTHER))"

definition DOT_ENTRIES :: "bytes list" where "DOT_ENTRIES = [[46], [46, 46]]"

record dir_entry =
  de_filename :: bytes
  de_longname :: bytes
  de_attrs :: attrs

definition from_name_entry :: "name_entry \<Rightarrow> dir_entry" where
  "from_name_entry e = \<lparr>de_filename = ne_filename e, de_longname = ne_longname e, de_attrs = ne_attrs e\<rparr>"

definition de_kind :: "dir_entry \<Rightarrow> entry_kind_of" where "de_kind e = entry_kind (de_attrs e)"

definition de_name :: "dir_entry \<Rightarrow> str" where "de_name e = decode_name (de_filename e)"

definition de_size :: "dir_entry \<Rightarrow> int option" where "de_size e = a_size (de_attrs e)"

text \<open>\<open>modified_at\<close> and \<open>accessed_at\<close>, as seconds since 1970 in UTC.\<close>

definition modified_at :: "attrs \<Rightarrow> int option" where "modified_at a = map_option mtime (a_times a)"
definition accessed_at :: "attrs \<Rightarrow> int option" where "accessed_at a = map_option atime (a_times a)"

section \<open>The session\<close>

record 'w connection =
  co_next :: "(int, 'w) act"
  co_round_trip :: "packet \<Rightarrow> 'w \<Rightarrow> (exn + packet) option \<times> 'w"
  co_extensions :: "(bytes, bytes) dict"
  co_read_range :: "bytes \<Rightarrow> int \<Rightarrow> int \<Rightarrow> (bytes, 'w) act"
  co_write_range :: "bytes \<Rightarrow> bytes \<Rightarrow> int \<Rightarrow> (int, 'w) act"

record 'w session =
  se_world :: 'w
  se_unsupported :: "bytes list"
  se_root :: "bytes option"
  se_cwd :: "bytes option"

definition new_session :: "'w \<Rightarrow> 'w session" where
  "new_session w = \<lparr>se_world = w, se_unsupported = [], se_root = None, se_cwd = None\<rparr>"

definition on_wire :: "('a, 'w) act \<Rightarrow> ('a, 'w session) act" where
  "on_wire f s = (case f (se_world s) of (r, w) \<Rightarrow> (r, s\<lparr>se_world := w\<rparr>))"

definition next_id :: "'w connection \<Rightarrow> (int, 'w session) prog" where "next_id c = call (on_wire (co_next c))"

definition request_timed_out :: exn where
  "request_timed_out = TransferTimeoutErr (Msg ''was not answered within the request timeout'' []) 0 None None"

definition request :: "'w connection \<Rightarrow> packet \<Rightarrow> (packet, 'w session) prog" where
  "request c p = call (on_wire (\<lambda>w. case co_round_trip c p w of
     (None, w') \<Rightarrow> (Inl request_timed_out, w')
   | (Some r, w') \<Rightarrow> (r, w')))"

definition supports :: "'w connection \<Rightarrow> bytes \<Rightarrow> bool" where "supports c name \<longleftrightarrow> dict_has (co_extensions c) name"

definition refuses :: "bytes \<Rightarrow> 'w session \<Rightarrow> bool" where "refuses name s \<longleftrightarrow> name \<in> set (se_unsupported s)"

definition remember_unsupported :: "bytes \<Rightarrow> (unit, 'w session) prog" where
  "remember_unsupported name = call (\<lambda>s. (Inr (), s\<lparr>se_unsupported := List.insert name (se_unsupported s)\<rparr>))"

definition raising :: "exn + 'a \<Rightarrow> ('a, 'w) prog" where
  "raising r = (case r of Inl e \<Rightarrow> throw e | Inr x \<Rightarrow> give x)"

section \<open>Statuses\<close>

definition status_class :: "status_code \<Rightarrow> server_class" where
  "status_class code =
     (case code of
        FX_NO_SUCH_FILE \<Rightarrow> NoSuchFile
      | FX_PERMISSION_DENIED \<Rightarrow> PermissionDenied
      | FX_OP_UNSUPPORTED \<Rightarrow> Unsupported
      | _ \<Rightarrow> PlainServerError)"

definition raise_for_status :: "status_code \<Rightarrow> bytes \<Rightarrow> bytes option \<Rightarrow> exn + unit" where
  "raise_for_status code message path =
     (if code = FX_OK \<or> code = FX_EOF then Inr ()
      else Inl (ServerErr (status_class code) (status_code_value code) message path))"

fun is_unsupported :: "exn \<Rightarrow> bool" where
  "is_unsupported (ServerErr Unsupported _ _ _) = True"
| "is_unsupported _ = False"

definition unexpected :: "packet \<Rightarrow> string \<Rightarrow> bytes option \<Rightarrow> exn" where
  "unexpected reply expected path =
     (case reply of
        Status i code message _ _ \<Rightarrow>
          (case raise_for_status code message path of
             Inl e \<Rightarrow> e
           | Inr _ \<Rightarrow> protocol_error (Msg ''server answered with STATUS'' [StrArg expected]) None (Some i) None)
      | _ \<Rightarrow> protocol_error (Msg ''server answered with another packet'' [StrArg expected]) None (request_id reply) None)"

text \<open>\<open>_expect_status\<close> of the request that \<open>build\<close> gives.\<close>

definition expect_status :: "'w connection \<Rightarrow> (int \<Rightarrow> (packet, 'w session) prog) \<Rightarrow> bytes option \<Rightarrow> (unit, 'w session) prog" where
  "expect_status c build path =
     andthen (next_id c) (\<lambda>i. andthen (build i) (\<lambda>p. andthen (request c p) (\<lambda>reply.
       case reply of
         Status _ code message _ _ \<Rightarrow> raising (raise_for_status code message path)
       | _ \<Rightarrow> throw (unexpected reply ''STATUS'' None))))"

definition asking :: "'w connection \<Rightarrow> (int \<Rightarrow> packet) \<Rightarrow> (packet \<Rightarrow> ('a, 'w session) prog) \<Rightarrow> ('a, 'w session) prog" where
  "asking c build answer = andthen (next_id c) (\<lambda>i. andthen (request c (build i)) answer)"

section \<open>Paths\<close>

definition resolve :: "py_arg \<Rightarrow> (bytes, 'w session) prog" where
  "resolve path =
     andthen (raising (encode_path path)) (\<lambda>encoded.
       ask (\<lambda>s. case se_cwd s of
                  None \<Rightarrow> encoded
                | Some cwd \<Rightarrow> if prefix [47] encoded then encoded else join_remote cwd encoded))"

section \<open>Optional extensions\<close>

definition attempt_extension :: "'w connection \<Rightarrow> bytes \<Rightarrow> (unit, 'w session) prog \<Rightarrow> (bool, 'w session) prog" where
  "attempt_extension c extension attempt =
     andthen (ask (refuses extension)) (\<lambda>refused.
       if refused then give False
       else catching (andthen attempt (\<lambda>_. give True))
         (\<lambda>e. if is_unsupported e then
                 (if supports c extension then throw e
                  else andthen (remember_unsupported extension) (\<lambda>_. give False))
               else if is_server_error e then (if supports c extension then throw e else give False)
               else throw e))"

definition set_one_attribute :: "'w connection \<Rightarrow> bytes \<Rightarrow> attrs \<Rightarrow> bool \<Rightarrow> string \<Rightarrow> (unit, 'w session) prog" where
  "set_one_attribute c path attributes follow_symlinks operation_name =
     (if follow_symlinks then expect_status c (\<lambda>i. give (SetStat i path attributes)) (Some path)
      else andthen (attempt_extension c LSETSTAT_NAME
             (expect_status c (\<lambda>i. raising (lsetstat_to \<lparr>ls_request_id = i, ls_path = path, ls_attrs = attributes\<rparr>)) (Some path)))
        (\<lambda>performed. if performed then give () else throw (CapabilityErr operation_name)))"

definition chmod :: "'w connection \<Rightarrow> py_arg \<Rightarrow> int \<Rightarrow> bool \<Rightarrow> (unit, 'w session) prog" where
  "chmod c path mode follow_symlinks =
     andthen (resolve path) (\<lambda>encoded.
       set_one_attribute c encoded (EMPTY_ATTRS\<lparr>a_permissions := Some (mode AND PERMISSION_BITS)\<rparr>) follow_symlinks ''chmod'')"

definition chown :: "'w connection \<Rightarrow> py_arg \<Rightarrow> int \<Rightarrow> int \<Rightarrow> bool \<Rightarrow> (unit, 'w session) prog" where
  "chown c path u g follow_symlinks =
     andthen (resolve path) (\<lambda>encoded.
       set_one_attribute c encoded (EMPTY_ATTRS\<lparr>a_owner := Some \<lparr>uid = u, gid = g\<rparr>\<rparr>) follow_symlinks ''chown'')"

definition utime :: "'w connection \<Rightarrow> py_arg \<Rightarrow> int \<Rightarrow> int \<Rightarrow> bool \<Rightarrow> (unit, 'w session) prog" where
  "utime c path accessed modified follow_symlinks =
     andthen (resolve path) (\<lambda>encoded.
       set_one_attribute c encoded (EMPTY_ATTRS\<lparr>a_times := Some \<lparr>atime = accessed, mtime = modified\<rparr>\<rparr>) follow_symlinks ''utime'')"

definition truncate_path :: "'w connection \<Rightarrow> py_arg \<Rightarrow> int \<Rightarrow> (unit, 'w session) prog" where
  "truncate_path c path n =
     andthen (resolve path) (\<lambda>encoded.
       expect_status c (\<lambda>i. give (SetStat i encoded (EMPTY_ATTRS\<lparr>a_size := Some n\<rparr>))) (Some encoded))"

definition ftruncate :: "'w connection \<Rightarrow> bytes \<Rightarrow> int \<Rightarrow> (unit, 'w session) prog" where
  "ftruncate c h n =
     (if n < 0 then throw (ValueErr (Msg ''size must not be negative'' [IntArg n]))
      else expect_status c (\<lambda>i. give (FSetStat i h (EMPTY_ATTRS\<lparr>a_size := Some n\<rparr>))) None)"

definition fchmod :: "'w connection \<Rightarrow> bytes \<Rightarrow> int \<Rightarrow> bytes option \<Rightarrow> (unit, 'w session) prog" where
  "fchmod c h mode path =
     expect_status c (\<lambda>i. give (FSetStat i h (EMPTY_ATTRS\<lparr>a_permissions := Some (mode AND PERMISSION_BITS)\<rparr>))) path"

definition futime :: "'w connection \<Rightarrow> bytes \<Rightarrow> int \<Rightarrow> int \<Rightarrow> bytes option \<Rightarrow> (unit, 'w session) prog" where
  "futime c h accessed modified path =
     expect_status c (\<lambda>i. give (FSetStat i h (EMPTY_ATTRS\<lparr>a_times := Some \<lparr>atime = accessed, mtime = modified\<rparr>\<rparr>))) path"

definition fsync_handle :: "'w connection \<Rightarrow> bytes \<Rightarrow> (unit, 'w session) prog" where
  "fsync_handle c h = expect_status c (\<lambda>i. raising (fsync_to \<lparr>fy_request_id = i, fy_handle = h\<rparr>)) None"

definition posix_rename_paths :: "'w connection \<Rightarrow> py_arg \<Rightarrow> py_arg \<Rightarrow> (unit, 'w session) prog" where
  "posix_rename_paths c old_path new_path =
     andthen (resolve new_path) (\<lambda>encoded.
       expect_status c (\<lambda>i. andthen (resolve old_path) (\<lambda>old.
         raising (posix_rename_to \<lparr>pr_request_id = i, pr_oldpath = old, pr_newpath = encoded\<rparr>))) (Some encoded))"

definition fsync_if_supported :: "'w connection \<Rightarrow> bytes \<Rightarrow> (bool, 'w session) prog" where
  "fsync_if_supported c h =
     catching (attempt_extension c FSYNC_NAME (fsync_handle c h)) (\<lambda>e. if is_unsupported e then give False else throw e)"

definition posix_rename_if_supported :: "'w connection \<Rightarrow> py_arg \<Rightarrow> py_arg \<Rightarrow> (bool, 'w session) prog" where
  "posix_rename_if_supported c old_path new_path =
     catching (attempt_extension c POSIX_RENAME_NAME (posix_rename_paths c old_path new_path))
       (\<lambda>e. if is_unsupported e then give False else throw e)"

text \<open>\<open>check_file\<close>; \<open>digest_size\<close> is \<open>hashlib.new(name).digest_size\<close>, \<open>None\<close> for a name it refuses.\<close>

definition check_file_digests ::
    "(bytes \<Rightarrow> int option) \<Rightarrow> 'w connection \<Rightarrow> bytes \<Rightarrow> bytes \<Rightarrow> int \<Rightarrow> int \<Rightarrow> int \<Rightarrow> (bytes \<times> bytes list, 'w session) prog" where
  "check_file_digests digest_size c h algorithms start len block_size =
     andthen (ask (refuses CHECK_FILE_NAME)) (\<lambda>refused.
       if refused then throw (ServerErr Unsupported (status_code_value FX_OP_UNSUPPORTED) [] None)
       else andthen (next_id c) (\<lambda>i.
         andthen (raising (check_file_to \<lparr>cf_request_id = i, cf_handle = h, cf_algorithms = algorithms,
                    cf_start_offset = start, cf_length = len, cf_block_size = block_size\<rparr>)) (\<lambda>p.
         andthen (request c p) (\<lambda>reply.
         andthen (case reply of
                    Status _ code _ _ _ \<Rightarrow>
                      (if code = FX_OP_UNSUPPORTED \<and> \<not> supports c CHECK_FILE_NAME then remember_unsupported CHECK_FILE_NAME else give ())
                  | _ \<Rightarrow> give ()) (\<lambda>_.
           case reply of
             ExtendedReply j payload \<Rightarrow>
               andthen (raising (check_file_reply_from j payload)) (\<lambda>parsed.
                 case digest_size (cr_algorithm parsed) of
                   None \<Rightarrow> throw (protocol_error (Msg ''this Python cannot size'' [BytesArg (cr_algorithm parsed)]) None (Some j) None)
                 | Some n \<Rightarrow>
                     (case split_digests (cr_digests parsed) n (cr_algorithm parsed) of
                        Inl _ \<Rightarrow> throw (protocol_error (Msg ''digest bytes do not divide'' []) None (Some j) (Some payload))
                      | Inr digests \<Rightarrow> give (cr_algorithm parsed, digests)))
           | _ \<Rightarrow> throw (unexpected reply ''EXTENDED_REPLY'' None))))))"

section \<open>Plain requests\<close>

definition expect_attrs :: "packet \<Rightarrow> bytes option \<Rightarrow> (attrs, 'w session) prog" where
  "expect_attrs reply path = (case reply of AttrsReply _ a \<Rightarrow> give a | _ \<Rightarrow> throw (unexpected reply ''ATTRS'' path))"

definition stat_path :: "'w connection \<Rightarrow> py_arg \<Rightarrow> (attrs, 'w session) prog" where
  "stat_path c path =
     andthen (resolve path) (\<lambda>encoded. asking c (\<lambda>i. Stat i encoded) (\<lambda>reply. expect_attrs reply (Some encoded)))"

definition lstat_path :: "'w connection \<Rightarrow> py_arg \<Rightarrow> (attrs, 'w session) prog" where
  "lstat_path c path =
     andthen (resolve path) (\<lambda>encoded. asking c (\<lambda>i. LStat i encoded) (\<lambda>reply. expect_attrs reply (Some encoded)))"

definition fstat :: "'w connection \<Rightarrow> bytes \<Rightarrow> (attrs, 'w session) prog" where
  "fstat c h = asking c (\<lambda>i. FStat i h) (\<lambda>reply. expect_attrs reply None)"

text \<open>\<open>READLINK\<close> and \<open>REALPATH\<close> are answered with exactly one name.\<close>

definition expect_one_name :: "packet \<Rightarrow> bytes \<Rightarrow> (bytes, 'w session) prog" where
  "expect_one_name reply encoded =
     (case reply of
        Name i entries \<Rightarrow>
          (case entries of
             [e] \<Rightarrow> give (ne_filename e)
           | _ \<Rightarrow> throw (protocol_error (Msg ''answered with several names'' [BytesArg encoded, NatArg (length entries)]) None (Some i) None))
      | _ \<Rightarrow> throw (unexpected reply ''NAME'' (Some encoded)))"

definition readlink :: "'w connection \<Rightarrow> py_arg \<Rightarrow> (bytes, 'w session) prog" where
  "readlink c path =
     andthen (resolve path) (\<lambda>encoded. asking c (\<lambda>i. ReadLink i encoded) (\<lambda>reply. expect_one_name reply encoded))"

definition realpath_raw :: "'w connection \<Rightarrow> bytes \<Rightarrow> (bytes, 'w session) prog" where
  "realpath_raw c encoded = asking c (\<lambda>i. RealPath i encoded) (\<lambda>reply. expect_one_name reply encoded)"

definition realpath :: "'w connection \<Rightarrow> py_arg \<Rightarrow> (bytes, 'w session) prog" where
  "realpath c path = andthen (resolve path) (realpath_raw c)"

definition symlink :: "'w connection \<Rightarrow> py_arg \<Rightarrow> py_arg \<Rightarrow> (unit, 'w session) prog" where
  "symlink c target link_path =
     andthen (resolve link_path) (\<lambda>encoded.
       expect_status c (\<lambda>i. andthen (raising (encode_path target)) (\<lambda>t. give (SymLink i t encoded))) (Some encoded))"

definition expect_handle :: "packet \<Rightarrow> bytes \<Rightarrow> (bytes, 'w session) prog" where
  "expect_handle reply encoded = (case reply of Handle _ h \<Rightarrow> give h | _ \<Rightarrow> throw (unexpected reply ''HANDLE'' (Some encoded)))"

definition open_path :: "'w connection \<Rightarrow> py_arg \<Rightarrow> int \<Rightarrow> int option \<Rightarrow> (bytes, 'w session) prog" where
  "open_path c path pflags mode =
     andthen (resolve path) (\<lambda>encoded.
       asking c (\<lambda>i. Packets.Open i encoded pflags (case mode of None \<Rightarrow> EMPTY_ATTRS | Some m \<Rightarrow> EMPTY_ATTRS\<lparr>a_permissions := Some m\<rparr>) None)
         (\<lambda>reply. expect_handle reply encoded))"

definition opendir :: "'w connection \<Rightarrow> py_arg \<Rightarrow> (bytes, 'w session) prog" where
  "opendir c path =
     andthen (resolve path) (\<lambda>encoded. asking c (\<lambda>i. OpenDir i encoded) (\<lambda>reply. expect_handle reply encoded))"

text \<open>One batch of a directory, or the end: an end-of-file status, or a batch without entries.\<close>

definition readdir :: "'w connection \<Rightarrow> bytes \<Rightarrow> (dir_entry list option, 'w session) prog" where
  "readdir c h =
     asking c (\<lambda>i. ReadDir i h) (\<lambda>reply.
       case reply of
         Name _ entries \<Rightarrow> give (if entries = [] then None else Some (map from_name_entry entries))
       | Status i code message _ _ \<Rightarrow>
           (if code = FX_EOF then give None
            else andthen (raising (raise_for_status code message None)) (\<lambda>_. throw (unexpected reply ''NAME'' None)))
       | _ \<Rightarrow> throw (unexpected reply ''NAME'' None))"

definition close_handle :: "'w connection \<Rightarrow> bytes \<Rightarrow> (unit, 'w session) prog" where
  "close_handle c h = expect_status c (\<lambda>i. give (Close i h)) None"

definition is_directory :: "'w connection \<Rightarrow> bytes \<Rightarrow> (bool, 'w session) prog" where
  "is_directory c path =
     catching (andthen (lstat_path c (BytesValue path)) (\<lambda>a. give (entry_kind a = DIRECTORY)))
       (\<lambda>e. if is_server_error e then give False else throw e)"

definition mkdir :: "'w connection \<Rightarrow> py_arg \<Rightarrow> bool \<Rightarrow> (unit, 'w session) prog" where
  "mkdir c path exist_ok =
     andthen (resolve path) (\<lambda>encoded.
       catching (expect_status c (\<lambda>i. give (MkDir i encoded EMPTY_ATTRS)) (Some encoded))
         (\<lambda>e. if \<not> is_server_error e then throw e
               else if \<not> exist_ok then throw e
               else andthen (is_directory c encoded) (\<lambda>there. if there then give () else throw e)))"

definition remove_path :: "'w connection \<Rightarrow> py_arg \<Rightarrow> (unit, 'w session) prog" where
  "remove_path c path =
     andthen (resolve path) (\<lambda>encoded. expect_status c (\<lambda>i. give (Remove i encoded)) (Some encoded))"

definition rmdir :: "'w connection \<Rightarrow> py_arg \<Rightarrow> (unit, 'w session) prog" where
  "rmdir c path =
     andthen (resolve path) (\<lambda>encoded. expect_status c (\<lambda>i. give (RmDir i encoded)) (Some encoded))"

definition rename_paths :: "'w connection \<Rightarrow> py_arg \<Rightarrow> py_arg \<Rightarrow> (unit, 'w session) prog" where
  "rename_paths c old_path new_path =
     andthen (resolve new_path) (\<lambda>encoded.
       expect_status c (\<lambda>i. andthen (resolve old_path) (\<lambda>old. give (Rename i old encoded))) (Some encoded))"

definition read_at :: "'w connection \<Rightarrow> bytes \<Rightarrow> int \<Rightarrow> int \<Rightarrow> (bytes, 'w session) prog" where
  "read_at c h offset len =
     (if len < 0 then throw (ValueErr (Msg ''length must not be negative'' [IntArg len]))
      else if offset < 0 then throw (ValueErr (Msg ''offset must not be negative'' [IntArg offset]))
      else if len = 0 then give []
      else call (on_wire (co_read_range c h offset len)))"

definition write_at :: "'w connection \<Rightarrow> bytes \<Rightarrow> int \<Rightarrow> bytes \<Rightarrow> (int, 'w session) prog" where
  "write_at c h offset payload =
     (if offset < 0 then throw (ValueErr (Msg ''offset must not be negative'' [IntArg offset]))
      else if payload = [] then give 0
      else call (on_wire (co_write_range c h payload offset)))"

end
