(* ===== verification/OperationsLaws.thy ===== *)
theory OperationsLaws
  imports Operations
begin

text \<open>
  What every operation of a session does to what the session remembers and to the packets it sends.
  \<open>session_call\<close> lists the operations, \<open>perform\<close> runs one, and the locale \<open>session_order\<close> carries any
  reflexive and transitive relation that single exchanges respect through all of them.
\<close>

section \<open>Calls\<close>

datatype session_call =
    CallStat py_arg | CallLStat py_arg | CallFStat bytes | CallReadLink py_arg | CallRealPath py_arg
  | CallSymLink py_arg py_arg | CallOpen py_arg int "int option" | CallOpenDir py_arg | CallReadDir bytes
  | CallClose bytes | CallMkDir py_arg bool | CallRemove py_arg | CallRmDir py_arg | CallRename py_arg py_arg
  | CallChmod py_arg int bool | CallChown py_arg int int bool | CallUtime py_arg int int bool
  | CallTruncate py_arg int | CallFTruncate bytes int | CallFChmod bytes int "bytes option"
  | CallFUtime bytes int int "bytes option" | CallFsyncIfSupported bytes | CallPosixRenameIfSupported py_arg py_arg
  | CallCheckFile bytes bytes int int int | CallReadAt bytes int int | CallWriteAt bytes int bytes
  | CallFsync bytes | CallPosixRename py_arg py_arg

definition dropping :: "('a, 'w) prog \<Rightarrow> (unit, 'w) prog" where "dropping m = andthen m (\<lambda>_. give ())"

fun perform :: "(bytes \<Rightarrow> int option) \<Rightarrow> 'w connection \<Rightarrow> session_call \<Rightarrow> (unit, 'w session) prog" where
  "perform ds c (CallStat p) = dropping (stat_path c p)"
| "perform ds c (CallLStat p) = dropping (lstat_path c p)"
| "perform ds c (CallFStat h) = dropping (fstat c h)"
| "perform ds c (CallReadLink p) = dropping (readlink c p)"
| "perform ds c (CallRealPath p) = dropping (realpath c p)"
| "perform ds c (CallSymLink t p) = symlink c t p"
| "perform ds c (CallOpen p f m) = dropping (open_path c p f m)"
| "perform ds c (CallOpenDir p) = dropping (opendir c p)"
| "perform ds c (CallReadDir h) = dropping (readdir c h)"
| "perform ds c (CallClose h) = close_handle c h"
| "perform ds c (CallMkDir p b) = mkdir c p b"
| "perform ds c (CallRemove p) = remove_path c p"
| "perform ds c (CallRmDir p) = rmdir c p"
| "perform ds c (CallRename a b) = rename_paths c a b"
| "perform ds c (CallChmod p m b) = chmod c p m b"
| "perform ds c (CallChown p u g b) = chown c p u g b"
| "perform ds c (CallUtime p a m b) = utime c p a m b"
| "perform ds c (CallTruncate p n) = truncate_path c p n"
| "perform ds c (CallFTruncate h n) = ftruncate c h n"
| "perform ds c (CallFChmod h m p) = fchmod c h m p"
| "perform ds c (CallFUtime h a m p) = futime c h a m p"
| "perform ds c (CallFsyncIfSupported h) = dropping (fsync_if_supported c h)"
| "perform ds c (CallPosixRenameIfSupported a b) = dropping (posix_rename_if_supported c a b)"
| "perform ds c (CallCheckFile h al st l bs) = dropping (check_file_digests ds c h al st l bs)"
| "perform ds c (CallReadAt h ofs n) = dropping (read_at c h ofs n)"
| "perform ds c (CallWriteAt h ofs d) = dropping (write_at c h ofs d)"
| "perform ds c (CallFsync h) = fsync_handle c h"
| "perform ds c (CallPosixRename a b) = posix_rename_paths c a b"

text \<open>The two calls that send their extension whatever is known of it.\<close>

fun unconditional :: "session_call \<Rightarrow> bool" where
  "unconditional (CallFsync h) = True"
| "unconditional (CallPosixRename a b) = True"
| "unconditional _ = False"

fun perform_all :: "(bytes \<Rightarrow> int option) \<Rightarrow> 'w connection \<Rightarrow> session_call list \<Rightarrow> 'w session \<Rightarrow> 'w session" where
  "perform_all ds c [] s = s"
| "perform_all ds c (x # xs) s = (case perform ds c x s of (_, s', _) \<Rightarrow> perform_all ds c xs s')"

section \<open>Programs that respect a relation\<close>

definition obeys :: "('s \<Rightarrow> 's \<Rightarrow> bool) \<Rightarrow> ('a, 's) prog \<Rightarrow> bool" where
  "obeys R m \<longleftrightarrow> (\<forall>s r s' t. m s = (r, s', t) \<longrightarrow> R s s')"

named_theorems obeys_rules

lemma obeysI: "(\<And>s r s' t. m s = (r, s', t) \<Longrightarrow> R s s') \<Longrightarrow> obeys R m"
  by (simp add: obeys_def)

lemma obeysD: "obeys R m \<Longrightarrow> m s = (r, s', t) \<Longrightarrow> R s s'"
  by (simp add: obeys_def)

fun is_extended :: "packet \<Rightarrow> bool" where
  "is_extended (Extended _ _ _) = True"
| "is_extended _ = False"

locale session_order =
  fixes c :: "'w connection" and R :: "'w session \<Rightarrow> 'w session \<Rightarrow> bool"
  assumes refl: "R s s"
    and trans: "R s s1 \<Longrightarrow> R s1 s2 \<Longrightarrow> R s s2"
    and allocates: "co_next c (se_world s) = (r, w) \<Longrightarrow> R s (s\<lparr>se_world := w\<rparr>)"
    and exchanges: "co_round_trip c p (se_world s) = (a, w) \<Longrightarrow> \<not> is_extended p \<Longrightarrow> R s (s\<lparr>se_world := w\<rparr>)"
    and extends: "co_round_trip c (Extended i e d) (se_world s) = (a, w) \<Longrightarrow> \<not> refuses e s \<Longrightarrow> R s (s\<lparr>se_world := w\<rparr>)"
    and reads: "co_read_range c h ofs n (se_world s) = (b, w) \<Longrightarrow> R s (s\<lparr>se_world := w\<rparr>)"
    and writes: "co_write_range c h dat ofs (se_world s) = (v, w) \<Longrightarrow> R s (s\<lparr>se_world := w\<rparr>)"
    and remembers: "\<not> supports c e \<Longrightarrow> R s (s\<lparr>se_unsupported := List.insert e (se_unsupported s)\<rparr>)"
begin

lemma give [obeys_rules]: "obeys R (give x)" by (rule obeysI) (simp add: give_def refl)

lemma throw [obeys_rules]: "obeys R (throw e)" by (rule obeysI) (simp add: throw_def refl)

lemma ask [obeys_rules]: "obeys R (ask f)" by (rule obeysI) (simp add: ask_def refl)

lemma raising [obeys_rules]: "obeys R (raising r)"
  by (cases r) (simp_all add: raising_def give throw)

lemma andthen [obeys_rules]:
  assumes "obeys R m" "\<And>x. obeys R (f x)" shows "obeys R (andthen m f)"
proof (rule obeysI)
  fix s r s' t assume run: "andthen m f s = (r, s', t)"
  obtain r0 s0 t0 where m: "m s = (r0, s0, t0)" using prod_cases3 by blast
  show "R s s'"
  proof (cases r0)
    case (Inl e)
    then show ?thesis using run m obeysD [OF assms(1) m] by (simp add: andthen_def)
  next
    case (Inr x)
    then obtain t1 where "f x s0 = (r, s', t1)" using run m by (auto simp: andthen_def split: prod.splits)
    then show ?thesis using obeysD [OF assms(1) m] obeysD [OF assms(2)] trans by blast
  qed
qed

lemma catching [obeys_rules]:
  assumes "obeys R m" "\<And>e. obeys R (h e)" shows "obeys R (catching m h)"
proof (rule obeysI)
  fix s r s' t assume run: "catching m h s = (r, s', t)"
  obtain r0 s0 t0 where m: "m s = (r0, s0, t0)" using prod_cases3 by blast
  show "R s s'"
  proof (cases r0)
    case (Inr x)
    then show ?thesis using run m obeysD [OF assms(1) m] by (simp add: catching_def)
  next
    case (Inl e)
    then obtain t1 where "h e s0 = (r, s', t1)" using run m by (auto simp: catching_def split: prod.splits)
    then show ?thesis using obeysD [OF assms(1) m] obeysD [OF assms(2)] trans by blast
  qed
qed

lemma cond [obeys_rules]: "obeys R m \<Longrightarrow> obeys R m' \<Longrightarrow> obeys R (if b then m else m')" by simp

lemma next_id [obeys_rules]: "obeys R (next_id c)"
  by (rule obeysI) (auto simp: next_id_def call_def on_wire_def split: prod.splits intro: allocates)

lemma request [obeys_rules]: "\<not> is_extended p \<Longrightarrow> obeys R (request c p)"
  by (rule obeysI) (auto simp: request_def call_def on_wire_def split: prod.splits option.splits intro: exchanges)

lemma expect_status [obeys_rules]:
  assumes "\<And>i s r s' t. build i s = (r, s', t) \<Longrightarrow> s' = s \<and> (\<forall>p. r = Inr p \<longrightarrow> \<not> is_extended p)"
  shows "obeys R (expect_status c build path)"
proof -
  have "obeys R (andthen (build i) (\<lambda>p. andthen (request c p) f))" if f: "\<And>x. obeys R (f x)" for i and f :: "packet \<Rightarrow> (unit, 'w session) prog"
  proof (rule obeysI)
    fix s r s' t assume run: "andthen (build i) (\<lambda>p. andthen (request c p) f) s = (r, s', t)"
    obtain r0 s0 t0 where m: "build i s = (r0, s0, t0)" using prod_cases3 by blast
    note b = assms [OF m]
    show "R s s'"
    proof (cases r0)
      case (Inl e)
      then show ?thesis using run m b by (simp add: andthen_def refl)
    next
      case (Inr p)
      then obtain t1 where step: "andthen (request c p) f s = (r, s', t1)" using run m b by (auto simp: andthen_def [of "build i"] split: prod.splits)
      have "obeys R (andthen (request c p) f)" using b Inr f by (intro obeys_rules) auto
      then show ?thesis using step by (rule obeysD)
    qed
  qed
  note after = this
  have "obeys R (case reply of Status i code message l raw \<Rightarrow> raising (raise_for_status code message path)
      | _ \<Rightarrow> throw (unexpected reply ''STATUS'' None))" for reply
    by (cases reply) (simp_all add: raising throw)
  from andthen [OF next_id after [OF this]] show ?thesis unfolding expect_status_def .
qed

lemma asking [obeys_rules]:
  assumes "\<And>i. \<not> is_extended (build i)" "\<And>reply. obeys R (answer reply)"
  shows "obeys R (asking c build answer)"
  unfolding asking_def using assms by (intro obeys_rules)

lemma remember [obeys_rules]: "\<not> supports c e \<Longrightarrow> obeys R (remember_unsupported e)"
  by (rule obeysI) (auto simp: remember_unsupported_def call_def remembers)

lemma resolve [obeys_rules]: "obeys R (resolve p)"
  unfolding resolve_def by (intro obeys_rules)

text \<open>An optional extension is asked for only while nothing is known against it.\<close>

lemma extended_status:
  assumes build: "\<And>i s r s' t. build i s = (r, s', t) \<Longrightarrow> s' = s \<and> (\<forall>p. r = Inr p \<longrightarrow> (\<exists>j d. p = Extended j e d))"
    and run: "expect_status c build path s = (r, s', t)" and free: "\<not> refuses e s"
  shows "R s s'"
proof -
  obtain r0 s0 t0 where n: "next_id c s = (r0, s0, t0)" using prod_cases3 by blast
  have s0: "R s s0" using obeysD [OF next_id n] .
  have free0: "\<not> refuses e s0" using n free by (auto simp: next_id_def call_def on_wire_def refuses_def split: prod.splits)
  show ?thesis
  proof (cases r0)
    case (Inl x)
    then show ?thesis using run n s0 by (simp add: expect_status_def andthen_def)
  next
    case (Inr i)
    obtain r1 s1 t1 where b: "build i s0 = (r1, s1, t1)" using prod_cases3 by blast
    have s1: "s1 = s0" using build [OF b] by simp
    show ?thesis
    proof (cases r1)
      case Inl1: (Inl x)
      then show ?thesis using run n Inr b s0 s1 by (simp add: expect_status_def andthen_def)
    next
      case Inr1: (Inr p)
      then obtain j d where p: "p = Extended j e d" using build [OF b] by auto
      obtain a w where rt: "co_round_trip c p (se_world s0) = (a, w)" by fastforce
      have "R s0 (s0\<lparr>se_world := w\<rparr>)" using extends rt free0 p by blast
      moreover have "s' = s0\<lparr>se_world := w\<rparr>"
        using run n Inr b Inr1 s1 rt
        by (auto simp: expect_status_def andthen_def request_def call_def on_wire_def raising_def throw_def give_def
            split: option.splits sum.splits packet.splits prod.splits)
      ultimately show ?thesis using s0 trans by blast
    qed
  qed
qed

lemma attempt:
  assumes attempt: "\<And>s r s' t. m s = (r, s', t) \<Longrightarrow> \<not> refuses e s \<Longrightarrow> R s s'"
  shows "obeys R (attempt_extension c e m)"
proof (rule obeysI)
  fix s r s' t assume run: "attempt_extension c e m s = (r, s', t)"
  let ?m = "catching (andthen m (\<lambda>_. give True))
         (\<lambda>x. if is_unsupported x then
                 (if supports c e then throw x else andthen (remember_unsupported e) (\<lambda>_. give False))
               else if is_server_error x then (if supports c e then throw x else give False)
               else throw x)"
  show "R s s'"
  proof (cases "refuses e s")
    case True
    then show ?thesis using run by (simp add: attempt_extension_def andthen_def ask_def give_def refl)
  next
    case False
    obtain r0 s0 t0 where m: "m s = (r0, s0, t0)" using prod_cases3 by blast
    have s0: "R s s0" by (rule attempt [OF m False])
    have m': "?m s = (r, s', t)" using run False by (auto simp: attempt_extension_def andthen_def [of "ask _"] ask_def split: prod.splits)
    show ?thesis
    proof (cases r0)
      case (Inr x)
      then show ?thesis using m' m s0 by (simp add: catching_def andthen_def give_def)
    next
      case (Inl x)
      let ?h = "if is_unsupported x then
                 (if supports c e then throw x else andthen (remember_unsupported e) (\<lambda>_. give False))
               else if is_server_error x then (if supports c e then throw x else give False)
               else throw x"
      have "obeys R (andthen (remember_unsupported e) (\<lambda>_. give False))" if "\<not> supports c e"
        by (rule andthen [OF remember [OF that] give])
      then have h: "obeys R ?h" by (cases "supports c e") (simp_all add: throw give)
      obtain t1 where step: "?h s0 = (r, s', t1)" using m' m Inl by (auto simp: catching_def andthen_def split: prod.splits)
      show ?thesis by (rule trans [OF s0 obeysD [OF h step]])
    qed
  qed
qed

lemma dropping: "obeys R m \<Longrightarrow> obeys R (dropping m)"
  unfolding dropping_def by (rule andthen [OF _ give])

lemma attempted:
  assumes "\<And>s r s' t. m s = (r, s', t) \<Longrightarrow> \<not> refuses e s \<Longrightarrow> R s s'"
  shows "obeys R (catching (attempt_extension c e m) (\<lambda>x. if is_unsupported x then give False else throw x))"
  by (rule catching [OF attempt [OF assms] cond [OF give throw]])

lemma set_one_attribute: "obeys R (set_one_attribute c path a follow n)"
proof -
  have "obeys R (attempt_extension c LSETSTAT_NAME
      (expect_status c (\<lambda>i. raising (lsetstat_to \<lparr>ls_request_id = i, ls_path = path, ls_attrs = a\<rparr>)) (Some path)))"
    by (rule attempt, erule extended_status [rotated])
      (auto simp: raising_def throw_def give_def lsetstat_to_def extended_of_def split: sum.splits)
  then show ?thesis unfolding set_one_attribute_def
    by (intro cond expect_status andthen give throw) (auto simp: give_def)
qed

lemma plain_status: "(\<And>i. \<not> is_extended (p i)) \<Longrightarrow> obeys R (expect_status c (\<lambda>i. give (p i)) path)"
  by (rule expect_status) (auto simp: give_def)

lemma expect_attrs: "obeys R (expect_attrs reply path)"
  unfolding expect_attrs_def by (cases reply) (simp_all add: give throw)

lemma expect_one_name: "obeys R (expect_one_name reply path)"
  unfolding expect_one_name_def by (cases reply) (auto simp: give throw split: list.splits)

lemma expect_handle: "obeys R (expect_handle reply path)"
  unfolding expect_handle_def by (cases reply) (simp_all add: give throw)

lemma lstat_path: "obeys R (lstat_path c p)"
  unfolding lstat_path_def by (intro andthen resolve asking expect_attrs) simp

lemma readdir: "obeys R (readdir c h)"
proof -
  have "obeys R (case reply of
         Name _ entries \<Rightarrow> give (if entries = [] then None else Some (map from_name_entry entries))
       | Status i code message _ _ \<Rightarrow>
           (if code = FX_EOF then give None
            else andthen (raising (raise_for_status code message None)) (\<lambda>_. throw (unexpected reply ''NAME'' None)))
       | _ \<Rightarrow> throw (unexpected reply ''NAME'' None))" for reply
    by (cases reply) (simp_all add: give throw andthen raising)
  then show ?thesis unfolding readdir_def by (intro asking) simp_all
qed

lemma mkdir: "obeys R (mkdir c p ok)"
  unfolding mkdir_def is_directory_def
  by (intro andthen resolve catching plain_status cond throw give lstat_path) simp

lemma check_file_digests: "obeys R (check_file_digests ds c h al st l bs)"
proof (rule obeysI)
  fix s r s' t assume run: "check_file_digests ds c h al st l bs s = (r, s', t)"
  show "R s s'"
  proof (cases "refuses CHECK_FILE_NAME s")
    case True
    then show ?thesis using run by (simp add: check_file_digests_def andthen_def ask_def throw_def refl)
  next
    case free: False
    obtain r0 s0 t0 where n: "next_id c s = (r0, s0, t0)" using prod_cases3 by blast
    have s0: "R s s0" using obeysD [OF next_id n] .
    have free0: "\<not> refuses CHECK_FILE_NAME s0" using n free by (auto simp: next_id_def call_def on_wire_def refuses_def split: prod.splits)
    let ?p = "\<lambda>i. check_file_to \<lparr>cf_request_id = i, cf_handle = h, cf_algorithms = al, cf_start_offset = st, cf_length = l, cf_block_size = bs\<rparr>"
    let ?answered = "\<lambda>reply. case reply of
             ExtendedReply j payload \<Rightarrow>
               andthen (raising (check_file_reply_from j payload)) (\<lambda>parsed.
                 case ds (cr_algorithm parsed) of
                   None \<Rightarrow> throw (protocol_error (Msg ''this Python cannot size'' [BytesArg (cr_algorithm parsed)]) None (Some j) None)
                 | Some n \<Rightarrow>
                     (case split_digests (cr_digests parsed) n (cr_algorithm parsed) of
                        Inl _ \<Rightarrow> throw (protocol_error (Msg ''digest bytes do not divide'' []) None (Some j) (Some payload))
                      | Inr digests \<Rightarrow> give (cr_algorithm parsed, digests)))
           | _ \<Rightarrow> throw (unexpected reply ''EXTENDED_REPLY'' None)"
    let ?note = "\<lambda>reply. case reply of
                    Status _ code _ _ _ \<Rightarrow>
                      (if code = FX_OP_UNSUPPORTED \<and> \<not> supports c CHECK_FILE_NAME then remember_unsupported CHECK_FILE_NAME else give ())
                  | _ \<Rightarrow> give ()"
    have fin: "obeys R (?answered reply)" for reply
      by (cases reply) (auto simp: throw give split: option.splits sum.splits intro!: andthen raising)
    have remembering: "obeys R (?note reply)" for reply
      by (cases reply) (auto simp: give intro: remember)
    have rest: "obeys R (andthen (?note reply) (\<lambda>_. ?answered reply))" for reply
      by (rule andthen [OF remembering fin])
    show ?thesis
    proof (cases r0)
      case (Inl x)
      then show ?thesis using run n s0 free by (simp add: check_file_digests_def andthen_def ask_def)
    next
      case (Inr i)
      show ?thesis
      proof (cases "?p i")
        case (Inl x)
        then show ?thesis using run n s0 free Inr by (simp add: check_file_digests_def andthen_def ask_def raising_def throw_def)
      next
        case p: (Inr p)
        then obtain d where p': "p = Extended i CHECK_FILE_NAME d" by (auto simp: check_file_to_def extended_of_def)
        obtain a w where rt: "co_round_trip c p (se_world s0) = (a, w)" by fastforce
        have s1: "R s (s0\<lparr>se_world := w\<rparr>)" using extends rt free0 p' s0 trans by blast
        obtain r1 t1 where q: "request c p s0 = (r1, s0\<lparr>se_world := w\<rparr>, t1)"
          using rt by (cases a) (auto simp: request_def call_def on_wire_def)
        have run': "\<exists>t2. andthen (request c p) (\<lambda>reply. andthen (?note reply) (\<lambda>_. ?answered reply)) s0 = (r, s', t2)"
          using run n free Inr p by (auto simp: check_file_digests_def andthen_def [of "ask _"] andthen_def [of "next_id c"] andthen_def [of "raising _"]
              ask_def raising_def give_def split: prod.splits)
        show ?thesis
        proof (cases r1)
          case (Inl x)
          then show ?thesis using run' q s1 by (auto simp: andthen_def)
        next
          case r1: (Inr reply)
          then obtain t3 where "andthen (?note reply) (\<lambda>_. ?answered reply) (s0\<lparr>se_world := w\<rparr>) = (r, s', t3)"
            using run' q by (auto simp: andthen_def [of "request c p"] split: prod.splits)
          then show ?thesis using trans [OF s1 obeysD [OF rest]] by blast
        qed
      qed
    qed
  qed
qed

text \<open>Every operation but the two unconditional ones respects the relation.\<close>

lemma perform: "\<not> unconditional x \<Longrightarrow> obeys R (perform ds c x)"
proof (cases x)
  case (CallReadAt h ofs n)
  have "obeys R (call (on_wire (co_read_range c h ofs n)))"
    by (rule obeysI) (auto simp: call_def on_wire_def split: prod.splits intro: reads)
  then show ?thesis by (simp add: CallReadAt read_at_def dropping give throw)
next
  case (CallWriteAt h ofs d)
  have "obeys R (call (on_wire (co_write_range c h d ofs)))"
    by (rule obeysI) (auto simp: call_def on_wire_def split: prod.splits intro: writes)
  then show ?thesis by (simp add: CallWriteAt write_at_def dropping give throw)
next
  case (CallFsyncIfSupported h)
  show ?thesis unfolding CallFsyncIfSupported perform.simps fsync_if_supported_def fsync_handle_def
    by (intro dropping attempted, erule extended_status [rotated])
      (auto simp: raising_def throw_def give_def fsync_to_def extended_of_def split: sum.splits)
next
  case (CallPosixRenameIfSupported a b)
  have build: "andthen (resolve a) (\<lambda>old. raising (posix_rename_to \<lparr>pr_request_id = i, pr_oldpath = old, pr_newpath = e\<rparr>)) s = (r, s', t) \<Longrightarrow>
      s' = s \<and> (\<forall>p. r = Inr p \<longrightarrow> (\<exists>j d. p = Extended j POSIX_RENAME_NAME d))" for i e s r s' t
    by (auto simp: andthen_def resolve_def raising_def ask_def throw_def give_def posix_rename_to_def extended_of_def bind_sum_def
        split: sum.splits prod.splits)
  show ?thesis unfolding CallPosixRenameIfSupported perform.simps posix_rename_if_supported_def
  proof (intro dropping attempted)
    fix s r s' t assume run: "posix_rename_paths c a b s = (r, s', t)" and free: "\<not> refuses POSIX_RENAME_NAME s"
    obtain r0 t0 where res: "resolve b s = (r0, s, t0)"
      by (cases "encode_path b") (simp_all add: resolve_def andthen_def raising_def throw_def give_def ask_def)
    show "R s s'"
    proof (cases r0)
      case (Inl x)
      then show ?thesis using run res by (simp add: posix_rename_paths_def andthen_def refl)
    next
      case (Inr e)
      then obtain t1 where step: "expect_status c (\<lambda>i. andthen (resolve a) (\<lambda>old.
          raising (posix_rename_to \<lparr>pr_request_id = i, pr_oldpath = old, pr_newpath = e\<rparr>))) (Some e) s = (r, s', t1)"
        using run res by (auto simp: posix_rename_paths_def andthen_def [of "resolve b"] split: prod.splits)
      show ?thesis by (rule extended_status [OF _ step free]) (rule build)
    qed
  qed
next
  case (CallSymLink t p)
  show ?thesis unfolding CallSymLink perform.simps symlink_def
    by (intro andthen resolve expect_status) (auto simp: andthen_def raising_def throw_def give_def split: sum.splits)
next
  case (CallRename a b)
  show ?thesis unfolding CallRename perform.simps rename_paths_def
    by (intro andthen resolve expect_status)
      (auto simp: andthen_def resolve_def ask_def raising_def throw_def give_def split: sum.splits)
qed (auto simp: dropping stat_path_def fstat_def readlink_def realpath_def realpath_raw_def open_path_def opendir_def close_handle_def
    remove_path_def rmdir_def chmod_def chown_def utime_def truncate_path_def ftruncate_def fchmod_def futime_def
    lstat_path readdir mkdir check_file_digests
    intro!: dropping andthen resolve asking expect_attrs expect_one_name expect_handle plain_status set_one_attribute throw)

lemma perform_all: "list_all (\<lambda>x. \<not> unconditional x) xs \<Longrightarrow> R s (perform_all ds c xs s)"
proof (induction xs arbitrary: s)
  case (Cons x xs)
  obtain r s1 t where p: "perform ds c x s = (r, s1, t)" using prod_cases3 by blast
  have "R s s1" using obeysD [OF perform p] Cons.prems by simp
  moreover have "R s1 (perform_all ds c xs s1)" using Cons by simp
  ultimately show ?case using p trans by simp
qed (simp add: refl)

end

section \<open>What is never asked for again\<close>

definition kept_out :: "'w connection \<Rightarrow> bytes \<Rightarrow> 'w session \<Rightarrow> 'w session \<Rightarrow> bool" where
  "kept_out c extension s s' \<longleftrightarrow> (supports c extension \<and> \<not> refuses extension s \<longrightarrow> \<not> refuses extension s')"

interpretation kept_out: session_order c "kept_out c extension" for c extension
  by unfold_locales (auto simp: kept_out_def refuses_def List.insert_def)

text \<open>The packets a world has seen, in order.\<close>

definition packet_log :: "'w connection \<Rightarrow> ('w \<Rightarrow> packet list) \<Rightarrow> bool" where
  "packet_log c sent \<longleftrightarrow>
     (\<forall>w r w'. co_next c w = (r, w') \<longrightarrow> sent w' = sent w) \<and>
     (\<forall>p w a w'. co_round_trip c p w = (a, w') \<longrightarrow> sent w' = sent w @ [p]) \<and>
     (\<forall>h ofs n w b w'. co_read_range c h ofs n w = (b, w') \<longrightarrow> (\<exists>ps. sent w' = sent w @ ps \<and> list_all (\<lambda>p. \<not> is_extended p) ps)) \<and>
     (\<forall>h d ofs w v w'. co_write_range c h d ofs w = (v, w') \<longrightarrow> (\<exists>ps. sent w' = sent w @ ps \<and> list_all (\<lambda>p. \<not> is_extended p) ps))"

fun asks_for :: "bytes \<Rightarrow> packet \<Rightarrow> bool" where
  "asks_for extension (Extended i e d) \<longleftrightarrow> e = extension"
| "asks_for extension _ \<longleftrightarrow> False"

definition spared :: "('w \<Rightarrow> packet list) \<Rightarrow> bytes \<Rightarrow> 'w session \<Rightarrow> 'w session \<Rightarrow> bool" where
  "spared sent extension s s' \<longleftrightarrow>
     (refuses extension s \<longrightarrow>
        refuses extension s' \<and>
        (\<exists>ps. sent (se_world s') = sent (se_world s) @ ps \<and> list_all (\<lambda>p. \<not> asks_for extension p) ps))"

lemma not_extended_asks: "\<not> is_extended p \<Longrightarrow> \<not> asks_for e p"
  by (cases p) simp_all

lemma spared_order: "packet_log c sent \<Longrightarrow> session_order c (spared sent extension)"
proof
  assume log: "packet_log c sent"
  note l1 = log [unfolded packet_log_def, THEN conjunct1, rule_format]
  note l2 = log [unfolded packet_log_def, THEN conjunct2, THEN conjunct1, rule_format]
  note l3 = log [unfolded packet_log_def, THEN conjunct2, THEN conjunct2, THEN conjunct1, rule_format]
  note l4 = log [unfolded packet_log_def, THEN conjunct2, THEN conjunct2, THEN conjunct2, rule_format]
  fix s s1 s2 :: "'a session" and r w p i e d h ofs n b dat v a
  show "spared sent extension s s" by (simp add: spared_def)
  show "spared sent extension s s1 \<Longrightarrow> spared sent extension s1 s2 \<Longrightarrow> spared sent extension s s2"
    by (fastforce simp: spared_def)
  show "co_next c (se_world s) = (r, w) \<Longrightarrow> spared sent extension s (s\<lparr>se_world := w\<rparr>)"
    using l1 by (simp add: spared_def refuses_def)
  show "co_round_trip c p (se_world s) = (a, w) \<Longrightarrow> \<not> is_extended p \<Longrightarrow> spared sent extension s (s\<lparr>se_world := w\<rparr>)"
    using l2 not_extended_asks by (simp add: spared_def refuses_def)
  show "co_round_trip c (Extended i e d) (se_world s) = (a, w) \<Longrightarrow> \<not> refuses e s \<Longrightarrow> spared sent extension s (s\<lparr>se_world := w\<rparr>)"
    using l2 by (auto simp: spared_def refuses_def)
  show "co_read_range c h ofs n (se_world s) = (b, w) \<Longrightarrow> spared sent extension s (s\<lparr>se_world := w\<rparr>)"
    using l3 [of h ofs n "se_world s" b w] by (auto simp: spared_def refuses_def elim!: list.pred_mono_strong dest: not_extended_asks)
  show "co_write_range c h dat ofs (se_world s) = (v, w) \<Longrightarrow> spared sent extension s (s\<lparr>se_world := w\<rparr>)"
    using l4 [of h dat ofs "se_world s" v w] by (auto simp: spared_def refuses_def elim!: list.pred_mono_strong dest: not_extended_asks)
  show "\<not> supports c e \<Longrightarrow> spared sent extension s (s\<lparr>se_unsupported := List.insert e (se_unsupported s)\<rparr>)"
    by (auto simp: spared_def refuses_def)
qed

lemma attempt_remembers:
  assumes "\<not> refuses extension s" "attempt s = (Inl e, s1, t)" "is_unsupported e"
  shows "attempt_extension c extension attempt s =
    (if supports c extension then (Inl e, s1, t)
     else (Inr False, s1\<lparr>se_unsupported := List.insert extension (se_unsupported s1)\<rparr>,
           t @ [s1\<lparr>se_unsupported := List.insert extension (se_unsupported s1)\<rparr>]))"
  using assms by (simp add: attempt_extension_def andthen_def ask_def catching_def throw_def give_def remember_unsupported_def call_def)

text \<open>
  C29. What a session learns about optional extensions. An attempt answered \<open>OP_UNSUPPORTED\<close> is
  remembered when the server had not advertised the extension and the attempt is reported as not
  performed; when it had, the refusal is raised and nothing is remembered. From then on, whatever
  sequence of operations runs, a remembered extension stays remembered and no packet asks for it,
  and an advertised one never becomes remembered. Only the calls that name an extension themselves,
  \<open>fsync\<close> and \<open>posix_rename\<close>, are outside of this.
\<close>

theorem refused_extension_is_not_asked_again:
  assumes "packet_log c sent" "list_all (\<lambda>x. \<not> unconditional x) calls"
    and after_def: "after = perform_all digest_size c calls"
  shows "(if refuses extension s
          then refuses extension (after s) \<and>
            (\<exists>ps. sent (se_world (after s)) = sent (se_world s) @ ps \<and> list_all (\<lambda>p. \<not> asks_for extension p) ps)
          else if supports c extension then \<not> refuses extension (after s)
          else (case attempt s of
                  (Inl e, s1, t) \<Rightarrow>
                    (if is_unsupported e
                     then fst (attempt_extension c extension attempt s) = Inr False \<and>
                       refuses extension (after (fst (snd (attempt_extension c extension attempt s))))
                     else True)
                | _ \<Rightarrow> True))"
proof -
  note keep = session_order.perform_all [OF spared_order [OF assms(1)] assms(2), of extension _ digest_size]
  have kept: "kept_out c extension s (after s)" unfolding after_def by (rule kept_out.perform_all [OF assms(2)])
  show ?thesis
  proof (cases "refuses extension s")
    case True
    then show ?thesis using keep [of s] by (simp add: after_def spared_def)
  next
    case free: False
    show ?thesis
    proof (cases "supports c extension")
      case True
      then show ?thesis using free kept by (simp add: kept_out_def)
    next
      case False
      obtain r s1 t where a: "attempt s = (r, s1, t)" using prod_cases3 by blast
      let ?s2 = "s1\<lparr>se_unsupported := List.insert extension (se_unsupported s1)\<rparr>"
      have "refuses extension ?s2" by (simp add: refuses_def)
      then have "refuses extension (after ?s2)" using keep [of ?s2] by (simp add: after_def spared_def)
      then show ?thesis using free False a attempt_remembers [OF free, of attempt _ s1 t c] by (cases r) simp_all
    qed
  qed
qed

text \<open>A server that answers every extended request as unsupported, and everything else as done.\<close>

definition plain_server :: "packet list connection" where
  "plain_server =
     \<lparr>co_next = (\<lambda>w. (Inr 1, w)),
      co_round_trip = (\<lambda>p w. (Some (Inr (if is_extended p then Status 1 FX_OP_UNSUPPORTED [] [] None else Status 1 FX_OK [] [] None)), w @ [p])),
      co_extensions = [], co_read_range = (\<lambda>h ofs n w. (Inr [], w)), co_write_range = (\<lambda>h d ofs w. (Inr 0, w))\<rparr>"

lemma plain_server_logs: "packet_log plain_server (\<lambda>w. w)"
  by (simp add: packet_log_def plain_server_def)

lemma refused_extension_is_not_asked_again_witness:
  "fst (attempt_extension plain_server FSYNC_NAME (fsync_handle plain_server [1]) (new_session [])) = Inr False \<and>
   refuses FSYNC_NAME (perform_all (\<lambda>_. None) plain_server [CallFsyncIfSupported [1], CallClose [1]]
     (fst (snd (attempt_extension plain_server FSYNC_NAME (fsync_handle plain_server [1]) (new_session [])))))"
proof -
  have e: "fst (fsync_handle plain_server [1] (new_session [])) = Inl (ServerErr Unsupported 8 [] None)" by code_simp
  obtain s1 t where a: "fsync_handle plain_server [1] (new_session []) = (Inl (ServerErr Unsupported 8 [] None), s1, t)"
    using e by (cases "fsync_handle plain_server [1] (new_session [])") auto
  have free: "\<not> refuses FSYNC_NAME (new_session [] :: packet list session)" "\<not> supports plain_server FSYNC_NAME"
    by (simp_all add: new_session_def refuses_def supports_def plain_server_def)
  show ?thesis
    using refused_extension_is_not_asked_again [OF plain_server_logs _ refl, of "[CallFsyncIfSupported [1], CallClose [1]]" FSYNC_NAME
        "new_session []" "\<lambda>_. None" "fsync_handle plain_server [1]"] free a
    by (simp del: perform_all.simps perform.simps)
qed

end
