(* ===== verification/Traversal.thy ===== *)
theory Traversal
  imports Operations GlobLaws
begin

text \<open>
  What a session builds from its operations to see and shape a remote tree: \<open>scandir\<close>, the
  predicates, \<open>chdir\<close>, \<open>makedirs\<close>, \<open>walk\<close>, \<open>rmtree\<close> and \<open>glob\<close> (\<open>session/_session.py\<close>,
  \<open>session/_recursive.py\<close>, \<open>GlobRunner\<close> of \<open>session/_glob.py\<close>). An asynchronous generator is a loop
  that runs its consumer's body for every item. How long a server keeps answering is up to it, so
  the loops over its answers take fuel; \<open>None\<close> is a loop that was still going.
\<close>

section \<open>Scanning a directory\<close>

record scan =
  sc_path :: bytes
  sc_handle :: "bytes option"
  sc_entered :: bool
  sc_batch :: "dir_entry list"
  sc_index :: nat
  sc_exhausted :: bool

definition new_scan :: "bytes \<Rightarrow> scan" where
  "new_scan path = \<lparr>sc_path = path, sc_handle = None, sc_entered = False, sc_batch = [], sc_index = 0, sc_exhausted = False\<rparr>"

definition quietly_close :: "'w connection \<Rightarrow> bytes \<Rightarrow> (unit, 'w session) prog" where
  "quietly_close c h = quietly (close_handle c h)"

definition scan_enter :: "'w connection \<Rightarrow> scan \<Rightarrow> (scan, 'w session) prog" where
  "scan_enter c sc =
     (if sc_entered sc then throw (StateErr (Msg ''this scandir() has already been used'' []))
      else andthen (opendir c (BytesValue (sc_path sc))) (\<lambda>h. give (sc\<lparr>sc_entered := True, sc_handle := Some h\<rparr>)))"

function next_buffered :: "scan \<Rightarrow> dir_entry option \<times> scan" where
  "next_buffered sc =
     (if sc_index sc < length (sc_batch sc)
      then (let entry = sc_batch sc ! sc_index sc; sc' = sc\<lparr>sc_index := sc_index sc + 1\<rparr> in
            if de_filename entry \<notin> set DOT_ENTRIES then (Some entry, sc') else next_buffered sc')
      else (None, sc))"
  by auto
termination by (relation "measure (\<lambda>sc. length (sc_batch sc) - sc_index sc)") auto

declare next_buffered.simps [simp del]

text \<open>Another batch, or the scan exhausted, which ends the iteration.\<close>

definition scan_fill :: "'w connection \<Rightarrow> scan \<Rightarrow> (scan, 'w session) prog" where
  "scan_fill c sc =
     (case sc_handle sc of
        None \<Rightarrow> throw (StateErr (Msg ''this scandir() is closed'' []))
      | Some h \<Rightarrow>
          (if sc_exhausted sc then give sc
           else andthen (readdir c h) (\<lambda>batch.
             case batch of
               None \<Rightarrow> give (sc\<lparr>sc_exhausted := True\<rparr>)
             | Some entries \<Rightarrow> give (sc\<lparr>sc_batch := entries, sc_index := 0\<rparr>))))"

text \<open>\<open>async for entry in scan: body\<close>, from the scan's state on.\<close>

fun scan_loop ::
    "nat \<Rightarrow> 'w connection \<Rightarrow> scan \<Rightarrow> (dir_entry \<Rightarrow> 'a \<Rightarrow> ('a, 'w session) prog) \<Rightarrow> 'a \<Rightarrow> ('a option, 'w session) prog" where
  "scan_loop 0 c sc body acc = give None"
| "scan_loop (Suc fuel) c sc body acc =
     (case next_buffered sc of
        (Some entry, sc') \<Rightarrow> andthen (body entry acc) (\<lambda>acc'. scan_loop fuel c sc' body acc')
      | (None, sc') \<Rightarrow>
          andthen (scan_fill c sc') (\<lambda>sc''.
            if sc_exhausted sc'' then give (Some acc) else scan_loop fuel c sc'' body acc))"

definition scan_exit :: "'w connection \<Rightarrow> scan \<Rightarrow> bool \<Rightarrow> (unit, 'w session) prog" where
  "scan_exit c sc raised =
     (case sc_handle sc of
        None \<Rightarrow> give ()
      | Some h \<Rightarrow> (if raised then quietly_close c h else close_handle c h))"

text \<open>\<open>async with scandir(path) as entries: async for entry in entries: body\<close>.\<close>

definition scanning ::
    "nat \<Rightarrow> 'w connection \<Rightarrow> bytes \<Rightarrow> (dir_entry \<Rightarrow> 'a \<Rightarrow> ('a, 'w session) prog) \<Rightarrow> 'a \<Rightarrow> ('a option, 'w session) prog" where
  "scanning fuel c path body acc =
     andthen (scan_enter c (new_scan path)) (\<lambda>sc.
       andthen (catching (scan_loop fuel c sc body acc) (\<lambda>e. andthen (scan_exit c sc True) (\<lambda>_. throw e)))
         (\<lambda>r. andthen (scan_exit c sc False) (\<lambda>_. give r)))"

definition scandir_path :: "py_arg \<Rightarrow> (bytes, 'w session) prog" where "scandir_path path = resolve path"

definition listdir :: "nat \<Rightarrow> 'w connection \<Rightarrow> py_arg \<Rightarrow> (dir_entry list option, 'w session) prog" where
  "listdir fuel c path =
     andthen (scandir_path path) (\<lambda>encoded. scanning fuel c encoded (\<lambda>entry entries. give (entries @ [entry])) [])"

section \<open>Predicates\<close>

definition attrs_or_absent :: "'w connection \<Rightarrow> bytes \<Rightarrow> bool \<Rightarrow> (attrs option, 'w session) prog" where
  "attrs_or_absent c path follow_symlinks =
     catching (andthen (if follow_symlinks then stat_path c (BytesValue path) else lstat_path c (BytesValue path)) (\<lambda>a. give (Some a)))
       (\<lambda>e. if is_no_such_file e then give None else throw e)"

definition unclassifiable :: "bytes \<Rightarrow> exn" where "unclassifiable path = CapabilityErr ''cannot be answered: no permission bits''"

definition classify :: "attrs \<Rightarrow> bytes \<Rightarrow> (entry_kind_of, 'w session) prog" where
  "classify attributes path =
     (if entry_kind attributes \<noteq> UNKNOWN then give (entry_kind attributes) else throw (unclassifiable path))"

definition kind_is :: "'w connection \<Rightarrow> py_arg \<Rightarrow> entry_kind_of \<Rightarrow> bool \<Rightarrow> (bool, 'w session) prog" where
  "kind_is c path expected follow_symlinks =
     andthen (resolve path) (\<lambda>encoded.
     andthen (attrs_or_absent c encoded follow_symlinks) (\<lambda>attributes.
       case attributes of
         None \<Rightarrow> give False
       | Some a \<Rightarrow> andthen (classify a encoded) (\<lambda>k. give (k = expected))))"

definition exists_path :: "'w connection \<Rightarrow> py_arg \<Rightarrow> bool \<Rightarrow> (bool, 'w session) prog" where
  "exists_path c path follow_symlinks =
     andthen (resolve path) (\<lambda>encoded. andthen (attrs_or_absent c encoded follow_symlinks) (\<lambda>a. give (a \<noteq> None)))"

definition isdir :: "'w connection \<Rightarrow> py_arg \<Rightarrow> bool \<Rightarrow> (bool, 'w session) prog" where
  "isdir c path follow_symlinks = kind_is c path DIRECTORY follow_symlinks"

definition isfile :: "'w connection \<Rightarrow> py_arg \<Rightarrow> bool \<Rightarrow> (bool, 'w session) prog" where
  "isfile c path follow_symlinks = kind_is c path FILE follow_symlinks"

definition islink :: "'w connection \<Rightarrow> py_arg \<Rightarrow> (bool, 'w session) prog" where
  "islink c path = kind_is c path SYMLINK False"

definition getsize :: "'w connection \<Rightarrow> py_arg \<Rightarrow> bool \<Rightarrow> (int option, 'w session) prog" where
  "getsize c path follow_symlinks =
     andthen (if follow_symlinks then stat_path c path else lstat_path c path) (\<lambda>a. give (a_size a))"

definition getmtime :: "'w connection \<Rightarrow> py_arg \<Rightarrow> bool \<Rightarrow> (int option, 'w session) prog" where
  "getmtime c path follow_symlinks =
     andthen (if follow_symlinks then stat_path c path else lstat_path c path) (\<lambda>a. give (modified_at a))"

section \<open>Where paths start\<close>

definition learn_root :: "'w connection \<Rightarrow> (bytes, 'w session) prog" where
  "learn_root c =
     andthen (ask se_root) (\<lambda>known.
       case known of
         Some base_dir \<Rightarrow> give base_dir
       | None \<Rightarrow> andthen (realpath_raw c [46]) (\<lambda>base_dir. call (\<lambda>s. (Inr base_dir, s\<lparr>se_root := Some base_dir\<rparr>))))"

definition require_rooted_paths :: "'w connection \<Rightarrow> bytes \<Rightarrow> (unit, 'w session) prog" where
  "require_rooted_paths c path =
     (if prefix [47] path then give ()
      else andthen (learn_root c) (\<lambda>base_dir.
        if prefix [47] base_dir then give () else throw (CapabilityErr ''remote paths are not rooted'')))"

definition chdir :: "'w connection \<Rightarrow> py_arg \<Rightarrow> (unit, 'w session) prog" where
  "chdir c path =
     andthen (resolve path) (\<lambda>requested.
     andthen (require_rooted_paths c requested) (\<lambda>_.
     andthen (realpath_raw c requested) (\<lambda>canonical.
     andthen (stat_path c (BytesValue canonical)) (\<lambda>a.
     andthen (classify a canonical) (\<lambda>k.
       if k \<noteq> DIRECTORY then throw (ServerErr PlainServerError (status_code_value FX_FAILURE) [] (Some canonical))
       else call (\<lambda>s. (Inr (), s\<lparr>se_cwd := Some canonical\<rparr>)))))))"

definition getcwd :: "'w connection \<Rightarrow> (bytes, 'w session) prog" where
  "getcwd c = andthen (ask se_cwd) (\<lambda>cwd. case cwd of Some d \<Rightarrow> give d | None \<Rightarrow> learn_root c)"

section \<open>Making directories\<close>

definition rstrip_slash :: "bytes \<Rightarrow> bytes" where "rstrip_slash p = rev (dropWhile (\<lambda>b. b = 47) (rev p))"

definition stripped_parent :: "bytes \<Rightarrow> bytes" where "stripped_parent path = rstrip_slash (fst (split_parent path))"

lemma length_stripped_parent: "stripped_parent path \<noteq> path \<Longrightarrow> length (stripped_parent path) < length path"
proof -
  assume ne: "stripped_parent path \<noteq> path"
  obtain a b where s: "split_parent path = (a, b)" by fastforce
  have ab: "path = a @ b" by (rule split_parent_append [OF s])
  have "a = rstrip_slash a @ rev (takeWhile (\<lambda>b. b = 47) (rev a))"
    unfolding rstrip_slash_def by (metis rev_append rev_rev_ident takeWhile_dropWhile_id)
  then have "path = stripped_parent path @ (rev (takeWhile (\<lambda>b. b = 47) (rev a)) @ b)"
    using ab s by (metis append.assoc fst_conv stripped_parent_def)
  then show ?thesis using ne by (metis append_Nil2 length_append length_greater_0_conv less_add_same_cancel1)
qed

function mkdir_parents :: "'w connection \<Rightarrow> bytes \<Rightarrow> bool \<Rightarrow> (unit, 'w session) prog" where
  "mkdir_parents c path exist_ok =
     catching (mkdir c (BytesValue path) exist_ok)
       (\<lambda>e. if \<not> is_server_error e then throw e
             else if stripped_parent path = [] \<or> stripped_parent path = path then throw e
             else andthen (mkdir_parents c (stripped_parent path) True) (\<lambda>_. mkdir c (BytesValue path) exist_ok))"
  by pat_completeness auto
termination by (relation "measure (\<lambda>(c, path, ok). length path)") (auto simp: length_stripped_parent)

declare mkdir_parents.simps [simp del]

fun error_path :: "exn \<Rightarrow> bytes option" where
  "error_path (ServerErr _ _ _ p) = p"
| "error_path _ = None"

text \<open>The note looks at what is in the way with one \<open>LSTAT\<close>; its sentence is not part of the model.\<close>

definition note_what_is_in_the_way :: "'w connection \<Rightarrow> exn \<Rightarrow> (unit, 'w session) prog" where
  "note_what_is_in_the_way c e =
     (case error_path e of
        None \<Rightarrow> give ()
      | Some p \<Rightarrow>
          catching (andthen (lstat_path c (BytesValue p)) (\<lambda>_. give ()))
            (\<lambda>x. if is_server_error x then give () else throw x))"

definition makedirs :: "'w connection \<Rightarrow> py_arg \<Rightarrow> bool \<Rightarrow> (unit, 'w session) prog" where
  "makedirs c path exist_ok =
     andthen (resolve path) (\<lambda>encoded.
       catching (mkdir_parents c encoded exist_ok)
         (\<lambda>e. if is_server_error e then andthen (note_what_is_in_the_way c e) (\<lambda>_. throw e) else throw e))"

section \<open>Walking\<close>

datatype skip_reason =
    SymlinkSkipped | UnknownKind | KindRefused | Vanished | NotAFile | TooDeep | DestinationCollision | DestinationRefusedTheName

record skipped =
  sk_path :: bytes
  sk_entry :: dir_entry
  sk_reason :: skip_reason

record walk_entry =
  we_path :: bytes
  we_relative :: "bytes list"
  we_directories :: "dir_entry list"
  we_files :: "dir_entry list"
  we_skipped :: "skipped list"

definition skip_reason_of :: "entry_kind_of \<Rightarrow> skip_reason" where
  "skip_reason_of k = (if k = SYMLINK then SymlinkSkipped else if k = UNKNOWN then UnknownKind else NotAFile)"

definition settle_kind :: "'w connection \<Rightarrow> bytes \<Rightarrow> dir_entry \<Rightarrow> (entry_kind_of option, 'w session) prog" where
  "settle_kind c path entry =
     (if de_kind entry \<noteq> UNKNOWN then give (Some (de_kind entry))
      else andthen (attrs_or_absent c path False) (\<lambda>a. give (map_option entry_kind a)))"

definition settle_for_walk :: "'w connection \<Rightarrow> bytes \<Rightarrow> dir_entry \<Rightarrow> (skipped + entry_kind_of, 'w session) prog" where
  "settle_for_walk c path entry =
     catching (andthen (settle_kind c path entry) (\<lambda>kind.
         case kind of
           None \<Rightarrow> give (Inl \<lparr>sk_path = path, sk_entry = entry, sk_reason = Vanished\<rparr>)
         | Some k \<Rightarrow> give (Inr k)))
       (\<lambda>e. if is_server_error e then give (Inl \<lparr>sk_path = path, sk_entry = entry, sk_reason = KindRefused\<rparr>) else throw e)"

definition at_limit :: "nat option \<Rightarrow> bytes list \<Rightarrow> bool" where
  "at_limit max_depth relative = (case max_depth of None \<Rightarrow> False | Some d \<Rightarrow> d \<le> length relative)"

text \<open>Where a settled child goes.\<close>

definition place :: "bool \<Rightarrow> bytes \<Rightarrow> dir_entry \<Rightarrow> skipped + entry_kind_of \<Rightarrow> walk_entry \<Rightarrow> walk_entry" where
  "place limit path child settled we =
     (case settled of
        Inl s \<Rightarrow> we\<lparr>we_skipped := we_skipped we @ [s]\<rparr>
      | Inr k \<Rightarrow>
          (if k = DIRECTORY \<and> limit
           then we\<lparr>we_skipped := we_skipped we @ [\<lparr>sk_path = path, sk_entry = child, sk_reason = TooDeep\<rparr>]\<rparr>
           else if k = DIRECTORY then we\<lparr>we_directories := we_directories we @ [child]\<rparr>
           else if k = FILE then we\<lparr>we_files := we_files we @ [child]\<rparr>
           else we\<lparr>we_skipped := we_skipped we @ [\<lparr>sk_path = path, sk_entry = child, sk_reason = skip_reason_of k\<rparr>]\<rparr>))"

definition empty_entry :: "bytes \<Rightarrow> bytes list \<Rightarrow> walk_entry" where
  "empty_entry directory relative =
     \<lparr>we_path = directory, we_relative = relative, we_directories = [], we_files = [], we_skipped = []\<rparr>"

definition walk_one :: "nat \<Rightarrow> 'w connection \<Rightarrow> nat option \<Rightarrow> bytes \<Rightarrow> bytes list \<Rightarrow> (walk_entry option, 'w session) prog" where
  "walk_one fuel c max_depth directory relative =
     andthen (scandir_path (BytesValue directory)) (\<lambda>encoded.
       scanning fuel c encoded
         (\<lambda>child we. andthen (settle_for_walk c (join_remote directory (de_filename child)) child) (\<lambda>settled.
            give (place (at_limit max_depth relative) (join_remote directory (de_filename child)) child settled we)))
         (empty_entry directory relative))"

text \<open>The stack of directories still to visit, its top first.\<close>

definition below :: "walk_entry \<Rightarrow> (bytes \<times> bytes list) list" where
  "below we = map (\<lambda>child. (join_remote (we_path we) (de_filename child), we_relative we @ [de_filename child])) (we_directories we)"

fun walk_loop ::
    "nat \<Rightarrow> nat \<Rightarrow> 'w connection \<Rightarrow> nat option \<Rightarrow> (bytes \<times> bytes list) list \<Rightarrow>
     (walk_entry \<Rightarrow> 'a \<Rightarrow> ('a, 'w session) prog) \<Rightarrow> 'a \<Rightarrow> ('a option, 'w session) prog" where
  "walk_loop fuel scan_fuel c max_depth [] body acc = give (Some acc)"
| "walk_loop 0 scan_fuel c max_depth (p # stack) body acc = give None"
| "walk_loop (Suc fuel) scan_fuel c max_depth ((directory, relative) # stack) body acc =
     andthen (walk_one scan_fuel c max_depth directory relative) (\<lambda>visited.
       case visited of
         None \<Rightarrow> give None
       | Some we \<Rightarrow>
           andthen (body we acc) (\<lambda>acc'. walk_loop fuel scan_fuel c max_depth (below we @ stack) body acc'))"

definition walking ::
    "nat \<Rightarrow> nat \<Rightarrow> 'w connection \<Rightarrow> py_arg \<Rightarrow> nat option \<Rightarrow>
     (walk_entry \<Rightarrow> 'a \<Rightarrow> ('a, 'w session) prog) \<Rightarrow> 'a \<Rightarrow> ('a option, 'w session) prog" where
  "walking fuel scan_fuel c path max_depth body acc =
     andthen (resolve path) (\<lambda>top.
     andthen (require_rooted_paths c top) (\<lambda>_. walk_loop fuel scan_fuel c max_depth [(top, [])] body acc))"

section \<open>Removing a tree\<close>

record tree_result =
  tr_files :: nat
  tr_directories :: nat
  tr_transferred :: nat
  tr_skipped :: "skipped list"

definition tree_complete :: "tree_result \<Rightarrow> bool" where "tree_complete r \<longleftrightarrow> tr_skipped r = []"

fun each :: "('x \<Rightarrow> (unit, 'w) prog) \<Rightarrow> 'x list \<Rightarrow> (unit, 'w) prog" where
  "each f [] = give ()"
| "each f (x # xs) = andthen (f x) (\<lambda>_. each f xs)"

definition remove_entry :: "'w connection \<Rightarrow> walk_entry \<Rightarrow> (unit, 'w session) prog" where
  "remove_entry c we =
     andthen (each (\<lambda>child. remove_path c (BytesValue (join_remote (we_path we) (de_filename child)))) (we_files we)) (\<lambda>_.
     andthen (each (\<lambda>skip. remove_path c (BytesValue (sk_path skip))) (we_skipped we)) (\<lambda>_.
       rmdir c (BytesValue (we_path we))))"

definition rmtree :: "nat \<Rightarrow> nat \<Rightarrow> 'w connection \<Rightarrow> py_arg \<Rightarrow> (tree_result option, 'w session) prog" where
  "rmtree fuel scan_fuel c path =
     andthen (resolve path) (\<lambda>top.
     andthen (walking fuel scan_fuel c (BytesValue top) None (\<lambda>we entries. give (entries @ [we])) []) (\<lambda>walked.
       case walked of
         None \<Rightarrow> give None
       | Some entries \<Rightarrow>
           andthen (each (remove_entry c) (rev entries)) (\<lambda>_.
             give (Some \<lparr>tr_files = sum_list (map (\<lambda>we. length (we_files we) + length (we_skipped we)) entries),
                         tr_directories = length entries, tr_transferred = 0, tr_skipped = []\<rparr>))))"

section \<open>Globbing\<close>

record glob_match =
  gm_path :: bytes
  gm_entry :: dir_entry

definition gm_name :: "glob_match \<Rightarrow> bytes" where "gm_name m = de_filename (gm_entry m)"

definition strip_dot_prefix :: "bytes \<Rightarrow> bytes" where
  "strip_dot_prefix path = (if path = [46] then [] else if prefix [46, 47] path then drop 2 path else path)"

definition glob_is_directory :: "'w connection \<Rightarrow> bytes \<Rightarrow> dir_entry \<Rightarrow> (bool, 'w session) prog" where
  "glob_is_directory c path entry =
     andthen (settle_kind c path entry) (\<lambda>settled.
       if settled = Some UNKNOWN then throw (unclassifiable path) else give (settled = Some DIRECTORY))"

definition glob_literal :: "'w connection \<Rightarrow> bytes \<Rightarrow> bool \<Rightarrow> (glob_match option, 'w session) prog" where
  "glob_literal c path directories_only =
     andthen (attrs_or_absent c path False) (\<lambda>attributes.
       case attributes of
         None \<Rightarrow> give None
       | Some a \<Rightarrow>
           (if directories_only \<and> entry_kind a \<noteq> DIRECTORY then give None
            else give (Some \<lparr>gm_path = path,
                             gm_entry = \<lparr>de_filename = snd (split_parent path), de_longname = [], de_attrs = a\<rparr>\<rparr>)))"

text \<open>
  \<open>listing\<close> is a generator of its own: what its consumer raises is not thrown into it, so only an
  exception of the scan itself can end it early. \<open>Raised\<close> carries one of the consumer.
\<close>

datatype 'a listing_end = Exhausted 'a | ScanFailed exn 'a | Raised exn | OutOfFuel

definition attempt :: "('a, 'w) prog \<Rightarrow> (exn + 'a, 'w) prog" where
  "attempt m = catching (andthen m (\<lambda>x. give (Inr x))) (\<lambda>e. give (Inl e))"

fun listing_loop ::
    "nat \<Rightarrow> 'w connection \<Rightarrow> scan \<Rightarrow> (dir_entry \<Rightarrow> 'a \<Rightarrow> ('a, 'w session) prog) \<Rightarrow> 'a \<Rightarrow> ('a listing_end, 'w session) prog" where
  "listing_loop 0 c sc body acc = give OutOfFuel"
| "listing_loop (Suc fuel) c sc body acc =
     (case next_buffered sc of
        (Some entry, sc') \<Rightarrow>
          andthen (attempt (body entry acc)) (\<lambda>r.
            case r of
              Inl e \<Rightarrow> give (Raised e)
            | Inr acc' \<Rightarrow> listing_loop fuel c sc' body acc')
      | (None, sc') \<Rightarrow>
          andthen (attempt (scan_fill c sc')) (\<lambda>filled.
            case filled of
              Inl e \<Rightarrow> give (ScanFailed e acc)
            | Inr sc'' \<Rightarrow> (if sc_exhausted sc'' then give (Exhausted acc) else listing_loop fuel c sc'' body acc)))"

definition or_absent :: "exn \<Rightarrow> 'a \<Rightarrow> ('a option, 'w) prog" where
  "or_absent e acc = (if is_no_such_file e then give (Some acc) else throw e)"

definition glob_listing ::
    "nat \<Rightarrow> 'w connection \<Rightarrow> bytes \<Rightarrow> (dir_entry \<Rightarrow> 'a \<Rightarrow> ('a, 'w session) prog) \<Rightarrow> 'a \<Rightarrow> ('a option, 'w session) prog" where
  "glob_listing fuel c directory body acc =
     andthen (attempt (andthen (scandir_path (BytesValue (if directory = [] then [46] else directory)))
                         (\<lambda>encoded. scan_enter c (new_scan encoded)))) (\<lambda>entered.
       case entered of
         Inl e \<Rightarrow> or_absent e acc
       | Inr sc \<Rightarrow>
           andthen (listing_loop fuel c sc body acc) (\<lambda>ended.
             case ended of
               Exhausted acc' \<Rightarrow>
                 andthen (attempt (scan_exit c sc False)) (\<lambda>closed.
                   case closed of Inl e \<Rightarrow> or_absent e acc' | Inr _ \<Rightarrow> give (Some acc'))
             | ScanFailed e acc' \<Rightarrow> andthen (scan_exit c sc True) (\<lambda>_. or_absent e acc')
             | Raised e \<Rightarrow> andthen (scan_exit c sc True) (\<lambda>_. throw e)
             | OutOfFuel \<Rightarrow> give None))"

text \<open>
  \<open>match_in\<close>, with \<open>descend\<close> and \<open>recursive\<close> at their calls: the consumer's body runs on every match
  as it is found. It is never called without a component. \<open>None\<close> is a loop that ran out of fuel,
  and ends the whole run.
\<close>

definition weight :: "bytes list \<Rightarrow> nat" where "weight components = sum_list (map (\<lambda>x. if x = RECURSIVE then 2 else 1) components)"

definition lifted :: "('a \<Rightarrow> ('a option, 'w) prog) \<Rightarrow> 'a option \<Rightarrow> ('a option, 'w) prog" where
  "lifted f acc = (case acc of None \<Rightarrow> give None | Some a \<Rightarrow> f a)"

definition matched_name :: "bytes \<Rightarrow> bytes \<Rightarrow> dir_entry \<Rightarrow> bool \<Rightarrow> (bool option, 'w session) prog" where
  "matched_name directory pattern entry case_sensitive =
     andthen (raising (check_listed_name (de_filename entry))) (\<lambda>name.
       case match_component pattern name case_sensitive of
         None \<Rightarrow> give None
       | Some (Inl e) \<Rightarrow> throw e
       | Some (Inr b) \<Rightarrow> give (Some b))"

function match_in ::
    "nat \<Rightarrow> nat \<Rightarrow> 'w connection \<Rightarrow> bytes \<Rightarrow> bytes list \<Rightarrow> nat option \<Rightarrow> bool \<Rightarrow> bool \<Rightarrow>
     (glob_match \<Rightarrow> 'a \<Rightarrow> ('a option, 'w session) prog) \<Rightarrow> 'a \<Rightarrow> ('a option, 'w session) prog" where
  "match_in fuel scan_fuel c directory [] max_depth case_sensitive directories_only body acc = give (Some acc)"
| "match_in fuel scan_fuel c directory (pattern # rest) max_depth case_sensitive directories_only body acc =
     (if pattern = RECURSIVE then
        andthen (walking fuel scan_fuel c (BytesValue (if directory = [] then [46] else directory)) max_depth
          (\<lambda>visited. lifted (match_in fuel scan_fuel c (if directory \<noteq> [] then we_path visited else strip_dot_prefix (we_path visited))
             (if rest = [] then [[42]] else rest) max_depth case_sensitive directories_only body)) (Some acc))
          (\<lambda>r. give (case r of None \<Rightarrow> None | Some found \<Rightarrow> found))
      else
        andthen (glob_listing scan_fuel c directory
          (\<lambda>entry. lifted (\<lambda>a. andthen (matched_name directory pattern entry case_sensitive) (\<lambda>m.
             case m of
               None \<Rightarrow> give None
             | Some False \<Rightarrow> give (Some a)
             | Some True \<Rightarrow>
                 (if rest \<noteq> [] then
                    andthen (glob_is_directory c (join_remote directory (de_filename entry)) entry) (\<lambda>there.
                      if there then match_in fuel scan_fuel c (join_remote directory (de_filename entry)) rest
                                      max_depth case_sensitive directories_only body a
                      else give (Some a))
                  else if \<not> directories_only then body \<lparr>gm_path = join_remote directory (de_filename entry), gm_entry = entry\<rparr> a
                  else andthen (glob_is_directory c (join_remote directory (de_filename entry)) entry) (\<lambda>there.
                      if there then body \<lparr>gm_path = join_remote directory (de_filename entry), gm_entry = entry\<rparr> a
                      else give (Some a)))))) (Some acc))
          (\<lambda>r. give (case r of None \<Rightarrow> None | Some found \<Rightarrow> found)))"
  by pat_completeness auto
termination
  by (relation "measure (\<lambda>(fuel, scan_fuel, c, directory, components, rest). weight components)")
     (auto simp: weight_def RECURSIVE_def)

declare match_in.simps [simp del]

definition globbing ::
    "nat \<Rightarrow> nat \<Rightarrow> 'w connection \<Rightarrow> py_arg \<Rightarrow> nat option \<Rightarrow> bool \<Rightarrow>
     (glob_match \<Rightarrow> 'a \<Rightarrow> ('a option, 'w session) prog) \<Rightarrow> 'a \<Rightarrow> ('a option, 'w session) prog" where
  "globbing fuel scan_fuel c pattern max_depth case_sensitive body acc =
     andthen (resolve pattern) (\<lambda>encoded.
     andthen (raising (validate_pattern encoded)) (\<lambda>_.
     andthen (require_rooted_paths c encoded) (\<lambda>_.
       case split_pattern encoded case_sensitive of
         (base, components, directories_only) \<Rightarrow>
           (if components = [] then
              andthen (glob_literal c base directories_only) (\<lambda>found.
                case found of None \<Rightarrow> give (Some acc) | Some m \<Rightarrow> body m acc)
            else match_in fuel scan_fuel c base components max_depth case_sensitive directories_only body acc))))"

end
