(* ===== verification/LocalTree.thy ===== *)
theory LocalTree
  imports Traversal LocalPath "HOL-Library.List_Lexorder"
begin

text \<open>
  The local side of a tree: the walk of \<open>session/_localtree.py\<close>, the lists of \<open>session/_many.py\<close>, and
  the walk that creates a remote directory for every local one (\<open>_walk_for_upload\<close> of
  \<open>session/_session.py\<close> with its helpers of \<open>session/_policy.py\<close>). The local file system is a
  parameter whose operations act on the same world as the connection.
\<close>

section \<open>Entries\<close>

text \<open>\<open>os.stat_result\<close>, its times as whole seconds.\<close>

record local_stat =
  st_size :: int
  st_mode :: int
  st_atime :: int
  st_mtime :: int

record 'w local_fs =
  lf_scandir :: "local_path \<Rightarrow> ((bytes \<times> local_stat) list, 'w) act"
  lf_stat :: "local_path \<Rightarrow> (local_stat, 'w) act"

definition remote_component :: "bytes \<Rightarrow> exn + bytes" where
  "remote_component name = (case remote_component_reason name of None \<Rightarrow> Inr name | Some reason \<Rightarrow> Inl (UnsafePathErr name reason))"

definition times_from_stat :: "local_stat \<Rightarrow> times" where
  "times_from_stat s = \<lparr>atime = st_atime s, mtime = st_mtime s\<rparr>"

definition local_dir_entry :: "bytes \<Rightarrow> local_stat \<Rightarrow> dir_entry" where
  "local_dir_entry name s =
     \<lparr>de_filename = name, de_longname = [],
      de_attrs = EMPTY_ATTRS\<lparr>a_size := Some (st_size s), a_permissions := Some (st_mode s), a_times := Some (times_from_stat s)\<rparr>\<rparr>"

record local_walk_entry =
  lw_path :: local_path
  lw_relative :: "bytes list"
  lw_directories :: "bytes list"
  lw_files :: "bytes list"
  lw_skipped :: "skipped list"

text \<open>\<open>os.fsencode\<close> of an absolute path.\<close>

definition path_bytes :: "local_path \<Rightarrow> bytes" where
  "path_bytes path = (if path = [] then [47] else concat (map (\<lambda>p. 47 # p) path))"

section \<open>The walk\<close>

definition local_skip :: "local_path \<Rightarrow> bytes \<Rightarrow> local_stat \<Rightarrow> skip_reason \<Rightarrow> skipped" where
  "local_skip directory name s reason =
     \<lparr>sk_path = path_bytes (path_div directory name), sk_entry = local_dir_entry name s, sk_reason = reason\<rparr>"

definition place_local :: "bool \<Rightarrow> local_path \<Rightarrow> bytes \<times> local_stat \<Rightarrow> local_walk_entry \<Rightarrow> local_walk_entry" where
  "place_local limit directory item lw =
     (case item of (name, s) \<Rightarrow>
        let kind = entry_kind (EMPTY_ATTRS\<lparr>a_permissions := Some (st_mode s)\<rparr>) in
        if kind = DIRECTORY \<and> limit then lw\<lparr>lw_skipped := lw_skipped lw @ [local_skip directory name s TooDeep]\<rparr>
        else if kind = DIRECTORY then lw\<lparr>lw_directories := lw_directories lw @ [name]\<rparr>
        else if kind = FILE then lw\<lparr>lw_files := lw_files lw @ [name]\<rparr>
        else if kind = SYMLINK then lw\<lparr>lw_skipped := lw_skipped lw @ [local_skip directory name s SymlinkSkipped]\<rparr>
        else lw\<lparr>lw_skipped := lw_skipped lw @ [local_skip directory name s NotAFile]\<rparr>)"

definition local_scan :: "'w local_fs \<Rightarrow> local_path \<Rightarrow> ((bytes \<times> local_stat) list, 'w session) prog" where
  "local_scan fs directory = andthen (call (on_wire (lf_scandir fs directory))) (\<lambda>entries. give (sort_key fst entries))"

definition local_entry :: "nat option \<Rightarrow> local_path \<Rightarrow> bytes list \<Rightarrow> (bytes \<times> local_stat) list \<Rightarrow> local_walk_entry" where
  "local_entry max_depth directory relative items =
     List.fold (place_local (at_limit max_depth relative) directory) items
       \<lparr>lw_path = directory, lw_relative = relative, lw_directories = [], lw_files = [], lw_skipped = []\<rparr>"

definition local_walk_one ::
    "'w local_fs \<Rightarrow> nat option \<Rightarrow> local_path \<Rightarrow> bytes list \<Rightarrow> (local_walk_entry, 'w session) prog" where
  "local_walk_one fs max_depth directory relative =
     andthen (local_scan fs directory) (\<lambda>items. give (local_entry max_depth directory relative items))"

definition local_below :: "local_walk_entry \<Rightarrow> (local_path \<times> bytes list) list" where
  "local_below lw = map (\<lambda>name. (path_div (lw_path lw) name, lw_relative lw @ [name])) (lw_directories lw)"

fun walk_local_loop ::
    "nat \<Rightarrow> 'w local_fs \<Rightarrow> nat option \<Rightarrow> (local_path \<times> bytes list) list \<Rightarrow>
     (local_walk_entry \<Rightarrow> 'a \<Rightarrow> ('a, 'w session) prog) \<Rightarrow> 'a \<Rightarrow> ('a option, 'w session) prog" where
  "walk_local_loop fuel fs max_depth [] body acc = give (Some acc)"
| "walk_local_loop 0 fs max_depth (p # stack) body acc = give None"
| "walk_local_loop (Suc fuel) fs max_depth ((directory, relative) # stack) body acc =
     andthen (local_walk_one fs max_depth directory relative) (\<lambda>lw.
     andthen (body lw acc) (\<lambda>acc'. walk_local_loop fuel fs max_depth (local_below lw @ stack) body acc'))"

definition walk_local ::
    "nat \<Rightarrow> 'w local_fs \<Rightarrow> local_path \<Rightarrow> nat option \<Rightarrow>
     (local_walk_entry \<Rightarrow> 'a \<Rightarrow> ('a, 'w session) prog) \<Rightarrow> 'a \<Rightarrow> ('a option, 'w session) prog" where
  "walk_local fuel fs base_dir max_depth body acc = walk_local_loop fuel fs max_depth [(base_dir, [])] body acc"

section \<open>Lists of files\<close>

record settled_download =
  sd_remote :: bytes
  sd_target :: local_path

record settled_upload =
  su_source :: local_path
  su_remote :: bytes

fun map_sum_list :: "('a \<Rightarrow> 'e + 'b) \<Rightarrow> 'a list \<Rightarrow> 'e + 'b list" where
  "map_sum_list f [] = Inr []"
| "map_sum_list f (x # xs) = bind_sum (f x) (\<lambda>y. bind_sum (map_sum_list f xs) (\<lambda>ys. Inr (y # ys)))"

text \<open>The refusal names the second of two sources with one name.\<close>

fun refuse_duplicates_from :: "bytes list \<Rightarrow> bytes list \<Rightarrow> exn + unit" where
  "refuse_duplicates_from claimed [] = Inr ()"
| "refuse_duplicates_from claimed (name # xs) =
     (if name \<in> set claimed then Inl (ValueErr (Msg ''both are named that there'' [BytesArg name]))
      else refuse_duplicates_from (name # claimed) xs)"

definition refuse_duplicates :: "bytes list \<Rightarrow> exn + unit" where
  "refuse_duplicates xs = refuse_duplicates_from [] xs"

text \<open>\<open>posixpath.basename\<close>.\<close>

definition basename :: "bytes \<Rightarrow> bytes" where "basename path = rev (takeWhile (\<lambda>b. b \<noteq> 47) (rev path))"

definition settle_download :: "(local_path \<Rightarrow> local_path) \<Rightarrow> bool \<Rightarrow> local_path \<Rightarrow> py_arg \<Rightarrow> exn + settled_download" where
  "settle_download rslv windows destination remote =
     bind_sum (encode_path remote) (\<lambda>path.
     bind_sum (local_child destination (basename path) windows) (\<lambda>child.
     bind_sum (check_contained rslv destination child) (\<lambda>target.
       Inr \<lparr>sd_remote = path, sd_target = target\<rparr>)))"

definition settle_downloads ::
    "(local_path \<Rightarrow> local_path) \<Rightarrow> bool \<Rightarrow> py_arg list \<Rightarrow> local_path \<Rightarrow> exn + settled_download list" where
  "settle_downloads rslv windows remotes destination =
     bind_sum (map_sum_list (settle_download rslv windows destination) remotes) (\<lambda>items.
     bind_sum (refuse_duplicates (map (\<lambda>item. basename (sd_remote item)) items)) (\<lambda>_. Inr items))"

text \<open>\<open>Path.name\<close>: the last component.\<close>

definition local_name :: "local_path \<Rightarrow> bytes" where "local_name path = (if path = [] then [] else last path)"

definition settle_upload :: "bytes \<Rightarrow> local_path \<Rightarrow> exn + settled_upload" where
  "settle_upload remote_directory path =
     bind_sum (remote_component (local_name path)) (\<lambda>name. Inr \<lparr>su_source = path, su_remote = join_remote remote_directory name\<rparr>)"

definition settle_uploads :: "local_path list \<Rightarrow> bytes \<Rightarrow> exn + settled_upload list" where
  "settle_uploads sources remote_directory =
     bind_sum (map_sum_list (settle_upload remote_directory) sources) (\<lambda>items.
     bind_sum (refuse_duplicates (map local_name sources)) (\<lambda>_. Inr items))"

section \<open>The walk that makes the remote directories\<close>

definition remote_directory :: "bytes \<Rightarrow> bytes list \<Rightarrow> exn + bytes" where
  "remote_directory base_dir relative =
     fold_sum (\<lambda>remote name. bind_sum (remote_component name) (\<lambda>n. Inr (join_remote remote n))) base_dir relative"

record upload_walk_state =
  uw_directories :: nat
  uw_times :: "(bytes \<times> times) list"
  uw_modes :: "(bytes \<times> int) list"
  uw_skipped :: "skipped list"

definition new_upload_walk_state :: upload_walk_state where
  "new_upload_walk_state = \<lparr>uw_directories = 0, uw_times = [], uw_modes = [], uw_skipped = []\<rparr>"

definition stat_local :: "'w local_fs \<Rightarrow> local_path \<Rightarrow> (local_stat, 'w session) prog" where
  "stat_local fs path = call (on_wire (lf_stat fs path))"

definition settle_remote_directory ::
    "'w local_fs \<Rightarrow> local_walk_entry \<Rightarrow> bytes \<Rightarrow> bool \<Rightarrow> mode option \<Rightarrow> upload_walk_state \<Rightarrow> (upload_walk_state, 'w session) prog" where
  "settle_remote_directory fs lw remote preserve_times mode st =
     andthen (if preserve_times
              then andthen (stat_local fs (lw_path lw)) (\<lambda>s. give (st\<lparr>uw_times := uw_times st @ [(remote, times_from_stat s)]\<rparr>))
              else give st) (\<lambda>st.
       if mode = Some PreserveMode
       then andthen (stat_local fs (lw_path lw)) (\<lambda>s. give (st\<lparr>uw_modes := uw_modes st @ [(remote, local_mode (st_mode s))]\<rparr>))
       else give st)"

definition walk_for_upload ::
    "nat \<Rightarrow> 'w connection \<Rightarrow> 'w local_fs \<Rightarrow> local_path \<Rightarrow> bytes \<Rightarrow> nat option \<Rightarrow> bool \<Rightarrow> mode option \<Rightarrow> bool \<Rightarrow>
     (local_walk_entry \<Rightarrow> bytes \<Rightarrow> 'a \<Rightarrow> ('a, 'w session) prog) \<Rightarrow> 'a \<Rightarrow> ((upload_walk_state \<times> 'a) option, 'w session) prog" where
  "walk_for_upload fuel c fs local_top base_dir max_depth preserve_times mode dry_run body acc =
     walk_local fuel fs local_top max_depth
       (\<lambda>lw (st, acc).
          andthen (raising (remote_directory base_dir (lw_relative lw))) (\<lambda>remote.
          andthen (if lw_relative lw = [] then give st
                   else andthen (if dry_run then give () else mkdir c (BytesValue remote) True) (\<lambda>_.
                     settle_remote_directory fs lw remote preserve_times mode (st\<lparr>uw_directories := uw_directories st + 1\<rparr>)))
            (\<lambda>st. andthen (body lw remote acc) (\<lambda>acc'. give (st\<lparr>uw_skipped := uw_skipped st @ lw_skipped lw\<rparr>, acc')))))
       (new_upload_walk_state, acc)"

text \<open>Both passes suppress what the server answers, and nothing else.\<close>

definition suppress_server_error :: "(unit, 'w) prog \<Rightarrow> (unit, 'w) prog" where
  "suppress_server_error m = catching m (\<lambda>e. if is_server_error e then give () else throw e)"

definition set_directory_times :: "'w connection \<Rightarrow> (bytes \<times> times) list \<Rightarrow> (unit, 'w session) prog" where
  "set_directory_times c entries =
     each (\<lambda>(path, t). suppress_server_error (utime c (BytesValue path) (atime t) (mtime t) True)) entries"

definition set_directory_modes :: "'w connection \<Rightarrow> (bytes \<times> int) list \<Rightarrow> (unit, 'w session) prog" where
  "set_directory_modes c entries = each (\<lambda>(path, m). suppress_server_error (chmod c (BytesValue path) m True)) entries"

end
