(* ===== verification/Mirror.thy ===== *)
theory Mirror
  imports Journal LocalTree
begin

text \<open>
  The comparison a mirror makes and the record it makes it against: \<open>session/_sync.py\<close>, and the run
  of it, \<open>sync_tree\<close>, one file at a time. The record is a log of JSON lines beside the local tree,
  folded when the run starts, appended to as files land and rewritten at the end.
\<close>

section \<open>What was decided, and why\<close>

definition MANIFEST_VERSION :: int where "MANIFEST_VERSION = 2"

datatype sync_decision = Transfer | SkippedAsIdentical | Undecidable

datatype sync_reason =
    NoRecord | LocalSizeChanged | LocalMtimeChanged | RemoteGone | RemoteSizeChanged | RemoteMtimeChanged
  | Identical | RemoteSizeUnreported | RemoteTimesUnreported | LocalAttrsUnreported

record comparison =
  cp_decision :: sync_decision
  cp_reason :: sync_reason

definition transfers :: "comparison \<Rightarrow> bool" where "transfers v \<longleftrightarrow> cp_decision v \<noteq> SkippedAsIdentical"

record manifest_entry =
  mn_local_size :: int
  mn_local_mtime :: int
  mn_remote_size :: int
  mn_remote_mtime :: int

definition local_side :: "attrs \<Rightarrow> manifest_entry \<Rightarrow> comparison option" where
  "local_side local_attrs recorded =
     (case (a_size local_attrs, a_times local_attrs) of
        (Some n, Some t) \<Rightarrow>
          (if n \<noteq> mn_local_size recorded then Some \<lparr>cp_decision = Transfer, cp_reason = LocalSizeChanged\<rparr>
           else if mtime t \<noteq> mn_local_mtime recorded then Some \<lparr>cp_decision = Transfer, cp_reason = LocalMtimeChanged\<rparr>
           else None)
      | _ \<Rightarrow> Some \<lparr>cp_decision = Undecidable, cp_reason = LocalAttrsUnreported\<rparr>)"

definition remote_side :: "attrs option \<Rightarrow> manifest_entry \<Rightarrow> comparison" where
  "remote_side remote recorded =
     (case remote of
        None \<Rightarrow> \<lparr>cp_decision = Transfer, cp_reason = RemoteGone\<rparr>
      | Some a \<Rightarrow>
          (case a_size a of
             None \<Rightarrow> \<lparr>cp_decision = Undecidable, cp_reason = RemoteSizeUnreported\<rparr>
           | Some n \<Rightarrow>
               (case a_times a of
                  None \<Rightarrow> \<lparr>cp_decision = Undecidable, cp_reason = RemoteTimesUnreported\<rparr>
                | Some t \<Rightarrow>
                    (if n \<noteq> mn_remote_size recorded then \<lparr>cp_decision = Transfer, cp_reason = RemoteSizeChanged\<rparr>
                     else if mtime t \<noteq> mn_remote_mtime recorded then \<lparr>cp_decision = Transfer, cp_reason = RemoteMtimeChanged\<rparr>
                     else \<lparr>cp_decision = SkippedAsIdentical, cp_reason = Identical\<rparr>))))"

definition compare_for_sync :: "attrs \<Rightarrow> attrs option \<Rightarrow> manifest_entry option \<Rightarrow> comparison" where
  "compare_for_sync local_attrs remote recorded =
     (case recorded of
        None \<Rightarrow> \<lparr>cp_decision = Transfer, cp_reason = NoRecord\<rparr>
      | Some r \<Rightarrow> (case local_side local_attrs r of Some verdict \<Rightarrow> verdict | None \<Rightarrow> remote_side remote r))"

section \<open>The record\<close>

definition manifest_fields :: "string list" where
  "manifest_fields = [''local_size'', ''local_mtime'', ''remote_size'', ''remote_mtime'']"

definition as_json :: "manifest_entry \<Rightarrow> (str, field) dict" where
  "as_json e =
     [(text_of ''local_size'', NumberField (PyInt (mn_local_size e))), (text_of ''local_mtime'', NumberField (PyInt (mn_local_mtime e))),
      (text_of ''remote_size'', NumberField (PyInt (mn_remote_size e))), (text_of ''remote_mtime'', NumberField (PyInt (mn_remote_mtime e)))]"

text \<open>A number that is an \<open>int\<close> and no \<open>bool\<close>.\<close>

definition whole_number :: "(str, json) dict \<Rightarrow> string \<Rightarrow> int option" where
  "whole_number record key = (case dict_get record (text_of key) of Some (JInt n) \<Rightarrow> Some n | _ \<Rightarrow> None)"

definition from_json :: "(str, json) dict \<Rightarrow> manifest_entry option" where
  "from_json record =
     (case (whole_number record ''local_size'', whole_number record ''local_mtime'',
            whole_number record ''remote_size'', whole_number record ''remote_mtime'') of
        (Some a, Some b, Some c, Some d) \<Rightarrow>
          Some \<lparr>mn_local_size = a, mn_local_mtime = b, mn_remote_size = c, mn_remote_mtime = d\<rparr>
      | _ \<Rightarrow> None)"

type_synonym manifest = "(str, manifest_entry) dict"

definition manifest_line :: "str \<Rightarrow> manifest_entry \<Rightarrow> bytes" where
  "manifest_line target entry =
     map of_nat (dumps (foldl (\<lambda>d (k, f). dict_set d k f)
       [(text_of ''version'', NumberField (PyInt MANIFEST_VERSION)), (text_of ''target'', TextField target)] (as_json entry))) @ [10]"

text \<open>\<open>value == 2\<close>: also a decimal that rounds to the double \<open>2.0\<close>.\<close>

definition equals_two :: "json \<Rightarrow> bool" where
  "equals_two v =
     (case v of
        JInt n \<Rightarrow> n = 2
      | JFloat m e \<Rightarrow>
          (if 0 \<le> e then (2 ^ 54 - 1) \<le> m * 10 ^ nat e * 2 ^ 53 \<and> m * 10 ^ nat e * 2 ^ 53 \<le> 2 ^ 54 + 2
           else (2 ^ 54 - 1) * 10 ^ nat (- e) \<le> m * 2 ^ 53 \<and> m * 2 ^ 53 \<le> (2 ^ 54 + 2) * 10 ^ nat (- e))
      | _ \<Rightarrow> False)"

text \<open>One line; a number of too many digits, or too deep a nesting, is no \<open>JSONDecodeError\<close> and escapes.\<close>

definition fold_line :: "nat \<Rightarrow> manifest \<Rightarrow> str \<Rightarrow> json_error + manifest" where
  "fold_line depth entries line =
     (case loads depth line of
        Inl NotJson \<Rightarrow> Inr entries
      | Inl e \<Rightarrow> Inl e
      | Inr (JObj document) \<Rightarrow>
          (case dict_get document (text_of ''version'') of
             None \<Rightarrow> Inr entries
           | Some version \<Rightarrow>
               (if \<not> equals_two version then Inr entries
                else (case (text_field document ''target'', from_json document) of
                        (Some target, Some parsed) \<Rightarrow> Inr (dict_set entries target parsed)
                      | _ \<Rightarrow> Inr entries)))
      | Inr _ \<Rightarrow> Inr entries)"

fun fold_lines :: "nat \<Rightarrow> manifest \<Rightarrow> str list \<Rightarrow> json_error + manifest" where
  "fold_lines depth entries [] = Inr entries"
| "fold_lines depth entries (line # lines) = bind_sum (fold_line depth entries line) (\<lambda>entries. fold_lines depth entries lines)"

text \<open>The content of the file, or nothing when it cannot be read.\<close>

definition fold_manifest :: "nat \<Rightarrow> bytes option \<Rightarrow> json_error + manifest" where
  "fold_manifest depth content =
     (case content of
        None \<Rightarrow> Inr []
      | Some raw \<Rightarrow> fold_lines depth [] (splitlines (decode_text replacing raw)))"

definition record_entry :: "manifest \<Rightarrow> bytes \<Rightarrow> manifest_entry \<Rightarrow> manifest" where
  "record_entry entries remote_path entry = dict_set entries (decode_name remote_path) entry"

definition recorded_entry :: "manifest \<Rightarrow> bytes \<Rightarrow> manifest_entry option" where
  "recorded_entry entries remote_path = dict_get entries (decode_name remote_path)"

definition manifest_payload :: "manifest \<Rightarrow> bytes" where
  "manifest_payload entries = concat (map (\<lambda>(key, entry). manifest_line key entry) (sort_key fst entries))"

definition write_manifest :: "'w file_ops \<Rightarrow> manifest \<Rightarrow> (unit, 'w) prog" where
  "write_manifest fo entries = replace_atomically fo (manifest_payload entries)"

definition append_manifest_record :: "'w file_ops \<Rightarrow> bytes \<Rightarrow> manifest_entry \<Rightarrow> (unit, 'w) prog" where
  "append_manifest_record fo remote_path entry =
     andthen (call (fo_open_append fo)) (\<lambda>descriptor.
       ensuring (andthen (call (fo_write fo descriptor (manifest_line (decode_name remote_path) entry))) (\<lambda>_. give ()))
         (call (fo_close fo descriptor)))"

definition prepare_manifest :: "'w file_ops \<Rightarrow> (unit, 'w) prog" where
  "prepare_manifest fo = andthen (call (fo_open_append fo)) (\<lambda>descriptor. call (fo_close fo descriptor))"

section \<open>What a run reports\<close>

record sync_outcome =
  so_remote_path :: bytes
  so_decision :: sync_decision
  so_reason :: sync_reason
  so_transferred :: int

record sync_result =
  sy_transferred :: nat
  sy_skipped :: nat
  sy_undecidable :: nat
  sy_directories :: nat
  sy_bytes_transferred :: int
  sy_outcomes :: "sync_outcome list"
  sy_walk_skipped :: "skipped list"

definition considered :: "sync_result \<Rightarrow> nat" where "considered r = sy_transferred r + sy_skipped r + sy_undecidable r"

definition sync_complete :: "sync_result \<Rightarrow> bool" where "sync_complete r \<longleftrightarrow> sy_undecidable r = 0"

definition summarise :: "sync_outcome list \<Rightarrow> nat \<Rightarrow> skipped list \<Rightarrow> sync_result" where
  "summarise outcomes directories walk_skipped =
     \<lparr>sy_transferred = count_list (map so_decision outcomes) Transfer,
      sy_skipped = count_list (map so_decision outcomes) SkippedAsIdentical,
      sy_undecidable = count_list (map so_decision outcomes) Undecidable,
      sy_directories = directories, sy_bytes_transferred = sum_list (map so_transferred outcomes),
      sy_outcomes = outcomes, sy_walk_skipped = walk_skipped\<rparr>"

section \<open>One file\<close>

text \<open>Programs over the files beside the local tree act on the same world as the connection.\<close>

definition on_files :: "('a, 'w) prog \<Rightarrow> ('a, 'w session) prog" where
  "on_files m s = (case m (se_world s) of (r, w, t) \<Rightarrow> (r, s\<lparr>se_world := w\<rparr>, map (\<lambda>w. s\<lparr>se_world := w\<rparr>) t))"

record mirror_state =
  ms_recorded :: manifest
  ms_outcomes :: "sync_outcome list"

definition manifest_entry_for :: "'w local_fs \<Rightarrow> local_path \<Rightarrow> attrs \<Rightarrow> (manifest_entry option, 'w session) prog" where
  "manifest_entry_for fs source landed =
     (case (a_size landed, a_times landed) of
        (Some n, Some t) \<Rightarrow>
          andthen (stat_local fs source) (\<lambda>s.
            give (Some \<lparr>mn_local_size = st_size s, mn_local_mtime = mtime (times_from_stat s), mn_remote_size = n, mn_remote_mtime = mtime t\<rparr>))
      | _ \<Rightarrow> give None)"

text \<open>
  \<open>put\<close> is the upload of one file with the run's arguments, and returns the bytes it moved; the
  worker is \<open>transfer\<close> of \<open>sync_tree\<close>.
\<close>

type_synonym 'w put_file = "local_path \<Rightarrow> bytes \<Rightarrow> (int, 'w session) prog"

definition sync_transfer ::
    "'w connection \<Rightarrow> 'w local_fs \<Rightarrow> 'w file_ops \<Rightarrow> 'w put_file \<Rightarrow> local_path \<Rightarrow> bytes \<Rightarrow> comparison \<Rightarrow> mirror_state \<Rightarrow>
     (mirror_state, 'w session) prog" where
  "sync_transfer c fs fo put source remote verdict ms =
     andthen (put source remote) (\<lambda>moved.
     andthen (give (ms\<lparr>ms_outcomes := ms_outcomes ms @
                [\<lparr>so_remote_path = remote, so_decision = cp_decision verdict, so_reason = cp_reason verdict, so_transferred = moved\<rparr>]\<rparr>)) (\<lambda>ms.
     andthen (stat_path c (BytesValue remote)) (\<lambda>landed.
     andthen (manifest_entry_for fs source landed) (\<lambda>entry.
       case entry of
         None \<Rightarrow> give ms
       | Some e \<Rightarrow>
           andthen (on_files (append_manifest_record fo remote e)) (\<lambda>_.
             give (ms\<lparr>ms_recorded := record_entry (ms_recorded ms) remote e\<rparr>))))))"

text \<open>\<open>candidates_in\<close>, each candidate transferred as it is found: the run with one worker.\<close>

fun sync_files ::
    "'w connection \<Rightarrow> 'w local_fs \<Rightarrow> 'w file_ops \<Rightarrow> 'w put_file \<Rightarrow> local_path \<Rightarrow> bytes \<Rightarrow> (bytes, attrs) dict \<Rightarrow> bytes list \<Rightarrow>
     mirror_state \<Rightarrow> (mirror_state, 'w session) prog" where
  "sync_files c fs fo put directory remote_dir present [] ms = give ms"
| "sync_files c fs fo put directory remote_dir present (name # rest) ms =
     andthen (raising (remote_component name)) (\<lambda>component.
     andthen (stat_local fs (path_div directory name)) (\<lambda>s.
       let target = join_remote remote_dir component;
           verdict = compare_for_sync (de_attrs (local_dir_entry name s)) (dict_get present name) (recorded_entry (ms_recorded ms) target) in
       andthen (if transfers verdict then sync_transfer c fs fo put (path_div directory name) target verdict ms
                else give (ms\<lparr>ms_outcomes := ms_outcomes ms @
                  [\<lparr>so_remote_path = target, so_decision = cp_decision verdict, so_reason = cp_reason verdict, so_transferred = 0\<rparr>]\<rparr>))
         (\<lambda>ms. sync_files c fs fo put directory remote_dir present rest ms)))"

definition listing_by_name :: "nat \<Rightarrow> 'w connection \<Rightarrow> bytes \<Rightarrow> ((bytes, attrs) dict option, 'w session) prog" where
  "listing_by_name scan_fuel c directory =
     andthen (scandir_path (BytesValue directory)) (\<lambda>encoded.
       scanning scan_fuel c encoded (\<lambda>entry found. give (dict_set found (de_filename entry) (de_attrs entry))) [])"

section \<open>The run\<close>

text \<open>
  \<open>sync_tree\<close> with one worker. \<open>fuel\<close> bounds the local directories, \<open>scan_fuel\<close> the entries of a
  listing; \<open>depth\<close> is the recursion limit of the JSON reader. The manifest's content is what
  \<open>read_manifest\<close> finds of it in the world.
\<close>

definition sync_tree ::
    "nat \<Rightarrow> nat \<Rightarrow> nat \<Rightarrow> 'w connection \<Rightarrow> 'w local_fs \<Rightarrow> 'w file_ops \<Rightarrow> ('w \<Rightarrow> bytes option) \<Rightarrow> (publish \<Rightarrow> mode option \<Rightarrow> 'w put_file) \<Rightarrow>
     local_path \<Rightarrow> py_arg \<Rightarrow> nat option \<Rightarrow> publish option \<Rightarrow> bool \<Rightarrow> py_arg \<Rightarrow> (sync_result option, 'w session) prog" where
  "sync_tree fuel scan_fuel depth c fs fo read_manifest put local_top remote_path max_depth policy preserve_times mode_arg =
     andthen (resolve remote_path) (\<lambda>base_dir.
     andthen (raising (publish_from_legacy policy [])) (\<lambda>(chosen, _).
     andthen (raising (check_tree_publish chosen False)) (\<lambda>_.
     andthen (raising (resolve_mode mode_arg)) (\<lambda>requested.
     andthen (on_files (prepare_manifest fo)) (\<lambda>_.
     andthen (require_rooted_paths c base_dir) (\<lambda>_.
     andthen (mkdir_parents c base_dir True) (\<lambda>_.
     andthen (ask (\<lambda>s. fold_manifest depth (read_manifest (se_world s)))) (\<lambda>folded.
       case folded of
         Inl e \<Rightarrow> throw (ValueErr (Msg ''the manifest cannot be read'' []))
       | Inr recorded \<Rightarrow>
           andthen (walk_for_upload fuel c fs local_top base_dir max_depth preserve_times requested False
             (\<lambda>lw remote acc.
                case acc of
                  None \<Rightarrow> give None
                | Some ms \<Rightarrow>
                    andthen (listing_by_name scan_fuel c remote) (\<lambda>present.
                      case present of
                        None \<Rightarrow> give None
                      | Some found \<Rightarrow>
                          andthen (sync_files c fs fo (put chosen requested) (lw_path lw) remote found (lw_files lw) ms) (\<lambda>ms. give (Some ms))))
             (Some \<lparr>ms_recorded = recorded, ms_outcomes = []\<rparr>)) (\<lambda>walked.
             case walked of
               Some (st, Some ms) \<Rightarrow>
                 andthen (set_directory_times c (uw_times st)) (\<lambda>_.
                 andthen (set_directory_modes c (uw_modes st)) (\<lambda>_.
                 andthen (on_files (write_manifest fo (ms_recorded ms))) (\<lambda>_.
                   give (Some (summarise (ms_outcomes ms) (uw_directories st) (uw_skipped st))))))
             | _ \<Rightarrow> give None)))))))))"

end
