(* ===== verification/TraversalLaws.thy ===== *)
theory TraversalLaws
  imports Traversal RemotePathLaws
begin

text \<open>
  What walking and removing a tree do on a server that lists its directories: the contract such a
  server keeps, one step of a scan after the other, and the tree read off in preorder.
\<close>

section \<open>Steps that change only the world\<close>

definition goes :: "('a, 'w session) prog \<Rightarrow> 'w session \<Rightarrow> exn + 'a \<Rightarrow> ('w \<Rightarrow> bool) \<Rightarrow> bool" where
  "goes m s r Q \<longleftrightarrow> (\<exists>w t. m s = (r, s\<lparr>se_world := w\<rparr>, t) \<and> Q w)"

lemma goesI: "m s = (r, s\<lparr>se_world := w\<rparr>, t) \<Longrightarrow> Q w \<Longrightarrow> goes m s r Q"
  by (auto simp: goes_def)

lemma goes_give: "Q (se_world s) \<Longrightarrow> goes (give x) s (Inr x) Q"
  by (rule goesI [where w = "se_world s"]) (simp_all add: give_def)

lemma goes_throw: "Q (se_world s) \<Longrightarrow> goes (throw e) s (Inl e) Q"
  by (rule goesI [where w = "se_world s"]) (simp_all add: throw_def)

lemma goes_andthen:
  assumes "goes m s (Inr x) Q" "\<And>w. Q w \<Longrightarrow> goes (f x) (s\<lparr>se_world := w\<rparr>) r R"
  shows "goes (andthen m f) s r R"
proof -
  obtain w t where m: "m s = (Inr x, s\<lparr>se_world := w\<rparr>, t)" and Q: "Q w" using assms(1) by (auto simp: goes_def)
  obtain w' t' where f: "f x (s\<lparr>se_world := w\<rparr>) = (r, s\<lparr>se_world := w'\<rparr>, t')" and R: "R w'"
    using assms(2) [OF Q] by (auto simp: goes_def)
  show ?thesis by (rule goesI [where w = w' and t = "t @ t'"]) (simp_all add: andthen_def m f R)
qed

lemma goes_andthen_fails: "goes m s (Inl e) Q \<Longrightarrow> goes (andthen m f) s (Inl e) Q"
  by (auto simp: goes_def andthen_def)

lemma goes_catching: "goes m s (Inr x) Q \<Longrightarrow> goes (catching m h) s (Inr x) Q"
  by (auto simp: goes_def catching_def)

lemma goes_caught:
  assumes "goes m s (Inl e) Q" "\<And>w. Q w \<Longrightarrow> goes (h e) (s\<lparr>se_world := w\<rparr>) r R"
  shows "goes (catching m h) s r R"
proof -
  obtain w t where m: "m s = (Inl e, s\<lparr>se_world := w\<rparr>, t)" and Q: "Q w" using assms(1) by (auto simp: goes_def)
  obtain w' t' where f: "h e (s\<lparr>se_world := w\<rparr>) = (r, s\<lparr>se_world := w'\<rparr>, t')" and R: "R w'"
    using assms(2) [OF Q] by (auto simp: goes_def)
  show ?thesis by (rule goesI [where w = w' and t = "t @ t'"]) (simp_all add: catching_def m f R)
qed

lemma goes_weaken: "goes m s r Q \<Longrightarrow> (\<And>w. Q w \<Longrightarrow> R w) \<Longrightarrow> goes m s r R"
  by (auto simp: goes_def)

lemma goes_call: "f (se_world s) = (r, w) \<Longrightarrow> Q w \<Longrightarrow> goes (call (on_wire f)) s r Q"
  by (rule goesI [where w = w]) (simp_all add: call_def on_wire_def)

lemma goes_resolve: "prefix [47] p \<Longrightarrow> Q (se_world s) \<Longrightarrow> goes (resolve (BytesValue p)) s (Inr p) Q"
  by (rule goesI [where w = "se_world s" and t = "[]"])
     (simp_all add: resolve_def encode_path_def raising_def andthen_def give_def ask_def split: option.splits)

section \<open>A server that lists its directories\<close>

text \<open>
  \<open>ds_tree\<close> is what a directory lists, \<open>ds_facts\<close> what \<open>LSTAT\<close> says of a path, and \<open>ds_left\<close> what
  is still to read on each open handle. Batches may be of any size but not empty, and the end may be
  said by a status or by an empty batch.
\<close>

record 'w directory_server =
  ds_ok :: "'w \<Rightarrow> bool"
  ds_left :: "'w \<Rightarrow> bytes \<Rightarrow> dir_entry list option"
  ds_tree :: "bytes \<Rightarrow> dir_entry list option"
  ds_facts :: "bytes \<Rightarrow> status_code + attrs"

definition same_handles :: "'w directory_server \<Rightarrow> (bytes \<Rightarrow> dir_entry list option) \<Rightarrow> 'w \<Rightarrow> bool" where
  "same_handles d l w \<longleftrightarrow> ds_ok d w \<and> ds_left d w = l"

definition opens :: "'w connection \<Rightarrow> 'w directory_server \<Rightarrow> bool" where
  "opens c d \<longleftrightarrow> (\<forall>w i p es. ds_ok d w \<and> ds_tree d p = Some es \<longrightarrow>
     (\<exists>h w'. co_round_trip c (OpenDir i p) w = (Some (Inr (Handle i h)), w') \<and> ds_left d w h = None \<and>
        same_handles d ((ds_left d w)(h \<mapsto> es)) w'))"

definition reads :: "'w connection \<Rightarrow> 'w directory_server \<Rightarrow> bool" where
  "reads c d \<longleftrightarrow> (\<forall>w i h es. ds_ok d w \<and> ds_left d w h = Some es \<longrightarrow>
     (\<exists>batch rest w'. es = map from_name_entry batch @ rest \<and> (batch = [] \<longrightarrow> rest = []) \<and>
        (co_round_trip c (ReadDir i h) w = (Some (Inr (Name i batch)), w') \<or>
         batch = [] \<and> (\<exists>m l. co_round_trip c (ReadDir i h) w = (Some (Inr (Status i FX_EOF m l None)), w'))) \<and>
        same_handles d ((ds_left d w)(h \<mapsto> rest)) w'))"

definition closes :: "'w connection \<Rightarrow> 'w directory_server \<Rightarrow> bool" where
  "closes c d \<longleftrightarrow> (\<forall>w i h. ds_ok d w \<and> ds_left d w h \<noteq> None \<longrightarrow>
     (\<exists>m l w'. co_round_trip c (Close i h) w = (Some (Inr (Status i FX_OK m l None)), w') \<and>
        same_handles d ((ds_left d w)(h := None)) w'))"

definition lstats :: "'w connection \<Rightarrow> 'w directory_server \<Rightarrow> bool" where
  "lstats c d \<longleftrightarrow> (\<forall>w i p. ds_ok d w \<longrightarrow>
     (\<exists>m l w'. co_round_trip c (LStat i p) w =
          (Some (Inr (case ds_facts d p of Inr a \<Rightarrow> AttrsReply i a | Inl code \<Rightarrow> Status i code m l None)), w') \<and>
        ds_facts d p \<noteq> Inl FX_OK \<and> ds_facts d p \<noteq> Inl FX_EOF \<and> same_handles d (ds_left d w) w'))"

definition numbers :: "'w connection \<Rightarrow> 'w directory_server \<Rightarrow> bool" where
  "numbers c d \<longleftrightarrow> (\<forall>w. ds_ok d w \<longrightarrow> (\<exists>i w'. co_next c w = (Inr i, w') \<and> same_handles d (ds_left d w) w'))"

definition lists_directories :: "'w connection \<Rightarrow> 'w directory_server \<Rightarrow> bool" where
  "lists_directories c d \<longleftrightarrow> opens c d \<and> reads c d \<and> closes c d \<and> lstats c d \<and> numbers c d"

lemma next_id_step:
  assumes "lists_directories c d" "same_handles d l (se_world s)"
  obtains i w t where "next_id c s = (Inr i, s\<lparr>se_world := w\<rparr>, t)" "same_handles d l w"
proof -
  obtain i w where "co_next c (se_world s) = (Inr i, w)" "same_handles d l w"
    using assms unfolding lists_directories_def numbers_def same_handles_def by blast
  then show thesis by (intro that [of i w "[s\<lparr>se_world := w\<rparr>]"]) (simp_all add: next_id_def call_def on_wire_def)
qed

lemma request_step:
  "co_round_trip c p w = (Some (Inr reply), w') \<Longrightarrow>
   request c p (s\<lparr>se_world := w\<rparr>) = (Inr reply, s\<lparr>se_world := w'\<rparr>, [s\<lparr>se_world := w'\<rparr>])"
  by (simp add: request_def call_def on_wire_def)

lemma goes_asking:
  assumes "next_id c s = (Inr i, s\<lparr>se_world := w\<rparr>, t)" "co_round_trip c (build i) w = (Some (Inr reply), w')"
    "goes (answer reply) (s\<lparr>se_world := w'\<rparr>) r R"
  shows "goes (asking c build answer) s r R"
proof -
  obtain v u where a: "answer reply (s\<lparr>se_world := w'\<rparr>) = (r, s\<lparr>se_world := v\<rparr>, u)" "R v"
    using assms(3) by (auto simp: goes_def)
  show ?thesis
    by (rule goesI [where w = v]) (simp_all add: asking_def andthen_def assms(1) request_step [OF assms(2)] a)
qed

lemma expect_status_asking:
  "expect_status c (\<lambda>i. give (build i)) path =
     asking c build (\<lambda>reply. case reply of
         Status _ code message _ _ \<Rightarrow> raising (raise_for_status code message path)
       | _ \<Rightarrow> throw (unexpected reply ''STATUS'' None))"
  by (simp add: expect_status_def asking_def)

lemma goes_done:
  assumes "next_id c s = (Inr i, s\<lparr>se_world := w\<rparr>, t)" "R w'"
    "co_round_trip c (build i) w = (Some (Inr (Status i FX_OK m lang None)), w')"
  shows "goes (expect_status c (\<lambda>i. give (build i)) path) s (Inr ()) R"
  unfolding expect_status_asking
  by (rule goes_asking [OF assms(1)], rule assms(3)) (simp add: raise_for_status_def raising_def goes_give assms(2))

lemma goes_resolved:
  assumes "prefix [47] p" "goes (f p) s r R" shows "goes (andthen (resolve (BytesValue p)) f) s r R"
  by (rule goes_andthen [OF goes_resolve [OF assms(1), where Q = "\<lambda>v. v = se_world s"]]) (simp_all add: assms(2))

lemma goes_opendir:
  assumes "lists_directories c d" "same_handles d l (se_world s)" "ds_tree d p = Some es" "prefix [47] p"
  obtains h where "l h = None" "goes (opendir c (BytesValue p)) s (Inr h) (same_handles d (l(h \<mapsto> es)))"
proof -
  obtain i w t where n: "next_id c s = (Inr i, s\<lparr>se_world := w\<rparr>, t)" and w: "same_handles d l w"
    using next_id_step [OF assms(1,2)] .
  obtain h w' where rt: "co_round_trip c (OpenDir i p) w = (Some (Inr (Handle i h)), w')" and h: "l h = None"
    and w': "same_handles d (l(h \<mapsto> es)) w'"
    using assms(1,3) w unfolding lists_directories_def opens_def same_handles_def by blast
  have "goes (opendir c (BytesValue p)) s (Inr h) (same_handles d (l(h \<mapsto> es)))"
    unfolding opendir_def
    by (rule goes_resolved [OF assms(4)], rule goes_asking [OF n], rule rt)
       (use w' in \<open>simp add: expect_handle_def goes_give del: fun_upd_apply\<close>)
  then show thesis using that h by blast
qed

lemma goes_readdir:
  assumes "lists_directories c d" "same_handles d l (se_world s)" "l h = Some es"
  obtains batch rest where "es = batch @ rest" "batch = [] \<longrightarrow> rest = []"
    "goes (readdir c h) s (Inr (if batch = [] then None else Some batch)) (same_handles d (l(h \<mapsto> rest)))"
proof -
  obtain i w t where n: "next_id c s = (Inr i, s\<lparr>se_world := w\<rparr>, t)" and w: "same_handles d l w"
    using next_id_step [OF assms(1,2)] .
  have "reads c d" and ok: "ds_ok d w \<and> ds_left d w h = Some es" and lw: "ds_left d w = l"
    using w assms(1,3) by (simp_all add: same_handles_def lists_directories_def)
  then obtain batch rest w' where b: "es = map from_name_entry batch @ rest" "batch = [] \<longrightarrow> rest = []"
    and rt: "co_round_trip c (ReadDir i h) w = (Some (Inr (Name i batch)), w') \<or>
         batch = [] \<and> (\<exists>m l. co_round_trip c (ReadDir i h) w = (Some (Inr (Status i FX_EOF m l None)), w'))"
    and w': "same_handles d (l(h \<mapsto> rest)) w'"
    unfolding reads_def by meson
  let ?b = "map from_name_entry batch"
  have "goes (readdir c h) s (Inr (if ?b = [] then None else Some ?b)) (same_handles d (l(h \<mapsto> rest)))"
    using rt
  proof (elim disjE conjE exE)
    assume r: "co_round_trip c (ReadDir i h) w = (Some (Inr (Name i batch)), w')"
    show ?thesis unfolding readdir_def
      by (rule goes_asking [OF n], rule r) (simp add: goes_give w' del: fun_upd_apply split del: if_split)
  next
    fix m lang assume e: "batch = []" and r: "co_round_trip c (ReadDir i h) w = (Some (Inr (Status i FX_EOF m lang None)), w')"
    show ?thesis unfolding readdir_def
      by (rule goes_asking [OF n], rule r) (simp add: e goes_give w' del: fun_upd_apply)
  qed
  then show thesis using that [of ?b rest] b by simp
qed

lemma goes_close:
  assumes "lists_directories c d" "same_handles d l (se_world s)" "l h \<noteq> None"
  shows "goes (close_handle c h) s (Inr ()) (same_handles d (l(h := None)))"
proof -
  obtain i w t where n: "next_id c s = (Inr i, s\<lparr>se_world := w\<rparr>, t)" and w: "same_handles d l w"
    using next_id_step [OF assms(1,2)] .
  obtain m lang w' where rt: "co_round_trip c (Close i h) w = (Some (Inr (Status i FX_OK m lang None)), w')"
    and w': "same_handles d (l(h := None)) w'"
    using assms(1,3) w unfolding lists_directories_def closes_def same_handles_def by metis
  show ?thesis unfolding close_handle_def by (rule goes_done [OF n], rule w', rule rt)
qed

lemma goes_lstat:
  assumes "lists_directories c d" "same_handles d l (se_world s)" "prefix [47] p"
  shows "case ds_facts d p of
           Inr a \<Rightarrow> goes (lstat_path c (BytesValue p)) s (Inr a) (same_handles d l)
         | Inl code \<Rightarrow> (\<exists>m. goes (lstat_path c (BytesValue p)) s
              (Inl (ServerErr (status_class code) (status_code_value code) m (Some p))) (same_handles d l))"
proof -
  obtain i w t where n: "next_id c s = (Inr i, s\<lparr>se_world := w\<rparr>, t)" and w: "same_handles d l w"
    using next_id_step [OF assms(1,2)] .
  obtain m lang w' where rt: "co_round_trip c (LStat i p) w =
        (Some (Inr (case ds_facts d p of Inr a \<Rightarrow> AttrsReply i a | Inl code \<Rightarrow> Status i code m lang None)), w')"
    and f: "ds_facts d p \<noteq> Inl FX_OK" "ds_facts d p \<noteq> Inl FX_EOF" and w': "same_handles d l w'"
    using assms(1) w unfolding lists_directories_def lstats_def same_handles_def by metis
  show ?thesis unfolding lstat_path_def
  proof (cases "ds_facts d p")
    case (Inr a)
    then show "case ds_facts d p of
           Inr a \<Rightarrow> goes (andthen (resolve (BytesValue p)) (\<lambda>encoded. asking c (\<lambda>i. LStat i encoded) (\<lambda>reply. expect_attrs reply (Some encoded)))) s (Inr a) (same_handles d l)
         | Inl code \<Rightarrow> (\<exists>m. goes (andthen (resolve (BytesValue p)) (\<lambda>encoded. asking c (\<lambda>i. LStat i encoded) (\<lambda>reply. expect_attrs reply (Some encoded)))) s
              (Inl (ServerErr (status_class code) (status_code_value code) m (Some p))) (same_handles d l))"
      using rt w' by (auto intro!: goes_resolved [OF assms(3)] goes_asking [OF n] goes_give simp: expect_attrs_def)
  next
    case (Inl code)
    have "goes (asking c (\<lambda>i. LStat i p) (\<lambda>reply. expect_attrs reply (Some p))) s
            (Inl (ServerErr (status_class code) (status_code_value code) m (Some p))) (same_handles d l)"
      by (rule goes_asking [OF n], rule rt [unfolded Inl sum.case])
         (use w' f Inl in \<open>auto intro: goes_throw simp: expect_attrs_def unexpected_def raise_for_status_def\<close>)
    then show "case ds_facts d p of
           Inr a \<Rightarrow> goes (andthen (resolve (BytesValue p)) (\<lambda>encoded. asking c (\<lambda>i. LStat i encoded) (\<lambda>reply. expect_attrs reply (Some encoded)))) s (Inr a) (same_handles d l)
         | Inl code \<Rightarrow> (\<exists>m. goes (andthen (resolve (BytesValue p)) (\<lambda>encoded. asking c (\<lambda>i. LStat i encoded) (\<lambda>reply. expect_attrs reply (Some encoded)))) s
              (Inl (ServerErr (status_class code) (status_code_value code) m (Some p))) (same_handles d l))"
      using Inl by (auto intro: goes_resolved [OF assms(3)])
  qed
qed

section \<open>Scans\<close>

definition visible :: "dir_entry list \<Rightarrow> dir_entry list" where
  "visible es = filter (\<lambda>e. de_filename e \<notin> set DOT_ENTRIES) es"

lemma visible_append [simp]: "visible (xs @ ys) = visible xs @ visible ys"
  by (simp add: visible_def)

definition to_come :: "scan \<Rightarrow> dir_entry list" where "to_come sc = drop (sc_index sc) (sc_batch sc)"

lemma next_buffered_None: "next_buffered sc = (None, sc') \<Longrightarrow> visible (to_come sc) = [] \<and> sc_handle sc' = sc_handle sc \<and> sc_exhausted sc' = sc_exhausted sc"
proof (induction sc rule: next_buffered.induct)
  case (1 sc)
  show ?case
  proof (cases "sc_index sc < length (sc_batch sc)")
    case True
    then have u: "to_come sc = sc_batch sc ! sc_index sc # to_come (sc\<lparr>sc_index := sc_index sc + 1\<rparr>)"
      by (simp add: to_come_def Cons_nth_drop_Suc)
    have dot: "de_filename (sc_batch sc ! sc_index sc) \<in> set DOT_ENTRIES"
      and n: "next_buffered (sc\<lparr>sc_index := sc_index sc + 1\<rparr>) = (None, sc')"
      using 1(2) True by (subst (asm) next_buffered.simps, simp add: Let_def split: if_splits)+
    have "visible (to_come (sc\<lparr>sc_index := sc_index sc + 1\<rparr>)) = [] \<and> sc_handle sc' = sc_handle sc \<and> sc_exhausted sc' = sc_exhausted sc"
      using 1(1) [OF True refl refl _ n] dot by simp
    then show ?thesis using dot u by (simp add: visible_def)
  next
    case False
    then show ?thesis using 1(2) by (subst (asm) next_buffered.simps) (simp add: to_come_def visible_def)
  qed
qed

lemma next_buffered_Some:
  "next_buffered sc = (Some e, sc') \<Longrightarrow>
   visible (to_come sc) = e # visible (to_come sc') \<and> length (to_come sc') < length (to_come sc) \<and>
   e \<in> set (to_come sc) \<and> sc_handle sc' = sc_handle sc \<and> sc_exhausted sc' = sc_exhausted sc"
proof (induction sc rule: next_buffered.induct)
  case (1 sc)
  have True: "sc_index sc < length (sc_batch sc)"
    using 1(2) by (subst (asm) next_buffered.simps) (simp split: if_splits)
  then have u: "to_come sc = sc_batch sc ! sc_index sc # to_come (sc\<lparr>sc_index := sc_index sc + 1\<rparr>)"
    by (simp add: to_come_def Cons_nth_drop_Suc)
  show ?case
  proof (cases "de_filename (sc_batch sc ! sc_index sc) \<in> set DOT_ENTRIES")
    case dot: True
    have n: "next_buffered (sc\<lparr>sc_index := sc_index sc + 1\<rparr>) = (Some e, sc')"
      using 1(2) True dot by (subst (asm) next_buffered.simps) (simp add: Let_def split: if_splits)
    have "visible (to_come (sc\<lparr>sc_index := sc_index sc + 1\<rparr>)) = e # visible (to_come sc') \<and>
        length (to_come sc') < length (to_come (sc\<lparr>sc_index := sc_index sc + 1\<rparr>)) \<and>
        e \<in> set (to_come (sc\<lparr>sc_index := sc_index sc + 1\<rparr>)) \<and> sc_handle sc' = sc_handle sc \<and> sc_exhausted sc' = sc_exhausted sc"
      using 1(1) [OF True refl refl _ n] dot by simp
    then show ?thesis using dot u by (simp add: visible_def)
  next
    case False
    then have "e = sc_batch sc ! sc_index sc" "sc' = sc\<lparr>sc_index := sc_index sc + 1\<rparr>"
      using 1(2) True by (subst (asm) next_buffered.simps, simp add: Let_def split: if_splits)+
    then show ?thesis using False u by (simp add: visible_def)
  qed
qed

lemma next_buffered_drop: "\<exists>k. to_come (snd (next_buffered sc)) = drop k (to_come sc)"
proof (induction sc rule: next_buffered.induct)
  case (1 sc)
  let ?sc = "sc\<lparr>sc_index := sc_index sc + 1\<rparr>"
  have d: "to_come ?sc = drop 1 (to_come sc)" by (simp add: to_come_def)
  show ?case
  proof (cases "sc_index sc < length (sc_batch sc) \<and> de_filename (sc_batch sc ! sc_index sc) \<in> set DOT_ENTRIES")
    case True
    then obtain k where "to_come (snd (next_buffered ?sc)) = drop k (to_come ?sc)" using 1 by auto
    moreover have "next_buffered sc = next_buffered ?sc" using True by (subst next_buffered.simps) (simp add: Let_def)
    ultimately show ?thesis using d by (metis drop_drop)
  next
    case False
    then have "next_buffered sc = (None, sc) \<or> snd (next_buffered sc) = ?sc"
      by (subst (1 2) next_buffered.simps) (auto simp: Let_def)
    then show ?thesis using d by (metis drop0 snd_conv)
  qed
qed

text \<open>A body that answers \<open>f e acc\<close> and leaves the handles as they are.\<close>

definition computes :: "'w directory_server \<Rightarrow> (dir_entry \<Rightarrow> bool) \<Rightarrow> (dir_entry \<Rightarrow> 'a \<Rightarrow> ('a, 'w session) prog) \<Rightarrow> (dir_entry \<Rightarrow> 'a \<Rightarrow> 'a) \<Rightarrow> bool" where
  "computes d P body f \<longleftrightarrow>
     (\<forall>e acc s l. P e \<longrightarrow> same_handles d l (se_world s) \<longrightarrow> goes (body e acc) s (Inr (f e acc)) (same_handles d l))"

lemma goes_scan_fill:
  assumes "lists_directories c d" "same_handles d l (se_world s)" "sc_handle sc = Some h" "l h = Some rest" "\<not> sc_exhausted sc"
  obtains batch left where "rest = batch @ left" "batch = [] \<longrightarrow> left = []"
    "goes (scan_fill c sc) s
       (Inr (if batch = [] then sc\<lparr>sc_exhausted := True\<rparr> else sc\<lparr>sc_batch := batch, sc_index := 0\<rparr>)) (same_handles d (l(h \<mapsto> left)))"
proof -
  obtain batch left where b: "rest = batch @ left" "batch = [] \<longrightarrow> left = []"
    and g: "goes (readdir c h) s (Inr (if batch = [] then None else Some batch)) (same_handles d (l(h \<mapsto> left)))"
    by (rule goes_readdir [OF assms(1,2,4)])
  have "goes (scan_fill c sc) s
       (Inr (if batch = [] then sc\<lparr>sc_exhausted := True\<rparr> else sc\<lparr>sc_batch := batch, sc_index := 0\<rparr>)) (same_handles d (l(h \<mapsto> left)))"
    unfolding scan_fill_def assms(3) option.case if_not_P [OF assms(5)]
    by (rule goes_andthen [OF g]) (auto intro: goes_give)
  then show thesis using that b by blast
qed

lemma goes_scan_loop:
  assumes "lists_directories c d" "computes d (\<lambda>e. e \<in> set all_entries) body f"
  shows "same_handles d l (se_world s) \<Longrightarrow> sc_handle sc = Some h \<Longrightarrow> l h = Some rest \<Longrightarrow> \<not> sc_exhausted sc \<Longrightarrow>
    set (to_come sc @ rest) \<subseteq> set all_entries \<Longrightarrow> length (to_come sc) + 2 * length rest < fuel \<Longrightarrow>
    goes (scan_loop fuel c sc body acc) s (Inr (Some (List.fold f (visible (to_come sc @ rest)) acc))) (same_handles d (l(h \<mapsto> [])))"
proof (induction fuel arbitrary: sc rest acc s l)
  case (Suc fuel)
  obtain found sc' where nb: "next_buffered sc = (found, sc')" by fastforce
  show ?case
  proof (cases found)
    case (Some e)
    have n: "visible (to_come sc) = e # visible (to_come sc')" "length (to_come sc') < length (to_come sc)" "e \<in> set (to_come sc)"
      "sc_handle sc' = sc_handle sc" "sc_exhausted sc' = sc_exhausted sc"
      using next_buffered_Some [of sc e sc'] nb Some by auto
    have sub: "set (to_come sc') \<subseteq> set (to_come sc)"
    proof -
      obtain k where "to_come sc' = drop k (to_come sc)" using n(1) nb Some next_buffered_drop [of sc] by auto
      then show ?thesis by (simp add: set_drop_subset)
    qed
    have b: "goes (body e acc) s (Inr (f e acc)) (same_handles d l)"
      using assms(2) Suc.prems n(3) unfolding computes_def by auto
    show ?thesis unfolding scan_loop.simps nb Some prod.case option.case
    proof (rule goes_andthen [OF b])
      fix w assume "same_handles d l w"
      then show "goes (scan_loop fuel c sc' body (f e acc)) (s\<lparr>se_world := w\<rparr>)
          (Inr (Some (List.fold f (visible (to_come sc @ rest)) acc))) (same_handles d (l(h \<mapsto> [])))"
        using Suc.IH [of l "s\<lparr>se_world := w\<rparr>" sc' rest "f e acc"] Suc.prems n sub subset_trans [OF sub]
        by (simp del: fun_upd_apply)
    qed
  next
    case None
    have n: "visible (to_come sc) = []" "sc_handle sc' = Some h" "\<not> sc_exhausted sc'"
      using next_buffered_None [of sc sc'] nb None Suc.prems by auto
    obtain batch left where r: "rest = batch @ left" "batch = [] \<longrightarrow> left = []" and g: "goes (scan_fill c sc') s
       (Inr (if batch = [] then sc'\<lparr>sc_exhausted := True\<rparr> else sc'\<lparr>sc_batch := batch, sc_index := 0\<rparr>)) (same_handles d (l(h \<mapsto> left)))"
      using goes_scan_fill [OF assms(1) Suc.prems(1) n(2) Suc.prems(3) n(3)] .
    show ?thesis unfolding scan_loop.simps nb None prod.case option.case
    proof (rule goes_andthen [OF g])
      fix w assume w: "same_handles d (l(h \<mapsto> left)) w"
      show "goes (if sc_exhausted (if batch = [] then sc'\<lparr>sc_exhausted := True\<rparr> else sc'\<lparr>sc_batch := batch, sc_index := 0\<rparr>)
               then give (Some acc) else scan_loop fuel c (if batch = [] then sc'\<lparr>sc_exhausted := True\<rparr> else sc'\<lparr>sc_batch := batch, sc_index := 0\<rparr>) body acc)
          (s\<lparr>se_world := w\<rparr>) (Inr (Some (List.fold f (visible (to_come sc @ rest)) acc))) (same_handles d (l(h \<mapsto> [])))"
      proof (cases "batch = []")
        case True
        then show ?thesis using w r n by (auto intro: goes_give simp: visible_def)
      next
        case False
        let ?sc = "sc'\<lparr>sc_batch := batch, sc_index := 0\<rparr>"
        have u: "to_come ?sc = batch" by (simp add: to_come_def)
        have "1 \<le> length batch" using False by (cases batch) simp_all
        then have "length (to_come ?sc) + 2 * length left < fuel" using Suc.prems(6) r(1) u by (simp del: One_nat_def)
        then have "goes (scan_loop fuel c ?sc body acc) (s\<lparr>se_world := w\<rparr>)
            (Inr (Some (List.fold f (visible (to_come ?sc @ left)) acc))) (same_handles d ((l(h \<mapsto> left))(h \<mapsto> [])))"
          by (intro Suc.IH) (use w n Suc.prems(5) r(1) u in \<open>auto simp del: fun_upd_apply\<close>, simp)
        then show ?thesis using False r n u by simp
      qed
    qed
  qed
qed simp

lemma goes_scanning:
  assumes "lists_directories c d" "computes d (\<lambda>e. e \<in> set entries) body f" "same_handles d l (se_world s)"
    "ds_tree d p = Some entries" "prefix [47] p" "2 * length entries < fuel"
  shows "goes (scanning fuel c p body acc) s (Inr (Some (List.fold f (visible entries) acc))) (same_handles d l)"
proof -
  obtain h where h: "l h = None" and g: "goes (opendir c (BytesValue p)) s (Inr h) (same_handles d (l(h \<mapsto> entries)))"
    by (rule goes_opendir [OF assms(1,3,4,5)])
  let ?sc = "new_scan p\<lparr>sc_entered := True, sc_handle := Some h\<rparr>"
  have undo: "l(h := Some [], h := None) = l" using h by (simp add: fun_upd_idem)
  have enter: "goes (scan_enter c (new_scan p)) s (Inr ?sc) (same_handles d (l(h \<mapsto> entries)))"
    unfolding scan_enter_def by (simp add: new_scan_def, rule goes_andthen [OF g]) (simp add: goes_give)
  show ?thesis unfolding scanning_def
  proof (rule goes_andthen [OF enter])
    fix w assume w: "same_handles d (l(h \<mapsto> entries)) w"
    have loop: "goes (scan_loop fuel c ?sc body acc) (s\<lparr>se_world := w\<rparr>)
        (Inr (Some (List.fold f (visible (to_come ?sc @ entries)) acc))) (same_handles d ((l(h \<mapsto> entries))(h \<mapsto> [])))"
      by (rule goes_scan_loop [OF assms(1,2)]) (use w assms(6) in \<open>simp_all add: new_scan_def to_come_def\<close>)
    have e: "to_come ?sc = []" by (simp add: to_come_def new_scan_def)
    show "goes (andthen (catching (scan_loop fuel c ?sc body acc) (\<lambda>e. andthen (scan_exit c ?sc True) (\<lambda>_. throw e)))
           (\<lambda>r. andthen (scan_exit c ?sc False) (\<lambda>_. give r))) (s\<lparr>se_world := w\<rparr>)
         (Inr (Some (List.fold f (visible entries) acc))) (same_handles d l)"
    proof (rule goes_andthen [OF goes_catching [OF loop [unfolded e append_Nil]]])
      fix v assume v: "same_handles d ((l(h \<mapsto> entries))(h \<mapsto> [])) v"
      have "goes (close_handle c h) (s\<lparr>se_world := v\<rparr>) (Inr ()) (same_handles d (((l(h \<mapsto> entries))(h \<mapsto> []))(h := None)))"
        by (rule goes_close [OF assms(1)]) (use v in simp_all)
      then have "goes (close_handle c h) (s\<lparr>se_world := v\<rparr>) (Inr ()) (same_handles d l)" using undo by simp
      then show "goes (andthen (scan_exit c ?sc False) (\<lambda>_. give (Some (List.fold f (visible entries) acc))))
          (s\<lparr>se_world := w, se_world := v\<rparr>) (Inr (Some (List.fold f (visible entries) acc))) (same_handles d l)"
        unfolding scan_exit_def by (simp, elim goes_andthen) (simp add: goes_give)
    qed
  qed
qed

section \<open>Walking\<close>

text \<open>What the walk makes of a child, from its listing or from what \<open>LSTAT\<close> says of it.\<close>

definition settled :: "'w directory_server \<Rightarrow> bytes \<Rightarrow> dir_entry \<Rightarrow> skipped + entry_kind_of" where
  "settled d path child =
     (if de_kind child \<noteq> UNKNOWN then Inr (de_kind child)
      else (case ds_facts d path of
              Inr a \<Rightarrow> Inr (entry_kind a)
            | Inl code \<Rightarrow> Inl \<lparr>sk_path = path, sk_entry = child, sk_reason = if code = FX_NO_SUCH_FILE then Vanished else KindRefused\<rparr>))"

definition why_skipped :: "bool \<Rightarrow> bytes \<Rightarrow> dir_entry \<Rightarrow> skipped + entry_kind_of \<Rightarrow> skipped option" where
  "why_skipped limit path child st =
     (case st of
        Inl s \<Rightarrow> Some s
      | Inr DIRECTORY \<Rightarrow> (if limit then Some \<lparr>sk_path = path, sk_entry = child, sk_reason = TooDeep\<rparr> else None)
      | Inr FILE \<Rightarrow> None
      | Inr SYMLINK \<Rightarrow> Some \<lparr>sk_path = path, sk_entry = child, sk_reason = SymlinkSkipped\<rparr>
      | Inr UNKNOWN \<Rightarrow> Some \<lparr>sk_path = path, sk_entry = child, sk_reason = UnknownKind\<rparr>
      | Inr OTHER \<Rightarrow> Some \<lparr>sk_path = path, sk_entry = child, sk_reason = NotAFile\<rparr>)"

definition visited :: "'w directory_server \<Rightarrow> nat option \<Rightarrow> bytes \<Rightarrow> bytes list \<Rightarrow> dir_entry list \<Rightarrow> walk_entry" where
  "visited d max_depth directory relative entries =
     (let path = (\<lambda>child. join_remote directory (de_filename child));
          limit = at_limit max_depth relative in
      \<lparr>we_path = directory, we_relative = relative,
       we_directories = filter (\<lambda>child. settled d (path child) child = Inr DIRECTORY \<and> \<not> limit) (visible entries),
       we_files = filter (\<lambda>child. settled d (path child) child = Inr FILE) (visible entries),
       we_skipped = List.map_filter (\<lambda>child. why_skipped limit (path child) child (settled d (path child) child)) (visible entries)\<rparr>)"

lemma place_grows:
  "place limit path child st we =
     we\<lparr>we_directories := we_directories we @ (if st = Inr DIRECTORY \<and> \<not> limit then [child] else []),
        we_files := we_files we @ (if st = Inr FILE then [child] else []),
        we_skipped := we_skipped we @ (case why_skipped limit path child st of None \<Rightarrow> [] | Some x \<Rightarrow> [x])\<rparr>"
  by (cases st) (auto simp: place_def why_skipped_def skip_reason_of_def split: entry_kind_of.split)

lemma fold_place:
  "List.fold (\<lambda>child. place limit (g child) child (k child)) es we =
     we\<lparr>we_directories := we_directories we @ filter (\<lambda>child. k child = Inr DIRECTORY \<and> \<not> limit) es,
        we_files := we_files we @ filter (\<lambda>child. k child = Inr FILE) es,
        we_skipped := we_skipped we @ List.map_filter (\<lambda>child. why_skipped limit (g child) child (k child)) es\<rparr>"
  by (induction es arbitrary: we) (simp_all add: place_grows map_filter_simps split: option.splits)

lemma visited_fold:
  "visited d max_depth directory relative entries =
     List.fold (\<lambda>child. place (at_limit max_depth relative) (join_remote directory (de_filename child)) child
                   (settled d (join_remote directory (de_filename child)) child))
          (visible entries) (empty_entry directory relative)"
  by (simp add: fold_place visited_def empty_entry_def Let_def)

text \<open>The whole tree below a directory, itself first, to a depth of less than \<open>n\<close>.\<close>

fun preorder :: "nat \<Rightarrow> 'w directory_server \<Rightarrow> nat option \<Rightarrow> bytes \<Rightarrow> bytes list \<Rightarrow> walk_entry list option" where
  "preorder 0 d max_depth directory relative = None"
| "preorder (Suc n) d max_depth directory relative =
     (case ds_tree d directory of
        None \<Rightarrow> None
      | Some entries \<Rightarrow>
          (let we = visited d max_depth directory relative entries in
           map_option (\<lambda>below. we # concat below)
             (those (map (\<lambda>child. preorder n d max_depth (join_remote directory (de_filename child)) (relative @ [de_filename child]))
                (we_directories we)))))"

lemma is_no_such_file_status: "is_no_such_file (ServerErr (status_class code) v m p) \<longleftrightarrow> code = FX_NO_SUCH_FILE"
  by (cases code) (simp_all add: status_class_def)

lemma goes_settle_for_walk:
  assumes "lists_directories c d" "same_handles d l (se_world s)" "prefix [47] path"
  shows "goes (settle_for_walk c path child) s (Inr (settled d path child)) (same_handles d l)"
proof -
  let ?next = "\<lambda>kind. case kind of None \<Rightarrow> give (Inl \<lparr>sk_path = path, sk_entry = child, sk_reason = Vanished\<rparr>) | Some k \<Rightarrow> give (Inr k)"
  let ?h = "\<lambda>e. if is_server_error e then give (Inl \<lparr>sk_path = path, sk_entry = child, sk_reason = KindRefused\<rparr>) else throw e"
  have kept: "goes (catching (andthen (settle_kind c path child) ?next) ?h) s
      (Inr (case r of None \<Rightarrow> Inl \<lparr>sk_path = path, sk_entry = child, sk_reason = Vanished\<rparr> | Some k \<Rightarrow> Inr k)) (same_handles d l)"
    if "goes (settle_kind c path child) s (Inr r) (same_handles d l)" for r
    by (rule goes_catching, rule goes_andthen [OF that]) (auto intro: goes_give split: option.split)
  have absent: "goes (settle_kind c path child) s (case r of Inl e \<Rightarrow> Inl e | Inr a \<Rightarrow> Inr (map_option entry_kind a)) (same_handles d l)"
    if "goes (attrs_or_absent c path False) s r (same_handles d l)" "de_kind child = UNKNOWN" for r
  proof (cases r)
    case (Inl e)
    then show ?thesis unfolding settle_kind_def using that by (auto intro: goes_andthen_fails)
  next
    case (Inr a)
    have "goes (andthen (attrs_or_absent c path False) (\<lambda>a. give (map_option entry_kind a))) s (Inr (map_option entry_kind a)) (same_handles d l)"
      by (rule goes_andthen [OF that(1) [unfolded Inr]]) (simp add: goes_give)
    then show ?thesis unfolding settle_kind_def using that Inr by simp
  qed
  consider (known) "de_kind child \<noteq> UNKNOWN" | (told) a where "de_kind child = UNKNOWN" "ds_facts d path = Inr a"
    | (gone) "de_kind child = UNKNOWN" "ds_facts d path = Inl FX_NO_SUCH_FILE"
    | (refused) code where "de_kind child = UNKNOWN" "ds_facts d path = Inl code" "code \<noteq> FX_NO_SUCH_FILE"
    by (cases "ds_facts d path") auto
  then show ?thesis
  proof cases
    case known
    have "goes (settle_kind c path child) s (Inr (Some (de_kind child))) (same_handles d l)"
      using known by (auto simp: settle_kind_def intro: goes_give assms(2))
    then show ?thesis unfolding settle_for_walk_def using kept known by (fastforce simp: settled_def)
  next
    case told
    have g: "goes (lstat_path c (BytesValue path)) s (Inr a) (same_handles d l)" using goes_lstat [OF assms] told by simp
    have "goes (attrs_or_absent c path False) s (Inr (Some a)) (same_handles d l)"
      unfolding attrs_or_absent_def by (simp, rule goes_catching, rule goes_andthen [OF g]) (simp add: goes_give)
    then show ?thesis unfolding settle_for_walk_def using kept absent told by (fastforce simp: settled_def)
  next
    case gone
    then obtain m where g: "goes (lstat_path c (BytesValue path)) s (Inl (ServerErr (status_class FX_NO_SUCH_FILE) (status_code_value FX_NO_SUCH_FILE) m (Some path))) (same_handles d l)"
      using goes_lstat [OF assms] by auto
    have "goes (attrs_or_absent c path False) s (Inr None) (same_handles d l)"
      unfolding attrs_or_absent_def
      by (simp, rule goes_caught, rule goes_andthen_fails [OF g]) (simp add: is_no_such_file_status goes_give)
    then show ?thesis unfolding settle_for_walk_def using kept absent gone by (fastforce simp: settled_def)
  next
    case refused
    let ?e = "\<lambda>m. ServerErr (status_class code) (status_code_value code) m (Some path)"
    obtain m where g: "goes (lstat_path c (BytesValue path)) s (Inl (?e m)) (same_handles d l)"
      using goes_lstat [OF assms] refused by auto
    have "goes (attrs_or_absent c path False) s (Inl (?e m)) (same_handles d l)"
      unfolding attrs_or_absent_def
      by (simp, rule goes_caught, rule goes_andthen_fails [OF g]) (simp add: is_no_such_file_status refused goes_throw)
    then have "goes (settle_kind c path child) s (Inl (?e m)) (same_handles d l)" using absent refused by fastforce
    then have "goes (andthen (settle_kind c path child) ?next) s (Inl (?e m)) (same_handles d l)" by (rule goes_andthen_fails)
    then show ?thesis unfolding settle_for_walk_def
      by (rule goes_caught) (simp add: settled_def refused goes_give)
  qed
qed

section \<open>The whole walk\<close>

lemma prefix_join_remote: "prefix [47] directory \<Longrightarrow> prefix [47] (join_remote directory name)"
  by (cases directory) (auto simp: join_remote_def)

lemma goes_walk_one:
  assumes "lists_directories c d" "same_handles d l (se_world s)" "ds_tree d directory = Some entries" "prefix [47] directory"
    "2 * length entries < fuel"
  shows "goes (walk_one fuel c max_depth directory relative) s (Inr (Some (visited d max_depth directory relative entries))) (same_handles d l)"
proof -
  let ?path = "\<lambda>child. join_remote directory (de_filename child)"
  let ?body = "\<lambda>child we. andthen (settle_for_walk c (?path child) child) (\<lambda>settled.
            give (place (at_limit max_depth relative) (?path child) child settled we))"
  have "computes d (\<lambda>e. e \<in> set entries) ?body (\<lambda>child. place (at_limit max_depth relative) (?path child) child (settled d (?path child) child))"
    unfolding computes_def
  proof (intro allI impI)
    fix e :: dir_entry and acc :: walk_entry and s :: "'a session" and l assume w: "same_handles d l (se_world s)"
    show "goes (?body e acc) s (Inr (place (at_limit max_depth relative) (?path e) e (settled d (?path e) e) acc)) (same_handles d l)"
      by (rule goes_andthen [OF goes_settle_for_walk [OF assms(1) w prefix_join_remote [OF assms(4)]]]) (simp add: goes_give)
  qed
  from goes_scanning [OF assms(1) this assms(2,3,4,5)] show ?thesis
    unfolding walk_one_def scandir_path_def visited_fold by (rule goes_resolved [OF assms(4)])
qed

lemma those_Some: "those xs = Some ys \<longleftrightarrow> xs = map Some ys"
proof (induction xs arbitrary: ys)
  case Nil show ?case by auto
next
  case (Cons x xs)
  show ?case by (cases x; cases ys) (auto simp: Cons)
qed

text \<open>The listings a walk reads, and what reading one of them takes.\<close>

definition scans_fit :: "'w directory_server \<Rightarrow> nat \<Rightarrow> bool" where
  "scans_fit d fuel \<longleftrightarrow> (\<forall>p es. ds_tree d p = Some es \<longrightarrow> 2 * length es < fuel)"

abbreviation collecting :: "walk_entry \<Rightarrow> walk_entry list \<Rightarrow> (walk_entry list, 'w session) prog" where
  "collecting we entries \<equiv> give (entries @ [we])"

abbreviation stacked :: "nat \<Rightarrow> 'w directory_server \<Rightarrow> nat option \<Rightarrow> (bytes \<times> bytes list) list \<Rightarrow> walk_entry list list option" where
  "stacked n d max_depth stack \<equiv> those (map (\<lambda>(directory, relative). preorder n d max_depth directory relative) stack)"

lemma visited_path [simp]:
  "we_path (visited d max_depth directory relative entries) = directory"
  "we_relative (visited d max_depth directory relative entries) = relative"
  by (simp_all add: visited_def Let_def)

lemma preorder_SucD:
  assumes "preorder n d max_depth directory relative = Some ws"
  obtains m entries wss where "n = Suc m" "ds_tree d directory = Some entries"
    "ws = visited d max_depth directory relative entries # concat wss"
    "stacked m d max_depth (below (visited d max_depth directory relative entries)) = Some wss"
proof (cases n)
  case 0
  then show thesis using assms by simp
next
  case (Suc m)
  then show thesis using assms that
    by (auto simp: Let_def below_def comp_def split: option.splits)
qed

declare preorder.simps(2) [simp del]

lemma stacked_mono:
  assumes "\<And>p r ws. preorder n d max_depth p r = Some ws \<Longrightarrow> preorder (Suc n) d max_depth p r = Some ws"
    "stacked n d max_depth stack = Some wss"
  shows "stacked (Suc n) d max_depth stack = Some wss"
  using assms(2) unfolding those_Some
proof (induction stack arbitrary: wss)
  case (Cons x xs)
  then obtain w ws where "wss = w # ws" by (auto simp: map_eq_Cons_conv)
  then show ?case using Cons assms(1) by (cases x) auto
qed simp

lemma preorder_mono: "preorder n d max_depth directory relative = Some ws \<Longrightarrow> preorder (Suc n) d max_depth directory relative = Some ws"
proof (induction n arbitrary: directory relative ws)
  case (Suc n)
  obtain m entries wss where m: "Suc n = Suc m" and t: "ds_tree d directory = Some entries"
    and ws: "ws = visited d max_depth directory relative entries # concat wss"
    and b: "stacked m d max_depth (below (visited d max_depth directory relative entries)) = Some wss"
    by (rule preorder_SucD [OF Suc.prems])
  have "stacked (Suc n) d max_depth (below (visited d max_depth directory relative entries)) = Some wss"
    by (rule stacked_mono [OF Suc.IH]) (use b m in auto)
  then show ?case using t ws by (simp add: preorder.simps(2) [of "Suc n"] Let_def below_def comp_def)
qed simp

lemma goes_walk_loop:
  assumes "lists_directories c d" "scans_fit d scan_fuel"
  shows "same_handles d l (se_world s) \<Longrightarrow> stacked n d max_depth stack = Some wss \<Longrightarrow> \<forall>(p, r) \<in> set stack. prefix [47] p \<Longrightarrow>
    length (concat wss) \<le> fuel \<Longrightarrow>
    goes (walk_loop fuel scan_fuel c max_depth stack collecting acc) s (Inr (Some (acc @ concat wss))) (same_handles d l)"
proof (induction fuel arbitrary: stack wss acc s)
  case 0
  have "stack = []"
  proof (cases stack)
    case (Cons x xs)
    obtain p r where x: "x = (p, r)" by fastforce
    then obtain ws wss' where p: "preorder n d max_depth p r = Some ws" and "wss = ws # wss'"
      using 0(2) Cons unfolding those_Some by (auto simp: map_eq_Cons_conv)
    moreover have "ws \<noteq> []" using preorder_SucD [OF p] by fastforce
    ultimately show ?thesis using 0(4) by simp
  qed simp
  then show ?case using 0 by (auto simp: intro: goes_give)
next
  case (Suc fuel)
  show ?case
  proof (cases stack)
    case Nil
    then show ?thesis using Suc.prems by (auto intro: goes_give)
  next
    case (Cons x xs)
    obtain p r where x: "x = (p, r)" by fastforce
    obtain ws rest where p: "preorder n d max_depth p r = Some ws" and wss: "wss = ws # rest"
      and rest: "stacked n d max_depth xs = Some rest"
      using Suc.prems(2) Cons x unfolding those_Some by (auto simp: map_eq_Cons_conv)
    obtain m entries bw where m: "n = Suc m" and t: "ds_tree d p = Some entries"
      and ws: "ws = visited d max_depth p r entries # concat bw"
      and b: "stacked m d max_depth (below (visited d max_depth p r entries)) = Some bw"
      by (rule preorder_SucD [OF p])
    have bn: "stacked n d max_depth (below (visited d max_depth p r entries)) = Some bw"
      unfolding m by (rule stacked_mono [OF preorder_mono b])
    have both: "stacked n d max_depth (below (visited d max_depth p r entries) @ xs) = Some (bw @ rest)"
      using bn rest by (simp add: those_Some)
    have rooted: "prefix [47] p" using Suc.prems(3) Cons x by simp
    have below_rooted: "\<forall>(q, r) \<in> set (below (visited d max_depth p r entries) @ xs). prefix [47] q"
      using Suc.prems(3) Cons prefix_join_remote [OF rooted] by (auto simp: below_def)
    have one: "goes (walk_one scan_fuel c max_depth p r) s (Inr (Some (visited d max_depth p r entries))) (same_handles d l)"
      by (rule goes_walk_one [OF assms(1) Suc.prems(1) t rooted]) (use assms(2) t in \<open>auto simp: scans_fit_def\<close>)
    show ?thesis unfolding Cons x walk_loop.simps
    proof (rule goes_andthen [OF one])
      fix w assume w: "same_handles d l w"
      have "goes (walk_loop fuel scan_fuel c max_depth (below (visited d max_depth p r entries) @ xs) collecting (acc @ [visited d max_depth p r entries]))
          (s\<lparr>se_world := w\<rparr>) (Inr (Some ((acc @ [visited d max_depth p r entries]) @ concat (bw @ rest)))) (same_handles d l)"
        by (rule Suc.IH [OF _ both below_rooted]) (use w Suc.prems(4) wss ws in simp_all)
      then show "goes (case Some (visited d max_depth p r entries) of None \<Rightarrow> give None
           | Some we \<Rightarrow> andthen (collecting we acc) (\<lambda>acc'. walk_loop fuel scan_fuel c max_depth (below we @ xs) collecting acc'))
          (s\<lparr>se_world := w\<rparr>) (Inr (Some (acc @ concat wss))) (same_handles d l)"
        using wss ws by simp
    qed
  qed
qed

text \<open>
  C31. On a server that lists its directories truthfully, walking a tree of finite depth ends and gives
  one entry per directory in preorder, every directory before what it holds; the tree is entered
  through the children the listing or an \<open>LSTAT\<close> calls directories and through no others, what is
  not a directory or a file is reported as skipped with its reason, and every handle is closed.
\<close>

theorem walk_is_preorder:
  assumes server: "lists_directories c d" "scans_fit d scan_fuel" and start: "ds_ok d (se_world s)"
    and tree: "preorder n d max_depth path [] = Some entries" and rooted: "prefix [47] path" and fuel: "length entries \<le> fuel"
  shows "\<exists>w t. walking fuel scan_fuel c (BytesValue path) max_depth (\<lambda>we seen. give (seen @ [we])) [] s
           = (Inr (Some entries), s\<lparr>se_world := w\<rparr>, t) \<and> ds_ok d w \<and> ds_left d w = ds_left d (se_world s)"
proof -
  have "goes (walk_loop fuel scan_fuel c max_depth [(path, [])] collecting []) s (Inr (Some ([] @ concat [entries])))
          (same_handles d (ds_left d (se_world s)))"
    by (rule goes_walk_loop [OF server, where n = n]) (use start tree rooted fuel in \<open>simp_all add: same_handles_def\<close>)
  then have "goes (walking fuel scan_fuel c (BytesValue path) max_depth collecting []) s (Inr (Some entries))
          (same_handles d (ds_left d (se_world s)))"
    unfolding walking_def require_rooted_paths_def by (intro goes_resolved [OF rooted]) (simp add: rooted)
  then show ?thesis by (auto simp: goes_def same_handles_def)
qed

end
