(* ===== verification/RemovalLaws.thy ===== *)
theory RemovalLaws
  imports TraversalLaws
begin

text \<open>
  Removing a tree. The server's contract is what \<open>REMOVE\<close> and \<open>RMDIR\<close> promise: a name that is not a
  directory goes, and so does a directory that holds nothing any more.
\<close>

definition inside :: "bytes \<Rightarrow> bytes \<Rightarrow> bool" where
  "inside p q \<longleftrightarrow> strict_prefix (split_components p) (split_components q)"

definition region :: "bytes \<Rightarrow> bytes set" where "region p = insert p {q. inside p q}"

text \<open>\<open>up\<close> is that the connection works; \<open>present\<close> is what there is, and \<open>leaf\<close> what is no directory.\<close>

definition removes :: "'w connection \<Rightarrow> ('w \<Rightarrow> bool) \<Rightarrow> ('w \<Rightarrow> bytes set) \<Rightarrow> (bytes \<Rightarrow> bool) \<Rightarrow> bool" where
  "removes c up present leaf \<longleftrightarrow> (\<forall>w. up w \<longrightarrow>
     (\<exists>i w'. co_next c w = (Inr i, w') \<and> up w' \<and> present w' = present w) \<and>
     (\<forall>i p. p \<in> present w \<and> leaf p \<longrightarrow>
        (\<exists>m l w'. co_round_trip c (Remove i p) w = (Some (Inr (Status i FX_OK m l None)), w') \<and> up w' \<and> present w' = present w - {p})) \<and>
     (\<forall>i p. p \<in> present w \<and> \<not> leaf p \<and> (\<forall>q \<in> present w. \<not> inside p q) \<longrightarrow>
        (\<exists>m l w'. co_round_trip c (RmDir i p) w = (Some (Inr (Status i FX_OK m l None)), w') \<and> up w' \<and> present w' = present w - {p})))"

definition holding :: "('w \<Rightarrow> bool) \<Rightarrow> ('w \<Rightarrow> bytes set) \<Rightarrow> bytes set \<Rightarrow> 'w \<Rightarrow> bool" where
  "holding up present P w \<longleftrightarrow> up w \<and> present w = P"

section \<open>One removal\<close>

lemma goes_removal:
  assumes "removes c up present leaf" "holding up present P (se_world s)"
    "\<And>i w. up w \<Longrightarrow> present w = P \<Longrightarrow>
       \<exists>m l w'. co_round_trip c (build i) w = (Some (Inr (Status i FX_OK m l None)), w') \<and> up w' \<and> present w' = P - {p}"
  shows "goes (expect_status c (\<lambda>i. give (build i)) path) s (Inr ()) (holding up present (P - {p}))"
proof -
  obtain i w where n: "co_next c (se_world s) = (Inr i, w)" and w: "up w" "present w = P"
    using assms(1,2) unfolding removes_def holding_def by blast
  obtain m l w' where rt: "co_round_trip c (build i) w = (Some (Inr (Status i FX_OK m l None)), w')"
    and w': "holding up present (P - {p}) w'" using assms(3) [OF w] unfolding holding_def by blast
  have "next_id c s = (Inr i, s\<lparr>se_world := w\<rparr>, [s\<lparr>se_world := w\<rparr>])" using n by (simp add: next_id_def call_def on_wire_def)
  from goes_done [OF this] w' rt show ?thesis by blast
qed

lemma goes_remove:
  assumes "removes c up present leaf" "holding up present P (se_world s)" "prefix [47] p" "p \<in> P" "leaf p"
  shows "goes (remove_path c (BytesValue p)) s (Inr ()) (holding up present (P - {p}))"
  unfolding remove_path_def
  by (rule goes_resolved [OF assms(3)], rule goes_removal [OF assms(1,2)])
     (use assms(1,4,5) in \<open>unfold removes_def, blast\<close>)

lemma goes_rmdir:
  assumes "removes c up present leaf" "holding up present P (se_world s)" "prefix [47] p" "p \<in> P" "\<not> leaf p" "\<forall>q \<in> P. \<not> inside p q"
  shows "goes (rmdir c (BytesValue p)) s (Inr ()) (holding up present (P - {p}))"
  unfolding rmdir_def
  by (rule goes_resolved [OF assms(3)], rule goes_removal [OF assms(1,2)])
     (use assms(1,4,5,6) in \<open>unfold removes_def, blast\<close>)

lemma each_map: "each f (map g xs) = each (\<lambda>x. f (g x)) xs"
  by (induction xs) simp_all

lemma andthen_assoc: "andthen (andthen m f) g = andthen m (\<lambda>x. andthen (f x) g)"
  by (rule ext) (simp add: andthen_def split: prod.splits sum.splits)

lemma each_append: "each f (xs @ ys) = andthen (each f xs) (\<lambda>_. each f ys)"
  by (induction xs) (simp_all add: andthen_assoc)

lemma goes_each_remove:
  assumes "removes c up present leaf"
  shows "holding up present P (se_world s) \<Longrightarrow> distinct ps \<Longrightarrow> set ps \<subseteq> P \<Longrightarrow> \<forall>p \<in> set ps. leaf p \<and> prefix [47] p \<Longrightarrow>
    goes (each (\<lambda>p. remove_path c (BytesValue p)) ps) s (Inr ()) (holding up present (P - set ps))"
proof (induction ps arbitrary: P s)
  case Nil
  then show ?case by (simp add: goes_give)
next
  case (Cons p ps)
  have one: "goes (remove_path c (BytesValue p)) s (Inr ()) (holding up present (P - {p}))"
    by (rule goes_remove [OF assms]) (use Cons.prems in auto)
  have eq: "P - {p} - set ps = P - set (p # ps)" and sub: "set ps \<subseteq> P - {p}" using Cons.prems by auto
  show ?case unfolding each.simps
  proof (rule goes_andthen [OF one])
    fix w assume "holding up present (P - {p}) w"
    then show "goes (each (\<lambda>p. remove_path c (BytesValue p)) ps) (s\<lparr>se_world := w\<rparr>) (Inr ()) (holding up present (P - set (p # ps)))"
      unfolding eq [symmetric] by (intro Cons.IH) (use Cons.prems sub in simp_all)
  qed
qed

section \<open>The paths of a tree\<close>

definition own_paths :: "walk_entry \<Rightarrow> bytes list" where
  "own_paths we = map (\<lambda>child. join_remote (we_path we) (de_filename child)) (we_files we) @ map sk_path (we_skipped we)"

definition entry_paths :: "walk_entry \<Rightarrow> bytes list" where "entry_paths we = own_paths we @ [we_path we]"

definition tree_paths :: "walk_entry list \<Rightarrow> bytes set" where "tree_paths ws = \<Union> (set ` entry_paths ` set ws)"

lemma tree_paths_simps [simp]:
  "tree_paths [] = {}" "tree_paths (we # ws) = set (entry_paths we) \<union> tree_paths ws"
  "tree_paths (xs @ ys) = tree_paths xs \<union> tree_paths ys" "tree_paths (concat wss) = \<Union> (tree_paths ` set wss)"
  by (auto simp: tree_paths_def)

definition good_names :: "'w directory_server \<Rightarrow> bool" where
  "good_names d \<longleftrightarrow> (\<forall>p es. ds_tree d p = Some es \<longrightarrow>
     (\<forall>e \<in> set (visible es). remote_component_reason (de_filename e) = None) \<and> distinct (map de_filename (visible es)))"

lemma good_component: "remote_component_reason name = None \<Longrightarrow> name \<noteq> [] \<and> 47 \<notin> set name"
  by (auto simp: remote_component_reason_def split: if_splits)

lemma join_remote_inj: "join_remote p a = join_remote p b \<Longrightarrow> a = b"
  by (auto simp: join_remote_def split: if_splits)

lemma child_components:
  "remote_component_reason name = None \<Longrightarrow> split_components (join_remote p name) = split_components p @ [name]"
  using good_component [of name] by (intro join_remote_components) auto

lemma region_child:
  assumes "remote_component_reason name = None" "q \<in> region (join_remote p name)"
  obtains zs where "split_components q = split_components p @ name # zs"
proof -
  have "prefix (split_components p @ [name]) (split_components q)"
    using assms(2) child_components [OF assms(1)] by (auto simp: region_def inside_def strict_prefix_def)
  then show thesis by (elim prefixE) (use that in simp)
qed

lemma inside_below_child:
  assumes "remote_component_reason name = None" "q \<in> region (join_remote p name)"
  shows "inside p q"
  using region_child [OF assms] unfolding inside_def by (metis strict_prefixI')

lemma inside_child: "remote_component_reason name = None \<Longrightarrow> inside p (join_remote p name)"
  by (rule inside_below_child, assumption, unfold region_def, rule insertI1)

lemma regions_apart:
  assumes "remote_component_reason a = None" "remote_component_reason b = None" "a \<noteq> b"
  shows "region (join_remote p a) \<inter> region (join_remote p b) = {}"
proof (rule ccontr)
  assume "\<not> ?thesis"
  then obtain q where q: "q \<in> region (join_remote p a)" "q \<in> region (join_remote p b)" by auto
  obtain xs ys where "split_components q = split_components p @ a # xs" "split_components q = split_components p @ b # ys"
    using region_child [OF assms(1) q(1)] region_child [OF assms(2) q(2)] by metis
  then show False using assms(3) by simp
qed

lemma settled_path: "settled d path child = Inl x \<Longrightarrow> sk_path x = path"
  by (auto simp: settled_def split: if_splits sum.splits)

lemma why_skipped_path: "why_skipped limit path child (settled d path child) = Some x \<Longrightarrow> sk_path x = path"
  by (auto simp: why_skipped_def settled_path split: sum.splits entry_kind_of.splits if_splits)

lemma own_paths_visited:
  "own_paths (visited d max_depth p r es) =
     map (\<lambda>child. join_remote p (de_filename child))
       (filter (\<lambda>child. settled d (join_remote p (de_filename child)) child = Inr FILE) (visible es) @
        filter (\<lambda>child. why_skipped (at_limit max_depth r) (join_remote p (de_filename child)) child
                          (settled d (join_remote p (de_filename child)) child) \<noteq> None) (visible es))"
proof -
  have "map sk_path (List.map_filter (\<lambda>child. why_skipped l (g child) child (settled d (g child) child)) xs) =
        map g (filter (\<lambda>child. why_skipped l (g child) child (settled d (g child) child) \<noteq> None) xs)" for l g xs
    by (induction xs) (auto simp: map_filter_simps why_skipped_path split: option.splits)
  then show ?thesis by (simp add: own_paths_def visited_def Let_def)
qed

definition paths_kept_apart :: "(bytes \<Rightarrow> bool) \<Rightarrow> walk_entry list \<Rightarrow> bool" where
  "paths_kept_apart leaf ws \<longleftrightarrow> list_all (\<lambda>we. list_all leaf (own_paths we) \<and> \<not> leaf (we_path we)) ws"

lemma own_paths_shape:
  assumes "good_names d" "ds_tree d p = Some es"
  shows "distinct (own_paths (visited d None p r es))"
    "q \<in> set (own_paths (visited d None p r es)) \<Longrightarrow>
       \<exists>e \<in> set (visible es). q = join_remote p (de_filename e) \<and> e \<notin> set (we_directories (visited d None p r es))"
proof -
  let ?st = "\<lambda>child. settled d (join_remote p (de_filename child)) child"
  let ?skip = "\<lambda>child. why_skipped False (join_remote p (de_filename child)) child (?st child)"
  have limit: "at_limit None r = False" by (simp add: at_limit_def)
  have dist: "distinct (map de_filename (visible es))" using assms by (auto simp: good_names_def)
  then have inj: "inj_on (\<lambda>child. join_remote p (de_filename child)) (set (visible es))"
    by (auto simp: inj_on_def distinct_map dest!: join_remote_inj)
  have apart: "?skip e = None" if "?st e = Inr FILE" for e using that by (simp add: why_skipped_def)
  have d2: "distinct (visible es)" using dist by (simp add: distinct_map)
  show "distinct (own_paths (visited d None p r es))"
    unfolding own_paths_visited limit distinct_map
    using d2 apart by (auto intro: inj_on_subset [OF inj])
  show "q \<in> set (own_paths (visited d None p r es)) \<Longrightarrow> \<exists>e \<in> set (visible es). q = join_remote p (de_filename e) \<and> e \<notin> set (we_directories (visited d None p r es))"
  proof -
    assume "q \<in> set (own_paths (visited d None p r es))"
    then obtain e where e: "e \<in> set (visible es)" "q = join_remote p (de_filename e)" "?st e = Inr FILE \<or> ?skip e \<noteq> None"
      unfolding own_paths_visited limit by auto
    have "we_directories (visited d None p r es) = filter (\<lambda>child. ?st child = Inr DIRECTORY) (visible es)"
      by (simp add: visited_def Let_def limit)
    moreover have "?st e \<noteq> Inr DIRECTORY" using e(3) by (auto simp: why_skipped_def)
    ultimately show ?thesis using e by auto
  qed
qed

lemma stacked_Cons:
  "stacked n d max_depth ((p, r) # stack) = Some wss \<longleftrightarrow>
   (\<exists>ws rest. wss = ws # rest \<and> preorder n d max_depth p r = Some ws \<and> stacked n d max_depth stack = Some rest)"
  unfolding those_Some by (auto simp: map_eq_Cons_conv)

lemma tree_paths_inside:
  assumes "good_names d"
  shows "preorder n d None p r = Some ws \<Longrightarrow> tree_paths ws \<subseteq> region p"
proof (induction n arbitrary: p r ws)
  case (Suc n)
  obtain m entries wss where m: "Suc n = Suc m" and t: "ds_tree d p = Some entries"
    and ws: "ws = visited d None p r entries # concat wss"
    and b: "stacked m d None (below (visited d None p r entries)) = Some wss"
    by (rule preorder_SucD [OF Suc.prems])
  have names: "remote_component_reason (de_filename e) = None" if "e \<in> set (visible entries)" for e
    using assms t that by (auto simp: good_names_def)
  have dirs: "set (we_directories (visited d None p r entries)) \<subseteq> set (visible entries)" by (auto simp: visited_def Let_def)
  have own: "q \<in> region p" if q: "q \<in> set (own_paths (visited d None p r entries))" for q
  proof -
    obtain e where "e \<in> set (visible entries)" "q = join_remote p (de_filename e)" using own_paths_shape(2) [OF assms t q] by blast
    then show ?thesis using inside_child [OF names] by (simp add: region_def)
  qed
  have "tree_paths (concat wss) \<subseteq> region p"
  proof
    fix q assume "q \<in> tree_paths (concat wss)"
    then obtain ws' where ws': "ws' \<in> set wss" and q: "q \<in> tree_paths ws'" by auto
    have "Some ws' \<in> (\<lambda>(q, r). preorder n d None q r) ` set (below (visited d None p r entries))"
      using ws' b m unfolding those_Some by (metis Suc_inject imageI list.set_map)
    then obtain e where e: "e \<in> set (we_directories (visited d None p r entries))"
      and pre: "preorder n d None (join_remote p (de_filename e)) (r @ [de_filename e]) = Some ws'"
      by (auto simp: below_def)
    have "q \<in> region (join_remote p (de_filename e))" using Suc.IH [OF pre] q by blast
    then show "q \<in> region p" using inside_below_child [OF names] e dirs by (auto simp: region_def)
  qed
  then show ?case using ws own by (auto simp: entry_paths_def region_def)
qed simp

section \<open>Removing a directory and what it holds\<close>

lemma remove_entry_own:
  "remove_entry c we = andthen (each (\<lambda>p. remove_path c (BytesValue p)) (own_paths we)) (\<lambda>_. rmdir c (BytesValue (we_path we)))"
  by (simp add: remove_entry_def own_paths_def each_append each_map andthen_assoc)

lemma goes_remove_entry:
  assumes "removes c up present leaf" "holding up present P (se_world s)" "distinct (own_paths we)" "set (own_paths we) \<subseteq> P"
    "list_all leaf (own_paths we)" "\<not> leaf (we_path we)" "\<forall>p \<in> set (entry_paths we). prefix [47] p" "we_path we \<in> P"
    "\<forall>q \<in> P - set (own_paths we). \<not> inside (we_path we) q"
  shows "goes (remove_entry c we) s (Inr ()) (holding up present (P - set (entry_paths we)))"
proof -
  have own: "goes (each (\<lambda>p. remove_path c (BytesValue p)) (own_paths we)) s (Inr ()) (holding up present (P - set (own_paths we)))"
    by (rule goes_each_remove [OF assms(1-4)]) (use assms(5,7) in \<open>auto simp: list_all_iff entry_paths_def\<close>)
  have eq: "P - set (entry_paths we) = P - set (own_paths we) - {we_path we}" by (auto simp: entry_paths_def)
  have "we_path we \<notin> set (own_paths we)" using assms(5,6) by (auto simp: list_all_iff)
  then show ?thesis unfolding remove_entry_own eq using assms(6-9)
    by (intro goes_andthen [OF own] goes_rmdir [OF assms(1)]) (auto simp: entry_paths_def)
qed

text \<open>The trees of several children, the last first; their regions have nothing in common.\<close>

lemma goes_remove_children:
  assumes tree: "\<And>q r ws P s. preorder m d None q r = Some ws \<Longrightarrow> prefix [47] q \<Longrightarrow> paths_kept_apart leaf ws \<Longrightarrow>
      holding up present P (se_world s) \<Longrightarrow> P \<inter> region q = tree_paths ws \<Longrightarrow>
      goes (each (remove_entry c) (rev ws)) s (Inr ()) (holding up present (P - tree_paths ws))"
    and names: "good_names d"
  shows "stacked m d None stack = Some wss \<Longrightarrow> \<forall>(q, r) \<in> set stack. prefix [47] q \<Longrightarrow>
    sorted_wrt (\<lambda>x y. region (fst x) \<inter> region (fst y) = {}) stack \<Longrightarrow> paths_kept_apart leaf (concat wss) \<Longrightarrow>
    holding up present P (se_world s) \<Longrightarrow> list_all2 (\<lambda>x ws. P \<inter> region (fst x) = tree_paths ws) stack wss \<Longrightarrow>
    goes (each (remove_entry c) (rev (concat wss))) s (Inr ()) (holding up present (P - tree_paths (concat wss)))"
proof (induction stack arbitrary: wss P s)
  case Nil
  then have "wss = []" by (simp add: those_Some)
  then show ?case using Nil by (simp add: goes_give)
next
  case (Cons x stack)
  obtain q r where x: "x = (q, r)" by fastforce
  obtain ws rest where wss: "wss = ws # rest" and pre: "preorder m d None q r = Some ws" and st: "stacked m d None stack = Some rest"
    using Cons.prems(1) unfolding x stacked_Cons by blast
  have apart: "tree_paths (concat rest) \<inter> region q = {}"
  proof -
    have "tree_paths w \<subseteq> \<Union> (region ` fst ` set stack)" if w: "w \<in> set rest" for w
    proof -
      have "Some w \<in> (\<lambda>(q, r). preorder m d None q r) ` set stack" using w st unfolding those_Some by (metis imageI list.set_map)
      then obtain q' r' where "(q', r') \<in> set stack" "preorder m d None q' r' = Some w" by auto
      then show ?thesis using tree_paths_inside [OF names, of m q' r' w] by force
    qed
    then have "tree_paths (concat rest) \<subseteq> \<Union> (region ` fst ` set stack)" by auto
    then show ?thesis using Cons.prems(3) x by fastforce
  qed
  have eq: "P - tree_paths (concat rest) - tree_paths ws = P - tree_paths (concat wss)" using wss by auto
  have P: "P \<inter> region q = tree_paths ws" using Cons.prems(6) wss x by simp
  have first: "goes (each (remove_entry c) (rev (concat rest))) s (Inr ()) (holding up present (P - tree_paths (concat rest)))"
    by (rule Cons.IH [OF st]) (use Cons.prems wss in \<open>auto simp: paths_kept_apart_def\<close>)
  have "goes (andthen (each (remove_entry c) (rev (concat rest))) (\<lambda>_. each (remove_entry c) (rev ws))) s (Inr ())
      (holding up present (P - tree_paths (concat wss)))"
  proof (rule goes_andthen [OF first])
    fix w assume w: "holding up present (P - tree_paths (concat rest)) w"
    have "goes (each (remove_entry c) (rev ws)) (s\<lparr>se_world := w\<rparr>) (Inr ()) (holding up present (P - tree_paths (concat rest) - tree_paths ws))"
      by (rule tree [OF pre]) (use Cons.prems(2,4) wss x w P apart in \<open>auto simp: paths_kept_apart_def\<close>)
    then show "goes (each (remove_entry c) (rev ws)) (s\<lparr>se_world := w\<rparr>) (Inr ()) (holding up present (P - tree_paths (concat wss)))"
      unfolding eq .
  qed
  then show ?case by (simp add: wss each_append)
qed

lemma paths_kept_apart_concat: "paths_kept_apart leaf (concat wss) \<longleftrightarrow> list_all (paths_kept_apart leaf) wss"
  by (induction wss) (auto simp: paths_kept_apart_def)

lemma below_apart:
  assumes "good_names d" "ds_tree d p = Some entries"
  shows "sorted_wrt (\<lambda>x y. region (fst x) \<inter> region (fst y) = {}) (below (visited d None p r entries))"
proof -
  have g: "\<forall>e \<in> set (visible entries). remote_component_reason (de_filename e) = None" "distinct (map de_filename (visible entries))"
    using assms by (auto simp: good_names_def)
  have "sorted_wrt (\<lambda>x y. region (fst x) \<inter> region (fst y) = {})
      (map (\<lambda>child. (join_remote p (de_filename child), r @ [de_filename child])) (filter f es))"
    if "\<forall>e \<in> set es. remote_component_reason (de_filename e) = None" "distinct (map de_filename es)" for f es
    using that
  proof (induction es)
    case (Cons e es)
    have "region (join_remote p (de_filename e)) \<inter> region (join_remote p (de_filename y)) = {}" if "y \<in> set es" for y
      using Cons.prems that by (intro regions_apart) auto
    then show ?case using Cons by auto
  qed simp
  then show ?thesis using g by (simp add: below_def visited_def Let_def)
qed

lemma children_regions:
  assumes names: "good_names d" and t: "ds_tree d p = Some entries"
    and st: "stacked n d None (below (visited d None p r entries)) = Some wss"
    and P: "P \<inter> region p = tree_paths (visited d None p r entries # concat wss)"
  shows "list_all2 (\<lambda>x w. P \<inter> region (fst x) = tree_paths w) (below (visited d None p r entries)) wss"
proof -
  let ?we = "visited d None p r entries"
  have good: "remote_component_reason (de_filename e) = None" if "e \<in> set (visible entries)" for e
    using names t that by (auto simp: good_names_def)
  have inj: "inj_on de_filename (set (visible entries))" using names t by (auto simp: good_names_def distinct_map)
  have dirs: "set (we_directories ?we) \<subseteq> set (visible entries)" by (auto simp: visited_def Let_def)
  have len: "length (below ?we) = length wss" using st unfolding those_Some by (metis length_map)
  have nth: "preorder n d None (fst (below ?we ! i)) (snd (below ?we ! i)) = Some (wss ! i)" if "i < length wss" for i
    using st that len unfolding those_Some by (metis (mono_tags, lifting) case_prod_unfold nth_map)
  have apart: "region (fst (below ?we ! i)) \<inter> region (fst (below ?we ! j)) = {}" if "i < length wss" "j < length wss" "i \<noteq> j" for i j
  proof (cases "i < j")
    case True
    then show ?thesis using sorted_wrt_nth_less [OF below_apart [OF names t]] that len by metis
  next
    case False
    then show ?thesis using sorted_wrt_nth_less [OF below_apart [OF names t], of j i] that len by (auto simp: Int_commute)
  qed
  have inside: "tree_paths (wss ! i) \<subseteq> region (fst (below ?we ! i))" if "i < length wss" for i
    by (rule tree_paths_inside [OF names nth [OF that]])
  have "P \<inter> region (fst (below ?we ! i)) = tree_paths (wss ! i)" if i: "i < length wss" for i
  proof
    have "we_directories ?we ! i \<in> set (we_directories ?we)" "fst (below ?we ! i) = join_remote p (de_filename (we_directories ?we ! i))"
      using i len by (simp_all add: below_def)
    then obtain e where e: "e \<in> set (we_directories ?we)" "fst (below ?we ! i) = join_remote p (de_filename e)" by blast
    then have reg: "region (join_remote p (de_filename e)) \<subseteq> region p"
      using inside_below_child [OF good] dirs by (auto simp: region_def)
    show "tree_paths (wss ! i) \<subseteq> P \<inter> region (fst (below ?we ! i))"
    proof -
      have "wss ! i \<in> set wss" using i by simp
      then have "tree_paths (wss ! i) \<subseteq> P" using P by auto
      then show ?thesis using inside [OF i] by blast
    qed
    show "P \<inter> region (fst (below ?we ! i)) \<subseteq> tree_paths (wss ! i)"
    proof
      fix q assume q: "q \<in> P \<inter> region (fst (below ?we ! i))"
      then have "q \<in> set (entry_paths ?we) \<union> tree_paths (concat wss)" using P reg e by auto
      then show "q \<in> tree_paths (wss ! i)"
      proof
        assume "q \<in> tree_paths (concat wss)"
        then obtain j where j: "j < length wss" "q \<in> tree_paths (wss ! j)" by (auto simp: in_set_conv_nth)
        have "q \<in> region (fst (below ?we ! i)) \<inter> region (fst (below ?we ! j))" using inside [OF j(1)] j(2) q by blast
        then have "i = j" using apart [OF i j(1)] by blast
        then show ?thesis using j(2) by simp
      next
        assume "q \<in> set (entry_paths ?we)"
        then consider "q = p" | "q \<in> set (own_paths ?we)" by (auto simp: entry_paths_def)
        then show ?thesis
        proof cases
          case 1
          then have "inside p p" using inside_below_child [OF good] q e dirs by (metis IntD2 subsetD)
          then show ?thesis by (simp add: inside_def)
        next
          case 2
          then obtain f where f: "f \<in> set (visible entries)" "q = join_remote p (de_filename f)" "f \<notin> set (we_directories ?we)"
            using own_paths_shape(2) [OF names t] by blast
          then have "de_filename f \<noteq> de_filename e" using inj e dirs by (metis inj_onD subsetD)
          then have "region (join_remote p (de_filename f)) \<inter> region (join_remote p (de_filename e)) = {}"
            using regions_apart good f e dirs by blast
          then show ?thesis using q f e by (auto simp: region_def)
        qed
      qed
    qed
  qed
  then show ?thesis using len by (simp add: list_all2_conv_all_nth)
qed

lemma goes_remove_tree:
  assumes server: "removes c up present leaf" and names: "good_names d"
  shows "preorder n d None p r = Some ws \<Longrightarrow> prefix [47] p \<Longrightarrow> paths_kept_apart leaf ws \<Longrightarrow>
      holding up present P (se_world s) \<Longrightarrow> P \<inter> region p = tree_paths ws \<Longrightarrow>
      goes (each (remove_entry c) (rev ws)) s (Inr ()) (holding up present (P - tree_paths ws))"
proof (induction n arbitrary: p r ws P s)
  case (Suc n)
  obtain m entries wss where m: "Suc n = Suc m" and t: "ds_tree d p = Some entries"
    and ws: "ws = visited d None p r entries # concat wss"
    and b: "stacked m d None (below (visited d None p r entries)) = Some wss"
    by (rule preorder_SucD [OF Suc.prems(1)])
  let ?we = "visited d None p r entries"
  have st: "stacked n d None (below ?we) = Some wss" using b m by simp
  have good: "remote_component_reason (de_filename e) = None" if "e \<in> set (visible entries)" for e
    using names t that by (auto simp: good_names_def)
  have inj: "inj_on de_filename (set (visible entries))" using names t by (auto simp: good_names_def distinct_map)
  have dirs: "set (we_directories ?we) \<subseteq> set (visible entries)" by (auto simp: visited_def Let_def)
  have child: "\<exists>e \<in> set (we_directories ?we). q \<in> region (join_remote p (de_filename e))" if q: "q \<in> tree_paths (concat wss)" for q
  proof -
    obtain w where w: "w \<in> set wss" "q \<in> tree_paths w" using q by auto
    then have "Some w \<in> (\<lambda>(q, r). preorder n d None q r) ` set (below ?we)" using st unfolding those_Some by (metis imageI list.set_map)
    then obtain e where "e \<in> set (we_directories ?we)" "preorder n d None (join_remote p (de_filename e)) (r @ [de_filename e]) = Some w"
      by (auto simp: below_def)
    then show ?thesis using tree_paths_inside [OF names] w by blast
  qed
  have whole: "tree_paths ws = set (entry_paths ?we) \<union> tree_paths (concat wss)" using ws by simp
  have rooted: "prefix [47] (join_remote p name)" for name by (rule prefix_join_remote [OF Suc.prems(2)])
  have child_P: "list_all2 (\<lambda>x w. P \<inter> region (fst x) = tree_paths w) (below ?we) wss"
    by (rule children_regions [OF names t st Suc.prems(5) [unfolded ws]])
  have apart: "sorted_wrt (\<lambda>x y. region (fst x) \<inter> region (fst y) = {}) (below ?we)"
    by (rule below_apart [OF names t])
  have kids: "goes (each (remove_entry c) (rev (concat wss))) s (Inr ()) (holding up present (P - tree_paths (concat wss)))"
    by (rule goes_remove_children [OF Suc.IH names st _ apart _ Suc.prems(4) child_P])
       (use Suc.prems(3) rooted ws in \<open>auto simp: below_def paths_kept_apart_def\<close>)
  have own_out: "set (own_paths ?we) \<inter> tree_paths (concat wss) = {}"
  proof (rule ccontr)
    assume "\<not> ?thesis"
    then obtain q where q: "q \<in> set (own_paths ?we)" "q \<in> tree_paths (concat wss)" by auto
    obtain e where e: "e \<in> set (visible entries)" "q = join_remote p (de_filename e)" "e \<notin> set (we_directories ?we)"
      using own_paths_shape(2) [OF names t q(1)] by blast
    obtain f where f: "f \<in> set (we_directories ?we)" "q \<in> region (join_remote p (de_filename f))" using child [OF q(2)] by blast
    have "de_filename e \<noteq> de_filename f" using inj e f dirs by (metis inj_onD subsetD)
    then have "region (join_remote p (de_filename e)) \<inter> region (join_remote p (de_filename f)) = {}"
      using regions_apart good e f dirs by blast
    then show False using f(2) e(2) by (auto simp: region_def)
  qed
  have p_out: "p \<notin> tree_paths (concat wss)"
  proof
    assume "p \<in> tree_paths (concat wss)"
    then obtain f where "f \<in> set (we_directories ?we)" "p \<in> region (join_remote p (de_filename f))" using child by blast
    then have "inside p p" using inside_below_child good dirs by blast
    then show False by (simp add: inside_def)
  qed
  have sub: "set (entry_paths ?we) \<subseteq> P" using Suc.prems(5) whole by auto
  have left: "\<forall>q \<in> P - tree_paths (concat wss) - set (own_paths ?we). \<not> inside p q"
  proof (intro ballI notI)
    fix q assume q: "q \<in> P - tree_paths (concat wss) - set (own_paths ?we)" and i: "inside p q"
    then have "q \<in> tree_paths ws" using Suc.prems(5) by (auto simp: region_def)
    then have "q = p" using q whole by (auto simp: entry_paths_def)
    then show False using i by (simp add: inside_def)
  qed
  have eq: "P - tree_paths (concat wss) - set (entry_paths ?we) = P - tree_paths ws" using whole by auto
  have "goes (andthen (each (remove_entry c) (rev (concat wss))) (\<lambda>_. andthen (remove_entry c ?we) (\<lambda>_. give ()))) s (Inr ())
      (holding up present (P - tree_paths ws))"
  proof (rule goes_andthen [OF kids])
    fix w assume w: "holding up present (P - tree_paths (concat wss)) w"
    have "goes (remove_entry c ?we) (s\<lparr>se_world := w\<rparr>) (Inr ()) (holding up present (P - tree_paths (concat wss) - set (entry_paths ?we)))"
    proof (rule goes_remove_entry [OF server _ own_paths_shape(1) [OF names t]])
      show "\<forall>q \<in> set (entry_paths ?we). prefix [47] q"
        using own_paths_shape(2) [OF names t] rooted Suc.prems(2) by (auto simp: entry_paths_def)
    qed (use w sub own_out p_out left Suc.prems(3) ws in \<open>auto simp: paths_kept_apart_def entry_paths_def\<close>)
    then show "goes (andthen (remove_entry c ?we) (\<lambda>_. give ())) (s\<lparr>se_world := w\<rparr>) (Inr ()) (holding up present (P - tree_paths ws))"
      unfolding eq by (rule goes_andthen) (simp add: goes_give)
  qed
  then show ?case by (simp add: ws each_append)
qed simp

text \<open>
  C32. On a server that lists its directories truthfully and removes what it is asked to remove - a
  name that is no directory, or a directory with nothing in it any more - \<open>rmtree\<close> of a tree of
  finite depth returns, removes exactly what the tree holds and the tree itself, asks for the removal
  of no directory before everything in it is gone, follows no link, and counts what it removed.
\<close>

theorem rmtree_removes_the_tree:
  assumes lists: "lists_directories c d" "scans_fit d scan_fuel" "good_names d"
    and state: "ds_ok d = (\<lambda>w. up w \<and> present w = P)" "up (se_world s)" "present (se_world s) = P"
    and removal: "removes c up present leaf"
    and tree: "preorder n d None path [] = Some entries" "paths_kept_apart leaf entries" "P \<inter> region path = tree_paths entries"
    and rooted: "prefix [47] path" and fuel: "length entries \<le> fuel"
  shows "\<exists>w t. rmtree fuel scan_fuel c (BytesValue path) s =
      (Inr (Some \<lparr>tr_files = sum_list (map (\<lambda>we. length (own_paths we)) entries), tr_directories = length entries,
                  tr_transferred = 0, tr_skipped = []\<rparr>), s\<lparr>se_world := w\<rparr>, t) \<and>
      up w \<and> present w = P - tree_paths entries"
proof -
  have loop: "goes (walk_loop fuel scan_fuel c None [(path, [])] collecting []) s (Inr (Some ([] @ concat [entries])))
          (same_handles d (ds_left d (se_world s)))"
    by (rule goes_walk_loop [OF lists(1,2), where n = n]) (use state tree(1) rooted fuel in \<open>simp_all add: same_handles_def\<close>)
  have walk: "goes (walking fuel scan_fuel c (BytesValue path) None collecting []) s (Inr (Some entries)) (holding up present P)"
    unfolding walking_def require_rooted_paths_def
    by (rule goes_resolved [OF rooted], simp add: rooted, rule goes_weaken [OF loop [simplified]])
       (simp add: same_handles_def holding_def state(1))
  have counts: "length (we_files we) + length (we_skipped we) = length (own_paths we)" for we by (simp add: own_paths_def)
  have "goes (rmtree fuel scan_fuel c (BytesValue path)) s
      (Inr (Some \<lparr>tr_files = sum_list (map (\<lambda>we. length (own_paths we)) entries), tr_directories = length entries,
                  tr_transferred = 0, tr_skipped = []\<rparr>)) (holding up present (P - tree_paths entries))"
    unfolding rmtree_def counts
  proof (rule goes_resolved [OF rooted], rule goes_andthen [OF walk], simp)
    fix w assume w: "holding up present P w"
    have "goes (each (remove_entry c) (rev entries)) (s\<lparr>se_world := w\<rparr>) (Inr ()) (holding up present (P - tree_paths entries))"
      by (rule goes_remove_tree [OF removal lists(3) tree(1) rooted tree(2) _ tree(3)]) (simp add: w)
    then show "goes (andthen (each (remove_entry c) (rev entries)) (\<lambda>_. give (Some \<lparr>tr_files = sum_list (map (\<lambda>we. length (own_paths we)) entries),
          tr_directories = length entries, tr_transferred = 0, tr_skipped = []\<rparr>))) (s\<lparr>se_world := w\<rparr>)
        (Inr (Some \<lparr>tr_files = sum_list (map (\<lambda>we. length (own_paths we)) entries), tr_directories = length entries,
                  tr_transferred = 0, tr_skipped = []\<rparr>)) (holding up present (P - tree_paths entries))"
      by (rule goes_andthen) (simp add: goes_give)
  qed
  then show ?thesis by (auto simp: goes_def holding_def)
qed

section \<open>A small server\<close>

text \<open>Two directories, a link and an entry without attributes; the listing of a directory comes one name at a time.\<close>

record small_world =
  sw_handles :: nat
  sw_open :: "bytes \<Rightarrow> dir_entry list option"
  sw_present :: "bytes set"

definition with_mode :: "string \<Rightarrow> int option \<Rightarrow> dir_entry" where
  "with_mode name m = \<lparr>de_filename = ascii name, de_longname = [], de_attrs = EMPTY_ATTRS\<lparr>a_permissions := m\<rparr>\<rparr>"

definition small_tree :: "bytes \<Rightarrow> dir_entry list option" where
  "small_tree p =
     (if p = ascii ''/a'' then Some [with_mode ''.'' None, with_mode ''f'' (Some 33188), with_mode ''b'' (Some 16877),
                                    with_mode ''l'' (Some 41471), with_mode ''u'' None]
      else if p = ascii ''/a/b'' then Some [with_mode ''g'' (Some 33188)] else None)"

definition small_facts :: "bytes \<Rightarrow> status_code + attrs" where
  "small_facts p = (if p = ascii ''/a/u'' then Inr (EMPTY_ATTRS\<lparr>a_permissions := Some 33188\<rparr>) else Inl FX_NO_SUCH_FILE)"

definition to_name_entry :: "dir_entry \<Rightarrow> name_entry" where
  "to_name_entry e = \<lparr>ne_filename = de_filename e, ne_longname = de_longname e, ne_attrs = de_attrs e\<rparr>"

definition small_handle :: "nat \<Rightarrow> bytes" where "small_handle n = replicate n 0"

definition small_reply :: "packet \<Rightarrow> small_world \<Rightarrow> packet \<times> small_world" where
  "small_reply p w =
     (case p of
        OpenDir i q \<Rightarrow>
          (case small_tree q of
             None \<Rightarrow> (Status i FX_NO_SUCH_FILE [] [] None, w)
           | Some es \<Rightarrow> (Handle i (small_handle (sw_handles w)),
               w\<lparr>sw_handles := Suc (sw_handles w), sw_open := (sw_open w)(small_handle (sw_handles w) \<mapsto> es)\<rparr>))
      | ReadDir i h \<Rightarrow>
          (case sw_open w h of
             None \<Rightarrow> (Status i FX_FAILURE [] [] None, w)
           | Some [] \<Rightarrow> (Status i FX_EOF [] [] None, w)
           | Some (e # es) \<Rightarrow> (Name i [to_name_entry e], w\<lparr>sw_open := (sw_open w)(h \<mapsto> es)\<rparr>))
      | Close i h \<Rightarrow> (Status i FX_OK [] [] None, w\<lparr>sw_open := (sw_open w)(h := None)\<rparr>)
      | LStat i q \<Rightarrow> ((case small_facts q of Inr a \<Rightarrow> AttrsReply i a | Inl code \<Rightarrow> Status i code [] [] None), w)
      | Remove i q \<Rightarrow> (Status i FX_OK [] [] None, w\<lparr>sw_present := sw_present w - {q}\<rparr>)
      | RmDir i q \<Rightarrow> (Status i FX_OK [] [] None, w\<lparr>sw_present := sw_present w - {q}\<rparr>)
      | _ \<Rightarrow> (Status 0 FX_FAILURE [] [] None, w))"

definition small_server :: "small_world connection" where
  "small_server =
     \<lparr>co_next = (\<lambda>w. (Inr 1, w)), co_round_trip = (\<lambda>p w. case small_reply p w of (r, w') \<Rightarrow> (Some (Inr r), w')),
      co_extensions = [], co_read_range = (\<lambda>h ofs n w. (Inr [], w)), co_write_range = (\<lambda>h d ofs w. (Inr 0, w))\<rparr>"

definition small_up :: "small_world \<Rightarrow> bool" where
  "small_up w \<longleftrightarrow> (\<forall>h. sw_open w h \<noteq> None \<longrightarrow> length h < sw_handles w)"

definition small_directories :: "bytes set \<Rightarrow> small_world directory_server" where
  "small_directories P =
     \<lparr>ds_ok = (\<lambda>w. small_up w \<and> sw_present w = P), ds_left = sw_open, ds_tree = small_tree, ds_facts = small_facts\<rparr>"

definition small_paths :: "bytes list" where
  "small_paths = map ascii [''/a'', ''/a/f'', ''/a/u'', ''/a/l'', ''/a/b'', ''/a/b/g'']"

definition small_start :: "small_world session" where
  "small_start = new_session \<lparr>sw_handles = 0, sw_open = (\<lambda>_. None), sw_present = insert (ascii ''/ab'') (set small_paths)\<rparr>"

lemmas small_defs = small_server_def small_directories_def small_reply_def small_up_def same_handles_def

lemma small_fresh: "small_up w \<Longrightarrow> sw_open w (small_handle (sw_handles w)) = None"
  by (auto simp: small_up_def small_handle_def)

lemma small_lists: "lists_directories small_server (small_directories P)"
proof -
  have "opens small_server (small_directories P)"
    unfolding opens_def by (auto simp: small_defs small_fresh [unfolded small_up_def] small_handle_def less_Suc_eq)
  moreover have "reads small_server (small_directories P)"
    unfolding reads_def
  proof (intro allI impI)
    fix w i h es assume w: "ds_ok (small_directories P) w \<and> ds_left (small_directories P) w h = Some es"
    have undo: "from_name_entry (to_name_entry e) = e" for e by (simp add: from_name_entry_def to_name_entry_def)
    show "\<exists>batch rest w'. es = map from_name_entry batch @ rest \<and> (batch = [] \<longrightarrow> rest = []) \<and>
        (co_round_trip small_server (ReadDir i h) w = (Some (Inr (Name i batch)), w') \<or>
         batch = [] \<and> (\<exists>m l. co_round_trip small_server (ReadDir i h) w = (Some (Inr (Status i FX_EOF m l None)), w'))) \<and>
        same_handles (small_directories P) ((ds_left (small_directories P) w)(h \<mapsto> rest)) w'"
    proof (cases es)
      case Nil
      then show ?thesis using w by (intro exI [of _ "[]"] exI [of _ "[]"] exI [of _ w]) (auto simp: small_defs fun_upd_idem)
    next
      case (Cons e rest)
      then show ?thesis using w
        by (intro exI [of _ "[to_name_entry e]"] exI [of _ rest] exI [of _ "w\<lparr>sw_open := (sw_open w)(h \<mapsto> rest)\<rparr>"])
           (auto simp: small_defs undo)
    qed
  qed
  moreover have "closes small_server (small_directories P)" unfolding closes_def by (auto simp: small_defs)
  moreover have "lstats small_server (small_directories P)"
    unfolding lstats_def by (auto simp: small_defs small_facts_def split: sum.splits)
  moreover have "numbers small_server (small_directories P)" unfolding numbers_def by (auto simp: small_defs)
  ultimately show ?thesis by (simp add: lists_directories_def)
qed

lemma small_treeD:
  assumes "small_tree p = Some es"
  shows "length es < 6 \<and> list_all (\<lambda>e. remote_component_reason (de_filename e) = None) (visible es) \<and> distinct (map de_filename (visible es))"
proof -
  note defs = small_tree_def with_mode_def visible_def DOT_ENTRIES_def ascii_def remote_component_reason_def DOT_NAMES_def
  have "p = ascii ''/a'' \<or> p = ascii ''/a/b''" using assms by (simp add: small_tree_def split: if_splits)
  then show ?thesis
  proof
    assume "p = ascii ''/a''"
    then have "es = the (small_tree (ascii ''/a''))" using assms by simp
    then show ?thesis by (simp add: defs)
  next
    assume "p = ascii ''/a/b''"
    then have "es = the (small_tree (ascii ''/a/b''))" using assms by simp
    then show ?thesis by (simp add: defs)
  qed
qed

lemma small_listings: "scans_fit (small_directories P) 11" "good_names (small_directories P)"
  unfolding scans_fit_def good_names_def small_directories_def using small_treeD by (fastforce simp: list_all_iff)+

lemma small_removes: "removes small_server small_up sw_present (\<lambda>p. p \<notin> {ascii ''/a'', ascii ''/a/b''})"
  unfolding removes_def by (auto simp: small_defs)

text \<open>The tree alone, without the state of the server: this is what \<open>preorder\<close> is evaluated on.\<close>

definition small_listing :: "unit directory_server" where
  "small_listing = \<lparr>ds_ok = (\<lambda>_. True), ds_left = (\<lambda>_ _. None), ds_tree = small_tree, ds_facts = small_facts\<rparr>"

definition small_entries :: "nat option \<Rightarrow> walk_entry list" where
  "small_entries max_depth = the (preorder 2 small_listing max_depth (ascii ''/a'') [])"

lemma preorder_cong:
  assumes "ds_tree d = ds_tree d'" "ds_facts d = ds_facts d'"
  shows "preorder n d m p r = preorder n d' m p r"
proof (induction n arbitrary: p r)
  case (Suc n)
  have "settled d = settled d'" by (intro ext) (simp only: settled_def assms)
  then have "visited d m p r es = visited d' m p r es" for es by (simp only: visited_def)
  then show ?case by (simp only: preorder.simps(2) Suc.IH assms(1))
qed (simp only: preorder.simps(1))

lemma preorder_small: "preorder n (small_directories P) m p r = preorder n small_listing m p r"
  by (rule preorder_cong) (simp_all add: small_directories_def small_listing_def)

lemma small_preorder: "preorder 2 (small_directories P) None (ascii ''/a'') [] = Some (small_entries None)"
  unfolding preorder_small [of _ P] small_entries_def by code_simp

lemma small_apart: "paths_kept_apart (\<lambda>p. p \<notin> {ascii ''/a'', ascii ''/a/b''}) (small_entries None)"
  unfolding small_entries_def by code_simp

lemma small_tree_paths: "tree_paths (small_entries None) = set small_paths"
proof -
  have "map entry_paths (small_entries None) = [map ascii [''/a/f'', ''/a/u'', ''/a/l'', ''/a''], map ascii [''/a/b/g'', ''/a/b'']]"
    unfolding small_entries_def by code_simp
  then have "set (map entry_paths (small_entries None)) = {map ascii [''/a/f'', ''/a/u'', ''/a/l'', ''/a''], map ascii [''/a/b/g'', ''/a/b'']}" by simp
  then show ?thesis by (auto simp: tree_paths_def small_paths_def)
qed

lemma small_region: "insert (ascii ''/ab'') (set small_paths) \<inter> region (ascii ''/a'') = tree_paths (small_entries None)"
proof -
  have comps: "map split_components small_paths = [[[97]], [[97], [102]], [[97], [117]], [[97], [108]], [[97], [98]], [[97], [98], [103]]]"
    "split_components (ascii ''/ab'') = [[97, 98]]" "split_components (ascii ''/a'') = [[97]]" unfolding small_paths_def by code_simp+
  have "set small_paths \<subseteq> region (ascii ''/a'')"
    using comps by (auto simp: small_paths_def region_def inside_def strict_prefix_def)
  moreover have "ascii ''/ab'' \<notin> region (ascii ''/a'')" using comps by (simp add: region_def inside_def strict_prefix_def ascii_def)
  ultimately show ?thesis unfolding small_tree_paths by auto
qed

lemma rmtree_removes_the_tree_witness:
  "\<exists>w t. rmtree 2 11 small_server (BytesValue (ascii ''/a'')) small_start =
      (Inr (Some \<lparr>tr_files = 4, tr_directories = 2, tr_transferred = 0, tr_skipped = []\<rparr>), small_start\<lparr>se_world := w\<rparr>, t) \<and>
      small_up w \<and> sw_present w = {ascii ''/ab''}"
proof -
  let ?P = "insert (ascii ''/ab'') (set small_paths)"
  have n: "sum_list (map (\<lambda>we. length (own_paths we)) (small_entries None)) = 4" "length (small_entries None) = 2"
    unfolding small_entries_def by code_simp+
  have rest: "?P - tree_paths (small_entries None) = {ascii ''/ab''}" unfolding small_tree_paths by (auto simp: small_paths_def ascii_def)
  show ?thesis
    using rmtree_removes_the_tree [OF small_lists small_listings, of ?P small_up sw_present ?P small_start
        "\<lambda>p. p \<notin> {ascii ''/a'', ascii ''/a/b''}" 2 "ascii ''/a''" "small_entries None" 2]
      small_removes small_preorder small_apart small_region
    unfolding n rest by (simp add: small_directories_def small_start_def new_session_def small_up_def ascii_def)
qed

lemma walk_is_preorder_witness:
  "\<exists>w t. walking 2 11 small_server (BytesValue (ascii ''/a'')) (Some 0) (\<lambda>we seen. give (seen @ [we])) [] small_start =
       (Inr (Some (small_entries (Some 0))), small_start\<lparr>se_world := w\<rparr>, t) \<and>
     small_up w \<and> sw_open w = (\<lambda>_. None) \<and>
     map (\<lambda>we. map sk_reason (we_skipped we)) (small_entries (Some 0)) = [[TooDeep, SymlinkSkipped]] \<and>
     map (\<lambda>we. map de_filename (we_files we)) (small_entries (Some 0)) = [[ascii ''f'', ascii ''u'']]"
proof -
  let ?P = "insert (ascii ''/ab'') (set small_paths)"
  have shape: "map (\<lambda>we. map sk_reason (we_skipped we)) (small_entries (Some 0)) = [[TooDeep, SymlinkSkipped]] \<and>
     map (\<lambda>we. map de_filename (we_files we)) (small_entries (Some 0)) = [[ascii ''f'', ascii ''u'']]"
    unfolding small_entries_def by code_simp
  have pre: "preorder 2 (small_directories ?P) (Some 0) (ascii ''/a'') [] = Some (small_entries (Some 0))"
    unfolding preorder_small [of _ ?P] small_entries_def by code_simp
  have n: "length (small_entries (Some 0)) = 1" unfolding small_entries_def by code_simp
  show ?thesis
    using walk_is_preorder [OF small_lists small_listings(1) _ pre, of small_start 2] shape n
    by (simp add: small_directories_def small_start_def new_session_def small_up_def ascii_def) blast
qed

end
