(* ===== verification/MirrorProps.thy ===== *)
theory MirrorProps
  imports Mirror JournalProps RemovalLaws
begin

text \<open>
  What a mirror may rely on: a file is skipped on proof alone, the record survives an interrupted
  run, a second run over unchanged files moves nothing - and what the record gets wrong.
\<close>

section \<open>The record reads back\<close>

definition numbers_ok :: "manifest_entry \<Rightarrow> bool" where
  "numbers_ok e \<longleftrightarrow> short_int (mn_local_size e) \<and> short_int (mn_local_mtime e) \<and> short_int (mn_remote_size e) \<and> short_int (mn_remote_mtime e)"

definition manifest_document :: "str \<Rightarrow> manifest_entry \<Rightarrow> (str, field) dict" where
  "manifest_document target e =
     (text_of ''version'', NumberField (PyInt 2)) # (text_of ''target'', TextField target) # as_json e"

lemma manifest_line_document: "manifest_line target e = map of_nat (dumps (manifest_document target e)) @ [10]"
  by (simp add: manifest_line_def manifest_document_def as_json_def dict_set_def text_of_def MANIFEST_VERSION_def)

lemma manifest_document_ok: "path_text target \<Longrightarrow> numbers_ok e \<Longrightarrow> document_ok (manifest_document target e)"
  by (simp add: document_ok_def dict_wf_def manifest_document_def as_json_def field_ok_def numbers_ok_def text_of_path short_int_64)
     (simp add: text_of_def)

lemma fold_line_document:
  assumes "path_text target" "numbers_ok e" "0 < depth"
  shows "fold_line depth es (dumps (manifest_document target e)) = Inr (dict_set es target e)"
proof -
  obtain ms where ms: "loads depth (dumps (manifest_document target e)) = Inr (JObj ms)"
      "\<And>k. dict_get ms k = map_option json_of_field (dict_get (manifest_document target e) k)"
    using loads_dumps_get [OF manifest_document_ok [OF assms(1,2)] assms(3)] by blast
  have g: "dict_get ms (text_of ''version'') = Some (JInt 2)" "dict_get ms (text_of ''target'') = Some (JStr target)"
      "dict_get ms (text_of ''local_size'') = Some (JInt (mn_local_size e))" "dict_get ms (text_of ''local_mtime'') = Some (JInt (mn_local_mtime e))"
      "dict_get ms (text_of ''remote_size'') = Some (JInt (mn_remote_size e))" "dict_get ms (text_of ''remote_mtime'') = Some (JInt (mn_remote_mtime e))"
    by (simp_all only: ms(2)) (simp_all add: manifest_document_def as_json_def dict_get_def text_of_def)
  show ?thesis by (simp add: fold_line_def ms(1) g text_field_def from_json_def whole_number_def equals_two_def) (cases e, simp)
qed

definition manifest_lines :: "(str \<times> manifest_entry) list \<Rightarrow> bytes" where
  "manifest_lines items = concat (map (\<lambda>(key, e). manifest_line key e) items)"

definition items_ok :: "(str \<times> manifest_entry) list \<Rightarrow> bool" where
  "items_ok items \<longleftrightarrow> list_all (\<lambda>(key, e). path_text key \<and> numbers_ok e) items"

lemma complete_manifest_line [simp]: "complete (manifest_line key e)"
  by (simp add: manifest_line_document complete_def)

lemma complete_manifest_lines [simp]: "complete (manifest_lines items)"
  by (induction items) (auto simp: manifest_lines_def)

lemma fold_lines_append:
  "fold_lines depth es (xs @ ys) = bind_sum (fold_lines depth es xs) (\<lambda>es'. fold_lines depth es' ys)"
  by (induction xs arbitrary: es) (auto simp: bind_sum_def split: sum.splits)

definition set_all :: "('k, 'v) dict \<Rightarrow> ('k \<times> 'v) list \<Rightarrow> ('k, 'v) dict" where
  "set_all es items = foldl (\<lambda>es (key, e). dict_set es key e) es items"

lemma set_all_simps [simp]: "set_all es [] = es" "set_all es ((k, e) # items) = set_all (dict_set es k e) items"
  by (simp_all add: set_all_def)

lemma get_set_all: "dict_get (set_all es items) k = (case map_of (rev items) k of None \<Rightarrow> dict_get es k | Some e \<Rightarrow> Some e)"
proof (induction items arbitrary: es)
  case (Cons x items)
  obtain k' e where "x = (k', e)" by fastforce
  then show ?case using Cons [of "dict_set es k' e"] by (auto simp: map_add_def split: option.splits)
qed simp

lemma fold_manifest_lines:
  assumes "items_ok items" "0 < depth"
  shows "fold_lines depth es (log_lines (manifest_lines items)) = Inr (set_all es items)"
  using assms(1)
proof (induction items arbitrary: es)
  case (Cons x items)
  obtain k e where x: "x = (k, e)" by fastforce
  have "log_lines (manifest_lines (x # items)) = dumps (manifest_document k e) # log_lines (manifest_lines items)"
    using log_lines_append [of "manifest_line k e" "manifest_lines items"]
    by (simp add: manifest_lines_def x) (simp add: manifest_line_document log_lines_dumps)
  then show ?case using Cons x assms(2) by (simp add: items_ok_def fold_line_document)
qed (simp add: manifest_lines_def)

lemma fold_torn:
  assumes "path_text key" "numbers_ok e" "0 < depth"
  shows "fold_lines depth es (log_lines (take n (manifest_line key e))) =
    Inr (if n < length (manifest_line key e) - 1 then es else dict_set es key e)"
proof -
  let ?d = "dumps (manifest_document key e)"
  have len: "length (manifest_line key e) = Suc (length ?d)" by (simp add: manifest_line_document)
  consider (cut) "n < length ?d" | (bare) "n = length ?d" | (whole) "length ?d < n" by linarith
  then show ?thesis
  proof cases
    case cut
    then have t: "take n (manifest_line key e) = map of_nat (take n ?d)" by (simp add: manifest_line_document take_map)
    have p: "list_all printable (take n ?d)" using dumps_printable [of "manifest_document key e"] by (auto simp: list_all_iff dest: in_set_takeD)
    have "take n ?d \<noteq> ?d" using cut by (metis length_take min.absorb4 less_irrefl)
    then have "loads depth (take n ?d) = Inl NotJson"
      using dumps_cut [OF manifest_document_ok [OF assms(1,2)] assms(3), of "take n ?d"] by (simp add: take_is_prefix)
    then show ?thesis using cut len by (simp add: t log_lines_plain [OF p] fold_line_def)
  next
    case bare
    then have t: "take n (manifest_line key e) = map of_nat ?d" by (simp add: manifest_line_document)
    have "?d \<noteq> []" by (simp add: dumps_def)
    then have "log_lines (take n (manifest_line key e)) = [?d]" using t log_lines_plain [OF dumps_printable] by simp
    then show ?thesis using bare len fold_line_document [OF assms] by simp
  next
    case whole
    then have "take n (manifest_line key e) = manifest_line key e" using len by simp
    then show ?thesis using whole len fold_line_document [OF assms] by (simp add: manifest_line_document log_lines_dumps)
  qed
qed

lemma set_all_ok:
  assumes "items_ok items" shows "items_ok (set_all [] items) \<and> dict_wf (set_all [] items)"
proof -
  have "items_ok (set_all es items) \<and> dict_wf (set_all es items)" if "items_ok es" "dict_wf es" for es
    using assms that
  proof (induction items arbitrary: es)
    case (Cons x items)
    obtain k e where x: "x = (k, e)" by fastforce
    have "items_ok (AList.update k e d)" if "items_ok d" for d
      using that Cons.prems(1) x unfolding items_ok_def by (induction d) auto
    then have "items_ok (dict_set es k e)" using Cons.prems(2) by (simp add: dict_set_def)
    then show ?case using Cons x by (simp add: items_ok_def)
  qed simp
  then show ?thesis by (simp add: items_ok_def dict_wf_def)
qed

lemma map_of_rev_distinct: "distinct (map fst xs) \<Longrightarrow> map_of (rev xs) k = map_of xs k"
proof (induction xs)
  case (Cons x xs)
  then have "map_of xs (fst x) = None" by (simp add: map_of_eq_None_iff)
  then show ?case using Cons by (cases x) (auto simp: map_add_def split: option.split)
qed simp

text \<open>What a run knows after recording these files in this order.\<close>

definition recorded_all :: "(bytes \<times> manifest_entry) list \<Rightarrow> manifest" where
  "recorded_all records = foldl (\<lambda>m (p, e). record_entry m p e) [] records"

definition line_of :: "bytes \<times> manifest_entry \<Rightarrow> bytes" where "line_of r = manifest_line (decode_name (fst r)) (snd r)"

lemma recorded_all_items: "recorded_all records = set_all [] (map (\<lambda>(p, e). (decode_name p, e)) records)"
proof -
  have "foldl (\<lambda>m (p, e). record_entry m p e) m records = set_all m (map (\<lambda>(p, e). (decode_name p, e)) records)" for m
    by (induction records arbitrary: m) (auto simp: record_entry_def)
  then show ?thesis by (simp add: recorded_all_def)
qed

lemma map_of_decoded:
  fixes records :: "(bytes \<times> 'v) list"
  shows "map_of (rev (map (\<lambda>(p, e). (decode_name p, e)) records)) (decode_name t) = map_of (rev records) t"
proof -
  have "map_of (map (\<lambda>(p, e). (decode_name p, e)) xs) (decode_name t) = map_of xs t" for xs :: "(bytes \<times> 'v) list"
    by (induction xs) auto
  then show ?thesis by (simp add: rev_map)
qed

text \<open>
  C34. The record of a mirror survives being interrupted. The file that an earlier run left - rewritten
  at its end from what it knew, in the order of the names - followed by one line for each file that
  has landed since and by the first \<open>n\<close> bytes of the line of one more, folds without an error, and says
  of every remote path what was recorded of it last, the torn line counting once its document is whole.
\<close>

theorem manifest_survives_interruption:
  assumes ok: "list_all (\<lambda>(p, e). numbers_ok e) (earlier @ landed @ [last_one])" and depth: "0 < depth"
  shows "\<exists>m. fold_manifest depth (Some (manifest_payload (recorded_all earlier) @ concat (map line_of landed) @ take n (line_of last_one))) = Inr m \<and>
    (\<forall>t. recorded_entry m t =
       map_of (rev (earlier @ landed @ (if n < length (line_of last_one) - 1 then [] else [last_one]))) t)"
proof -
  let ?key = "\<lambda>(p, e). (decode_name p, e)"
  obtain q e where last_one: "last_one = (q, e)" by fastforce
  let ?m0 = "recorded_all earlier"
  have "items_ok (map ?key (earlier @ landed))" using ok by (auto simp: items_ok_def list_all_iff)
  then have landed_ok: "items_ok (map ?key landed)" and earlier_ok: "items_ok (map ?key earlier)" by (simp_all add: items_ok_def)
  have m0: "items_ok ?m0" "dict_wf ?m0"
    unfolding recorded_all_items using set_all_ok [OF earlier_ok] by blast+
  have sorted_ok: "items_ok (sort_key fst ?m0)" using m0(1) by (simp add: items_ok_def list_all_iff)
  let ?m1 = "set_all [] (sort_key fst ?m0)" and ?rest = "take n (line_of last_one)"
  have get1: "dict_get ?m1 k = dict_get ?m0 k" for k
  proof -
    have "distinct (map fst (sort_key fst ?m0))" using m0(2) unfolding dict_wf_def by (metis distinct_map distinct_sort set_sort)
    then show ?thesis using sorted_get [OF m0(2), of k] by (simp add: get_set_all map_of_rev_distinct split: option.split)
  qed
  let ?m2 = "set_all ?m1 (map ?key landed)"
  have payload: "manifest_payload ?m0 = manifest_lines (sort_key fst ?m0)" by (simp add: manifest_payload_def manifest_lines_def)
  have lines: "concat (map line_of landed) = manifest_lines (map ?key landed)"
    by (simp add: manifest_lines_def comp_def case_prod_unfold line_of_def [abs_def])
  let ?m3 = "if n < length (line_of last_one) - 1 then ?m2 else dict_set ?m2 (decode_name q) e"
  have "fold_manifest depth (Some (manifest_payload ?m0 @ concat (map line_of landed) @ ?rest)) =
      fold_lines depth [] (log_lines (manifest_lines (sort_key fst ?m0)) @ log_lines (manifest_lines (map ?key landed)) @ log_lines ?rest)"
    unfolding payload lines by (simp add: fold_manifest_def log_lines_append flip: log_lines_def)
  also have "\<dots> = fold_lines depth ?m2 (log_lines ?rest)"
    by (simp add: fold_lines_append fold_manifest_lines [OF sorted_ok depth] fold_manifest_lines [OF landed_ok depth])
  also have "\<dots> = Inr ?m3"
    using fold_torn [of "decode_name q" e depth ?m2 n] ok depth by (simp add: last_one line_of_def)
  finally have "fold_manifest depth (Some (manifest_payload ?m0 @ concat (map line_of landed) @ ?rest)) = Inr ?m3" .
  moreover have "recorded_entry ?m3 t = map_of (rev (earlier @ landed @ (if n < length (line_of last_one) - 1 then [] else [last_one]))) t" for t
  proof -
    have "dict_get ?m2 (decode_name t) = map_of (rev (earlier @ landed)) t"
    proof -
      have "dict_get ?m0 (decode_name t) = map_of (rev earlier) t"
        by (simp add: recorded_all_items get_set_all map_of_decoded split: option.split)
      then show ?thesis by (simp only: get_set_all [of ?m1] get1 map_of_decoded) (simp add: map_add_def split: option.split)
    qed
    then show ?thesis by (simp add: recorded_entry_def last_one)
  qed
  ultimately show ?thesis by blast
qed

lemma manifest_survives_interruption_witness:
  "\<exists>m. fold_manifest 1 (Some (manifest_payload (recorded_all [([98], \<lparr>mn_local_size = 1, mn_local_mtime = 2, mn_remote_size = 1, mn_remote_mtime = 9\<rparr>)]) @
        concat (map line_of [([97], \<lparr>mn_local_size = 3, mn_local_mtime = 4, mn_remote_size = 3, mn_remote_mtime = 9\<rparr>)]) @
        take 7 (line_of ([98], \<lparr>mn_local_size = 5, mn_local_mtime = 6, mn_remote_size = 5, mn_remote_mtime = 9\<rparr>)))) = Inr m \<and>
     map (recorded_entry m) [[97], [98], [99]] =
       [Some \<lparr>mn_local_size = 3, mn_local_mtime = 4, mn_remote_size = 3, mn_remote_mtime = 9\<rparr>,
        Some \<lparr>mn_local_size = 1, mn_local_mtime = 2, mn_remote_size = 1, mn_remote_mtime = 9\<rparr>, None]"
proof -
  let ?b = "([98 :: byte], \<lparr>mn_local_size = 1, mn_local_mtime = 2, mn_remote_size = 1, mn_remote_mtime = 9\<rparr>)"
  let ?a = "([97 :: byte], \<lparr>mn_local_size = 3, mn_local_mtime = 4, mn_remote_size = 3, mn_remote_mtime = 9\<rparr>)"
  let ?c = "([98 :: byte], \<lparr>mn_local_size = 5, mn_local_mtime = 6, mn_remote_size = 5, mn_remote_mtime = 9\<rparr>)"
  have ok: "list_all (\<lambda>(p, e). numbers_ok e) ([?b] @ [?a] @ [?c])" by (simp add: numbers_ok_def short_int_64)
  have long: "7 < length (line_of ?c) - 1" by code_simp
  from manifest_survives_interruption [OF ok, of 1 7] long show ?thesis by auto
qed

section \<open>One transfer\<close>

definition steady :: "('w \<Rightarrow> bool) \<Rightarrow> ('a, 'w session) prog \<Rightarrow> 'a \<Rightarrow> ('w \<Rightarrow> bool) \<Rightarrow> bool" where
  "steady P m x Q \<longleftrightarrow> (\<forall>s. P (se_world s) \<longrightarrow> goes m s (Inr x) Q)"

lemma steadyD: "steady P m x Q \<Longrightarrow> P (se_world s) \<Longrightarrow> goes m s (Inr x) Q"
  by (simp add: steady_def)

lemma steady_andthen: "steady P m x Q \<Longrightarrow> steady Q (f x) y R \<Longrightarrow> steady P (andthen m f) y R"
  unfolding steady_def by (auto intro!: goes_andthen)

lemma steady_give: "(\<And>w. P w \<Longrightarrow> Q w) \<Longrightarrow> steady P (give x) x Q"
  by (simp add: steady_def goes_give)

text \<open>What a transfer records: the local file as it is after the upload, and the remote one as it landed.\<close>

definition entry_after :: "local_stat \<Rightarrow> attrs \<Rightarrow> manifest_entry" where
  "entry_after st landed =
     \<lparr>mn_local_size = st_size st, mn_local_mtime = st_mtime st,
      mn_remote_size = the (a_size landed), mn_remote_mtime = mtime (the (a_times landed))\<rparr>"

definition reported :: "attrs \<Rightarrow> bool" where "reported a \<longleftrightarrow> a_size a \<noteq> None \<and> a_times a \<noteq> None"

lemma transfer_records:
  assumes "steady P (put source remote) moved P1" "steady P1 (stat_path c (BytesValue remote)) landed P2"
    "steady P2 (stat_local fs source) st P3" "reported landed" "\<And>e. steady P3 (on_files (append_manifest_record fo remote e)) () P4"
  shows "steady P (sync_transfer c fs fo put source remote verdict ms)
    \<lparr>ms_recorded = record_entry (ms_recorded ms) remote (entry_after st landed),
     ms_outcomes = ms_outcomes ms @ [\<lparr>so_remote_path = remote, so_decision = cp_decision verdict, so_reason = cp_reason verdict, so_transferred = moved\<rparr>]\<rparr> P4"
proof -
  obtain n t where l: "a_size landed = Some n" "a_times landed = Some t" using assms(4) by (auto simp: reported_def)
  have entry: "steady P2 (manifest_entry_for fs source landed) (Some (entry_after st landed)) P3"
  proof -
    have eq: "\<lparr>mn_local_size = st_size st, mn_local_mtime = mtime (times_from_stat st), mn_remote_size = n, mn_remote_mtime = mtime t\<rparr> = entry_after st landed"
      by (simp add: entry_after_def l times_from_stat_def)
    show ?thesis unfolding manifest_entry_for_def l option.case prod.case
      by (rule steady_andthen [OF assms(3)]) (simp add: eq steady_give)
  qed
  show ?thesis unfolding sync_transfer_def
    apply (rule steady_andthen [OF assms(1)])
    apply (simp only: andthen_give)
    apply (rule steady_andthen [OF assms(2)])
    apply (rule steady_andthen [OF entry])
    apply (simp only: option.case)
    apply (rule steady_andthen [OF assms(5)])
    by (cases ms) (simp add: steady_give)
qed

lemma entry_matches_itself:
  assumes "reported landed" "a_size a = a_size landed" "a_times a \<noteq> None" "mtime (the (a_times a)) = mtime (the (a_times landed))"
  shows "compare_for_sync (de_attrs (local_dir_entry name st)) (Some a) (Some (entry_after st landed)) =
    \<lparr>cp_decision = SkippedAsIdentical, cp_reason = Identical\<rparr>"
  using assms by (auto simp: compare_for_sync_def local_side_def remote_side_def local_dir_entry_def entry_after_def reported_def times_from_stat_def)

section \<open>A second run\<close>

definition sync_target :: "bytes \<Rightarrow> bytes \<Rightarrow> bytes" where "sync_target remote_dir name = join_remote remote_dir name"

definition verdict_for :: "(bytes \<Rightarrow> local_stat) \<Rightarrow> (bytes, attrs) dict \<Rightarrow> bytes \<Rightarrow> manifest \<Rightarrow> bytes \<Rightarrow> comparison" where
  "verdict_for st present remote_dir recorded name =
     compare_for_sync (de_attrs (local_dir_entry name (st name))) (dict_get present name) (recorded_entry recorded (join_remote remote_dir name))"

text \<open>
  The files and what the run is told of them. \<open>ok sent w\<close> describes a world in which the files \<open>sent\<close>
  have been sent by this run: the local file answers the same whenever it is asked, an upload makes
  its file a sent one, and only of a file that has been sent is anything said about the remote side,
  namely that it answers as what landed.
\<close>

definition files_answer ::
    "(bytes set \<Rightarrow> 'w \<Rightarrow> bool) \<Rightarrow> 'w connection \<Rightarrow> 'w local_fs \<Rightarrow> 'w file_ops \<Rightarrow> 'w put_file \<Rightarrow> local_path \<Rightarrow> bytes \<Rightarrow>
     (bytes \<Rightarrow> local_stat) \<Rightarrow> (bytes \<Rightarrow> int) \<Rightarrow> (bytes \<Rightarrow> attrs) \<Rightarrow> bytes \<Rightarrow> bool" where
  "files_answer ok c fs fo put directory remote_dir st moved landed name \<longleftrightarrow>
     remote_component_reason name = None \<and> reported (landed name) \<and>
     (\<forall>sent. steady (ok sent) (stat_local fs (path_div directory name)) (st name) (ok sent)) \<and>
     (\<forall>sent. steady (ok sent) (put (path_div directory name) (join_remote remote_dir name)) (moved name) (ok (insert name sent))) \<and>
     (\<forall>sent. steady (ok (insert name sent)) (stat_path c (BytesValue (join_remote remote_dir name))) (landed name) (ok (insert name sent))) \<and>
     (\<forall>sent e. steady (ok sent) (on_files (append_manifest_record fo (join_remote remote_dir name) e)) () (ok sent))"

definition outcome_for :: "(bytes \<Rightarrow> int) \<Rightarrow> bytes \<Rightarrow> comparison \<Rightarrow> bytes \<Rightarrow> sync_outcome" where
  "outcome_for moved remote_dir v name =
     \<lparr>so_remote_path = join_remote remote_dir name, so_decision = cp_decision v, so_reason = cp_reason v,
      so_transferred = (if transfers v then moved name else 0)\<rparr>"

definition after_file ::
    "(bytes \<Rightarrow> local_stat) \<Rightarrow> (bytes \<Rightarrow> int) \<Rightarrow> (bytes \<Rightarrow> attrs) \<Rightarrow> (bytes, attrs) dict \<Rightarrow> bytes \<Rightarrow> bytes \<Rightarrow> mirror_state \<Rightarrow> mirror_state" where
  "after_file st moved landed present remote_dir name ms =
     (let v = verdict_for st present remote_dir (ms_recorded ms) name in
      \<lparr>ms_recorded = (if transfers v then record_entry (ms_recorded ms) (join_remote remote_dir name) (entry_after (st name) (landed name)) else ms_recorded ms),
       ms_outcomes = ms_outcomes ms @ [outcome_for moved remote_dir v name]\<rparr>)"

lemma remote_component_good: "remote_component_reason name = None \<Longrightarrow> remote_component name = Inr name"
  by (simp add: remote_component_def)

lemma raising_Inr: "raising (Inr x) = give x" by (simp add: raising_def)

lemma steady_sync_files:
  "list_all (files_answer ok c fs fo put directory remote_dir st moved landed) listed \<Longrightarrow>
   steady (ok sent) (sync_files c fs fo put directory remote_dir present listed ms)
     (foldl (\<lambda>ms name. after_file st moved landed present remote_dir name ms) ms listed) (\<lambda>w. \<exists>sent. ok sent w)"
proof (induction listed arbitrary: ms sent)
  case (Cons name listed)
  let ?target = "join_remote remote_dir name"
  let ?v = "verdict_for st present remote_dir (ms_recorded ms) name"
  let ?sent = "if transfers ?v then insert name sent else sent"
  have a: "files_answer ok c fs fo put directory remote_dir st moved landed name" using Cons.prems by simp
  then have stat: "steady (ok sent) (stat_local fs (path_div directory name)) (st name) (ok sent)" by (simp add: files_answer_def)
  have one: "steady (ok sent) (if transfers ?v then sync_transfer c fs fo put (path_div directory name) ?target ?v ms
                else give (ms\<lparr>ms_outcomes := ms_outcomes ms @
                  [\<lparr>so_remote_path = ?target, so_decision = cp_decision ?v, so_reason = cp_reason ?v, so_transferred = 0\<rparr>]\<rparr>))
      (after_file st moved landed present remote_dir name ms) (ok ?sent)"
  proof (cases "transfers ?v")
    case True
    have "steady (ok sent) (sync_transfer c fs fo put (path_div directory name) ?target ?v ms)
      \<lparr>ms_recorded = record_entry (ms_recorded ms) ?target (entry_after (st name) (landed name)),
       ms_outcomes = ms_outcomes ms @ [\<lparr>so_remote_path = ?target, so_decision = cp_decision ?v, so_reason = cp_reason ?v, so_transferred = moved name\<rparr>]\<rparr>
       (ok (insert name sent))"
      by (rule transfer_records [where ?P1.0 = "ok (insert name sent)" and ?P2.0 = "ok (insert name sent)" and ?P3.0 = "ok (insert name sent)"])
        (use a in \<open>simp_all add: files_answer_def\<close>)
    then show ?thesis using True by (simp add: after_file_def outcome_for_def Let_def)
  next
    case False
    then show ?thesis by (simp add: after_file_def outcome_for_def Let_def) (cases ms, simp add: steady_give)
  qed
  have comp: "remote_component name = Inr name" using a by (simp add: files_answer_def remote_component_good)
  show ?case
    unfolding sync_files.simps comp raising_Inr andthen_give foldl_Cons Let_def
    by (rule steady_andthen [OF stat], rule steady_andthen [OF one [unfolded verdict_for_def]], rule Cons.IH)
       (use Cons.prems in simp)
qed (auto intro: steady_give)

lemma steady_any: "(\<And>sent. steady (ok sent) m x (ok sent)) \<Longrightarrow> steady (\<lambda>w. \<exists>sent. ok sent w) m x (\<lambda>w. \<exists>sent. ok sent w)"
  unfolding steady_def goes_def by blast

lemma recorded_other: "a \<noteq> b \<Longrightarrow> recorded_entry (record_entry m (join_remote rd a) e) (join_remote rd b) = recorded_entry m (join_remote rd b)"
  by (auto simp: recorded_entry_def record_entry_def dest: join_remote_inj)

lemma recorded_same: "recorded_entry (record_entry m p e) p = Some e"
  by (simp add: recorded_entry_def record_entry_def)

lemma after_files_recorded:
  "distinct listed \<Longrightarrow>
   recorded_entry (ms_recorded (foldl (\<lambda>ms name. after_file st moved landed present rd name ms) ms listed)) (join_remote rd name) =
     (if name \<in> set listed \<and> transfers (verdict_for st present rd (ms_recorded ms) name)
      then Some (entry_after (st name) (landed name)) else recorded_entry (ms_recorded ms) (join_remote rd name))"
proof (induction listed arbitrary: ms)
  case (Cons x listed)
  let ?ms = "after_file st moved landed present rd x ms"
  have other: "recorded_entry (ms_recorded ?ms) (join_remote rd y) = recorded_entry (ms_recorded ms) (join_remote rd y)" if "y \<noteq> x" for y
    using that by (auto simp: after_file_def Let_def recorded_other)
  then have verdict: "verdict_for st present rd (ms_recorded ?ms) y = verdict_for st present rd (ms_recorded ms) y" if "y \<noteq> x" for y
    using that by (simp add: verdict_for_def)
  have own: "recorded_entry (ms_recorded ?ms) (join_remote rd x) =
      (if transfers (verdict_for st present rd (ms_recorded ms) x) then Some (entry_after (st x) (landed x)) else recorded_entry (ms_recorded ms) (join_remote rd x))"
    by (simp add: after_file_def Let_def recorded_same)
  show ?case using Cons other verdict own by (cases "name = x") auto
qed simp

lemma skipped_is_identical: "\<not> transfers (compare_for_sync a b r) \<Longrightarrow> compare_for_sync a b r = \<lparr>cp_decision = SkippedAsIdentical, cp_reason = Identical\<rparr>"
  by (auto simp: compare_for_sync_def local_side_def remote_side_def transfers_def split: option.splits if_splits)

lemma steady_skipping:
  "\<forall>name \<in> set listed. verdict_for st present rd recorded name = \<lparr>cp_decision = SkippedAsIdentical, cp_reason = Identical\<rparr> \<and>
      remote_component_reason name = None \<and> steady ok (stat_local fs (path_div directory name)) (st name) ok \<Longrightarrow>
   steady ok (sync_files c fs fo put directory rd present listed \<lparr>ms_recorded = recorded, ms_outcomes = before\<rparr>)
     \<lparr>ms_recorded = recorded, ms_outcomes = before @ map (\<lambda>name. \<lparr>so_remote_path = join_remote rd name, so_decision = SkippedAsIdentical,
        so_reason = Identical, so_transferred = 0\<rparr>) listed\<rparr> ok"
proof (induction listed arbitrary: before)
  case (Cons name listed)
  then have v: "verdict_for st present rd recorded name = \<lparr>cp_decision = SkippedAsIdentical, cp_reason = Identical\<rparr>"
    and comp: "remote_component name = Inr name" and stat: "steady ok (stat_local fs (path_div directory name)) (st name) ok"
    by (simp_all add: remote_component_good)
  let ?o = "\<lparr>so_remote_path = join_remote rd name, so_decision = SkippedAsIdentical, so_reason = Identical, so_transferred = 0\<rparr>"
  have rest: "steady ok (sync_files c fs fo put directory rd present listed \<lparr>ms_recorded = recorded, ms_outcomes = before @ [?o]\<rparr>)
     \<lparr>ms_recorded = recorded, ms_outcomes = (before @ [?o]) @ map (\<lambda>name. \<lparr>so_remote_path = join_remote rd name, so_decision = SkippedAsIdentical,
        so_reason = Identical, so_transferred = 0\<rparr>) listed\<rparr> ok"
    by (rule Cons.IH) (use Cons.prems in simp)
  show ?case
    unfolding sync_files.simps comp raising_Inr andthen_give Let_def
    by (rule steady_andthen [OF stat]) (use rest in \<open>simp add: v [unfolded verdict_for_def] transfers_def\<close>)
qed (simp add: steady_give)

lemma after_files_outcomes:
  "distinct listed \<Longrightarrow>
   ms_outcomes (foldl (\<lambda>ms name. after_file st moved landed present rd name ms) ms listed) =
     ms_outcomes ms @ map (\<lambda>name. outcome_for moved rd (verdict_for st present rd (ms_recorded ms) name) name) listed"
proof (induction listed arbitrary: ms)
  case (Cons x listed)
  let ?ms = "after_file st moved landed present rd x ms"
  have "verdict_for st present rd (ms_recorded ?ms) y = verdict_for st present rd (ms_recorded ms) y" if "y \<noteq> x" for y
    using that by (auto simp: verdict_for_def after_file_def Let_def recorded_other)
  then have "outcome_for moved rd (verdict_for st present rd (ms_recorded ?ms) y) y =
      outcome_for moved rd (verdict_for st present rd (ms_recorded ms) y) y" if "y \<in> set listed" for y
    using that Cons.prems by (metis distinct.simps(2))
  then have "map (\<lambda>name. outcome_for moved rd (verdict_for st present rd (ms_recorded ?ms) name) name) listed =
      map (\<lambda>name. outcome_for moved rd (verdict_for st present rd (ms_recorded ms) name) name) listed"
    by (intro map_cong refl)
  then show ?case using Cons.IH [of ?ms] Cons.prems by (simp add: after_file_def Let_def)
qed simp

text \<open>
  C33. Synchronising the files of one directory converges. A first run over them, from any record and
  any listing, sends each file the comparison asks for and reports what it did with every one, in
  order; the uploads may create or change the remote files. Then, if neither side changes any more -
  the next listing shows what landed where something was sent, and what it showed before elsewhere -
  a second run that starts from any record saying of these files what the first one's said (its own,
  or the one read back from the manifest on disk) skips every one of them as identical. It sends
  nothing: the upload it would use may be anything at all.
\<close>

theorem second_mirror_moves_nothing:
  assumes files: "list_all (files_answer ok c fs fo put directory rd st moved landed) listed" "distinct listed"
    and start: "ok {} (se_world s)"
    and later: "\<And>name. name \<in> set listed \<Longrightarrow>
      (case dict_get present2 name of
         None \<Rightarrow> False
       | Some a \<Rightarrow>
           (if transfers (verdict_for st present rd (ms_recorded ms) name)
            then a_size a = a_size (landed name) \<and> a_times a = a_times (landed name)
            else dict_get present name = Some a))"
  shows "\<exists>ms1 w t. sync_files c fs fo put directory rd present listed ms s = (Inr ms1, s\<lparr>se_world := w\<rparr>, t) \<and>
    ms_outcomes ms1 = ms_outcomes ms @
      map (\<lambda>name. outcome_for moved rd (verdict_for st present rd (ms_recorded ms) name) name) listed \<and>
    (\<forall>put2 recorded2.
       (\<forall>name \<in> set listed. recorded_entry recorded2 (join_remote rd name) = recorded_entry (ms_recorded ms1) (join_remote rd name)) \<longrightarrow>
       (\<exists>w2 t2. sync_files c fs fo put2 directory rd present2 listed \<lparr>ms_recorded = recorded2, ms_outcomes = []\<rparr> (s\<lparr>se_world := w\<rparr>) =
       (Inr \<lparr>ms_recorded = recorded2,
             ms_outcomes = map (\<lambda>name. \<lparr>so_remote_path = join_remote rd name, so_decision = SkippedAsIdentical,
               so_reason = Identical, so_transferred = 0\<rparr>) listed\<rparr>, s\<lparr>se_world := w2\<rparr>, t2)))"
proof -
  let ?ms1 = "foldl (\<lambda>ms name. after_file st moved landed present rd name ms) ms listed"
  let ?some = "\<lambda>w. \<exists>sent. ok sent w"
  obtain w t where first: "sync_files c fs fo put directory rd present listed ms s = (Inr ?ms1, s\<lparr>se_world := w\<rparr>, t)" "?some w"
    using steadyD [OF steady_sync_files [OF files(1), of _ present ms] start] unfolding goes_def by blast
  have identical: "verdict_for st present2 rd recorded2 name = \<lparr>cp_decision = SkippedAsIdentical, cp_reason = Identical\<rparr>"
    if name: "name \<in> set listed"
      and same: "recorded_entry recorded2 (join_remote rd name) = recorded_entry (ms_recorded ?ms1) (join_remote rd name)"
    for name recorded2
  proof -
    obtain a where a: "dict_get present2 name = Some a" using later [OF name] by (cases "dict_get present2 name") auto
    have rep: "reported (landed name)" using files(1) name by (auto simp: list_all_iff files_answer_def)
    show ?thesis
    proof (cases "transfers (verdict_for st present rd (ms_recorded ms) name)")
      case True
      then have "a_size a = a_size (landed name)" "a_times a = a_times (landed name)" using later [OF name] a by simp_all
      then show ?thesis using entry_matches_itself [OF rep, of a name "st name"] rep True name files(2)
        by (simp add: verdict_for_def [of st present2] a same after_files_recorded reported_def)
    next
      case False
      then have "dict_get present name = Some a" using later [OF name] a by simp
      then show ?thesis using skipped_is_identical [OF False [unfolded verdict_for_def]] False name files(2)
        by (simp add: verdict_for_def [of st present2] a same after_files_recorded)
    qed
  qed
  have "\<exists>w2 t2. sync_files c fs fo put2 directory rd present2 listed \<lparr>ms_recorded = recorded2, ms_outcomes = []\<rparr> (s\<lparr>se_world := w\<rparr>) =
       (Inr \<lparr>ms_recorded = recorded2,
             ms_outcomes = map (\<lambda>name. \<lparr>so_remote_path = join_remote rd name, so_decision = SkippedAsIdentical,
               so_reason = Identical, so_transferred = 0\<rparr>) listed\<rparr>, s\<lparr>se_world := w2\<rparr>, t2)"
    if same: "\<forall>name \<in> set listed. recorded_entry recorded2 (join_remote rd name) = recorded_entry (ms_recorded ?ms1) (join_remote rd name)"
    for put2 recorded2
  proof -
    have stat: "steady ?some (stat_local fs (path_div directory name)) (st name) ?some" if "name \<in> set listed" for name
      using files(1) that by (intro steady_any) (auto simp: list_all_iff files_answer_def)
    have "steady ?some (sync_files c fs fo put2 directory rd present2 listed \<lparr>ms_recorded = recorded2, ms_outcomes = []\<rparr>)
     \<lparr>ms_recorded = recorded2, ms_outcomes = [] @ map (\<lambda>name. \<lparr>so_remote_path = join_remote rd name, so_decision = SkippedAsIdentical,
        so_reason = Identical, so_transferred = 0\<rparr>) listed\<rparr> ?some"
      by (rule steady_skipping [where st = st])
        (use identical same stat files(1) in \<open>auto simp: list_all_iff files_answer_def\<close>)
    from steadyD [OF this, of "s\<lparr>se_world := w\<rparr>"] first(2) show ?thesis by (auto simp: goes_def)
  qed
  then show ?thesis using first(1) after_files_outcomes [OF files(2), of st moved landed present rd ms] by blast
qed

section \<open>Small worlds\<close>

text \<open>
  One local file and its remote copy. \<open>ew_edit\<close> is what somebody else makes of the local file while
  it is being sent: new bytes and a new time.
\<close>

record edited_world =
  ew_local :: bytes
  ew_mtime :: int
  ew_remote :: bytes
  ew_edit :: "(bytes \<times> int) option"

definition ew_attrs :: "edited_world \<Rightarrow> attrs" where
  "ew_attrs w = EMPTY_ATTRS\<lparr>a_size := Some (int (length (ew_remote w))), a_times := Some \<lparr>atime = 100, mtime = 100\<rparr>\<rparr>"

definition ew_stat :: "edited_world \<Rightarrow> local_stat" where
  "ew_stat w = \<lparr>st_size = int (length (ew_local w)), st_mode = 33188, st_atime = 0, st_mtime = ew_mtime w\<rparr>"

definition ew_connection :: "edited_world connection" where
  "ew_connection =
     \<lparr>co_next = (\<lambda>w. (Inr 1, w)), co_round_trip = (\<lambda>p w. (Some (Inr (AttrsReply 1 (ew_attrs w))), w)),
      co_extensions = [], co_read_range = (\<lambda>h ofs n w. (Inr [], w)), co_write_range = (\<lambda>h d ofs w. (Inr 0, w))\<rparr>"

definition ew_fs :: "edited_world local_fs" where
  "ew_fs = \<lparr>lf_scandir = (\<lambda>p w. (Inr [], w)), lf_stat = (\<lambda>p w. (Inr (ew_stat w), w))\<rparr>"

definition ew_files :: "edited_world file_ops" where
  "ew_files =
     \<lparr>fo_exists = (\<lambda>w. (Inr True, w)), fo_open_append = (\<lambda>w. (Inr 3, w)), fo_write = (\<lambda>fd b w. (Inr (length b), w)), fo_fsync = (\<lambda>fd w. (Inr (), w)),
      fo_close = (\<lambda>fd w. (Inr (), w)), fo_open_directory = (\<lambda>w. (Inr 4, w)), fo_mkstemp = (\<lambda>w. (Inr (5, []), w)), fo_replace = (\<lambda>n w. (Inr (), w)),
      fo_unlink = (\<lambda>n w. (Inr (), w)), fo_read = (\<lambda>w. NoFile)\<rparr>"

text \<open>The upload sends the bytes it finds, and the edit happens before it returns.\<close>

definition ew_upload :: "edited_world \<Rightarrow> edited_world" where
  "ew_upload w =
     (case ew_edit w of
        None \<Rightarrow> w\<lparr>ew_remote := ew_local w\<rparr>
      | Some (b, t) \<Rightarrow> w\<lparr>ew_remote := ew_local w, ew_local := b, ew_mtime := t, ew_edit := None\<rparr>)"

definition ew_put :: "edited_world put_file" where
  "ew_put source remote = call (on_wire (\<lambda>w. (Inr (int (length (ew_local w))), ew_upload w)))"

lemma ew_append: "steady P (on_files (append_manifest_record ew_files p e)) () P"
  by (simp add: steady_def goes_def on_files_def append_manifest_record_def ensuring_def andthen_def catching_def call_def give_def ew_files_def)
     (metis session.surjective session.update_convs(1))

lemma ew_stat_path: "prefix [47] p \<Longrightarrow> (\<And>w. P w \<Longrightarrow> ew_attrs w = a) \<Longrightarrow> steady P (stat_path ew_connection (BytesValue p)) a P"
  unfolding steady_def stat_path_def
  by (intro allI impI goes_resolved)
     (auto intro!: goesI simp: asking_def andthen_def next_id_def request_def call_def on_wire_def ew_connection_def expect_attrs_def give_def)

lemma ew_stat_local: "(\<And>w. P w \<Longrightarrow> ew_stat w = st) \<Longrightarrow> steady P (stat_local ew_fs p) st P"
  by (auto intro!: goesI simp: steady_def stat_local_def call_def on_wire_def ew_fs_def)

lemma ew_put_steady: "(\<And>w. P w \<Longrightarrow> int (length (ew_local w)) = n \<and> Q (ew_upload w)) \<Longrightarrow> steady P (ew_put source remote) n Q"
  by (auto intro!: goesI simp: steady_def ew_put_def call_def on_wire_def)

text \<open>
  What the record gets wrong. The local half of a record is read after the upload. A file that changed while it was being
  sent is therefore recorded as it is now, although what was sent is what it was: as long as nothing
  changes any more, the next run finds both sides as recorded and skips it.
\<close>

lemma change_during_upload_is_recorded_as_sent:
  assumes "steady P (put (path_div directory name) remote) moved P1" "steady P1 (stat_path c (BytesValue remote)) landed P2"
    "steady P2 (stat_local fs (path_div directory name)) changed P3" "reported landed"
    "\<And>e. steady P3 (on_files (append_manifest_record fo remote e)) () P4" "P (se_world s)"
  shows "\<exists>ms1 w t. sync_transfer c fs fo put (path_div directory name) remote verdict ms s = (Inr ms1, s\<lparr>se_world := w\<rparr>, t) \<and> P4 w \<and>
    compare_for_sync (de_attrs (local_dir_entry name changed)) (Some landed) (recorded_entry (ms_recorded ms1) remote) =
      \<lparr>cp_decision = SkippedAsIdentical, cp_reason = Identical\<rparr>"
proof -
  have same: "compare_for_sync (de_attrs (local_dir_entry name changed)) (Some landed) (Some (entry_after changed landed)) =
      \<lparr>cp_decision = SkippedAsIdentical, cp_reason = Identical\<rparr>"
    by (rule entry_matches_itself [OF assms(4)]) (use assms(4) in \<open>simp_all add: reported_def\<close>)
  have "steady P (sync_transfer c fs fo put (path_div directory name) remote verdict ms)
      \<lparr>ms_recorded = record_entry (ms_recorded ms) remote (entry_after changed landed),
       ms_outcomes = ms_outcomes ms @ [\<lparr>so_remote_path = remote, so_decision = cp_decision verdict, so_reason = cp_reason verdict, so_transferred = moved\<rparr>]\<rparr> P4"
    by (rule transfer_records, rule assms(1), rule assms(2), rule assms(3), rule assms(4), rule assms(5))
  from steadyD [OF this, of s] assms(6) obtain w t where
    "sync_transfer c fs fo put (path_div directory name) remote verdict ms s =
      (Inr \<lparr>ms_recorded = record_entry (ms_recorded ms) remote (entry_after changed landed),
       ms_outcomes = ms_outcomes ms @ [\<lparr>so_remote_path = remote, so_decision = cp_decision verdict, so_reason = cp_reason verdict, so_transferred = moved\<rparr>]\<rparr>,
       s\<lparr>se_world := w\<rparr>, t)" "P4 w" unfolding goes_def by blast
  moreover note same
  ultimately show ?thesis by (auto simp: recorded_same)
qed

definition ew_before :: edited_world where
  "ew_before = \<lparr>ew_local = ascii ''old'', ew_mtime = 10, ew_remote = [], ew_edit = Some (ascii ''new'', 20)\<rparr>"

definition ew_after :: edited_world where
  "ew_after = \<lparr>ew_local = ascii ''new'', ew_mtime = 20, ew_remote = ascii ''old'', ew_edit = None\<rparr>"

lemma a_change_during_upload:
  "\<exists>ms1 w t. sync_transfer ew_connection ew_fs ew_files ew_put (path_div [] (ascii ''f'')) (ascii ''/r/f'')
       \<lparr>cp_decision = Transfer, cp_reason = NoRecord\<rparr> \<lparr>ms_recorded = [], ms_outcomes = []\<rparr> (new_session ew_before) =
         (Inr ms1, (new_session ew_before)\<lparr>se_world := w\<rparr>, t) \<and>
     w = ew_after \<and> ew_remote w \<noteq> ew_local w \<and>
     compare_for_sync (de_attrs (local_dir_entry (ascii ''f'') (ew_stat w))) (Some (ew_attrs w)) (recorded_entry (ms_recorded ms1) (ascii ''/r/f'')) =
      \<lparr>cp_decision = SkippedAsIdentical, cp_reason = Identical\<rparr>"
proof -
  have up: "ew_upload ew_before = ew_after" by (simp add: ew_upload_def ew_before_def ew_after_def)
  have rep: "reported (ew_attrs ew_after)" by (simp add: reported_def ew_attrs_def)
  have ne: "ew_remote ew_after \<noteq> ew_local ew_after" by (simp add: ew_after_def ascii_def)
  show ?thesis
    using change_during_upload_is_recorded_as_sent [where P = "\<lambda>w. w = ew_before" and ?P1.0 = "\<lambda>w. w = ew_after" and ?P2.0 = "\<lambda>w. w = ew_after"
        and ?P3.0 = "\<lambda>w. w = ew_after" and ?P4.0 = "\<lambda>w. w = ew_after" and moved = 3 and landed = "ew_attrs ew_after" and changed = "ew_stat ew_after"
        and directory = "[]" and name = "ascii ''f''" and remote = "ascii ''/r/f''" and s = "new_session ew_before" and c = ew_connection and fs = ew_fs
        and fo = ew_files and put = ew_put and verdict = "\<lparr>cp_decision = Transfer, cp_reason = NoRecord\<rparr>" and ms = "\<lparr>ms_recorded = [], ms_outcomes = []\<rparr>"]
      ew_put_steady [of "\<lambda>w. w = ew_before" 3 "\<lambda>w. w = ew_after"] ew_stat_path [of "ascii ''/r/f''" "\<lambda>w. w = ew_after" "ew_attrs ew_after"]
      ew_stat_local [of "\<lambda>w. w = ew_after" "ew_stat ew_after"] ew_append [of "\<lambda>w. w = ew_after"] rep ne up
    by (simp add: new_session_def ew_before_def ascii_def)
qed

text \<open>
  A server that has none of the files at first: an upload writes the file, and STAT finds only what
  has been written. Two local files with the same content.
\<close>

type_synonym mirrored = "bytes \<Rightarrow> bytes option"

definition mw_attrs :: attrs where
  "mw_attrs = EMPTY_ATTRS\<lparr>a_size := Some 4, a_times := Some \<lparr>atime = 100, mtime = 100\<rparr>\<rparr>"

definition mw_stat :: local_stat where
  "mw_stat = \<lparr>st_size = 4, st_mode = 33188, st_atime = 0, st_mtime = 10\<rparr>"

definition mw_connection :: "mirrored connection" where
  "mw_connection =
     \<lparr>co_next = (\<lambda>w. (Inr 1, w)),
      co_round_trip = (\<lambda>p w. (Some (Inr (case p of
         Stat i path \<Rightarrow> (if w path = None then Status 1 FX_NO_SUCH_FILE [] [] None else AttrsReply 1 mw_attrs)
       | _ \<Rightarrow> Status 1 FX_FAILURE [] [] None)), w)),
      co_extensions = [], co_read_range = (\<lambda>h ofs n w. (Inr [], w)), co_write_range = (\<lambda>h d ofs w. (Inr 0, w))\<rparr>"

definition mw_fs :: "mirrored local_fs" where
  "mw_fs = \<lparr>lf_scandir = (\<lambda>p w. (Inr [], w)), lf_stat = (\<lambda>p w. (Inr mw_stat, w))\<rparr>"

definition mw_files :: "mirrored file_ops" where
  "mw_files =
     \<lparr>fo_exists = (\<lambda>w. (Inr True, w)), fo_open_append = (\<lambda>w. (Inr 3, w)), fo_write = (\<lambda>fd b w. (Inr (length b), w)), fo_fsync = (\<lambda>fd w. (Inr (), w)),
      fo_close = (\<lambda>fd w. (Inr (), w)), fo_open_directory = (\<lambda>w. (Inr 4, w)), fo_mkstemp = (\<lambda>w. (Inr (5, []), w)), fo_replace = (\<lambda>n w. (Inr (), w)),
      fo_unlink = (\<lambda>n w. (Inr (), w)), fo_read = (\<lambda>w. NoFile)\<rparr>"

definition mw_put :: "mirrored put_file" where
  "mw_put source remote = call (on_wire (\<lambda>w. (Inr 4, w(remote \<mapsto> ascii ''same''))))"

text \<open>The files sent so far are there; of the others nothing is said.\<close>

definition mw_sent :: "bytes set \<Rightarrow> mirrored \<Rightarrow> bool" where
  "mw_sent sent w \<longleftrightarrow> (\<forall>name \<in> sent. w (join_remote (ascii ''/r'') name) \<noteq> None)"

lemma mw_answers:
  assumes "name \<in> {ascii ''f'', ascii ''g''}"
  shows "files_answer mw_sent mw_connection mw_fs mw_files mw_put [] (ascii ''/r'') (\<lambda>_. mw_stat) (\<lambda>_. 4) (\<lambda>_. mw_attrs) name"
proof -
  have good: "remote_component_reason name = None" using assms by (auto simp: remote_component_reason_def DOT_NAMES_def ascii_def)
  have abs: "prefix [47] (join_remote (ascii ''/r'') name)" by (rule prefix_join_remote) (simp add: ascii_def)
  have put: "steady (mw_sent sent) (mw_put source (join_remote (ascii ''/r'') name)) 4 (mw_sent (insert name sent))" for sent source
    by (auto intro!: goesI simp: steady_def mw_put_def call_def on_wire_def mw_sent_def)
  have stat: "steady (mw_sent (insert name sent)) (stat_path mw_connection (BytesValue (join_remote (ascii ''/r'') name))) mw_attrs (mw_sent (insert name sent))" for sent
    unfolding steady_def stat_path_def
    by (intro allI impI goes_resolved abs)
       (auto intro!: goesI simp: asking_def andthen_def next_id_def request_def call_def on_wire_def mw_connection_def mw_sent_def expect_attrs_def give_def)
  have append: "steady (mw_sent sent) (on_files (append_manifest_record mw_files p e)) () (mw_sent sent)" for sent p e
    by (simp add: steady_def goes_def on_files_def append_manifest_record_def ensuring_def andthen_def catching_def call_def give_def mw_files_def)
      (metis session.surjective session.update_convs(1))
  have local: "steady (mw_sent sent) (stat_local mw_fs p) mw_stat (mw_sent sent)" for sent p
    by (auto intro!: goesI simp: steady_def stat_local_def call_def on_wire_def mw_fs_def)
  show ?thesis unfolding files_answer_def
    by (intro conjI allI good put stat append local) (simp add: reported_def mw_attrs_def)
qed

lemma second_mirror_moves_nothing_witness:
  "let s = new_session (Map.empty :: mirrored) in
   \<exists>ms1 w t. sync_files mw_connection mw_fs mw_files mw_put [] (ascii ''/r'') [] [ascii ''f'', ascii ''g'']
       \<lparr>ms_recorded = [], ms_outcomes = []\<rparr> s = (Inr ms1, s\<lparr>se_world := w\<rparr>, t) \<and>
     map so_transferred (ms_outcomes ms1) = [4, 4] \<and>
     (\<exists>w2 t2. sync_files mw_connection mw_fs mw_files (\<lambda>_ _. throw Cancelled) [] (ascii ''/r'')
         [(ascii ''f'', mw_attrs), (ascii ''g'', mw_attrs)] [ascii ''f'', ascii ''g'']
         \<lparr>ms_recorded = ms_recorded ms1, ms_outcomes = []\<rparr> (s\<lparr>se_world := w\<rparr>) =
       (Inr \<lparr>ms_recorded = ms_recorded ms1,
             ms_outcomes = map (\<lambda>name. \<lparr>so_remote_path = join_remote (ascii ''/r'') name, so_decision = SkippedAsIdentical,
               so_reason = Identical, so_transferred = 0\<rparr>) [ascii ''f'', ascii ''g'']\<rparr>, s\<lparr>se_world := w2\<rparr>, t2))"
proof -
  let ?s = "new_session (Map.empty :: mirrored)" and ?listed = "[ascii ''f'', ascii ''g'']"
  let ?present2 = "[(ascii ''f'', mw_attrs), (ascii ''g'', mw_attrs)]"
  have files: "list_all (files_answer mw_sent mw_connection mw_fs mw_files mw_put [] (ascii ''/r'') (\<lambda>_. mw_stat) (\<lambda>_. 4) (\<lambda>_. mw_attrs)) ?listed"
    using mw_answers by simp
  have distinct: "distinct ?listed" by (simp add: ascii_def)
  have start: "mw_sent {} (se_world ?s)" by (simp add: mw_sent_def)
  have asked: "transfers (verdict_for (\<lambda>_. mw_stat) [] (ascii ''/r'') [] name)" for name
    by (simp add: verdict_for_def recorded_entry_def dict_get_def compare_for_sync_def transfers_def)
  have later: "(case dict_get ?present2 name of None \<Rightarrow> False
      | Some a \<Rightarrow> (if transfers (verdict_for (\<lambda>_. mw_stat) [] (ascii ''/r'') (ms_recorded \<lparr>ms_recorded = [], ms_outcomes = []\<rparr>) name)
          then a_size a = a_size mw_attrs \<and> a_times a = a_times mw_attrs else dict_get [] name = Some a))"
    if "name \<in> set ?listed" for name
    using that asked by (auto simp: dict_get_def)
  obtain ms1 w t where run: "sync_files mw_connection mw_fs mw_files mw_put [] (ascii ''/r'') [] ?listed
       \<lparr>ms_recorded = [], ms_outcomes = []\<rparr> ?s = (Inr ms1, ?s\<lparr>se_world := w\<rparr>, t)"
    and outcomes: "ms_outcomes ms1 = map (\<lambda>name. outcome_for (\<lambda>_. 4) (ascii ''/r'') (verdict_for (\<lambda>_. mw_stat) [] (ascii ''/r'') [] name) name) ?listed"
    and again: "\<And>put2 recorded2.
       \<forall>name \<in> set ?listed. recorded_entry recorded2 (join_remote (ascii ''/r'') name) = recorded_entry (ms_recorded ms1) (join_remote (ascii ''/r'') name) \<Longrightarrow>
       \<exists>w2 t2. sync_files mw_connection mw_fs mw_files put2 [] (ascii ''/r'') ?present2 ?listed \<lparr>ms_recorded = recorded2, ms_outcomes = []\<rparr> (?s\<lparr>se_world := w\<rparr>) =
       (Inr \<lparr>ms_recorded = recorded2,
             ms_outcomes = map (\<lambda>name. \<lparr>so_remote_path = join_remote (ascii ''/r'') name, so_decision = SkippedAsIdentical,
               so_reason = Identical, so_transferred = 0\<rparr>) ?listed\<rparr>, ?s\<lparr>se_world := w2\<rparr>, t2)"
    using second_mirror_moves_nothing [where c = mw_connection and fs = mw_fs and fo = mw_files and put = mw_put and directory = "[]"
        and rd = "ascii ''/r''" and st = "\<lambda>_. mw_stat" and moved = "\<lambda>_. 4" and landed = "\<lambda>_. mw_attrs" and s = ?s
        and listed = ?listed and present = "[]" and ms = "\<lparr>ms_recorded = [], ms_outcomes = []\<rparr>" and ?present2.0 = ?present2,
        OF files distinct start later] by auto
  have sent: "map so_transferred (ms_outcomes ms1) = [4, 4]" unfolding outcomes by (simp add: outcome_for_def asked)
  show ?thesis unfolding Let_def
    by (intro exI [of _ ms1] exI [of _ w] exI [of _ t] conjI run sent again ballI refl)
qed

end
