(* ===== verification/RemoteFile.thy ===== *)
theory RemoteFile
  imports Traversal Retry
begin

text \<open>
  An open remote file with a cursor: \<open>RemoteFile\<close> of \<open>session/_session.py\<close>, over the operations on a
  handle. The object is mutable and outlives an exception of its methods, so a method is a program
  over the session and the object together.
\<close>

section \<open>The object\<close>

record remote_file =
  rf_path :: bytes
  rf_pflags :: int
  rf_mode :: "int option"
  rf_handle :: "bytes option"
  rf_entered :: bool
  rf_position :: int

definition new_remote_file :: "bytes \<Rightarrow> int \<Rightarrow> int option \<Rightarrow> remote_file" where
  "new_remote_file path pflags mode =
     \<lparr>rf_path = path, rf_pflags = pflags, rf_mode = mode, rf_handle = None, rf_entered = False, rf_position = 0\<rparr>"

text \<open>\<open>Session.open_file\<close>: nothing is sent before the object is entered.\<close>

definition open_file :: "py_arg \<Rightarrow> int \<Rightarrow> int option \<Rightarrow> (remote_file, 'w session) prog" where
  "open_file path pflags mode = andthen (resolve path) (\<lambda>encoded. give (new_remote_file encoded pflags mode))"

type_synonym ('a, 'w) file_method = "('a, 'w session \<times> remote_file) prog"

definition of_session :: "('a, 'w session) prog \<Rightarrow> ('a, 'w) file_method" where
  "of_session m sf = (case m (fst sf) of (r, s, t) \<Rightarrow> (r, (s, snd sf), map (\<lambda>s. (s, snd sf)) t))"

definition own :: "(remote_file \<Rightarrow> 'a) \<Rightarrow> ('a, 'w) file_method" where "own f = ask (\<lambda>(_, file). f file)"

definition assign :: "(remote_file \<Rightarrow> remote_file) \<Rightarrow> (unit, 'w) file_method" where
  "assign f = call (\<lambda>(s, file). (Inr (), (s, f file)))"

section \<open>The context\<close>

definition open_handle :: "(bytes, 'w) file_method" where
  "open_handle =
     andthen (own (\<lambda>f. (rf_handle f, rf_entered f))) (\<lambda>(current, entered).
       case current of
         Some h \<Rightarrow> give h
       | None \<Rightarrow> throw (StateErr (Msg (if entered then ''this open_file() is closed'' else ''this open_file() is not open'') [])))"

text \<open>The opener, repeated as \<open>with_transient_retry\<close> does; \<open>sleep\<close> says whether the wait was cancelled.\<close>

definition repeating ::
    "server_profile \<Rightarrow> (rat \<Rightarrow> 'w \<Rightarrow> bool \<times> 'w) \<Rightarrow> ('a, 'w session) prog \<Rightarrow> ('a, 'w session) prog" where
  "repeating profile sleep m s =
     (let r = with_transient_retry profile (traced m)
                (\<lambda>d (s, t). case sleep d (se_world s) of (cancelled, w) \<Rightarrow> (cancelled, (s\<lparr>se_world := w\<rparr>, t)))
                TRANSIENT_ATTEMPTS TRANSIENT_BACKOFF TRANSIENT_BACKOFF_MAX (s, []) in
      (Retry.run.outcome r, fst (world r), snd (world r)))"

definition file_enter :: "'w connection \<Rightarrow> server_profile \<Rightarrow> (rat \<Rightarrow> 'w \<Rightarrow> bool \<times> 'w) \<Rightarrow> (unit, 'w) file_method" where
  "file_enter c profile sleep =
     andthen (own id) (\<lambda>f.
       if rf_entered f then throw (StateErr (Msg ''this open_file() has already been used'' []))
       else andthen (assign (\<lambda>f. f\<lparr>rf_entered := True\<rparr>)) (\<lambda>_.
            let opening = open_path c (BytesValue (rf_path f)) (rf_pflags f) (rf_mode f) in
            andthen (of_session (if is_repeatable_open (rf_pflags f) then repeating profile sleep opening else opening)) (\<lambda>h.
              assign (\<lambda>f. f\<lparr>rf_handle := Some h\<rparr>))))"

text \<open>Leaving the block, \<open>failing\<close> when an exception ends it: then the close may not hide it.\<close>

definition file_exit :: "'w connection \<Rightarrow> bool \<Rightarrow> (unit, 'w) file_method" where
  "file_exit c failing =
     andthen (own rf_handle) (\<lambda>current.
     andthen (assign (\<lambda>f. f\<lparr>rf_handle := None\<rparr>)) (\<lambda>_.
       case current of
         None \<Rightarrow> give ()
       | Some h \<Rightarrow> of_session (if failing then quietly_close c h else close_handle c h)))"

definition with_file ::
    "'w connection \<Rightarrow> server_profile \<Rightarrow> (rat \<Rightarrow> 'w \<Rightarrow> bool \<times> 'w) \<Rightarrow> ('a, 'w) file_method \<Rightarrow> ('a, 'w) file_method" where
  "with_file c profile sleep body =
     andthen (file_enter c profile sleep) (\<lambda>_.
     andthen (catching body (\<lambda>e. andthen (file_exit c True) (\<lambda>_. throw e))) (\<lambda>x.
     andthen (file_exit c False) (\<lambda>_. give x)))"

section \<open>The methods\<close>

definition advance_by :: "int \<Rightarrow> (unit, 'w) file_method" where
  "advance_by n = assign (\<lambda>f. f\<lparr>rf_position := rf_position f + n\<rparr>)"

definition file_tell :: "(int, 'w) file_method" where "file_tell = own rf_position"

definition SEEK_SET :: int where "SEEK_SET = 0"
definition SEEK_CUR :: int where "SEEK_CUR = 1"
definition SEEK_END :: int where "SEEK_END = 2"

definition seek_target :: "'w connection \<Rightarrow> bytes \<Rightarrow> int \<Rightarrow> int \<Rightarrow> (int, 'w) file_method" where
  "seek_target c h offset whence =
     (if whence = SEEK_SET then give offset
      else if whence = SEEK_CUR then own (\<lambda>f. rf_position f + offset)
      else if whence = SEEK_END then
        andthen (of_session (fstat c h)) (\<lambda>a.
          case a_size a of
            None \<Rightarrow> throw (ValueErr (Msg ''no size, so SEEK_END has nothing to seek from'' []))
          | Some n \<Rightarrow> give (n + offset))
      else throw (ValueErr (Msg ''whence must be SEEK_SET, SEEK_CUR or SEEK_END'' [IntArg whence])))"

definition file_seek :: "'w connection \<Rightarrow> int \<Rightarrow> int \<Rightarrow> (int, 'w) file_method" where
  "file_seek c offset whence =
     andthen open_handle (\<lambda>h.
     andthen (seek_target c h offset whence) (\<lambda>target.
       if target < 0 then throw (ValueErr (Msg ''seek before the start'' [IntArg target]))
       else andthen (assign (\<lambda>f. f\<lparr>rf_position := target\<rparr>)) (\<lambda>_. give target)))"

definition read_span :: "'w connection \<Rightarrow> bytes \<Rightarrow> int option \<Rightarrow> (int, 'w) file_method" where
  "read_span c h wanted =
     (case wanted of
        Some n \<Rightarrow> give n
      | None \<Rightarrow>
          andthen (of_session (fstat c h)) (\<lambda>a.
            case a_size a of
              None \<Rightarrow> throw (ValueErr (Msg ''no size, so read() cannot tell where the file ends'' []))
            | Some n \<Rightarrow> own (\<lambda>f. max 0 (n - rf_position f))))"

definition file_read :: "'w connection \<Rightarrow> int option \<Rightarrow> (bytes, 'w) file_method" where
  "file_read c wanted =
     andthen open_handle (\<lambda>h.
     andthen (read_span c h wanted) (\<lambda>n.
     andthen (own rf_position) (\<lambda>position.
     andthen (of_session (read_at c h position n)) (\<lambda>payload.
     andthen (advance_by (int (length payload))) (\<lambda>_. give payload)))))"

text \<open>\<open>readinto_at\<close>: the count, with the buffer as it is after the ranges have been written into it.\<close>

definition readinto_at :: "'w connection \<Rightarrow> bytes \<Rightarrow> bytes \<Rightarrow> int \<Rightarrow> (int \<times> bytes, 'w session) prog" where
  "readinto_at c h buffer offset =
     (if offset < 0 then throw (ValueErr (Msg ''offset must not be negative'' [IntArg offset]))
      else if buffer = [] then give (0, [])
      else andthen (call (on_wire (co_read_range c h offset (int (length buffer))))) (\<lambda>payload.
             give (int (length payload), payload @ drop (length payload) buffer)))"

definition file_readinto :: "'w connection \<Rightarrow> bytes \<Rightarrow> (int \<times> bytes, 'w) file_method" where
  "file_readinto c buffer =
     andthen open_handle (\<lambda>h.
     andthen (own rf_position) (\<lambda>position.
     andthen (of_session (readinto_at c h buffer position)) (\<lambda>(filled, buffer).
     andthen (advance_by filled) (\<lambda>_. give (filled, buffer)))))"

definition file_write :: "'w connection \<Rightarrow> bytes \<Rightarrow> (int, 'w) file_method" where
  "file_write c payload =
     andthen open_handle (\<lambda>h.
     andthen (own rf_position) (\<lambda>position.
     andthen (of_session (write_at c h position payload)) (\<lambda>written.
     andthen (advance_by written) (\<lambda>_. give written))))"

definition file_stat :: "'w connection \<Rightarrow> (attrs, 'w) file_method" where
  "file_stat c = andthen open_handle (\<lambda>h. of_session (fstat c h))"

definition file_truncate :: "'w connection \<Rightarrow> int option \<Rightarrow> (unit, 'w) file_method" where
  "file_truncate c wanted =
     andthen open_handle (\<lambda>h.
     andthen (own rf_position) (\<lambda>position.
       of_session (ftruncate c h (case wanted of None \<Rightarrow> position | Some n \<Rightarrow> n))))"

definition file_fsync :: "'w connection \<Rightarrow> (unit, 'w) file_method" where
  "file_fsync c = andthen open_handle (\<lambda>h. of_session (fsync_handle c h))"

section \<open>A sequence of calls\<close>

text \<open>What a program can ask of the object, and what it gets back.\<close>

datatype file_request =
    Tell | Seek int int | ReadUpTo "int option" | ReadInto bytes | WriteBytes bytes | SizeOf | Truncate "int option" | Flush

datatype file_answer = Position int | Content bytes | Filled int bytes | Size "int option" | Nothing

fun file_call :: "'w connection \<Rightarrow> file_request \<Rightarrow> (file_answer, 'w) file_method" where
  "file_call c Tell = andthen file_tell (\<lambda>n. give (Position n))"
| "file_call c (Seek offset whence) = andthen (file_seek c offset whence) (\<lambda>n. give (Position n))"
| "file_call c (ReadUpTo wanted) = andthen (file_read c wanted) (\<lambda>b. give (Content b))"
| "file_call c (ReadInto buffer) = andthen (file_readinto c buffer) (\<lambda>(n, b). give (Filled n b))"
| "file_call c (WriteBytes payload) = andthen (file_write c payload) (\<lambda>n. give (Position n))"
| "file_call c SizeOf = andthen (file_stat c) (\<lambda>a. give (Size (a_size a)))"
| "file_call c (Truncate wanted) = andthen (file_truncate c wanted) (\<lambda>_. give Nothing)"
| "file_call c Flush = andthen (file_fsync c) (\<lambda>_. give Nothing)"

text \<open>Each call in a \<open>try\<close> of its own: the outcomes in order, exceptions included.\<close>

fun file_calls :: "'w connection \<Rightarrow> file_request list \<Rightarrow> ((exn + file_answer) list, 'w) file_method" where
  "file_calls c [] = give []"
| "file_calls c (x # xs) =
     andthen (catching (andthen (file_call c x) (\<lambda>a. give (Inr a))) (\<lambda>e. give (Inl e))) (\<lambda>r.
     andthen (file_calls c xs) (\<lambda>rs. give (r # rs)))"

end
