(* ===== verification/RemoteFileLaws.thy ===== *)
theory RemoteFileLaws
  imports RemoteFile TraversalLaws SessionOps
begin

text \<open>
  The open remote file against its specification, a sequence of bytes with a cursor. The server
  keeps the contract of one open handle; what it does when it fails is covered by the invariant,
  which assumes nothing of it.
\<close>

section \<open>The specification\<close>

definition resized :: "nat \<Rightarrow> bytes \<Rightarrow> bytes" where
  "resized n b = take n b @ replicate (n - length b) 0"

definition overwritten :: "nat \<Rightarrow> bytes \<Rightarrow> bytes \<Rightarrow> bytes" where
  "overwritten off d b = resized off b @ d @ drop (off + length d) b"

definition portion :: "nat \<Rightarrow> nat \<Rightarrow> bytes \<Rightarrow> bytes" where "portion off n b = take n (drop off b)"

definition seek_reference :: "int \<Rightarrow> int \<Rightarrow> bytes \<Rightarrow> int \<Rightarrow> exn + int" where
  "seek_reference offset whence b p =
     (if whence \<notin> {SEEK_SET, SEEK_CUR, SEEK_END} then Inl (ValueErr (Msg ''whence must be SEEK_SET, SEEK_CUR or SEEK_END'' [IntArg whence]))
      else let target = offset + (if whence = SEEK_SET then 0 else if whence = SEEK_CUR then p else int (length b)) in
           if target < 0 then Inl (ValueErr (Msg ''seek before the start'' [IntArg target])) else Inr target)"

fun reference_call :: "file_request \<Rightarrow> bytes \<times> int \<Rightarrow> (exn + file_answer) \<times> bytes \<times> int" where
  "reference_call Tell (b, p) = (Inr (Position p), b, p)"
| "reference_call (Seek offset whence) (b, p) =
     (case seek_reference offset whence b p of Inl e \<Rightarrow> (Inl e, b, p) | Inr q \<Rightarrow> (Inr (Position q), b, q))"
| "reference_call (ReadUpTo None) (b, p) = (let d = drop (nat p) b in (Inr (Content d), b, p + int (length d)))"
| "reference_call (ReadUpTo (Some n)) (b, p) =
     (if n < 0 then (Inl (ValueErr (Msg ''length must not be negative'' [IntArg n])), b, p)
      else let d = portion (nat p) (nat n) b in (Inr (Content d), b, p + int (length d)))"
| "reference_call (ReadInto buffer) (b, p) =
     (let d = portion (nat p) (length buffer) b in
      (Inr (Filled (int (length d)) (d @ drop (length d) buffer)), b, p + int (length d)))"
| "reference_call (WriteBytes d) (b, p) =
     (Inr (Position (int (length d))), if d = [] then b else overwritten (nat p) d b, p + int (length d))"
| "reference_call SizeOf (b, p) = (Inr (Size (Some (int (length b)))), b, p)"
| "reference_call (Truncate wanted) (b, p) =
     (let n = case wanted of None \<Rightarrow> p | Some n \<Rightarrow> n in
      if n < 0 then (Inl (ValueErr (Msg ''size must not be negative'' [IntArg n])), b, p)
      else (Inr Nothing, resized (nat n) b, p))"
| "reference_call Flush (b, p) = (Inr Nothing, b, p)"

fun reference_calls :: "file_request list \<Rightarrow> bytes \<times> int \<Rightarrow> (exn + file_answer) list \<times> bytes \<times> int" where
  "reference_calls [] st = ([], st)"
| "reference_calls (x # xs) st =
     (case reference_call x st of (r, st') \<Rightarrow> case reference_calls xs st' of (rs, st'') \<Rightarrow> (r # rs, st''))"

section \<open>A server that keeps the file of a handle\<close>

text \<open>\<open>view w\<close> is the content behind the handle \<open>h\<close>, as long as the handle is open and answered.\<close>

definition reads_file :: "'w connection \<Rightarrow> bytes \<Rightarrow> ('w \<Rightarrow> bytes option) \<Rightarrow> bool" where
  "reads_file c h view \<longleftrightarrow> (\<forall>w b off n. view w = Some b \<and> 0 < n \<longrightarrow>
     (\<exists>w'. co_read_range c h (int off) (int n) w = (Inr (portion off n b), w') \<and> view w' = Some b))"

definition writes_file :: "'w connection \<Rightarrow> bytes \<Rightarrow> ('w \<Rightarrow> bytes option) \<Rightarrow> bool" where
  "writes_file c h view \<longleftrightarrow> (\<forall>w b off d. view w = Some b \<and> d \<noteq> [] \<longrightarrow>
     (\<exists>w'. co_write_range c h d (int off) w = (Inr (int (length d)), w') \<and> view w' = Some (overwritten off d b)))"

definition accepts :: "'w connection \<Rightarrow> ('w \<Rightarrow> bytes option) \<Rightarrow> (int \<Rightarrow> packet) \<Rightarrow> (bytes \<Rightarrow> bytes) \<Rightarrow> bool" where
  "accepts c view build change \<longleftrightarrow> (\<forall>w b i. view w = Some b \<longrightarrow>
     (\<exists>m l w'. co_round_trip c (build i) w = (Some (Inr (Status i FX_OK m l None)), w') \<and> view w' = Some (change b)))"

definition reports_size :: "'w connection \<Rightarrow> bytes \<Rightarrow> ('w \<Rightarrow> bytes option) \<Rightarrow> bool" where
  "reports_size c h view \<longleftrightarrow> (\<forall>w b i. view w = Some b \<longrightarrow>
     (\<exists>a w'. co_round_trip c (FStat i h) w = (Some (Inr (AttrsReply i a)), w') \<and> a_size a = Some (int (length b)) \<and> view w' = Some b))"

definition serves_file :: "'w connection \<Rightarrow> bytes \<Rightarrow> ('w \<Rightarrow> bytes option) \<Rightarrow> bool" where
  "serves_file c h view \<longleftrightarrow>
     reads_file c h view \<and> writes_file c h view \<and> reports_size c h view \<and>
     (\<forall>n. accepts c view (\<lambda>i. FSetStat i h (EMPTY_ATTRS\<lparr>a_size := Some (int n)\<rparr>)) (resized n)) \<and>
     (\<forall>w b. view w = Some b \<longrightarrow> (\<exists>i w'. co_next c w = (Inr i, w') \<and> view w' = Some b)) \<and>
     (\<forall>i. \<exists>p. fsync_to \<lparr>fy_request_id = i, fy_handle = h\<rparr> = Inr p \<and>
        (\<forall>w b. view w = Some b \<longrightarrow> (\<exists>m l w'. co_round_trip c p w = (Some (Inr (Status i FX_OK m l None)), w') \<and> view w' = Some b)))"


section \<open>One call\<close>

definition meets :: "('a, 'w) file_method \<Rightarrow> 'w session \<times> remote_file \<Rightarrow> exn + 'a \<Rightarrow> remote_file \<Rightarrow> ('w \<Rightarrow> bool) \<Rightarrow> bool" where
  "meets m sf r f' Q \<longleftrightarrow> (\<exists>w t. m sf = (r, ((fst sf)\<lparr>se_world := w\<rparr>, f'), t) \<and> Q w)"

lemma meetsI: "m sf = (r, ((fst sf)\<lparr>se_world := w\<rparr>, f'), t) \<Longrightarrow> Q w \<Longrightarrow> meets m sf r f' Q"
  by (auto simp: meets_def)

lemma meets_give: "Q (se_world s) \<Longrightarrow> meets (give x) (s, f) (Inr x) f Q"
  by (rule meetsI [where w = "se_world s"]) (simp_all add: give_def)

lemma meets_throw: "Q (se_world s) \<Longrightarrow> meets (throw e) (s, f) (Inl e) f Q"
  by (rule meetsI [where w = "se_world s"]) (simp_all add: throw_def)

lemma meets_own: "Q (se_world s) \<Longrightarrow> x = g f \<Longrightarrow> meets (own g) (s, f) (Inr x) f Q"
  by (rule meetsI [where w = "se_world s"]) (simp_all add: own_def ask_def)

lemma meets_assign: "Q (se_world s) \<Longrightarrow> f' = g f \<Longrightarrow> meets (assign g) (s, f) (Inr ()) f' Q"
  by (rule meetsI [where w = "se_world s"]) (simp_all add: assign_def call_def)

lemma meets_of_session: "goes m s r Q \<Longrightarrow> meets (of_session m) (s, f) r f Q"
  by (auto simp: goes_def meets_def of_session_def)

lemma meets_andthen:
  assumes "meets m (s, f) (Inr x) f1 Q" "\<And>w. Q w \<Longrightarrow> meets (g x) (s\<lparr>se_world := w\<rparr>, f1) r f2 R"
  shows "meets (andthen m g) (s, f) r f2 R"
proof -
  obtain w t where m: "m (s, f) = (Inr x, (s\<lparr>se_world := w\<rparr>, f1), t)" and Q: "Q w" using assms(1) by (auto simp: meets_def)
  obtain w' t' where g: "g x (s\<lparr>se_world := w\<rparr>, f1) = (r, (s\<lparr>se_world := w'\<rparr>, f2), t')" and R: "R w'"
    using assms(2) [OF Q] by (auto simp: meets_def)
  show ?thesis by (rule meetsI [where w = w' and t = "t @ t'"]) (simp_all add: andthen_def m g R)
qed

lemma meets_andthen_fails: "meets m sf (Inl e) f' Q \<Longrightarrow> meets (andthen m g) sf (Inl e) f' Q"
  by (auto simp: meets_def andthen_def)

lemma meets_caught:
  assumes "meets m (s, f) r f' Q"
  shows "meets (catching (andthen m (\<lambda>a. give (Inr a))) (\<lambda>e. give (Inl e))) (s, f) (Inr r) f' Q"
  using assms by (cases r) (auto simp: meets_def catching_def andthen_def give_def)

definition contains_now :: "('w \<Rightarrow> bytes option) \<Rightarrow> bytes \<Rightarrow> 'w \<Rightarrow> bool" where
  "contains_now view b w \<longleftrightarrow> view w = Some b"

lemma goes_next:
  assumes "serves_file c h view" "contains_now view b (se_world s)"
  obtains i w t where "next_id c s = (Inr i, s\<lparr>se_world := w\<rparr>, t)" "contains_now view b w"
proof -
  obtain i w where "co_next c (se_world s) = (Inr i, w)" "view w = Some b"
    using assms unfolding serves_file_def contains_now_def by blast
  then show thesis
    by (intro that [of i w "[s\<lparr>se_world := w\<rparr>]"]) (simp_all add: next_id_def call_def on_wire_def contains_now_def)
qed

lemma goes_fstat:
  assumes "serves_file c h view" "contains_now view b (se_world s)"
  shows "\<exists>a. goes (fstat c h) s (Inr a) (contains_now view b) \<and> a_size a = Some (int (length b))"
proof -
  obtain i w t where n: "next_id c s = (Inr i, s\<lparr>se_world := w\<rparr>, t)" and w: "view w = Some b"
    using goes_next [OF assms] unfolding contains_now_def by blast
  obtain a w' where a: "co_round_trip c (FStat i h) w = (Some (Inr (AttrsReply i a)), w')" "a_size a = Some (int (length b))" "view w' = Some b"
    using assms(1) w unfolding serves_file_def reports_size_def by blast
  have "goes (fstat c h) s (Inr a) (contains_now view b)"
    unfolding fstat_def by (rule goes_asking [OF n], rule a(1)) (simp add: expect_attrs_def goes_give contains_now_def a(3))
  then show ?thesis using a(2) by blast
qed

lemma goes_ftruncate:
  assumes "serves_file c h view" "contains_now view b (se_world s)"
  shows "goes (ftruncate c h (int n)) s (Inr ()) (contains_now view (resized n b))"
proof -
  obtain i w t where n: "next_id c s = (Inr i, s\<lparr>se_world := w\<rparr>, t)" and w: "view w = Some b"
    using goes_next [OF assms] unfolding contains_now_def by blast
  have "accepts c view (\<lambda>i. FSetStat i h (EMPTY_ATTRS\<lparr>a_size := Some (int n)\<rparr>)) (resized n)"
    using assms(1) unfolding serves_file_def by blast
  then obtain m l w' where a: "co_round_trip c (FSetStat i h (EMPTY_ATTRS\<lparr>a_size := Some (int n)\<rparr>)) w = (Some (Inr (Status i FX_OK m l None)), w')"
      "view w' = Some (resized n b)"
    using w unfolding accepts_def by blast
  have "goes (expect_status c (\<lambda>i. give (FSetStat i h (EMPTY_ATTRS\<lparr>a_size := Some (int n)\<rparr>))) None) s (Inr ()) (contains_now view (resized n b))"
    by (rule goes_done [OF n], rule a(2) [folded contains_now_def], rule a(1))
  then show ?thesis by (simp add: ftruncate_def)
qed

lemma goes_fsync:
  assumes "serves_file c h view" "contains_now view b (se_world s)"
  shows "goes (fsync_handle c h) s (Inr ()) (contains_now view b)"
proof -
  obtain i w t where n: "next_id c s = (Inr i, s\<lparr>se_world := w\<rparr>, t)" and w: "view w = Some b"
    using goes_next [OF assms] unfolding contains_now_def by blast
  obtain p where p: "fsync_to \<lparr>fy_request_id = i, fy_handle = h\<rparr> = Inr p" and
    "\<exists>m l w'. co_round_trip c p w = (Some (Inr (Status i FX_OK m l None)), w') \<and> view w' = Some b"
    using assms(1) w unfolding serves_file_def by blast
  then obtain m l w' where a: "co_round_trip c p w = (Some (Inr (Status i FX_OK m l None)), w')" "view w' = Some b" by blast
  show ?thesis
    by (rule goesI [where w = w'])
       (simp_all add: fsync_handle_def expect_status_def andthen_def n p raising_def give_def request_step [OF a(1)] raise_for_status_def contains_now_def a(2))
qed

lemma goes_read_at:
  assumes "serves_file c h view" "contains_now view b (se_world s)"
  shows "goes (read_at c h (int off) (int n)) s (Inr (portion off n b)) (contains_now view b)"
proof (cases "n = 0")
  case True
  then show ?thesis using assms(2) by (simp add: read_at_def goes_give portion_def)
next
  case False
  then obtain w' where "co_read_range c h (int off) (int n) (se_world s) = (Inr (portion off n b), w')" "contains_now view b w'"
    using assms unfolding serves_file_def reads_file_def contains_now_def by blast
  then have "goes (call (on_wire (co_read_range c h (int off) (int n)))) s (Inr (portion off n b)) (contains_now view b)" by (rule goes_call)
  then show ?thesis using False by (simp add: read_at_def)
qed

lemma goes_readinto_at:
  assumes "serves_file c h view" "contains_now view b (se_world s)" "d = portion off (length buffer) b"
  shows "goes (readinto_at c h buffer (int off)) s (Inr (int (length d), d @ drop (length d) buffer)) (contains_now view b)"
proof (cases "buffer = []")
  case True
  then show ?thesis using assms(2,3) by (simp add: readinto_at_def goes_give portion_def)
next
  case False
  then obtain w' where "co_read_range c h (int off) (int (length buffer)) (se_world s) = (Inr d, w')" "contains_now view b w'"
    using assms unfolding serves_file_def reads_file_def contains_now_def by blast
  then have "goes (call (on_wire (co_read_range c h (int off) (int (length buffer))))) s (Inr d) (contains_now view b)" by (rule goes_call)
  then show ?thesis using False by (auto simp: readinto_at_def intro!: goes_andthen goes_give)
qed

lemma goes_write_at:
  assumes "serves_file c h view" "contains_now view b (se_world s)"
  shows "goes (write_at c h (int off) d) s (Inr (int (length d))) (contains_now view (if d = [] then b else overwritten off d b))"
proof (cases "d = []")
  case True
  then show ?thesis using assms(2) by (simp add: write_at_def goes_give)
next
  case False
  then obtain w' where "co_write_range c h d (int off) (se_world s) = (Inr (int (length d)), w')" "contains_now view (overwritten off d b) w'"
    using assms unfolding serves_file_def writes_file_def contains_now_def by blast
  then have "goes (call (on_wire (co_write_range c h d (int off)))) s (Inr (int (length d))) (contains_now view (overwritten off d b))" by (rule goes_call)
  then show ?thesis using False by (simp add: write_at_def)
qed


lemma meets_open_handle:
  assumes "rf_handle f = Some h" "meets (g h) (s, f) r f' R"
  shows "meets (andthen open_handle g) (s, f) r f' R"
  using assms by (auto simp: meets_def open_handle_def own_def ask_def andthen_def give_def)

lemma meets_asks:
  assumes "meets (g (k f)) (s, f) r f' R" shows "meets (andthen (own k) g) (s, f) r f' R"
  using assms by (auto simp: meets_def own_def ask_def andthen_def)

lemma meets_session:
  assumes "goes m s (Inr x) Q" "\<And>w. Q w \<Longrightarrow> meets (g x) (s\<lparr>se_world := w\<rparr>, f) r f' R"
  shows "meets (andthen (of_session m) g) (s, f) r f' R"
  by (rule meets_andthen [OF meets_of_session [OF assms(1)]]) (rule assms(2))

lemma meets_advance:
  "Q (se_world s) \<Longrightarrow> rf_position f = p \<Longrightarrow>
   meets (andthen (advance_by n) (\<lambda>_. give x)) (s, f) (Inr x) (f\<lparr>rf_position := p + n\<rparr>) Q"
  by (rule meetsI [where w = "se_world s"]) (simp_all add: advance_by_def assign_def call_def andthen_def give_def)

lemma meets_answer: "meets m sf r f' Q \<Longrightarrow> meets (andthen m (\<lambda>x. give (k x))) sf (map_sum id k r) f' Q"
  by (cases r) (auto simp: meets_def andthen_def give_def)

lemma meets_seek:
  assumes server: "serves_file c h view" "contains_now view b (se_world s)" and held: "rf_handle f = Some h"
  shows "meets (file_seek c offset whence) (s, f) (seek_reference offset whence b (rf_position f))
           (case seek_reference offset whence b (rf_position f) of Inl e \<Rightarrow> f | Inr q \<Rightarrow> f\<lparr>rf_position := q\<rparr>) (contains_now view b)"
proof -
  obtain a where a: "goes (fstat c h) s (Inr a) (contains_now view b)" "a_size a = Some (int (length b))"
    using goes_fstat [OF server] by blast
  have set: "meets (if target < 0 then throw (ValueErr (Msg ''seek before the start'' [IntArg target]))
       else andthen (assign (\<lambda>f. f\<lparr>rf_position := target\<rparr>)) (\<lambda>_. give target)) (s\<lparr>se_world := w\<rparr>, f)
       (if target < 0 then Inl (ValueErr (Msg ''seek before the start'' [IntArg target])) else Inr target)
       (if target < 0 then f else f\<lparr>rf_position := target\<rparr>) (contains_now view b)"
    if "contains_now view b w" for target w
    using that by (auto intro: meets_throw intro!: meets_andthen [OF meets_assign [where Q = "contains_now view b"]] meets_give)
  have stay: "s\<lparr>se_world := se_world s\<rparr> = s" by simp
  consider "whence = SEEK_SET" | "whence = SEEK_CUR" | "whence = SEEK_END" | (bad) "whence \<notin> {SEEK_SET, SEEK_CUR, SEEK_END}" by blast
  then show ?thesis
  proof cases
    case 1
    then show ?thesis
      using set [OF server(2), of offset]
      by (auto simp: file_seek_def seek_target_def seek_reference_def Let_def add.commute intro!: meets_open_handle [OF held])
  next
    case 2
    then show ?thesis
      using set [OF server(2), of "rf_position f + offset"]
      by (auto simp: file_seek_def seek_target_def seek_reference_def Let_def add.commute SEEK_SET_def SEEK_CUR_def
               intro!: meets_open_handle [OF held] meets_asks)
  next
    case 3
    have "meets (seek_target c h offset whence) (s, f) (Inr (int (length b) + offset)) f (contains_now view b)"
      using 3 a(2) by (auto simp: seek_target_def SEEK_SET_def SEEK_CUR_def SEEK_END_def intro!: meets_session [OF a(1)] meets_give)
    then have "meets (file_seek c offset whence) (s, f)
       (if int (length b) + offset < 0 then Inl (ValueErr (Msg ''seek before the start'' [IntArg (int (length b) + offset)])) else Inr (int (length b) + offset))
       (if int (length b) + offset < 0 then f else f\<lparr>rf_position := int (length b) + offset\<rparr>) (contains_now view b)"
      unfolding file_seek_def by (intro meets_open_handle [OF held]) (rule meets_andthen, assumption, rule set)
    then show ?thesis
      using 3 by (simp add: seek_reference_def Let_def add.commute SEEK_SET_def SEEK_CUR_def SEEK_END_def split: if_splits)
  next
    case bad
    then have "meets (seek_target c h offset whence) (s, f) (Inl (ValueErr (Msg ''whence must be SEEK_SET, SEEK_CUR or SEEK_END'' [IntArg whence]))) f (contains_now view b)"
      using server(2) by (simp add: seek_target_def meets_throw)
    then have "meets (file_seek c offset whence) (s, f) (Inl (ValueErr (Msg ''whence must be SEEK_SET, SEEK_CUR or SEEK_END'' [IntArg whence]))) f (contains_now view b)"
      unfolding file_seek_def by (intro meets_open_handle [OF held] meets_andthen_fails)
    then show ?thesis using bad by (simp add: seek_reference_def)
  qed
qed

lemma meets_read:
  assumes server: "serves_file c h view" "contains_now view b (se_world s)" and held: "rf_handle f = Some h"
    and at: "rf_position f = int off"
  shows "meets (file_read c (Some (int n))) (s, f) (Inr (portion off n b)) (f\<lparr>rf_position := int off + int (length (portion off n b))\<rparr>) (contains_now view b)"
  unfolding file_read_def
  by (rule meets_open_handle [OF held], rule meets_andthen [where Q = "contains_now view b" and ?f1.0 = f and x = "int n"])
     (use server at in \<open>auto simp: read_span_def intro!: meets_give meets_asks meets_session [OF goes_read_at] meets_advance\<close>)

lemma meets_read_all:
  assumes server: "serves_file c h view" "contains_now view b (se_world s)" and held: "rf_handle f = Some h"
    and at: "rf_position f = int off"
  shows "meets (file_read c None) (s, f) (Inr (drop off b)) (f\<lparr>rf_position := int off + int (length (drop off b))\<rparr>) (contains_now view b)"
proof -
  obtain a where a: "goes (fstat c h) s (Inr a) (contains_now view b)" "a_size a = Some (int (length b))"
    using goes_fstat [OF server] by blast
  have span: "meets (read_span c h None) (s, f) (Inr (int (length b - off))) f (contains_now view b)"
    using a(2) at by (auto simp: read_span_def intro!: meets_session [OF a(1)] meets_own)
  have all: "portion off (length b - off) b = drop off b" by (simp add: portion_def)
  show ?thesis
    unfolding file_read_def
    by (rule meets_open_handle [OF held], rule meets_andthen [OF span])
       (use server at in \<open>auto simp: all [symmetric] intro!: meets_asks meets_session [OF goes_read_at] meets_advance\<close>)
qed


lemma meets_readinto:
  assumes server: "serves_file c h view" "contains_now view b (se_world s)" and held: "rf_handle f = Some h"
    and at: "rf_position f = int off" and d: "d = portion off (length buffer) b"
  shows "meets (file_readinto c buffer) (s, f) (Inr (int (length d), d @ drop (length d) buffer))
           (f\<lparr>rf_position := int off + int (length d)\<rparr>) (contains_now view b)"
  unfolding file_readinto_def
  by (rule meets_open_handle [OF held], rule meets_asks, unfold at, rule meets_session [OF goes_readinto_at [OF server d]])
     (use at in \<open>auto intro!: meets_advance\<close>)

lemma meets_write:
  assumes server: "serves_file c h view" "contains_now view b (se_world s)" and held: "rf_handle f = Some h"
    and at: "rf_position f = int off"
  shows "meets (file_write c d) (s, f) (Inr (int (length d))) (f\<lparr>rf_position := int off + int (length d)\<rparr>)
           (contains_now view (if d = [] then b else overwritten off d b))"
  unfolding file_write_def
  by (rule meets_open_handle [OF held], rule meets_asks, unfold at, rule meets_session [OF goes_write_at [OF server]])
     (rule meets_advance [OF _ at], simp)

lemma meets_truncate:
  assumes server: "serves_file c h view" "contains_now view b (se_world s)" and held: "rf_handle f = Some h"
    and n: "n = (case wanted of None \<Rightarrow> rf_position f | Some n \<Rightarrow> n)"
  shows "meets (file_truncate c wanted) (s, f)
           (if n < 0 then Inl (ValueErr (Msg ''size must not be negative'' [IntArg n])) else Inr ()) f
           (contains_now view (if n < 0 then b else resized (nat n) b))"
proof (cases "n < 0")
  case True
  then show ?thesis using server(2) unfolding file_truncate_def n [symmetric]
    by (auto simp: ftruncate_def n [symmetric] intro!: meets_open_handle [OF held] meets_asks meets_of_session goes_throw)
next
  case False
  then have "goes (ftruncate c h n) s (Inr ()) (contains_now view (resized (nat n) b))"
    using goes_ftruncate [OF server, of "nat n"] by simp
  then show ?thesis using False unfolding file_truncate_def
    by (auto simp: n [symmetric] intro!: meets_open_handle [OF held] meets_asks meets_of_session)
qed

lemma meets_call:
  assumes server: "serves_file c h view" "contains_now view b (se_world s)" and held: "rf_handle f = Some h"
    and at: "0 \<le> rf_position f" and ref: "reference_call x (b, rf_position f) = (r, b', p')"
  shows "meets (file_call c x) (s, f) r (f\<lparr>rf_position := p'\<rparr>) (contains_now view b') \<and> 0 \<le> p'"
proof -
  obtain off where off: "rf_position f = int off" using at nonneg_int_cases by blast
  have same: "f\<lparr>rf_position := int off\<rparr> = f" using off by (cases f) simp
  show ?thesis
  proof (cases x)
    case Tell
    then show ?thesis using ref server(2) at
      by (auto simp: file_tell_def off same intro!: meets_asks meets_give)
  next
    case (Seek offset whence)
    have "0 \<le> q" if "seek_reference offset whence b (int off) = Inr q" for q
      using that by (auto simp: seek_reference_def Let_def split: if_splits)
    then show ?thesis using ref Seek meets_answer [OF meets_seek [OF server held, of offset whence], of Position]
      by (cases "seek_reference offset whence b (int off)") (auto simp: off same)
  next
    case (ReadUpTo wanted)
    consider "wanted = None" | n where "wanted = Some (int n)" | n where "wanted = Some n" "n < 0"
      by (metis not_le_imp_less nonneg_int_cases option.exhaust)
    then show ?thesis
    proof cases
      case 1
      then show ?thesis using ref ReadUpTo meets_answer [OF meets_read_all [OF server held off], of Content]
        by (auto simp: off Let_def)
    next
      case (2 n)
      then show ?thesis using ref ReadUpTo meets_answer [OF meets_read [OF server held off, of n], of Content]
        by (auto simp: off Let_def)
    next
      case (3 n)
      have "goes (read_at c h (int off) n) s (Inl (ValueErr (Msg ''length must not be negative'' [IntArg n]))) (contains_now view b)"
        using 3 server(2) by (simp add: read_at_def goes_throw)
      then have "meets (andthen (of_session (read_at c h (int off) n)) g) (s, f)
          (Inl (ValueErr (Msg ''length must not be negative'' [IntArg n]))) f (contains_now view b)" for g :: "bytes \<Rightarrow> (bytes, 'a) file_method"
        by (intro meets_andthen_fails meets_of_session)
      then have "meets (file_read c (Some n)) (s, f) (Inl (ValueErr (Msg ''length must not be negative'' [IntArg n]))) f (contains_now view b)"
        unfolding file_read_def by (intro meets_open_handle [OF held]) (auto simp: read_span_def off intro!: meets_asks)
      from meets_answer [OF this, of Content] show ?thesis using 3 ref ReadUpTo by (auto simp: off same)
    qed
  next
    case (ReadInto buffer)
    then show ?thesis using ref meets_answer [OF meets_readinto [OF server held off refl, of buffer], of "\<lambda>(n, b). Filled n b"]
      by (auto simp: off Let_def case_prod_unfold)
  next
    case (WriteBytes d)
    then show ?thesis using ref meets_answer [OF meets_write [OF server held off, of d], of Position]
      by (auto simp: off split: if_splits)
  next
    case SizeOf
    obtain a where a: "goes (fstat c h) s (Inr a) (contains_now view b)" "a_size a = Some (int (length b))"
      using goes_fstat [OF server] by blast
    have "meets (file_stat c) (s, f) (Inr a) f (contains_now view b)"
      unfolding file_stat_def by (intro meets_open_handle [OF held] meets_of_session a(1))
    from meets_answer [OF this, of "\<lambda>a. Size (a_size a)"] show ?thesis using SizeOf ref a(2) by (auto simp: off same)
  next
    case (Truncate wanted)
    then show ?thesis using ref meets_answer [OF meets_truncate [OF server held refl, of wanted], of "\<lambda>_. Nothing"]
      by (cases wanted) (auto simp: off same Let_def split: if_splits)
  next
    case Flush
    have "meets (file_fsync c) (s, f) (Inr ()) f (contains_now view b)"
      unfolding file_fsync_def by (intro meets_open_handle [OF held] meets_of_session goes_fsync [OF server])
    from meets_answer [OF this, of "\<lambda>_. Nothing"] show ?thesis using Flush ref by (auto simp: off same)
  qed
qed


lemma meets_calls:
  assumes "serves_file c h view" "contains_now view b (se_world s)" "rf_handle f = Some h" "0 \<le> rf_position f"
    "reference_calls xs (b, rf_position f) = (rs, b', p')"
  shows "meets (file_calls c xs) (s, f) (Inr rs) (f\<lparr>rf_position := p'\<rparr>) (contains_now view b')"
  using assms(2-)
proof (induction xs arbitrary: s f b rs)
  case Nil
  then show ?case by (cases f) (simp add: meets_give)
next
  case (Cons x xs)
  obtain r b1 p1 where one: "reference_call x (b, rf_position f) = (r, b1, p1)" using prod_cases3 by blast
  then obtain rs1 where rest: "reference_calls xs (b1, p1) = (rs1, b', p')" "rs = r # rs1"
    using Cons.prems(4) by (auto split: prod.splits)
  note m = meets_call [OF assms(1) Cons.prems(1-3) one]
  show ?case unfolding file_calls.simps
  proof (rule meets_andthen [OF meets_caught [OF conjunct1 [OF m]]])
    fix w assume "contains_now view b1 w"
    then have "meets (file_calls c xs) (s\<lparr>se_world := w\<rparr>, f\<lparr>rf_position := p1\<rparr>) (Inr rs1) (f\<lparr>rf_position := p'\<rparr>) (contains_now view b')"
      using Cons.IH [of b1 "s\<lparr>se_world := w\<rparr>" "f\<lparr>rf_position := p1\<rparr>" rs1] Cons.prems(2) m rest(1) by simp
    from meets_answer [OF this, of "\<lambda>rs. r # rs"]
    show "meets (andthen (file_calls c xs) (\<lambda>rs. give (r # rs))) (s\<lparr>se_world := w\<rparr>, f\<lparr>rf_position := p1\<rparr>) (Inr rs) (f\<lparr>rf_position := p'\<rparr>) (contains_now view b')"
      by (simp add: rest(2))
  qed
qed

section \<open>From opening to closing\<close>

text \<open>\<open>stored w\<close> is the file's content while no handle is open on it.\<close>

definition opens_file :: "'w connection \<Rightarrow> bytes \<Rightarrow> ('w \<Rightarrow> bytes option) \<Rightarrow> ('w \<Rightarrow> bytes option) \<Rightarrow> bytes \<Rightarrow> int \<Rightarrow> int option \<Rightarrow> bool" where
  "opens_file c h view stored path pflags mode \<longleftrightarrow>
     (\<forall>w b. stored w = Some b \<longrightarrow> (\<exists>i w1 w2. co_next c w = (Inr i, w1) \<and>
        co_round_trip c (Packets.Open i path pflags (case mode of None \<Rightarrow> EMPTY_ATTRS | Some m \<Rightarrow> EMPTY_ATTRS\<lparr>a_permissions := Some m\<rparr>) None) w1 =
          (Some (Inr (Handle i h)), w2) \<and> view w2 = opened_as pflags (Some b))) \<and>
     (\<forall>w b i. view w = Some b \<longrightarrow>
        (\<exists>m l w'. co_round_trip c (Close i h) w = (Some (Inr (Status i FX_OK m l None)), w') \<and> stored w' = Some b))"

lemma goes_open:
  assumes "opens_file c h view stored path pflags mode" "stored (se_world s) = Some b" "prefix [47] path"
  shows "goes (open_path c (BytesValue path) pflags mode) s (Inr h) (\<lambda>w. view w = opened_as pflags (Some b))"
proof -
  let ?p = "\<lambda>i. Packets.Open i path pflags (case mode of None \<Rightarrow> EMPTY_ATTRS | Some m \<Rightarrow> EMPTY_ATTRS\<lparr>a_permissions := Some m\<rparr>) None"
  obtain i w1 w2 where n: "co_next c (se_world s) = (Inr i, w1)" and rt: "co_round_trip c (?p i) w1 = (Some (Inr (Handle i h)), w2)"
    and v: "view w2 = opened_as pflags (Some b)"
    using assms(1,2) unfolding opens_file_def by blast
  have "next_id c s = (Inr i, s\<lparr>se_world := w1\<rparr>, [s\<lparr>se_world := w1\<rparr>])" by (simp add: next_id_def call_def on_wire_def n)
  then have "goes (asking c ?p (\<lambda>reply. expect_handle reply path)) s (Inr h) (\<lambda>w. view w = opened_as pflags (Some b))"
    by (rule goes_asking) (rule rt, simp add: expect_handle_def goes_give v)
  then show ?thesis unfolding open_path_def by (rule goes_resolved [OF assms(3)])
qed

lemma goes_repeating:
  assumes "goes m s (Inr x) Q" shows "goes (repeating profile sleep m) s (Inr x) Q"
proof -
  obtain w t where m: "m s = (Inr x, s\<lparr>se_world := w\<rparr>, t)" and Q: "Q w" using assms by (auto simp: goes_def)
  have "nat TRANSIENT_ATTEMPTS = 3" "\<not> TRANSIENT_ATTEMPTS < 1" by (simp_all add: TRANSIENT_ATTEMPTS_def)
  then show ?thesis
    by (intro goesI [where w = w and t = t]) (simp_all add: repeating_def with_transient_retry_def traced_def m Q Let_def numeral_3_eq_3 ladder.simps)
qed

lemma goes_closing:
  assumes "serves_file c h view" "opens_file c h view stored path pflags mode" "contains_now view b (se_world s)"
  shows "goes (close_handle c h) s (Inr ()) (\<lambda>w. stored w = Some b)"
proof -
  obtain i w t where n: "next_id c s = (Inr i, s\<lparr>se_world := w\<rparr>, t)" and w: "view w = Some b"
    using goes_next [OF assms(1,3)] unfolding contains_now_def by blast
  obtain m l w' where a: "co_round_trip c (Close i h) w = (Some (Inr (Status i FX_OK m l None)), w')" "stored w' = Some b"
    using assms(2) w unfolding opens_file_def by blast
  show ?thesis unfolding close_handle_def by (rule goes_done [OF n], rule a(2), rule a(1))
qed

text \<open>
  C36. An open remote file is a file with a cursor. Opened on a server that keeps the file of its
  handle, any sequence of calls - in any order, with any arguments, past the end or before the
  start - returns call for call what a sequence of bytes with a cursor returns, exceptions included;
  the position is that cursor, and the file left behind when the block ends is those bytes, with no
  handle left open.
\<close>

theorem remote_file_refines_reference:
  assumes server: "serves_file c h view" "opens_file c h view stored path pflags mode" and path: "prefix [47] path"
    and before: "stored (se_world s) = Some b" and opened: "opened_as pflags (Some b) = Some b0"
    and ref: "reference_calls xs (b0, 0) = (rs, b', p')"
  shows "\<exists>w f' t. with_file c profile sleep (file_calls c xs) (s, new_remote_file path pflags mode) = (Inr rs, (s\<lparr>se_world := w\<rparr>, f'), t) \<and>
    stored w = Some b' \<and> rf_handle f' = None \<and> rf_position f' = p'"
proof -
  let ?f = "new_remote_file path pflags mode"
  let ?g = "?f\<lparr>rf_entered := True, rf_handle := Some h\<rparr>"
  let ?k = "?g\<lparr>rf_position := p', rf_handle := None\<rparr>"
  have opened_now: "goes (open_path c (BytesValue path) pflags mode) s (Inr h) (contains_now view b0)"
    using goes_open [OF server(2) before path] opened by (simp add: contains_now_def [abs_def])
  then have "goes (if is_repeatable_open pflags then repeating profile sleep (open_path c (BytesValue path) pflags mode)
      else open_path c (BytesValue path) pflags mode) s (Inr h) (contains_now view b0)"
    by (simp add: goes_repeating)
  then have enter: "meets (file_enter c profile sleep) (s, ?f) (Inr ()) ?g (contains_now view b0)"
    unfolding file_enter_def
    by (intro meets_asks) (auto simp: new_remote_file_def Let_def intro!: meets_andthen [OF meets_assign [where Q = "\<lambda>w. w = se_world s"]] meets_session meets_assign)
  have body: "meets (catching (file_calls c xs) (\<lambda>e. andthen (file_exit c True) (\<lambda>_. throw e))) (s\<lparr>se_world := w\<rparr>, ?g) (Inr rs)
      (?g\<lparr>rf_position := p'\<rparr>) (contains_now view b')" if "contains_now view b0 w" for w
    using meets_calls [OF server(1), of b0 "s\<lparr>se_world := w\<rparr>" ?g xs rs b' p'] that ref
    by (auto simp: new_remote_file_def meets_def catching_def)
  have exit: "meets (file_exit c False) (s\<lparr>se_world := w\<rparr>, ?g\<lparr>rf_position := p'\<rparr>) (Inr ()) ?k (\<lambda>w. stored w = Some b')"
    if w: "contains_now view b' w" for w
    using goes_closing [OF server, of b' "s\<lparr>se_world := w\<rparr>"] w unfolding file_exit_def
    by (intro meets_asks)
       (auto simp: new_remote_file_def intro!: meets_andthen [OF meets_assign [where Q = "\<lambda>v. v = w"]] meets_of_session)
  have "meets (with_file c profile sleep (file_calls c xs)) (s, ?f) (Inr rs) ?k (\<lambda>w. stored w = Some b')"
    unfolding with_file_def
  proof (rule meets_andthen [OF enter])
    fix w assume w: "contains_now view b0 w"
    show "meets (andthen (catching (file_calls c xs) (\<lambda>e. andthen (file_exit c True) (\<lambda>_. throw e))) (\<lambda>x. andthen (file_exit c False) (\<lambda>_. give x)))
        (s\<lparr>se_world := w\<rparr>, ?g) (Inr rs) ?k (\<lambda>w. stored w = Some b')"
    proof (rule meets_andthen [OF body [OF w]])
      fix v assume "contains_now view b' v"
      from meets_answer [OF exit [OF this], of "\<lambda>_. rs"]
      show "meets (andthen (file_exit c False) (\<lambda>_. give rs)) (s\<lparr>se_world := w, se_world := v\<rparr>, ?g\<lparr>rf_position := p'\<rparr>) (Inr rs) ?k (\<lambda>w. stored w = Some b')"
        by simp
    qed
  qed
  then show ?thesis by (auto simp: meets_def)
qed


section \<open>A server of one file\<close>

text \<open>Its world is the content and whether the one handle, 07, is open.\<close>

definition one_file_answer :: "packet \<Rightarrow> bytes \<times> bool \<Rightarrow> packet \<times> bytes \<times> bool" where
  "one_file_answer p w =
     (case p of
        Packets.Open i _ pflags _ _ \<Rightarrow> (Handle i [7], the (opened_as pflags (Some (fst w))), True)
      | FStat i _ \<Rightarrow> (AttrsReply i (EMPTY_ATTRS\<lparr>a_size := Some (int (length (fst w)))\<rparr>), w)
      | FSetStat i _ a \<Rightarrow> (Status i FX_OK [] [] None, resized (nat (the (a_size a))) (fst w), snd w)
      | Close i _ \<Rightarrow> (Status i FX_OK [] [] None, fst w, False)
      | Extended i _ _ \<Rightarrow> (Status i FX_OK [] [] None, w)
      | _ \<Rightarrow> (Status 0 FX_FAILURE [] [] None, w))"

definition one_file_server :: "(bytes \<times> bool) connection" where
  "one_file_server =
     \<lparr>co_next = (\<lambda>w. (Inr 0, w)),
      co_round_trip = (\<lambda>p w. case one_file_answer p w of (reply, w') \<Rightarrow> (Some (Inr reply), w')),
      co_extensions = [],
      co_read_range = (\<lambda>h off n w. (Inr (portion (nat off) (nat n) (fst w)), w)),
      co_write_range = (\<lambda>h d off w. (Inr (int (length d)), overwritten (nat off) d (fst w), snd w))\<rparr>"

definition opened_content :: "bytes \<times> bool \<Rightarrow> bytes option" where
  "opened_content w = (if snd w then Some (fst w) else None)"

definition resting_content :: "bytes \<times> bool \<Rightarrow> bytes option" where
  "resting_content w = (if snd w then None else Some (fst w))"

lemma one_file_server_serves: "serves_file one_file_server [7] opened_content"
proof -
  have "fsync_to \<lparr>fy_request_id = i, fy_handle = [7]\<rparr> = Inr (Extended i FSYNC_NAME [0, 0, 0, 1, 7])" for i
    by (simp add: fsync_to_def extended_of_def write_string_def write_uint32_def bind_sum_def UINT32_MAX_def to_bytes_def
        put_chunk_def wire_writer_def getvalue_def be_bytes_def)
  then show ?thesis
    by (auto simp: serves_file_def reads_file_def writes_file_def reports_size_def accepts_def one_file_server_def one_file_answer_def
          opened_content_def split: if_splits)
qed

lemma one_file_server_opens: "opens_file one_file_server [7] opened_content resting_content path pflags mode"
  by (auto simp: opens_file_def one_file_server_def one_file_answer_def opened_content_def resting_content_def opened_as_def split: if_splits)


theorem remote_file_refines_reference_witness:
  "\<exists>w f' t. with_file one_file_server OPENSSH (\<lambda>_ w. (False, w))
      (file_calls one_file_server [ReadUpTo (Some 2), Seek (- 9) SEEK_CUR, Seek 1 SEEK_END, WriteBytes [9], Tell, Seek 0 SEEK_SET, ReadUpTo None, Truncate (Some 1), SizeOf])
      (new_session ([1, 2, 3], False), new_remote_file [47, 97] (OPEN_READ + OPEN_WRITE) None) =
    (Inr [Inr (Content [1, 2]), Inl (ValueErr (Msg ''seek before the start'' [IntArg (- 7)])), Inr (Position 4), Inr (Position 1), Inr (Position 5),
        Inr (Position 0), Inr (Content [1, 2, 3, 0, 9]), Inr Nothing, Inr (Size (Some 1))],
     ((new_session ([1, 2, 3], False))\<lparr>se_world := w\<rparr>, f'), t) \<and>
    resting_content w = Some [1] \<and> rf_handle f' = None \<and> rf_position f' = 5"
  by (rule remote_file_refines_reference [OF one_file_server_serves one_file_server_opens, where b = "[1, 2, 3]" and b0 = "[1, 2, 3]"])
     (simp_all add: resting_content_def new_session_def opened_as_def OPEN_READ_def OPEN_WRITE_def OPEN_TRUNC_def OPEN_CREAT_def
        seek_reference_def SEEK_SET_def SEEK_CUR_def SEEK_END_def Let_def portion_def overwritten_def resized_def numeral_2_eq_2 numeral_3_eq_3, (simp add: take_Cons')?)

end
