(* ===== verification/Transfers.thy ===== *)
theory Transfers
  imports RemoteFile Mirror
begin

text \<open>
  Moving one file: \<open>Session.get\<close> and \<open>Session.put\<close> with \<open>_download_into\<close>, \<open>_publish_upload\<close> and
  \<open>discard_staged\<close> of \<open>session/_session.py\<close> and the local helpers of \<open>session/_policy.py\<close>. The
  operations of the session are put under the verification and the publishing of one file, which
  were stated over an interface. The local disk is a parameter; so are the range loops, whose own
  theories verify them, the digest, the randomness and the clock.
\<close>

section \<open>The disk and what else the session is given\<close>

text \<open>
  Creating or opening a file answers whether the file system accepts the name: the refusal is the
  \<open>OSError\<close> with \<open>EILSEQ\<close>, any other is an exception. \<open>ld_resolve\<close> is \<open>Path.resolve\<close>: the links of
  the destination stay as they are while a transfer runs.
\<close>

record 'w local_disk =
  ld_fs :: "'w local_fs"
  ld_resolve :: "local_path \<Rightarrow> local_path"
  ld_lstat :: "local_path \<Rightarrow> 'w \<Rightarrow> lstat_result"
  ld_fold :: "local_path \<Rightarrow> local_path"
  ld_windows :: bool
  ld_mkdir :: "local_path \<Rightarrow> bool \<Rightarrow> (unit, 'w) act"
  ld_touch :: "local_path \<Rightarrow> (bool, 'w) act"
  ld_open :: "local_path \<Rightarrow> bool \<Rightarrow> bool \<Rightarrow> (nat option, 'w) act"
  ld_open_read :: "local_path \<Rightarrow> bool \<Rightarrow> (nat, 'w) act"
  ld_fchmod :: "nat \<Rightarrow> int \<Rightarrow> (unit, 'w) act"
  ld_utime :: "nat \<Rightarrow> times \<Rightarrow> (unit, 'w) act"
  ld_close :: "nat \<Rightarrow> (unit, 'w) act"
  ld_bytes :: "local_path \<Rightarrow> (bytes, 'w) act"

record 'w engine =
  en_download :: "bytes \<Rightarrow> nat \<Rightarrow> int option \<Rightarrow> int \<Rightarrow> (int, 'w) act"
  en_upload :: "bytes \<Rightarrow> local_path \<Rightarrow> nat \<Rightarrow> (nat, 'w) act"
  en_scratch :: "bytes \<Rightarrow> nat \<Rightarrow> nat \<Rightarrow> (bytes, 'w) act"
  en_digest :: "bytes \<Rightarrow> bytes \<Rightarrow> bytes option"
  en_digest_size :: "bytes \<Rightarrow> int option"
  en_token :: "(bytes, 'w) act"
  en_profile :: server_profile
  en_sleep :: "rat \<Rightarrow> 'w \<Rightarrow> bool \<times> 'w"
  en_journal :: "'w file_ops"
  en_depth :: nat

definition on_local :: "('a, 'w) act \<Rightarrow> ('a, 'w session) prog" where "on_local f = call (on_wire f)"

definition session_open_for_read :: "'w connection \<Rightarrow> 'w engine \<Rightarrow> bytes \<Rightarrow> (bytes, 'w session) prog" where
  "session_open_for_read c en path = repeating (en_profile en) (en_sleep en) (open_path c (BytesValue path) OPEN_READ None)"

definition size_on_disk :: "'w local_disk \<Rightarrow> local_path \<Rightarrow> (int, 'w session) prog" where
  "size_on_disk d path =
     catching (andthen (stat_local (ld_fs d) path) (\<lambda>s. give (st_size s))) (\<lambda>e. if e = OSErr then give 0 else throw e)"

definition via_descriptor :: "'w local_disk \<Rightarrow> local_path \<Rightarrow> bool \<Rightarrow> (nat \<Rightarrow> (unit, 'w) act) \<Rightarrow> (unit, 'w session) prog" where
  "via_descriptor d path no_follow change =
     andthen (on_local (ld_open_read d path no_follow)) (\<lambda>fd. ensuring (on_local (change fd)) (on_local (ld_close d fd)))"

definition chmod_local :: "'w local_disk \<Rightarrow> local_path \<Rightarrow> int \<Rightarrow> bool \<Rightarrow> (unit, 'w session) prog" where
  "chmod_local d path m no_follow = via_descriptor d path no_follow (\<lambda>fd. ld_fchmod d fd m)"

definition stamp_local :: "'w local_disk \<Rightarrow> local_path \<Rightarrow> times \<Rightarrow> bool \<Rightarrow> (unit, 'w session) prog" where
  "stamp_local d path t no_follow = via_descriptor d path no_follow (\<lambda>fd. ld_utime d fd t)"

section \<open>The session under the interface of a file's transfer\<close>

definition as_act :: "('a, 'w) prog \<Rightarrow> ('a, 'w) act" where "as_act m s = (case m s of (r, s', t) \<Rightarrow> (r, s'))"

definition source_of :: "'w local_disk \<Rightarrow> local_path \<Rightarrow> (source_identity, 'w session) prog" where
  "source_of d path =
     (let described = source_identity_of (decode_name (path_bytes path)) in
      catching (andthen (stat_local (ld_fs d) path) (\<lambda>s. give (described (Some (st_size s, st_mtime s)))))
        (\<lambda>e. if e = OSErr then give (described None) else throw e))"

text \<open>A transfer that keeps no journal has no source to name in one.\<close>

definition no_source :: "local_path \<Rightarrow> source_identity" where
  "no_source path = source_identity_of (decode_name (path_bytes path)) None"

definition CHECK_FILE_ALGORITHMS :: bytes where "CHECK_FILE_ALGORITHMS = ascii ''sha256,sha1,md5''"

definition operations_of ::
    "'w connection \<Rightarrow> 'w engine \<Rightarrow> 'w local_disk \<Rightarrow> local_path \<Rightarrow> bytes \<Rightarrow> source_identity \<Rightarrow> 'w session session_ops" where
  "operations_of c en d path about source =
     \<lparr>op_supports = (\<lambda>name s. supports c (ascii name)),
      op_refuses = (\<lambda>name. refuses (ascii name)),
      op_stat = (\<lambda>p. as_act (andthen (stat_path c (BytesValue p)) (\<lambda>a. give (map_option nat (a_size a))))),
      op_lstat = (\<lambda>p. as_act (andthen (lstat_path c (BytesValue p)) (\<lambda>_. give ()))),
      op_open = (\<lambda>p pflags m. as_act (open_path c (BytesValue p) pflags m)),
      op_fchmod = (\<lambda>h m. as_act (fchmod c h m (Some about))),
      op_futime = (\<lambda>h (accessed, modified). as_act (futime c h accessed modified (Some about))),
      op_fsync_if_supported = (\<lambda>h. as_act (fsync_if_supported c h)),
      op_upload_from = (\<lambda>h start. on_wire (en_upload en h path start)),
      op_download_into = (\<lambda>h n start. on_wire (en_scratch en h n start)),
      op_check_file = (\<lambda>h start n block.
        as_act (check_file_digests (en_digest_size en) c h CHECK_FILE_ALGORITHMS (int start) (int n) (int block))),
      op_close = (\<lambda>h. as_act (close_handle c h)),
      op_remove = (\<lambda>p. as_act (remove_path c (BytesValue p))),
      op_rename = (\<lambda>a b. as_act (rename_paths c (BytesValue a) (BytesValue b))),
      op_posix_rename_if_supported = (\<lambda>a b. as_act (posix_rename_if_supported c (BytesValue a) (BytesValue b))),
      op_sleep = (\<lambda>delay s. case en_sleep en delay (se_world s) of (cancelled, w) \<Rightarrow> (cancelled, s\<lparr>se_world := w\<rparr>)),
      op_local_stat = as_act (andthen (stat_local (ld_fs d) path) (\<lambda>s. give (nat (st_size s)))),
      op_local_times = as_act (andthen (stat_local (ld_fs d) path) (\<lambda>s. give (st_atime s, st_mtime s))),
      op_local_bytes = on_wire (ld_bytes d path),
      op_profile = en_profile en,
      op_staging = (\<lambda>staged target. as_act (on_files (journal_staging (en_journal en) staged target source))),
      op_published = (\<lambda>target. as_act (on_files (journal_published (en_journal en) target)))\<rparr>"

section \<open>Downloading one file\<close>

record download_result =
  dr_transferred :: int
  dr_remote_path :: bytes
  dr_local_path :: local_path
  dr_size_check :: size_check
  dr_times :: time_preservation
  dr_content_check :: content_check
  dr_resume_check :: resume_check
  dr_adopted :: int
  dr_mode :: "int option"

definition attempting :: "('a, 'w) prog \<Rightarrow> (exn + 'a, 'w) prog" where
  "attempting m = catching (andthen m (\<lambda>x. give (Inr x))) (\<lambda>e. give (Inl e))"

text \<open>
  \<open>together\<close>: the \<open>STAT\<close> and the \<open>OPEN\<close> are in flight at once, and both are answered before either
  outcome is looked at.
\<close>

definition stat_and_open_for_download ::
    "'w connection \<Rightarrow> 'w engine \<Rightarrow> bytes \<Rightarrow> bool \<Rightarrow> (attrs \<times> bytes option, 'w session) prog" where
  "stat_and_open_for_download c en path together =
     (if \<not> together then andthen (stat_path c (BytesValue path)) (\<lambda>a. give (a, None))
      else andthen (attempting (stat_path c (BytesValue path))) (\<lambda>described.
           andthen (attempting (session_open_for_read c en path)) (\<lambda>opened.
             case (described, opened) of
               (Inr a, Inr h) \<Rightarrow> give (a, Some h)
             | (Inl e, Inr h) \<Rightarrow> andthen (quietly_close c h) (\<lambda>_. throw e)
             | (Inl e, Inl _) \<Rightarrow> throw e
             | (Inr _, Inl e) \<Rightarrow> throw e)))"

definition download_into ::
    "'w engine \<Rightarrow> 'w local_disk \<Rightarrow> local_path \<Rightarrow> bytes \<Rightarrow> int option \<Rightarrow> bytes \<Rightarrow> bool \<Rightarrow> int \<Rightarrow> times option \<Rightarrow> int option \<Rightarrow>
     (int, 'w session) prog" where
  "download_into en d local_path h size_reported remote_path no_follow start t m =
     andthen (on_local (ld_open d local_path (start \<noteq> 0) no_follow)) (\<lambda>opened.
       case opened of
         None \<Rightarrow> throw (TransferErr (Msg ''the local filesystem will not accept the name'' []) 0 None (Some remote_path))
       | Some fd \<Rightarrow>
           ensuring
             (andthen (on_local (en_download en h fd size_reported start)) (\<lambda>n.
              andthen (case m of None \<Rightarrow> give () | Some bits \<Rightarrow> on_local (ld_fchmod d fd bits)) (\<lambda>_.
              andthen (case t of None \<Rightarrow> give () | Some stamp \<Rightarrow> on_local (ld_utime d fd stamp)) (\<lambda>_. give n))))
             (on_local (ld_close d fd)))"

definition already_complete ::
    "'w local_disk \<Rightarrow> bytes \<Rightarrow> local_path \<Rightarrow> int \<Rightarrow> int option \<Rightarrow> bool \<Rightarrow> times option \<Rightarrow> time_preservation \<Rightarrow> resume_check \<Rightarrow> verify \<Rightarrow>
     (download_result, 'w session) prog" where
  "already_complete d remote_path local_path adopted m no_follow t times_result resume_check v =
     andthen (case m of None \<Rightarrow> give () | Some bits \<Rightarrow> chmod_local d local_path bits no_follow) (\<lambda>_.
     andthen (case t of None \<Rightarrow> give () | Some stamp \<Rightarrow> stamp_local d local_path stamp no_follow) (\<lambda>_.
       give \<lparr>dr_transferred = 0, dr_remote_path = remote_path, dr_local_path = local_path, dr_size_check = SizeMatched, dr_times = times_result,
             dr_content_check = gate_as_content_check resume_check v, dr_resume_check = resume_check, dr_adopted = adopted, dr_mode = m\<rparr>))"

definition fetch ::
    "'w connection \<Rightarrow> 'w engine \<Rightarrow> 'w local_disk \<Rightarrow> bytes \<Rightarrow> local_path \<Rightarrow> bool \<Rightarrow> bool \<Rightarrow> bool \<Rightarrow> verify \<Rightarrow> bool \<Rightarrow>
     attrs \<Rightarrow> bytes option \<Rightarrow> int option \<Rightarrow> int \<Rightarrow> resume_check \<Rightarrow> (download_result, 'w session) prog" where
  "fetch c en d encoded local_path no_follow resume verify_size v preserve_times a opened bits start resume_check =
     (let t = (if preserve_times then a_times a else None); kept = preservation preserve_times (a_times a) in
      if resume \<and> a_size a = Some start
      then already_complete d encoded local_path start bits no_follow t kept resume_check v
      else andthen (case opened of Some h \<Rightarrow> give h | None \<Rightarrow> session_open_for_read c en encoded) (\<lambda>h.
           andthen (catching (download_into en d local_path h (a_size a) encoded no_follow start t bits)
                      (\<lambda>e. andthen (quietly_close c h) (\<lambda>_. throw e))) (\<lambda>n.
           andthen (close_handle c h) (\<lambda>_.
           andthen (raising (confirm_download_size encoded (start + n) (a_size a) verify_size)) (\<lambda>sized.
           andthen (verify_downloaded_content (operations_of c en d local_path encoded (no_source local_path)) (en_digest en) encoded (nat (start + n)) v) (\<lambda>checked.
             give \<lparr>dr_transferred = n, dr_remote_path = encoded, dr_local_path = local_path, dr_size_check = sized, dr_times = kept,
                   dr_content_check = checked, dr_resume_check = resume_check, dr_adopted = start, dr_mode = bits\<rparr>))))))"

text \<open>\<open>Session.get\<close>.\<close>

definition get_file ::
    "'w connection \<Rightarrow> 'w engine \<Rightarrow> 'w local_disk \<Rightarrow> py_arg \<Rightarrow> local_path \<Rightarrow> bool \<Rightarrow> bool \<Rightarrow> bool \<Rightarrow> verify \<Rightarrow> bool \<Rightarrow> py_arg \<Rightarrow>
     (download_result, 'w session) prog" where
  "get_file c en d remote_path local_path no_follow resume verify_size v preserve_times mode_arg =
     andthen (resolve remote_path) (\<lambda>encoded.
     andthen (raising (resolve_mode mode_arg)) (\<lambda>requested.
     andthen (stat_and_open_for_download c en encoded (\<not> resume)) (\<lambda>(a, opened).
     andthen (raising (download_mode requested a encoded)) (\<lambda>bits.
     andthen (if resume then andthen (size_on_disk d local_path) (\<lambda>have_bytes. raising (download_resume_offset (nat have_bytes) (a_size a) encoded))
              else give 0) (\<lambda>start.
     andthen (gate_resume (operations_of c en d local_path encoded (no_source local_path)) (en_digest en) encoded (nat start) v) (\<lambda>resume_check.
       fetch c en d encoded local_path no_follow resume verify_size v preserve_times a opened bits start resume_check))))))"

section \<open>Uploading one file\<close>

text \<open>What the journal knows of an earlier run, read from the whole log: \<open>staged_for\<close> on a fresh fold.\<close>

definition continuing_at ::
    "'w engine \<Rightarrow> publish \<Rightarrow> bool \<Rightarrow> bytes option \<Rightarrow> bytes \<Rightarrow> source_identity \<Rightarrow> (bytes option, 'w session) prog" where
  "continuing_at en policy resume name target source =
     (if pub_journal policy \<and> resume \<and> name = None
      then andthen (ask (\<lambda>s. snd (staged_for (en_depth en) (fo_read (en_journal en) (se_world s)) target source new_folded))) (\<lambda>found.
             case found of
               Inl e \<Rightarrow> throw (exn_of_journal e)
             | Inr staged \<Rightarrow> give (resume_target (Some (\<lambda>_. staged)) target resume name))
      else give (resume_target None target resume name))"

definition publish_upload ::
    "'w connection \<Rightarrow> 'w engine \<Rightarrow> 'w local_disk \<Rightarrow> upload_settings \<Rightarrow> local_path \<Rightarrow> bytes \<Rightarrow> publish \<Rightarrow> (upload_result, 'w session) prog" where
  "publish_upload c en d up local_path target policy =
     (if \<not> pub_atomic policy then put_in_place (operations_of c en d local_path target (no_source local_path)) (en_digest en) up target
      else andthen (raising (optional_path (pub_staging_name policy))) (\<lambda>name.
            andthen (if (case name of None \<Rightarrow> True | Some n \<Rightarrow> 47 \<notin> set n) then require_rooted_paths c target else give ()) (\<lambda>_.
            andthen (source_of d local_path) (\<lambda>source.
            andthen (continuing_at en policy (up_resume up) name target source) (\<lambda>continuing.
            andthen (case continuing of
                       Some staged \<Rightarrow> give staged
                     | None \<Rightarrow> andthen (on_local (en_token en)) (\<lambda>random. raising (staged_path target (staging_token random) name))) (\<lambda>staged.
              put_atomically (operations_of c en d local_path staged source) (en_digest en) up target staged
                (pub_require_atomic policy) (pub_journal policy)))))))"

definition put_one ::
    "'w connection \<Rightarrow> 'w engine \<Rightarrow> 'w local_disk \<Rightarrow> local_path \<Rightarrow> py_arg \<Rightarrow> publish option \<Rightarrow> (string, py_arg) dict \<Rightarrow> bool \<Rightarrow> bool \<Rightarrow>
     py_arg \<Rightarrow> verify \<Rightarrow> (upload_result, 'w session) prog" where
  "put_one c en d local_path remote_path chosen legacy resume preserve_times mode_arg v =
     andthen (resolve remote_path) (\<lambda>target.
     andthen (raising (resolve_mode mode_arg)) (\<lambda>requested.
     andthen (raising (publish_from_legacy chosen legacy)) (\<lambda>(policy, _).
     andthen (raising (check_publish_flags policy resume)) (\<lambda>_.
     andthen (ask (refuses FSYNC_NAME)) (\<lambda>refused.
       if pub_require_fsync policy \<and> refused then throw (CapabilityErr ''durable upload'')
       else andthen (case requested of
                       None \<Rightarrow> give None
                     | Some (Bits n) \<Rightarrow> give (Some n)
                     | Some PreserveMode \<Rightarrow> andthen (stat_local (ld_fs d) local_path) (\<lambda>s. give (Some (local_mode (st_mode s))))) (\<lambda>m.
              publish_upload c en d
                \<lparr>up_fsync = pub_fsync policy, up_require_fsync = pub_require_fsync policy, up_resume = resume,
                 up_preserve_times = preserve_times, up_verify = v, up_mode = m\<rparr>
                local_path target policy))))))"

text \<open>\<open>discard_staged\<close>: each record is removed from the server and then struck from the journal.\<close>

fun discard_entries :: "'w connection \<Rightarrow> 'w engine \<Rightarrow> journal_entry list \<Rightarrow> bytes list \<Rightarrow> (bytes list, 'w session) prog" where
  "discard_entries c en [] gone = give gone"
| "discard_entries c en (entry # entries) gone =
     andthen (catching (andthen (remove_path c (BytesValue (je_staged entry))) (\<lambda>_. give (gone @ [je_staged entry])))
                (\<lambda>e. if is_no_such_file e then give gone else throw e)) (\<lambda>gone'.
     andthen (on_files (journal_published (en_journal en) (je_target entry))) (\<lambda>_. discard_entries c en entries gone'))"

definition discard_staged :: "'w connection \<Rightarrow> 'w engine \<Rightarrow> (bytes list, 'w session) prog" where
  "discard_staged c en =
     andthen (ask (\<lambda>s. fold_log (en_depth en) (fo_read (en_journal en) (se_world s)))) (\<lambda>known.
       case known of
         Inl e \<Rightarrow> throw (exn_of_journal e)
       | Inr entries \<Rightarrow>
           andthen (discard_entries c en (map snd entries) []) (\<lambda>gone.
           andthen (on_files (compact (en_depth en) (en_journal en))) (\<lambda>_. give gone)))"

end
