(* ===== verification/Trees.thy ===== *)
theory Trees
  imports Transfers
begin

text \<open>
  Moving many files: \<open>get_tree\<close>, \<open>get_many\<close>, \<open>put_tree\<close> and \<open>put_many\<close> of \<open>session/_session.py\<close>, with
  the settling of names, directories and collisions (\<open>_walk_for_download\<close>, \<open>_settle_file\<close>,
  \<open>_claim_download\<close> and \<open>session/_policy.py\<close>) and the plans of \<open>session/_recursive.py\<close>. One worker: an
  item is transferred as soon as it is settled.
\<close>

section \<open>Ledgers and collisions\<close>

text \<open>\<open>DestinationLedger\<close>, by what a file is, and \<open>FoldedNameLedger\<close>, by its folded name.\<close>

datatype ledger_book = OnDisk "(nat \<times> nat) claims" | Previewed "local_path claims"

record path_collision =
  pc_local :: bytes
  pc_remote :: bytes
  pc_first :: bytes

definition ledger_collides :: "'w local_disk \<Rightarrow> ledger_book \<Rightarrow> local_path \<Rightarrow> (bytes option, 'w session) prog" where
  "ledger_collides d book path =
     andthen (ask (\<lambda>s.
       case book of
         OnDisk claims \<Rightarrow> collides_with (\<lambda>p. ld_lstat d p (se_world s)) path claims
       | Previewed claims \<Rightarrow> folded_collides_with (ld_fold d) path claims)) raising"

definition ledger_claim :: "'w local_disk \<Rightarrow> ledger_book \<Rightarrow> local_path \<Rightarrow> bytes \<Rightarrow> (ledger_book, 'w session) prog" where
  "ledger_claim d book path remote =
     andthen (ask (\<lambda>s.
       case book of
         OnDisk claims \<Rightarrow> map_sum id OnDisk (claim (\<lambda>p. ld_lstat d p (se_world s)) path remote claims)
       | Previewed claims \<Rightarrow> map_sum id Previewed (folded_claim (ld_fold d) path remote claims))) raising"

section \<open>The state of a tree download\<close>

record download_state =
  ds_ledger :: ledger_book
  ds_directories :: nat
  ds_moved :: "int list"
  ds_skipped :: "skipped list"
  ds_collisions :: "path_collision list"
  ds_planned_files :: nat
  ds_planned_bytes :: int
  ds_sizes_unreported :: nat
  ds_directory_times :: "(local_path \<times> times) list"
  ds_directory_modes :: "(local_path \<times> int) list"

definition new_download_state :: "bool \<Rightarrow> download_state" where
  "new_download_state dry_run =
     \<lparr>ds_ledger = (if dry_run then Previewed [] else OnDisk []), ds_directories = 0, ds_moved = [], ds_skipped = [], ds_collisions = [],
      ds_planned_files = 0, ds_planned_bytes = 0, ds_sizes_unreported = 0, ds_directory_times = [], ds_directory_modes = []\<rparr>"

section \<open>Settling a directory\<close>

definition ensure_directory :: "'w local_disk \<Rightarrow> local_path \<Rightarrow> bool \<Rightarrow> (unit, 'w session) prog" where
  "ensure_directory d path parents = on_local (ld_mkdir d path parents)"

definition local_directory :: "'w local_disk \<Rightarrow> local_path \<Rightarrow> bytes list \<Rightarrow> exn + local_path" where
  "local_directory d destination relative =
     bind_sum (descend destination relative (ld_windows d)) (check_contained (ld_resolve d) destination)"

definition claim_directory :: "'w local_disk \<Rightarrow> ledger_book \<Rightarrow> local_path \<Rightarrow> bytes \<Rightarrow> (ledger_book \<times> path_collision list, 'w session) prog" where
  "claim_directory d book directory remote =
     (let created = ld_resolve d directory in
      andthen (ledger_collides d book created) (\<lambda>first.
        case first of
          None \<Rightarrow> andthen (ledger_claim d book created remote) (\<lambda>book'. give (book', []))
        | Some claimant \<Rightarrow> give (book, [\<lparr>pc_local = path_bytes directory, pc_remote = remote, pc_first = claimant\<rparr>])))"

text \<open>The local paths of the child directories that report what \<open>pick\<close> asks of them.\<close>

definition child_directories :: "'w local_disk \<Rightarrow> local_path \<Rightarrow> (attrs \<Rightarrow> 'a option) \<Rightarrow> dir_entry list \<Rightarrow> exn + (local_path \<times> 'a) list" where
  "child_directories d directory pick children =
     map_sum_list (\<lambda>child. bind_sum (local_child directory (de_filename child) (ld_windows d))
       (\<lambda>path. Inr (path, the (pick (de_attrs child))))) (filter (\<lambda>child. pick (de_attrs child) \<noteq> None) children)"

definition settle_directory ::
    "'w local_disk \<Rightarrow> walk_entry \<Rightarrow> local_path \<Rightarrow> bool \<Rightarrow> mode option \<Rightarrow> bool \<Rightarrow> download_state \<Rightarrow> (download_state, 'w session) prog" where
  "settle_directory d we directory preserve_times requested dry_run st =
     andthen (if we_relative we = [] then give st
              else andthen (if dry_run then give () else ensure_directory d directory False) (\<lambda>_.
                   andthen (claim_directory d (ds_ledger st) directory (we_path we)) (\<lambda>(book', collided).
                     give (st\<lparr>ds_directories := ds_directories st + 1, ds_ledger := book', ds_collisions := ds_collisions st @ collided\<rparr>)))) (\<lambda>st.
     andthen (raising (if preserve_times then child_directories d directory a_times (we_directories we) else Inr [])) (\<lambda>stamps.
     andthen (raising (if requested = Some PreserveMode
                then child_directories d directory (\<lambda>a. map_option (\<lambda>p. p AND PERMISSION_BITS) (a_permissions a)) (we_directories we) else Inr [])) (\<lambda>bits.
       give (st\<lparr>ds_directory_times := ds_directory_times st @ stamps, ds_directory_modes := ds_directory_modes st @ bits,
                ds_skipped := ds_skipped st @ we_skipped we\<rparr>))))"

section \<open>Settling a file\<close>

definition note_planned :: "dir_entry \<Rightarrow> download_state \<Rightarrow> download_state" where
  "note_planned child st =
     (let st = st\<lparr>ds_planned_files := ds_planned_files st + 1\<rparr> in
      case a_size (de_attrs child) of
        None \<Rightarrow> st\<lparr>ds_sizes_unreported := ds_sizes_unreported st + 1\<rparr>
      | Some n \<Rightarrow> st\<lparr>ds_planned_bytes := ds_planned_bytes st + n\<rparr>)"

text \<open>What a claim comes to: the name refused by the file system, taken already, or claimed.\<close>

datatype claim_result = NameRefused | Taken path_collision | Claimed ledger_book

definition claim_local_destination :: "'w local_disk \<Rightarrow> local_path \<Rightarrow> bytes \<Rightarrow> ledger_book \<Rightarrow> bool \<Rightarrow> (claim_result, 'w session) prog" where
  "claim_local_destination d target remote book dry_run =
     andthen (if dry_run then give True else on_local (ld_touch d target)) (\<lambda>accepted.
       if \<not> accepted then give NameRefused
       else andthen (ledger_collides d book target) (\<lambda>first.
         case first of
           Some claimant \<Rightarrow> give (Taken \<lparr>pc_local = path_bytes target, pc_remote = remote, pc_first = claimant\<rparr>)
         | None \<Rightarrow> andthen (ledger_claim d book target remote) (\<lambda>book'. give (Claimed book'))))"

definition claim_download ::
    "'w local_disk \<Rightarrow> local_path \<Rightarrow> local_path \<Rightarrow> walk_entry \<Rightarrow> dir_entry \<Rightarrow> ledger_book \<Rightarrow> bool \<Rightarrow> (settled_download \<times> claim_result, 'w session) prog" where
  "claim_download d destination directory we child book dry_run =
     andthen (raising (bind_sum (local_child directory (de_filename child) (ld_windows d)) (check_contained (ld_resolve d) destination))) (\<lambda>target.
     let remote = join_remote (we_path we) (de_filename child) in
     andthen (claim_local_destination d target remote book dry_run) (\<lambda>r.
       give (\<lparr>sd_remote = remote, sd_target = target\<rparr>, r)))"

definition settle_file ::
    "'w local_disk \<Rightarrow> local_path \<Rightarrow> local_path \<Rightarrow> walk_entry \<Rightarrow> bool \<Rightarrow> dir_entry \<Rightarrow> download_state \<Rightarrow>
     (settled_download option \<times> download_state, 'w session) prog" where
  "settle_file d destination directory we dry_run child st =
     (let st = (if dry_run then note_planned child st else st) in
      andthen (claim_download d destination directory we child (ds_ledger st) dry_run) (\<lambda>(item, r).
        case r of
          NameRefused \<Rightarrow>
            give (None, st\<lparr>ds_skipped := ds_skipped st @
              [\<lparr>sk_path = join_remote (we_path we) (de_filename child), sk_entry = child, sk_reason = DestinationRefusedTheName\<rparr>]\<rparr>)
        | Taken collision \<Rightarrow>
            (let st = st\<lparr>ds_collisions := ds_collisions st @ [collision]\<rparr> in
             give (None, if dry_run then st
                         else st\<lparr>ds_skipped := ds_skipped st @ [\<lparr>sk_path = pc_remote collision, sk_entry = child, sk_reason = DestinationCollision\<rparr>]\<rparr>))
        | Claimed book' \<Rightarrow> give (Some item, st\<lparr>ds_ledger := book'\<rparr>)))"

section \<open>Walking for a download\<close>

type_synonym 'w fetcher = "settled_download \<Rightarrow> download_state \<Rightarrow> (download_state, 'w session) prog"

fun settle_files ::
    "'w local_disk \<Rightarrow> local_path \<Rightarrow> local_path \<Rightarrow> walk_entry \<Rightarrow> bool \<Rightarrow> 'w fetcher \<Rightarrow> dir_entry list \<Rightarrow> download_state \<Rightarrow>
     (download_state, 'w session) prog" where
  "settle_files d destination directory we dry_run transfer [] st = give st"
| "settle_files d destination directory we dry_run transfer (child # children) st =
     andthen (settle_file d destination directory we dry_run child st) (\<lambda>(item, st).
     andthen (case item of None \<Rightarrow> give st | Some settled \<Rightarrow> transfer settled st) (\<lambda>st.
       settle_files d destination directory we dry_run transfer children st))"

definition walk_for_download ::
    "nat \<Rightarrow> nat \<Rightarrow> 'w connection \<Rightarrow> 'w local_disk \<Rightarrow> py_arg \<Rightarrow> local_path \<Rightarrow> nat option \<Rightarrow> bool \<Rightarrow> mode option \<Rightarrow> bool \<Rightarrow> 'w fetcher \<Rightarrow>
     download_state \<Rightarrow> (download_state option, 'w session) prog" where
  "walk_for_download fuel scan_fuel c d remote_path destination max_depth preserve_times requested dry_run transfer st =
     walking fuel scan_fuel c remote_path max_depth
       (\<lambda>we st.
          andthen (raising (local_directory d destination (we_relative we))) (\<lambda>directory.
          andthen (settle_directory d we directory preserve_times requested dry_run st) (\<lambda>st.
            settle_files d destination directory we dry_run transfer (we_files we) st)))
       st"

section \<open>Downloading a tree\<close>

datatype plan_limit =
    DestinationComparison | DestinationFilesystemRules | PerFileTransferDecisions | UnreportedSizes | RemoteDirectoryExistence

record tree_plan =
  tp_files :: nat
  tp_directories :: nat
  tp_bytes :: int
  tp_skipped :: "skipped list"
  tp_collisions :: "path_collision list"
  tp_undetermined :: "plan_limit list"

definition plan_complete :: "tree_plan \<Rightarrow> bool" where
  "plan_complete p \<longleftrightarrow> tp_skipped p = [] \<and> tp_collisions p = []"

datatype tree_report = Moved tree_result | Planned tree_plan

definition suppress_oserror :: "(unit, 'w) prog \<Rightarrow> (unit, 'w) prog" where
  "suppress_oserror m = catching m (\<lambda>e. if e = OSErr then give () else throw e)"

definition stamp_local_directories :: "'w local_disk \<Rightarrow> (local_path \<times> times) list \<Rightarrow> (unit, 'w session) prog" where
  "stamp_local_directories d entries = each (\<lambda>(path, t). suppress_oserror (stamp_local d path t True)) entries"

definition chmod_local_directories :: "'w local_disk \<Rightarrow> (local_path \<times> int) list \<Rightarrow> (unit, 'w session) prog" where
  "chmod_local_directories d entries = each (\<lambda>(path, m). suppress_oserror (chmod_local d path m True)) entries"

definition collision_error :: "path_collision list \<Rightarrow> nat \<Rightarrow> int \<Rightarrow> exn" where
  "collision_error collisions n transferred =
     DestinationCollisionErr (map (\<lambda>x. (pc_local x, pc_remote x, pc_first x)) collisions) n transferred"

definition plan_of_download :: "download_state \<Rightarrow> tree_plan" where
  "plan_of_download st =
     \<lparr>tp_files = ds_planned_files st, tp_directories = ds_directories st, tp_bytes = ds_planned_bytes st, tp_skipped = ds_skipped st,
      tp_collisions = ds_collisions st,
      tp_undetermined = [DestinationComparison, DestinationFilesystemRules, PerFileTransferDecisions] @
        (if ds_sizes_unreported st > 0 then [UnreportedSizes] else [])\<rparr>"

definition tree_fetch :: "'w connection \<Rightarrow> 'w engine \<Rightarrow> 'w local_disk \<Rightarrow> bool \<Rightarrow> bool \<Rightarrow> py_arg \<Rightarrow> bool \<Rightarrow> 'w fetcher" where
  "tree_fetch c en d resume preserve_times mode_arg dry_run item st =
     (if dry_run then give st
      else andthen (get_file c en d (BytesValue (sd_remote item)) (sd_target item) True resume True VerifySize preserve_times mode_arg) (\<lambda>r.
        give (st\<lparr>ds_moved := ds_moved st @ [dr_transferred r]\<rparr>)))"

definition get_tree ::
    "nat \<Rightarrow> nat \<Rightarrow> 'w connection \<Rightarrow> 'w engine \<Rightarrow> 'w local_disk \<Rightarrow> py_arg \<Rightarrow> local_path \<Rightarrow> nat option \<Rightarrow> bool \<Rightarrow> bool \<Rightarrow> py_arg \<Rightarrow> bool \<Rightarrow> bool \<Rightarrow> int \<Rightarrow>
     (tree_report option, 'w session) prog" where
  "get_tree fuel scan_fuel c en d remote_path destination max_depth progress preserve_times mode_arg resume dry_run concurrency =
     andthen (raising (check_transfer_concurrency concurrency progress)) (\<lambda>_.
     andthen (raising (resolve_mode mode_arg)) (\<lambda>requested.
     andthen (if dry_run then give () else ensure_directory d destination True) (\<lambda>_.
     andthen (walk_for_download fuel scan_fuel c d remote_path destination max_depth preserve_times requested dry_run
                (tree_fetch c en d resume preserve_times mode_arg dry_run) (new_download_state dry_run)) (\<lambda>walked.
       case walked of
         None \<Rightarrow> give None
       | Some st \<Rightarrow>
           (if dry_run then give (Some (Planned (plan_of_download st)))
            else andthen (stamp_local_directories d (ds_directory_times st)) (\<lambda>_.
                 andthen (chmod_local_directories d (ds_directory_modes st)) (\<lambda>_.
                   if ds_collisions st \<noteq> [] then throw (collision_error (ds_collisions st) (length (ds_moved st)) (sum_list (ds_moved st)))
                   else give (Some (Moved \<lparr>tr_files = length (ds_moved st), tr_directories = ds_directories st,
                          tr_transferred = nat (sum_list (ds_moved st)), tr_skipped = ds_skipped st\<rparr>)))))))))"

section \<open>Downloading a list\<close>

record list_state =
  ls_ledger :: ledger_book
  ls_collisions :: "path_collision list"
  ls_results :: "download_result list"

fun get_each ::
    "'w local_disk \<Rightarrow> (settled_download \<Rightarrow> (download_result, 'w session) prog) \<Rightarrow> settled_download list \<Rightarrow> list_state \<Rightarrow> (list_state, 'w session) prog" where
  "get_each d transfer [] st = give st"
| "get_each d transfer (item # items) st =
     andthen (claim_local_destination d (sd_target item) (sd_remote item) (ls_ledger st) False) (\<lambda>r.
     andthen (case r of
                NameRefused \<Rightarrow> throw OSErr
              | Taken collision \<Rightarrow> give (st\<lparr>ls_collisions := ls_collisions st @ [collision]\<rparr>)
              | Claimed book' \<Rightarrow> andthen (transfer item) (\<lambda>x. give (st\<lparr>ls_ledger := book', ls_results := ls_results st @ [x]\<rparr>))) (\<lambda>st.
       get_each d transfer items st))"

definition get_many ::
    "'w connection \<Rightarrow> 'w engine \<Rightarrow> 'w local_disk \<Rightarrow> py_arg list \<Rightarrow> local_path \<Rightarrow> bool \<Rightarrow> bool \<Rightarrow> py_arg \<Rightarrow> bool \<Rightarrow> int \<Rightarrow>
     (download_result list, 'w session) prog" where
  "get_many c en d remote_paths destination progress preserve_times mode_arg resume concurrency =
     andthen (raising (check_transfer_concurrency concurrency progress)) (\<lambda>_.
     andthen (raising (resolve_mode mode_arg)) (\<lambda>_.
     andthen (ensure_directory d destination True) (\<lambda>_.
     andthen (raising (settle_downloads (ld_resolve d) (ld_windows d) remote_paths destination)) (\<lambda>items.
     andthen (get_each d (\<lambda>item. get_file c en d (BytesValue (sd_remote item)) (sd_target item) False resume True VerifySize preserve_times mode_arg)
                items \<lparr>ls_ledger = OnDisk [], ls_collisions = [], ls_results = []\<rparr>) (\<lambda>st.
       if ls_collisions st \<noteq> []
       then throw (collision_error (ls_collisions st) (length (ls_results st)) (sum_list (map dr_transferred (ls_results st))))
       else give (ls_results st))))))"

section \<open>Uploading a tree\<close>

record upload_tree_state =
  ut_moved :: "nat list"
  ut_planned :: "int list"

fun put_names ::
    "(local_path \<Rightarrow> bytes \<Rightarrow> upload_tree_state \<Rightarrow> (upload_tree_state, 'w session) prog) \<Rightarrow> local_path \<Rightarrow> bytes \<Rightarrow> bytes list \<Rightarrow>
     upload_tree_state \<Rightarrow> (upload_tree_state, 'w session) prog" where
  "put_names transfer directory remote [] st = give st"
| "put_names transfer directory remote (name # names_left) st =
     andthen (raising (LocalTree.remote_component name)) (\<lambda>component.
     andthen (transfer (path_div directory name) (join_remote remote component) st) (\<lambda>st.
       put_names transfer directory remote names_left st))"

definition put_tree ::
    "nat \<Rightarrow> 'w connection \<Rightarrow> 'w engine \<Rightarrow> 'w local_disk \<Rightarrow> local_path \<Rightarrow> py_arg \<Rightarrow> nat option \<Rightarrow> publish option \<Rightarrow> (string, py_arg) dict \<Rightarrow> bool \<Rightarrow> bool \<Rightarrow> py_arg \<Rightarrow>
     bool \<Rightarrow> bool \<Rightarrow> int \<Rightarrow> (tree_report option, 'w session) prog" where
  "put_tree fuel c en d local_top remote_path max_depth chosen legacy progress preserve_times mode_arg resume dry_run concurrency =
     andthen (raising (check_transfer_concurrency concurrency progress)) (\<lambda>_.
     andthen (resolve remote_path) (\<lambda>base_dir.
     andthen (raising (publish_from_legacy chosen legacy)) (\<lambda>(policy, _).
     andthen (raising (check_tree_publish policy resume)) (\<lambda>_.
     andthen (raising (resolve_mode mode_arg)) (\<lambda>requested.
     andthen (require_rooted_paths c base_dir) (\<lambda>_.
     andthen (if dry_run then give () else mkdir_parents c base_dir True) (\<lambda>_.
     andthen (walk_for_upload fuel c (ld_fs d) local_top base_dir max_depth preserve_times requested dry_run
       (\<lambda>lw remote st.
          put_names (\<lambda>source target st.
             if dry_run then andthen (size_on_disk d source) (\<lambda>n. give (st\<lparr>ut_planned := ut_planned st @ [n]\<rparr>))
             else andthen (put_one c en d source (BytesValue target) (Some policy) [] resume preserve_times mode_arg VerifySize) (\<lambda>r.
                    give (st\<lparr>ut_moved := ut_moved st @ [ur_transferred r]\<rparr>)))
            (lw_path lw) remote (lw_files lw) st)
       \<lparr>ut_moved = [], ut_planned = []\<rparr>) (\<lambda>walked.
       case walked of
         None \<Rightarrow> give None
       | Some (ws, st) \<Rightarrow>
           (if dry_run then
              give (Some (Planned \<lparr>tp_files = length (ut_planned st), tp_directories = uw_directories ws, tp_bytes = sum_list (ut_planned st),
                tp_skipped = uw_skipped ws, tp_collisions = [],
                tp_undetermined = [RemoteDirectoryExistence, PerFileTransferDecisions, DestinationComparison]\<rparr>))
            else andthen (set_directory_times c (uw_times ws)) (\<lambda>_.
                 andthen (set_directory_modes c (uw_modes ws)) (\<lambda>_.
                   give (Some (Moved \<lparr>tr_files = length (ut_moved st), tr_directories = uw_directories ws,
                          tr_transferred = sum_list (ut_moved st), tr_skipped = uw_skipped ws\<rparr>)))))))))))))"

section \<open>Uploading a list\<close>

fun put_each :: "(settled_upload \<Rightarrow> ('a, 'w session) prog) \<Rightarrow> settled_upload list \<Rightarrow> ('a list, 'w session) prog" where
  "put_each transfer [] = give []"
| "put_each transfer (item # items) = andthen (transfer item) (\<lambda>r. andthen (put_each transfer items) (\<lambda>rs. give (r # rs)))"

definition put_many ::
    "'w connection \<Rightarrow> 'w engine \<Rightarrow> 'w local_disk \<Rightarrow> local_path list \<Rightarrow> py_arg \<Rightarrow> publish option \<Rightarrow> bool \<Rightarrow> bool \<Rightarrow> py_arg \<Rightarrow> bool \<Rightarrow> int \<Rightarrow>
     (upload_result list, 'w session) prog" where
  "put_many c en d local_paths remote_path chosen progress preserve_times mode_arg resume concurrency =
     andthen (raising (check_transfer_concurrency concurrency progress)) (\<lambda>_.
     andthen (resolve remote_path) (\<lambda>base_dir.
     andthen (raising (publish_from_legacy chosen [])) (\<lambda>(policy, _).
     andthen (raising (check_tree_publish policy resume)) (\<lambda>_.
     andthen (raising (resolve_mode mode_arg)) (\<lambda>_.
     andthen (raising (settle_uploads local_paths base_dir)) (\<lambda>items.
     andthen (require_rooted_paths c base_dir) (\<lambda>_.
     andthen (mkdir_parents c base_dir True) (\<lambda>_.
       put_each (\<lambda>item. put_one c en d (su_source item) (BytesValue (su_remote item)) (Some policy) [] resume preserve_times mode_arg VerifySize) items))))))))"

end
