(* ===== verification/TreeLaws.thy ===== *)
theory TreeLaws
  imports Trees
begin

text \<open>
  What downloading a tree can do to the local disk, whatever the server answers. The statement
  compares the run with the same run in a jail: a disk that refuses every path outside the
  destination, and every path that a symbolic link might lead elsewhere.
\<close>

section \<open>The jail\<close>

definition below_names :: "'w local_disk \<Rightarrow> local_path \<Rightarrow> local_path \<Rightarrow> bool" where
  "below_names d destination path \<longleftrightarrow>
     prefix destination path \<and> list_all (\<lambda>n. unsafe_reason n (ld_windows d) = None) (drop (length destination) path)"

definition confined :: "'w local_disk \<Rightarrow> local_path \<Rightarrow> local_path \<Rightarrow> bool" where
  "confined d destination path \<longleftrightarrow>
     below_names d destination path \<and> prefix (ld_resolve d destination) (ld_resolve d path)"

definition refused_act :: "('a, 'w) act" where "refused_act w = (Inl OSErr, w)"

text \<open>
  Inside is what is named below the destination and resolves to a place below it; an open must also
  ask not to follow a symbolic link. Only the destination itself may be made with its parents.
\<close>

definition jail :: "local_path \<Rightarrow> 'w local_disk \<Rightarrow> 'w local_disk" where
  "jail destination d =
     d\<lparr>ld_fs := \<lparr>lf_scandir = (\<lambda>_. refused_act), lf_stat = (\<lambda>p. if confined d destination p then lf_stat (ld_fs d) p else refused_act)\<rparr>,
       ld_mkdir := (\<lambda>p parents. if confined d destination p \<and> \<not> parents \<or> p = destination then ld_mkdir d p parents else refused_act),
       ld_touch := (\<lambda>p. if confined d destination p then ld_touch d p else refused_act),
       ld_open := (\<lambda>p resume no_follow. if confined d destination p \<and> no_follow then ld_open d p resume no_follow else refused_act),
       ld_open_read := (\<lambda>p no_follow. if below_names d destination p \<and> no_follow then ld_open_read d p no_follow else refused_act),
       ld_bytes := (\<lambda>p. if confined d destination p then ld_bytes d p else refused_act)\<rparr>"

lemma jail_simps [simp]:
  "ld_resolve (jail destination d) = ld_resolve d" "ld_lstat (jail destination d) = ld_lstat d" "ld_fold (jail destination d) = ld_fold d"
  "ld_windows (jail destination d) = ld_windows d" "ld_fchmod (jail destination d) = ld_fchmod d" "ld_utime (jail destination d) = ld_utime d"
  "ld_close (jail destination d) = ld_close d"
  by (simp_all add: jail_def)

lemma below_names_append: "below_names d destination (destination @ ns) \<longleftrightarrow> list_all (\<lambda>n. unsafe_reason n (ld_windows d) = None) ns"
  by (simp add: below_names_def)

lemma below_names_child:
  "below_names d destination directory \<Longrightarrow> local_child directory name (ld_windows d) = Inr path \<Longrightarrow> below_names d destination path"
  by (auto simp: below_names_def local_child_cases prefix_def split: option.splits)

lemma contained: "check_contained f base_dir path = Inr p \<longleftrightarrow> p = path \<and> prefix (f base_dir) (f path)"
  by (auto simp: check_contained_def split: if_splits)

lemma local_directory_confined: "local_directory d destination relative = Inr directory \<Longrightarrow> confined d destination directory"
  by (auto simp: local_directory_def bind_sum_def contained confined_def descend_ok below_names_append split: sum.splits)

lemma raising_cong: "(\<And>x. r = Inr x \<Longrightarrow> f x = g x) \<Longrightarrow> andthen (raising r) f = andthen (raising r) g"
  by (cases r) (simp_all add: raising_def fun_eq_iff andthen_def throw_def)

section \<open>One file inside the jail\<close>

lemma jail_stat: "confined d destination p \<Longrightarrow> stat_local (ld_fs (jail destination d)) p = stat_local (ld_fs d) p"
  by (simp add: stat_local_def jail_def)

lemma jail_operations:
  "confined d destination p \<Longrightarrow> operations_of c en (jail destination d) p about source = operations_of c en d p about source"
  by (simp add: operations_of_def jail_stat) (simp add: jail_def)

lemma jail_download_into:
  "confined d destination p \<Longrightarrow> download_into en (jail destination d) p h n remote True start t m = download_into en d p h n remote True start t m"
  unfolding download_into_def jail_simps by (simp add: jail_def)

lemma jail_descriptor:
  "below_names d destination p \<Longrightarrow> chmod_local (jail destination d) p m True = chmod_local d p m True"
  "below_names d destination p \<Longrightarrow> stamp_local (jail destination d) p t True = stamp_local d p t True"
  unfolding chmod_local_def stamp_local_def via_descriptor_def jail_simps by (simp_all add: jail_def)

lemma jail_get_file:
  assumes "confined d destination p"
  shows "get_file c en (jail destination d) remote p True resume verify_size v preserve_times mode_arg =
    get_file c en d remote p True resume verify_size v preserve_times mode_arg"
proof -
  have b: "below_names d destination p" using assms by (simp add: confined_def)
  have "size_on_disk (jail destination d) p = size_on_disk d p" by (simp add: size_on_disk_def jail_stat assms)
  then show ?thesis
    by (simp add: get_file_def fetch_def already_complete_def Let_def jail_operations [OF assms] jail_download_into [OF assms] jail_descriptor [OF b]
          cong: option.case_cong if_cong)
qed

section \<open>Settling inside the jail\<close>

lemma jail_ledger: "ledger_collides (jail destination d) = ledger_collides d" "ledger_claim (jail destination d) = ledger_claim d"
  by (unfold ledger_collides_def ledger_claim_def jail_simps, rule refl, rule refl)

lemma jail_claim_local:
  "confined d destination p \<Longrightarrow> claim_local_destination (jail destination d) p remote book dry_run = claim_local_destination d p remote book dry_run"
  unfolding claim_local_destination_def jail_ledger by (simp add: jail_def)

lemma claimed_target:
  assumes "below_names d destination directory"
    "bind_sum (local_child directory name (ld_windows d)) (check_contained (ld_resolve d) destination) = Inr target"
  shows "confined d destination target"
  using assms below_names_child [OF assms(1)] by (auto simp: bind_sum_def contained confined_def split: sum.splits)

lemma jail_claim_download:
  assumes "below_names d destination directory"
  shows "claim_download (jail destination d) destination directory we child book dry_run = claim_download d destination directory we child book dry_run"
  unfolding claim_download_def jail_simps
  by (rule raising_cong) (simp add: Let_def jail_claim_local [OF claimed_target [OF assms]])

lemma jail_settle_file:
  "below_names d destination directory \<Longrightarrow>
   settle_file (jail destination d) destination directory we dry_run child st = settle_file d destination directory we dry_run child st"
  by (simp add: settle_file_def jail_claim_download)

lemma jail_settle_directory:
  "confined d destination directory \<Longrightarrow>
   settle_directory (jail destination d) we directory preserve_times requested dry_run st = settle_directory d we directory preserve_times requested dry_run st"
  unfolding settle_directory_def claim_directory_def child_directories_def ensure_directory_def jail_ledger jail_simps by (simp add: jail_def)


section \<open>What a program can return\<close>

definition yields :: "('a \<Rightarrow> bool) \<Rightarrow> ('a, 'w) prog \<Rightarrow> bool" where
  "yields P m \<longleftrightarrow> (\<forall>w x w' t. m w = (Inr x, w', t) \<longrightarrow> P x)"

named_theorems yields_rules

lemma yields_give [yields_rules]: "P x \<Longrightarrow> yields P (give x)"
  by (simp add: yields_def give_def)

lemma yields_throw [yields_rules]: "yields P (throw e)"
  by (simp add: yields_def throw_def)

lemma yields_any: "yields (\<lambda>_. True) m"
  by (simp add: yields_def)

lemma yields_andthen: "yields P m \<Longrightarrow> (\<And>x. P x \<Longrightarrow> yields Q (f x)) \<Longrightarrow> yields Q (andthen m f)"
  unfolding yields_def andthen_def by (auto split: prod.splits sum.splits) blast

lemma yields_andthen_any: "(\<And>x. yields Q (f x)) \<Longrightarrow> yields Q (andthen m f)"
  by (rule yields_andthen [OF yields_any])

lemma yields_raising: "(\<And>x. r = Inr x \<Longrightarrow> P x) \<Longrightarrow> yields P (raising r)"
  by (cases r) (simp_all add: yields_def raising_def throw_def give_def)

lemma yields_weaken: "yields P m \<Longrightarrow> (\<And>x. P x \<Longrightarrow> Q x) \<Longrightarrow> yields Q m"
  by (auto simp: yields_def)

lemma andthen_cong: "yields P m \<Longrightarrow> (\<And>x. P x \<Longrightarrow> f x = g x) \<Longrightarrow> andthen m f = andthen m g"
proof (rule ext)
  fix w assume P: "yields P m" and same: "\<And>x. P x \<Longrightarrow> f x = g x"
  obtain r w' t where m: "m w = (r, w', t)" using prod_cases3 by blast
  have "f x = g x" if "r = Inr x" for x using P same that m unfolding yields_def by blast
  then show "andthen m f w = andthen m g w" by (cases r) (simp_all add: andthen_def m)
qed

text \<open>A walk depends on its body only at the states its body can return.\<close>

lemma walk_loop_cong:
  assumes "\<And>we acc. P acc \<Longrightarrow> body we acc = body' we acc" "\<And>we acc. P acc \<Longrightarrow> yields P (body we acc)"
  shows "P acc \<Longrightarrow> walk_loop fuel scan_fuel c max_depth stack body acc = walk_loop fuel scan_fuel c max_depth stack body' acc \<and>
    yields (\<lambda>r. \<forall>a. r = Some a \<longrightarrow> P a) (walk_loop fuel scan_fuel c max_depth stack body acc)"
proof (induction fuel arbitrary: stack acc)
  case 0
  then show ?case by (cases stack) (auto intro!: yields_give)
next
  case (Suc fuel)
  show ?case
  proof (cases stack)
    case Nil
    then show ?thesis using Suc.prems by (auto intro!: yields_give)
  next
    case (Cons x xs)
    obtain p r where x: "x = (p, r)" by fastforce
    note same = assms(1) [OF Suc.prems, symmetric] and keeps = assms(2) [OF Suc.prems]
    have "andthen (body we acc) (\<lambda>acc. walk_loop fuel scan_fuel c max_depth (below we @ xs) body acc) =
        andthen (body we acc) (\<lambda>acc. walk_loop fuel scan_fuel c max_depth (below we @ xs) body' acc)" for we
      by (rule andthen_cong [OF keeps]) (use Suc.IH in blast)
    moreover have "yields (\<lambda>r. \<forall>a. r = Some a \<longrightarrow> P a) (andthen (body we acc) (\<lambda>acc. walk_loop fuel scan_fuel c max_depth (below we @ xs) body acc))" for we
      by (rule yields_andthen [OF keeps]) (use Suc.IH in blast)
    ultimately show ?thesis
      by (auto simp: Cons x same intro!: yields_andthen_any yields_give split: option.split cong: option.case_cong)
  qed
qed
  


section \<open>The directories to stamp stay inside\<close>

definition stamps_inside :: "'w local_disk \<Rightarrow> local_path \<Rightarrow> download_state \<Rightarrow> bool" where
  "stamps_inside d destination st \<longleftrightarrow>
     (\<forall>(p, _) \<in> set (ds_directory_times st). below_names d destination p) \<and> (\<forall>(p, _) \<in> set (ds_directory_modes st). below_names d destination p)"

lemma stamps_inside_more:
  "stamps_inside d destination st \<Longrightarrow> ds_directory_times st' = ds_directory_times st \<Longrightarrow> ds_directory_modes st' = ds_directory_modes st \<Longrightarrow>
   stamps_inside d destination st'"
  by (simp add: stamps_inside_def)

lemma map_sum_list_set: "map_sum_list f xs = Inr ys \<Longrightarrow> y \<in> set ys \<Longrightarrow> \<exists>x \<in> set xs. f x = Inr y"
  by (induction xs arbitrary: ys) (auto simp: bind_sum_def split: sum.splits)

lemma child_directories_inside:
  assumes "below_names d destination directory" "child_directories d directory pick children = Inr entries" "(p, x) \<in> set entries"
  shows "below_names d destination p"
proof -
  obtain child :: dir_entry where "bind_sum (local_child directory (de_filename child) (ld_windows d)) (\<lambda>path. Inr (path, the (pick (de_attrs child)))) = Inr (p, x)"
    using map_sum_list_set [OF assms(2,3) [unfolded child_directories_def]] by blast
  then have "local_child directory (de_filename child) (ld_windows d) = Inr p"
    by (cases "local_child directory (de_filename child) (ld_windows d)") (simp_all add: bind_sum_def)
  then show ?thesis by (rule below_names_child [OF assms(1)])
qed

lemma settle_directory_yields:
  assumes "stamps_inside d destination st" "confined d destination directory"
  shows "yields (stamps_inside d destination) (settle_directory d we directory preserve_times requested dry_run st)"
proof -
  have b: "below_names d destination directory" using assms(2) by (simp add: confined_def)
  have first: "yields (stamps_inside d destination)
      (if we_relative we = [] then give st
       else andthen (if dry_run then give () else ensure_directory d directory False) (\<lambda>_.
            andthen (claim_directory d (ds_ledger st) directory (we_path we)) (\<lambda>(book', collided).
              give (st\<lparr>ds_directories := ds_directories st + 1, ds_ledger := book', ds_collisions := ds_collisions st @ collided\<rparr>))))"
    using assms(1) by (auto simp: stamps_inside_def intro!: yields_give yields_andthen_any)
  have some: "\<forall>(p, _) \<in> set entries. below_names d destination p"
    if "(if wanted then child_directories d directory pick (we_directories we) else Inr []) = Inr entries" for wanted pick and entries :: "(local_path \<times> 'b) list"
    using that by (auto split: if_splits intro: child_directories_inside [OF b])
  note listed = yields_raising [where P = "\<lambda>entries. \<forall>(p, _) \<in> set entries. below_names d destination p", OF some]
  show ?thesis unfolding settle_directory_def
    by (rule yields_andthen [OF first], rule yields_andthen [OF listed], assumption, rule yields_andthen [OF listed], assumption, rule yields_give)
       (auto simp: stamps_inside_def)
qed

lemma settle_file_yields:
  assumes "stamps_inside d destination st" "below_names d destination directory"
  shows "yields (\<lambda>(item, st). stamps_inside d destination st \<and> (\<forall>x. item = Some x \<longrightarrow> confined d destination (sd_target x)))
    (settle_file d destination directory we dry_run child st)"
proof -
  have st: "stamps_inside d destination (if dry_run then note_planned child st else st)"
    using assms(1) by (auto simp: note_planned_def stamps_inside_def Let_def split: option.splits)
  have claim: "yields (\<lambda>(item, _). confined d destination (sd_target item)) (claim_download d destination directory we child book dry_run)" for book
    unfolding claim_download_def
    by (rule yields_andthen [OF yields_raising], assumption, drule claimed_target [OF assms(2)])
       (auto simp: Let_def intro!: yields_andthen_any yields_give)
  show ?thesis unfolding settle_file_def Let_def
    by (rule yields_andthen [OF claim]) (use st in \<open>auto intro!: yields_give split: claim_result.split elim!: stamps_inside_more\<close>)
qed

lemma tree_fetch_yields:
  "stamps_inside d destination st \<Longrightarrow> yields (stamps_inside d destination) (tree_fetch c en d resume preserve_times mode_arg dry_run item st)"
  unfolding tree_fetch_def by (auto simp: stamps_inside_def intro!: yields_give yields_andthen_any)

lemma jail_tree_fetch:
  "confined d destination (sd_target item) \<Longrightarrow>
   tree_fetch c en (jail destination d) resume preserve_times mode_arg dry_run item st = tree_fetch c en d resume preserve_times mode_arg dry_run item st"
  by (simp add: tree_fetch_def jail_get_file)

abbreviation settled_files ::
    "'w connection \<Rightarrow> 'w engine \<Rightarrow> 'w local_disk \<Rightarrow> local_path \<Rightarrow> local_path \<Rightarrow> walk_entry \<Rightarrow> bool \<Rightarrow> bool \<Rightarrow> py_arg \<Rightarrow> bool \<Rightarrow> dir_entry list \<Rightarrow> download_state \<Rightarrow>
     (download_state, 'w session) prog" where
  "settled_files c en d destination directory we resume preserve_times mode_arg dry_run children st \<equiv>
     settle_files d destination directory we dry_run (tree_fetch c en d resume preserve_times mode_arg dry_run) children st"

lemma settled_files_inside:
  assumes "below_names d destination directory"
  shows "stamps_inside d destination st \<Longrightarrow>
    settled_files c en (jail destination d) destination directory we resume preserve_times mode_arg dry_run children st =
      settled_files c en d destination directory we resume preserve_times mode_arg dry_run children st \<and>
    yields (stamps_inside d destination) (settled_files c en d destination directory we resume preserve_times mode_arg dry_run children st)"
proof (induction children arbitrary: st)
  case (Cons child children)
  let ?one = "\<lambda>d' item st. case item of None \<Rightarrow> give st | Some x \<Rightarrow> tree_fetch c en d' resume preserve_times mode_arg dry_run x st"
  note settled = settle_file_yields [OF Cons.prems assms, of we dry_run child]
  have one: "yields (stamps_inside d destination) (?one d item st)" if "stamps_inside d destination st" for item st
    using that by (auto intro!: yields_give tree_fetch_yields split: option.split)
  have rest: "andthen (?one (jail destination d) item st) (settled_files c en (jail destination d) destination directory we resume preserve_times mode_arg dry_run children) =
      andthen (?one d item st) (settled_files c en d destination directory we resume preserve_times mode_arg dry_run children) \<and>
      yields (stamps_inside d destination) (andthen (?one d item st) (settled_files c en d destination directory we resume preserve_times mode_arg dry_run children))"
    if "stamps_inside d destination st" "\<forall>x. item = Some x \<longrightarrow> confined d destination (sd_target x)" for item st
  proof -
    have "?one (jail destination d) item st = ?one d item st" using that(2) by (auto simp: jail_tree_fetch split: option.split)
    moreover have "andthen (?one d item st) (settled_files c en (jail destination d) destination directory we resume preserve_times mode_arg dry_run children) =
        andthen (?one d item st) (settled_files c en d destination directory we resume preserve_times mode_arg dry_run children)"
      by (rule andthen_cong [OF one [OF that(1)]]) (use Cons.IH in blast)
    ultimately show ?thesis using yields_andthen [OF one [OF that(1)]] Cons.IH by auto
  qed
  show ?case unfolding settle_files.simps jail_settle_file [OF assms]
    by (intro conjI andthen_cong [OF settled] yields_andthen [OF settled]) (use rest in auto)
qed (auto intro: yields_give)


definition download_body ::
    "'w connection \<Rightarrow> 'w engine \<Rightarrow> 'w local_disk \<Rightarrow> local_path \<Rightarrow> bool \<Rightarrow> bool \<Rightarrow> py_arg \<Rightarrow> mode option \<Rightarrow> bool \<Rightarrow> walk_entry \<Rightarrow> download_state \<Rightarrow>
     (download_state, 'w session) prog" where
  "download_body c en d destination resume preserve_times mode_arg requested dry_run we st =
     andthen (raising (local_directory d destination (we_relative we))) (\<lambda>directory.
     andthen (settle_directory d we directory preserve_times requested dry_run st) (\<lambda>st.
       settled_files c en d destination directory we resume preserve_times mode_arg dry_run (we_files we) st))"

lemma download_body_inside:
  assumes "stamps_inside d destination st"
  shows "download_body c en (jail destination d) destination resume preserve_times mode_arg requested dry_run we st =
      download_body c en d destination resume preserve_times mode_arg requested dry_run we st"
    "yields (stamps_inside d destination) (download_body c en d destination resume preserve_times mode_arg requested dry_run we st)"
proof -
  have same: "local_directory (jail destination d) = local_directory d"
    unfolding local_directory_def jail_simps by (rule refl)
  have rest: "andthen (settle_directory (jail destination d) we directory preserve_times requested dry_run st)
        (settled_files c en (jail destination d) destination directory we resume preserve_times mode_arg dry_run (we_files we)) =
      andthen (settle_directory d we directory preserve_times requested dry_run st)
        (settled_files c en d destination directory we resume preserve_times mode_arg dry_run (we_files we)) \<and>
      yields (stamps_inside d destination) (andthen (settle_directory d we directory preserve_times requested dry_run st)
        (settled_files c en d destination directory we resume preserve_times mode_arg dry_run (we_files we)))"
    if "local_directory d destination (we_relative we) = Inr directory" for directory
  proof -
    have inside: "confined d destination directory" "below_names d destination directory"
      using local_directory_confined [OF that] by (simp_all add: confined_def)
    note settled = settle_directory_yields [OF assms inside(1)]
    show ?thesis unfolding jail_settle_directory [OF inside(1)]
      by (intro conjI andthen_cong [OF settled] yields_andthen [OF settled]) (use settled_files_inside [OF inside(2)] in blast)+
  qed
  show "download_body c en (jail destination d) destination resume preserve_times mode_arg requested dry_run we st =
      download_body c en d destination resume preserve_times mode_arg requested dry_run we st"
    unfolding download_body_def same by (rule raising_cong) (use rest in blast)
  show "yields (stamps_inside d destination) (download_body c en d destination resume preserve_times mode_arg requested dry_run we st)"
    unfolding download_body_def by (rule yields_andthen [OF yields_raising], assumption) (use rest in blast)
qed

lemma walk_inside:
  assumes "stamps_inside d destination st"
  shows "walk_for_download fuel scan_fuel c (jail destination d) remote_path destination max_depth preserve_times requested dry_run
        (tree_fetch c en (jail destination d) resume preserve_times mode_arg dry_run) st =
      walk_for_download fuel scan_fuel c d remote_path destination max_depth preserve_times requested dry_run
        (tree_fetch c en d resume preserve_times mode_arg dry_run) st"
    "yields (\<lambda>r. \<forall>st. r = Some st \<longrightarrow> stamps_inside d destination st)
      (walk_for_download fuel scan_fuel c d remote_path destination max_depth preserve_times requested dry_run
        (tree_fetch c en d resume preserve_times mode_arg dry_run) st)"
proof -
  have form: "walk_for_download fuel scan_fuel c d' remote_path destination max_depth preserve_times requested dry_run
        (tree_fetch c en d' resume preserve_times mode_arg dry_run) st =
      walking fuel scan_fuel c remote_path max_depth (download_body c en d' destination resume preserve_times mode_arg requested dry_run) st" for d'
    unfolding walk_for_download_def download_body_def by (rule refl)
  note cong = walk_loop_cong [of "stamps_inside d destination" "download_body c en d destination resume preserve_times mode_arg requested dry_run"
      "download_body c en (jail destination d) destination resume preserve_times mode_arg requested dry_run",
      OF download_body_inside(1) [symmetric] download_body_inside(2) assms]
  show "walk_for_download fuel scan_fuel c (jail destination d) remote_path destination max_depth preserve_times requested dry_run
        (tree_fetch c en (jail destination d) resume preserve_times mode_arg dry_run) st =
      walk_for_download fuel scan_fuel c d remote_path destination max_depth preserve_times requested dry_run
        (tree_fetch c en d resume preserve_times mode_arg dry_run) st"
    unfolding form walking_def using cong by simp
  show "yields (\<lambda>r. \<forall>st. r = Some st \<longrightarrow> stamps_inside d destination st)
      (walk_for_download fuel scan_fuel c d remote_path destination max_depth preserve_times requested dry_run
        (tree_fetch c en d resume preserve_times mode_arg dry_run) st)"
    unfolding form walking_def by (intro yields_andthen_any conjunct2 [OF cong])
qed

lemma each_cong: "(\<And>x. x \<in> set xs \<Longrightarrow> f x = g x) \<Longrightarrow> each f xs = each g xs"
  by (induction xs) simp_all

lemma jail_stamps:
  assumes "stamps_inside d destination st"
  shows "stamp_local_directories (jail destination d) (ds_directory_times st) = stamp_local_directories d (ds_directory_times st)"
    "chmod_local_directories (jail destination d) (ds_directory_modes st) = chmod_local_directories d (ds_directory_modes st)"
  unfolding stamp_local_directories_def chmod_local_directories_def
  by (rule each_cong, use assms in \<open>auto simp: stamps_inside_def jail_descriptor\<close>)+


end
