(* ===== verification/PlanLaws.thy ===== *)
theory PlanLaws
  imports TreeLaws TraversalLaws
begin

text \<open>
  A dry run only looks: the plan of a tree is the same when the server answers nothing but the
  requests that read, and the local disk nothing but what \<open>scandir\<close> and \<open>stat\<close> ask.
\<close>

section \<open>Looking\<close>

definition looks :: "packet \<Rightarrow> bool" where
  "looks p =
     (case p of
        OpenDir _ _ \<Rightarrow> True | ReadDir _ _ \<Rightarrow> True | Close _ _ \<Rightarrow> True
      | Stat _ _ \<Rightarrow> True | LStat _ _ \<Rightarrow> True | RealPath _ _ \<Rightarrow> True
      | _ \<Rightarrow> False)"

definition only_looking :: "'w connection \<Rightarrow> 'w connection" where
  "only_looking c =
     c\<lparr>co_round_trip := (\<lambda>p w. if looks p then co_round_trip c p w else (Some (Inl OSErr), w)),
       co_read_range := (\<lambda>_ _ _. refused_act), co_write_range := (\<lambda>_ _ _. refused_act)\<rparr>"

definition only_reading :: "'w local_disk \<Rightarrow> 'w local_disk" where
  "only_reading d =
     d\<lparr>ld_mkdir := (\<lambda>_ _. refused_act), ld_touch := (\<lambda>_. refused_act), ld_open := (\<lambda>_ _ _. refused_act),
       ld_open_read := (\<lambda>_ _. refused_act), ld_fchmod := (\<lambda>_ _. refused_act), ld_utime := (\<lambda>_ _. refused_act),
       ld_close := (\<lambda>_. refused_act), ld_bytes := (\<lambda>_. refused_act)\<rparr>"

lemma looking_next: "next_id (only_looking c) = next_id c"
  by (simp add: next_id_def only_looking_def)

lemma looking_request: "looks p \<Longrightarrow> request (only_looking c) p = request c p"
  by (simp add: request_def only_looking_def)

lemma looking_asking: "(\<And>i. looks (build i)) \<Longrightarrow> asking (only_looking c) build answer = asking c build answer"
  by (simp add: asking_def looking_next looking_request)

lemma looking_operations:
  "opendir (only_looking c) path = opendir c path" "readdir (only_looking c) h = readdir c h"
  "stat_path (only_looking c) path = stat_path c path" "lstat_path (only_looking c) path = lstat_path c path"
  "realpath_raw (only_looking c) encoded = realpath_raw c encoded" "close_handle (only_looking c) h = close_handle c h"
  unfolding opendir_def readdir_def stat_path_def lstat_path_def realpath_raw_def close_handle_def expect_status_asking
  by (simp_all add: looking_asking looks_def)

lemma looking_scan:
  "scan_enter (only_looking c) = scan_enter c" "scan_fill (only_looking c) = scan_fill c" "scan_exit (only_looking c) = scan_exit c"
  unfolding scan_enter_def [abs_def] scan_fill_def [abs_def] scan_exit_def [abs_def] quietly_close_def looking_operations by (rule refl)+

lemma looking_scan_loop: "scan_loop fuel (only_looking c) sc body acc = scan_loop fuel c sc body acc"
proof (induction fuel arbitrary: sc acc)
  case (Suc fuel)
  show ?case unfolding scan_loop.simps looking_scan Suc.IH by (rule refl)
qed simp

lemma looking_walk_one: "walk_one fuel (only_looking c) max_depth directory relative = walk_one fuel c max_depth directory relative"
  unfolding walk_one_def scanning_def looking_scan looking_scan_loop settle_for_walk_def settle_kind_def attrs_or_absent_def looking_operations
  by (rule refl)

lemma looking_walk_loop: "walk_loop fuel scan_fuel (only_looking c) max_depth stack body acc = walk_loop fuel scan_fuel c max_depth stack body acc"
proof (induction fuel arbitrary: stack acc)
  case 0
  then show ?case by (cases stack) simp_all
next
  case (Suc fuel)
  show ?case
  proof (cases stack)
    case (Cons x xs)
    obtain p r where x: "x = (p, r)" by fastforce
    show ?thesis unfolding Cons x walk_loop.simps looking_walk_one Suc.IH by (rule refl)
  qed simp
qed

lemma looking_rooted: "require_rooted_paths (only_looking c) path = require_rooted_paths c path"
  unfolding require_rooted_paths_def learn_root_def looking_operations by (rule refl)

lemma looking_walk: "walking fuel scan_fuel (only_looking c) path max_depth body acc = walking fuel scan_fuel c path max_depth body acc"
  unfolding walking_def looking_rooted looking_walk_loop by (rule refl)

section \<open>Planning\<close>

lemma reading_simps:
  "ld_resolve (only_reading d) = ld_resolve d" "ld_lstat (only_reading d) = ld_lstat d" "ld_fold (only_reading d) = ld_fold d"
  "ld_windows (only_reading d) = ld_windows d" "ld_fs (only_reading d) = ld_fs d"
  by (simp_all add: only_reading_def)

lemma reading_ledger: "ledger_collides (only_reading d) = ledger_collides d" "ledger_claim (only_reading d) = ledger_claim d"
  by (unfold ledger_collides_def ledger_claim_def reading_simps, rule refl, rule refl)

lemma planned_fetch: "tree_fetch c en d resume preserve_times mode_arg True = (\<lambda>item st. give st)"
  by (simp add: tree_fetch_def fun_eq_iff)

lemma reading_settle_directory:
  "settle_directory (only_reading d) we directory preserve_times requested True st = settle_directory d we directory preserve_times requested True st"
  unfolding settle_directory_def claim_directory_def child_directories_def reading_simps reading_ledger by simp

lemma reading_settle_file: "settle_file (only_reading d) destination directory we True = settle_file d destination directory we True"
  unfolding settle_file_def [abs_def] claim_download_def claim_local_destination_def reading_simps reading_ledger by simp

lemma reading_settle_files:
  "settle_files (only_reading d) destination directory we True transfer children st = settle_files d destination directory we True transfer children st"
proof (induction children arbitrary: st)
  case (Cons child children)
  show ?case unfolding settle_files.simps reading_settle_file Cons.IH by (rule refl)
qed simp

lemma planned_walk:
  "walk_for_download fuel scan_fuel (only_looking c) (only_reading d) remote_path destination max_depth preserve_times requested True
     (\<lambda>item st. give st) st =
   walk_for_download fuel scan_fuel c d remote_path destination max_depth preserve_times requested True (\<lambda>item st. give st) st"
  unfolding walk_for_download_def looking_walk local_directory_def reading_simps reading_settle_directory reading_settle_files
  by (rule refl)

lemma planned_names:
  "put_names (\<lambda>source target st. if True then andthen (size_on_disk (only_reading d) source) (k st) else m source target st) directory remote listed st =
   put_names (\<lambda>source target st. if True then andthen (size_on_disk d source) (k st) else m' source target st) directory remote listed st"
proof (induction listed arbitrary: st)
  case (Cons x xs)
  show ?case unfolding put_names.simps Cons.IH by (simp add: size_on_disk_def reading_simps)
qed simp

lemma planned_upload_walk:
  "walk_for_upload fuel c fs local_top base_dir max_depth preserve_times requested True = walk_for_upload fuel c' fs local_top base_dir max_depth preserve_times requested True"
  unfolding walk_for_upload_def [abs_def] if_True by (rule refl)

text \<open>
  C38. A dry run writes nothing, in either direction. The plan of a download and of an upload - counts,
  sizes, skipped entries, collisions, exceptions, every intermediate state - is the same when the
  server refuses every request but those that list and describe, when the disk refuses to create,
  open, change or read any file, and whatever the engine that moves bytes would do.
\<close>

theorem plan_writes_nothing:
  "get_tree fuel scan_fuel (only_looking c) en' (only_reading d) remote_path local_top max_depth progress preserve_times mode_arg resume True concurrency =
     get_tree fuel scan_fuel c en d remote_path local_top max_depth progress preserve_times mode_arg resume True concurrency \<and>
   put_tree fuel (only_looking c) en' (only_reading d) local_top remote_path max_depth chosen legacy progress preserve_times mode_arg resume True concurrency =
     put_tree fuel c en d local_top remote_path max_depth chosen legacy progress preserve_times mode_arg resume True concurrency"
proof
  show "get_tree fuel scan_fuel (only_looking c) en' (only_reading d) remote_path local_top max_depth progress preserve_times mode_arg resume True concurrency =
      get_tree fuel scan_fuel c en d remote_path local_top max_depth progress preserve_times mode_arg resume True concurrency"
    unfolding get_tree_def planned_fetch planned_walk if_True by (rule refl)
  show "put_tree fuel (only_looking c) en' (only_reading d) local_top remote_path max_depth chosen legacy progress preserve_times mode_arg resume True concurrency =
      put_tree fuel c en d local_top remote_path max_depth chosen legacy progress preserve_times mode_arg resume True concurrency"
    unfolding put_tree_def looking_rooted reading_simps if_True
    by (simp add: planned_upload_walk [of fuel "only_looking c" _ _ _ _ _ _ c] size_on_disk_def reading_simps)
qed

end
