(* ===== verification/SshArgv.thy ===== *)
theory SshArgv
  imports Json Errors "HOL-Library.List_Lexorder"
begin

text \<open>
  The command line of \<open>ssh\<close>, \<open>transport/_argv.py\<close>: validation of what it interpolates, the options
  and the defaults they override, and the argument vector. Lower-casing is a parameter, the Unicode
  tables being the interpreter's; what the code relies on is that it lowers ASCII as ASCII.
\<close>

section \<open>Text\<close>

text \<open>\<open>str.isspace\<close> of one code point.\<close>

definition is_space :: "nat \<Rightarrow> bool" where
  "is_space c \<longleftrightarrow> 9 \<le> c \<and> c \<le> 13 \<or> 28 \<le> c \<and> c \<le> 32 \<or> c \<in> {133, 160, 5760} \<or> 8192 \<le> c \<and> c \<le> 8202 \<or>
     c \<in> {8232, 8233, 8239, 8287, 12288}"

definition strip_text :: "str \<Rightarrow> str" where
  "strip_text s = rev (dropWhile is_space (rev (dropWhile is_space s)))"

definition ascii_lower :: "nat \<Rightarrow> nat" where "ascii_lower c = (if 65 \<le> c \<and> c \<le> 90 then c + 32 else c)"

definition lowers_ascii :: "(str \<Rightarrow> str) \<Rightarrow> bool" where
  "lowers_ascii lower \<longleftrightarrow> (\<forall>s. list_all (\<lambda>c. c < 128) s \<longrightarrow> lower s = map ascii_lower s)"

section \<open>Validation\<close>

definition FORBIDDEN_IN_ARGUMENTS :: "nat list" where "FORBIDDEN_IN_ARGUMENTS = [0, 10, 13]"
definition MIN_PORT :: int where "MIN_PORT = 1"
definition MAX_PORT :: int where "MAX_PORT = 65535"

abbreviation refused_value :: "string \<Rightarrow> exn + 'a" where "refused_value why \<equiv> Inl (ValueErr (Msg why []))"

definition reject_control_characters :: "str \<Rightarrow> exn + unit" where
  "reject_control_characters value =
     (if list_ex (\<lambda>bad. bad \<in> set value) FORBIDDEN_IN_ARGUMENTS then refused_value ''may not contain a control character'' else Inr ())"

definition validate_host :: "str \<Rightarrow> exn + unit" where
  "validate_host host =
     (if host = [] then refused_value ''host may not be empty''
      else bind_sum (reject_control_characters host) (\<lambda>_.
        if prefix (text_of ''-'') host then refused_value ''host may not begin with -''
        else if 64 \<in> set host then refused_value ''host may not contain @''
        else if list_ex is_space host then refused_value ''host may not contain whitespace''
        else Inr ()))"

definition validate_user :: "str \<Rightarrow> exn + unit" where
  "validate_user user =
     (if user = [] then refused_value ''user may not be empty''
      else bind_sum (reject_control_characters user) (\<lambda>_.
        if prefix (text_of ''-'') user then refused_value ''user may not begin with -''
        else if list_ex is_space user then refused_value ''user may not contain whitespace''
        else Inr ()))"

definition validate_option :: "str \<times> str \<Rightarrow> exn + unit" where
  "validate_option item =
     (case item of (name, value) \<Rightarrow>
        if name = [] then refused_value ''ssh option name may not be empty''
        else bind_sum (reject_control_characters name) (\<lambda>_.
             bind_sum (reject_control_characters value) (\<lambda>_.
               if 61 \<in> set name then refused_value ''ssh option name may not contain =''
               else if list_ex is_space name then refused_value ''ssh option name may not contain whitespace''
               else Inr ())))"

section \<open>Options\<close>

definition option_texts :: "(string \<times> string) list \<Rightarrow> (str, str) dict" where
  "option_texts items = map (\<lambda>(name, value). (text_of name, text_of value)) items"

definition DEFAULT_SSH_OPTIONS :: "(str, str) dict" where
  "DEFAULT_SSH_OPTIONS = option_texts
     [(''BatchMode'', ''yes''), (''StrictHostKeyChecking'', ''yes''), (''PermitLocalCommand'', ''no''), (''ClearAllForwardings'', ''yes''),
      (''ForwardX11'', ''no''), (''ForwardAgent'', ''no''), (''ControlMaster'', ''no'')]"

definition PASSWORD_AUTH_OPTIONS :: "(str, str) dict" where
  "PASSWORD_AUTH_OPTIONS = option_texts
     [(''BatchMode'', ''no''), (''PreferredAuthentications'', ''password,keyboard-interactive''), (''NumberOfPasswordPrompts'', ''1'')]"

text \<open>Keywords are compared lowered, and an override replaces what it names under its own spelling.\<close>

definition fold_option :: "(str \<Rightarrow> str) \<Rightarrow> str \<times> str \<Rightarrow> (str, str) dict \<times> (str, str) dict \<Rightarrow> (str, str) dict \<times> (str, str) dict" where
  "fold_option lower item state =
     (case item of (name, value) \<Rightarrow> case state of (merged, held) \<Rightarrow>
        (dict_set (case dict_get held (lower name) of None \<Rightarrow> merged | Some previous \<Rightarrow> dict_pop merged previous) name value,
         dict_set held (lower name) name))"

definition fold_options :: "(str \<Rightarrow> str) \<Rightarrow> (str, str) dict \<Rightarrow> (str, str) dict \<Rightarrow> (str, str) dict" where
  "fold_options lower base_options overrides =
     fst (List.fold (fold_option lower) overrides (base_options, dict_of (map (\<lambda>(name, _). (lower name, name)) base_options)))"

text \<open>\<open>_value_of\<close>: the first item under a keyword; without one, \<open>next\<close> raises \<open>StopIteration\<close>, here \<open>None\<close>.\<close>

definition value_of :: "(str \<Rightarrow> str) \<Rightarrow> (str, str) dict \<Rightarrow> str \<Rightarrow> str option" where
  "value_of lower options keyword = map_option snd (find (\<lambda>(name, _). lower name = lower keyword) options)"

definition check_all :: "('a \<Rightarrow> exn + unit) \<Rightarrow> 'a list \<Rightarrow> exn + unit" where
  "check_all check xs = fold_sum (\<lambda>_ x. check x) () xs"

text \<open>The merged options, and whether a relaxed host key check is warned about.\<close>

definition merged_options :: "(str \<Rightarrow> str) \<Rightarrow> (str, str) dict \<Rightarrow> exn + (str, str) dict \<times> bool" where
  "merged_options lower overrides =
     (if overrides = [] then Inr (DEFAULT_SSH_OPTIONS, False)
      else bind_sum (check_all validate_option overrides) (\<lambda>_.
        let options = fold_options lower DEFAULT_SSH_OPTIONS overrides in
        Inr (options, value_of lower options (text_of ''StrictHostKeyChecking'') \<noteq> Some (text_of ''yes''))))"

definition options_for_password_auth :: "(str \<Rightarrow> str) \<Rightarrow> (str, str) dict \<Rightarrow> exn + (str, str) dict" where
  "options_for_password_auth lower options =
     (let merged = fold_options lower PASSWORD_AUTH_OPTIONS options in
      if map_option (\<lambda>v. lower (strip_text v)) (value_of lower merged (text_of ''BatchMode'')) \<noteq> Some (text_of ''no'')
      then refused_value ''password= needs BatchMode=no'' else Inr merged)"

section \<open>The executable\<close>

text \<open>\<open>join\<close> is \<open>Path(...) / ...\<close> and \<open>exists\<close> asks the file system.\<close>

definition resolve_ssh_executable :: "(str list \<Rightarrow> str) \<Rightarrow> (str \<Rightarrow> bool) \<Rightarrow> str \<Rightarrow> (str, str) dict \<Rightarrow> str" where
  "resolve_ssh_executable join exists platform environ =
     (if \<not> prefix (text_of ''win'') platform then text_of ''ssh''
      else (let windows_root = (case dict_get environ (text_of ''SystemRoot'') of
                    Some s \<Rightarrow> (if s \<noteq> [] then Some s else dict_get environ (text_of ''SYSTEMROOT''))
                  | None \<Rightarrow> dict_get environ (text_of ''SYSTEMROOT'')) in
            case windows_root of
              None \<Rightarrow> text_of ''ssh.exe''
            | Some s \<Rightarrow>
                (if s = [] then text_of ''ssh.exe''
                 else (case find exists (map (\<lambda>directory. join [s, directory, text_of ''OpenSSH'', text_of ''ssh.exe'']) [text_of ''SysNative'', text_of ''System32'']) of
                         Some candidate \<Rightarrow> candidate
                       | None \<Rightarrow> text_of ''ssh.exe''))))"

section \<open>The argument vector\<close>

record launch =
  la_host :: str
  la_user :: "str option"
  la_port :: "int option"
  la_config :: "str option"
  la_identity :: "str option"
  la_options :: "(str, str) dict"
  la_subsystem :: str
  la_executable :: str

definition checked :: "('a \<Rightarrow> exn + unit) \<Rightarrow> 'a option \<Rightarrow> exn + unit" where
  "checked check value = (case value of None \<Rightarrow> Inr () | Some v \<Rightarrow> check v)"

definition flagged :: "string \<Rightarrow> str option \<Rightarrow> str list" where
  "flagged flag value = (case value of None \<Rightarrow> [] | Some v \<Rightarrow> [text_of flag, v])"

definition option_argument :: "str \<times> str \<Rightarrow> str list" where
  "option_argument item = [text_of ''-o'', fst item @ [61] @ snd item]"

definition port_ok :: "int \<Rightarrow> exn + unit" where
  "port_ok port = (if MIN_PORT \<le> port \<and> port \<le> MAX_PORT then Inr () else Inl (ValueErr (Msg ''port out of range'' [IntArg port])))"

definition build_ssh_argv :: "(str \<Rightarrow> str) \<Rightarrow> launch \<Rightarrow> exn + str list" where
  "build_ssh_argv lower l =
     bind_sum (validate_host (la_host l)) (\<lambda>_.
     bind_sum (checked validate_user (la_user l)) (\<lambda>_.
     bind_sum (checked port_ok (la_port l)) (\<lambda>_.
     bind_sum (if la_subsystem l = [] then refused_value ''subsystem may not be empty'' else reject_control_characters (la_subsystem l)) (\<lambda>_.
     bind_sum (checked reject_control_characters (la_config l)) (\<lambda>_.
     bind_sum (checked reject_control_characters (la_identity l)) (\<lambda>_.
     bind_sum (merged_options lower (la_options l)) (\<lambda>(options, _).
       Inr ([la_executable l] @ flagged ''-F'' (la_config l) @ flagged ''-i'' (la_identity l) @
            flagged ''-p'' (map_option (\<lambda>p. write_nat (nat p)) (la_port l)) @ flagged ''-l'' (la_user l) @
            concat (map option_argument (sort_key fst options)) @
            [text_of ''-s'', text_of ''--'', la_host l, la_subsystem l]))))))))"

end
