(* ===== verification/Destination.thy ===== *)
theory Destination
  imports SshArgv
begin

text \<open>
  Which hosts may be dialled, \<open>transport/_destination.py\<close>: patterns and layers, what \<open>ssh -G\<close> says of the
  command about to be run, and the check of it. Running the probe is a parameter over a world, so two
  probes may answer differently; lower-casing is one as in the arguments of \<open>ssh\<close>.
\<close>

section \<open>Patterns\<close>

text \<open>
  \<open>fnmatch.fnmatchcase\<close>, as \<open>fnmatch.translate\<close> reads a pattern: a bracket is closed by the first
  \<open>]\<close> that is not its first character, hyphens cut it into chunks, and chunks whose ends are the wrong
  way round are joined without them.
\<close>

datatype host_glob = AnyRun | AnyOne | Never | Exactly nat | ClassOf bool "(nat \<times> nat) list"

definition bracket :: "str \<Rightarrow> (str \<times> str) option" where
  "bracket rest =
     (let skip = (if prefix [33] rest then 1 else 0);
          skip = (if prefix [93] (drop skip rest) then skip + 1 else skip);
          stop = skip + length (takeWhile (\<lambda>c. c \<noteq> 93) (drop skip rest)) in
      if stop < length rest then Some (take stop rest, drop (stop + 1) rest) else None)"

lemma bracket_shorter: "bracket rest = Some (stuff, rest') \<Longrightarrow> length rest' < length rest"
  by (auto simp: bracket_def Let_def split: if_splits)

function hyphen_chunks :: "nat \<Rightarrow> str \<Rightarrow> str list" where
  "hyphen_chunks start s =
     (case find (\<lambda>k. s ! k = 45) [start..<length s] of
        None \<Rightarrow> [s]
      | Some k \<Rightarrow> take k s # hyphen_chunks 2 (drop (k + 1) s))"
  by pat_completeness auto
termination by (relation "measure (length \<circ> snd)") (auto simp: find_Some_iff)

declare hyphen_chunks.simps [simp del]

definition close_chunks :: "str list \<Rightarrow> str list" where
  "close_chunks chunks =
     (if last chunks = [] then butlast (butlast chunks) @ [last (butlast chunks) @ [45]] else chunks)"

fun join_empty_ranges :: "str list \<Rightarrow> str list" where
  "join_empty_ranges [] = []"
| "join_empty_ranges (c # cs) =
     (case join_empty_ranges cs of
        [] \<Rightarrow> [c]
      | d # ds \<Rightarrow> (if last c > hd d then (butlast c @ tl d) # ds else c # d # ds))"

function class_items :: "str list \<Rightarrow> (nat \<times> nat) list" where
  "class_items [] = []"
| "class_items [c] = map (\<lambda>x. (x, x)) c"
| "class_items (c # d # cs) =
     (if c = [] then (45, 45) # class_items (d # cs)
      else map (\<lambda>x. (x, x)) (butlast c) @ (last c, hd d) # class_items (tl d # cs))"
  by pat_completeness auto
termination by (relation "measure length") auto

definition class_of :: "str \<Rightarrow> host_glob" where
  "class_of stuff =
     (let chunks = (if 45 \<in> set stuff
            then join_empty_ranges (close_chunks (hyphen_chunks (if prefix [33] stuff then 2 else 1) stuff))
            else [stuff]) in
      case chunks of
        [] \<Rightarrow> Never
      | c # cs \<Rightarrow>
          (if c = [] \<and> cs = [] then Never
           else if c = [33] \<and> cs = [] then AnyOne
           else if prefix [33] c then ClassOf True (class_items (tl c # cs))
           else ClassOf False (class_items (c # cs))))"

function translate :: "str \<Rightarrow> host_glob list" where
  "translate [] = []"
| "translate (c # rest) =
     (if c = 42 then (let ts = translate rest in if ts \<noteq> [] \<and> hd ts = AnyRun then ts else AnyRun # ts)
      else if c = 63 then AnyOne # translate rest
      else if c = 91 then
        (case bracket rest of
           None \<Rightarrow> Exactly c # translate rest
         | Some (stuff, rest') \<Rightarrow> class_of stuff # translate rest')
      else Exactly c # translate rest)"
  by pat_completeness auto
termination by (relation "measure length") (auto dest: bracket_shorter)

fun glob_admits :: "host_glob \<Rightarrow> nat \<Rightarrow> bool" where
  "glob_admits AnyRun c = True"
| "glob_admits AnyOne c = True"
| "glob_admits Never c = False"
| "glob_admits (Exactly d) c = (c = d)"
| "glob_admits (ClassOf negated items) c = (list_ex (\<lambda>(lo, hi). lo \<le> c \<and> c \<le> hi) items \<noteq> negated)"

fun glob_matches :: "host_glob list \<Rightarrow> str \<Rightarrow> bool" where
  "glob_matches [] s = (s = [])"
| "glob_matches (t # ts) [] = (t = AnyRun \<and> glob_matches ts [])"
| "glob_matches (t # ts) (c # s) =
     (if t = AnyRun then glob_matches ts (c # s) \<or> glob_matches (t # ts) s
      else glob_admits t c \<and> glob_matches ts s)"

definition fnmatchcase :: "str \<Rightarrow> str \<Rightarrow> bool" where
  "fnmatchcase name pattern = glob_matches (translate pattern) name"

definition normalize_host :: "(str \<Rightarrow> str) \<Rightarrow> str \<Rightarrow> str" where
  "normalize_host lower host = lower (rev (dropWhile (\<lambda>c. c = 46) (rev (strip_text host))))"

definition host_matches :: "(str \<Rightarrow> str) \<Rightarrow> str \<Rightarrow> str list \<Rightarrow> bool" where
  "host_matches lower host patterns =
     (let folded = normalize_host lower host in
      list_ex (\<lambda>pattern. fnmatchcase folded (normalize_host lower pattern)) patterns)"

section \<open>Layers\<close>

record resolution =
  re_hostname :: str
  re_control_path :: "str option"

text \<open>What \<open>DestinationNotAllowedError\<close> carries.\<close>

record refused_destination =
  rd_host :: str
  rd_effective_host :: "str option"
  rd_layers :: "str list list"
  rd_control_path :: "str option"
  rd_stderr :: str
  rd_argv :: "str list"
  rd_returncode :: "int option"

datatype destination_failure = BadPolicy reason | Refused refused_destination

definition normalize_patterns :: "(str \<Rightarrow> str) \<Rightarrow> str list \<Rightarrow> destination_failure + str list" where
  "normalize_patterns lower patterns =
     (let folded = map (normalize_host lower) patterns in
      if folded = [] then Inl (BadPolicy (Msg ''allowed_hosts needs at least one pattern'' []))
      else if list_ex (\<lambda>pattern. pattern = []) folded then Inl (BadPolicy (Msg ''allowed_hosts patterns may not be blank'' []))
      else Inr folded)"

definition ALLOWED_HOSTS_ENV :: str where "ALLOWED_HOSTS_ENV = text_of ''GANTRY_SFTP_ALLOWED_HOSTS''"

definition environment_layer :: "(str \<Rightarrow> str) \<Rightarrow> (str, str) dict \<Rightarrow> destination_failure + str list option" where
  "environment_layer lower environ =
     (case dict_get environ ALLOWED_HOSTS_ENV of
        None \<Rightarrow> Inr None
      | Some raw \<Rightarrow>
          (if strip_text raw = [] then Inr None
           else (let patterns = map strip_text (filter (\<lambda>piece. strip_text piece \<noteq> []) (split_on 44 raw)) in
                 if patterns = [] then Inl (BadPolicy (Msg ''the variable names no host patterns'' []))
                 else bind_sum (normalize_patterns lower patterns) (\<lambda>layer. Inr (Some layer)))))"

text \<open>\<open>scopes\<close> is the value of the context variable, the outermost scope first.\<close>

definition active_layers :: "(str \<Rightarrow> str) \<Rightarrow> (str, str) dict \<Rightarrow> str list list \<Rightarrow> (str, str) dict option \<Rightarrow> destination_failure + str list list" where
  "active_layers lower os_environ scopes environ =
     bind_sum (environment_layer lower (case environ of None \<Rightarrow> os_environ | Some given \<Rightarrow> given)) (\<lambda>own.
       Inr (case own of None \<Rightarrow> scopes | Some layer \<Rightarrow> layer # scopes))"

text \<open>The block of \<open>allowed_hosts\<close>: the body runs under one more scope, which is taken back whatever it does.\<close>

definition allowed_hosts ::
    "(str \<Rightarrow> str) \<Rightarrow> str list \<Rightarrow> (str list list \<Rightarrow> 'w \<Rightarrow> (destination_failure + 'a) \<times> 'w) \<Rightarrow> str list list \<Rightarrow> 'w \<Rightarrow>
     (destination_failure + 'a) \<times> str list list \<times> 'w" where
  "allowed_hosts lower patterns body scopes w =
     (case normalize_patterns lower patterns of
        Inl e \<Rightarrow> (Inl e, scopes, w)
      | Inr layer \<Rightarrow> (case body (scopes @ [layer]) w of (r, w') \<Rightarrow> (r, scopes, w')))"

section \<open>The probe\<close>

definition PROBE_HOSTNAME :: str where "PROBE_HOSTNAME = text_of ''gantry-sftp-controlpath-probe.invalid''"
definition SUBSYSTEM_REQUEST_LENGTH :: nat where "SUBSYSTEM_REQUEST_LENGTH = 4"

definition probe_argv :: "str list \<Rightarrow> str \<Rightarrow> destination_failure + str list" where
  "probe_argv argv host =
     (let cut_at = length argv - SUBSYSTEM_REQUEST_LENGTH; tail = drop cut_at argv in
      if length tail \<noteq> SUBSYSTEM_REQUEST_LENGTH \<or> take 3 tail \<noteq> [text_of ''-s'', text_of ''--'', host]
      then Inl (BadPolicy (Msg ''cannot build an ssh -G probe from this argv'' []))
      else Inr (take cut_at argv @ [text_of ''-G'', text_of ''--'', host]))"

text \<open>\<open>anyio.run_process\<close> under its deadline: an \<open>OSError\<close>, or the exit code and what was printed.\<close>

datatype probe_answer = ProbeFailed | Exited int bytes bytes

definition unverified ::
    "(str \<Rightarrow> str) \<Rightarrow> (str, str) dict \<Rightarrow> str list list \<Rightarrow> str \<Rightarrow> str list \<Rightarrow> resolution option \<Rightarrow> str \<Rightarrow> int option \<Rightarrow> destination_failure" where
  "unverified lower os_environ scopes host probe resolved stderr returncode =
     (case active_layers lower os_environ scopes None of
        Inl e \<Rightarrow> e
      | Inr layers \<Rightarrow> Refused \<lparr>rd_host = host, rd_effective_host = map_option re_hostname resolved, rd_layers = layers,
          rd_control_path = Option.bind resolved re_control_path, rd_stderr = stderr, rd_argv = probe, rd_returncode = returncode\<rparr>)"

definition probe_output ::
    "(str \<Rightarrow> str) \<Rightarrow> (str, str) dict \<Rightarrow> str list list \<Rightarrow> (str list \<Rightarrow> 'w \<Rightarrow> probe_answer \<times> 'w) \<Rightarrow> str list \<Rightarrow> str \<Rightarrow> resolution option \<Rightarrow> 'w \<Rightarrow>
     (destination_failure + str) \<times> 'w" where
  "probe_output lower os_environ scopes run_process probe host resolved w =
     (case run_process probe w of
        (ProbeFailed, w') \<Rightarrow> (Inl (unverified lower os_environ scopes host probe resolved [] None), w')
      | (Exited code out err, w') \<Rightarrow>
          (if code \<noteq> 0 then (Inl (unverified lower os_environ scopes host probe resolved (decode_text replacing err) (Some code)), w')
           else (Inr (decode_text replacing out), w')))"

definition keyword_line :: "(str \<Rightarrow> str) \<Rightarrow> str \<Rightarrow> str \<Rightarrow> str option" where
  "keyword_line lower keyword line =
     (let name = takeWhile (\<lambda>c. c \<noteq> 32) line; found = strip_text (drop (length name + 1) line) in
      if 32 \<in> set line \<and> lower (strip_text name) = keyword \<and> found \<noteq> [] then Some found else None)"

definition reported_keyword :: "(str \<Rightarrow> str) \<Rightarrow> str \<Rightarrow> str \<Rightarrow> str option" where
  "reported_keyword lower output keyword =
     List.fold (\<lambda>line found. case keyword_line lower keyword line of None \<Rightarrow> found | Some v \<Rightarrow> Some v) (splitlines output) None"

definition reported_hostname :: "(str \<Rightarrow> str) \<Rightarrow> str \<Rightarrow> str option" where
  "reported_hostname lower output = map_option (normalize_host lower) (reported_keyword lower output (text_of ''hostname''))"

definition resolve_destination ::
    "(str \<Rightarrow> str) \<Rightarrow> (str, str) dict \<Rightarrow> str list list \<Rightarrow> (str list \<Rightarrow> 'w \<Rightarrow> probe_answer \<times> 'w) \<Rightarrow> str list \<Rightarrow> str \<Rightarrow> 'w \<Rightarrow>
     (destination_failure + resolution) \<times> 'w" where
  "resolve_destination lower os_environ scopes run_process argv host w =
     (case probe_argv argv host of
        Inl e \<Rightarrow> (Inl e, w)
      | Inr probe \<Rightarrow>
          (case probe_output lower os_environ scopes run_process probe host None w of
             (Inl e, w') \<Rightarrow> (Inl e, w')
           | (Inr output, w') \<Rightarrow>
               (case reported_hostname lower output of
                  None \<Rightarrow> (Inl (unverified lower os_environ scopes host probe None [] None), w')
                | Some reported \<Rightarrow>
                    (Inr \<lparr>re_hostname = reported, re_control_path = reported_keyword lower output (text_of ''controlpath'')\<rparr>, w'))))"

definition effective_host ::
    "(str \<Rightarrow> str) \<Rightarrow> (str, str) dict \<Rightarrow> str list list \<Rightarrow> (str list \<Rightarrow> 'w \<Rightarrow> probe_answer \<times> 'w) \<Rightarrow> str list \<Rightarrow> str \<Rightarrow> 'w \<Rightarrow>
     (destination_failure + str) \<times> 'w" where
  "effective_host lower os_environ scopes run_process argv host w =
     (case resolve_destination lower os_environ scopes run_process argv host w of
        (Inl e, w') \<Rightarrow> (Inl e, w')
      | (Inr resolved, w') \<Rightarrow> (Inr (re_hostname resolved), w'))"

definition control_path_binds ::
    "(str \<Rightarrow> str) \<Rightarrow> (str, str) dict \<Rightarrow> str list list \<Rightarrow> (str list \<Rightarrow> 'w \<Rightarrow> probe_answer \<times> 'w) \<Rightarrow> str list \<Rightarrow> str \<Rightarrow> resolution \<Rightarrow> 'w \<Rightarrow>
     (destination_failure + bool) \<times> 'w" where
  "control_path_binds lower os_environ scopes run_process argv host resolved w =
     (case probe_argv argv host of
        Inl e \<Rightarrow> (Inl e, w)
      | Inr probe \<Rightarrow>
          (case probe_output lower os_environ scopes run_process
                  (take 1 probe @ [text_of ''-o'', text_of ''Hostname='' @ PROBE_HOSTNAME] @ drop 1 probe) host (Some resolved) w of
             (Inl e, w') \<Rightarrow> (Inl e, w')
           | (Inr output, w') \<Rightarrow> (Inr (reported_keyword lower output (text_of ''controlpath'') \<noteq> re_control_path resolved), w')))"

section \<open>The check\<close>

text \<open>The state of \<open>_not_allowed\<close> and of \<open>_cannot_bind\<close>, which differ in their message.\<close>

definition not_allowed :: "str \<Rightarrow> resolution \<Rightarrow> str list list \<Rightarrow> destination_failure" where
  "not_allowed host resolved layers =
     Refused \<lparr>rd_host = host, rd_effective_host = Some (re_hostname resolved), rd_layers = layers,
       rd_control_path = re_control_path resolved, rd_stderr = [], rd_argv = [], rd_returncode = None\<rparr>"

definition cannot_bind :: "str \<Rightarrow> resolution \<Rightarrow> str list list \<Rightarrow> destination_failure" where
  "cannot_bind host resolved layers =
     Refused \<lparr>rd_host = host, rd_effective_host = Some (re_hostname resolved), rd_layers = layers,
       rd_control_path = re_control_path resolved, rd_stderr = [], rd_argv = [], rd_returncode = None\<rparr>"

definition check_destination ::
    "(str \<Rightarrow> str) \<Rightarrow> (str, str) dict \<Rightarrow> str list list \<Rightarrow> (str list \<Rightarrow> 'w \<Rightarrow> probe_answer \<times> 'w) \<Rightarrow> (str, str) dict option \<Rightarrow> str list \<Rightarrow> str \<Rightarrow> 'w \<Rightarrow>
     (destination_failure + unit) \<times> 'w" where
  "check_destination lower os_environ scopes run_process environ argv host w =
     (case active_layers lower os_environ scopes environ of
        Inl e \<Rightarrow> (Inl e, w)
      | Inr layers \<Rightarrow>
          (if layers = [] then (Inr (), w)
           else (case resolve_destination lower os_environ scopes run_process argv host w of
                   (Inl e, w') \<Rightarrow> (Inl e, w')
                 | (Inr resolved, w') \<Rightarrow>
                     (if filter (\<lambda>layer. \<not> host_matches lower (re_hostname resolved) layer) layers \<noteq> []
                      then (Inl (not_allowed host resolved layers), w')
                      else if re_control_path resolved = None then (Inr (), w')
                      else (case control_path_binds lower os_environ scopes run_process argv host resolved w' of
                              (Inl e, w'') \<Rightarrow> (Inl e, w'')
                            | (Inr binds, w'') \<Rightarrow> (if binds then Inr () else Inl (cannot_bind host resolved layers), w''))))))"

end
