(* ===== verification/SshArgvLaws.thy ===== *)
theory SshArgvLaws
  imports SshArgv
begin

text \<open>
  What the command line of \<open>ssh\<close> says to its reader: the settings that were asked for and no other,
  the destination where the destination is read, and one value per keyword.
\<close>

section \<open>Folding options\<close>

lemma find_member: "find P xs = Some x \<Longrightarrow> x \<in> set xs \<and> P x"
  by (metis find_Some_iff nth_mem)

definition last_named :: "(str \<Rightarrow> str) \<Rightarrow> (str \<times> str) list \<Rightarrow> str \<Rightarrow> (str \<times> str) option" where
  "last_named lower items keyword = find (\<lambda>(name, _). lower name = lower keyword) (rev items)"

definition folded_ok :: "(str \<Rightarrow> str) \<Rightarrow> (str, str) dict \<Rightarrow> (str, str) dict \<Rightarrow> bool" where
  "folded_ok lower merged held \<longleftrightarrow>
     dict_wf merged \<and> (\<forall>k n. dict_get held k = Some n \<longleftrightarrow> lower n = k \<and> dict_has merged n)"

lemma folded_unique: "folded_ok lower merged held \<Longrightarrow> dict_has merged n \<Longrightarrow> dict_has merged m \<Longrightarrow> lower n = lower m \<Longrightarrow> n = m"
  unfolding folded_ok_def by (metis option.inject)

lemma fold_option_ok:
  assumes "folded_ok lower merged held" "fold_option lower (name, setting) (merged, held) = (merged', held')"
  shows "folded_ok lower merged' held' \<and>
    (\<forall>n. dict_get merged' n = (if n = name then Some setting else if lower n = lower name then None else dict_get merged n))"
proof -
  have ok: "dict_wf merged" "\<And>k n. dict_get held k = Some n \<longleftrightarrow> lower n = k \<and> dict_has merged n"
    using assms(1) by (simp_all add: folded_ok_def)
  let ?rest = "case dict_get held (lower name) of None \<Rightarrow> merged | Some previous \<Rightarrow> dict_pop merged previous"
  have new: "merged' = dict_set ?rest name setting" "held' = dict_set held (lower name) name"
    using assms(2) by (simp_all add: fold_option_def)
  have rest: "dict_get ?rest n = (if lower n = lower name then None else dict_get merged n)" for n
  proof (cases "dict_get held (lower name)")
    case None
    then show ?thesis using ok(2) [of "lower name" n] by (auto simp: dict_has_iff)
  next
    case (Some previous)
    then show ?thesis using ok(2) [of "lower name" previous] ok(2) [of "lower name" n] by (auto simp: dict_has_iff)
  qed
  have g: "dict_get merged' n = (if n = name then Some setting else if lower n = lower name then None else dict_get merged n)" for n
    by (simp add: new rest)
  have "dict_wf merged'" using ok(1) by (auto simp: new split: option.split)
  moreover have "dict_get held' k = Some n \<longleftrightarrow> lower n = k \<and> dict_has merged' n" for k n
    using ok(2) [of k n] by (auto simp: new(2) dict_has_iff g)
  ultimately show ?thesis using g by (simp add: folded_ok_def)
qed

lemma fold_options_get:
  assumes "folded_ok lower base_options held" "List.fold (fold_option lower) overrides (base_options, held) = (merged, held')"
  shows "folded_ok lower merged held' \<and>
    (\<forall>n. dict_get merged n =
       (case last_named lower overrides n of None \<Rightarrow> dict_get base_options n | Some (m, v) \<Rightarrow> if m = n then Some v else None))"
  using assms(2)
proof (induction overrides arbitrary: merged held' rule: rev_induct)
  case Nil
  then show ?case using assms(1) by (simp add: last_named_def)
next
  case (snoc item overrides)
  obtain name setting where item: "item = (name, setting)" by fastforce
  obtain m h where mh: "List.fold (fold_option lower) overrides (base_options, held) = (m, h)" by fastforce
  have step: "fold_option lower (name, setting) (m, h) = (merged, held')" using snoc.prems mh item by simp
  show ?case using fold_option_ok [OF conjunct1 [OF snoc.IH [OF mh]] step] conjunct2 [OF snoc.IH [OF mh]]
    by (auto simp: last_named_def item)
qed

lemma value_of_iff:
  assumes "folded_ok lower merged held" "set options = set merged"
  shows "value_of lower options keyword = Some v \<longleftrightarrow> (\<exists>n. dict_get merged n = Some v \<and> lower n = lower keyword)"
proof -
  have wf: "dict_wf merged" using assms(1) by (simp add: folded_ok_def)
  have get: "(n, v) \<in> set options \<longleftrightarrow> dict_get merged n = Some v" for n v
    using wf assms(2) by (simp add: dict_get_def dict_wf_def)
  show ?thesis
  proof
    assume "value_of lower options keyword = Some v"
    then obtain n where "find (\<lambda>(n, _). lower n = lower keyword) options = Some (n, v)" by (auto simp: value_of_def)
    then have "(n, v) \<in> set options" "lower n = lower keyword" by (auto dest: find_member)
    then show "\<exists>n. dict_get merged n = Some v \<and> lower n = lower keyword" using get by blast
  next
    assume "\<exists>n. dict_get merged n = Some v \<and> lower n = lower keyword"
    then obtain n where n: "dict_get merged n = Some v" "lower n = lower keyword" by blast
    then obtain m u where f: "find (\<lambda>(n, _). lower n = lower keyword) options = Some (m, u)"
      using get by (cases "find (\<lambda>(n, _). lower n = lower keyword) options") (fastforce simp: find_None_iff)+
    then have m: "dict_get merged m = Some u" "lower m = lower keyword" using get find_member [OF f] by auto
    have "m = n" using folded_unique [OF assms(1)] m n by (simp add: dict_has_iff)
    then show "value_of lower options keyword = Some v" using f m n by (simp add: value_of_def)
  qed
qed

lemma last_named_name: "last_named lower items n = Some (m, v) \<Longrightarrow> lower m = lower n"
  by (auto simp: last_named_def dest: find_member)

lemma last_named_cong: "lower n = lower m \<Longrightarrow> last_named lower items n = last_named lower items m"
  by (simp add: last_named_def)

lemma value_of_folded:
  assumes "folded_ok lower base_options held" "List.fold (fold_option lower) overrides (base_options, held) = (merged, held')"
    "set options = set merged"
  shows "value_of lower options keyword =
    (case last_named lower overrides keyword of Some (_, v) \<Rightarrow> Some v | None \<Rightarrow> value_of lower base_options keyword)"
proof -
  note get = fold_options_get [OF assms(1,2)]
  note here = value_of_iff [OF conjunct1 [OF get] assms(3)] and there = value_of_iff [OF assms(1) refl]
  show ?thesis
  proof (cases "last_named lower overrides keyword")
    case None
    then have "last_named lower overrides n = None" if "lower n = lower keyword" for n
      using last_named_cong [of lower n keyword, OF that] by metis
    then have "value_of lower options keyword = Some v \<longleftrightarrow> value_of lower base_options keyword = Some v" for v
      unfolding here there using get by (auto intro!: ex_cong1)
    then have "value_of lower options keyword = value_of lower base_options keyword"
      by (metis option.exhaust)
    then show ?thesis using None by simp
  next
    case (Some item)
    obtain m v where item: "item = (m, v)" by fastforce
    have low: "lower m = lower keyword" using last_named_name Some item by blast
    then have "last_named lower overrides m = Some (m, v)" using last_named_cong [of lower m keyword, OF low] Some item by metis
    then have "value_of lower options keyword = Some v" unfolding here using get low by (intro exI [of _ m]) simp
    then show ?thesis using Some item by simp
  qed
qed


section \<open>How ssh reads its arguments\<close>

text \<open>
  The reader of the arguments is OpenSSH's and a parameter here: a function from the arguments after
  the executable to the settings it takes from them and the destination and command that are left.
  What \<open>build_ssh_argv\<close> relies on is in \<open>ssh(1)\<close> and \<open>ssh_config(5)\<close>: which options take the next argument;
  that \<open>--\<close> ends the options, so that all that follows is the destination and the command (without it
  options are also looked for after the destination); and that the argument of \<open>-o\<close> is a line of a
  configuration file, a keyword and its arguments, separated by whitespace or by optional whitespace
  and one equals sign, where a line that starts with \<open>#\<close> is a comment and double quotes quote. Only
  the lines without those two, whose keyword is not empty and has no whitespace and no equals sign,
  and that are one line, are spoken of.
\<close>

datatype ssh_setting = ConfigFile str | IdentityFile str | OnPort str | LoginName str | Setting str str | Subsystem

type_synonym ssh_reader = "str list \<Rightarrow> (ssh_setting list \<times> str list) option"

definition is_blank :: "nat \<Rightarrow> bool" where "is_blank c \<longleftrightarrow> c \<in> {9, 10, 13, 32}"

definition one_keyword :: "str \<Rightarrow> bool" where
  "one_keyword name \<longleftrightarrow> name \<noteq> [] \<and> list_all (\<lambda>c. \<not> is_blank c \<and> c \<noteq> 61 \<and> c \<noteq> 0) name"

definition one_line :: "str \<Rightarrow> bool" where "one_line v \<longleftrightarrow> list_all (\<lambda>c. c \<notin> {0, 10, 13}) v"

definition unquoted :: "str \<Rightarrow> bool" where "unquoted name \<longleftrightarrow> 34 \<notin> set name \<and> \<not> prefix [35] name"

definition reads_as_documented :: "ssh_reader \<Rightarrow> bool" where
  "reads_as_documented reader \<longleftrightarrow>
     (\<forall>v rest. reader (text_of ''-F'' # v # rest) = map_option (apfst ((#) (ConfigFile v))) (reader rest)) \<and>
     (\<forall>v rest. reader (text_of ''-i'' # v # rest) = map_option (apfst ((#) (IdentityFile v))) (reader rest)) \<and>
     (\<forall>v rest. reader (text_of ''-p'' # v # rest) = map_option (apfst ((#) (OnPort v))) (reader rest)) \<and>
     (\<forall>v rest. reader (text_of ''-l'' # v # rest) = map_option (apfst ((#) (LoginName v))) (reader rest)) \<and>
     (\<forall>name v rest. one_keyword name \<and> unquoted name \<and> one_line v \<longrightarrow>
        reader (text_of ''-o'' # (name @ [61] @ v) # rest) = map_option (apfst ((#) (Setting name (dropWhile is_blank v)))) (reader rest)) \<and>
     (\<forall>rest. reader (text_of ''-s'' # rest) = map_option (apfst ((#) Subsystem)) (reader rest)) \<and>
     (\<forall>rest. reader (text_of ''--'' # rest) = Some ([], rest))"

definition setting_of :: "(str \<Rightarrow> ssh_setting) \<Rightarrow> str option \<Rightarrow> ssh_setting list" where
  "setting_of kind value = (case value of None \<Rightarrow> [] | Some v \<Rightarrow> [kind v])"

lemma documented_flag:
  assumes "reads_as_documented reader" "reader rest = Some (ss, tail)"
  shows "reader (flagged ''-F'' v @ rest) = Some (setting_of ConfigFile v @ ss, tail)"
    "reader (flagged ''-i'' v @ rest) = Some (setting_of IdentityFile v @ ss, tail)"
    "reader (flagged ''-p'' v @ rest) = Some (setting_of OnPort v @ ss, tail)"
    "reader (flagged ''-l'' v @ rest) = Some (setting_of LoginName v @ ss, tail)"
  using assms by (cases v; simp add: flagged_def setting_of_def reads_as_documented_def)+

lemma documented_options:
  assumes "reads_as_documented reader" "reader rest = Some (ss, tail)"
  shows "list_all (\<lambda>(n, v). one_keyword n \<and> unquoted n \<and> one_line v) options \<Longrightarrow>
   reader (concat (map option_argument options) @ rest) =
     Some (map (\<lambda>(n, v). Setting n (dropWhile is_blank v)) options @ ss, tail)"
proof (induction options)
  case (Cons item options)
  obtain n v where item: "item = (n, v)" by fastforce
  have "reader (text_of ''-o'' # (n @ [61] @ v) # xs) = map_option (apfst ((#) (Setting n (dropWhile is_blank v)))) (reader xs)" for xs
    using assms(1) Cons.prems item by (simp add: reads_as_documented_def)
  then show ?case using Cons by (simp add: item option_argument_def)
qed (use assms(2) in simp)

lemma documented_end:
  "reads_as_documented reader \<Longrightarrow>
   reader [text_of ''-s'', text_of ''--'', host, subsystem] = Some ([Subsystem], [host, subsystem])"
  by (simp add: reads_as_documented_def)

lemma folded_initial:
  "distinct (map (lower \<circ> fst) items) \<Longrightarrow> folded_ok lower items (dict_of (map (\<lambda>(name, _). (lower name, name)) items))"
proof (induction items rule: rev_induct)
  case Nil
  then show ?case by (simp add: folded_ok_def dict_of_def dict_has_iff dict_wf_def)
next
  case (snoc item items)
  obtain name setting where item: "item = (name, setting)" by fastforce
  let ?held = "dict_of (map (\<lambda>(name, _). (lower name, name)) items)"
  have ih: "folded_ok lower items ?held" using snoc by simp
  have fresh: "\<not> dict_has items n" if "lower n = lower name" for n
  proof
    assume "dict_has items n"
    then have "lower n \<in> (lower \<circ> fst) ` set items" by (force simp: dict_has_iff dict_get_def dest: map_of_SomeD)
    then show False using snoc.prems that by (simp add: item)
  qed
  have snd: "dict_of (map (\<lambda>(name, _). (lower name, name)) (items @ [item])) = dict_set ?held (lower name) name"
    by (simp add: dict_of_def item)
  have app: "dict_get (items @ [item]) n = (if n = name then Some setting else dict_get items n)" for n
    using fresh [of name] by (auto simp: dict_get_def dict_has_iff item map_add_def split: option.split)
  have "dict_wf (items @ [item])"
    using ih fresh [of name] unfolding folded_ok_def dict_wf_def by (auto simp: item dict_has_iff dict_get_def map_of_eq_None_iff)
  then show ?case
    using ih fresh unfolding folded_ok_def snd by (auto simp: dict_has_iff app)
qed

lemma default_folded:
  assumes "lowers_ascii lower"
  shows "folded_ok lower DEFAULT_SSH_OPTIONS (dict_of (map (\<lambda>(name, _). (lower name, name)) DEFAULT_SSH_OPTIONS))"
proof (rule folded_initial)
  have ascii: "list_all (\<lambda>(n, _). list_all (\<lambda>c. c < 128) n) DEFAULT_SSH_OPTIONS" by code_simp
  have "map (lower \<circ> fst) DEFAULT_SSH_OPTIONS = map (map ascii_lower \<circ> fst) DEFAULT_SSH_OPTIONS"
    using assms ascii by (auto simp: lowers_ascii_def list_all_iff)
  moreover have "distinct (map (map ascii_lower \<circ> fst) DEFAULT_SSH_OPTIONS)" by code_simp
  ultimately show "distinct (map (lower \<circ> fst) DEFAULT_SSH_OPTIONS)" by (simp only:)
qed

lemma checked_all: "check_all check xs = Inr () \<longleftrightarrow> list_all (\<lambda>x. check x = Inr ()) xs"
proof (induction xs)
  case (Cons x xs)
  then show ?case by (cases "check x") (auto simp: check_all_def bind_sum_def)
qed (simp add: check_all_def)

lemma reject_ok: "reject_control_characters v = Inr () \<longleftrightarrow> 0 \<notin> set v \<and> 10 \<notin> set v \<and> 13 \<notin> set v"
  by (auto simp: reject_control_characters_def FORBIDDEN_IN_ARGUMENTS_def)

lemma bind_unit: "bind_sum (r :: exn + unit) f = Inr y \<longleftrightarrow> r = Inr () \<and> f () = Inr y"
  by (cases r) (auto simp: bind_sum_def)

definition option_plain :: "str \<times> str \<Rightarrow> bool" where
  "option_plain item \<longleftrightarrow> one_keyword (fst item) \<and> one_line (snd item)"

lemma blank_is_space: "is_blank c \<Longrightarrow> is_space c"
  by (auto simp: is_blank_def is_space_def)

lemma validate_option_plain: "validate_option item = Inr () \<Longrightarrow> option_plain item"
  using blank_is_space
  by (cases item)
    (auto simp: validate_option_def option_plain_def one_keyword_def one_line_def bind_unit reject_ok list_all_iff list_ex_iff
      intro!: gr0I split: if_splits)

lemma default_plain: "list_all option_plain DEFAULT_SSH_OPTIONS"
  by code_simp

lemma default_unquoted: "list_all (unquoted \<circ> fst) DEFAULT_SSH_OPTIONS"
  by code_simp

lemma merged_options_spec:
  assumes "lowers_ascii lower" "merged_options lower overrides = Inr (options, warned)"
  obtains held where "folded_ok lower options held" "list_all option_plain options"
    "set options \<subseteq> set overrides \<union> set DEFAULT_SSH_OPTIONS"
    "\<And>k shown. set shown = set options \<Longrightarrow> value_of lower shown k =
       (case last_named lower overrides k of Some (_, v) \<Rightarrow> Some v | None \<Rightarrow> value_of lower DEFAULT_SSH_OPTIONS k)"
proof -
  let ?held = "dict_of (map (\<lambda>(name, _). (lower name, name)) DEFAULT_SSH_OPTIONS)"
  note base = default_folded [OF assms(1)]
  obtain merged held' where fold: "List.fold (fold_option lower) overrides (DEFAULT_SSH_OPTIONS, ?held) = (merged, held')" by fastforce
  have merged: "options = merged" "list_all option_plain overrides"
    using assms(2) fold by (auto simp: merged_options_def bind_unit checked_all fold_options_def Let_def list_all_iff
        intro: validate_option_plain split: if_splits)
  note get = fold_options_get [OF base fold]
  have from_both: "(n, v) \<in> set overrides \<or> (n, v) \<in> set DEFAULT_SSH_OPTIONS" if "(n, v) \<in> set merged" for n v
  proof -
    have "dict_wf merged" using get by (simp add: folded_ok_def)
    then have "dict_get merged n = Some v" using that by (simp add: dict_get_def dict_wf_def)
    then have "last_named lower overrides n = Some (n, v) \<or> dict_get DEFAULT_SSH_OPTIONS n = Some v"
      using get by (auto split: option.splits if_splits)
    then show ?thesis by (auto simp: last_named_def dict_get_def dest: find_member map_of_SomeD)
  qed
  then have "list_all option_plain merged" using merged(2) default_plain by (fastforce simp: list_all_iff)
  moreover have "set merged \<subseteq> set overrides \<union> set DEFAULT_SSH_OPTIONS" using from_both by auto
  ultimately show thesis using that [of held'] get value_of_folded [OF base fold] merged(1) by blast
qed


text \<open>
  C39. The command line cannot be talked into anything. When it is built, any reader that reads
  arguments the way OpenSSH documents it takes from it the settings that were asked for and no
  other, each \<open>-o\<close> under the very keyword that was validated and with the value that was given, and
  the destination and the subsystem as what they are, the destination being no option; every
  keyword, compared as \<open>ssh\<close> compares it, has one value: the last one the caller gave it, or else the
  safe default. The names of the caller's options are supposed to hold no double quote and not to
  start with \<open>#\<close>, which the code does not look at.
\<close>

theorem ssh_reads_what_was_asked:
  assumes lower: "lowers_ascii lower" and built: "build_ssh_argv lower l = Inr argv"
    and reader: "reads_as_documented reader" and names: "list_all (unquoted \<circ> fst) (la_options l)"
  shows "\<exists>options. argv \<noteq> [] \<and>
    reader (tl argv) = Some (setting_of ConfigFile (la_config l) @ setting_of IdentityFile (la_identity l) @
        setting_of OnPort (map_option (\<lambda>p. write_nat (nat p)) (la_port l)) @ setting_of LoginName (la_user l) @
        map (\<lambda>(n, v). Setting n (dropWhile is_blank v)) options @ [Subsystem], [la_host l, la_subsystem l]) \<and>
    \<not> prefix (text_of ''-'') (la_host l) \<and> la_host l \<noteq> [] \<and> distinct (map (lower \<circ> fst) options) \<and>
    set options \<subseteq> set (la_options l) \<union> set DEFAULT_SSH_OPTIONS \<and>
    (\<forall>k. value_of lower options k =
       (case last_named lower (la_options l) k of Some (_, v) \<Rightarrow> Some v | None \<Rightarrow> value_of lower DEFAULT_SSH_OPTIONS k))"
proof -
  obtain options warned where o: "merged_options lower (la_options l) = Inr (options, warned)"
    and host: "validate_host (la_host l) = Inr ()"
    and argv: "argv = [la_executable l] @ flagged ''-F'' (la_config l) @ flagged ''-i'' (la_identity l) @
            flagged ''-p'' (map_option (\<lambda>p. write_nat (nat p)) (la_port l)) @ flagged ''-l'' (la_user l) @
            concat (map option_argument (sort_key fst options)) @ [text_of ''-s'', text_of ''--'', la_host l, la_subsystem l]"
    using built unfolding build_ssh_argv_def bind_unit by (cases "merged_options lower (la_options l)") (auto simp: bind_sum_def)
  obtain held where ok: "folded_ok lower options held" and plain: "list_all option_plain options"
    and members: "set options \<subseteq> set (la_options l) \<union> set DEFAULT_SSH_OPTIONS"
    and says: "\<And>k shown. set shown = set options \<Longrightarrow> value_of lower shown k =
       (case last_named lower (la_options l) k of Some (_, v) \<Rightarrow> Some v | None \<Rightarrow> value_of lower DEFAULT_SSH_OPTIONS k)"
    using merged_options_spec [OF lower o] by metis
  have wf: "distinct (map fst options)" using ok by (simp add: folded_ok_def dict_wf_def)
  have keys: "dict_has options n" if "n \<in> fst ` set options" for n
    using that wf by (auto simp: dict_has_iff dict_get_def)
  have "inj_on lower (fst ` set options)" by (rule inj_onI) (rule folded_unique [OF ok], auto intro: keys)
  then have "distinct (map (lower \<circ> fst) options)" using wf by (simp add: distinct_map comp_inj_on)
  then have one: "distinct (map (lower \<circ> fst) (sort_key fst options))" by (simp add: distinct_map)
  have lines: "list_all (\<lambda>(n, v). one_keyword n \<and> unquoted n \<and> one_line v) (sort_key fst options)"
    using plain members names default_unquoted by (fastforce simp: list_all_iff option_plain_def)
  have "reader (tl argv) = Some (setting_of ConfigFile (la_config l) @ setting_of IdentityFile (la_identity l) @
        setting_of OnPort (map_option (\<lambda>p. write_nat (nat p)) (la_port l)) @ setting_of LoginName (la_user l) @
        map (\<lambda>(n, v). Setting n (dropWhile is_blank v)) (sort_key fst options) @ [Subsystem], [la_host l, la_subsystem l])"
    unfolding argv append_Cons [of "la_executable l"] append_Nil list.sel
    by (intro documented_flag [OF reader] documented_options [OF reader] documented_end [OF reader] lines)
  moreover have "\<not> prefix (text_of ''-'') (la_host l)" "la_host l \<noteq> []"
    using host by (auto simp: validate_host_def bind_unit split: if_splits)
  ultimately show ?thesis using members one says [of "sort_key fst options"]
    by (intro exI [of _ "sort_key fst options"]) (simp add: argv)
qed

section \<open>A reader\<close>

text \<open>
  One reader that is as documented: it splits the line after \<open>-o\<close> at the first blank or equals sign,
  and unless \<open>--\<close> ended the options it looks for more of them after the destination.
\<close>

definition read_line :: "str \<Rightarrow> ssh_setting option" where
  "read_line text =
     (let line = dropWhile is_blank text;
          name = takeWhile (\<lambda>c. \<not> is_blank c \<and> c \<noteq> 61) line;
          rest = dropWhile is_blank (drop (length name) line) in
      if name = [] \<or> \<not> unquoted name then None
      else Some (Setting name (case rest of [] \<Rightarrow> [] | c # cs \<Rightarrow> if c = 61 then dropWhile is_blank cs else c # cs)))"

fun ssh_options :: "str list \<Rightarrow> (ssh_setting list \<times> bool \<times> str list) option" where
  "ssh_options [] = Some ([], False, [])"
| "ssh_options (a # args) =
     (if a = text_of ''--'' then Some ([], True, args)
      else if a = text_of ''-s'' then map_option (apfst ((#) Subsystem)) (ssh_options args)
      else if prefix (text_of ''-'') a then
        (case args of
           [] \<Rightarrow> None
         | v # rest \<Rightarrow>
             (if a = text_of ''-F'' then map_option (apfst ((#) (ConfigFile v))) (ssh_options rest)
              else if a = text_of ''-i'' then map_option (apfst ((#) (IdentityFile v))) (ssh_options rest)
              else if a = text_of ''-p'' then map_option (apfst ((#) (OnPort v))) (ssh_options rest)
              else if a = text_of ''-l'' then map_option (apfst ((#) (LoginName v))) (ssh_options rest)
              else if a = text_of ''-o'' then
                (case read_line v of None \<Rightarrow> None | Some x \<Rightarrow> map_option (apfst ((#) x)) (ssh_options rest))
              else None))
      else Some ([], False, a # args))"

definition ssh_reads :: ssh_reader where
  "ssh_reads args =
     (case ssh_options args of
        None \<Rightarrow> None
      | Some (ss, True, rest) \<Rightarrow> Some (ss, rest)
      | Some (ss, False, []) \<Rightarrow> Some (ss, [])
      | Some (ss, False, host # rest) \<Rightarrow>
          (case ssh_options rest of None \<Rightarrow> None | Some (ss', _, rest') \<Rightarrow> Some (ss @ ss', host # rest')))"

lemma read_line_plain:
  assumes "one_keyword name" "unquoted name"
  shows "read_line (name @ [61] @ v) = Some (Setting name (dropWhile is_blank v))"
proof -
  obtain c cs where name: "name = c # cs" using assms(1) by (cases name) (auto simp: one_keyword_def)
  have "\<not> is_blank c" using assms(1) by (simp add: name one_keyword_def)
  then have line: "dropWhile is_blank (name @ [61] @ v) = name @ [61] @ v" by (simp add: name)
  have "takeWhile (\<lambda>c. \<not> is_blank c \<and> c \<noteq> 61) (name @ [61] @ v) = name"
    using assms(1) by (subst takeWhile_append2) (auto simp: one_keyword_def list_all_iff)
  moreover have "name \<noteq> []" using name by simp
  moreover have "dropWhile is_blank ([61] @ v) = 61 # v" by (simp add: is_blank_def)
  ultimately show ?thesis using assms(2) unfolding read_line_def line Let_def by simp
qed

lemma reads_prepend:
  assumes "ssh_options args = map_option (apfst ((#) x)) (ssh_options rest)"
  shows "ssh_reads args = map_option (apfst ((#) x)) (ssh_reads rest)"
  unfolding ssh_reads_def assms
  by (cases "ssh_options rest") (auto split: bool.split list.split option.split prod.split)

lemma text_letters: "text_of ''-s'' = [45, 115]" "text_of ''-F'' = [45, 70]" "text_of ''-i'' = [45, 105]" "text_of ''-p'' = [45, 112]"
  "text_of ''-l'' = [45, 108]" "text_of ''-o'' = [45, 111]" "text_of ''--'' = [45, 45]" "text_of ''-'' = [45]"
  by (simp_all add: text_of_def)

lemma ssh_reads_documented: "reads_as_documented ssh_reads"
  unfolding reads_as_documented_def
  by (intro conjI allI impI reads_prepend) (simp_all add: text_letters read_line_plain ssh_reads_def del: append.simps)

text \<open>What the whitespace check and \<open>--\<close> are for, on this reader.\<close>

lemma ssh_reads_traps:
  "ssh_reads [text_of ''-o'', text_of ''PermitLocalCommand yes=no'', text_of ''--'', text_of ''h'', text_of ''sftp''] =
     Some ([Setting (text_of ''PermitLocalCommand'') (text_of ''yes=no'')], [text_of ''h'', text_of ''sftp''])"
  "ssh_reads [text_of ''-s'', text_of ''h'', text_of ''-F'', text_of ''f'', text_of ''sftp''] =
     Some ([Subsystem, ConfigFile (text_of ''f'')], [text_of ''h'', text_of ''sftp''])"
  by code_simp+

definition careful_launch :: launch where
  "careful_launch = \<lparr>la_host = text_of ''files.example'', la_user = Some (text_of ''deploy''), la_port = Some 2222,
     la_config = None, la_identity = None,
     la_options = [(text_of ''batchmode'', text_of ''no''), (text_of ''Compression'', text_of ''yes''), (text_of ''BatchMode'', text_of ''yes'')],
     la_subsystem = text_of ''sftp'', la_executable = text_of ''ssh''\<rparr>"

lemma careful_launch_built: "\<exists>argv. build_ssh_argv (map ascii_lower) careful_launch = Inr argv"
proof -
  let ?l = careful_launch
  have passes: "validate_host (la_host ?l) = Inr ()" "checked validate_user (la_user ?l) = Inr ()" "checked port_ok (la_port ?l) = Inr ()"
    "la_subsystem ?l \<noteq> []" "reject_control_characters (la_subsystem ?l) = Inr ()"
    "checked reject_control_characters (la_config ?l) = Inr ()" "checked reject_control_characters (la_identity ?l) = Inr ()"
    "la_options ?l \<noteq> []" "check_all validate_option (la_options ?l) = Inr ()"
    by (simp_all add: careful_launch_def validate_host_def validate_user_def validate_option_def checked_def port_ok_def MIN_PORT_def
        MAX_PORT_def reject_control_characters_def FORBIDDEN_IN_ARGUMENTS_def text_of_def prefix_def is_space_def checked_all bind_sum_def)
  show ?thesis
    unfolding build_ssh_argv_def merged_options_def by (simp add: passes bind_sum_def Let_def)
qed

lemma ssh_reads_what_was_asked_witness:
  "\<exists>argv options. build_ssh_argv (map ascii_lower) careful_launch = Inr argv \<and>
     ssh_reads (tl argv) = Some ([OnPort (text_of ''2222''), LoginName (text_of ''deploy'')] @
       map (\<lambda>(n, v). Setting n (dropWhile is_blank v)) options @ [Subsystem], [text_of ''files.example'', text_of ''sftp'']) \<and>
     value_of (map ascii_lower) options (text_of ''BATCHMODE'') = Some (text_of ''yes'') \<and>
     value_of (map ascii_lower) options (text_of ''ForwardAgent'') = Some (text_of ''no'')"
proof -
  obtain argv where built: "build_ssh_argv (map ascii_lower) careful_launch = Inr argv" using careful_launch_built by blast
  have port: "write_nat (nat 2222) = text_of ''2222''" by code_simp
  have last: "last_named (map ascii_lower) (la_options careful_launch) (text_of ''BATCHMODE'') = Some (text_of ''BatchMode'', text_of ''yes'')"
    "last_named (map ascii_lower) (la_options careful_launch) (text_of ''ForwardAgent'') = None"
    "value_of (map ascii_lower) DEFAULT_SSH_OPTIONS (text_of ''ForwardAgent'') = Some (text_of ''no'')"
    by code_simp+
  have names: "list_all (unquoted \<circ> fst) (la_options careful_launch)" by code_simp
  have "lowers_ascii (map ascii_lower)" by (simp add: lowers_ascii_def)
  from ssh_reads_what_was_asked [OF this built ssh_reads_documented names] obtain options where
    "ssh_reads (tl argv) = Some (setting_of ConfigFile (la_config careful_launch) @ setting_of IdentityFile (la_identity careful_launch) @
        setting_of OnPort (map_option (\<lambda>p. write_nat (nat p)) (la_port careful_launch)) @ setting_of LoginName (la_user careful_launch) @
        map (\<lambda>(n, v). Setting n (dropWhile is_blank v)) options @ [Subsystem], [la_host careful_launch, la_subsystem careful_launch])"
    and says: "\<And>k. value_of (map ascii_lower) options k =
       (case last_named (map ascii_lower) (la_options careful_launch) k of Some (_, v) \<Rightarrow> Some v
        | None \<Rightarrow> value_of (map ascii_lower) DEFAULT_SSH_OPTIONS k)" by blast
  then have "ssh_reads (tl argv) = Some ([OnPort (text_of ''2222''), LoginName (text_of ''deploy'')] @
       map (\<lambda>(n, v). Setting n (dropWhile is_blank v)) options @ [Subsystem], [text_of ''files.example'', text_of ''sftp''])"
    using port by (simp add: careful_launch_def setting_of_def)
  then show ?thesis using built says [of "text_of ''BATCHMODE''"] says [of "text_of ''ForwardAgent''"] last by auto
qed

end
