(* ===== verification/DestinationLaws.thy ===== *)
theory DestinationLaws
  imports Destination SshArgvLaws
begin

text \<open>
  What the list of allowed hosts promises: a pattern without wildcards admits one host, layers only
  narrow, and the destination that was checked is the one the very command would dial.
\<close>

section \<open>Patterns\<close>

lemma translate_plain: "list_all (\<lambda>c. c \<notin> {42, 63, 91}) p \<Longrightarrow> translate p = map Exactly p"
  by (induction p) auto

lemma glob_matches_exactly: "glob_matches (map Exactly p) s \<longleftrightarrow> s = p"
proof (induction p arbitrary: s)
  case (Cons c p)
  then show ?case by (cases s) auto
qed simp

lemma plain_pattern_admits_one:
  "list_all (\<lambda>c. c \<notin> {42, 63, 91}) (normalize_host lower p) \<Longrightarrow>
   host_matches lower host [p] \<longleftrightarrow> normalize_host lower host = normalize_host lower p"
  by (simp add: host_matches_def fnmatchcase_def translate_plain glob_matches_exactly)

lemma star_matches: "glob_matches (AnyRun # ts) s \<longleftrightarrow> (\<exists>n \<le> length s. glob_matches ts (drop n s))"
proof (induction s)
  case (Cons c s)
  have "(\<exists>n \<le> length (c # s). glob_matches ts (drop n (c # s))) \<longleftrightarrow>
      glob_matches ts (c # s) \<or> (\<exists>n \<le> length s. glob_matches ts (drop n s))"
  proof
    assume "\<exists>n \<le> length (c # s). glob_matches ts (drop n (c # s))"
    then obtain n where "n \<le> length (c # s)" "glob_matches ts (drop n (c # s))" by blast
    then show "glob_matches ts (c # s) \<or> (\<exists>n \<le> length s. glob_matches ts (drop n s))" by (cases n) auto
  qed (force intro: exI [of _ 0] exI [of _ "Suc _"])+
  then show ?case using Cons by simp
qed simp

section \<open>The command that is checked\<close>

lemma built_tail:
  assumes "build_ssh_argv lower l = Inr argv"
  obtains executable settings where
    "argv = executable # settings @ [text_of ''-s'', text_of ''--'', la_host l, la_subsystem l]"
    "probe_argv argv (la_host l) = Inr (executable # settings @ [text_of ''-G'', text_of ''--'', la_host l])"
proof -
  obtain settings where argv: "argv = la_executable l # settings @ [text_of ''-s'', text_of ''--'', la_host l, la_subsystem l]"
    using assms unfolding build_ssh_argv_def bind_unit
    by (cases "merged_options lower (la_options l)") (auto simp: bind_sum_def)
  show thesis by (rule that [OF argv]) (simp add: argv probe_argv_def SUBSYSTEM_REQUEST_LENGTH_def)
qed

text \<open>What a probe of this command reported, if it could be read.\<close>

definition reported :: "(str \<Rightarrow> str) \<Rightarrow> (str list \<Rightarrow> 'w \<Rightarrow> probe_answer \<times> 'w) \<Rightarrow> str list \<Rightarrow> 'w \<Rightarrow> (str \<times> 'w) option" where
  "reported lower run_process probe w =
     (case run_process probe w of (Exited code out _, w') \<Rightarrow> (if code = 0 then Some (decode_text replacing out, w') else None) | _ \<Rightarrow> None)"

lemma probe_output_reported:
  "probe_output lower os_environ scopes run_process probe host resolved w = (Inr out, w') \<longleftrightarrow>
   reported lower run_process probe w = Some (out, w')"
  by (auto simp: probe_output_def reported_def split: prod.split probe_answer.split)

text \<open>What an accepted command has shown of itself, whatever the layers are.\<close>

definition dials :: "(str \<Rightarrow> str) \<Rightarrow> (str list \<Rightarrow> 'w \<Rightarrow> probe_answer \<times> 'w) \<Rightarrow> str \<Rightarrow> str list \<Rightarrow> str \<Rightarrow> 'w \<Rightarrow> str \<Rightarrow> bool" where
  "dials lower run_process executable settings host w name \<longleftrightarrow>
     (\<exists>out w'. reported lower run_process (executable # settings @ [text_of ''-G'', text_of ''--'', host]) w = Some (out, w') \<and>
        reported_hostname lower out = Some name \<and>
        (reported_keyword lower out (text_of ''controlpath'') = None \<or>
         (\<exists>out' w''. reported lower run_process (executable # [text_of ''-o'', text_of ''Hostname='' @ PROBE_HOSTNAME] @ settings @ [text_of ''-G'', text_of ''--'', host]) w' = Some (out', w'') \<and>
            reported_keyword lower out' (text_of ''controlpath'') \<noteq> reported_keyword lower out (text_of ''controlpath''))))"

lemma dials_unique: "dials lower run_process executable settings host w name \<Longrightarrow>
    dials lower run_process executable settings host w name' \<Longrightarrow> name = name'"
  by (auto simp: dials_def)

lemma resolve_destination_iff:
  assumes "probe_argv argv host = Inr probe"
  shows "resolve_destination lower os_environ scopes run_process argv host w = (Inr r, w') \<longleftrightarrow>
    (\<exists>out. reported lower run_process probe w = Some (out, w') \<and> reported_hostname lower out = Some (re_hostname r) \<and>
       reported_keyword lower out (text_of ''controlpath'') = re_control_path r)"
  unfolding probe_output_reported [of lower os_environ scopes _ _ host None, symmetric]
  by (cases r) (auto simp: resolve_destination_def assms split: prod.splits sum.splits option.splits)

lemma check_accepts:
  assumes argv: "probe_argv argv host = Inr (executable # settings @ [text_of ''-G'', text_of ''--'', host])"
    and layers: "active_layers lower os_environ scopes environ = Inr layers"
  shows "fst (check_destination lower os_environ scopes run_process environ argv host w) = Inr () \<longleftrightarrow>
    layers = [] \<or> (\<exists>name. dials lower run_process executable settings host w name \<and> list_all (host_matches lower name) layers)"
proof (cases "resolve_destination lower os_environ scopes run_process argv host w")
  case (Pair r w')
  note found = resolve_destination_iff [OF argv, of lower os_environ scopes run_process w]
  show ?thesis
  proof (cases r)
    case (Inl e)
    have "\<not> dials lower run_process executable settings host w name" for name
    proof
      assume "dials lower run_process executable settings host w name"
      then obtain out w1 where "reported lower run_process (executable # settings @ [text_of ''-G'', text_of ''--'', host]) w = Some (out, w1)"
        "reported_hostname lower out = Some name" unfolding dials_def by blast
      then have "resolve_destination lower os_environ scopes run_process argv host w =
          (Inr \<lparr>re_hostname = name, re_control_path = reported_keyword lower out (text_of ''controlpath'')\<rparr>, w1)"
        by (simp add: found)
      then show False using Pair Inl by simp
    qed
    then show ?thesis using Pair Inl layers by (simp add: check_destination_def)
  next
    case (Inr resolved)
    then obtain out where out: "reported lower run_process (executable # settings @ [text_of ''-G'', text_of ''--'', host]) w = Some (out, w')"
      and name: "reported_hostname lower out = Some (re_hostname resolved)"
      and path: "reported_keyword lower out (text_of ''controlpath'') = re_control_path resolved"
      using found Pair by auto
    have "fst (control_path_binds lower os_environ scopes run_process argv host resolved w') = Inr True \<longleftrightarrow>
      (\<exists>out' w''. reported lower run_process (executable # [text_of ''-o'', text_of ''Hostname='' @ PROBE_HOSTNAME] @ settings @ [text_of ''-G'', text_of ''--'', host]) w' = Some (out', w'') \<and>
            reported_keyword lower out' (text_of ''controlpath'') \<noteq> re_control_path resolved)"
      unfolding probe_output_reported [of lower os_environ scopes _ _ host "Some resolved", symmetric]
      by (auto simp: control_path_binds_def argv split: prod.splits sum.splits)
    then have "dials lower run_process executable settings host w name \<longleftrightarrow> name = re_hostname resolved \<and>
        (re_control_path resolved = None \<or> fst (control_path_binds lower os_environ scopes run_process argv host resolved w') = Inr True)" for name
      unfolding dials_def using out name path by auto
    then show ?thesis using Pair Inr layers
      by (auto simp: check_destination_def filter_empty_conv list_all_iff split: prod.splits sum.splits)
  qed
qed

lemma check_refuses:
  assumes argv: "probe_argv argv host = Inr probe"
    and layers: "environment_layer lower os_environ = Inr own"
  shows "fst (check_destination lower os_environ scopes run_process None argv host w) = Inl e \<Longrightarrow> \<exists>d. e = Refused d \<and> rd_host d = host"
  using layers
  by (auto simp: check_destination_def resolve_destination_def control_path_binds_def argv active_layers_def bind_sum_def probe_output_def
      unverified_def not_allowed_def cannot_bind_def Let_def split: sum.splits option.splits prod.splits probe_answer.splits if_splits)


text \<open>
  C40. Layers narrow and never widen. For a command line the client built, the connection is allowed
  under the layers of two nested blocks exactly when it is allowed under each of them; a refusal is a
  \<open>DestinationNotAllowedError\<close> naming the host that was asked for; and what is allowed under any layer at
  all is what the very command, asked with \<open>-G\<close> in place of its subsystem, has said it dials: one host
  that every layer admits, over no \<open>ControlPath\<close> or over one that moves with the destination. An answer
  that cannot be read refuses.
\<close>

theorem allowed_hosts_narrow:
  assumes built: "build_ssh_argv lower l = Inr argv" and policy: "environment_layer lower os_environ = Inr own"
  shows "(fst (check_destination lower os_environ (outer @ inner) run_process None argv (la_host l) w) = Inr () \<longleftrightarrow>
      fst (check_destination lower os_environ outer run_process None argv (la_host l) w) = Inr () \<and>
      fst (check_destination lower os_environ inner run_process None argv (la_host l) w) = Inr ()) \<and>
    (\<forall>e. fst (check_destination lower os_environ outer run_process None argv (la_host l) w) = Inl e \<longrightarrow>
      (\<exists>d. e = Refused d \<and> rd_host d = la_host l)) \<and>
    (\<exists>executable settings. argv = executable # settings @ [text_of ''-s'', text_of ''--'', la_host l, la_subsystem l] \<and>
      (fst (check_destination lower os_environ outer run_process None argv (la_host l) w) = Inr () \<longleftrightarrow>
       own = None \<and> outer = [] \<or>
       (\<exists>name. dials lower run_process executable settings (la_host l) w name \<and>
          (\<forall>layer. own = Some layer \<or> layer \<in> set outer \<longrightarrow> host_matches lower name layer))))"
proof -
  obtain executable settings where argv: "argv = executable # settings @ [text_of ''-s'', text_of ''--'', la_host l, la_subsystem l]"
    and probe: "probe_argv argv (la_host l) = Inr (executable # settings @ [text_of ''-G'', text_of ''--'', la_host l])"
    using built_tail [OF built] by metis
  have layers: "active_layers lower os_environ scopes None = Inr (case own of None \<Rightarrow> scopes | Some layer \<Rightarrow> layer # scopes)" for scopes
    using policy by (simp add: active_layers_def bind_sum_def)
  have says: "list_all (host_matches lower name) (case own of None \<Rightarrow> outer | Some layer \<Rightarrow> layer # outer) \<longleftrightarrow>
      (\<forall>layer. own = Some layer \<or> layer \<in> set outer \<longrightarrow> host_matches lower name layer)" for name
    by (cases own) (auto simp: list_all_iff)
  have none: "(case own of None \<Rightarrow> outer | Some layer \<Rightarrow> layer # outer) = [] \<longleftrightarrow> own = None \<and> outer = []" by (cases own) auto
  note accepts = check_accepts [OF probe layers]
  have common: "(\<exists>name. dials lower run_process executable settings (la_host l) w name \<and> P name) \<and>
      (\<exists>name. dials lower run_process executable settings (la_host l) w name \<and> Q name) \<longleftrightarrow>
      (\<exists>name. dials lower run_process executable settings (la_host l) w name \<and> P name \<and> Q name)" for P Q
    using dials_unique by metis
  have narrow: "fst (check_destination lower os_environ (outer @ inner) run_process None argv (la_host l) w) = Inr () \<longleftrightarrow>
      fst (check_destination lower os_environ outer run_process None argv (la_host l) w) = Inr () \<and>
      fst (check_destination lower os_environ inner run_process None argv (la_host l) w) = Inr ()"
    unfolding accepts by (cases own; cases "outer = []"; cases "inner = []") (auto simp: list_all_append common)
  have exact: "fst (check_destination lower os_environ outer run_process None argv (la_host l) w) = Inr () \<longleftrightarrow>
       own = None \<and> outer = [] \<or>
       (\<exists>name. dials lower run_process executable settings (la_host l) w name \<and>
          (\<forall>layer. own = Some layer \<or> layer \<in> set outer \<longrightarrow> host_matches lower name layer))"
    unfolding accepts says none ..
  show ?thesis
    by (intro conjI allI impI exI [of _ executable] exI [of _ settings];
        (rule narrow | rule argv | rule exact | erule check_refuses [OF probe policy]))
qed

text \<open>A deployment that allows its own domain, and a server whose configuration rewrites nothing.\<close>

definition own_domain :: "(str, str) dict" where
  "own_domain = [(ALLOWED_HOSTS_ENV, text_of ''*.example'')]"

definition plain_answer :: bytes where "plain_answer = map of_char ''hostname files.example''"

definition plain_ssh :: "str list \<Rightarrow> unit \<Rightarrow> probe_answer \<times> unit" where
  "plain_ssh probe w = (Exited 0 plain_answer [], w)"

lemma plain_ssh_dials:
  "dials (map ascii_lower) plain_ssh executable settings host () name \<longleftrightarrow> name = text_of ''files.example''"
proof -
  have out: "decode_text replacing plain_answer = text_of ''hostname files.example''"
    using decode_ascii [of "text_of ''hostname files.example''" replacing] by (simp add: text_of_def plain_answer_def)
  have "reported_hostname (map ascii_lower) (text_of ''hostname files.example'') = Some (text_of ''files.example'')"
    "reported_keyword (map ascii_lower) (text_of ''hostname files.example'') (text_of ''controlpath'') = None"
    by (simp_all add: reported_hostname_def reported_keyword_def keyword_line_def splitlines_def text_of_def line_break_def strip_text_def
        is_space_def ascii_lower_def normalize_host_def)
  then show ?thesis by (auto simp: dials_def reported_def plain_ssh_def out)
qed

lemma files_example_matches:
  "host_matches (map ascii_lower) (text_of ''files.example'') [text_of ''*.example'']"
  "host_matches (map ascii_lower) (text_of ''files.example'') [text_of ''files.*'']"
  "\<not> host_matches (map ascii_lower) (text_of ''files.example'') [text_of ''backup.*'']"
  by (simp_all add: host_matches_def fnmatchcase_def normalize_host_def strip_text_def is_space_def ascii_lower_def text_of_def)

theorem allowed_hosts_narrow_witness:
  "\<exists>argv d. build_ssh_argv (map ascii_lower) careful_launch = Inr argv \<and>
     fst (check_destination (map ascii_lower) own_domain [[text_of ''files.*'']] plain_ssh None argv (la_host careful_launch) ()) = Inr () \<and>
     fst (check_destination (map ascii_lower) own_domain [[text_of ''files.*''], [text_of ''backup.*'']] plain_ssh None argv (la_host careful_launch) ())
       = Inl (Refused d)"
proof -
  let ?layer = "\<lambda>p. [text_of p]"
  obtain argv where built: "build_ssh_argv (map ascii_lower) careful_launch = Inr argv" using careful_launch_built by blast
  let ?check = "\<lambda>scopes. fst (check_destination (map ascii_lower) own_domain scopes plain_ssh None argv (la_host careful_launch) ())"
  have own: "environment_layer (map ascii_lower) own_domain = Inr (Some [text_of ''*.example''])"
    by (simp add: environment_layer_def own_domain_def ALLOWED_HOSTS_ENV_def dict_get_def normalize_patterns_def normalize_host_def strip_text_def
        is_space_def ascii_lower_def text_of_def bind_sum_def)
  note narrow = allowed_hosts_narrow [OF built own, of _ _ plain_ssh "()"]
  have "?check [?layer ''files.*''] = Inr ()"
    using narrow [of "[?layer ''files.*'']" "[]"] files_example_matches by (auto simp: plain_ssh_dials)
  moreover have "?check [?layer ''backup.*''] \<noteq> Inr ()"
    using narrow [of "[?layer ''backup.*'']" "[]"] files_example_matches by (auto simp: plain_ssh_dials)
  then have "?check ([?layer ''files.*''] @ [?layer ''backup.*'']) \<noteq> Inr ()"
    using narrow [of "[?layer ''files.*'']" "[?layer ''backup.*'']"] by blast
  then obtain e where "?check ([?layer ''files.*''] @ [?layer ''backup.*'']) = Inl e"
    by (cases "?check ([?layer ''files.*''] @ [?layer ''backup.*''])") auto
  moreover from this obtain d where "e = Refused d"
    using narrow [of "[?layer ''files.*''] @ [?layer ''backup.*'']" "[]"] by blast
  ultimately show ?thesis using built by (intro exI [of _ argv] exI [of _ d]) simp
qed

end
