(* ===== verification/Compatibility.thy ===== *)
theory Compatibility
  imports Traversal Retry Verify SizeLimits
begin

text \<open>
  The battery of \<open>compatibility.py\<close>: probes that ask a live session what its server does, each a finding
  with its evidence. A probe of the second kind also keeps the names it may have created, so it is a
  program over the session and those names.
\<close>

section \<open>Findings\<close>

datatype verdict = YES | NO | UNDETERMINED

text \<open>A line of evidence: what was seen, or the exception a probe ended with.\<close>

datatype evidence = Saw reason | Raised exn

record finding =
  fi_fact :: string
  fi_verdict :: verdict
  fi_answer :: reason
  fi_evidence :: "evidence list"

definition finding_of :: "string \<Rightarrow> verdict \<Rightarrow> string \<Rightarrow> evidence list \<Rightarrow> finding" where
  "finding_of question verdict answer evidence = \<lparr>fi_fact = question, fi_verdict = verdict, fi_answer = Msg answer [], fi_evidence = evidence\<rparr>"

datatype probe_limit =
    WRITE_PROBES_NOT_REQUESTED | EXTENSIONS_NEEDING_A_WRITE "bytes list" | LARGEST_REQUEST_NEEDS_A_WRITE
  | UNADVERTISED_EXTENSIONS | CEILING_ABOVE_THIS_SESSION | BEHAVIOUR_UNDER_LOAD

record compatibility_report =
  cr_findings :: "finding list"
  cr_undetermined :: "probe_limit list"
  cr_wrote_into :: "str option"
  cr_left_behind :: "(bytes \<times> exn) list"

definition report_complete :: "compatibility_report \<Rightarrow> bool" where
  "report_complete r \<longleftrightarrow> cr_findings r \<noteq> [] \<and> list_all (\<lambda>f. fi_verdict f \<noteq> UNDETERMINED) (cr_findings r)"

definition PROBE_PREFIX :: string where "PROBE_PREFIX = ''gantry-probe''"
definition PROBE_MODE :: int where "PROBE_MODE = 0x180"
definition LSETSTAT_PROBE_MODE :: int where "LSETSTAT_PROBE_MODE = 0x1A0"
definition PROBE_TIMESTAMP :: int where "PROBE_TIMESTAMP = 1000000000"
definition CHECK_FILE_PAYLOAD :: bytes where "CHECK_FILE_PAYLOAD = ascii ''gantry-sftp check-file probe'' @ [10]"

section \<open>Around a probe\<close>

definition join_probe :: "bytes \<Rightarrow> str \<Rightarrow> exn + bytes" where
  "join_probe directory name =
     (if list_all (\<lambda>c. c < 128) name then Inr (rstrip_slash directory @ [47] @ map of_nat name)
      else Inl (ValueErr (Msg ''ordinal not in range(128)'' [])))"

definition probe_name :: "str \<Rightarrow> string \<Rightarrow> str" where
  "probe_name run_id ending = text_of PROBE_PREFIX @ text_of ''-'' @ run_id @ text_of ''-'' @ text_of ending"

definition upper_byte :: "byte \<Rightarrow> byte" where "upper_byte b = (if 97 \<le> b \<and> b \<le> 122 then b - 32 else b)"

definition upper_name :: "bytes \<Rightarrow> bytes" where
  "upper_name path =
     (let name = rev (takeWhile (\<lambda>b. b \<noteq> 47) (rev path)) in take (length path - length name) path @ map upper_byte name)"

text \<open>\<open>_refusal\<close>: the code, which has to be one \<open>StatusCode\<close> names, and the message.\<close>

definition refusal :: "exn \<Rightarrow> exn + int \<times> bytes" where
  "refusal e =
     (case e of
        ServerErr _ code message _ \<Rightarrow>
          (if status_code_of code = None then Inl (ValueErr (Msg ''not a valid StatusCode'' [IntArg code])) else Inr (code, message))
      | _ \<Rightarrow> Inl (AttributeErr ''code''))"

definition refused_line :: "string \<Rightarrow> arg list \<Rightarrow> int \<times> bytes \<Rightarrow> evidence" where
  "refused_line what args detail = Saw (Msg what (args @ [IntArg (fst detail), BytesArg (snd detail)]))"

text \<open>\<open>try: m  except ServerError as refusal:\<close> with its text, which every handler here reads.\<close>

definition trying :: "('a, 'w) prog \<Rightarrow> ((int \<times> bytes) + 'a, 'w) prog" where
  "trying m =
     catching (andthen m (\<lambda>x. give (Inr x)))
       (\<lambda>e. if is_server_error e then andthen (raising (refusal e)) (\<lambda>detail. give (Inl detail)) else throw e)"

text \<open>\<open>SFTPError\<close> or \<open>OSError\<close>.\<close>

fun is_expected_failure :: "exn \<Rightarrow> bool" where
  "is_expected_failure (ValueErr _) = False"
| "is_expected_failure (TypeErr _) = False"
| "is_expected_failure OverflowErr = False"
| "is_expected_failure (AttributeErr _) = False"
| "is_expected_failure KeyErr = False"
| "is_expected_failure (ExceptionGroup _) = False"
| "is_expected_failure Cancelled = False"
| "is_expected_failure _ = True"

definition guarded :: "string \<Rightarrow> (finding, 'w) prog \<Rightarrow> (finding, 'w) prog" where
  "guarded question probe =
     catching probe (\<lambda>e. if is_expected_failure e then give (finding_of question UNDETERMINED ''the probe itself failed'' [Raised e]) else throw e)"

section \<open>The probes that only read\<close>

abbreviation REALPATH_MISSING :: string where "REALPATH_MISSING \<equiv> ''REALPATH canonicalises a path that does not exist''"
abbreviation ROOT_IS_SLASH :: string where "ROOT_IS_SLASH \<equiv> ''the root of this server's namespace is /''"
abbreviation MESSAGES_INFORMATIVE :: string where "MESSAGES_INFORMATIVE \<equiv> ''a refusal carries a message that says more than its status code''"
abbreviation LIMITS_USABLE :: string where "LIMITS_USABLE \<equiv> ''limits@openssh.com answers with a usable maximum''"
abbreviation LARGEST_REQUEST :: string where "LARGEST_REQUEST \<equiv> ''a request as large as this session would send is accepted''"

definition probe_realpath_of_a_missing_path :: "'w connection \<Rightarrow> bytes \<Rightarrow> str \<Rightarrow> (finding, 'w session) prog" where
  "probe_realpath_of_a_missing_path c directory run_id =
     andthen (raising (join_probe directory (probe_name run_id ''absent''))) (\<lambda>missing.
     andthen (trying (realpath c (BytesValue missing))) (\<lambda>r.
       give (case r of
         Inl detail \<Rightarrow> finding_of REALPATH_MISSING NO ''refuses to canonicalise a name that does not exist''
                         [refused_line ''REALPATH'' [BytesArg missing] detail]
       | Inr canonical \<Rightarrow> finding_of REALPATH_MISSING YES ''a name that does not exist can be resolved''
                         [Saw (Msg ''REALPATH'' [BytesArg missing, BytesArg canonical])])))"

definition probe_root_shape :: "'w connection \<Rightarrow> (finding, 'w session) prog" where
  "probe_root_shape c =
     andthen (trying (realpath c (BytesValue [47]))) (\<lambda>r.
       give (case r of
         Inl detail \<Rightarrow> finding_of ROOT_IS_SLASH NO ''refuses / outright'' [refused_line ''REALPATH /'' [] detail]
       | Inr canonical \<Rightarrow>
           finding_of ROOT_IS_SLASH (if canonical = [47] then YES else NO)
             (if canonical = [47] then ''/ canonicalises to itself'' else ''/ resolves to something else'')
             [Saw (Msg ''REALPATH /'' [BytesArg canonical])]))"

fun status_name :: "status_code \<Rightarrow> string" where
  "status_name FX_OK = ''OK''"
| "status_name FX_EOF = ''EOF''"
| "status_name FX_NO_SUCH_FILE = ''NO_SUCH_FILE''"
| "status_name FX_PERMISSION_DENIED = ''PERMISSION_DENIED''"
| "status_name FX_FAILURE = ''FAILURE''"
| "status_name FX_BAD_MESSAGE = ''BAD_MESSAGE''"
| "status_name FX_NO_CONNECTION = ''NO_CONNECTION''"
| "status_name FX_CONNECTION_LOST = ''CONNECTION_LOST''"
| "status_name FX_OP_UNSUPPORTED = ''OP_UNSUPPORTED''"

definition CODE_IN_PROSE :: "status_code \<Rightarrow> string list" where
  "CODE_IN_PROSE status =
     (if status = FX_NO_SUCH_FILE then [''nosuchfileordirectory'']
      else if status = FX_OP_UNSUPPORTED then [''operationunsupported''] else [])"

text \<open>\<open>str.lower\<close> and \<open>str.isalnum\<close> are the interpreter's Unicode tables.\<close>

definition restates_the_code :: "(str \<Rightarrow> str) \<Rightarrow> (nat \<Rightarrow> bool) \<Rightarrow> int \<Rightarrow> bytes \<Rightarrow> exn + bool" where
  "restates_the_code lower alnum code message =
     (let normalised = filter alnum (lower (decode_text replacing message)) in
      case status_code_of code of
        None \<Rightarrow> Inl (ValueErr (Msg ''not a valid StatusCode'' [IntArg code]))
      | Some status \<Rightarrow>
          Inr (normalised = filter (\<lambda>ch. ch \<noteq> 95) (lower (text_of (status_name status))) \<or>
               normalised \<in> set (map text_of (CODE_IN_PROSE status))))"

fun all_restate :: "(str \<Rightarrow> str) \<Rightarrow> (nat \<Rightarrow> bool) \<Rightarrow> (int \<times> bytes) list \<Rightarrow> exn + bool" where
  "all_restate lower alnum [] = Inr True"
| "all_restate lower alnum ((code, message) # rest) =
     bind_sum (restates_the_code lower alnum code message) (\<lambda>b. if b then all_restate lower alnum rest else Inr False)"

definition judge_messages :: "(str \<Rightarrow> str) \<Rightarrow> (nat \<Rightarrow> bool) \<Rightarrow> (int \<times> bytes) list \<Rightarrow> evidence list \<Rightarrow> exn + finding" where
  "judge_messages lower alnum refusals evidence =
     (if list_ex (\<lambda>(_, message). message = []) refusals
      then Inr (finding_of MESSAGES_INFORMATIVE NO ''at least one refusal carried no message'' evidence)
      else bind_sum (all_restate lower alnum refusals) (\<lambda>all.
        Inr (if all then finding_of MESSAGES_INFORMATIVE NO ''every refusal spelled out its own status code'' evidence
             else finding_of MESSAGES_INFORMATIVE YES ''a refusal said something its status code did not'' evidence)))"

text \<open>The loop over the requests that should be refused: a finding at the first that is accepted.\<close>

fun ask_for_refusals ::
    "(string \<times> bytes \<times> (unit, 'w) prog) list \<Rightarrow> evidence list \<Rightarrow> (int \<times> bytes) list \<Rightarrow> (finding + evidence list \<times> (int \<times> bytes) list, 'w) prog" where
  "ask_for_refusals [] exchanges refusals = give (Inr (exchanges, refusals))"
| "ask_for_refusals ((what, path, m) # rest) exchanges refusals =
     andthen (trying m) (\<lambda>r.
       case r of
         Inl detail \<Rightarrow> ask_for_refusals rest (exchanges @ [refused_line what [BytesArg path] detail]) (refusals @ [detail])
       | Inr _ \<Rightarrow> give (Inl (finding_of MESSAGES_INFORMATIVE UNDETERMINED ''accepted a request where a refusal was expected''
                    (exchanges @ [Saw (Msg what [BytesArg path, StrArg ''accepted''])]))))"

definition probe_message_quality :: "(str \<Rightarrow> str) \<Rightarrow> (nat \<Rightarrow> bool) \<Rightarrow> 'w connection \<Rightarrow> bytes \<Rightarrow> str \<Rightarrow> (finding, 'w session) prog" where
  "probe_message_quality lower alnum c directory run_id =
     andthen (raising (join_probe directory (probe_name run_id ''absent''))) (\<lambda>missing.
     andthen (ask_for_refusals
         [(''STAT'', missing, andthen (stat_path c (BytesValue missing)) (\<lambda>_. give ())),
          (''READLINK'', directory, andthen (readlink c (BytesValue directory)) (\<lambda>_. give ()))] [] []) (\<lambda>r.
       case r of
         Inl settled \<Rightarrow> give settled
       | Inr (exchanges, refusals) \<Rightarrow>
           raising (judge_messages lower alnum refusals
             (exchanges @ [Saw (Msg (if sp_informative (identify (co_extensions c)) then ''fingerprint claims informative messages''
                                     else ''fingerprint claims uninformative messages'') [])]))))"

definition probe_limits_usable :: "server_limits \<Rightarrow> finding" where
  "probe_limits_usable limits =
     (let stated = [(''max_packet_length'', max_packet_length limits), (''max_read_length'', max_read_length limits),
                    (''max_write_length'', max_write_length limits), (''max_open_handles'', max_open_handles limits)];
          evidence = map (\<lambda>(name, value). Saw (Msg name (case value of None \<Rightarrow> [] | Some n \<Rightarrow> [IntArg n]))) stated in
      if list_ex (\<lambda>(_, value). value \<noteq> None) stated then finding_of LIMITS_USABLE YES ''named at least one maximum'' evidence
      else finding_of LIMITS_USABLE NO ''answered every field with no limit'' evidence)"

fun all_findings :: "(finding, 'w) prog list \<Rightarrow> (finding list, 'w) prog" where
  "all_findings [] = give []"
| "all_findings (m # ms) = andthen m (\<lambda>f. andthen (all_findings ms) (\<lambda>fs. give (f # fs)))"

definition read_only_probes ::
    "(str \<Rightarrow> str) \<Rightarrow> (nat \<Rightarrow> bool) \<Rightarrow> server_limits \<Rightarrow> 'w connection \<Rightarrow> bytes \<Rightarrow> str \<Rightarrow> (finding list, 'w session) prog" where
  "read_only_probes lower alnum limits c directory run_id =
     all_findings
       ([guarded REALPATH_MISSING (probe_realpath_of_a_missing_path c directory run_id),
         guarded ROOT_IS_SLASH (probe_root_shape c),
         guarded MESSAGES_INFORMATIVE (probe_message_quality lower alnum c directory run_id)] @
        (if supports c (ascii EXTENSION_LIMITS) then [guarded LIMITS_USABLE (give (probe_limits_usable limits))] else []))"

section \<open>The names a battery may create\<close>

text \<open>\<open>_Scratch\<close>: the list of claimed names goes with the session.\<close>

type_synonym ('a, 'w) probe = "('a, 'w session \<times> bytes list) prog"

definition served :: "('a, 'w session) prog \<Rightarrow> ('a, 'w) probe" where
  "served m sc = (case m (fst sc) of (r, s, t) \<Rightarrow> (r, (s, snd sc), map (\<lambda>s. (s, snd sc)) t))"

definition claim_name :: "bytes \<Rightarrow> str \<Rightarrow> string \<Rightarrow> (bytes, 'w) probe" where
  "claim_name directory run_id ending =
     andthen (raising (join_probe directory (probe_name run_id ending))) (\<lambda>path.
       call (\<lambda>(s, claimed). (Inr path, (s, claimed @ [path]))))"

definition with_scratch :: "('a, 'w) probe \<Rightarrow> ('a, 'w session) prog" where
  "with_scratch m s = (case m (s, []) of (r, (s', _), t) \<Rightarrow> (r, s', map fst t))"

abbreviation CREATE_FLAGS :: int where "CREATE_FLAGS \<equiv> OPEN_WRITE OR OPEN_CREAT OR OPEN_EXCL"

definition create_file :: "'w connection \<Rightarrow> bytes \<Rightarrow> bytes \<Rightarrow> (unit, 'w session) prog" where
  "create_file c path contents =
     andthen (open_path c (BytesValue path) CREATE_FLAGS (Some PROBE_MODE)) (\<lambda>h.
       ensuring (if contents \<noteq> [] then andthen (write_at c h 0 contents) (\<lambda>_. give ()) else give ()) (close_handle c h))"

section \<open>The probes that write\<close>

abbreviation CASE_FOLDS :: string where "CASE_FOLDS \<equiv> ''this server folds case in names''"
abbreviation RENAME_REPLACES :: string where "RENAME_REPLACES \<equiv> ''RENAME replaces an existing target''"
abbreviation POSIX_RENAME_HONOURED :: string where "POSIX_RENAME_HONOURED \<equiv> ''posix-rename@openssh.com actually renames''"
abbreviation TIMES_SURVIVE :: string where "TIMES_SURVIVE \<equiv> ''a file's timestamps survive being set''"
abbreviation FSYNC_HONOURED :: string where "FSYNC_HONOURED \<equiv> ''fsync@openssh.com actually flushes''"
abbreviation LSETSTAT_HONOURED :: string where "LSETSTAT_HONOURED \<equiv> ''lsetstat@openssh.com actually changes a symlink's own mode''"
abbreviation CHECK_FILE_HONOURED :: string where "CHECK_FILE_HONOURED \<equiv> ''check-file actually hashes the bytes the server has''"

abbreviation created :: "bytes list \<Rightarrow> evidence" where "created paths \<equiv> Saw (Msg ''created'' (map BytesArg paths))"

definition probe_case_folding :: "'w connection \<Rightarrow> (string \<Rightarrow> (bytes, 'w) probe) \<Rightarrow> (finding, 'w) probe" where
  "probe_case_folding c claiming =
     andthen (claiming ''case-aA'') (\<lambda>path.
     andthen (served (create_file c path [])) (\<lambda>_.
     let folded = upper_name path in
     catching (andthen (served (stat_path c (BytesValue folded))) (\<lambda>_.
         give (finding_of CASE_FOLDS YES ''the same file answered to a different case'' [created [path], Saw (Msg ''STAT found'' [BytesArg folded])])))
       (\<lambda>e. if is_no_such_file e then
               andthen (raising (refusal e)) (\<lambda>detail.
                 give (finding_of CASE_FOLDS NO ''names are case-sensitive here'' [created [path], refused_line ''STAT'' [BytesArg folded] detail]))
             else throw e)))"

definition probe_rename_replaces :: "'w connection \<Rightarrow> (string \<Rightarrow> (bytes, 'w) probe) \<Rightarrow> (finding, 'w) probe" where
  "probe_rename_replaces c claiming =
     andthen (claiming ''rename-source'') (\<lambda>source.
     andthen (claiming ''rename-target'') (\<lambda>target.
     andthen (served (create_file c source [])) (\<lambda>_.
     andthen (served (create_file c target [])) (\<lambda>_.
     andthen (trying (served (rename_paths c (BytesValue source) (BytesValue target)))) (\<lambda>r.
       give (case r of
         Inl detail \<Rightarrow> finding_of RENAME_REPLACES NO ''RENAME onto an existing name is refused'' [created [source, target], refused_line ''RENAME'' [] detail]
       | Inr _ \<Rightarrow> finding_of RENAME_REPLACES YES ''RENAME silently replaced an existing file'' [created [source, target], Saw (Msg ''RENAME OK'' [])]))))))"

definition probe_posix_rename :: "'w connection \<Rightarrow> (string \<Rightarrow> (bytes, 'w) probe) \<Rightarrow> (finding, 'w) probe" where
  "probe_posix_rename c claiming =
     andthen (claiming ''posix-source'') (\<lambda>source.
     andthen (claiming ''posix-target'') (\<lambda>target.
     andthen (served (create_file c source [])) (\<lambda>_.
     andthen (served (create_file c target [])) (\<lambda>_.
     andthen (trying (served (posix_rename_if_supported c (BytesValue source) (BytesValue target)))) (\<lambda>r.
       case r of
         Inl detail \<Rightarrow> give (finding_of POSIX_RENAME_HONOURED NO ''advertised and refused'' [created [source, target], refused_line ''posix-rename'' [] detail])
       | Inr performed \<Rightarrow>
           (if \<not> performed then
              give (finding_of POSIX_RENAME_HONOURED NO ''advertised and answered OP_UNSUPPORTED'' [created [source, target], Saw (Msg ''posix-rename OP_UNSUPPORTED'' [])])
            else andthen (served (exists_path c (BytesValue source) True)) (\<lambda>there.
              give (finding_of POSIX_RENAME_HONOURED (if there then NO else YES)
                (if there then ''answered OK and nothing was renamed'' else ''the target was replaced in one step'')
                [created [source, target], Saw (Msg ''posix-rename OK'' []), Saw (Msg (if there then ''still present'' else ''gone'') [BytesArg source])]))))))))"

definition probe_timestamps :: "'w connection \<Rightarrow> (string \<Rightarrow> (bytes, 'w) probe) \<Rightarrow> (finding, 'w) probe" where
  "probe_timestamps c claiming =
     andthen (claiming ''times'') (\<lambda>path.
     andthen (served (create_file c path [])) (\<lambda>_.
     andthen (served (utime c (BytesValue path) PROBE_TIMESTAMP PROBE_TIMESTAMP True)) (\<lambda>_.
     andthen (served (stat_path c (BytesValue path))) (\<lambda>a.
     let made = [created [path], Saw (Msg ''SETSTAT ACMODTIME OK'' [IntArg PROBE_TIMESTAMP])] in
       give (case a_times a of
         None \<Rightarrow> finding_of TIMES_SURVIVE UNDETERMINED ''reported no times at all'' (made @ [Saw (Msg ''no times reported'' [])])
       | Some held \<Rightarrow>
           finding_of TIMES_SURVIVE (if mtime held = PROBE_TIMESTAMP then YES else NO)
             (if mtime held = PROBE_TIMESTAMP then ''the mtime that was set came back'' else ''accepted and kept a different mtime'')
             (made @ [Saw (Msg ''mtime'' [IntArg (mtime held)])]))))))"

definition probe_fsync :: "'w connection \<Rightarrow> (string \<Rightarrow> (bytes, 'w) probe) \<Rightarrow> (finding, 'w) probe" where
  "probe_fsync c claiming =
     andthen (claiming ''fsync'') (\<lambda>path.
     andthen (served (open_path c (BytesValue path) CREATE_FLAGS (Some PROBE_MODE))) (\<lambda>h.
     andthen (ensuring (andthen (served (write_at c h 0 CHECK_FILE_PAYLOAD)) (\<lambda>_. served (fsync_if_supported c h))) (served (close_handle c h))) (\<lambda>performed.
       give (finding_of FSYNC_HONOURED (if performed then YES else NO) (if performed then ''the server flushed the handle'' else ''advertised and not performed'')
         [created [path], Saw (Msg (if performed then ''fsync OK'' else ''fsync not performed'') [])]))))"

definition judge_lsetstat :: "'w connection \<Rightarrow> bytes \<Rightarrow> bytes \<Rightarrow> evidence list \<Rightarrow> (finding, 'w) probe" where
  "judge_lsetstat c target link made =
     andthen (served (lstat_path c (BytesValue link))) (\<lambda>on_link.
     andthen (served (stat_path c (BytesValue target))) (\<lambda>on_target.
     let bits = (\<lambda>a. (case a_permissions a of None \<Rightarrow> 0 | Some m \<Rightarrow> m) AND 0xFFF);
         evidence = made @ [Saw (Msg ''lsetstat OK'' []), Saw (Msg ''LSTAT of the link'' [IntArg (bits on_link)]), Saw (Msg ''STAT of the target'' [IntArg (bits on_target)])] in
       give (if bits on_link = LSETSTAT_PROBE_MODE then finding_of LSETSTAT_HONOURED YES ''the link's own mode is what was asked for'' evidence
             else if bits on_target = LSETSTAT_PROBE_MODE then finding_of LSETSTAT_HONOURED NO ''changed the mode of what the link points at'' evidence
             else finding_of LSETSTAT_HONOURED NO ''accepted and discarded'' evidence)))"

definition probe_lsetstat :: "'w connection \<Rightarrow> (string \<Rightarrow> (bytes, 'w) probe) \<Rightarrow> (finding, 'w) probe" where
  "probe_lsetstat c claiming =
     andthen (claiming ''lsetstat-target'') (\<lambda>target.
     andthen (claiming ''lsetstat-link'') (\<lambda>link.
     andthen (served (create_file c target [])) (\<lambda>_.
     andthen (served (symlink c (BytesValue target) (BytesValue link))) (\<lambda>_.
     let made = [created [target, link]] in
     andthen (catching (andthen (served (chmod c (BytesValue link) LSETSTAT_PROBE_MODE False)) (\<lambda>_. give None))
        (\<lambda>e. case e of
               CapabilityErr _ \<Rightarrow> give (Some (Saw (Msg ''lsetstat refused by this client'' [])))
             | ServerErr _ _ _ _ \<Rightarrow> andthen (raising (refusal e)) (\<lambda>detail. give (Some (refused_line ''lsetstat'' [] detail)))
             | _ \<Rightarrow> throw e)) (\<lambda>refused.
       case refused of
         Some line \<Rightarrow> give (finding_of LSETSTAT_HONOURED NO ''advertised and refused'' (made @ [line]))
       | None \<Rightarrow> judge_lsetstat c target link made)))))"

text \<open>\<open>digest\<close> and \<open>digest_size\<close> are \<open>hashlib\<close>.\<close>

definition probe_check_file ::
    "(bytes \<Rightarrow> int option) \<Rightarrow> (bytes \<Rightarrow> bytes \<Rightarrow> bytes) \<Rightarrow> 'w connection \<Rightarrow> (string \<Rightarrow> (bytes, 'w) probe) \<Rightarrow> (finding, 'w) probe" where
  "probe_check_file digest_size digest c claiming =
     andthen (claiming ''check-file'') (\<lambda>path.
     andthen (served (create_file c path CHECK_FILE_PAYLOAD)) (\<lambda>_.
     andthen (served (open_path c (BytesValue path) OPEN_READ None)) (\<lambda>h.
     andthen (ensuring (served (check_file_digests digest_size c h (ascii ''sha256,sha1,md5'') 0 0 (int CHECK_FILE_BLOCK_SIZE))) (served (close_handle c h)))
       (\<lambda>(algorithm, digests).
       let matched = (digests = [digest algorithm CHECK_FILE_PAYLOAD]) in
       give (finding_of CHECK_FILE_HONOURED (if matched then YES else NO) (if matched then ''the digest matches'' else ''the digests do not match'')
         [Saw (Msg ''created'' [BytesArg path, NatArg (length CHECK_FILE_PAYLOAD)]), Saw (Msg ''check-file'' [BytesArg algorithm, NatArg (length digests)]),
          Saw (Msg (if matched then ''first digest matches'' else ''first digest differs'') [])])))))"

definition probe_largest_request :: "'w connection \<Rightarrow> (string \<Rightarrow> (bytes, 'w) probe) \<Rightarrow> int \<Rightarrow> (finding, 'w) probe" where
  "probe_largest_request c claiming request_bytes =
     andthen (claiming ''largest-request'') (\<lambda>path.
     andthen (served (open_path c (BytesValue path) CREATE_FLAGS (Some PROBE_MODE))) (\<lambda>h.
     andthen (ensuring (trying (served (write_at c h 0 (replicate (nat request_bytes) 0)))) (served (close_handle c h))) (\<lambda>r.
       give (case r of
         Inl detail \<Rightarrow> finding_of LARGEST_REQUEST NO ''the server refused a request of the size this session derived'' [refused_line ''WRITE'' [IntArg request_bytes] detail]
       | Inr written \<Rightarrow>
           (if written \<noteq> request_bytes then
              finding_of LARGEST_REQUEST NO ''accepted the request and stored fewer bytes'' [Saw (Msg ''WRITE'' [IntArg request_bytes, IntArg written])]
            else finding_of LARGEST_REQUEST YES ''accepted whole'' [Saw (Msg ''WRITE'' [IntArg request_bytes, IntArg written]), Saw (Msg ''derived for'' [BytesArg path])])))))"

section \<open>The battery\<close>

fun clean_up :: "'w connection \<Rightarrow> bytes list \<Rightarrow> (bytes \<times> exn) list \<Rightarrow> ((bytes \<times> exn) list, 'w session) prog" where
  "clean_up c [] left_behind = give left_behind"
| "clean_up c (path # paths) left_behind =
     andthen (catching (andthen (remove_path c (BytesValue path)) (\<lambda>_. give left_behind))
        (\<lambda>e. if is_no_such_file e then give left_behind
              else if is_expected_failure e then give (left_behind @ [(path, e)]) else throw e))
       (clean_up c paths)"

definition extension_probes ::
    "(bytes \<Rightarrow> int option) \<Rightarrow> (bytes \<Rightarrow> bytes \<Rightarrow> bytes) \<Rightarrow> 'w connection \<Rightarrow> (string \<Rightarrow> (bytes, 'w) probe) \<Rightarrow> (bytes \<times> string \<times> (finding, 'w) probe) list" where
  "extension_probes digest_size digest c claiming =
     [(POSIX_RENAME_NAME, POSIX_RENAME_HONOURED, probe_posix_rename c claiming), (FSYNC_NAME, FSYNC_HONOURED, probe_fsync c claiming),
      (LSETSTAT_NAME, LSETSTAT_HONOURED, probe_lsetstat c claiming), (CHECK_FILE_NAME, CHECK_FILE_HONOURED, probe_check_file digest_size digest c claiming)]"

definition write_battery ::
    "(bytes \<Rightarrow> int option) \<Rightarrow> (bytes \<Rightarrow> bytes \<Rightarrow> bytes) \<Rightarrow> 'w connection \<Rightarrow> (string \<Rightarrow> (bytes, 'w) probe) \<Rightarrow> int \<Rightarrow> (finding, 'w) probe list" where
  "write_battery digest_size digest c claiming request_bytes =
     [guarded CASE_FOLDS (probe_case_folding c claiming), guarded RENAME_REPLACES (probe_rename_replaces c claiming),
      guarded TIMES_SURVIVE (probe_timestamps c claiming)] @
     map (\<lambda>(_, question, probe). guarded question probe)
       (filter (\<lambda>(extension, _). supports c extension) (extension_probes digest_size digest c claiming)) @
     [guarded LARGEST_REQUEST (probe_largest_request c claiming request_bytes)]"

definition write_probes ::
    "(bytes \<Rightarrow> int option) \<Rightarrow> (bytes \<Rightarrow> bytes \<Rightarrow> bytes) \<Rightarrow> 'w connection \<Rightarrow> bytes \<Rightarrow> int \<Rightarrow> str \<Rightarrow> (finding list \<times> (bytes \<times> exn) list, 'w session) prog" where
  "write_probes digest_size digest c directory request_bytes run_id =
     with_scratch
       (andthen (all_findings (write_battery digest_size digest c (claim_name directory run_id) request_bytes)) (\<lambda>findings.
        andthen (ask snd) (\<lambda>claimed.
        andthen (served (clean_up c (rev claimed) [])) (\<lambda>left_behind.
          give (findings, left_behind)))))"

definition IMPLEMENTED_EXTENSIONS :: "bytes list" where
  "IMPLEMENTED_EXTENSIONS = [POSIX_RENAME_NAME, FSYNC_NAME, LSETSTAT_NAME, ascii EXTENSION_LIMITS, CHECK_FILE_NAME]"

definition undetermined_limits :: "'w connection \<Rightarrow> bool \<Rightarrow> probe_limit list" where
  "undetermined_limits c probed_writes =
     (let unverified = filter (supports c) [POSIX_RENAME_NAME, FSYNC_NAME, LSETSTAT_NAME, CHECK_FILE_NAME] in
      (if probed_writes then []
       else [WRITE_PROBES_NOT_REQUESTED, LARGEST_REQUEST_NEEDS_A_WRITE] @ (if unverified \<noteq> [] then [EXTENSIONS_NEEDING_A_WRITE unverified] else [])) @
      [CEILING_ABOVE_THIS_SESSION, BEHAVIOUR_UNDER_LOAD] @
      (if list_ex (\<lambda>name. \<not> supports c name) IMPLEMENTED_EXTENSIONS then [UNADVERTISED_EXTENSIONS] else []))"

definition nowhere_to_probe :: "exn \<Rightarrow> compatibility_report" where
  "nowhere_to_probe failure =
     \<lparr>cr_findings = [finding_of ''the session can name its own starting directory'' UNDETERMINED ''REALPATH of '.' failed'' [Raised failure]],
      cr_undetermined = [], cr_wrote_into = None, cr_left_behind = []\<rparr>"

definition compatibility_battery ::
    "(bytes \<Rightarrow> int option) \<Rightarrow> (bytes \<Rightarrow> bytes \<Rightarrow> bytes) \<Rightarrow> (str \<Rightarrow> str) \<Rightarrow> (nat \<Rightarrow> bool) \<Rightarrow> server_limits \<Rightarrow> 'w connection \<Rightarrow>
     int \<Rightarrow> (bytes + str) option \<Rightarrow> str \<Rightarrow> (compatibility_report, 'w session) prog" where
  "compatibility_battery digest_size digest lower alnum limits c request_bytes write_directory run_id =
     andthen (catching (andthen (realpath c (BytesValue [46])) (\<lambda>start. give (Inr start)))
        (\<lambda>e. if is_expected_failure e then give (Inl (nowhere_to_probe e)) else throw e)) (\<lambda>r.
       case r of
         Inl report \<Rightarrow> give report
       | Inr start \<Rightarrow>
           andthen (read_only_probes lower alnum limits c start run_id) (\<lambda>findings.
             case write_directory of
               None \<Rightarrow> give \<lparr>cr_findings = findings, cr_undetermined = undetermined_limits c False, cr_wrote_into = None, cr_left_behind = []\<rparr>
             | Some directory \<Rightarrow>
                 andthen (case directory of Inl b \<Rightarrow> give b | Inr text \<Rightarrow> raising (encode_path (TextArg text))) (\<lambda>nominated.
                 andthen (write_probes digest_size digest c nominated request_bytes run_id) (\<lambda>(written, left_behind).
                   give \<lparr>cr_findings = findings @ written, cr_undetermined = undetermined_limits c True,
                     cr_wrote_into = Some (decode_text replacing nominated), cr_left_behind = left_behind\<rparr>))))"

end
