(* ===== verification/CompatibilityLaws.thy ===== *)
theory CompatibilityLaws
  imports Compatibility OperationsLaws "HOL-Library.Code_Target_Nat"
begin

text \<open>
  What the battery does to the server it is pointed at: nothing, as long as it only reads; and nothing
  it does not report, when it was given a directory to write in.
\<close>

section \<open>Requests that keep a relation\<close>

text \<open>
  Any reflexive and transitive relation between the states of a session that picking an identifier and
  remembering a refused extension respect; \<open>harmless\<close> are the packets whose exchange respects it too.
\<close>

definition harmless :: "'w connection \<Rightarrow> ('w session \<Rightarrow> 'w session \<Rightarrow> bool) \<Rightarrow> packet \<Rightarrow> bool" where
  "harmless c R p \<longleftrightarrow> (\<forall>s a w. co_round_trip c p (se_world s) = (a, w) \<longrightarrow> R s (s\<lparr>se_world := w\<rparr>))"

locale gentle_requests =
  fixes c :: "'w connection" and R :: "'w session \<Rightarrow> 'w session \<Rightarrow> bool"
  assumes refl: "R s s"
    and trans: "R s s1 \<Longrightarrow> R s1 s2 \<Longrightarrow> R s s2"
    and allocates: "co_next c (se_world s) = (r, w) \<Longrightarrow> R s (s\<lparr>se_world := w\<rparr>)"
    and remembers: "R s (s\<lparr>se_unsupported := known\<rparr>)"
begin

lemma give: "obeys R (give x)" by (rule obeysI) (simp add: give_def refl)

lemma throw: "obeys R (throw e)" by (rule obeysI) (simp add: throw_def refl)

lemma ask: "obeys R (ask f)" by (rule obeysI) (simp add: ask_def refl)

lemma raising: "obeys R (raising r)" by (cases r) (simp_all add: raising_def give throw)

lemma andthen:
  assumes "obeys R m" "\<And>x. obeys R (f x)" shows "obeys R (andthen m f)"
proof (rule obeysI)
  fix s r s' t assume run: "andthen m f s = (r, s', t)"
  obtain r0 s0 t0 where m: "m s = (r0, s0, t0)" using prod_cases3 by blast
  then show "R s s'" using run obeysD [OF assms(1) m]
    by (cases r0) (auto simp: andthen_def split: prod.splits dest: obeysD [OF assms(2)] intro: trans)
qed

lemma catching:
  assumes "obeys R m" "\<And>e. obeys R (h e)" shows "obeys R (catching m h)"
proof (rule obeysI)
  fix s r s' t assume run: "catching m h s = (r, s', t)"
  obtain r0 s0 t0 where m: "m s = (r0, s0, t0)" using prod_cases3 by blast
  then show "R s s'" using run obeysD [OF assms(1) m]
    by (cases r0) (auto simp: catching_def split: prod.splits dest: obeysD [OF assms(2)] intro: trans)
qed

lemma cond: "(b \<Longrightarrow> obeys R m) \<Longrightarrow> (\<not> b \<Longrightarrow> obeys R m') \<Longrightarrow> obeys R (if b then m else m')" by simp

lemma ensuring: "obeys R m \<Longrightarrow> obeys R m' \<Longrightarrow> obeys R (ensuring m m')"
  unfolding ensuring_def by (intro andthen catching give throw)

lemma next_id: "obeys R (next_id c)"
  by (rule obeysI) (auto simp: next_id_def call_def on_wire_def split: prod.splits intro: allocates)

lemma request: "harmless c R p \<Longrightarrow> obeys R (request c p)"
  by (rule obeysI) (auto simp: request_def call_def on_wire_def harmless_def split: prod.splits option.splits)

lemma asking: "(\<And>i. harmless c R (build i)) \<Longrightarrow> (\<And>reply. obeys R (answer reply)) \<Longrightarrow> obeys R (asking c build answer)"
  unfolding asking_def by (intro andthen next_id request)

lemma raising_then:
  assumes "\<And>x. r = Inr x \<Longrightarrow> obeys R (f x)" shows "obeys R (andthen (raising r) f)"
proof (cases r)
  case (Inl e)
  then have "andthen (raising r) f = throw e" by (simp add: raising_def throw_def andthen_def fun_eq_iff)
  then show ?thesis using throw by simp
next
  case (Inr x)
  then show ?thesis using assms by (simp add: raising_def)
qed

lemma expect_status:
  assumes "\<And>i p. build i = Inr p \<Longrightarrow> harmless c R p" shows "obeys R (expect_status c (\<lambda>i. raising (build i)) path)"
proof -
  have answers: "obeys R (case reply of Status i code message l raw \<Rightarrow> raising (raise_for_status code message path)
      | _ \<Rightarrow> throw (unexpected reply ''STATUS'' None))" for reply
    by (cases reply) (simp_all add: raising throw)
  have after: "obeys R (andthen (raising (build i)) (\<lambda>p. andthen (request c p) f))" if "\<And>x. obeys R (f x)" for i and f :: "packet \<Rightarrow> (unit, 'w session) prog"
    by (intro raising_then andthen request assms that)
  show ?thesis unfolding expect_status_def by (rule andthen [OF next_id after [OF answers]])
qed

lemma plain_status: "(\<And>i. harmless c R (build i)) \<Longrightarrow> obeys R (expect_status c (\<lambda>i. give (build i)) path)"
  using expect_status [of "\<lambda>i. Inr (build i)" path] by (simp add: raising_def)

lemma resolve: "obeys R (resolve p)"
  unfolding resolve_def by (intro andthen raising ask)

lemma expect_attrs: "obeys R (expect_attrs reply path)"
  unfolding expect_attrs_def by (cases reply) (simp_all add: give throw)

lemma expect_one_name: "obeys R (expect_one_name reply path)"
  unfolding expect_one_name_def by (cases reply) (auto simp: give throw split: list.splits)

lemma expect_handle: "obeys R (expect_handle reply path)"
  unfolding expect_handle_def by (cases reply) (simp_all add: give throw)

lemma stat_path: "(\<And>i q. harmless c R (Stat i q)) \<Longrightarrow> obeys R (stat_path c p)"
  unfolding stat_path_def by (intro andthen resolve asking expect_attrs) simp

lemma lstat_path: "(\<And>i q. harmless c R (LStat i q)) \<Longrightarrow> obeys R (lstat_path c p)"
  unfolding lstat_path_def by (intro andthen resolve asking expect_attrs) simp

lemma readlink: "(\<And>i q. harmless c R (ReadLink i q)) \<Longrightarrow> obeys R (readlink c p)"
  unfolding readlink_def by (intro andthen resolve asking expect_one_name) simp

lemma realpath: "(\<And>i q. harmless c R (RealPath i q)) \<Longrightarrow> obeys R (realpath c p)"
  unfolding realpath_def realpath_raw_def by (intro andthen resolve asking expect_one_name) simp

lemma exists_path: "(\<And>i q. harmless c R (Stat i q)) \<Longrightarrow> obeys R (exists_path c p True)"
  unfolding exists_path_def attrs_or_absent_def if_True by (intro andthen resolve catching stat_path give cond throw)

lemma close_handle: "(\<And>i. harmless c R (Close i h)) \<Longrightarrow> obeys R (close_handle c h)"
  unfolding close_handle_def by (rule plain_status)

lemma attempt_extension: "obeys R m \<Longrightarrow> obeys R (attempt_extension c name m)"
  unfolding attempt_extension_def
  by (intro andthen ask catching cond give throw) (auto intro: obeysI simp: remember_unsupported_def call_def remembers)

lemma set_one_attribute:
  assumes "\<And>i. harmless c R (SetStat i path a)"
    "\<And>i p. lsetstat_to \<lparr>ls_request_id = i, ls_path = path, ls_attrs = a\<rparr> = Inr p \<Longrightarrow> harmless c R p"
  shows "obeys R (set_one_attribute c path a follow n)"
  unfolding set_one_attribute_def by (intro cond plain_status andthen attempt_extension expect_status give throw assms)

lemma trying: "obeys R m \<Longrightarrow> obeys R (trying m)"
  unfolding trying_def by (intro catching andthen give cond raising throw)

lemma guarded: "obeys R m \<Longrightarrow> obeys R (guarded q m)"
  unfolding guarded_def by (intro catching cond give throw)

lemma all_findings: "(\<And>m. m \<in> set ms \<Longrightarrow> obeys R m) \<Longrightarrow> obeys R (all_findings ms)"
  by (induction ms) (auto intro!: andthen give)

lemma ask_for_refusals:
  "(\<And>what p m. (what, p, m) \<in> set xs \<Longrightarrow> obeys R m) \<Longrightarrow> obeys R (ask_for_refusals xs seen refusals)"
proof (induction xs arbitrary: seen refusals)
  case (Cons x xs)
  obtain what p m where x: "x = (what, p, m)" using prod_cases3 by blast
  have ih: "obeys R (ask_for_refusals xs seen refusals)" for seen refusals
  proof (rule Cons.IH)
    fix what p m assume "(what, p, m) \<in> set xs"
    then show "obeys R m" using Cons.prems [of what p m] by simp
  qed
  have "obeys R (case r of Inl detail \<Rightarrow> ask_for_refusals xs (seen @ [refused_line what [BytesArg p] detail]) (refusals @ [detail])
      | Inr _ \<Rightarrow> give (Inl (finding_of MESSAGES_INFORMATIVE UNDETERMINED ''accepted a request where a refusal was expected''
                    (seen @ [Saw (Msg what [BytesArg p, StrArg ''accepted''])]))))" for r
    by (cases r) (simp_all add: ih give)
  then show ?case using Cons.prems x by (auto intro!: andthen trying)
qed (simp add: give)

lemma read_only_probes:
  assumes "\<And>i q. harmless c R (Stat i q)" "\<And>i q. harmless c R (ReadLink i q)" "\<And>i q. harmless c R (RealPath i q)"
  shows "obeys R (read_only_probes lower alnum limits c directory run_id)"
proof -
  have "obeys R (case r of Inl settled \<Rightarrow> give settled
       | Inr (exchanges, refusals) \<Rightarrow> raising (f exchanges refusals))" for r :: "finding + 'b \<times> 'd" and f
    by (cases r) (auto simp: give raising split: prod.split)
  then have "obeys R (probe_message_quality lower alnum c directory run_id)"
    unfolding probe_message_quality_def
    by (intro andthen raising ask_for_refusals) (auto intro!: andthen stat_path readlink give assms)
  moreover have "obeys R (probe_realpath_of_a_missing_path c directory run_id)" "obeys R (probe_root_shape c)"
    unfolding probe_realpath_of_a_missing_path_def probe_root_shape_def by (intro andthen raising trying realpath give assms)+
  ultimately show ?thesis unfolding read_only_probes_def
    by (intro all_findings) (auto intro!: guarded give split: if_splits)
qed

end

section \<open>What a server keeps\<close>

text \<open>The paths a request may bring into being; \<open>posix-rename\<close> is the one extension that does.\<close>

fun made :: "packet \<Rightarrow> bytes set" where
  "made (Packets.Open _ path _ _ _) = {path}"
| "made (MkDir _ path _) = {path}"
| "made (Rename _ _ new_path) = {new_path}"
| "made (SymLink _ _ link) = {link}"
| "made _ = {}"

fun only_asks :: "packet \<Rightarrow> bool" where
  "only_asks (Stat _ _) = True"
| "only_asks (LStat _ _) = True"
| "only_asks (ReadLink _ _) = True"
| "only_asks (RealPath _ _) = True"
| "only_asks _ = False"

text \<open>
  What a server may do to the files it holds: a request that only asks changes nothing, any other brings
  into being at most what it names, and a file it says it removed or does not have is not there.
\<close>

definition minds_its_files :: "'w connection \<Rightarrow> ('w \<Rightarrow> bytes \<Rightarrow> bytes option) \<Rightarrow> bool" where
  "minds_its_files c content \<longleftrightarrow>
     (\<forall>w. content (snd (co_next c w)) = content w) \<and>
     (\<forall>p w. only_asks p \<longrightarrow> content (snd (co_round_trip c p w)) = content w) \<and>
     (\<forall>p w. \<not> is_extended p \<longrightarrow> dom (content (snd (co_round_trip c p w))) \<subseteq> dom (content w) \<union> made p) \<and>
     (\<forall>i name d w. name \<noteq> POSIX_RENAME_NAME \<longrightarrow> dom (content (snd (co_round_trip c (Extended i name d) w))) \<subseteq> dom (content w)) \<and>
     (\<forall>x p w. posix_rename_to x = Inr p \<longrightarrow> dom (content (snd (co_round_trip c p w))) \<subseteq> dom (content w) \<union> {pr_newpath x}) \<and>
     (\<forall>h d n w. dom (content (snd (co_write_range c h d n w))) \<subseteq> dom (content w)) \<and>
     (\<forall>i path w j code m l raw w'. co_round_trip c (Remove i path) w = (Some (Inr (Status j code m l raw)), w') \<longrightarrow>
        code \<in> {FX_OK, FX_EOF, FX_NO_SUCH_FILE} \<longrightarrow> path \<notin> dom (content w'))"

text \<open>An exchange that ends without a reply is no refusal of the server.\<close>

definition fails_plainly :: "'w connection \<Rightarrow> bool" where
  "fails_plainly c \<longleftrightarrow>
     (\<forall>p w e w'. co_round_trip c p w = (Some (Inl e), w') \<longrightarrow> \<not> is_server_error e) \<and>
     (\<forall>w e w'. co_next c w = (Inl e, w') \<longrightarrow> \<not> is_server_error e)"

definition same_files :: "('w \<Rightarrow> bytes \<Rightarrow> bytes option) \<Rightarrow> 'w session \<Rightarrow> 'w session \<Rightarrow> bool" where
  "same_files content s s' \<longleftrightarrow> content (se_world s') = content (se_world s)"

definition makes_within :: "('w \<Rightarrow> bytes \<Rightarrow> bytes option) \<Rightarrow> bytes set \<Rightarrow> 'w session \<Rightarrow> 'w session \<Rightarrow> bool" where
  "makes_within content A s s' \<longleftrightarrow> dom (content (se_world s')) \<subseteq> dom (content (se_world s)) \<union> A"

text \<open>The files of a server that minds them; of another, none are looked at.\<close>

definition minded :: "'w connection \<Rightarrow> ('w \<Rightarrow> bytes \<Rightarrow> bytes option) \<Rightarrow> 'w \<Rightarrow> bytes \<Rightarrow> bytes option" where
  "minded c content = (if minds_its_files c content then content else (\<lambda>_ _. None))"

lemma minds:
  assumes "minds_its_files c content"
  shows "co_next c w = (r, w') \<Longrightarrow> content w' = content w"
    "only_asks p \<Longrightarrow> co_round_trip c p w = (a, w') \<Longrightarrow> content w' = content w"
    "\<not> is_extended p \<Longrightarrow> co_round_trip c p w = (a, w') \<Longrightarrow> dom (content w') \<subseteq> dom (content w) \<union> made p"
    "name \<noteq> POSIX_RENAME_NAME \<Longrightarrow> co_round_trip c (Extended i name d) w = (a, w') \<Longrightarrow> dom (content w') \<subseteq> dom (content w)"
    "posix_rename_to x = Inr p \<Longrightarrow> co_round_trip c p w = (a, w') \<Longrightarrow> dom (content w') \<subseteq> dom (content w) \<union> {pr_newpath x}"
    "co_write_range c h d' n w = (v, w') \<Longrightarrow> dom (content w') \<subseteq> dom (content w)"
    "co_round_trip c (Remove i path) w = (Some (Inr (Status j code m l raw)), w') \<Longrightarrow>
       code \<in> {FX_OK, FX_EOF, FX_NO_SUCH_FILE} \<Longrightarrow> path \<notin> dom (content w')"
  using assms unfolding minds_its_files_def by (metis snd_conv)+

lemma minded: "minds_its_files c (minded c content)"
  by (simp add: minded_def) (simp add: minds_its_files_def)

lemma makes_within_trans: "makes_within content A s s1 \<Longrightarrow> makes_within content A s1 s2 \<Longrightarrow> makes_within content A s s2"
  unfolding makes_within_def by blast

interpretation asking_only: gentle_requests c "same_files (minded c content)" for c content
  by unfold_locales (auto simp: same_files_def dest: minds(1) [OF minded])

interpretation making: gentle_requests c "makes_within (minded c content) A" for c content A
  by (unfold_locales; (erule (1) makes_within_trans | simp add: makes_within_def minds(1) [OF minded]))

lemma only_asks_harmless: "only_asks p \<Longrightarrow> harmless c (same_files (minded c content)) p"
  by (auto simp: harmless_def same_files_def dest: minds(2) [OF minded])

lemma makes_harmless: "\<not> is_extended p \<Longrightarrow> made p \<subseteq> A \<Longrightarrow> harmless c (makes_within (minded c content) A) p"
  using minds(3) [OF minded] unfolding harmless_def makes_within_def by fastforce

lemma other_extension_harmless:
  assumes "extended_of i name body = Inr p" "name \<noteq> POSIX_RENAME_NAME"
  shows "harmless c (makes_within (minded c content) A) p"
  using assms minds(4) [OF minded] unfolding harmless_def makes_within_def
  by (fastforce simp: extended_of_def bind_sum_def split: sum.splits)

lemma extension_names: "FSYNC_NAME \<noteq> POSIX_RENAME_NAME" "LSETSTAT_NAME \<noteq> POSIX_RENAME_NAME" "CHECK_FILE_NAME \<noteq> POSIX_RENAME_NAME"
  by (simp_all add: FSYNC_NAME_def LSETSTAT_NAME_def CHECK_FILE_NAME_def POSIX_RENAME_NAME_def ascii_def
      EXTENSION_FSYNC_def EXTENSION_LSETSTAT_def EXTENSION_CHECK_FILE_def EXTENSION_POSIX_RENAME_def)

lemma extension_harmless:
  "fsync_to x = Inr p \<Longrightarrow> harmless c (makes_within (minded c content) A) p"
  "lsetstat_to y = Inr p \<Longrightarrow> harmless c (makes_within (minded c content) A) p"
  "check_file_to z = Inr p \<Longrightarrow> harmless c (makes_within (minded c content) A) p"
  "posix_rename_to v = Inr p \<Longrightarrow> pr_newpath v \<in> A \<Longrightarrow> harmless c (makes_within (minded c content) A) p"
  unfolding fsync_to_def lsetstat_to_def check_file_to_def
  using minds(5) [OF minded]
  by (auto intro: other_extension_harmless simp: extension_names) (fastforce simp: harmless_def makes_within_def)

section \<open>Operations that make what they name\<close>

lemma resolve_absolute: "prefix [47] p \<Longrightarrow> resolve (BytesValue p) = give p"
  by (rule ext) (auto simp: resolve_def encode_path_def raising_def andthen_def give_def ask_def split: option.split)

lemma making_open:
  assumes "prefix [47] p" "p \<in> A" shows "obeys (makes_within (minded c content) A) (open_path c (BytesValue p) f m)"
  unfolding open_path_def resolve_absolute [OF assms(1)] andthen_give
  by (intro making.asking making.expect_handle makes_harmless) (use assms(2) in simp_all)

lemma making_close: "obeys (makes_within (minded c content) A) (close_handle c h)"
  by (intro making.close_handle makes_harmless) simp_all

lemma making_write: "obeys (makes_within (minded c content) A) (write_at c h n d)"
  unfolding write_at_def
  by (intro making.cond making.throw making.give, rule obeysI)
    (use minds(6) [OF minded] in \<open>fastforce simp: call_def on_wire_def makes_within_def split: prod.splits\<close>)

lemma making_create:
  assumes "prefix [47] p" "p \<in> A" shows "obeys (makes_within (minded c content) A) (create_file c p d)"
  unfolding create_file_def
  by (intro making.andthen making.ensuring making.cond making.give making_open making_write making_close assms)

lemma making_rename:
  assumes "prefix [47] p" "prefix [47] q" "q \<in> A"
  shows "obeys (makes_within (minded c content) A) (rename_paths c (BytesValue p) (BytesValue q))"
  unfolding rename_paths_def resolve_absolute [OF assms(1)] resolve_absolute [OF assms(2)] andthen_give
  by (intro making.plain_status makes_harmless) (use assms(3) in simp_all)

lemma making_posix_rename:
  assumes "prefix [47] p" "prefix [47] q" "q \<in> A"
  shows "obeys (makes_within (minded c content) A) (posix_rename_if_supported c (BytesValue p) (BytesValue q))"
  unfolding posix_rename_if_supported_def posix_rename_paths_def resolve_absolute [OF assms(1)] resolve_absolute [OF assms(2)] andthen_give
  by (intro making.catching making.cond making.give making.throw making.attempt_extension making.expect_status)
    (erule extension_harmless(4), use assms(3) in simp)

lemma making_symlink:
  assumes "prefix [47] p" "p \<in> A" shows "obeys (makes_within (minded c content) A) (symlink c (BytesValue t) (BytesValue p))"
  unfolding symlink_def resolve_absolute [OF assms(1)] andthen_give encode_path_def
  by (simp add: raising_def) (intro making.plain_status makes_harmless, use assms(2) in simp_all)

lemma making_attribute: "obeys (makes_within (minded c content) A) (set_one_attribute c path a follow n)"
  by (intro making.set_one_attribute makes_harmless extension_harmless) auto

lemma making_chmod: "obeys (makes_within (minded c content) A) (chmod c p m follow)"
  unfolding chmod_def by (intro making.andthen making.resolve making_attribute)

lemma making_utime: "obeys (makes_within (minded c content) A) (utime c p u v follow)"
  unfolding utime_def by (intro making.andthen making.resolve making_attribute)

lemma making_fsync: "obeys (makes_within (minded c content) A) (fsync_if_supported c h)"
  unfolding fsync_if_supported_def fsync_handle_def
  by (intro making.catching making.cond making.give making.throw making.attempt_extension making.expect_status) (erule extension_harmless)

lemma making_asks:
  "obeys (makes_within (minded c content) A) (stat_path c p)" "obeys (makes_within (minded c content) A) (lstat_path c p)"
  "obeys (makes_within (minded c content) A) (exists_path c p True)"
  by (intro making.stat_path making.lstat_path making.exists_path makes_harmless; simp)+

lemma making_remove: "obeys (makes_within (minded c content) A) (remove_path c p)"
  unfolding remove_path_def by (intro making.andthen making.resolve making.plain_status makes_harmless) simp_all

lemma making_check_file: "obeys (makes_within (minded c content) A) (check_file_digests ds c h al st l bs)"
proof -
  let ?R = "makes_within (minded c content) A"
  have "obeys ?R (remember_unsupported name)" for name
    by (rule obeysI) (auto simp: remember_unsupported_def call_def making.remembers)
  then have noting: "obeys ?R (case reply of
        Status _ code _ _ _ \<Rightarrow>
          (if code = FX_OP_UNSUPPORTED \<and> \<not> supports c CHECK_FILE_NAME then remember_unsupported CHECK_FILE_NAME else give ())
      | _ \<Rightarrow> give ())" for reply
    by (cases reply) (simp_all add: making.give)
  have answer: "obeys ?R (case reply of
      ExtendedReply j payload \<Rightarrow>
        andthen (raising (check_file_reply_from j payload)) (\<lambda>parsed.
          case ds (cr_algorithm parsed) of
            None \<Rightarrow> throw (f parsed j)
          | Some n \<Rightarrow>
              (case split_digests (cr_digests parsed) n (cr_algorithm parsed) of
                 Inl x \<Rightarrow> throw (g j payload)
               | Inr digests \<Rightarrow> give (k parsed digests)))
    | _ \<Rightarrow> throw (unexpected reply ''EXTENDED_REPLY'' None))" for reply f g k
    by (cases reply) (auto intro!: making.andthen making.raising simp: making.throw making.give split: option.split sum.split)
  show ?thesis unfolding check_file_digests_def
    by (intro making.andthen [OF making.ask] making.cond making.throw making.andthen [OF making.next_id] making.raising_then
        making.andthen [OF making.request] making.andthen [OF noting] answer extension_harmless)
qed

section \<open>A battery\<close>

text \<open>What there is, was there before or has been claimed; the paths of \<open>A\<close> have been.\<close>

definition claimed_all :: "('w \<Rightarrow> bytes \<Rightarrow> bytes option) \<Rightarrow> bytes set \<Rightarrow> bytes set \<Rightarrow> 'w session \<times> bytes list \<Rightarrow> bool" where
  "claimed_all content B A sc \<longleftrightarrow>
     dom (content (se_world (fst sc))) \<subseteq> B \<union> set (snd sc) \<and> A \<subseteq> set (snd sc) \<and> (\<forall>p \<in> set (snd sc). prefix [47] p)"

abbreviation "battles c content B A m Q \<equiv>
  runs (\<lambda>_. True) (claimed_all (minded c content) B A) m (\<lambda>x. claimed_all (minded c content) B (Q x)) (\<lambda>_. claimed_all (minded c content) B {})"

lemma claimed_less: "claimed_all content B A sc \<Longrightarrow> A' \<subseteq> A \<Longrightarrow> claimed_all content B A' sc"
  by (auto simp: claimed_all_def)

lemma battles_served:
  assumes "\<forall>p \<in> A. prefix [47] p \<Longrightarrow> obeys (makes_within (minded c content) A) m"
  shows "battles c content B A (served m) (\<lambda>_. A)"
proof (rule runsI)
  fix sc r sc' t assume P: "claimed_all (minded c content) B A sc" and run: "served m sc = (r, sc', t)"
  obtain s' t' where m: "m (fst sc) = (r, s', t')" and sc': "sc' = (s', snd sc)" and t: "t = map (\<lambda>s. (s, snd sc)) t'"
    using run by (auto simp: served_def split: prod.splits)
  have "makes_within (minded c content) A (fst sc) s'" by (rule obeysD [OF assms m]) (use P in \<open>auto simp: claimed_all_def\<close>)
  then have "claimed_all (minded c content) B A sc'" using P by (fastforce simp: makes_within_def claimed_all_def sc')
  then show "list_all (\<lambda>_. True) t \<and> (case r of Inl e \<Rightarrow> claimed_all (minded c content) B {} sc' | Inr x \<Rightarrow> claimed_all (minded c content) B A sc')"
    by (auto simp: list_all_iff split: sum.split intro: claimed_less)
qed

lemma battles_last:
  "(\<forall>p \<in> A. prefix [47] p \<Longrightarrow> obeys (makes_within (minded c content) A) m) \<Longrightarrow> battles c content B A (served m) (\<lambda>_. {})"
  by (rule runs_weaken [OF battles_served [where A = A]]) (auto intro: claimed_less)

lemma battles_give: "Q x \<subseteq> A \<Longrightarrow> battles c content B A (give x) Q"
  by (rule runs_give) (erule claimed_less)

lemma battles_throw: "battles c content B A (throw e) Q"
  by (rule runs_throw) (erule claimed_less, simp)

lemma battles_raising: "(\<And>x. Q x \<subseteq> A) \<Longrightarrow> battles c content B A (raising r) Q"
  by (cases r) (simp_all add: raising_def battles_throw battles_give)

lemma battles_andthen:
  "battles c content B A m Q' \<Longrightarrow> (\<And>x. battles c content B (Q' x) (f x) Q) \<Longrightarrow> battles c content B A (andthen m f) Q"
  by (rule runs_andthen)

lemma battles_catching:
  "battles c content B A m Q \<Longrightarrow> (\<And>e. battles c content B {} (h e) Q) \<Longrightarrow> battles c content B A (catching m h) Q"
  by (rule runs_catching)

lemma battles_ensuring:
  "battles c content B A m (\<lambda>_. {}) \<Longrightarrow> battles c content B {} m' (\<lambda>_. {}) \<Longrightarrow> battles c content B A (ensuring m m') (\<lambda>_. {})"
  by (rule runs_ensuring)

lemma battles_if:
  "(b \<Longrightarrow> battles c content B A m Q) \<Longrightarrow> (\<not> b \<Longrightarrow> battles c content B A m' Q) \<Longrightarrow> battles c content B A (if b then m else m') Q"
  by simp

lemma battles_trying: "battles c content B A m (\<lambda>_. {}) \<Longrightarrow> battles c content B A (trying m) (\<lambda>_. {})"
  unfolding trying_def
  by (intro battles_catching battles_andthen battles_if battles_raising battles_give battles_throw) (auto intro: battles_give)

lemma battles_guarded: "battles c content B A m (\<lambda>_. {}) \<Longrightarrow> battles c content B A (guarded q m) (\<lambda>_. {})"
  unfolding guarded_def by (intro battles_catching battles_if battles_give battles_throw) auto

lemma battles_all: "(\<And>m. m \<in> set ms \<Longrightarrow> battles c content B {} m (\<lambda>_. {})) \<Longrightarrow> battles c content B {} (all_findings ms) (\<lambda>_. {})"
proof (induction ms)
  case (Cons m ms)
  show ?case unfolding all_findings.simps
    by (rule battles_andthen [OF Cons.prems battles_andthen [OF Cons.IH battles_give]]) (use Cons.prems in auto)
qed (simp add: battles_give)

lemma battles_claim:
  assumes "prefix [47] directory"
  shows "battles c content B A (claim_name directory run_id ending) (\<lambda>p. insert p A)"
proof (cases "join_probe directory (probe_name run_id ending)")
  case (Inl e)
  then show ?thesis unfolding claim_name_def raising_def
    by (simp add: andthen_def throw_def runs_def claimed_all_def)
next
  case (Inr p)
  then obtain rest where p: "p = rstrip_slash directory @ 47 # rest" by (auto simp: join_probe_def split: if_splits)
  have "prefix [47] p"
  proof (cases "rstrip_slash directory")
    case (Cons x xs)
    have "prefix (rstrip_slash directory) directory"
      unfolding rstrip_slash_def by (metis rev_rev_ident suffix_dropWhile suffix_to_prefix)
    then show ?thesis using assms Cons p by (cases directory) auto
  qed (simp add: p)
  then show ?thesis unfolding claim_name_def Inr raising_def sum.case andthen_give
    by (intro runs_call) (clarsimp simp: claimed_all_def, blast)
qed

lemma battles_checked: "battles c content B A (raising r) (\<lambda>_. {})"
  by (rule battles_raising) simp

lemma battles_finding: "battles c content B A (give x) (\<lambda>_. {})"
  by (rule battles_give) simp

lemmas battles_rules = battles_andthen battles_catching battles_ensuring battles_trying battles_checked battles_throw battles_if battles_claim
  battles_finding battles_served battles_last making_create making_open making_close making_write making_rename making_posix_rename making_symlink
  making_chmod making_utime making_fsync making_asks making_check_file

lemma battles_case_folding: "prefix [47] directory \<Longrightarrow> battles c content B {} (probe_case_folding c (claim_name directory run_id)) (\<lambda>_. {})"
  unfolding probe_case_folding_def Let_def by (rule battles_rules | simp; fail)+

lemma battles_rename: "prefix [47] directory \<Longrightarrow> battles c content B {} (probe_rename_replaces c (claim_name directory run_id)) (\<lambda>_. {})"
  unfolding probe_rename_replaces_def Let_def by (rule battles_rules | simp; fail)+

lemma battles_timestamps: "prefix [47] directory \<Longrightarrow> battles c content B {} (probe_timestamps c (claim_name directory run_id)) (\<lambda>_. {})"
  unfolding probe_timestamps_def Let_def by (rule battles_rules | simp; fail)+

lemma battles_fsync: "prefix [47] directory \<Longrightarrow> battles c content B {} (probe_fsync c (claim_name directory run_id)) (\<lambda>_. {})"
  unfolding probe_fsync_def Let_def by (rule battles_rules | simp; fail)+

lemma battles_largest: "prefix [47] directory \<Longrightarrow> battles c content B {} (probe_largest_request c (claim_name directory run_id) n) (\<lambda>_. {})"
  unfolding probe_largest_request_def Let_def by (rule battles_rules | simp; fail)+

lemma battles_sum:
  "(\<And>d. battles c content B A (f d) Q) \<Longrightarrow> (\<And>x. battles c content B A (g x) Q) \<Longrightarrow>
   battles c content B A (case r of Inl d \<Rightarrow> f d | Inr x \<Rightarrow> g x) Q"
  by (cases r) simp_all

lemma battles_option:
  "battles c content B A f Q \<Longrightarrow> (\<And>x. battles c content B A (g x) Q) \<Longrightarrow> battles c content B A (case r of None \<Rightarrow> f | Some x \<Rightarrow> g x) Q"
  by (cases r) simp_all

lemma battles_posix_rename: "prefix [47] directory \<Longrightarrow> battles c content B {} (probe_posix_rename c (claim_name directory run_id)) (\<lambda>_. {})"
  unfolding probe_posix_rename_def Let_def by (rule battles_rules battles_sum | simp; fail)+

lemma battles_judge: "battles c content B A (judge_lsetstat c target link seen) (\<lambda>_. {})"
  unfolding judge_lsetstat_def Let_def by (rule battles_rules | simp; fail)+

lemma battles_lsetstat: "prefix [47] directory \<Longrightarrow> battles c content B {} (probe_lsetstat c (claim_name directory run_id)) (\<lambda>_. {})"
proof -
  assume rooted: "prefix [47] directory"
  have "battles c content B {} (case e of
               CapabilityErr x \<Rightarrow> give (f x)
             | ServerErr u v w y \<Rightarrow> andthen (raising (refusal e)) (\<lambda>detail. give (g detail))
             | _ \<Rightarrow> throw e) (\<lambda>_. {})" for e f g
    by (cases e) (simp_all add: battles_throw battles_finding battles_andthen [OF battles_checked battles_finding])
  then show ?thesis using rooted unfolding probe_lsetstat_def Let_def
    by - (rule battles_rules battles_option battles_judge | assumption | simp; fail)+
qed

lemma battles_check_file: "prefix [47] directory \<Longrightarrow> battles c content B {} (probe_check_file ds digest c (claim_name directory run_id)) (\<lambda>_. {})"
  unfolding probe_check_file_def Let_def case_prod_beta by (rule battles_rules | simp; fail)+

section \<open>Cleaning up\<close>

lemma no_such_file_is_server_error: "is_no_such_file e \<Longrightarrow> is_server_error e"
  by (induction e rule: is_no_such_file.induct) simp_all

lemma removed_is_gone:
  assumes server: "minds_its_files c content" "fails_plainly c" and p: "prefix [47] p"
    and run: "remove_path c (BytesValue p) s = (r, s', t)" and r: "r = Inr () \<or> (\<exists>e. r = Inl e \<and> is_no_such_file e)"
  shows "p \<notin> dom (content (se_world s'))"
proof -
  obtain n w1 where n: "co_next c (se_world s) = (n, w1)" by fastforce
  have plain: "\<not> is_no_such_file e" if "\<not> is_server_error e" for e using that no_such_file_is_server_error by blast
  note unfolded = run [unfolded remove_path_def resolve_absolute [OF p] andthen_give expect_status_def next_id_def request_def]
  show ?thesis
  proof (cases n)
    case (Inl e)
    then have "r = Inl e" using unfolded n by (simp add: andthen_def call_def on_wire_def)
    moreover have "\<not> is_server_error e" using server(2) n Inl unfolding fails_plainly_def by blast
    ultimately show ?thesis using r plain by auto
  next
    case (Inr i)
    obtain a w2 where a: "co_round_trip c (Remove i p) w1 = (a, w2)" by fastforce
    have s': "se_world s' = w2" and outcome: "r = (case a of None \<Rightarrow> Inl request_timed_out | Some (Inl e) \<Rightarrow> Inl e
        | Some (Inr reply) \<Rightarrow> (case reply of Status _ code m _ _ \<Rightarrow> raise_for_status code m (Some p) | _ \<Rightarrow> Inl (unexpected reply ''STATUS'' None)))"
      using unfolded n Inr a
      by (auto simp: andthen_def call_def on_wire_def raising_def throw_def give_def split: option.splits sum.splits packet.splits)
    have "\<not> is_no_such_file e" if "a = Some (Inl e)" for e
      using plain server(2) a that unfolding fails_plainly_def by blast
    then obtain reply where reply: "a = Some (Inr reply)"
      using r outcome by (cases a) (auto simp: request_timed_out_def split: sum.splits)
    obtain j code m l raw where status: "reply = Status j code m l raw"
      using r outcome reply by (cases reply) (auto simp: unexpected_def protocol_error_def)
    have "code \<in> {FX_OK, FX_EOF, FX_NO_SUCH_FILE}"
      using r outcome reply status by (cases code) (auto simp: raise_for_status_def status_class_def)
    then show ?thesis using minds(7) [OF server(1)] a reply status s' by blast
  qed
qed

lemma remove_keeps:
  assumes "minds_its_files c content" "remove_path c p s = (r, s', t)"
  shows "dom (content (se_world s')) \<subseteq> dom (content (se_world s))"
  using obeysD [OF making_remove [where A = "{}" and content = content] assms(2)] assms(1)
  by (simp add: makes_within_def minded_def)

lemma clean_up_reports:
  assumes server: "minds_its_files c content" "fails_plainly c"
  shows "clean_up c paths found s = (Inr left_behind, s', t) \<Longrightarrow> \<forall>p \<in> set paths. prefix [47] p \<Longrightarrow>
    dom (content (se_world s)) \<subseteq> B \<union> set paths \<union> fst ` set found \<Longrightarrow>
    dom (content (se_world s')) \<subseteq> B \<union> fst ` set left_behind"
proof (induction paths arbitrary: found s t)
  case (Cons p paths)
  obtain r s1 t1 where r: "remove_path c (BytesValue p) s = (r, s1, t1)" using prod_cases3 by blast
  have less: "dom (content (se_world s1)) \<subseteq> dom (content (se_world s))" by (rule remove_keeps [OF server(1) r])
  define found' where "found' = (case r of Inr _ \<Rightarrow> found | Inl e \<Rightarrow> if is_no_such_file e then found else found @ [(p, e)])"
  obtain t2 where rest: "clean_up c paths found' s1 = (Inr left_behind, s', t2)"
    using Cons.prems(1) r
    by (auto simp: found'_def andthen_def catching_def give_def throw_def split: sum.splits prod.splits if_splits)
  have "dom (content (se_world s1)) \<subseteq> B \<union> set paths \<union> fst ` set found'"
  proof (cases "r = Inr () \<or> (\<exists>e. r = Inl e \<and> is_no_such_file e)")
    case True
    then have "p \<notin> dom (content (se_world s1))" using removed_is_gone [OF server _ r] Cons.prems(2) by simp
    moreover have "found' = found" using True by (auto simp: found'_def)
    ultimately show ?thesis using less Cons.prems(3) by auto
  next
    case False
    then have "fst ` set found' = insert p (fst ` set found)" by (cases r) (auto simp: found'_def)
    then show ?thesis using less Cons.prems(3) by auto
  qed
  then show ?case using Cons.IH [OF rest] Cons.prems(2) by simp
qed (auto simp: give_def)

lemma battles_battery:
  assumes "prefix [47] directory"
  shows "battles c content B {} (all_findings (write_battery digest_size digest c (claim_name directory run_id) n)) (\<lambda>_. {})"
  using assms unfolding write_battery_def
  by (intro battles_all)
    (auto simp: extension_probes_def intro: battles_guarded battles_case_folding battles_rename battles_timestamps battles_posix_rename
       battles_fsync battles_lsetstat battles_check_file battles_largest split: if_splits)

lemma write_probes_report:
  assumes server: "minds_its_files c content" "fails_plainly c" and rooted: "prefix [47] directory"
    and ran: "write_probes digest_size digest c directory n run_id s = (Inr (findings, left_behind), s', t)"
  shows "dom (content (se_world s')) \<subseteq> dom (content (se_world s)) \<union> fst ` set left_behind"
proof -
  let ?B = "dom (content (se_world s))"
  have same: "minded c content = content" using server(1) by (simp add: minded_def)
  obtain r sc1 t1 where run: "all_findings (write_battery digest_size digest c (claim_name directory run_id) n) (s, []) = (r, sc1, t1)"
    using prod_cases3 by blast
  obtain s1 claimed where sc1: "sc1 = (s1, claimed)" by fastforce
  have start: "claimed_all (minded c content) ?B {} (s, [])" by (simp add: claimed_all_def same)
  from runsD(2) [OF battles_battery [OF rooted] start run]
  have made: "dom (content (se_world s1)) \<subseteq> ?B \<union> set claimed" "\<forall>p \<in> set claimed. prefix [47] p"
    by (auto simp: claimed_all_def same sc1 split: sum.splits)
  obtain t2 where "clean_up c (rev claimed) [] s1 = (Inr left_behind, s', t2)"
    using ran run sc1
    by (auto simp: write_probes_def with_scratch_def Let_def andthen_def ask_def served_def give_def split: prod.splits sum.splits)
  from clean_up_reports [OF server this, of ?B] made show ?thesis by simp
qed

section \<open>The report\<close>

definition nominated :: "(bytes + str) option \<Rightarrow> bytes option" where
  "nominated write_directory =
     (case write_directory of None \<Rightarrow> None | Some (Inl b) \<Rightarrow> Some b | Some (Inr text) \<Rightarrow> encode_text text)"

lemma reading_keeps:
  assumes "minds_its_files c content" "obeys (same_files (minded c content)) m" "m s = (r, s', t)"
  shows "content (se_world s') = content (se_world s)"
  using obeysD [OF assms(2,3)] assms(1) by (simp add: same_files_def minded_def)

lemma reading_probes: "obeys (same_files (minded c content)) (read_only_probes lower alnum limits c directory run_id)"
  by (intro asking_only.read_only_probes only_asks_harmless) simp_all

lemma reading_start:
  "obeys (same_files (minded c content)) (catching (andthen (realpath c p) (\<lambda>start. give (Inr start)))
     (\<lambda>e. if is_expected_failure e then give (Inl (nowhere_to_probe e)) else throw e))"
  by (intro asking_only.catching asking_only.andthen asking_only.realpath asking_only.give asking_only.cond asking_only.throw only_asks_harmless) simp

text \<open>
  The battery is safe to point at a server. On any server that changes no file when it is only
  asked, and makes no file other than the one a request names: without a directory to write in, the
  report leaves every file as it was; with one, whatever the server answers to the probes, every file
  that is there afterwards was there before, or is reported as left behind.
\<close>

theorem battery_leaves_nothing_behind:
  assumes server: "minds_its_files c content" "fails_plainly c"
    and rooted: "\<forall>directory. nominated write_directory = Some directory \<longrightarrow> prefix [47] directory"
    and ran: "compatibility_battery digest_size digest lower alnum limits c request_bytes write_directory run_id s = (Inr report, s', t)"
  shows "dom (content (se_world s')) \<subseteq> dom (content (se_world s)) \<union> fst ` set (cr_left_behind report) \<and>
    (write_directory = None \<longrightarrow> content (se_world s') = content (se_world s) \<and> cr_left_behind report = [])"
proof -
  let ?start = "catching (andthen (realpath c (BytesValue [46])) (\<lambda>start. give (Inr start)))
     (\<lambda>e. if is_expected_failure e then give (Inl (nowhere_to_probe e)) else throw e)"
  obtain r0 s0 t0 where r0: "?start s = (r0, s0, t0)" using prod_cases3 by blast
  have s0: "content (se_world s0) = content (se_world s)" by (rule reading_keeps [OF server(1) reading_start r0])
  consider report' where "r0 = Inr (Inl report')" | start where "r0 = Inr (Inr start)"
    using ran r0 unfolding compatibility_battery_def by (cases r0) (auto simp: andthen_def [of ?start] split: sum.splits)
  then show ?thesis
  proof cases
    case 1
    then have "s' = s0" "\<exists>e. report = nowhere_to_probe e"
      using ran r0 unfolding compatibility_battery_def
      by (auto simp: andthen_def give_def catching_def throw_def split: prod.splits sum.splits if_splits)
    then show ?thesis using s0 by (auto simp: nowhere_to_probe_def)
  next
    case (2 start)
    obtain r1 s1 t1 where r1: "read_only_probes lower alnum limits c start run_id s0 = (r1, s1, t1)" using prod_cases3 by blast
    have s1: "content (se_world s1) = content (se_world s)" using reading_keeps [OF server(1) reading_probes r1] s0 by simp
    obtain findings where r1': "r1 = Inr findings"
      using ran r0 2 r1 unfolding compatibility_battery_def
      by (cases r1) (auto simp: andthen_def [of ?start] andthen_def [of "read_only_probes _ _ _ _ _ _"] split: prod.splits)
    show ?thesis
    proof (cases write_directory)
      case None
      then have "s' = s1" "cr_left_behind report = []"
        using ran r0 2 r1 r1' unfolding compatibility_battery_def
        by (auto simp: andthen_def [of ?start] andthen_def [of "read_only_probes _ _ _ _ _ _"] give_def split: prod.splits)
      then show ?thesis using s1 by simp
    next
      case (Some directory)
      obtain b t2 where b: "nominated write_directory = Some b"
        and rest: "andthen (write_probes digest_size digest c b request_bytes run_id) (\<lambda>(written, left_behind).
            give \<lparr>cr_findings = findings @ written, cr_undetermined = undetermined_limits c True,
              cr_wrote_into = Some (decode_text replacing b), cr_left_behind = left_behind\<rparr>) s1 = (Inr report, s', t2)"
        using ran r0 2 r1 r1' Some unfolding compatibility_battery_def
        by (auto simp: andthen_def [of ?start] andthen_def [of "read_only_probes _ _ _ _ _ _"] andthen_def [of "case_sum _ _ _"]
            nominated_def encode_path_def raising_def give_def throw_def split: prod.splits sum.splits option.splits)
      then obtain written t3 where w: "write_probes digest_size digest c b request_bytes run_id s1 = (Inr (written, cr_left_behind report), s', t3)"
        by (auto simp: andthen_def give_def split: prod.splits sum.splits)
      show ?thesis using write_probes_report [OF server _ w] rooted b s1 Some by simp
    qed
  qed
qed

text \<open>A server that holds empty files and knows five requests.\<close>

fun shelf_answers :: "packet \<Rightarrow> bytes list \<Rightarrow> packet \<times> bytes list" where
  "shelf_answers (Packets.Open i path _ _ _) held =
     (if path \<in> set held then (Status i FX_FAILURE [] [] None, held) else (Handle i [1], path # held))"
| "shelf_answers (Remove i path) held =
     (if path \<in> set held then (Status i FX_OK [] [] None, removeAll path held) else (Status i FX_NO_SUCH_FILE [] [] None, held))"
| "shelf_answers (Close i _) held = (Status i FX_OK [] [] None, held)"
| "shelf_answers (RealPath i _) held = (Name i [\<lparr>ne_filename = [47], ne_longname = [], ne_attrs = EMPTY_ATTRS\<rparr>], held)"
| "shelf_answers p held = (Status 0 FX_OP_UNSUPPORTED [] [] None, held)"

definition shelf :: "bytes list connection" where
  "shelf = \<lparr>co_next = (\<lambda>held. (Inr 7, held)),
     co_round_trip = (\<lambda>p held. case shelf_answers p held of (reply, held') \<Rightarrow> (Some (Inr reply), held')),
     co_extensions = [], co_read_range = (\<lambda>_ _ _ held. (Inr [], held)), co_write_range = (\<lambda>_ d _ held. (Inr (int (length d)), held))\<rparr>"

definition on_shelf :: "bytes list \<Rightarrow> bytes \<Rightarrow> bytes option" where
  "on_shelf held path = (if path \<in> set held then Some [] else None)"

definition shelf_run :: "bytes list \<Rightarrow> (exn + compatibility_report) \<times> bytes list session \<times> bytes list session list" where
  "shelf_run held = compatibility_battery (\<lambda>_. None) (\<lambda>_ _. []) id (\<lambda>_. True) unknown_limits shelf 3 (Some (Inl (ascii ''/in''))) [120]
     (new_session held)"

lemma shelf_runs: "case shelf_run [ascii ''/in/gantry-probe-x-times''] of (Inr report, s', _) \<Rightarrow> se_world s' = [] \<and> cr_left_behind report = [] | _ \<Rightarrow> False"
  by code_simp

lemma shelf_minds: "minds_its_files shelf on_shelf" "fails_plainly shelf"
proof -
  have asks: "snd (shelf_answers p held) = held" if "only_asks p" for p held
    using that by (induction p held rule: shelf_answers.induct) auto
  have makes: "set (snd (shelf_answers p held)) \<subseteq> set held \<union> made p" for p held
    by (induction p held rule: shelf_answers.induct) auto
  have gone: "path \<notin> set held'" if "shelf_answers (Remove i path) held = (Status j code m l raw, held')" "code \<noteq> FX_FAILURE" for i path held j code m l raw held'
    using that by (auto split: if_splits)
  have dom: "dom (on_shelf held) = set held" for held by (auto simp: on_shelf_def dom_def)
  have "set (snd (shelf_answers (Extended i name d) held)) \<subseteq> set held" for i name d held by simp
  moreover have "set (snd (shelf_answers p held)) \<subseteq> set held" if "posix_rename_to x = Inr p" for x p held
    using that by (auto simp: posix_rename_to_def extended_of_def bind_sum_def split: sum.splits)
  moreover have answers: "snd (co_round_trip shelf p held) = snd (shelf_answers p held)" for p held
    by (simp add: shelf_def split: prod.split)
  moreover have "snd (co_next shelf held) = held" "snd (co_write_range shelf h d n held) = held" for h d n held by (simp_all add: shelf_def)
  moreover have "path \<notin> set held'" if "co_round_trip shelf (Remove i path) held = (Some (Inr (Status j code m l raw)), held')"
    "code \<in> {FX_OK, FX_EOF, FX_NO_SUCH_FILE}" for i path held j code m l raw held'
    using that gone [of i path held j code m l raw held'] by (auto simp: shelf_def split: prod.splits)
  ultimately show "minds_its_files shelf on_shelf"
    using asks makes unfolding minds_its_files_def dom answers
    by (intro conjI allI impI) (simp_all add: on_shelf_def [abs_def], blast)
  show "fails_plainly shelf" by (auto simp: fails_plainly_def shelf_def split: prod.splits)
qed

text \<open>
  The battery runs on it, and cleans up more than it made: a file that had the name of a probe before is
  not overwritten, but removed.
\<close>

lemma battery_leaves_nothing_behind_witness:
  "\<exists>report s' t. shelf_run [ascii ''/in/gantry-probe-x-times''] = (Inr report, s', t) \<and>
     dom (on_shelf (se_world s')) \<subseteq> {ascii ''/in/gantry-probe-x-times''} \<union> fst ` set (cr_left_behind report) \<and>
     se_world s' = [] \<and> cr_left_behind report = []"
proof -
  obtain report s' t where run: "shelf_run [ascii ''/in/gantry-probe-x-times''] = (Inr report, s', t)"
    "se_world s' = []" "cr_left_behind report = []"
    using shelf_runs by (auto split: prod.splits sum.splits)
  have "prefix [47] (ascii ''/in'')" by (simp add: ascii_def)
  then have "\<forall>directory. nominated (Some (Inl (ascii ''/in''))) = Some directory \<longrightarrow> prefix [47] directory" by (simp add: nominated_def)
  from battery_leaves_nothing_behind [OF shelf_minds this run(1) [unfolded shelf_run_def]] run
  show ?thesis by (auto simp: new_session_def on_shelf_def dom_def)
qed

end
