(* ===== verification/Spec2Isabelle.thy ===== *)
theory Spec2Isabelle
  imports FrameViews Codec Extensions SizeLimits DownloadProps UploadProps DispatchProps RemotePathLaws Retry PublishProps JournalProps OperationsLaws MirrorProps RemoteFileLaws PlanLaws DestinationLaws CompatibilityLaws
begin

text \<open>
  Gantry SFTP is an SFTP version 3 client that runs OpenSSH's \<open>ssh\<close> and speaks the protocol over its
  pipes. This development models the library under \<open>src/gantry_sftp\<close> and shows what makes it correct.

  \<^bold>\<open>The parts and how they interact.\<close> The codec turns bytes into packets and back and keeps the state of
  one connection without doing input or output. The dispatcher feeds it what the transport reads and
  routes each reply to the exchange of the operation that asked. A session sends requests through
  exchanges; its operations are one request and one reply each, and everything above them - scanning,
  walking, transfers, remote files, mirrors - is built from operations and from what the local file
  system answers. The transport starts \<open>ssh\<close>.

  \<^bold>\<open>Theories and code.\<close> Names are those of the source, without leading underscores; a class is a
  \<^theory_text>\<open>record\<close>, an enumeration or union a \<^theory_text>\<open>datatype\<close>, an exception a value of \<open>exn\<close>, and a function that may
  raise returns \<open>exn + 'a\<close>, its result or the exception. A function that changes an object returns it
  changed, also where it raises. Python's integers are \<open>int\<close> or, where the code has checked the sign,
  \<open>nat\<close>; byte strings are lists of 8-bit words, \<open>str\<close> is the list of its code points, a \<open>dict\<close> is the
  list of its items in insertion order.

  \<^item> \<open>Prelude\<close>, \<open>ByteText\<close>, \<open>PyText\<close>, \<open>Json\<close>: big-endian integers, dictionaries, \<open>bytes\<close> and \<open>str\<close> with
    UTF-8 written out, \<open>json.loads\<close> and \<open>json.dumps\<close>. \<open>Errors\<close>: \<open>exceptions.py\<close>.
  \<^item> \<open>Constants\<close>, \<open>Wire\<close>, \<open>FieldCodec\<close>, \<open>Attrs\<close>, \<open>Packets\<close>, \<open>PacketLaws\<close>, \<open>Extensions\<close>, \<open>Framing\<close>, \<open>FrameViews\<close>,
    \<open>Codec\<close>: the directory \<open>codec/\<close>, one theory per file. The contract of a field is the locale
    \<open>field_codec\<close>, interpreted by every field the packets are made of. \<open>FrameViews\<close> models the frames as
    views into shared buffers, which are resized only while nothing refers to them.
  \<^item> \<open>Dispatch\<close>, \<open>DispatchLaws\<close>, \<open>DispatchProps\<close>: \<open>session/_dispatch.py\<close> as a step relation over
    interleaved tasks, with an invariant between the codec's table, the routes and the exchanges.
  \<^item> \<open>SizeLimits\<close>, \<open>Ranges\<close>, \<open>Download\<close>, \<open>DownloadLaws\<close>, \<open>DownloadProps\<close>, \<open>Upload\<close>, \<open>UploadLaws\<close>,
    \<open>UploadProps\<close>: \<open>session/_limits.py\<close>, \<open>_download.py\<close> and \<open>_upload.py\<close>. The pipelines rely on the ids of
    the codec through the locale \<open>id_source\<close>; the upload's two tasks are a step relation.
  \<^item> \<open>SessionOps\<close>, \<open>Acts\<close>, \<open>Verify\<close>, \<open>Put\<close>, \<open>PutLaws\<close>, \<open>PublishLaws\<close>, \<open>PublishProps\<close>: \<open>session/_verify.py\<close>,
    \<open>_put.py\<close>, \<open>_publish.py\<close>, \<open>_handles.py\<close>. \<open>Acts\<close> is the vocabulary of every orchestration: a program
    over a world, which keeps each state it passes through, with the rule \<open>runs\<close> to reason about it.
  \<^item> \<open>Journal\<close>, \<open>JournalLaws\<close>, \<open>JournalProps\<close>: \<open>session/_journal.py\<close>, the log as bytes of a file.
  \<^item> \<open>Retry\<close>: \<open>session/_retry.py\<close>, \<open>_transient.py\<close>, \<open>_quirks.py\<close>; both ladders interpret \<open>retry_rule\<close>.
  \<^item> \<open>Glob\<close>, \<open>GlobLaws\<close>, \<open>RemotePath\<close>, \<open>RemotePathLaws\<close>, \<open>LocalPath\<close>: \<open>session/_glob.py\<close>, \<open>_recursive.py\<close>,
    the path algebra of \<open>path.py\<close>, \<open>_localpath.py\<close>; both collision ledgers interpret \<open>ledger\<close>.
  \<^item> \<open>Operations\<close>, \<open>OperationsLaws\<close>, \<open>Policy\<close>: \<open>session/_operations.py\<close>, \<open>_core.py\<close>, \<open>_listing.py\<close>,
    \<open>_policy.py\<close>. \<open>session_order\<close> carries a property of sessions through every call.
  \<^item> \<open>Traversal\<close>, \<open>TraversalLaws\<close>, \<open>RemovalLaws\<close>, \<open>RemoteFile\<close>, \<open>RemoteFileLaws\<close>, \<open>LocalTree\<close>, \<open>Mirror\<close>,
    \<open>MirrorProps\<close>, \<open>Transfers\<close>, \<open>Trees\<close>, \<open>TreeLaws\<close>, \<open>PlanLaws\<close>: the classes \<open>Session\<close> and \<open>RemoteFile\<close> of
    \<open>session/_session.py\<close>, with \<open>_localtree.py\<close>, \<open>_many.py\<close> and \<open>_sync.py\<close>.
  \<^item> \<open>Compatibility\<close>, \<open>CompatibilityLaws\<close>: \<open>compatibility.py\<close>, a battery of probes over the operations, each
    with the names it may have created; \<open>gentle_requests\<close> carries a bound on the server's files through it.
  \<^item> \<open>SshArgv\<close>, \<open>SshArgvLaws\<close>, \<open>Destination\<close>, \<open>DestinationLaws\<close>: \<open>transport/_argv.py\<close>, what \<open>ssh\<close> documents of
    reading its arguments being a predicate on a reader, and \<open>transport/_destination.py\<close> with \<open>fnmatch\<close>
    written out.

  \<^bold>\<open>What is shown.\<close> The codec: packets round-trip, decoding any bytes returns a packet or a
  \<open>ProtocolError\<close>, cutting the stream differently changes nothing, an error ends the connection for good,
  and each reply answers one request in flight. The dispatcher: replies reach the operation that asked, a
  failure reaches every waiter, frames stay whole however tasks and pieces interleave, handles that come
  for nobody are closed one by one. Transfers: what returns has moved the span, within the
  span and within the window, and an upload is never stuck. Publishing and the journal: the destination
  at every moment of an upload, the log after a crash at every byte. Trees: the walk is a preorder of what
  is there, removal removes exactly it, a download stays inside its destination whatever the server
  sends, a dry run only looks, a mirror of a directory converges, the compatibility battery leaves no file
  it does not report. Matching: the glob matcher and the path sweep decide
  their references. Retries are bounded; the command line of \<open>ssh\<close> says what was asked;
  the layers of allowed hosts only narrow, and what they check is what would be dialled.

  \<^bold>\<open>Where a promise has a limit, the theorem says it.\<close> A resumed upload that is not told to read the staged
  bytes back publishes them with the rest of the source. Compaction of a journal may forget an entry, and
  only where \<open>os.write\<close> takes a part of its buffer. Option names of \<open>ssh\<close> with a double quote or a leading
  \<open>#\<close> are not covered. That one task at a time writes to the pipe is the send lock, which is given.

  \<^bold>\<open>Parameters.\<close> What is not code of the repository is an argument: the server and the pipe (\<open>'w\<close>, with
  \<open>connection\<close> and \<open>session_ops\<close>), the operating system (\<open>local_disk\<close>, \<open>file_system\<close> and the writes of a
  sink), the digest, case folding and lower-casing, the clock and the random token. Hypotheses about them
  are named predicates and say what their documentation says; each has a concrete instance in a witness.

  \<^bold>\<open>Bounds and fuel.\<close> Loops over a buffer, a pattern or a window terminate by a measure. Loops over what a
  server or a disk goes on answering take fuel, and \<open>None\<close> means that the loop was still going: one unit
  is one entry of a directory (\<open>scan_fuel\<close>), one directory (\<open>fuel\<close>), or one reply of a transfer. The
  properties of walks say how much is enough: the number of directories of the tree, and for each listing
  its entries and one more for each batch. Where the statement holds at every fuel none is asked for.

  \<^bold>\<open>Not modelled.\<close> Running the subprocess, the sockets of the password prompt and the doctor's probes
  (\<open>transport/_subprocess.py\<close>, \<open>_askpass.py\<close>, \<open>doctor.py\<close>, \<open>__main__.py\<close>) are input and output. \<open>sync.py\<close>
  and \<open>fsspec.py\<close> give the session another interface. Logging, notes on exceptions,
  progress callbacks, \<open>__repr__\<close> and the wording for people decide nothing. Trees are moved with one
  worker at a time; with more, the group of \<open>session/_pool.py\<close> runs the same transfers interleaved.
  Floating-point timestamps are whole seconds.
\<close>

end
